(* ===== verification/Prelude.thy ===== *)
theory Prelude
  imports Main "HOL-Library.Word" "HOL-Library.Sublist" "HOL-Library.Multiset"
begin

text \<open>
  Shared vocabulary of the development: the fragment of Go's string library that the
  sources use, results of fallible code, Go's bounds-checked slicing, and the generic list
  lemmas the component theories rely on.

  A Go string is a sequence of bytes and is modelled as a \<^typ>\<open>string\<close>, one
  \<^typ>\<open>char\<close> per byte.  Go's case mapping and white-space tables are Unicode tables;
  the model gives them their ASCII part and leaves every byte above 127 alone, so the
  theorems about text speak about ASCII text (host names, rule kinds, actions, CIDRs, exit
  identifiers), on which both agree.
\<close>

named_theorems go_string "unfolding rules for the Go string operations"
named_theorems step_simps "equations that evaluate one step of a stateful operation"

section \<open>Results of fallible code\<close>

text \<open>A Go function with an error result returns \<open>Inl\<close> of the error or \<open>Inr\<close> of the value;
  a computation that may panic at run time returns an \<open>outcome\<close>.\<close>

type_synonym ('e, 'a) result = "'e + 'a"

datatype 'a outcome = Ret 'a | Panic

definition bindO :: "'a outcome \<Rightarrow> ('a \<Rightarrow> 'b outcome) \<Rightarrow> 'b outcome" where
  "bindO m f = (case m of Ret a \<Rightarrow> f a | Panic \<Rightarrow> Panic)"

lemma bindO_simps [simp]:
  "bindO (Ret a) f = f a"
  "bindO Panic f = Panic"
  by (simp_all add: bindO_def)

lemma bindO_Panic_iff: "bindO m f = Panic \<longleftrightarrow> m = Panic \<or> (\<exists>a. m = Ret a \<and> f a = Panic)"
  by (cases m) auto

text \<open>\<open>b[lo:hi]\<close> panics unless \<open>lo \<le> hi \<le> cap b\<close>; the slices of this program are cut from
  buffers whose capacity is their length.  \<open>b[i]\<close> panics unless \<open>i < len b\<close>.\<close>

definition slice :: "'a list \<Rightarrow> nat \<Rightarrow> nat \<Rightarrow> 'a list outcome" where
  "slice b lo hi = (if lo \<le> hi \<and> hi \<le> length b then Ret (take (hi - lo) (drop lo b)) else Panic)"

definition index :: "'a list \<Rightarrow> nat \<Rightarrow> 'a outcome" where
  "index b i = (if i < length b then Ret (b ! i) else Panic)"

lemma slice_Ret [simp]: "lo \<le> hi \<Longrightarrow> hi \<le> length b \<Longrightarrow> slice b lo hi = Ret (take (hi - lo) (drop lo b))"
  by (simp add: slice_def)

lemma index_Ret [simp]: "i < length b \<Longrightarrow> index b i = Ret (b ! i)"
  by (simp add: index_def)

section \<open>Go strings\<close>

definition is_space :: "char \<Rightarrow> bool" where
  "is_space c = (let n = (of_char c :: nat) in n = 32 \<or> (9 \<le> n \<and> n \<le> 13))"

definition lower_char :: "char \<Rightarrow> char" where
  "lower_char c = (let n = (of_char c :: nat) in if 65 \<le> n \<and> n \<le> 90 then char_of (n + 32) else c)"

definition upper_char :: "char \<Rightarrow> char" where
  "upper_char c = (let n = (of_char c :: nat) in if 97 \<le> n \<and> n \<le> 122 then char_of (n - 32) else c)"

definition ToLower :: "string \<Rightarrow> string" where
  "ToLower s = map lower_char s"

definition ToUpper :: "string \<Rightarrow> string" where
  "ToUpper s = map upper_char s"

definition TrimFunc :: "(char \<Rightarrow> bool) \<Rightarrow> string \<Rightarrow> string" where
  "TrimFunc p s = rev (dropWhile p (rev (dropWhile p s)))"

definition TrimSpace :: "string \<Rightarrow> string" where
  "TrimSpace s = TrimFunc is_space s"

definition HasPrefix :: "string \<Rightarrow> string \<Rightarrow> bool" where
  "HasPrefix s p = prefix p s"

definition HasSuffix :: "string \<Rightarrow> string \<Rightarrow> bool" where
  "HasSuffix s p = suffix p s"

definition TrimPrefix :: "string \<Rightarrow> string \<Rightarrow> string" where
  "TrimPrefix s p = (if HasPrefix s p then drop (length p) s else s)"

definition TrimSuffix :: "string \<Rightarrow> string \<Rightarrow> string" where
  "TrimSuffix s p = (if HasSuffix s p then take (length s - length p) s else s)"

definition Contains :: "string \<Rightarrow> string \<Rightarrow> bool" where
  "Contains s sub = sublist sub s"

definition ContainsAny :: "string \<Rightarrow> string \<Rightarrow> bool" where
  "ContainsAny s cs = list_ex (\<lambda>c. c \<in> set cs) s"

definition EqualFold :: "string \<Rightarrow> string \<Rightarrow> bool" where
  "EqualFold a b = (ToLower a = ToLower b)"

text \<open>\<open>strings.Split(s, sep)\<close> for a one-byte separator, and \<open>strings.Join\<close>.\<close>

fun Split :: "char \<Rightarrow> string \<Rightarrow> string list" where
  "Split c [] = [[]]"
| "Split c (x # xs) =
     (if x = c then [] # Split c xs
      else case Split c xs of [] \<Rightarrow> [[x]] | w # ws \<Rightarrow> (x # w) # ws)"

fun Join :: "string list \<Rightarrow> string \<Rightarrow> string" where
  "Join [] sep = []"
| "Join [w] sep = w"
| "Join (w # v # ws) sep = w @ sep @ Join (v # ws) sep"

text \<open>Characters compared by their code.\<close>

lemma char_code: "c = d \<longleftrightarrow> of_char c = (of_char d :: nat)"
  by simp

lemma lower_char_dot: "lower_char c = CHR ''.'' \<longleftrightarrow> c = CHR ''.''"
  unfolding char_code [of _ "CHR ''.''"] by (simp add: lower_char_def Let_def)

lemma HasSuffix_last: "HasSuffix s [c] \<longleftrightarrow> s \<noteq> [] \<and> last s = c"
  unfolding HasSuffix_def suffix_def by (metis append_butlast_last_id last_snoc snoc_eq_iff_butlast)

lemma ToLower_dot: "HasSuffix (ToLower s) ''.'' \<longleftrightarrow> HasSuffix s ''.''"
  unfolding HasSuffix_last ToLower_def by (auto simp: last_map lower_char_dot)

lemma TrimSpace_Nil [simp]: "TrimSpace [] = []"
  by (simp add: TrimSpace_def TrimFunc_def)

lemma TrimSpace_neq_Nil: "TrimSpace s \<noteq> [] \<Longrightarrow> s \<noteq> []"
  by auto

lemma TrimSpace_subset: "set (TrimSpace s) \<subseteq> set s"
  unfolding TrimSpace_def TrimFunc_def by (metis set_dropWhileD set_rev subsetI)

lemma Split_neq_Nil [simp]: "Split c s \<noteq> []"
  by (induction s) (auto split: list.split)

lemma Join_Cons: "ws \<noteq> [] \<Longrightarrow> Join (w # ws) sep = w @ sep @ Join ws sep"
  by (cases ws) auto

lemma Join_append:
  "ps \<noteq> [] \<Longrightarrow> ws \<noteq> [] \<Longrightarrow> Join (ps @ ws) sep = Join ps sep @ sep @ Join ws sep"
  by (induction ps rule: list_nonempty_induct) (auto simp: Join_Cons)

lemma Join_Split [simp]: "Join (Split c s) [c] = s"
proof (induction s)
  case (Cons x xs)
  show ?case
  proof (cases "Split c xs")
    case (Cons w ws)
    with Cons.IH show ?thesis by (cases ws) (auto simp: Join_Cons)
  qed simp
qed simp

lemma Split_inject [simp]: "Split c a = Split c b \<longleftrightarrow> a = b"
  by (metis Join_Split)

lemma Split_append: "Split c (xs @ c # ys) = Split c xs @ Split c ys"
proof (induction xs)
  case (Cons x xs)
  then show ?case by (cases "Split c xs") auto
qed simp

lemma Split_no_sep: "w \<in> set (Split c s) \<Longrightarrow> c \<notin> set w"
proof (induction s arbitrary: w)
  case (Cons x xs)
  then show ?case by (cases "Split c xs") (auto split: if_splits)
qed simp

text \<open>A name ends in the labels of another exactly when it is that name or ends in a separator
  followed by it.\<close>

lemma suffix_Split: "suffix (Split c s) (Split c d) \<longleftrightarrow> d = s \<or> suffix (c # s) d"
proof
  assume "suffix (Split c s) (Split c d)"
  then obtain ps where ps: "Split c d = ps @ Split c s" by (auto simp: suffix_def)
  show "d = s \<or> suffix (c # s) d"
  proof (cases "ps = []")
    case False
    have "d = Join (Split c d) [c]" by simp
    also have "\<dots> = Join ps [c] @ c # s" using False by (simp add: ps Join_append)
    finally show ?thesis by (auto simp: suffix_def)
  qed (use ps in simp)
next
  assume "d = s \<or> suffix (c # s) d"
  then show "suffix (Split c s) (Split c d)"
    by (auto simp: suffix_def Split_append)
qed

section \<open>List search, splitting and stable sorting\<close>

lemma find_append: "find P (xs @ ys) = (case find P xs of None \<Rightarrow> find P ys | Some x \<Rightarrow> Some x)"
  by (induction xs) auto

lemma find_None_conv: "find P xs = None \<longleftrightarrow> (\<forall>x\<in>set xs. \<not> P x)"
  by (induction xs) auto

lemma find_Some_in: "find P xs = Some x \<Longrightarrow> x \<in> set xs \<and> P x"
  by (induction xs) (auto split: if_splits)

lemma Split_single: "c \<notin> set w \<Longrightarrow> Split c w = [w]"
  by (induction w) auto

lemma Split_Join: "ws \<noteq> [] \<Longrightarrow> (\<And>w. w \<in> set ws \<Longrightarrow> c \<notin> set w) \<Longrightarrow> Split c (Join ws [c]) = ws"
proof (induction ws rule: list_nonempty_induct)
  case (single w)
  then show ?case by (simp add: Split_single)
next
  case (cons w ws)
  then show ?case by (simp add: Join_Cons Split_append Split_single)
qed

lemma not_ContainsAny: "\<not> ContainsAny s cs \<Longrightarrow> c \<in> set cs \<Longrightarrow> c \<notin> set s"
  by (auto simp: ContainsAny_def list_ex_iff)

text \<open>A stable sort leaves an element last that no earlier element exceeds and every later
  element undercuts.\<close>

lemma sort_key_snoc:
  fixes k :: "'a \<Rightarrow> 'b::linorder"
  assumes "\<And>a. a \<in> set as \<Longrightarrow> k a \<le> k x" and "\<And>b. b \<in> set bs \<Longrightarrow> k b < k x"
  shows "sort_key k (as @ x # bs) = sort_key k (as @ bs) @ [x]"
proof (rule properties_for_sort_key)
  show "mset (sort_key k (as @ bs) @ [x]) = mset (as @ x # bs)" by simp
  show "sorted (map k (sort_key k (as @ bs) @ [x]))"
    using assms by (auto simp: sorted_append intro: less_imp_le)
  fix y
  have "filter (\<lambda>z. k x = k z) bs = []" using assms(2) by (fastforce simp: filter_empty_conv)
  then show "filter (\<lambda>z. k y = k z) (sort_key k (as @ bs) @ [x]) = filter (\<lambda>z. k y = k z) (as @ x # bs)"
    using sort_key_stable [of k "k y" "as @ bs"] by (auto simp: eq_commute)
qed

lemma last_sort_key:
  fixes k :: "'a \<Rightarrow> 'b::linorder"
  assumes "xs \<noteq> []"
  defines "x \<equiv> last (sort_key k xs)"
  shows "\<And>y. y \<in> set xs \<Longrightarrow> k y \<le> k x" "x = last (filter (\<lambda>y. k y = k x) xs)"
proof -
  obtain zs where zs: "sort_key k xs = zs @ [x]"
    using assms(1) unfolding x_def by (metis append_butlast_last_id length_0_conv length_sort)
  have "sorted (map k (zs @ [x]))" unfolding zs [symmetric] by simp
  then have le: "k y \<le> k x" if "y \<in> set (zs @ [x])" for y
    using that by (auto simp: sorted_append)
  show "\<And>y. y \<in> set xs \<Longrightarrow> k y \<le> k x" using le unfolding zs [symmetric] by simp
  have "filter (\<lambda>y. k y = k x) xs = filter (\<lambda>y. k y = k x) (zs @ [x])"
    unfolding zs [symmetric] using sort_key_stable [of k "k x" xs] by simp
  then show "x = last (filter (\<lambda>y. k y = k x) xs)" by simp
qed

end
