(* ===== verification/NetAddr.thy ===== *)
theory NetAddr
  imports Prelude
begin

unbundle bit_operations_syntax

text \<open>
  IP addresses and prefixes as the sources use them through Go's \<open>net\<close> and \<open>net/netip\<close>
  packages: \<open>netip.Addr\<close> and \<open>netip.Prefix\<close> with their text parsers, and the older
  byte-slice \<open>net.IP\<close> and \<open>net.IPNet\<close>.  These are standard-library operations; the
  theories \<open>Rules\<close>, \<open>RuleTable\<close>, \<open>Resolver\<close>, \<open>Access\<close> and \<open>Netguard\<close> model the code
  that calls them.
\<close>

type_synonym byte = "8 word"

section \<open>Addresses and prefixes (\<open>net/netip\<close>)\<close>

text \<open>\<open>Addr6 a z\<close> carries the scope zone \<open>z\<close>, empty when there is none.\<close>

datatype Addr = AddrInvalid | Addr4 "32 word" | Addr6 "128 word" string

record Prefix =
  pfx_ip :: Addr
  pfx_bits :: nat

definition Addr_IsValid :: "Addr \<Rightarrow> bool" where
  "Addr_IsValid a = (a \<noteq> AddrInvalid)"

definition Addr_BitLen :: "Addr \<Rightarrow> nat" where
  "Addr_BitLen a = (case a of AddrInvalid \<Rightarrow> 0 | Addr4 _ \<Rightarrow> 32 | Addr6 _ _ \<Rightarrow> 128)"

text \<open>\<open>Unmap\<close> turns an IPv4-mapped IPv6 address \<open>::ffff:a.b.c.d\<close> into the IPv4 address.\<close>

definition Addr_Unmap :: "Addr \<Rightarrow> Addr" where
  "Addr_Unmap a = (case a of
      Addr6 w z \<Rightarrow> if drop_bit 32 w = 0xFFFF then Addr4 (ucast w) else a
    | _ \<Rightarrow> a)"

definition Addr_IsLoopback :: "Addr \<Rightarrow> bool" where
  "Addr_IsLoopback a = (case a of
      AddrInvalid \<Rightarrow> False
    | Addr4 w \<Rightarrow> drop_bit 24 w = 127
    | Addr6 w z \<Rightarrow> if drop_bit 32 w = 0xFFFF then drop_bit 24 (ucast w :: 32 word) = 127 else w = 1)"

definition Prefix_Contains :: "Prefix \<Rightarrow> Addr \<Rightarrow> bool" where
  "Prefix_Contains p ip = (case (pfx_ip p, ip) of
      (Addr4 a, Addr4 b) \<Rightarrow> drop_bit (32 - pfx_bits p) (a XOR b) = 0
    | (Addr6 a _, Addr6 b z) \<Rightarrow> z = [] \<and> drop_bit (128 - pfx_bits p) (a XOR b) = 0
    | _ \<Rightarrow> False)"

section \<open>Text parsers\<close>

definition is_digit :: "char \<Rightarrow> bool" where
  "is_digit c = (let n = (of_char c :: nat) in 48 \<le> n \<and> n \<le> 57)"

definition digit_val :: "char \<Rightarrow> nat" where
  "digit_val c = of_char c - 48"

definition dec_val :: "string \<Rightarrow> nat" where
  "dec_val s = foldl (\<lambda>n c. 10 * n + digit_val c) 0 s"

definition hex_val :: "char \<Rightarrow> nat option" where
  "hex_val c = (let n = (of_char c :: nat) in
     if 48 \<le> n \<and> n \<le> 57 then Some (n - 48)
     else if 97 \<le> n \<and> n \<le> 102 then Some (n - 87)
     else if 65 \<le> n \<and> n \<le> 70 then Some (n - 55)
     else None)"

text \<open>One octet: digits only, no leading zero, at most 255.\<close>

definition octet :: "string \<Rightarrow> nat option" where
  "octet s = (if s \<noteq> [] \<and> list_all is_digit s \<and> (hd s = CHR ''0'' \<longrightarrow> length s = 1) \<and> dec_val s \<le> 255
     then Some (dec_val s) else None)"

definition parseIPv4Fields :: "string \<Rightarrow> nat list option" where
  "parseIPv4Fields s = (case map octet (Split (CHR ''.'') s) of
      [Some a, Some b, Some c, Some d] \<Rightarrow> Some [a, b, c, d]
    | _ \<Rightarrow> None)"

definition word_of_bytes :: "nat list \<Rightarrow> 'a::len word" where
  "word_of_bytes bs = foldl (\<lambda>w b. push_bit 8 w OR of_nat b) 0 bs"

definition parseIPv4 :: "string \<Rightarrow> Addr option" where
  "parseIPv4 s = map_option (\<lambda>bs. Addr4 (word_of_bytes bs)) (parseIPv4Fields s)"

text \<open>The colon-separated fields of an IPv6 address.  The state of Go's loop is the bytes
  saved so far and the position of the ellipsis; fuel 8 is its bound of eight fields.\<close>

definition hex_run :: "string \<Rightarrow> string" where
  "hex_run s = takeWhile (\<lambda>c. hex_val c \<noteq> None) s"

definition hex_num :: "string \<Rightarrow> nat" where
  "hex_num s = foldl (\<lambda>n c. 16 * n + (case hex_val c of Some d \<Rightarrow> d | None \<Rightarrow> 0)) 0 s"

fun ipv6_fields :: "nat \<Rightarrow> string \<Rightarrow> nat list \<Rightarrow> nat option \<Rightarrow> (nat list \<times> nat option \<times> string) option" where
  "ipv6_fields 0 s ip ell = Some (ip, ell, s)"
| "ipv6_fields (Suc n) s ip ell =
     (let h = hex_run s; rest = drop (length h) s in
      if h = [] \<or> length h > 4 then None
      else if rest \<noteq> [] \<and> hd rest = CHR ''.'' then
        (if ell = None \<and> length ip \<noteq> 12 then None
         else if length ip + 4 > 16 then None
         else case parseIPv4Fields s of None \<Rightarrow> None | Some bs \<Rightarrow> Some (ip @ bs, ell, []))
      else
        let v = hex_num h; ip' = ip @ [v div 256, v mod 256] in
        if rest = [] then Some (ip', ell, [])
        else if hd rest \<noteq> CHR '':'' \<or> length rest = 1 then None
        else
          let s' = tl rest in
          if hd s' = CHR '':'' then
            (if ell \<noteq> None then None
             else if tl s' = [] then Some (ip', Some (length ip'), [])
             else ipv6_fields n (tl s') ip' (Some (length ip')))
          else ipv6_fields n s' ip' ell)"

definition parseIPv6 :: "string \<Rightarrow> Addr option" where
  "parseIPv6 inp =
     (let s = takeWhile (\<lambda>c. c \<noteq> CHR ''%'') inp;
          tail = drop (length s) inp;
          zone = tl tail in
      if tail \<noteq> [] \<and> zone = [] then None
      else
        let lead = prefix ''::'' s; s1 = (if lead then drop 2 s else s) in
        if lead \<and> s1 = [] then Some (Addr6 0 zone)
        else case ipv6_fields 8 s1 [] (if lead then Some 0 else None) of
            None \<Rightarrow> None
          | Some (ip, ell, rest) \<Rightarrow>
              if rest \<noteq> [] then None
              else if length ip < 16 then
                (case ell of None \<Rightarrow> None
                 | Some e \<Rightarrow> Some (Addr6 (word_of_bytes
                     (take e ip @ replicate (16 - length ip) 0 @ drop e ip)) zone))
              else if ell \<noteq> None then None
              else Some (Addr6 (word_of_bytes ip) zone))"

text \<open>\<open>netip.ParseAddr\<close> dispatches on the first of \<open>.\<close>, \<open>:\<close> and \<open>%\<close>.\<close>

definition ParseAddr :: "string \<Rightarrow> Addr option" where
  "ParseAddr s = (case find (\<lambda>c. c \<in> set ''.:%'') s of
      Some c \<Rightarrow> if c = CHR ''.'' then parseIPv4 s else if c = CHR '':'' then parseIPv6 s else None
    | None \<Rightarrow> None)"

definition Addr_zone :: "Addr \<Rightarrow> string" where
  "Addr_zone a = (case a of Addr6 _ z \<Rightarrow> z | _ \<Rightarrow> [])"

text \<open>\<open>netip.ParsePrefix\<close>: split at the last slash, no zone, a decimal length without sign
  or leading zero.\<close>

definition ParsePrefix :: "string \<Rightarrow> Prefix option" where
  "ParsePrefix s =
     (if CHR ''/'' \<notin> set s then None
      else
        let bitsStr = rev (takeWhile (\<lambda>c. c \<noteq> CHR ''/'') (rev s));
            addr = take (length s - length bitsStr - 1) s in
        case ParseAddr addr of None \<Rightarrow> None
        | Some ip \<Rightarrow>
            if Addr_zone ip \<noteq> [] then None
            else if bitsStr = [] \<or> \<not> list_all is_digit bitsStr
                    \<or> (length bitsStr > 1 \<and> hd bitsStr = CHR ''0'') then None
            else if dec_val bitsStr > Addr_BitLen ip then None
            else Some \<lparr>pfx_ip = ip, pfx_bits = dec_val bitsStr\<rparr>)"

section \<open>Byte-slice addresses (\<open>net\<close>)\<close>

text \<open>A \<open>net.IP\<close> is a byte slice: empty for nil, 4 bytes, or 16 bytes.\<close>

type_synonym IP = "byte list"

record IPNet =
  net_IP :: IP
  net_Mask :: "byte list"

definition v4InV6Prefix :: "byte list" where
  "v4InV6Prefix = replicate 10 0 @ [0xFF, 0xFF]"

definition To4 :: "IP \<Rightarrow> IP option" where
  "To4 ip = (if length ip = 4 then Some ip
     else if length ip = 16 \<and> take 12 ip = v4InV6Prefix then Some (drop 12 ip)
     else None)"

definition To16 :: "IP \<Rightarrow> IP option" where
  "To16 ip = (if length ip = 4 then Some (v4InV6Prefix @ ip)
     else if length ip = 16 then Some ip
     else None)"

definition networkNumberAndMask :: "IPNet \<Rightarrow> (IP \<times> byte list) option" where
  "networkNumberAndMask n =
     (let ip = (case To4 (net_IP n) of Some v \<Rightarrow> v | None \<Rightarrow> net_IP n); m = net_Mask n in
      if length ip \<noteq> 4 \<and> length ip \<noteq> 16 then None
      else if length m = 4 then (if length ip \<noteq> 4 then None else Some (ip, m))
      else if length m = 16 then Some (ip, if length ip = 4 then drop 12 m else m)
      else None)"

definition IPNet_Contains :: "IPNet \<Rightarrow> IP \<Rightarrow> bool" where
  "IPNet_Contains n ip = (case networkNumberAndMask n of
      None \<Rightarrow> ip = []
    | Some (nn, m) \<Rightarrow>
        let x = (case To4 ip of Some v \<Rightarrow> v | None \<Rightarrow> ip) in
        length x = length nn \<and>
        list_all2 (\<lambda>(a, k) b. a AND k = b AND k) (zip nn m) x)"

definition bytes_of_word :: "nat \<Rightarrow> 'a::len word \<Rightarrow> byte list" where
  "bytes_of_word k w = map (\<lambda>i. ucast (drop_bit (8 * (k - 1 - i)) w)) [0..<k]"

definition Addr_As16 :: "Addr \<Rightarrow> IP" where
  "Addr_As16 a = (case a of
      AddrInvalid \<Rightarrow> replicate 16 0
    | Addr4 w \<Rightarrow> v4InV6Prefix @ bytes_of_word 4 w
    | Addr6 w _ \<Rightarrow> bytes_of_word 16 w)"

text \<open>\<open>netip.AddrFromSlice\<close> reads 4 or 16 bytes and refuses every other length.\<close>

definition AddrFromSlice :: "IP \<Rightarrow> Addr option" where
  "AddrFromSlice ip =
     (if length ip = 4 then Some (Addr4 (word_of_bytes (map unat ip)))
      else if length ip = 16 then Some (Addr6 (word_of_bytes (map unat ip)) [])
      else None)"

definition CIDRMask :: "nat \<Rightarrow> nat \<Rightarrow> byte list" where
  "CIDRMask ones bits = map (\<lambda>i. NOT (mask (8 - min 8 (ones - 8 * i)) :: byte)) [0..<bits div 8]"

text \<open>\<open>net.IP.Mask\<close> for the masks \<open>CIDRMask\<close> builds.\<close>

definition IP_Mask :: "IP \<Rightarrow> byte list \<Rightarrow> IP" where
  "IP_Mask ip m =
     (let ip' = (if length m = 4 \<and> length ip = 16 \<and> take 12 ip = v4InV6Prefix then drop 12 ip else ip) in
      if length ip' \<noteq> length m then [] else map2 (AND) ip' m)"

text \<open>\<open>net.ParseCIDR\<close>: split at the first slash, no zone, decimal length (leading zeros are
  allowed, values of seven digits and more are refused by \<open>dtoi\<close>).\<close>

definition ParseCIDR :: "string \<Rightarrow> (IP \<times> IPNet) option" where
  "ParseCIDR s =
     (let addr = takeWhile (\<lambda>c. c \<noteq> CHR ''/'') s; rest = drop (length addr) s in
      if rest = [] then None
      else case ParseAddr addr of None \<Rightarrow> None
      | Some ip \<Rightarrow>
          let ms = tl rest in
          if Addr_zone ip \<noteq> [] then None
          else if ms = [] \<or> \<not> list_all is_digit ms \<or> dec_val ms > Addr_BitLen ip then None
          else
            let m = CIDRMask (dec_val ms) (Addr_BitLen ip) in
            Some (Addr_As16 ip, \<lparr>net_IP = IP_Mask (Addr_As16 ip) m, net_Mask = m\<rparr>))"

text \<open>\<open>net.ParseIP\<close>: \<open>netip.ParseAddr\<close> without zones, as 16 bytes.\<close>

definition ParseIP :: "string \<Rightarrow> IP option" where
  "ParseIP s = (case ParseAddr s of None \<Rightarrow> None
     | Some a \<Rightarrow> if Addr_zone a \<noteq> [] then None else Some (Addr_As16 a))"

text \<open>\<open>net.SplitHostPort\<close>.\<close>

definition last_colon :: "string \<Rightarrow> nat option" where
  "last_colon s = (if CHR '':'' \<in> set s then Some (length s - 1 - length (takeWhile (\<lambda>c. c \<noteq> CHR '':'') (rev s))) else None)"

definition split_at :: "string \<Rightarrow> nat \<Rightarrow> string \<Rightarrow> nat \<Rightarrow> nat \<Rightarrow> (string \<times> string) option" where
  "split_at s i host j k = (if CHR ''['' \<in> set (drop j s) \<or> CHR '']'' \<in> set (drop k s) then None else Some (host, drop (i + 1) s))"

definition SplitHostPort :: "string \<Rightarrow> (string \<times> string) option" where
  "SplitHostPort s = (case last_colon s of None \<Rightarrow> None
     | Some i \<Rightarrow>
         if hd s = CHR ''['' then
           (let e = length (takeWhile (\<lambda>c. c \<noteq> CHR '']'') s) in
            if e = length s \<or> e + 1 \<noteq> i then None else split_at s i (take (e - 1) (tl s)) 1 (e + 1))
         else if CHR '':'' \<in> set (take i s) then None
         else split_at s i (take i s) 0 0)"

section \<open>Words, octets and prefixes\<close>

lemma word_of_bytes_snoc: "(word_of_bytes (bs @ [b]) :: 'a::len word) = push_bit 8 (word_of_bytes bs) OR of_nat b"
  by (simp add: word_of_bytes_def)

lemma unat_word_of_bytes:
  "list_all (\<lambda>b. b < 256) bs \<Longrightarrow> 8 * length bs \<le> LENGTH('a) \<Longrightarrow>
     unat (word_of_bytes bs :: 'a::len word) = foldl (\<lambda>n b. 256 * n + b) 0 bs \<and> foldl (\<lambda>n b. 256 * n + b) 0 bs < 2 ^ (8 * length bs)"
proof (induction bs rule: rev_induct)
  case Nil
  then show ?case by (simp add: word_of_bytes_def)
next
  case (snoc b bs)
  let ?n = "foldl (\<lambda>n b. 256 * n + b) 0 bs"
  have b: "b < 256" and IH: "unat (word_of_bytes bs :: 'a word) = ?n" "?n < 2 ^ (8 * length bs)" using snoc by auto
  have bound: "256 * ?n + b < 2 ^ (8 * length (bs @ [b]))" using b IH(2) by (simp add: power_add)
  have le: "8 * length bs + 8 \<le> LENGTH('a)" using snoc.prems(2) by simp
  then have big: "(2::nat) ^ (8 * length bs + 8) \<le> 2 ^ LENGTH('a)" by (intro power_increasing) simp_all
  have "push_bit 8 (word_of_bytes bs :: 'a word) OR of_nat b = push_bit 8 (word_of_bytes bs) + of_nat b"
  proof (rule disjunctive_add [symmetric])
    fix n
    have "\<not> bit b n" if "8 \<le> n"
    proof -
      have "b div 2 ^ n = 0" using b power_increasing [OF that, of "2::nat"] by (simp add: div_eq_0_iff)
      then show ?thesis by (simp add: bit_iff_odd)
    qed
    then show "\<not> bit (push_bit 8 (word_of_bytes bs) :: 'a word) n \<or> \<not> bit (of_nat b :: 'a word) n"
      by (auto simp: bit_simps)
  qed
  also have "\<dots> = of_nat (256 * ?n + b)"
    using IH(1) by (simp add: push_bit_eq_mult flip: IH(1))
  finally have "(word_of_bytes (bs @ [b]) :: 'a word) = of_nat (256 * ?n + b)" by (simp add: word_of_bytes_snoc)
  moreover have "256 * ?n + b < 2 ^ LENGTH('a)" using bound big by (simp add: power_add)
  ultimately have "unat (word_of_bytes (bs @ [b]) :: 'a word) = 256 * ?n + b" by (simp only: unat_of_nat mod_less)
  then show ?case using bound by simp
qed

lemma xor_zero: "(x XOR y :: 'a::len word) = 0 \<longleftrightarrow> x = y"
  by (auto simp: bit_eq_iff bit_simps)

lemma drop_bit_same: "drop_bit n (a XOR b :: 'a::len word) = 0 \<longleftrightarrow> unat a div 2 ^ n = unat b div 2 ^ n"
proof -
  have "drop_bit n (a XOR b) = 0 \<longleftrightarrow> drop_bit n a = drop_bit n b" by (simp only: drop_bit_xor xor_zero)
  also have "\<dots> \<longleftrightarrow> unat (drop_bit n a) = unat (drop_bit n b)" by (simp only: word_unat_eq_iff)
  finally show ?thesis by (simp only: unsigned_drop_bit_eq) (simp add: drop_bit_eq_div take_bit_eq_mod)
qed

lemma contains4: "Prefix_Contains \<lparr>pfx_ip = Addr4 a, pfx_bits = n\<rparr> (Addr4 w) \<longleftrightarrow> unat a div 2 ^ (32 - n) = unat w div 2 ^ (32 - n)"
  unfolding Prefix_Contains_def Prefix.simps Addr.case prod.case drop_bit_same ..

lemma contains6: "Prefix_Contains \<lparr>pfx_ip = Addr6 a z, pfx_bits = n\<rparr> (Addr6 w []) \<longleftrightarrow> unat a div 2 ^ (128 - n) = unat w div 2 ^ (128 - n)"
  unfolding Prefix_Contains_def Prefix.simps Addr.case prod.case drop_bit_same by simp


lemma contains46: "\<not> Prefix_Contains \<lparr>pfx_ip = Addr6 a z, pfx_bits = n\<rparr> (Addr4 w)"
  by (simp add: Prefix_Contains_def)

lemma contains64: "\<not> Prefix_Contains \<lparr>pfx_ip = Addr4 a, pfx_bits = n\<rparr> (Addr6 w z)"
  by (simp add: Prefix_Contains_def)

lemma unat_byte: "unat (b :: byte) < 256" "unat b \<le> 255"
  proof -
  have "unat b < 2 ^ LENGTH(8)" by (rule unsigned_less)
  then show "unat b < 256" "unat b \<le> 255" by simp_all
qed

lemma unat_octets: "unat (word_of_bytes [unat a, unat b, unat c, unat d] :: 32 word) =
    unat (a :: byte) * 16777216 + unat (b :: byte) * 65536 + unat (c :: byte) * 256 + unat (d :: byte)"
  using unat_word_of_bytes [of "[unat a, unat b, unat c, unat d]", where 'a = 32] by (simp add: unat_byte algebra_simps)

lemma loopback4: "Addr_IsLoopback (Addr4 w) \<longleftrightarrow> unat w div 2 ^ 24 = 127"
proof -
  have "unat w < 2 ^ LENGTH(32)" by (rule unsigned_less)
  then have lt: "unat w mod 4294967296 = unat w" by simp
  have "drop_bit 24 w = 127 \<longleftrightarrow> unat (drop_bit 24 w) = 127" by (simp only: word_unat_eq_iff) simp
  then show ?thesis by (simp only: Addr_IsLoopback_def Addr.case unsigned_drop_bit_eq) (simp add: drop_bit_eq_div take_bit_eq_mod lt)
qed

lemma octet_divs:
  fixes ua ub uc ud :: nat
  assumes "ua \<le> 255" "ub \<le> 255" "uc \<le> 255" "ud \<le> 255" "n = ua * 16777216 + ub * 65536 + uc * 256 + ud"
  shows "n div 16777216 = ua" "n div 1048576 = ua * 16 + ub div 16" "n div 65536 = ua * 256 + ub"
proof -
  define q r where "q = ub div 16" and "r = ub mod 16"
  then have r: "ub = 16 * q + r" "r \<le> 15" by (simp_all add: r_def)
  then have "n = (ua * 16 + q) * 1048576 + (r * 65536 + uc * 256 + ud)" using assms(5) by simp
  moreover have "r * 65536 + uc * 256 + ud < 1048576" using assms r(2) by linarith
  ultimately show "n div 1048576 = ua * 16 + ub div 16"
    unfolding q_def [symmetric] by (intro div_nat_eqI) simp_all
  show "n div 16777216 = ua" using assms by (intro div_nat_eqI; simp)
  show "n div 65536 = ua * 256 + ub" using assms by (intro div_nat_eqI; simp)
qed

lemma default_v4:
  assumes "n = ua * 16777216 + ub * 65536 + uc * 256 + ud" "ua \<le> 255" "ub \<le> 255" "uc \<le> 255" "ud \<le> (255 :: nat)"
  shows "10 = n div 16777216 \<longleftrightarrow> ua = 10" "127 = n div 16777216 \<longleftrightarrow> ua = 127" "n div 16777216 = 127 \<longleftrightarrow> ua = 127"
    "2753 = n div 1048576 \<longleftrightarrow> ua = 172 \<and> 16 \<le> ub \<and> ub \<le> 31" "49320 = n div 65536 \<longleftrightarrow> ua = 192 \<and> ub = 168"
proof -
  note d = octet_divs [OF assms(2-5,1)]
  define q where "q = ub div 16"
  have "q < 16" using assms(3) by (simp add: q_def less_mult_imp_div_less)
  then have "2753 = ua * 16 + q \<longleftrightarrow> ua = 172 \<and> q = 1" by presburger
  then have "2753 = ua * 16 + ub div 16 \<longleftrightarrow> ua = 172 \<and> ub div 16 = 1" by (simp only: q_def)
  also have "\<dots> \<longleftrightarrow> ua = 172 \<and> 16 \<le> ub \<and> ub \<le> 31" by auto
  finally show "2753 = n div 1048576 \<longleftrightarrow> ua = 172 \<and> 16 \<le> ub \<and> ub \<le> 31" unfolding d .
  show "49320 = n div 65536 \<longleftrightarrow> ua = 192 \<and> ub = 168" unfolding d using assms(3) by presburger
qed (auto simp: octet_divs [OF assms(2-5,1)])

end
