(* ===== verification/Rules.thy ===== *)
theory Rules
  imports NetAddr "HOL-Library.List_Lexorder" "HOL-Library.Char_ord" "HOL-Library.Multiset"
begin

text \<open>
  The rule model of \<open>internal/rules\<close>: rules and rule sets with their validation
  (\<open>model.go\<close>), the fall-through target (\<open>fallthrough.go\<close>), the content hash
  (\<open>hash.go\<close>), the static dry run (\<open>dryrun.go\<close>) and the YAML entry point
  (\<open>parse.go\<close>).  The domain-name check of the DNS library, the YAML codec and SHA-256
  are parameters of the definitions that use them.
\<close>

section \<open>Rules and their validation (\<open>model.go\<close>)\<close>

type_synonym Kind = string

definition KindDomain :: Kind where "KindDomain = ''DOMAIN''"
definition KindDomainSuffix :: Kind where "KindDomainSuffix = ''DOMAIN-SUFFIX''"
definition KindDomainKeyword :: Kind where "KindDomainKeyword = ''DOMAIN-KEYWORD''"
definition KindGeoSite :: Kind where "KindGeoSite = ''GEOSITE''"
definition KindGeoIP :: Kind where "KindGeoIP = ''GEOIP''"
definition KindIPCIDR :: Kind where "KindIPCIDR = ''IP-CIDR''"
definition KindRuleSet :: Kind where "KindRuleSet = ''RULE-SET''"
definition KindMatch :: Kind where "KindMatch = ''MATCH''"

lemmas kind_defs = KindDomain_def KindDomainSuffix_def KindDomainKeyword_def KindGeoSite_def
  KindGeoIP_def KindIPCIDR_def KindRuleSet_def KindMatch_def

definition allKinds :: "Kind list" where
  "allKinds = [KindDomain, KindDomainSuffix, KindDomainKeyword, KindGeoSite, KindGeoIP,
     KindIPCIDR, KindRuleSet, KindMatch]"

text \<open>\<open>Priority\<close> is a Go \<open>int\<close>: a value of the 64-bit range \<open>int64_range\<close>.\<close>

record Rule =
  rule_ID :: string
  rule_Kind :: Kind
  rule_Pattern :: string
  rule_Action :: string
  rule_Priority :: int
  rule_Enabled :: bool
  rule_Notes :: string
  rule_GroupID :: string

type_synonym RuleSet = "Rule list"

datatype rule_error =
    ErrIDRequired
  | ErrUnknownKind string Kind
  | ErrPatternRequired string Kind
  | ErrActionRequired string
  | ErrActionDelimiter string
  | ErrPatternDelimiter string
  | ErrDomainPattern string string
  | ErrCIDRPattern string string
  | ErrMatchPattern string
  | ErrMatchAction string
  | ErrDuplicateID string
  | ErrManyMatch
  | ErrMatchNotLast

definition ToMihomoLine :: "Rule \<Rightarrow> (rule_error, string) result" where
  "ToMihomoLine r =
     (if rule_Kind r = KindMatch then
        if TrimSpace (rule_Action r) = [] then Inl (ErrMatchAction (rule_ID r))
        else Inr (''MATCH,'' @ rule_Action r)
      else if TrimSpace (rule_Pattern r) = [] then Inl (ErrPatternRequired (rule_ID r) (rule_Kind r))
      else if TrimSpace (rule_Action r) = [] then Inl (ErrActionRequired (rule_ID r))
      else Inr (rule_Kind r @ '','' @ rule_Pattern r @ '','' @ rule_Action r))"

definition csv_delims :: string where
  "csv_delims = [CHR '','', CHR 0x0D, CHR 0x0A]"

definition Rule_Validate :: "(string \<Rightarrow> bool) \<Rightarrow> Rule \<Rightarrow> rule_error option" where
  "Rule_Validate isDomainName r =
     (if TrimSpace (rule_ID r) = [] then Some ErrIDRequired
      else if rule_Kind r \<notin> set allKinds then Some (ErrUnknownKind (rule_ID r) (rule_Kind r))
      else if rule_Kind r \<noteq> KindMatch \<and> TrimSpace (rule_Pattern r) = []
        then Some (ErrPatternRequired (rule_ID r) (rule_Kind r))
      else if TrimSpace (rule_Action r) = [] then Some (ErrActionRequired (rule_ID r))
      else if ContainsAny (rule_Action r) csv_delims then Some (ErrActionDelimiter (rule_ID r))
      else if ContainsAny (rule_Pattern r) csv_delims then Some (ErrPatternDelimiter (rule_ID r))
      else if rule_Kind r = KindDomain \<or> rule_Kind r = KindDomainSuffix then
        (if isDomainName (TrimSpace (rule_Pattern r)) then None
         else Some (ErrDomainPattern (rule_ID r) (rule_Pattern r)))
      else if rule_Kind r = KindIPCIDR then
        (if ParseCIDR (TrimSpace (rule_Pattern r)) \<noteq> None then None
         else Some (ErrCIDRPattern (rule_ID r) (rule_Pattern r)))
      else if rule_Kind r = KindMatch then
        (if TrimSpace (rule_Pattern r) = [] then None else Some (ErrMatchPattern (rule_ID r)))
      else None)"

text \<open>\<open>RuleSet.Validate\<close>: the first loop validates each rule, refuses a repeated ID and
  remembers how many MATCH rules there are and the index of the latest one; the second loop
  checks that no rule sorts behind the MATCH rule.\<close>

fun RuleSet_scan :: "(string \<Rightarrow> bool) \<Rightarrow> nat \<Rightarrow> string list \<Rightarrow> nat \<Rightarrow> nat option \<Rightarrow> Rule list \<Rightarrow>
    (rule_error, nat \<times> nat option) result" where
  "RuleSet_scan isDN i seen matchCount matchIndex [] = Inr (matchCount, matchIndex)"
| "RuleSet_scan isDN i seen matchCount matchIndex (r # rs) =
     (case Rule_Validate isDN r of
        Some e \<Rightarrow> Inl e
      | None \<Rightarrow>
          if rule_ID r \<in> set seen then Inl (ErrDuplicateID (rule_ID r))
          else if rule_Kind r = KindMatch
            then RuleSet_scan isDN (Suc i) (rule_ID r # seen) (Suc matchCount) (Some i) rs
          else RuleSet_scan isDN (Suc i) (rule_ID r # seen) matchCount matchIndex rs)"

definition sorts_behind :: "Rule list \<Rightarrow> nat \<Rightarrow> nat \<Rightarrow> bool" where
  "sorts_behind rs m i = (i \<noteq> m \<and>
     (rule_Priority (rs ! i) > rule_Priority (rs ! m)
      \<or> (rule_Priority (rs ! i) = rule_Priority (rs ! m) \<and> i > m)))"

definition RuleSet_Validate :: "(string \<Rightarrow> bool) \<Rightarrow> RuleSet \<Rightarrow> rule_error option" where
  "RuleSet_Validate isDN rs =
     (case RuleSet_scan isDN 0 [] 0 None rs of
        Inl e \<Rightarrow> Some e
      | Inr (matchCount, matchIndex) \<Rightarrow>
          if matchCount > 1 then Some ErrManyMatch
          else case matchIndex of
              None \<Rightarrow> None
            | Some m \<Rightarrow> if list_ex (sorts_behind rs m) [0..<length rs] then Some ErrMatchNotLast else None)"

text \<open>\<open>ParseYAML\<close>: decode, then validate.  \<open>unmarshal\<close> is the YAML codec.\<close>

datatype parse_error = ErrYAML string | ErrInvalid rule_error

definition ParseYAML :: "(string \<Rightarrow> bool) \<Rightarrow> (string \<Rightarrow> (string, RuleSet) result) \<Rightarrow> string \<Rightarrow>
    (parse_error, RuleSet) result" where
  "ParseYAML isDN unmarshal raw = (case unmarshal raw of
      Inl e \<Rightarrow> Inl (ErrYAML e)
    | Inr rs \<Rightarrow> (case RuleSet_Validate isDN rs of Some e \<Rightarrow> Inl (ErrInvalid e) | None \<Rightarrow> Inr rs))"

section \<open>Fall-through target (\<open>fallthrough.go\<close>)\<close>

definition ResolveFallthrough :: "RuleSet \<Rightarrow> string \<Rightarrow> string \<Rightarrow> string \<times> bool" where
  "ResolveFallthrough rs activeExit defaultAction =
     (case find (\<lambda>r. rule_Kind r = KindMatch \<and> rule_Enabled r) rs of
        Some r \<Rightarrow> (rule_Action r, True)
      | None \<Rightarrow>
          if activeExit \<noteq> [] then (activeExit, False)
          else if defaultAction \<noteq> [] then (defaultAction, False)
          else (''PROXY'', False))"

section \<open>Content hash (\<open>hash.go\<close>)\<close>

definition int64_range :: "int set" where
  "int64_range = {- (2 ^ 63) ..< 2 ^ 63}"

definition wrap64 :: "int \<Rightarrow> int" where
  "wrap64 i = (i + 2 ^ 63) mod 2 ^ 64 - 2 ^ 63"

definition digit_char :: "nat \<Rightarrow> char" where
  "digit_char n = char_of (48 + n)"

fun itoa_digits :: "nat \<Rightarrow> string \<Rightarrow> string" where
  "itoa_digits n buf = (if n = 0 then buf else itoa_digits (n div 10) (digit_char (n mod 10) # buf))"

declare itoa_digits.simps [simp del]

text \<open>The negation wraps at 64 bits: the most negative value stays negative, the digit loop
  does not run, and the text is the bare sign.\<close>

definition itoa :: "int \<Rightarrow> string" where
  "itoa i =
     (if i = 0 then ''0''
      else
        let neg = i < 0; j = (if neg then wrap64 (- i) else i);
            digits = itoa_digits (nat j) [] in
        if neg then CHR ''-'' # digits else digits)"

definition unit_sep :: char where "unit_sep = CHR 0x1F"
definition record_sep :: char where "record_sep = CHR 0x1E"

type_synonym rule_fields = "string \<times> Kind \<times> string \<times> string \<times> int"

definition rule_key :: "Rule \<Rightarrow> rule_fields" where
  "rule_key r = (rule_ID r, rule_Kind r, rule_Pattern r, rule_Action r, rule_Priority r)"

definition hash_row :: "rule_fields \<Rightarrow> string" where
  "hash_row k = (case k of (i, kd, p, a, pr) \<Rightarrow> Join [i, kd, p, a, itoa pr] [unit_sep])"

definition enabled_rules :: "RuleSet \<Rightarrow> Rule list" where
  "enabled_rules rs = filter rule_Enabled rs"

text \<open>\<open>sha\<close> is \<open>sha256.Sum256\<close> on the joined rows, as the bytes of the digest.\<close>

definition hex_digit :: "nat \<Rightarrow> char" where
  "hex_digit n = (if n < 10 then char_of (48 + n) else char_of (87 + n))"

definition hexEncode :: "byte list \<Rightarrow> string" where
  "hexEncode bs = concat (map (\<lambda>b. [hex_digit (unat b div 16), hex_digit (unat b mod 16)]) bs)"

definition HashRules :: "(string \<Rightarrow> byte list) \<Rightarrow> RuleSet \<Rightarrow> string" where
  "HashRules sha rs =
     hexEncode (sha (Join (sort (map (\<lambda>r. hash_row (rule_key r)) (enabled_rules rs))) [record_sep]))"

section \<open>Static dry run (\<open>dryrun.go\<close>)\<close>

record TestFixture =
  fx_Domain :: string
  fx_IP :: string
  fx_ExpectedExit :: string
  fx_Notes :: string

record DryRunResult =
  dr_Domain :: string
  dr_MatchedRule :: string
  dr_MatchedKind :: Kind
  dr_ActualExit :: string
  dr_ExpectedExit :: string
  dr_Pass :: bool
  dr_FailureReason :: string

definition equalFold :: "string \<Rightarrow> string \<Rightarrow> bool" where
  "equalFold a b = EqualFold (TrimSpace a) (TrimSpace b)"

definition domainHasSuffix :: "string \<Rightarrow> string \<Rightarrow> bool" where
  "domainHasSuffix domain sfx =
     (let d = ToLower (TrimSpace domain); s = ToLower (TrimSpace sfx) in
      d = s \<or> HasSuffix d (CHR ''.'' # s))"

definition ruleMatchesFixture :: "Rule \<Rightarrow> TestFixture \<Rightarrow> bool" where
  "ruleMatchesFixture r f =
     (if rule_Kind r = KindDomain then equalFold (fx_Domain f) (rule_Pattern r)
      else if rule_Kind r = KindDomainSuffix then domainHasSuffix (fx_Domain f) (rule_Pattern r)
      else if rule_Kind r = KindDomainKeyword
        then Contains (ToLower (fx_Domain f)) (ToLower (rule_Pattern r))
      else if rule_Kind r = KindIPCIDR then
        (if fx_IP f = [] then False
         else case ParseCIDR (rule_Pattern r) of
             None \<Rightarrow> False
           | Some (_, cidr) \<Rightarrow>
               (case ParseIP (fx_IP f) of None \<Rightarrow> False | Some ip \<Rightarrow> IPNet_Contains cidr ip))
      else if rule_Kind r \<in> {KindGeoSite, KindGeoIP, KindRuleSet}
        then Contains (fx_Notes f) (''hint:'' @ rule_Pattern r)
      else rule_Kind r = KindMatch)"

definition findMatch :: "Rule list \<Rightarrow> TestFixture \<Rightarrow> Rule option" where
  "findMatch rs f = find (\<lambda>r. ruleMatchesFixture r f) rs"

definition sorted_enabled :: "RuleSet \<Rightarrow> Rule list" where
  "sorted_enabled rs = sort_key rule_Priority (enabled_rules rs)"

definition dry_run_one :: "Rule list \<Rightarrow> string \<Rightarrow> TestFixture \<Rightarrow> DryRunResult" where
  "dry_run_one sorted_rs fallthroughTarget f =
     (let expected = fx_ExpectedExit f;
          mk = (\<lambda>rule kind exit.
            let pass = (expected = [] \<or> expected = exit) in
            \<lparr>dr_Domain = fx_Domain f, dr_MatchedRule = rule, dr_MatchedKind = kind,
             dr_ActualExit = exit, dr_ExpectedExit = expected, dr_Pass = pass,
             dr_FailureReason = (if pass then '''' else ''actual exit differs from expected'')\<rparr>) in
      case findMatch sorted_rs f of
        None \<Rightarrow>
          if fallthroughTarget \<noteq> [] then mk ''fallthrough'' KindMatch fallthroughTarget
          else \<lparr>dr_Domain = fx_Domain f, dr_MatchedRule = '''', dr_MatchedKind = '''',
                dr_ActualExit = '''', dr_ExpectedExit = expected, dr_Pass = False,
                dr_FailureReason = ''no rule matched''\<rparr>
      | Some r \<Rightarrow> mk (rule_ID r) (rule_Kind r) (rule_Action r))"

definition DryRun :: "RuleSet \<Rightarrow> TestFixture list \<Rightarrow> string \<Rightarrow> DryRunResult list" where
  "DryRun rs fixtures fallthroughTarget =
     map (dry_run_one (sorted_enabled rs) fallthroughTarget) fixtures"

section \<open>Validation: lemmas\<close>

lemma kind_distinct [simp]:
  "KindDomain \<noteq> KindDomainSuffix" "KindDomain \<noteq> KindDomainKeyword" "KindDomain \<noteq> KindGeoSite"
  "KindDomain \<noteq> KindGeoIP" "KindDomain \<noteq> KindIPCIDR" "KindDomain \<noteq> KindRuleSet" "KindDomain \<noteq> KindMatch"
  "KindDomainSuffix \<noteq> KindDomainKeyword" "KindDomainSuffix \<noteq> KindGeoSite" "KindDomainSuffix \<noteq> KindGeoIP"
  "KindDomainSuffix \<noteq> KindIPCIDR" "KindDomainSuffix \<noteq> KindRuleSet" "KindDomainSuffix \<noteq> KindMatch"
  "KindDomainKeyword \<noteq> KindGeoSite" "KindDomainKeyword \<noteq> KindGeoIP" "KindDomainKeyword \<noteq> KindIPCIDR"
  "KindDomainKeyword \<noteq> KindRuleSet" "KindDomainKeyword \<noteq> KindMatch" "KindIPCIDR \<noteq> KindGeoSite"
  "KindIPCIDR \<noteq> KindGeoIP" "KindIPCIDR \<noteq> KindRuleSet" "KindIPCIDR \<noteq> KindMatch"
  "KindGeoSite \<noteq> KindMatch" "KindGeoIP \<noteq> KindMatch" "KindRuleSet \<noteq> KindMatch"
  "KindGeoSite \<noteq> KindGeoIP" "KindGeoSite \<noteq> KindRuleSet" "KindGeoIP \<noteq> KindRuleSet"
  by (simp_all add: kind_defs)

lemmas kind_distinct_sym [simp] = kind_distinct [symmetric]

definition is_match :: "Rule \<Rightarrow> bool" where
  "is_match r = (rule_Kind r = KindMatch)"

fun last_match :: "nat \<Rightarrow> Rule list \<Rightarrow> nat option \<Rightarrow> nat option" where
  "last_match i [] m = m"
| "last_match i (r # rs) m = last_match (Suc i) rs (if is_match r then Some i else m)"

lemma RuleSet_scan_Inr:
  "RuleSet_scan isDN i seen mc mi rs = Inr (mc', mi') \<longleftrightarrow>
     (\<forall>r\<in>set rs. Rule_Validate isDN r = None) \<and> distinct (map rule_ID rs) \<and>
     rule_ID ` set rs \<inter> set seen = {} \<and>
     mc' = mc + length (filter is_match rs) \<and> mi' = last_match i rs mi"
  by (induction rs arbitrary: i seen mc mi)
     (auto simp: is_match_def [symmetric] split: option.splits)

lemma last_match_Some_init: "last_match i rs (Some k) \<noteq> None"
  by (induction rs arbitrary: i k) auto

lemma last_match_None: "last_match i rs None = None \<longleftrightarrow> (\<forall>r\<in>set rs. \<not> is_match r)"
  by (induction rs arbitrary: i) (auto simp: last_match_Some_init)

lemma last_match_Some:
  "last_match i rs m = Some k \<Longrightarrow> m = Some k \<or> (i \<le> k \<and> k < i + length rs \<and> is_match (rs ! (k - i)))"
proof (induction rs arbitrary: i m)
  case (Cons r rs)
  then show ?case by (fastforce simp: nth_Cons' split: if_splits)
qed simp

lemma two_matches:
  assumes "length (filter P xs) \<le> 1" "i < length xs" "j < length xs" "P (xs ! i)" "P (xs ! j)"
  shows "i = j"
proof (rule ccontr)
  assume "i \<noteq> j"
  have "card {k. k < length xs \<and> P (xs ! k)} \<le> 1"
    using assms(1) by (simp add: length_filter_conv_card)
  moreover have "card {i, j} \<le> card {k. k < length xs \<and> P (xs ! k)}"
    using assms by (intro card_mono) auto
  ultimately show False using \<open>i \<noteq> j\<close> by simp
qed

lemma RuleSet_Validate_None:
  "RuleSet_Validate isDN rs = None \<longleftrightarrow>
     (\<forall>r\<in>set rs. Rule_Validate isDN r = None) \<and> distinct (map rule_ID rs) \<and>
     length (filter is_match rs) \<le> 1 \<and>
     (\<forall>m<length rs. is_match (rs ! m) \<longrightarrow> (\<forall>i<length rs. \<not> sorts_behind rs m i))"
    (is "?L \<longleftrightarrow> ?V \<and> ?D \<and> ?M \<and> ?B")
proof -
  let ?mi = "last_match 0 rs None"
  have "?L \<longleftrightarrow> ?V \<and> ?D \<and> ?M \<and>
      (case ?mi of None \<Rightarrow> True | Some m \<Rightarrow> \<forall>i<length rs. \<not> sorts_behind rs m i)"
  proof (cases "RuleSet_scan isDN 0 [] 0 None rs")
    case (Inl e)
    then have "\<not> (?V \<and> ?D)" using RuleSet_scan_Inr [of isDN 0 "[]" 0 None rs] by fastforce
    then show ?thesis by (auto simp: RuleSet_Validate_def Inl)
  next
    case (Inr x)
    then obtain mc mi where x: "x = (mc, mi)" by (cases x)
    have "?V \<and> ?D \<and> mc = length (filter is_match rs) \<and> mi = ?mi"
      using RuleSet_scan_Inr [of isDN 0 "[]" 0 None rs mc mi] Inr x by simp
    then show ?thesis
      by (auto simp: RuleSet_Validate_def Inr x list_ex_iff split: option.splits)
  qed
  also have "\<dots> \<longleftrightarrow> ?V \<and> ?D \<and> ?M \<and> ?B"
  proof (cases ?mi)
    case None
    then have "\<And>m. m < length rs \<Longrightarrow> \<not> is_match (rs ! m)" by (auto simp: last_match_None)
    with None show ?thesis by auto
  next
    case (Some m)
    then have "m < length rs" "is_match (rs ! m)" using last_match_Some by fastforce+
    then show ?thesis using Some two_matches [of is_match rs m] by auto
  qed
  finally show ?thesis .
qed

lemma valid_match_split:
  assumes "RuleSet_Validate isDN rs = None" "r \<in> set rs" "is_match r"
  obtains as bs where "rs = as @ r # bs"
    "\<And>a. a \<in> set as \<Longrightarrow> rule_Priority a \<le> rule_Priority r \<and> \<not> is_match a"
    "\<And>b. b \<in> set bs \<Longrightarrow> rule_Priority b < rule_Priority r \<and> \<not> is_match b"
proof -
  from assms(2) obtain as bs where rs: "rs = as @ r # bs" by (auto dest: split_list)
  let ?m = "length as"
  have one: "length (filter is_match rs) \<le> 1"
    and behind: "\<And>i. i < length rs \<Longrightarrow> \<not> sorts_behind rs ?m i"
    using assms rs by (auto simp: RuleSet_Validate_None)
  have nm: "\<not> is_match x" if "x \<in> set as \<union> set bs" for x
    using one that assms(3) by (auto simp: rs filter_empty_conv)
  show ?thesis
  proof (rule that [OF rs])
    fix a assume "a \<in> set as"
    then obtain i where i: "i < ?m" "as ! i = a" by (auto simp: in_set_conv_nth)
    have "\<not> sorts_behind rs ?m i" using behind i by (simp add: rs)
    then show "rule_Priority a \<le> rule_Priority r \<and> \<not> is_match a"
      using i nm \<open>a \<in> set as\<close> by (auto simp: sorts_behind_def rs nth_append)
  next
    fix b assume "b \<in> set bs"
    then obtain i where i: "i < length bs" "bs ! i = b" by (auto simp: in_set_conv_nth)
    have "\<not> sorts_behind rs ?m (Suc (?m + i))" using behind i by (simp add: rs)
    then show "rule_Priority b < rule_Priority r \<and> \<not> is_match b"
      using i nm \<open>b \<in> set bs\<close> by (auto simp: sorts_behind_def rs nth_append)
  qed
qed

text \<open>In a validated set an enabled MATCH rule ends the sorted rule list.\<close>

lemma sorted_enabled_match_last:
  assumes "RuleSet_Validate isDN rs = None" "r \<in> set rs" "is_match r" "rule_Enabled r"
  obtains front where "sorted_enabled rs = front @ [r]" "\<And>x. x \<in> set front \<Longrightarrow> \<not> is_match x"
proof -
  from valid_match_split [OF assms(1-3)] obtain as bs where s: "rs = as @ r # bs"
    and as: "\<And>a. a \<in> set as \<Longrightarrow> rule_Priority a \<le> rule_Priority r \<and> \<not> is_match a"
    and bs: "\<And>b. b \<in> set bs \<Longrightarrow> rule_Priority b < rule_Priority r \<and> \<not> is_match b"
    by metis
  have "sorted_enabled rs = sort_key rule_Priority (enabled_rules as @ enabled_rules bs) @ [r]"
    using as bs assms(4)
    by (auto simp: sorted_enabled_def enabled_rules_def s intro!: sort_key_snoc)
  then show ?thesis using as bs by (intro that) (auto simp: enabled_rules_def)
qed

lemma set_sorted_enabled [simp]: "set (sorted_enabled rs) = {r \<in> set rs. rule_Enabled r}"
  by (auto simp: sorted_enabled_def enabled_rules_def)

section \<open>Rendered rule lines: lemmas\<close>

lemma valid_kind_no_delims: "k \<in> set allKinds \<Longrightarrow> c \<in> set csv_delims \<Longrightarrow> c \<notin> set k"
  by (auto simp: allKinds_def kind_defs csv_delims_def)

lemma Rule_Validate_NoneD:
  assumes "Rule_Validate isDN r = None"
  shows "rule_Kind r \<in> set allKinds" "TrimSpace (rule_Action r) \<noteq> []" "TrimSpace (rule_ID r) \<noteq> []"
    "rule_Kind r \<noteq> KindMatch \<Longrightarrow> TrimSpace (rule_Pattern r) \<noteq> []"
    "rule_Kind r = KindMatch \<Longrightarrow> TrimSpace (rule_Pattern r) = []"
    "\<not> ContainsAny (rule_Action r) csv_delims" "\<not> ContainsAny (rule_Pattern r) csv_delims"
  using assms by (auto simp: Rule_Validate_def split: if_splits)

lemma comma_delim [simp]: "CHR '','' \<in> set csv_delims"
  by (simp add: csv_delims_def)

lemma valid_mihomo_fields:
  assumes "Rule_Validate isDN r = None"
  obtains line where "ToMihomoLine r = Inr line"
    "Split (CHR '','') line = (if rule_Kind r = KindMatch then [''MATCH'', rule_Action r]
       else [rule_Kind r, rule_Pattern r, rule_Action r])"
    "\<And>c. c \<in> set csv_delims \<Longrightarrow> c \<noteq> CHR '','' \<Longrightarrow> c \<notin> set line"
proof -
  note v = Rule_Validate_NoneD [OF assms]
  have clean: "c \<notin> set (rule_Kind r)" "c \<notin> set (rule_Pattern r)" "c \<notin> set (rule_Action r)"
    if "c \<in> set csv_delims" for c
    using that v valid_kind_no_delims not_ContainsAny by blast+
  define line where "line = (if rule_Kind r = KindMatch then ''MATCH,'' @ rule_Action r
      else rule_Kind r @ '','' @ rule_Pattern r @ '','' @ rule_Action r)"
  have "ToMihomoLine r = Inr line"
    using v by (auto simp: ToMihomoLine_def line_def)
  moreover have "Split (CHR '','') line = (if rule_Kind r = KindMatch then [''MATCH'', rule_Action r]
       else [rule_Kind r, rule_Pattern r, rule_Action r])"
    using clean [OF comma_delim] Split_append [of "CHR '',''" "''MATCH''" "rule_Action r"]
    by (simp add: line_def Split_append Split_single)
  moreover have "c \<notin> set line" if "c \<in> set csv_delims" "c \<noteq> CHR '',''" for c
    using clean [OF that(1)] that by (auto simp: line_def csv_delims_def)
  ultimately show ?thesis by (rule that)
qed

section \<open>Content hash: lemmas\<close>

lemma itoa_digits_acc: "itoa_digits n (a @ b) = itoa_digits n a @ b"
proof (induction n arbitrary: a rule: less_induct)
  case (less n)
  then show ?case
    using less [of "n div 10" "digit_char (n mod 10) # a"]
    by (cases "n = 0") (simp_all add: itoa_digits.simps [of n] itoa_digits.simps [of 0])
qed

lemma itoa_digits_step:
  "0 < n \<Longrightarrow> itoa_digits n [] = itoa_digits (n div 10) [] @ [digit_char (n mod 10)]"
  using itoa_digits_acc [of "n div 10" "[]" "[digit_char (n mod 10)]"]
  by (simp add: itoa_digits.simps [of n])

lemma digit_val_char [simp]: "d < 10 \<Longrightarrow> digit_val (digit_char d) = d"
  by (simp add: digit_val_def digit_char_def)

lemma itoa_digits_0 [simp]: "itoa_digits 0 [] = []"
  by (simp add: itoa_digits.simps)

lemma dec_val_itoa_digits [simp]: "dec_val (itoa_digits n []) = n"
proof (induction n rule: less_induct)
  case (less n)
  show ?case
  proof (cases "n = 0")
    case False
    then show ?thesis using less [of "n div 10"] by (simp add: itoa_digits_step dec_val_def)
  qed (simp add: dec_val_def)
qed

lemma itoa_digits_is_digit: "c \<in> set (itoa_digits n []) \<Longrightarrow> is_digit c"
proof (induction n rule: less_induct)
  case (less n)
  show ?case
  proof (cases "n = 0")
    case False
    then consider "c \<in> set (itoa_digits (n div 10) [])" | "c = digit_char (n mod 10)"
      using less.prems by (auto simp: itoa_digits_step)
    then show ?thesis using less.IH [of "n div 10"] False
      by cases (auto simp: is_digit_def digit_char_def)
  qed (use less.prems in simp)
qed

lemma length_itoa_digits: "n < 10 ^ k \<Longrightarrow> length (itoa_digits n []) \<le> k"
proof (induction k arbitrary: n)
  case (Suc k)
  show ?case
  proof (cases "n = 0")
    case False
    then show ?thesis using Suc by (simp add: itoa_digits_step less_mult_imp_div_less)
  qed simp
qed simp

lemma wrap64_id: "i \<in> int64_range \<Longrightarrow> wrap64 i = i"
  by (simp add: wrap64_def int64_range_def)

lemma wrap64_neg: "i \<in> int64_range \<Longrightarrow> wrap64 (- i) = (if i = - (2 ^ 63) then i else - i)"
  by (auto simp: int64_range_def intro!: wrap64_id) (simp add: wrap64_def)

lemma itoa_pos: "0 < i \<Longrightarrow> itoa i = itoa_digits (nat i) []"
  by (simp add: itoa_def)

lemma itoa_neg:
  "i \<in> int64_range \<Longrightarrow> i < 0 \<Longrightarrow>
     itoa i = CHR ''-'' # (if i = - (2 ^ 63) then [] else itoa_digits (nat (- i)) [])"
  by (simp add: itoa_def wrap64_neg)

lemma itoa_clean: "c \<in> set (itoa i) \<Longrightarrow> c = CHR ''-'' \<or> is_digit c"
  by (auto simp: itoa_def Let_def is_digit_def [of "CHR ''0''"] dest: itoa_digits_is_digit split: if_splits)

lemma itoa_val_nonneg: "0 \<le> i \<Longrightarrow> dec_val (itoa i) = nat i \<and> CHR ''-'' \<notin> set (itoa i)"
proof (cases "i = 0")
  case False
  have "\<not> is_digit (CHR ''-'')" by (simp add: is_digit_def)
  moreover assume "0 \<le> i"
  ultimately show ?thesis using False by (auto simp: itoa_pos dest: itoa_digits_is_digit)
qed (simp add: itoa_def dec_val_def digit_val_def)

lemma itoa_minus: "i \<in> int64_range \<Longrightarrow> CHR ''-'' \<in> set (itoa i) \<longleftrightarrow> i < 0"
  using itoa_val_nonneg [of i] by (cases "i < 0") (auto simp: itoa_neg)

lemma dec_val_tl_itoa:
  "i \<in> int64_range \<Longrightarrow> i < 0 \<Longrightarrow> dec_val (tl (itoa i)) = (if i = - (2 ^ 63) then 0 else nat (- i))"
  by (simp add: itoa_neg dec_val_def [of "[]"])

lemma itoa_inject:
  assumes "i \<in> int64_range" "j \<in> int64_range" "itoa i = itoa j"
  shows "i = j"
proof (cases "i < 0")
  case True
  then have "j < 0" using assms itoa_minus by metis
  then have "(if i = - (2 ^ 63) then 0 else nat (- i)) = (if j = - (2 ^ 63) then 0 else nat (- j))"
    using True assms dec_val_tl_itoa by metis
  then show ?thesis using True \<open>j < 0\<close> by (simp split: if_splits)
next
  case False
  then have "\<not> j < 0" using assms itoa_minus by metis
  then have "nat i = nat j" using False assms itoa_val_nonneg [of i] itoa_val_nonneg [of j] by simp
  then show ?thesis using False \<open>\<not> j < 0\<close> by simp
qed

lemma length_itoa: "i \<in> int64_range \<Longrightarrow> length (itoa i) \<le> 20"
proof -
  assume r: "i \<in> int64_range"
  then have "nat \<bar>i\<bar> < 10 ^ 19" by (auto simp: int64_range_def)
  then have "length (itoa_digits (nat \<bar>i\<bar>) []) \<le> 19" by (rule length_itoa_digits)
  then show ?thesis using r by (cases "i < 0"; cases "i = 0") (auto simp: itoa_neg itoa_pos itoa_def [of 0])
qed

text \<open>Text free of the two separators is what makes the rows readable back.\<close>

definition clean_text :: "string \<Rightarrow> bool" where
  "clean_text s = (unit_sep \<notin> set s \<and> record_sep \<notin> set s)"

definition clean_rule :: "Rule \<Rightarrow> bool" where
  "clean_rule r = (clean_text (rule_ID r) \<and> clean_text (rule_Kind r) \<and> clean_text (rule_Pattern r)
     \<and> clean_text (rule_Action r) \<and> rule_Priority r \<in> int64_range)"

lemma clean_itoa: "clean_text (itoa i)"
  by (auto simp: clean_text_def unit_sep_def record_sep_def is_digit_def dest!: itoa_clean)

lemma Split_hash_row:
  assumes "clean_rule r"
  shows "Split unit_sep (hash_row (rule_key r)) =
     [rule_ID r, rule_Kind r, rule_Pattern r, rule_Action r, itoa (rule_Priority r)]"
  using assms clean_itoa [of "rule_Priority r"]
  by (auto simp: hash_row_def rule_key_def clean_rule_def clean_text_def
      simp del: Join.simps intro!: Split_Join)

lemma hash_row_inject:
  assumes "clean_rule a" "clean_rule b" "hash_row (rule_key a) = hash_row (rule_key b)"
  shows "rule_key a = rule_key b"
proof -
  have "Split unit_sep (hash_row (rule_key a)) = Split unit_sep (hash_row (rule_key b))"
    using assms by simp
  then show ?thesis unfolding Split_hash_row [OF assms(1)] Split_hash_row [OF assms(2)]
    using assms(1,2) itoa_inject by (auto simp: rule_key_def clean_rule_def)
qed

lemma hash_row_no_record_sep: "clean_rule r \<Longrightarrow> record_sep \<notin> set (hash_row (rule_key r))"
  using clean_itoa [of "rule_Priority r"]
  by (auto simp: hash_row_def rule_key_def clean_rule_def clean_text_def unit_sep_def record_sep_def)

lemma hash_row_neq_Nil: "hash_row k \<noteq> []"
  by (cases k) (simp add: hash_row_def)

lemma mset_key_rows:
  assumes "\<forall>r\<in>set xs \<union> set ys. clean_rule r"
    "mset (map (\<lambda>r. hash_row (rule_key r)) xs) = mset (map (\<lambda>r. hash_row (rule_key r)) ys)"
  shows "image_mset rule_key (mset xs) = image_mset rule_key (mset ys)"
proof -
  have "image_mset hash_row (image_mset rule_key (mset xs)) =
      image_mset hash_row (image_mset rule_key (mset ys))"
    using assms(2) by (simp add: image_mset.compositionality comp_def)
  moreover have "k = l" if "k \<in># image_mset rule_key (mset xs)" "l \<in># image_mset rule_key (mset ys)"
      "hash_row k = hash_row l" for k l
  proof -
    from that(1,2) obtain a b where ab: "k = rule_key a" "a \<in> set xs" "l = rule_key b" "b \<in> set ys"
      by (metis (no_types, lifting) imageE set_image_mset set_mset_mset)
    then show ?thesis using assms(1) that(3) by (simp add: hash_row_inject)
  qed
  ultimately show ?thesis by (rule multiset.inj_map_strong [rotated])
qed

lemma Join_rows_inject:
  assumes "\<And>w. w \<in> set xs \<union> set ys \<Longrightarrow> c \<notin> set w \<and> w \<noteq> []" "Join xs [c] = Join ys [c]"
  shows "xs = ys"
proof -
  have nil: "Join ws [c] = [] \<longleftrightarrow> ws = []" if "\<And>w. w \<in> set ws \<Longrightarrow> w \<noteq> []" for ws
    using that by (cases ws rule: remdups_adj.cases) auto
  show ?thesis
  proof (cases "xs = [] \<or> ys = []")
    case True
    then show ?thesis using nil [of xs] nil [of ys] assms by (metis Join.simps(1) UnI1 UnI2)
  next
    case False
    then show ?thesis using Split_Join [of xs c] Split_Join [of ys c] assms by (metis UnI1 UnI2)
  qed
qed

lemma hex_digit_inject: "a < 16 \<Longrightarrow> b < 16 \<Longrightarrow> hex_digit a = hex_digit b \<longleftrightarrow> a = b"
  by (auto simp: hex_digit_def dest: arg_cong [where f = "of_char :: char \<Rightarrow> nat"])

lemma hexEncode_inject: "hexEncode a = hexEncode b \<longleftrightarrow> a = b"
proof (induction a arbitrary: b)
  case Nil
  then show ?case by (cases b) (auto simp: hexEncode_def)
next
  case (Cons x a)
  have byte: "x = y" if "unat x div 16 = unat y div 16" "unat x mod 16 = unat y mod 16" for y :: byte
    using that by (metis div_mult_mod_eq word_unat_eq_iff)
  have lt: "unat z div 16 < 16" "unat z mod 16 < 16" for z :: byte
    using unsigned_less [of z, where 'a = nat] by (auto simp: less_mult_imp_div_less)
  show ?case using Cons byte lt
    by (cases b) (auto simp: hexEncode_def hex_digit_inject)
qed

section \<open>Properties\<close>

lemma last_sort_match:
  assumes "distinct rs" "m < length rs" "last (sort_key rule_Priority rs) = rs ! m" "i < length rs"
  shows "\<not> sorts_behind rs m i"
proof
  assume b: "sorts_behind rs m i"
  let ?r = "rs ! m"
  have ne: "rs \<noteq> []" using assms(2) by auto
  have "rule_Priority (rs ! i) \<le> rule_Priority ?r"
    using last_sort_key(1) [OF ne, of "rs ! i" rule_Priority] assms by simp
  with b have eq: "rule_Priority (rs ! i) = rule_Priority ?r" "m < i" by (auto simp: sorts_behind_def)
  let ?F = "\<lambda>xs. filter (\<lambda>y. rule_Priority y = rule_Priority ?r) xs"
  have "drop (Suc m) rs ! (i - Suc m) = rs ! i" "i - Suc m < length (drop (Suc m) rs)"
    using eq(2) assms(4) by auto
  then have "rs ! i \<in> set (drop (Suc m) rs)" by (metis nth_mem)
  with eq(1) have ne': "?F (drop (Suc m) rs) \<noteq> []" by (auto simp: filter_empty_conv)
  have "?r = last (?F rs)" using last_sort_key(2) [OF ne, of rule_Priority] assms(3) by simp
  also have "?F rs = ?F (take (Suc m) rs) @ ?F (drop (Suc m) rs)"
    by (metis append_take_drop_id filter_append)
  also have "last \<dots> = last (?F (drop (Suc m) rs))" using ne' by simp
  also have "\<dots> \<in> set (drop (Suc m) rs)" using last_in_set [OF ne'] by auto
  finally have "?r \<in> set (drop (Suc m) rs)" .
  moreover have "?r \<in> set (take (Suc m) rs)" using assms(2) by (simp add: take_Suc_conv_app_nth)
  moreover have "distinct (take (Suc m) rs @ drop (Suc m) rs)" using assms(1) by simp
  ultimately show False unfolding distinct_append by blast
qed


text \<open>A rule set to apply the properties at: an exact block rule, a suffix rule, and MATCH.\<close>

definition sample_rule :: "string \<Rightarrow> Kind \<Rightarrow> string \<Rightarrow> string \<Rightarrow> int \<Rightarrow> Rule" where
  "sample_rule i k p a pr = \<lparr>rule_ID = i, rule_Kind = k, rule_Pattern = p, rule_Action = a,
     rule_Priority = pr, rule_Enabled = True, rule_Notes = [], rule_GroupID = []\<rparr>"

definition sample_rules :: RuleSet where
  "sample_rules =
     [sample_rule ''m'' KindMatch [] ''Proxy'' 9,
      sample_rule ''a'' KindDomain ''ads.example.com'' ''block'' 1,
      sample_rule ''b'' KindDomainSuffix ''example.com'' ''direct'' 2]"

text \<open>A collision-free digest to instantiate \<open>sha\<close> with.\<close>

definition id_digest :: "string \<Rightarrow> byte list" where
  "id_digest s = map (\<lambda>c. of_nat (of_char c)) s"

lemma id_digest_inject: "id_digest a = id_digest b \<longleftrightarrow> a = b"
proof -
  have code: "unat (of_nat (of_char c) :: byte) = of_char c" for c :: char
    by (simp add: unat_of_nat)
  have "c = d" if "(of_nat (of_char c) :: byte) = of_nat (of_char d)" for c d :: char
    using arg_cong [where f = unat, OF that] unfolding code by simp
  then show ?thesis unfolding id_digest_def by (simp add: inj_map_eq_map inj_def)
qed

lemmas string_eval = TrimSpace_def TrimFunc_def is_space_def ToLower_def lower_char_def HasSuffix_def
  HasPrefix_def ContainsAny_def csv_delims_def suffix_to_prefix char_of_def bit_Suc_0_iff

lemma sample_rules_valid: "RuleSet_Validate (\<lambda>_. True) sample_rules = None"
  by (simp add: RuleSet_Validate_def sample_rules_def sample_rule_def Rule_Validate_def allKinds_def
      kind_defs string_eval sorts_behind_def upt_rec)


text \<open>A validated rule renders to one mihomo line, and that line reads back: splitting it at
  its commas returns exactly the kind, the pattern and the action (for MATCH the kind and the
  action), and the line holds no line break, so a rule cannot inject a second entry.\<close>

theorem mihomo_line_roundtrip:
  assumes "Rule_Validate isDN r = None"
  shows "\<exists>line. ToMihomoLine r = Inr line \<and>
    Split (CHR '','') line = (if rule_Kind r = KindMatch then [''MATCH'', rule_Action r]
       else [rule_Kind r, rule_Pattern r, rule_Action r]) \<and>
    CHR 0x0A \<notin> set line \<and> CHR 0x0D \<notin> set line"
proof -
  from valid_mihomo_fields [OF assms] obtain line where "ToMihomoLine r = Inr line"
    "Split (CHR '','') line = (if rule_Kind r = KindMatch then [''MATCH'', rule_Action r]
       else [rule_Kind r, rule_Pattern r, rule_Action r])"
    "\<And>c. c \<in> set csv_delims \<Longrightarrow> c \<noteq> CHR '','' \<Longrightarrow> c \<notin> set line" by metis
  then show ?thesis by (simp add: csv_delims_def)
qed

theorem mihomo_line_roundtrip_witness:
  "\<exists>line. ToMihomoLine (sample_rule ''b'' KindDomainSuffix ''example.com'' ''direct'' 2) = Inr line \<and>
    Split (CHR '','') line = [''DOMAIN-SUFFIX'', ''example.com'', ''direct'']"
proof -
  have "Rule_Validate (\<lambda>_. True) (sample_rule ''b'' KindDomainSuffix ''example.com'' ''direct'' 2) = None"
    using sample_rules_valid by (simp add: RuleSet_Validate_None sample_rules_def)
  from mihomo_line_roundtrip [OF this] show ?thesis
    by (auto simp: sample_rule_def kind_defs)
qed

text \<open>The content hash does not depend on the order of the rules or on disabled rules: two
  rule sets with the same enabled rules, as multisets, hash alike.\<close>

theorem hash_order_independent:
  assumes "mset (enabled_rules rs) = mset (enabled_rules rs')"
  shows "HashRules sha rs = HashRules sha rs'"
proof -
  let ?row = "\<lambda>r. hash_row (rule_key r)"
  have "mset (map ?row (enabled_rules rs)) = mset (map ?row (enabled_rules rs'))"
    using assms by (simp only: mset_map)
  then have "sort (map ?row (enabled_rules rs)) = sort (map ?row (enabled_rules rs'))"
    by (metis sorted_list_of_multiset_mset)
  then show ?thesis by (simp add: HashRules_def)
qed

theorem hash_order_independent_witness:
  "HashRules id_digest sample_rules
     = HashRules id_digest (rev sample_rules @ [(sample_rule ''x'' KindGeoIP ''CN'' ''direct'' 3)\<lparr>rule_Enabled := False\<rparr>])"
  by (rule hash_order_independent) (simp add: enabled_rules_def sample_rules_def sample_rule_def)

text \<open>The content hash detects every change: when the digest function does not collide,
  equal hashes mean that the enabled rules agree, as multisets, in ID, kind, pattern, action and
  priority. The text fields are free of the two ASCII separators.\<close>

theorem hash_detects_change:
  assumes "\<forall>r\<in>set (enabled_rules rs) \<union> set (enabled_rules rs'). clean_rule r"
    and "\<forall>a b. sha a = sha b \<longrightarrow> a = b"
    and "HashRules sha rs = HashRules sha rs'"
  shows "image_mset rule_key (mset (enabled_rules rs)) = image_mset rule_key (mset (enabled_rules rs'))"
proof -
  let ?rows = "\<lambda>rs. map (\<lambda>r. hash_row (rule_key r)) (enabled_rules rs)"
  have "Join (sort (?rows rs)) [record_sep] = Join (sort (?rows rs')) [record_sep]"
    using assms(2,3) by (simp add: HashRules_def hexEncode_inject)
  then have "sort (?rows rs) = sort (?rows rs')"
    using assms(1) by (elim Join_rows_inject [rotated])
      (auto simp: hash_row_neq_Nil hash_row_no_record_sep)
  then have "mset (?rows rs) = mset (?rows rs')" by (metis mset_sort)
  with assms(1) show ?thesis by (rule mset_key_rows)
qed

theorem hash_detects_change_witness:
  "HashRules id_digest sample_rules
     \<noteq> HashRules id_digest (tl sample_rules)"
proof
  assume eq: "HashRules id_digest sample_rules = HashRules id_digest (tl sample_rules)"
  have clean: "\<forall>r\<in>set (enabled_rules sample_rules) \<union> set (enabled_rules (tl sample_rules)). clean_rule r"
    by (auto simp: enabled_rules_def sample_rules_def sample_rule_def clean_rule_def clean_text_def
        unit_sep_def record_sep_def kind_defs int64_range_def)
  have inj: "\<forall>a b. id_digest a = id_digest b \<longrightarrow> a = b"
    by (simp add: id_digest_inject)
  from hash_detects_change [OF clean inj eq] show False
    by (simp add: enabled_rules_def sample_rules_def sample_rule_def)
qed

text \<open>A dry run with the fall-through target of the same rule set always reports an exit:
  no fixture ends as \<open>no rule matched\<close>, and the exit is never empty.\<close>

theorem dry_run_total:
  assumes "RuleSet_Validate isDN rs = None" "d \<in> set (DryRun rs fixtures (fst (ResolveFallthrough rs act dflt)))"
  shows "dr_ActualExit d \<noteq> [] \<and> dr_MatchedRule d \<noteq> []"
proof -
  let ?target = "fst (ResolveFallthrough rs act dflt)"
  have valid: "rule_Action r \<noteq> [] \<and> rule_ID r \<noteq> []" if "r \<in> set rs" for r
  proof -
    have "Rule_Validate isDN r = None" using assms(1) that by (simp add: RuleSet_Validate_None)
    then show ?thesis using Rule_Validate_NoneD(2,3) TrimSpace_neq_Nil by blast
  qed
  have target: "?target \<noteq> []"
    by (auto simp: ResolveFallthrough_def split: option.split dest!: find_Some_in valid)
  from assms(2) obtain f where d: "d = dry_run_one (sorted_enabled rs) ?target f"
    by (auto simp: DryRun_def)
  show ?thesis
  proof (cases "findMatch (sorted_enabled rs) f")
    case None
    then show ?thesis using target by (simp add: d dry_run_one_def Let_def)
  next
    case (Some r)
    then have "r \<in> set (sorted_enabled rs)" by (auto simp: findMatch_def dest: find_Some_in)
    then show ?thesis using valid Some by (simp add: d dry_run_one_def Let_def)
  qed
qed

theorem dry_run_total_witness:
  "dr_ActualExit (hd (DryRun sample_rules
      [\<lparr>fx_Domain = ''www.example.com'', fx_IP = [], fx_ExpectedExit = ''direct'', fx_Notes = []\<rparr>]
      (fst (ResolveFallthrough sample_rules [] [])))) \<noteq> []"
  by (rule dry_run_total [OF sample_rules_valid, THEN conjunct1, OF hd_in_set]) (simp add: DryRun_def)

end
