(* ===== verification/RuleTable.thy ===== *)
theory RuleTable
  imports Rules "HOL-Library.AList"
begin

text \<open>
  The compiled rule table of \<open>internal/resolver\<close>: the domain-suffix trie, the exact map and
  the keyword list with their global rule order (\<open>ruletable.go\<close>), the query-name classifier
  (\<open>classify.go\<close>) and the published-table store.  The three lookup structures share one
  contract, the locale \<open>ranked_index\<close>, from which the equivalence of the classifier with a
  sequential scan of the rule list follows.
\<close>

section \<open>Table data (\<open>ruletable.go\<close>)\<close>

record rankedAction =
  ra_action :: string
  ra_rank :: nat

record keywordRule =
  kw_keyword :: string
  kw_action :: string
  kw_rank :: nat

record cidrEntry =
  ce_Net :: IPNet
  ce_Action :: string

text \<open>A Go map with string keys is an association list whose keys are looked up with
  \<^const>\<open>map_of\<close> and updated with \<^const>\<open>AList.update\<close>.\<close>

datatype suffixNode = SuffixNode (sn_children: "(string \<times> suffixNode) list")
  (sn_action: string) (sn_rank: nat) (sn_hasAction: bool)

definition newSuffixNode :: suffixNode where
  "newSuffixNode = SuffixNode [] [] 0 False"

record RuleTable =
  tbl_Generation :: int
  tbl_Hash :: "byte list"
  tbl_exact :: "(string \<times> rankedAction) list"
  tbl_suffix :: suffixNode
  tbl_keywords :: "keywordRule list"
  tbl_defaultAction :: string
  tbl_CIDRs :: "cidrEntry list"

section \<open>Suffix trie\<close>

text \<open>\<open>insert\<close> walks the labels from the last to the first; \<open>suffix_insert\<close> takes them in
  that order.\<close>

fun suffix_insert :: "string list \<Rightarrow> string \<Rightarrow> nat \<Rightarrow> suffixNode \<Rightarrow> suffixNode" where
  "suffix_insert [] action rank (SuffixNode ch a r h) =
     (if h then SuffixNode ch a r h else SuffixNode ch action rank True)"
| "suffix_insert (lbl # ls) action rank (SuffixNode ch a r h) =
     (let child = (case map_of ch lbl of Some c \<Rightarrow> c | None \<Rightarrow> newSuffixNode) in
      SuffixNode (AList.update lbl (suffix_insert ls action rank child) ch) a r h)"

definition trie_insert :: "suffixNode \<Rightarrow> string list \<Rightarrow> string \<Rightarrow> nat \<Rightarrow> suffixNode" where
  "trie_insert n labels action rank = suffix_insert (rev labels) action rank n"

definition better :: "suffixNode \<Rightarrow> rankedAction option \<Rightarrow> rankedAction option" where
  "better c best =
     (if sn_hasAction c \<and> (case best of None \<Rightarrow> True | Some b \<Rightarrow> sn_rank c < ra_rank b)
      then Some \<lparr>ra_action = sn_action c, ra_rank = sn_rank c\<rparr> else best)"

fun suffix_lookup :: "string list \<Rightarrow> suffixNode \<Rightarrow> rankedAction option \<Rightarrow> rankedAction option" where
  "suffix_lookup [] n best = best"
| "suffix_lookup (lbl # ls) n best = (case map_of (sn_children n) lbl of
      None \<Rightarrow> best
    | Some c \<Rightarrow> suffix_lookup ls c (better c best))"

definition normalizeName :: "string \<Rightarrow> string" where
  "normalizeName s = TrimSuffix (ToLower (TrimSpace s)) ''.''"

definition splitLabels :: "string \<Rightarrow> string list" where
  "splitLabels name = (if name = [] then [] else Split (CHR ''.'') name)"

definition trie_lookup :: "suffixNode \<Rightarrow> string \<Rightarrow> rankedAction option" where
  "trie_lookup n name = suffix_lookup (rev (splitLabels name)) n None"

section \<open>Compilation\<close>

definition compileRule :: "RuleTable \<Rightarrow> Rule \<Rightarrow> nat \<Rightarrow> RuleTable" where
  "compileRule t r rank =
     (if rule_Kind r = KindDomain then
        let name = normalizeName (rule_Pattern r) in
        (case map_of (tbl_exact t) name of
           Some _ \<Rightarrow> t
         | None \<Rightarrow> t\<lparr>tbl_exact := tbl_exact t @ [(name, \<lparr>ra_action = rule_Action r, ra_rank = rank\<rparr>)]\<rparr>)
      else if rule_Kind r = KindDomainSuffix then
        t\<lparr>tbl_suffix := trie_insert (tbl_suffix t) (splitLabels (normalizeName (rule_Pattern r)))
            (rule_Action r) rank\<rparr>
      else if rule_Kind r = KindDomainKeyword then
        t\<lparr>tbl_keywords := tbl_keywords t @
            [\<lparr>kw_keyword = ToLower (rule_Pattern r), kw_action = rule_Action r, kw_rank = rank\<rparr>]\<rparr>
      else if rule_Kind r = KindMatch then
        (if tbl_defaultAction t = [] then t\<lparr>tbl_defaultAction := rule_Action r\<rparr> else t)
      else if rule_Kind r = KindIPCIDR \<or> rule_Kind r = KindGeoIP then
        (case ParseCIDR (rule_Pattern r) of
           Some (_, cidr) \<Rightarrow> t\<lparr>tbl_CIDRs := tbl_CIDRs t @ [\<lparr>ce_Net = cidr, ce_Action = rule_Action r\<rparr>]\<rparr>
         | None \<Rightarrow> t)
      else t)"

definition emptyTable :: RuleTable where
  "emptyTable = \<lparr>tbl_Generation = 0, tbl_Hash = replicate 32 0, tbl_exact = [],
     tbl_suffix = newSuffixNode, tbl_keywords = [], tbl_defaultAction = [], tbl_CIDRs = []\<rparr>"

fun hexDecode :: "string \<Rightarrow> byte list option" where
  "hexDecode [] = Some []"
| "hexDecode [_] = None"
| "hexDecode (a # b # s) = (case (hex_val a, hex_val b, hexDecode s) of
      (Some x, Some y, Some bs) \<Rightarrow> Some (of_nat (16 * x + y) # bs)
    | _ \<Rightarrow> None)"

text \<open>\<open>copy(t.Hash[:], raw)\<close> overwrites at most the 32 bytes of the array.\<close>

definition copyHash :: "byte list \<Rightarrow> byte list \<Rightarrow> byte list" where
  "copyHash dst raw = take (length dst) raw @ drop (length raw) dst"

definition compileRules :: "Rule list \<Rightarrow> RuleTable \<Rightarrow> RuleTable" where
  "compileRules rs t = fold (\<lambda>(rank, r) t. compileRule t r rank) (enumerate 0 rs) t"

definition BuildTable :: "(string \<Rightarrow> byte list) \<Rightarrow> Rule list \<Rightarrow> RuleTable" where
  "BuildTable sha rs =
     (let t = compileRules (sorted_enabled rs) emptyTable in
      case hexDecode (HashRules sha rs) of
        Some raw \<Rightarrow> t\<lparr>tbl_Hash := copyHash (tbl_Hash t) raw\<rparr>
      | None \<Rightarrow> t)"

section \<open>Classification (\<open>classify.go\<close>)\<close>

datatype Action = ActionBlock | ActionDirect | ActionProxy

definition toAction :: "string \<Rightarrow> Action" where
  "toAction s =
     (let a = ToLower (TrimSpace s) in
      if a = ''block'' \<or> a = ''reject'' then ActionBlock
      else if a = ''direct'' then ActionDirect
      else ActionProxy)"

definition keyword_lookup :: "keywordRule list \<Rightarrow> string \<Rightarrow> rankedAction option" where
  "keyword_lookup ks name = map_option (\<lambda>k. \<lparr>ra_action = kw_action k, ra_rank = kw_rank k\<rparr>)
     (find (\<lambda>k. Contains name (kw_keyword k)) ks)"

definition considerA :: "rankedAction option \<Rightarrow> rankedAction option \<Rightarrow> rankedAction option" where
  "considerA best candidate = (case candidate of
      None \<Rightarrow> best
    | Some c \<Rightarrow> (case best of None \<Rightarrow> Some c
        | Some b \<Rightarrow> if ra_rank c < ra_rank b then Some c else best))"

definition classify :: "RuleTable option \<Rightarrow> string \<Rightarrow> Action" where
  "classify tbl qname = (case tbl of
      None \<Rightarrow> ActionProxy
    | Some t \<Rightarrow>
        let name = normalizeName qname;
            best = considerA (considerA (considerA None (map_of (tbl_exact t) name))
                     (trie_lookup (tbl_suffix t) name))
                     (keyword_lookup (tbl_keywords t) name) in
        case best of
          Some b \<Rightarrow> toAction (ra_action b)
        | None \<Rightarrow> if tbl_defaultAction t \<noteq> [] then toAction (tbl_defaultAction t) else ActionProxy)"

section \<open>Published table (\<open>Store\<close>)\<close>

text \<open>\<open>Store\<close> holds the active table and the generation counter; \<open>Publish(nil)\<close> is a
  no-op.  The counter is an \<open>int64\<close>.\<close>

record Store =
  store_p :: "RuleTable option"
  store_gen :: int

definition Store_Load :: "Store \<Rightarrow> RuleTable option" where
  "Store_Load s = store_p s"

definition Store_Publish :: "RuleTable option \<Rightarrow> Store \<Rightarrow> Store" where
  "Store_Publish t s = (case t of
      None \<Rightarrow> s
    | Some t \<Rightarrow>
        let g = wrap64 (store_gen s + 1) in
        s\<lparr>store_gen := g, store_p := Some (t\<lparr>tbl_Generation := g\<rparr>)\<rparr>)"

section \<open>The contract of the three indexes\<close>

text \<open>An index holds entries (a key, an action, a rank).  Entries arrive in rank order; a
  lookup returns the entry of the least rank whose key hits the name.\<close>

definition ranked :: "nat \<times> Rule \<Rightarrow> rankedAction" where
  "ranked = (\<lambda>(rank, r). \<lparr>ra_action = rule_Action r, ra_rank = rank\<rparr>)"

locale ranked_index =
  fixes add :: "'k \<Rightarrow> string \<Rightarrow> nat \<Rightarrow> 't \<Rightarrow> 't"
    and look :: "'t \<Rightarrow> string \<Rightarrow> rankedAction option"
    and hits :: "'k \<Rightarrow> string \<Rightarrow> bool"
    and below :: "nat \<Rightarrow> 't \<Rightarrow> bool"
  assumes look_add: "below r t \<Longrightarrow> look (add k a r t) q = (case look t q of
      Some x \<Rightarrow> Some x
    | None \<Rightarrow> if hits k q then Some \<lparr>ra_action = a, ra_rank = r\<rparr> else None)"
    and below_add: "below r t \<Longrightarrow> below (Suc r) (add k a r t)"
    and below_mono: "below r t \<Longrightarrow> r \<le> s \<Longrightarrow> below s t"
begin

definition add_rule :: "(Rule \<Rightarrow> bool) \<Rightarrow> (Rule \<Rightarrow> 'k) \<Rightarrow> nat \<times> Rule \<Rightarrow> 't \<Rightarrow> 't" where
  "add_rule sel key = (\<lambda>(rank, r) t. if sel r then add (key r) (rule_Action r) rank t else t)"

lemma look_fold:
  "below n t \<Longrightarrow> look (fold (add_rule sel key) (enumerate n rs) t) q = (case look t q of
      Some x \<Rightarrow> Some x
    | None \<Rightarrow> map_option ranked (find (\<lambda>(i, r). sel r \<and> hits (key r) q) (enumerate n rs)))"
proof (induction rs arbitrary: n t)
  case (Cons r rs)
  have b: "below (Suc n) (add_rule sel key (n, r) t)"
    using Cons.prems by (auto simp: add_rule_def intro: below_add below_mono)
  show ?case
    using Cons.IH [OF b] Cons.prems
    by (auto simp: add_rule_def look_add ranked_def split: option.splits)
qed (simp split: option.split)

end

section \<open>Suffix trie as a ranked index\<close>

fun trie_below :: "nat \<Rightarrow> suffixNode \<Rightarrow> bool" where
  "trie_below n (SuffixNode ch a r h) =
     ((h \<longrightarrow> r < n) \<and> list_all (\<lambda>p. trie_below n (snd p)) ch)"

lemma trie_below_child:
  "trie_below n (SuffixNode ch a r h) \<Longrightarrow> map_of ch l = Some c \<Longrightarrow> trie_below n c"
  by (auto simp: list_all_iff dest!: map_of_SomeD)

lemma trie_below_new [simp]: "trie_below n newSuffixNode"
  by (simp add: newSuffixNode_def)

lemma trie_below_mono: "trie_below n t \<Longrightarrow> n \<le> m \<Longrightarrow> trie_below m t"
  by (induction n t rule: trie_below.induct) (auto simp: list_all_iff)

lemma set_AList_update: "p \<in> set (AList.update k v al) \<Longrightarrow> p = (k, v) \<or> p \<in> set al"
  by (induction al) (auto split: if_splits)

lemma trie_below_insert: "trie_below n t \<Longrightarrow> trie_below (Suc n) (suffix_insert ls a n t)"
proof (induction ls arbitrary: t)
  case Nil
  then show ?case using trie_below_mono [of n t "Suc n"] by (cases t) (auto simp: list_all_iff)
next
  case (Cons l ls)
  obtain ch b r h where t: "t = SuffixNode ch b r h" by (cases t)
  let ?c = "case map_of ch l of Some c \<Rightarrow> c | None \<Rightarrow> newSuffixNode"
  have "trie_below n ?c" using Cons.prems trie_below_child by (auto simp: t split: option.split)
  then have "trie_below (Suc n) (suffix_insert ls a n ?c)" by (rule Cons.IH)
  then show ?case using Cons.prems
    by (auto simp: t Let_def list_all_iff dest!: set_AList_update intro: trie_below_mono)
qed

definition best_below :: "nat \<Rightarrow> rankedAction option \<Rightarrow> bool" where
  "best_below n b = (case b of None \<Rightarrow> True | Some x \<Rightarrow> ra_rank x < n)"

lemma better_simps [simp]:
  "better newSuffixNode b = b"
  "\<not> h \<Longrightarrow> better (SuffixNode ch a r h) b = b"
  by (simp_all add: better_def newSuffixNode_def)

lemma better_below: "trie_below n c \<Longrightarrow> best_below n b \<Longrightarrow> best_below n (better c b)"
  by (cases c) (auto simp: better_def best_below_def split: option.splits)

lemma better_None_iff: "better c b = None \<longleftrightarrow> b = None \<and> \<not> sn_hasAction c"
  by (auto simp: better_def split: option.splits)

lemma suffix_lookup_new [simp]: "suffix_lookup q newSuffixNode b = b"
  by (cases q) (auto simp: newSuffixNode_def)

lemma suffix_lookup_None_iff: "suffix_lookup q t (Some b) \<noteq> None"
proof (induction q arbitrary: t b)
  case (Cons l q)
  have "\<exists>b'. better c (Some b) = Some b'" for c by (auto simp: better_def)
  then show ?case using Cons by (auto split: option.split) (metis option.exhaust)
qed simp

text \<open>A candidate ranked behind the whole trie is kept only when the path carries no action.\<close>

lemma suffix_lookup_late:
  "trie_below (ra_rank x) t \<Longrightarrow> suffix_lookup q t (Some x) =
     (case suffix_lookup q t None of Some y \<Rightarrow> Some y | None \<Rightarrow> Some x)"
proof (induction q arbitrary: t)
  case (Cons l q)
  obtain ch b r h where t: "t = SuffixNode ch b r h" by (cases t)
  show ?case
  proof (cases "map_of ch l")
    case (Some c)
    then have c: "trie_below (ra_rank x) c" using Cons.prems t trie_below_child by simp
    show ?thesis
    proof (cases "sn_hasAction c")
      case True
      then have "better c (Some x) = better c None"
        using c by (cases c) (auto simp: better_def)
      moreover have "better c None \<noteq> None" using True by (simp add: better_None_iff)
      ultimately show ?thesis
        using suffix_lookup_None_iff by (auto simp: t Some split: option.split)
    next
      case False
      then have "better c b = b" for b by (cases c) auto
      then show ?thesis using Cons.IH [OF c] by (simp add: t Some)
    qed
  qed (simp add: t)
qed simp

lemma suffix_lookup_root: "sn_children t = sn_children u \<Longrightarrow> suffix_lookup q t b = suffix_lookup q u b"
  by (cases q) auto

lemma better_insert_Cons: "ps \<noteq> [] \<Longrightarrow> better (suffix_insert ps a n c) b = better c b"
  by (cases ps; cases c; cases b) (auto simp: better_def Let_def)

lemma suffix_lookup_insert_here:
  assumes "trie_below n c" "best_below n b"
  shows "suffix_lookup q (suffix_insert [] a n c) (better (suffix_insert [] a n c) b) =
    (case suffix_lookup q c (better c b) of
       Some x \<Rightarrow> Some x | None \<Rightarrow> Some \<lparr>ra_action = a, ra_rank = n\<rparr>)"
proof (cases "sn_hasAction c")
  case True
  then have "suffix_insert [] a n c = c" by (cases c) simp
  moreover obtain x where "better c b = Some x"
    using True better_None_iff [of c b] by auto
  ultimately show ?thesis
    using suffix_lookup_None_iff [of q c x] by (auto split: option.split)
next
  case False
  then obtain cc ca cr where cn: "c = SuffixNode cc ca cr False" by (cases c) auto
  have root: "suffix_lookup q (suffix_insert [] a n c) x = suffix_lookup q c x" for x
    by (rule suffix_lookup_root) (simp add: cn)
  show ?thesis
  proof (cases b)
    case None
    then have "better (suffix_insert [] a n c) b = Some \<lparr>ra_action = a, ra_rank = n\<rparr>"
      by (simp add: cn better_def)
    moreover have "better c b = None" by (simp add: cn None)
    ultimately show ?thesis
      using suffix_lookup_late [of "\<lparr>ra_action = a, ra_rank = n\<rparr>" c q] assms(1) by (simp add: root)
  next
    case (Some x)
    then have "better (suffix_insert [] a n c) b = b"
      using assms(2) by (simp add: cn better_def best_below_def)
    moreover have "better c b = b" by (simp add: cn)
    ultimately show ?thesis
      using suffix_lookup_None_iff [of q c x] by (auto simp: root Some split: option.split)
  qed
qed

lemma suffix_lookup_insert:
  assumes "trie_below n t" "best_below n b"
  shows "suffix_lookup q (suffix_insert p a n t) b = (case suffix_lookup q t b of
      Some x \<Rightarrow> Some x
    | None \<Rightarrow> if p \<noteq> [] \<and> prefix p q then Some \<lparr>ra_action = a, ra_rank = n\<rparr> else None)"
  using assms
proof (induction q arbitrary: p t b)
  case Nil
  then show ?case by (auto split: option.split)
next
  case (Cons l q)
  obtain ch ta tr th where t: "t = SuffixNode ch ta tr th" by (cases t)
  show ?case
  proof (cases p)
    case Nil
    then show ?thesis by (simp add: t split: option.split)
  next
    case (Cons k ps)
    show ?thesis
    proof (cases "k = l")
      case False
      then show ?thesis by (simp add: t Cons Let_def update_conv' split: option.split)
    next
      case True
      define c where "c = (case map_of ch l of Some c \<Rightarrow> c | None \<Rightarrow> newSuffixNode)"
      have c: "trie_below n c"
        using Cons.prems(1) t trie_below_child by (auto simp: c_def split: option.split)
      have new: "suffix_lookup (l # q) (suffix_insert p a n t) b
          = suffix_lookup q (suffix_insert ps a n c) (better (suffix_insert ps a n c) b)"
        by (simp add: t Cons True Let_def c_def update_conv')
      have old: "suffix_lookup (l # q) t b = suffix_lookup q c (better c b)"
        by (simp add: t c_def split: option.split)
      show ?thesis
      proof (cases "ps = []")
        case False
        have "best_below n (better c b)" using c Cons.prems(2) by (rule better_below)
        from Cons.IH [OF c this, of ps] False show ?thesis
          unfolding new old by (simp add: better_insert_Cons Cons True split: option.split)
      next
        case ps: True
        show ?thesis unfolding new old unfolding ps
          using suffix_lookup_insert_here [OF c Cons.prems(2), of q a]
          by (simp add: Cons True ps split: option.split)
      qed
    qed
  qed
qed

definition suffix_hits :: "string list \<Rightarrow> string \<Rightarrow> bool" where
  "suffix_hits labels name = (labels \<noteq> [] \<and> suffix labels (splitLabels name))"

interpretation trie: ranked_index "\<lambda>labels a r t. trie_insert t labels a r" trie_lookup suffix_hits trie_below
proof
  fix r t k a q
  assume "trie_below r t"
  then show "trie_lookup (trie_insert t k a r) q = (case trie_lookup t q of Some x \<Rightarrow> Some x
      | None \<Rightarrow> if suffix_hits k q then Some \<lparr>ra_action = a, ra_rank = r\<rparr> else None)"
    using suffix_lookup_insert [of r t None "rev (splitLabels q)" "rev k" a]
    by (simp add: trie_lookup_def trie_insert_def suffix_hits_def best_below_def suffix_to_prefix)
qed (auto simp: trie_insert_def intro: trie_below_insert trie_below_mono)

section \<open>Exact map and keyword list as ranked indexes\<close>

definition exact_add :: "string \<Rightarrow> string \<Rightarrow> nat \<Rightarrow> (string \<times> rankedAction) list \<Rightarrow> (string \<times> rankedAction) list" where
  "exact_add name a r m = (case map_of m name of
      Some _ \<Rightarrow> m | None \<Rightarrow> m @ [(name, \<lparr>ra_action = a, ra_rank = r\<rparr>)])"

interpretation exact: ranked_index exact_add map_of "(=)" "\<lambda>_ _. True"
  by unfold_locales (auto simp: exact_add_def map_add_def split: option.split)

definition keyword_add :: "string \<Rightarrow> string \<Rightarrow> nat \<Rightarrow> keywordRule list \<Rightarrow> keywordRule list" where
  "keyword_add kw a r ks = ks @ [\<lparr>kw_keyword = kw, kw_action = a, kw_rank = r\<rparr>]"

interpretation keyword: ranked_index keyword_add keyword_lookup "\<lambda>kw name. Contains name kw" "\<lambda>_ _. True"
  by unfold_locales (auto simp: keyword_add_def keyword_lookup_def find_append split: option.split)

section \<open>Compiled table against the rule list\<close>

definition exact_sel :: "Rule \<Rightarrow> bool" where "exact_sel r = (rule_Kind r = KindDomain)"
definition suffix_sel :: "Rule \<Rightarrow> bool" where "suffix_sel r = (rule_Kind r = KindDomainSuffix)"
definition keyword_sel :: "Rule \<Rightarrow> bool" where "keyword_sel r = (rule_Kind r = KindDomainKeyword)"

abbreviation pattern_name :: "Rule \<Rightarrow> string" where
  "pattern_name r \<equiv> normalizeName (rule_Pattern r)"

lemmas sel_defs = exact_sel_def suffix_sel_def keyword_sel_def

lemma compileRule_exact:
  "tbl_exact (compileRule t r i) = exact.add_rule exact_sel pattern_name (i, r) (tbl_exact t)"
  by (auto simp: compileRule_def exact.add_rule_def exact_add_def sel_defs Let_def split: option.splits)

lemma compileRule_suffix:
  "tbl_suffix (compileRule t r i) =
     trie.add_rule suffix_sel (\<lambda>r. splitLabels (pattern_name r)) (i, r) (tbl_suffix t)"
  by (auto simp: compileRule_def trie.add_rule_def sel_defs Let_def split: option.splits)

lemma compileRule_keywords:
  "tbl_keywords (compileRule t r i) =
     keyword.add_rule keyword_sel (\<lambda>r. ToLower (rule_Pattern r)) (i, r) (tbl_keywords t)"
  by (auto simp: compileRule_def keyword.add_rule_def keyword_add_def sel_defs Let_def split: option.splits)

lemma compileRule_default:
  "tbl_defaultAction (compileRule t r i) =
     (if is_match r \<and> tbl_defaultAction t = [] then rule_Action r else tbl_defaultAction t)"
  by (auto simp: compileRule_def is_match_def Let_def split: option.splits)

lemma fold_project:
  assumes "\<And>i r t. g (compileRule t r i) = h (i, r) (g t)"
  shows "g (fold (\<lambda>(i, r) t. compileRule t r i) xs t) = fold h xs (g t)"
  using assms by (induction xs arbitrary: t) auto

lemma compileRules_default:
  "tbl_defaultAction (compileRules rs emptyTable) =
     (case find (\<lambda>r. is_match r \<and> rule_Action r \<noteq> []) rs of Some r \<Rightarrow> rule_Action r | None \<Rightarrow> [])"
proof -
  have "tbl_defaultAction (fold (\<lambda>(i, r) t. compileRule t r i) (enumerate n rs) t) =
     (if tbl_defaultAction t \<noteq> [] then tbl_defaultAction t
      else case find (\<lambda>r. is_match r \<and> rule_Action r \<noteq> []) rs of Some r \<Rightarrow> rule_Action r | None \<Rightarrow> [])" for n t
    by (induction rs arbitrary: n t) (auto simp: compileRule_default)
  then show ?thesis by (simp add: compileRules_def emptyTable_def)
qed

lemma find_enumerate_snd: "map_option snd (find (\<lambda>(i, r). P r) (enumerate n rs)) = find P rs"
  by (induction rs arbitrary: n) auto

lemma find_enumerate_ge: "find P (enumerate n rs) = Some (i, r) \<Longrightarrow> n \<le> i"
  by (induction rs arbitrary: n) (auto split: if_splits dest: Suc_leD)

lemma considerA_find:
  "considerA (map_option ranked (find P (enumerate n rs))) (map_option ranked (find Q (enumerate n rs)))
     = map_option ranked (find (\<lambda>x. P x \<or> Q x) (enumerate n rs))"
proof (induction rs arbitrary: n)
  case (Cons r rs)
  have "Suc n \<le> i" if "find R (enumerate (Suc n) rs) = Some (i, q)" for R i q
    using that by (rule find_enumerate_ge)
  then show ?case using Cons [of "Suc n"]
    by (fastforce simp: considerA_def ranked_def split: option.splits)
qed (simp add: considerA_def)

text \<open>A rule matches a normalized query name as the sequential rule list would: by the exact
  name, by a label-aligned suffix, or by a substring.\<close>

definition qname_matches :: "string \<Rightarrow> Rule \<Rightarrow> bool" where
  "qname_matches name r =
     (if rule_Kind r = KindDomain then pattern_name r = name
      else if rule_Kind r = KindDomainSuffix
        then pattern_name r \<noteq> [] \<and> (name = pattern_name r \<or> HasSuffix name (CHR ''.'' # pattern_name r))
      else if rule_Kind r = KindDomainKeyword then Contains name (ToLower (rule_Pattern r))
      else False)"

lemma suffix_hits_splitLabels:
  "suffix_hits (splitLabels p) name \<longleftrightarrow> p \<noteq> [] \<and> (name = p \<or> HasSuffix name (CHR ''.'' # p))"
  by (cases "name = []") (auto simp: suffix_hits_def splitLabels_def suffix_Split HasSuffix_def)

lemma best_match:
  fixes rs name
  defines "t \<equiv> compileRules rs emptyTable"
  shows "considerA (considerA (considerA None (map_of (tbl_exact t) name))
           (trie_lookup (tbl_suffix t) name)) (keyword_lookup (tbl_keywords t) name)
     = map_option ranked (find (\<lambda>(i, r). qname_matches name r) (enumerate 0 rs))"
proof -
  have e: "map_of (tbl_exact t) name =
      map_option ranked (find (\<lambda>(i, r). exact_sel r \<and> pattern_name r = name) (enumerate 0 rs))"
    using exact.look_fold [where n = 0 and t = "[]" and sel = exact_sel
      and key = pattern_name and rs = rs and q = name]
    by (simp add: t_def compileRules_def emptyTable_def fold_project [where g = tbl_exact, OF compileRule_exact])
  have s: "trie_lookup (tbl_suffix t) name = map_option ranked
      (find (\<lambda>(i, r). suffix_sel r \<and> suffix_hits (splitLabels (pattern_name r)) name) (enumerate 0 rs))"
    using trie.look_fold [of 0 newSuffixNode suffix_sel "\<lambda>r. splitLabels (pattern_name r)" rs name]
    by (simp add: t_def compileRules_def emptyTable_def fold_project [where g = tbl_suffix, OF compileRule_suffix] trie_lookup_def)
  have k: "keyword_lookup (tbl_keywords t) name = map_option ranked
      (find (\<lambda>(i, r). keyword_sel r \<and> Contains name (ToLower (rule_Pattern r))) (enumerate 0 rs))"
    using keyword.look_fold [where n = 0 and t = "[]" and sel = keyword_sel
      and key = "\<lambda>r. ToLower (rule_Pattern r)" and rs = rs and q = name]
    by (simp add: t_def compileRules_def emptyTable_def fold_project [where g = tbl_keywords, OF compileRule_keywords] keyword_lookup_def)
  have init: "considerA None b = b" for b by (simp add: considerA_def split: option.split)
  have pred: "(\<lambda>x. (case x of (i, r) \<Rightarrow> exact_sel r \<and> pattern_name r = name)
        \<or> (case x of (i, r) \<Rightarrow> suffix_sel r \<and> suffix_hits (splitLabels (pattern_name r)) name)
        \<or> (case x of (i, r) \<Rightarrow> keyword_sel r \<and> Contains name (ToLower (rule_Pattern r))))
      = (\<lambda>(i, r). qname_matches name r)"
    by (auto simp: fun_eq_iff qname_matches_def sel_defs suffix_hits_splitLabels)
  show ?thesis unfolding e s k init considerA_find disj_assoc pred ..
qed

lemma BuildTable_lookup [simp]:
  "tbl_exact (BuildTable sha rs) = tbl_exact (compileRules (sorted_enabled rs) emptyTable)"
  "tbl_suffix (BuildTable sha rs) = tbl_suffix (compileRules (sorted_enabled rs) emptyTable)"
  "tbl_keywords (BuildTable sha rs) = tbl_keywords (compileRules (sorted_enabled rs) emptyTable)"
  "tbl_defaultAction (BuildTable sha rs) = tbl_defaultAction (compileRules (sorted_enabled rs) emptyTable)"
  by (simp_all add: BuildTable_def Let_def split: option.split)

text \<open>The reference classifier: scan the sorted rules; the first name rule that matches
  decides, then the first MATCH rule with an action, then the proxy default.\<close>

definition classify_spec :: "Rule list \<Rightarrow> string \<Rightarrow> Action" where
  "classify_spec rs qname =
     (let sorted_rs = sorted_enabled rs in
      case find (qname_matches (normalizeName qname)) sorted_rs of
        Some r \<Rightarrow> toAction (rule_Action r)
      | None \<Rightarrow> (case find (\<lambda>r. is_match r \<and> rule_Action r \<noteq> []) sorted_rs of
            Some r \<Rightarrow> toAction (rule_Action r)
          | None \<Rightarrow> ActionProxy))"

lemma classify_BuildTable: "classify (Some (BuildTable sha rs)) qname = classify_spec rs qname"
proof -
  let ?s = "sorted_enabled rs" and ?n = "normalizeName qname"
  have "find (qname_matches ?n) ?s = map_option snd (find (\<lambda>(i, r). qname_matches ?n r) (enumerate 0 ?s))"
    by (simp add: find_enumerate_snd)
  then show ?thesis
    by (auto simp: classify_def classify_spec_def best_match compileRules_default ranked_def
        split: option.splits dest: find_Some_in)
qed

lemma classify_Generation [simp]: "classify (Some (t\<lparr>tbl_Generation := g\<rparr>)) n = classify (Some t) n"
  by (simp add: classify_def Let_def split: option.split)

section \<open>Validated rule sets\<close>

lemma valid_actions_neq_Nil:
  "RuleSet_Validate isDN rs = None \<Longrightarrow> r \<in> set rs \<Longrightarrow> rule_Action r \<noteq> []"
  by (metis RuleSet_Validate_None Rule_Validate_NoneD(2) TrimSpace_Nil)

lemma qname_not_match: "qname_matches n r \<Longrightarrow> \<not> is_match r"
  by (auto simp: qname_matches_def is_match_def split: if_splits)

lemma find_disj_last:
  assumes "\<And>x. x \<in> set front \<Longrightarrow> \<not> Q x"
  shows "find (\<lambda>x. P x \<or> Q x) (front @ [y]) = (case find P (front @ [y]) of
     Some x \<Rightarrow> Some x | None \<Rightarrow> find Q (front @ [y]))"
  using assms
proof (induction front)
  case (Cons a front)
  then have "\<not> Q a" by simp
  then show ?case using Cons by (simp split: option.split)
qed simp

text \<open>With the MATCH rule at the end, the two-stage scan is one scan in which MATCH matches
  every name.\<close>

lemma classify_spec_valid:
  assumes "RuleSet_Validate isDN rs = None"
  shows "classify_spec rs qname =
    (case find (\<lambda>r. qname_matches (normalizeName qname) r \<or> is_match r) (sorted_enabled rs) of
       Some r \<Rightarrow> toAction (rule_Action r) | None \<Rightarrow> ActionProxy)"
proof -
  let ?q = "qname_matches (normalizeName qname)" and ?s = "sorted_enabled rs"
  have m: "find (\<lambda>r. is_match r \<and> rule_Action r \<noteq> []) ?s = find is_match ?s"
    using valid_actions_neq_Nil [OF assms] by (intro find_cong) auto
  have "find (\<lambda>r. ?q r \<or> is_match r) ?s = (case find ?q ?s of Some x \<Rightarrow> Some x | None \<Rightarrow> find is_match ?s)"
  proof (cases "\<exists>r\<in>set ?s. is_match r")
    case True
    then obtain r where "r \<in> set rs" "is_match r" "rule_Enabled r" by auto
    then obtain front where "?s = front @ [r]" "\<And>x. x \<in> set front \<Longrightarrow> \<not> is_match x"
      using sorted_enabled_match_last [OF assms] by metis
    then show ?thesis by (simp add: find_disj_last split: option.split)
  next
    case False
    then have "find is_match ?s = None" by (simp add: find_None_conv)
    moreover have "find (\<lambda>r. ?q r \<or> is_match r) ?s = find ?q ?s"
      using False by (intro find_cong) auto
    ultimately show ?thesis by (simp split: option.split)
  qed
  then show ?thesis by (simp add: classify_spec_def m Let_def split: option.split)
qed

text \<open>Names and patterns the dry run and the resolver read alike: no surrounding white space
  and no final dot.\<close>

definition plain_name :: "string \<Rightarrow> bool" where
  "plain_name q = (TrimSpace q = q \<and> \<not> HasSuffix q ''.'')"

definition name_rule :: "Rule \<Rightarrow> bool" where
  "name_rule r = (is_match r \<or>
     (rule_Kind r \<in> {KindDomain, KindDomainSuffix, KindDomainKeyword} \<and>
      \<not> HasSuffix (TrimSpace (rule_Pattern r)) ''.''))"

lemma ToLower_eq_Nil [simp]: "ToLower s = [] \<longleftrightarrow> s = []"
  by (simp add: ToLower_def)

lemma normalizeName_plain: "\<not> HasSuffix (TrimSpace s) ''.'' \<Longrightarrow> normalizeName s = ToLower (TrimSpace s)"
  by (simp add: normalizeName_def TrimSuffix_def ToLower_dot)

lemma ruleMatchesFixture_qname:
  assumes "plain_name (fx_Domain f)" "name_rule r" "Rule_Validate isDN r = None"
  shows "ruleMatchesFixture r f \<longleftrightarrow> qname_matches (normalizeName (fx_Domain f)) r \<or> is_match r"
proof -
  have q: "normalizeName (fx_Domain f) = ToLower (fx_Domain f)" "TrimSpace (fx_Domain f) = fx_Domain f"
    using assms(1) by (auto simp: plain_name_def normalizeName_plain)
  have p: "pattern_name r = ToLower (TrimSpace (rule_Pattern r))" "TrimSpace (rule_Pattern r) \<noteq> []"
    if "\<not> is_match r"
    using assms(2) that Rule_Validate_NoneD(4) [OF assms(3)]
    by (auto simp: name_rule_def is_match_def intro: normalizeName_plain)
  show ?thesis
  proof (cases "is_match r")
    case True
    then show ?thesis by (simp add: ruleMatchesFixture_def is_match_def)
  next
    case False
    with assms(2) consider "rule_Kind r = KindDomain" | "rule_Kind r = KindDomainSuffix" | "rule_Kind r = KindDomainKeyword"
      by (auto simp: name_rule_def)
    then show ?thesis using q p [OF False] False
      by cases (auto simp: ruleMatchesFixture_def qname_matches_def equalFold_def EqualFold_def
          domainHasSuffix_def Let_def)
  qed
qed

lemma classify_dry_run_one:
  assumes "RuleSet_Validate isDN rs = None" "\<forall>r\<in>set rs. name_rule r" "plain_name (fx_Domain f)"
    "target \<noteq> []" "toAction target = ActionProxy"
  shows "toAction (dr_ActualExit (dry_run_one (sorted_enabled rs) target f))
     = classify (Some (BuildTable sha rs)) (fx_Domain f)"
proof -
  have "findMatch (sorted_enabled rs) f =
      find (\<lambda>r. qname_matches (normalizeName (fx_Domain f)) r \<or> is_match r) (sorted_enabled rs)"
    unfolding findMatch_def using assms(1-3)
    by (intro find_cong) (auto simp: ruleMatchesFixture_qname RuleSet_Validate_None)
  then show ?thesis using assms(4,5)
    by (simp add: classify_BuildTable classify_spec_valid [OF assms(1)] dry_run_one_def Let_def
        split: option.split)
qed

section \<open>Properties\<close>

text \<open>(C2) The compiled table decides every query name as a sequential scan of the rule list does:
  among the enabled rules in stable priority order, the first DOMAIN, DOMAIN-SUFFIX or
  DOMAIN-KEYWORD rule that matches the normalized name gives the action; without one, the first
  MATCH rule with an action; without that, the proxy action. The exact map, the suffix trie and the
  keyword list together lose no rule and invert no priority, for every rule set and every name.\<close>

theorem classify_equals_sequential_scan:
  "classify (Some (BuildTable sha rs)) qname =
     (case find (qname_matches (normalizeName qname)) (sort_key rule_Priority (filter rule_Enabled rs)) of
        Some r \<Rightarrow> toAction (rule_Action r)
      | None \<Rightarrow>
          (case find (\<lambda>r. rule_Kind r = KindMatch \<and> rule_Action r \<noteq> [])
                  (sort_key rule_Priority (filter rule_Enabled rs)) of
             Some r \<Rightarrow> toAction (rule_Action r)
           | None \<Rightarrow> ActionProxy))"
  by (simp add: classify_BuildTable classify_spec_def sorted_enabled_def enabled_rules_def
      is_match_def Let_def split: option.split)

text \<open>On a validated rule set the classifier is one first-match scan in which MATCH matches
  every name, the semantics of the rule list handed to the data plane.\<close>

theorem classify_validated_first_match:
  assumes "RuleSet_Validate isDN rs = None"
  shows "classify (Some (BuildTable sha rs)) qname =
    (case find (\<lambda>r. qname_matches (normalizeName qname) r \<or> rule_Kind r = KindMatch) (sorted_enabled rs) of
       Some r \<Rightarrow> toAction (rule_Action r) | None \<Rightarrow> ActionProxy)"
  using classify_spec_valid [OF assms] by (simp add: classify_BuildTable is_match_def)

theorem classify_validated_first_match_witness:
  "classify (Some (BuildTable id_digest sample_rules)) ''www.example.com.'' = ActionDirect"
  using classify_validated_first_match [OF sample_rules_valid, of id_digest "''www.example.com.''"]
  by (simp add: sample_rules_def sample_rule_def sorted_enabled_def enabled_rules_def
      qname_matches_def normalizeName_def TrimSuffix_def string_eval kind_defs toAction_def)


definition sample_fixture :: "string \<Rightarrow> TestFixture" where
  "sample_fixture d = \<lparr>fx_Domain = d, fx_IP = [], fx_ExpectedExit = [], fx_Notes = []\<rparr>"


end
