(* ===== verification/Db.thy ===== *)
theory Db
  imports Prelude
begin

text \<open>
  The control-plane database, \<open>internal/db/queries.go\<close>, over the schema of
  \<open>internal/db/migrations\<close>: panel users and sessions, snapshots, rule versions, the audit log, rule
  sources, the apply lifecycle, the exits table, the panel settings and the registered rulesets.

  A table is the list of its rows in the order of their row ids; an AUTOINCREMENT counter is the
  largest id handed out.  The SQL statements are operations on the lists that check the constraints
  of the schema.  Any statement can fail: \<open>db_faults\<close> is the sequence of outcomes the engine gives
  to the statements to come (\<open>None\<close> runs the statement, \<open>Some e\<close> fails it without effect; past the
  end every statement runs).  \<open>CURRENT_TIMESTAMP\<close> and \<open>time.Now\<close> read \<open>db_now\<close>.
\<close>

section \<open>Rows and tables\<close>

record PanelUser =
  pu_ID :: int
  pu_Username :: string
  pu_BcryptHash :: string
  pu_CreatedAt :: int
  pu_LastLoginAt :: "int option"

record PanelSession =
  ps_ID :: string
  ps_UserID :: int
  ps_JWTID :: string
  ps_IssuedAt :: int
  ps_ExpiresAt :: int
  ps_RevokedAt :: "int option"
  ps_IP :: string
  ps_UserAgent :: string

record Snapshot =
  sn_ID :: int
  sn_CreatedAt :: int
  sn_ConfigHash :: string
  sn_TarballPath :: string
  sn_Note :: string

record RuleVersion =
  rv_ID :: int
  rv_SnapshotID :: int
  rv_RulesYAML :: string
  rv_CreatedAt :: int
  rv_Active :: bool

record AuditEntry =
  ae_Actor :: string
  ae_Action :: string
  ae_Target :: string
  ae_Before :: string
  ae_After :: string
  ae_Result :: string
  ae_IP :: string

record RuleSourceRow =
  src_url :: string
  src_kind :: string
  src_last_synced :: "int option"
  src_etag :: "string option"

record ApplyStatus =
  as_ID :: int
  as_SnapshotID :: int
  as_State :: string
  as_Reason :: string
  as_CreatedAt :: int
  as_UpdatedAt :: int

record ExitRow =
  ex_ID :: int
  ex_exit_id :: string
  ex_name :: string
  ex_protocol :: string
  ex_uri :: string
  ex_active :: bool
  ex_created_at :: int

record SettingRow =
  st_key :: string
  st_value :: string
  st_updated_at :: int
  st_updated_by :: string

record RulesetRow =
  rt_name :: string
  rt_source_url :: string
  rt_kind :: string
  rt_action :: string
  rt_priority :: int
  rt_enabled :: int
  rt_etag :: string
  rt_last_modified :: string
  rt_last_synced_at :: "int option"
  rt_last_error :: "string option"
  rt_rule_count :: nat
  rt_content :: "string option"
  rt_created_at :: int
  rt_created_by :: string

record DB =
  t_users :: "PanelUser list"
  t_sessions :: "PanelSession list"
  t_snapshots :: "Snapshot list"
  t_versions :: "RuleVersion list"
  t_audit :: "AuditEntry list"
  t_sources :: "RuleSourceRow list"
  t_apply :: "ApplyStatus list"
  t_exits :: "ExitRow list"
  t_settings :: "SettingRow list"
  t_rulesets :: "RulesetRow list"
  seq_users :: int
  seq_snapshots :: int
  seq_versions :: int
  seq_apply :: int
  seq_exits :: int
  db_now :: int
  db_faults :: "string option list"

datatype db_error = ErrNoRows | ErrConstraint string | ErrSQL string | ErrAffected int nat

section \<open>Statements and transactions\<close>

type_synonym 'a dbm = "DB \<Rightarrow> (db_error, 'a) result \<times> DB"

definition returnD :: "'a \<Rightarrow> 'a dbm" where
  "returnD a = (\<lambda>d. (Inr a, d))"

definition throwD :: "db_error \<Rightarrow> 'a dbm" where
  "throwD e = (\<lambda>d. (Inl e, d))"

definition bindD :: "'a dbm \<Rightarrow> ('a \<Rightarrow> 'b dbm) \<Rightarrow> 'b dbm" where
  "bindD m f = (\<lambda>d. case m d of (Inl e, d') \<Rightarrow> (Inl e, d') | (Inr a, d') \<Rightarrow> f a d')"

definition stmt :: "'a dbm \<Rightarrow> 'a dbm" where
  "stmt f = (\<lambda>d. case db_faults d of
      [] \<Rightarrow> f d
    | None # fs \<Rightarrow> f (d\<lparr>db_faults := fs\<rparr>)
    | Some e # fs \<Rightarrow> (Inl (ErrSQL e), d\<lparr>db_faults := fs\<rparr>))"

text \<open>\<open>Begin\<close>, the body, \<open>Commit\<close>; the deferred \<open>Rollback\<close> discards every change unless the commit
  succeeded.\<close>

definition transaction :: "'a dbm \<Rightarrow> 'a dbm" where
  "transaction body = (\<lambda>d. case stmt (returnD ()) d of
      (Inl e, d0) \<Rightarrow> (Inl e, d0)
    | (Inr _, d0) \<Rightarrow> (case body d0 of
          (Inl e, d1) \<Rightarrow> (Inl e, d0\<lparr>db_faults := db_faults d1\<rparr>)
        | (Inr a, d1) \<Rightarrow> (case stmt (returnD ()) d1 of
              (Inl e, d2) \<Rightarrow> (Inl e, d0\<lparr>db_faults := db_faults d2\<rparr>)
            | (Inr _, d2) \<Rightarrow> (Inr a, d2))))"

text \<open>Rows with an active flag of which a partial unique index admits one at most.\<close>

definition demote_all :: "('r \<Rightarrow> bool) \<Rightarrow> (bool \<Rightarrow> 'r \<Rightarrow> 'r) \<Rightarrow> 'r list \<Rightarrow> 'r list" where
  "demote_all active set_active rs = map (\<lambda>r. if active r then set_active False r else r) rs"

definition promote :: "('r \<Rightarrow> 'k) \<Rightarrow> (bool \<Rightarrow> 'r \<Rightarrow> 'r) \<Rightarrow> 'k \<Rightarrow> 'r list \<Rightarrow> 'r list" where
  "promote key set_active k rs = map (\<lambda>r. if key r = k then set_active True r else r) rs"

definition one_active :: "('r \<Rightarrow> bool) \<Rightarrow> 'r list \<Rightarrow> bool" where
  "one_active active rs = (length (filter active rs) \<le> 1)"

section \<open>Panel users and sessions\<close>

definition InsertPanelUser :: "string \<Rightarrow> string \<Rightarrow> int dbm" where
  "InsertPanelUser username hash = stmt (\<lambda>d.
     if list_ex (\<lambda>u. pu_Username u = username) (t_users d) then (Inl (ErrConstraint ''panel_users.username''), d)
     else let i = seq_users d + 1 in
       (Inr i, d\<lparr>seq_users := i, t_users := t_users d @
          [\<lparr>pu_ID = i, pu_Username = username, pu_BcryptHash = hash, pu_CreatedAt = db_now d, pu_LastLoginAt = None\<rparr>]\<rparr>))"

definition InsertFirstPanelUser :: "string \<Rightarrow> string \<Rightarrow> (int \<times> bool) dbm" where
  "InsertFirstPanelUser username hash = stmt (\<lambda>d.
     if t_users d \<noteq> [] then (Inr (0, False), d)
     else let i = seq_users d + 1 in
       (Inr (i, True), d\<lparr>seq_users := i, t_users :=
          [\<lparr>pu_ID = i, pu_Username = username, pu_BcryptHash = hash, pu_CreatedAt = db_now d, pu_LastLoginAt = None\<rparr>]\<rparr>))"

definition select1 :: "(DB \<Rightarrow> 'a option) \<Rightarrow> 'a dbm" where
  "select1 q = stmt (\<lambda>d. case q d of None \<Rightarrow> (Inl ErrNoRows, d) | Some r \<Rightarrow> (Inr r, d))"

definition GetPanelUserByUsername :: "string \<Rightarrow> PanelUser dbm" where
  "GetPanelUserByUsername username = select1 (\<lambda>d. find (\<lambda>u. pu_Username u = username) (t_users d))"

definition CountPanelUsers :: "nat dbm" where
  "CountPanelUsers = stmt (\<lambda>d. (Inr (length (t_users d)), d))"

definition TouchLastLogin :: "int \<Rightarrow> unit dbm" where
  "TouchLastLogin userID = stmt (\<lambda>d. (Inr (), d\<lparr>t_users :=
     map (\<lambda>u. if pu_ID u = userID then u\<lparr>pu_LastLoginAt := Some (db_now d)\<rparr> else u) (t_users d)\<rparr>))"

definition InsertPanelSession :: "PanelSession \<Rightarrow> unit dbm" where
  "InsertPanelSession s = stmt (\<lambda>d.
     if list_ex (\<lambda>x. ps_ID x = ps_ID s) (t_sessions d) then (Inl (ErrConstraint ''panel_sessions.id''), d)
     else if list_ex (\<lambda>x. ps_JWTID x = ps_JWTID s) (t_sessions d) then (Inl (ErrConstraint ''panel_sessions.jwt_id''), d)
     else if \<not> list_ex (\<lambda>u. pu_ID u = ps_UserID s) (t_users d) then (Inl (ErrConstraint ''panel_sessions.user_id''), d)
     else (Inr (), d\<lparr>t_sessions := t_sessions d @ [s\<lparr>ps_RevokedAt := None\<rparr>]\<rparr>))"

definition IsSessionActive :: "string \<Rightarrow> bool dbm" where
  "IsSessionActive sessionID = stmt (\<lambda>d.
     (Inr (case find (\<lambda>s. ps_ID s = sessionID) (t_sessions d) of
        None \<Rightarrow> False
      | Some s \<Rightarrow> if ps_RevokedAt s \<noteq> None then False
                 else if db_now d > ps_ExpiresAt s then False else True), d))"

definition RevokeSession :: "string \<Rightarrow> unit dbm" where
  "RevokeSession sessionID = stmt (\<lambda>d. (Inr (), d\<lparr>t_sessions :=
     map (\<lambda>s. if ps_ID s = sessionID then s\<lparr>ps_RevokedAt := Some (db_now d)\<rparr> else s) (t_sessions d)\<rparr>))"

definition RevokeSessionsExcept :: "int \<Rightarrow> string \<Rightarrow> unit dbm" where
  "RevokeSessionsExcept userID keepJWTID = stmt (\<lambda>d. (Inr (), d\<lparr>t_sessions :=
     map (\<lambda>s. if ps_UserID s = userID \<and> ps_RevokedAt s = None \<and> ps_JWTID s \<noteq> keepJWTID
               then s\<lparr>ps_RevokedAt := Some (db_now d)\<rparr> else s) (t_sessions d)\<rparr>))"

definition UpdatePanelUserPassword :: "int \<Rightarrow> string \<Rightarrow> unit dbm" where
  "UpdatePanelUserPassword userID hash = stmt (\<lambda>d. (Inr (), d\<lparr>t_users :=
     map (\<lambda>u. if pu_ID u = userID then u\<lparr>pu_BcryptHash := hash\<rparr> else u) (t_users d)\<rparr>))"

section \<open>Snapshots and rule versions\<close>

definition snapshot_insert :: "Snapshot \<Rightarrow> int option dbm" where
  "snapshot_insert s = (\<lambda>d.
     if list_ex (\<lambda>x. sn_ConfigHash x = sn_ConfigHash s) (t_snapshots d) then (Inr None, d)
     else let i = seq_snapshots d + 1 in
       (Inr (Some i), d\<lparr>seq_snapshots := i, t_snapshots := t_snapshots d @
          [s\<lparr>sn_ID := i, sn_CreatedAt := db_now d\<rparr>]\<rparr>))"

definition InsertSnapshot :: "Snapshot \<Rightarrow> int dbm" where
  "InsertSnapshot s = bindD (stmt (snapshot_insert s)) (\<lambda>r. case r of
      Some i \<Rightarrow> returnD i
    | None \<Rightarrow> select1 (\<lambda>d. map_option sn_ID (find (\<lambda>x. sn_ConfigHash x = sn_ConfigHash s) (t_snapshots d))))"

definition GetSnapshotByID :: "int \<Rightarrow> Snapshot dbm" where
  "GetSnapshotByID i = select1 (\<lambda>d. find (\<lambda>s. sn_ID s = i) (t_snapshots d))"

definition sql_limit :: "int \<Rightarrow> 'r list \<Rightarrow> 'r list" where
  "sql_limit n rs = (if n < 0 then rs else take (nat n) rs)"

text \<open>\<open>ORDER BY created_at DESC\<close>; among equal timestamps SQLite walks the index on \<open>created_at\<close>
  backwards, so the later row comes first.\<close>

definition ListSnapshots :: "int \<Rightarrow> Snapshot list dbm" where
  "ListSnapshots n = stmt (\<lambda>d. (Inr (sql_limit n (rev (sort_key sn_CreatedAt (t_snapshots d)))), d))"

definition demote_versions :: "unit dbm" where
  "demote_versions = (\<lambda>d. (Inr (), d\<lparr>t_versions :=
     demote_all rv_Active (\<lambda>b r. r\<lparr>rv_Active := b\<rparr>) (t_versions d)\<rparr>))"

definition version_insert :: "int \<Rightarrow> string \<Rightarrow> bool \<Rightarrow> int dbm" where
  "version_insert snapshotID yaml active = (\<lambda>d.
     if \<not> list_ex (\<lambda>s. sn_ID s = snapshotID) (t_snapshots d) then (Inl (ErrConstraint ''rule_versions.snapshot_id''), d)
     else if active \<and> list_ex rv_Active (t_versions d) then (Inl (ErrConstraint ''rule_versions.active''), d)
     else let i = seq_versions d + 1 in
       (Inr i, d\<lparr>seq_versions := i, t_versions := t_versions d @
          [\<lparr>rv_ID = i, rv_SnapshotID = snapshotID, rv_RulesYAML = yaml, rv_CreatedAt = db_now d, rv_Active = active\<rparr>]\<rparr>))"

definition InsertRuleVersion :: "int \<Rightarrow> string \<Rightarrow> bool \<Rightarrow> int dbm" where
  "InsertRuleVersion snapshotID yaml setActive = transaction (
     bindD (if setActive then stmt demote_versions else returnD ()) (\<lambda>_.
       stmt (version_insert snapshotID yaml setActive)))"

definition promote_version :: "int \<Rightarrow> nat dbm" where
  "promote_version i = (\<lambda>d.
     let vs = promote rv_ID (\<lambda>b r. r\<lparr>rv_Active := b\<rparr>) i (t_versions d) in
     if one_active rv_Active vs then (Inr (length (filter (\<lambda>r. rv_ID r = i) vs)), d\<lparr>t_versions := vs\<rparr>)
     else (Inl (ErrConstraint ''rule_versions.active''), d))"

definition SetActiveRuleVersion :: "int \<Rightarrow> unit dbm" where
  "SetActiveRuleVersion i = transaction (
     bindD (stmt demote_versions) (\<lambda>_. bindD (stmt (promote_version i)) (\<lambda>n.
       if n \<noteq> 1 then throwD ErrNoRows else returnD ())))"

definition ClearActiveRuleVersion :: "unit dbm" where
  "ClearActiveRuleVersion = stmt demote_versions"

definition GetRuleVersionByID :: "int \<Rightarrow> RuleVersion dbm" where
  "GetRuleVersionByID i = select1 (\<lambda>d. find (\<lambda>r. rv_ID r = i) (t_versions d))"

definition GetRuleVersionBySnapshot :: "int \<Rightarrow> RuleVersion dbm" where
  "GetRuleVersionBySnapshot i = select1 (\<lambda>d.
     find (\<lambda>r. rv_SnapshotID r = i) (rev (sort_key rv_ID (t_versions d))))"

definition GetActiveRuleVersion :: "RuleVersion dbm" where
  "GetActiveRuleVersion = select1 (\<lambda>d. find rv_Active (t_versions d))"

definition ListRuleVersions :: "int \<Rightarrow> RuleVersion list dbm" where
  "ListRuleVersions n = stmt (\<lambda>d. (Inr (sql_limit n (rev (sort_key rv_CreatedAt (t_versions d)))), d))"

section \<open>Audit log, rule sources, apply lifecycle\<close>

definition AppendAudit :: "AuditEntry \<Rightarrow> unit dbm" where
  "AppendAudit e = stmt (\<lambda>d. (Inr (), d\<lparr>t_audit := t_audit d @ [e]\<rparr>))"

definition GetRuleSourceETag :: "string \<Rightarrow> string dbm" where
  "GetRuleSourceETag url = stmt (\<lambda>d.
     (Inr (case find (\<lambda>r. src_url r = url) (t_sources d) of
        None \<Rightarrow> [] | Some r \<Rightarrow> (case src_etag r of None \<Rightarrow> [] | Some e \<Rightarrow> e)), d))"

definition UpsertRuleSourceETag :: "string \<Rightarrow> string \<Rightarrow> string \<Rightarrow> unit dbm" where
  "UpsertRuleSourceETag url kind etag = stmt (\<lambda>d. (Inr (), d\<lparr>t_sources :=
     if list_ex (\<lambda>r. src_url r = url) (t_sources d)
     then map (\<lambda>r. if src_url r = url then r\<lparr>src_last_synced := Some (db_now d), src_etag := Some etag\<rparr> else r) (t_sources d)
     else t_sources d @ [\<lparr>src_url = url, src_kind = kind, src_last_synced = Some (db_now d), src_etag = Some etag\<rparr>]\<rparr>))"

definition apply_states :: "string list" where
  "apply_states = [''submitted'', ''confirmed'', ''rolled_back'', ''failed'']"

definition InsertApplyStatus :: "int \<Rightarrow> string \<Rightarrow> int dbm" where
  "InsertApplyStatus snapshotID reason = stmt (\<lambda>d.
     if \<not> list_ex (\<lambda>s. sn_ID s = snapshotID) (t_snapshots d) then (Inl (ErrConstraint ''apply_status.snapshot_id''), d)
     else let i = seq_apply d + 1 in
       (Inr i, d\<lparr>seq_apply := i, t_apply := t_apply d @
          [\<lparr>as_ID = i, as_SnapshotID = snapshotID, as_State = ''submitted'', as_Reason = reason,
            as_CreatedAt = db_now d, as_UpdatedAt = db_now d\<rparr>]\<rparr>))"

definition apply_update :: "int \<Rightarrow> string \<Rightarrow> string \<Rightarrow> nat dbm" where
  "apply_update i state reason = (\<lambda>d.
     let n = length (filter (\<lambda>a. as_ID a = i) (t_apply d)) in
     if n \<noteq> 0 \<and> state \<notin> set apply_states then (Inl (ErrConstraint ''apply_status.state''), d)
     else (Inr n, d\<lparr>t_apply := map (\<lambda>a. if as_ID a = i
             then a\<lparr>as_State := state, as_Reason := reason, as_UpdatedAt := db_now d\<rparr> else a) (t_apply d)\<rparr>))"

definition UpdateApplyStatus :: "int \<Rightarrow> string \<Rightarrow> string \<Rightarrow> unit dbm" where
  "UpdateApplyStatus i state reason = bindD (stmt (apply_update i state reason)) (\<lambda>n.
     if n \<noteq> 1 then throwD (ErrAffected i n) else returnD ())"

text \<open>\<open>ORDER BY updated_at DESC, id DESC LIMIT 1\<close>: the last element of a stable sort of the rows in
  id order.\<close>

definition last_option :: "'a list \<Rightarrow> 'a option" where
  "last_option xs = (if xs = [] then None else Some (last xs))"

definition LatestApplyStatus :: "ApplyStatus option dbm" where
  "LatestApplyStatus = stmt (\<lambda>d.
     (Inr (last_option (sort_key as_UpdatedAt (sort_key as_ID (t_apply d)))), d))"

definition ApplyStatusBySnapshot :: "int \<Rightarrow> ApplyStatus option dbm" where
  "ApplyStatusBySnapshot i = stmt (\<lambda>d.
     (Inr (last_option (filter (\<lambda>a. as_SnapshotID a = i) (sort_key as_ID (t_apply d)))), d))"

section \<open>Statements: lemmas\<close>

lemmas dbm_defs = returnD_def throwD_def bindD_def

definition same_tables :: "DB \<Rightarrow> DB \<Rightarrow> bool" where
  "same_tables d d' = (d'\<lparr>db_faults := []\<rparr> = d\<lparr>db_faults := []\<rparr>)"

lemma same_tables_refl [simp]: "same_tables d d"
  by (simp add: same_tables_def)

lemma same_tables_faults [simp]: "same_tables d (d\<lparr>db_faults := fs\<rparr>)"
  by (simp add: same_tables_def)

lemma same_tablesE:
  assumes "same_tables d d'"
  obtains fs where "d' = d\<lparr>db_faults := fs\<rparr>"
proof -
  have "d' = d\<lparr>db_faults := db_faults d'\<rparr>"
    using assms by (cases d; cases d') (simp add: same_tables_def)
  then show thesis by (rule that)
qed

lemma same_tables_trans: "same_tables a b \<Longrightarrow> same_tables b c \<Longrightarrow> same_tables a c"
  by (simp add: same_tables_def)

lemma stmt_cases:
  obtains (fault) e fs where "stmt f d = (Inl (ErrSQL e), d\<lparr>db_faults := fs\<rparr>)"
  | (run) fs where "stmt f d = f (d\<lparr>db_faults := fs\<rparr>)"
proof (cases "db_faults d")
  case Nil
  have "d = d\<lparr>db_faults := []\<rparr>" using Nil by (cases d) simp
  then have "f d = f (d\<lparr>db_faults := []\<rparr>)" by (rule arg_cong)
  then show thesis using run [of "[]"] Nil by (simp add: stmt_def)
next
  case (Cons x fs)
  then show thesis using fault [of "the x" fs] run [of fs] by (cases x) (simp_all add: stmt_def)
qed

lemma stmt_no_faults: "db_faults d = [] \<Longrightarrow> stmt f d = f d"
  by (simp add: stmt_def)

lemma stmt_Inr: "stmt f d = (Inr a, d') \<Longrightarrow> \<exists>fs. f (d\<lparr>db_faults := fs\<rparr>) = (Inr a, d')"
  by (cases rule: stmt_cases [of f d]) auto

lemma bindD_Inr: "bindD m f d = (Inr b, d') \<Longrightarrow> \<exists>a d1. m d = (Inr a, d1) \<and> f a d1 = (Inr b, d')"
  by (auto simp: bindD_def split: prod.splits sum.splits)

text \<open>A failed transaction leaves every table as it was.\<close>

lemma stmt_return:
  "stmt (returnD ()) d = (r, d') \<Longrightarrow> same_tables d d'"
  by (rule stmt_cases [of "returnD ()" d]) (auto simp: returnD_def)

lemma transaction_error: "transaction body d = (Inl e, d') \<Longrightarrow> same_tables d d'"
  unfolding transaction_def
  by (auto split: prod.splits sum.splits dest!: stmt_return elim!: same_tablesE)

lemma transaction_ok:
  assumes "transaction body d = (Inr a, d')"
  obtains d0 d1 where "same_tables d d0" "body d0 = (Inr a, d1)" "same_tables d1 d'"
  using assms unfolding transaction_def
  by (auto split: prod.splits sum.splits dest!: stmt_return)

text \<open>Invariants that do not read the faults pass through the combinators.\<close>

definition keeps :: "(DB \<Rightarrow> bool) \<Rightarrow> 'a dbm \<Rightarrow> bool" where
  "keeps P m = (\<forall>d. P d \<longrightarrow> P (snd (m d)))"

definition table_pred :: "(DB \<Rightarrow> bool) \<Rightarrow> bool" where
  "table_pred P = (\<forall>d fs. P (d\<lparr>db_faults := fs\<rparr>) = P d)"

lemma same_tables_pred: "table_pred P \<Longrightarrow> same_tables d d' \<Longrightarrow> P d' = P d"
  by (auto simp: table_pred_def elim!: same_tablesE)

lemma keepsD: "keeps P m \<Longrightarrow> P d \<Longrightarrow> m d = (r, d') \<Longrightarrow> P d'"
  unfolding keeps_def by (metis snd_conv)

lemma keeps_simple [simp]: "keeps P (returnD a)" "keeps P (throwD e)"
  by (simp_all add: keeps_def dbm_defs)

lemma keeps_bind: "keeps P m \<Longrightarrow> (\<And>a. keeps P (f a)) \<Longrightarrow> keeps P (bindD m f)"
  unfolding keeps_def bindD_def by (fastforce split: prod.split sum.split)

lemma keeps_stmt: "table_pred P \<Longrightarrow> keeps P f \<Longrightarrow> keeps P (stmt f)"
  unfolding keeps_def
proof (intro allI impI)
  fix d
  assume "table_pred P" "\<forall>d. P d \<longrightarrow> P (snd (f d))" "P d"
  then show "P (snd (stmt f d))"
    by (cases rule: stmt_cases [of f d]) (auto simp: table_pred_def)
qed

lemma keeps_transaction:
  assumes "table_pred P" "keeps P body"
  shows "keeps P (transaction body)"
  unfolding keeps_def
proof (intro allI impI)
  fix d
  assume p: "P d"
  obtain r d' where t: "transaction body d = (r, d')" by (cases "transaction body d")
  show "P (snd (transaction body d))"
  proof (cases r)
    case (Inl e)
    then show ?thesis using t p transaction_error [of body d e d'] same_tables_pred [OF assms(1)] by auto
  next
    case (Inr a)
    with t obtain d0 d1 where "same_tables d d0" "body d0 = (Inr a, d1)" "same_tables d1 d'"
      by (auto elim: transaction_ok)
    then have "P d'" using p same_tables_pred [OF assms(1)] keepsD [OF assms(2)] by metis
    then show ?thesis using t by simp
  qed
qed

lemma keeps_read [simp]: "table_pred P \<Longrightarrow> keeps P (stmt (\<lambda>d. (g d, d)))"
  by (rule keeps_stmt) (simp_all add: keeps_def)

lemma keeps_select1 [simp]: "table_pred P \<Longrightarrow> keeps P (select1 q)"
  unfolding select1_def by (rule keeps_stmt) (auto simp: keeps_def split: option.split)

section \<open>Tables with one active row\<close>

text \<open>The contract the two pointer tables share: a flag, a key the flag does not touch, and the pair of
  statements that moves the flag.\<close>

locale single_active =
  fixes active :: "'r \<Rightarrow> bool" and set_active :: "bool \<Rightarrow> 'r \<Rightarrow> 'r" and key :: "'r \<Rightarrow> 'k"
  assumes active_set [simp]: "active (set_active b r) = b"
    and key_set [simp]: "key (set_active b r) = key r"
begin

lemma keys_demote [simp]: "map key (demote_all active set_active rs) = map key rs"
  by (simp add: demote_all_def)

lemma keys_promote [simp]: "map key (promote key set_active k rs) = map key rs"
  by (simp add: promote_def)

lemma demoted: "r \<in> set (demote_all active set_active rs) \<Longrightarrow> \<not> active r"
  by (auto simp: demote_all_def)

lemma filter_demoted [simp]: "filter active (demote_all active set_active rs) = []"
  by (auto simp: filter_empty_conv dest: demoted)

lemma moved_active: "r \<in> set (promote key set_active k (demote_all active set_active rs)) \<Longrightarrow> active r \<longleftrightarrow> key r = k"
  by (auto simp: promote_def dest: demoted)

lemma count_key: "distinct (map key rs) \<Longrightarrow> length (filter (\<lambda>r. key r = k) rs) = (if k \<in> key ` set rs then 1 else 0)"
  by (induction rs) (auto simp: filter_empty_conv)

lemma moved_one:
  assumes "distinct (map key rs)"
  shows "one_active active (promote key set_active k (demote_all active set_active rs))"
proof -
  let ?m = "promote key set_active k (demote_all active set_active rs)"
  have "filter active ?m = filter (\<lambda>r. key r = k) ?m" by (rule filter_cong) (auto simp: moved_active)
  moreover have "distinct (map key ?m)" using assms by simp
  ultimately show ?thesis using count_key [of ?m k] by (simp add: one_active_def)
qed

lemma find_moved:
  assumes "k \<in> key ` set rs"
  shows "\<exists>r. find active (promote key set_active k (demote_all active set_active rs)) = Some r \<and> key r = k"
proof -
  let ?m = "promote key set_active k (demote_all active set_active rs)"
  have "key ` set ?m = key ` set rs" by (metis keys_demote keys_promote set_map)
  then have "k \<in> key ` set ?m" using assms by simp
  then obtain r where r: "r \<in> set ?m" "key r = k" by (elim imageE) simp
  then have "find active ?m \<noteq> None" using moved_active [of r k rs] by (auto simp: find_None_conv)
  then obtain q where "find active ?m = Some q" by auto
  then show ?thesis using find_Some_in [of active ?m q] moved_active [of q k rs] by auto
qed

end

abbreviation set_rv :: "bool \<Rightarrow> RuleVersion \<Rightarrow> RuleVersion" where
  "set_rv b r \<equiv> r\<lparr>rv_Active := b\<rparr>"

abbreviation set_ex :: "bool \<Rightarrow> ExitRow \<Rightarrow> ExitRow" where
  "set_ex b r \<equiv> r\<lparr>ex_active := b\<rparr>"

interpretation ver: single_active rv_Active "\<lambda>b r. set_rv b r" rv_ID
  by unfold_locales simp_all

interpretation exi: single_active ex_active "\<lambda>b r. set_ex b r" ex_exit_id
  by unfold_locales simp_all

section \<open>Integrity of the tables\<close>

definition ids_ok :: "('r \<Rightarrow> int) \<Rightarrow> int \<Rightarrow> 'r list \<Rightarrow> bool" where
  "ids_ok ident sq rs = (distinct (map ident rs) \<and> list_all (\<lambda>r. ident r \<le> sq) rs)"

definition users_ok :: "DB \<Rightarrow> bool" where
  "users_ok d = (ids_ok pu_ID (seq_users d) (t_users d) \<and> distinct (map pu_Username (t_users d)))"

definition sessions_ok :: "DB \<Rightarrow> bool" where
  "sessions_ok d = (distinct (map ps_ID (t_sessions d)) \<and> distinct (map ps_JWTID (t_sessions d)) \<and>
     ps_UserID ` set (t_sessions d) \<subseteq> pu_ID ` set (t_users d))"

definition snapshots_ok :: "DB \<Rightarrow> bool" where
  "snapshots_ok d = (ids_ok sn_ID (seq_snapshots d) (t_snapshots d) \<and> distinct (map sn_ConfigHash (t_snapshots d)))"

definition versions_ok :: "DB \<Rightarrow> bool" where
  "versions_ok d = (ids_ok rv_ID (seq_versions d) (t_versions d) \<and> one_active rv_Active (t_versions d) \<and>
     rv_SnapshotID ` set (t_versions d) \<subseteq> sn_ID ` set (t_snapshots d))"

definition apply_ok :: "DB \<Rightarrow> bool" where
  "apply_ok d = (ids_ok as_ID (seq_apply d) (t_apply d) \<and> list_all (\<lambda>a. as_State a \<in> set apply_states) (t_apply d) \<and>
     as_SnapshotID ` set (t_apply d) \<subseteq> sn_ID ` set (t_snapshots d))"

definition exits_ok :: "DB \<Rightarrow> bool" where
  "exits_ok d = (ids_ok ex_ID (seq_exits d) (t_exits d) \<and> distinct (map ex_exit_id (t_exits d)) \<and>
     length (filter ex_active (t_exits d)) = 1)"

definition db_wf :: "DB \<Rightarrow> bool" where
  "db_wf d = (users_ok d \<and> sessions_ok d \<and> snapshots_ok d \<and> versions_ok d \<and> apply_ok d \<and> exits_ok d)"

lemmas wf_defs = db_wf_def users_ok_def sessions_ok_def snapshots_ok_def versions_ok_def apply_ok_def exits_ok_def

lemma table_pred_wf [simp]: "table_pred db_wf"
  by (simp add: table_pred_def wf_defs)

lemma ids_ok_snoc: "ids_ok ident sq rs \<Longrightarrow> ident r = sq + 1 \<Longrightarrow> ids_ok ident (sq + 1) (rs @ [r])"
  by (fastforce simp: ids_ok_def list_all_iff)

lemma ids_ok_map: "ids_ok ident sq rs \<Longrightarrow> (\<And>r. ident (g r) = ident r) \<Longrightarrow> ids_ok ident sq (map g rs)"
  by (simp add: ids_ok_def list_all_iff comp_def)

lemma keeps_wfI: "(\<And>d. db_wf d \<Longrightarrow> db_wf (snd (f d))) \<Longrightarrow> keeps db_wf (stmt f)"
  by (intro keeps_stmt) (simp_all add: keeps_def)

lemma ids_ok_cong: "map ident rs' = map ident rs \<Longrightarrow> ids_ok ident sq rs' = ids_ok ident sq rs"
proof -
  assume m: "map ident rs' = map ident rs"
  have "list_all (\<lambda>r. ident r \<le> sq) xs = list_all (\<lambda>i. i \<le> sq) (map ident xs)" for xs
    by (simp add: list.pred_map comp_def)
  then show ?thesis unfolding ids_ok_def by (simp only: m)
qed

lemma image_cong_map: "map f rs' = map f rs \<Longrightarrow> f ` set rs' = f ` set rs"
  by (metis set_map)

lemma users_map:
  assumes "map pu_ID us = map pu_ID (t_users d)" "map pu_Username us = map pu_Username (t_users d)" "db_wf d"
  shows "db_wf (d\<lparr>t_users := us\<rparr>)"
  using assms(3) ids_ok_cong [OF assms(1)] image_cong_map [OF assms(1)] assms(2) by (simp add: wf_defs)

lemma sessions_map:
  assumes "map ps_ID ss = map ps_ID (t_sessions d)" "map ps_JWTID ss = map ps_JWTID (t_sessions d)"
    "map ps_UserID ss = map ps_UserID (t_sessions d)" "db_wf d"
  shows "db_wf (d\<lparr>t_sessions := ss\<rparr>)"
  using assms(4) image_cong_map [OF assms(3)] assms(1,2) by (simp add: wf_defs)

lemma versions_map:
  assumes "map rv_ID vs = map rv_ID (t_versions d)" "map rv_SnapshotID vs = map rv_SnapshotID (t_versions d)"
    "one_active rv_Active vs" "db_wf d"
  shows "db_wf (d\<lparr>t_versions := vs\<rparr>)"
  using assms(3,4) ids_ok_cong [OF assms(1)] image_cong_map [OF assms(2)] by (simp add: wf_defs)

lemma apply_map:
  assumes "map as_ID xs = map as_ID (t_apply d)" "map as_SnapshotID xs = map as_SnapshotID (t_apply d)"
    "list_all (\<lambda>a. as_State a \<in> set apply_states) xs" "db_wf d"
  shows "db_wf (d\<lparr>t_apply := xs\<rparr>)"
  using assms(3,4) ids_ok_cong [OF assms(1)] image_cong_map [OF assms(2)] by (simp add: wf_defs)

lemma list_ex_key: "list_ex (\<lambda>r. f r = k) rs \<longleftrightarrow> k \<in> f ` set rs"
  by (auto simp: list_ex_iff)

lemma keeps_InsertPanelUser: "keeps db_wf (InsertPanelUser u h)"
  unfolding InsertPanelUser_def
  by (rule keeps_wfI) (auto simp: wf_defs Let_def list_ex_iff intro!: ids_ok_snoc)

lemma keeps_InsertFirstPanelUser: "keeps db_wf (InsertFirstPanelUser u h)"
  unfolding InsertFirstPanelUser_def
  by (rule keeps_wfI) (auto simp: wf_defs Let_def ids_ok_def)

lemma keeps_TouchLastLogin: "keeps db_wf (TouchLastLogin i)"
  unfolding TouchLastLogin_def by (rule keeps_wfI) (auto intro!: users_map)

lemma keeps_UpdatePanelUserPassword: "keeps db_wf (UpdatePanelUserPassword i h)"
  unfolding UpdatePanelUserPassword_def by (rule keeps_wfI) (auto intro!: users_map)

lemma keeps_InsertPanelSession: "keeps db_wf (InsertPanelSession s)"
  unfolding InsertPanelSession_def by (rule keeps_wfI) (auto simp: wf_defs list_ex_key)

lemma keeps_RevokeSession: "keeps db_wf (RevokeSession s)"
  unfolding RevokeSession_def by (rule keeps_wfI) (auto intro!: sessions_map)

lemma keeps_RevokeSessionsExcept: "keeps db_wf (RevokeSessionsExcept u k)"
  unfolding RevokeSessionsExcept_def by (rule keeps_wfI) (auto intro!: sessions_map)

lemma keeps_InsertSnapshot: "keeps db_wf (InsertSnapshot s)"
  unfolding InsertSnapshot_def
proof (rule keeps_bind)
  show "keeps db_wf (stmt (snapshot_insert s))"
    by (rule keeps_wfI) (auto simp: snapshot_insert_def wf_defs Let_def list_ex_iff intro!: ids_ok_snoc)
qed (simp split: option.split)

lemma keeps_demote: "keeps db_wf (stmt demote_versions)"
  unfolding demote_versions_def
  by (rule keeps_wfI) (auto intro!: versions_map simp: one_active_def demote_all_def)

lemma keeps_InsertRuleVersion: "keeps db_wf (InsertRuleVersion s y b)"
proof -
  have "keeps db_wf (stmt (version_insert s y b))"
    by (rule keeps_wfI)
      (auto simp: version_insert_def wf_defs Let_def list_ex_iff one_active_def filter_empty_conv intro!: ids_ok_snoc)
  then show ?thesis unfolding InsertRuleVersion_def
    by (intro keeps_transaction keeps_bind) (simp_all add: keeps_demote)
qed

lemma keeps_SetActiveRuleVersion: "keeps db_wf (SetActiveRuleVersion i)"
proof -
  have "keeps db_wf (stmt (promote_version i))"
    by (rule keeps_wfI) (auto simp: promote_version_def Let_def promote_def intro!: versions_map)
  then show ?thesis unfolding SetActiveRuleVersion_def
    by (intro keeps_transaction keeps_bind) (simp_all add: keeps_demote)
qed

lemma keeps_AppendAudit: "keeps db_wf (AppendAudit e)"
  unfolding AppendAudit_def by (rule keeps_wfI) (simp add: wf_defs)

lemma keeps_UpsertRuleSourceETag: "keeps db_wf (UpsertRuleSourceETag u k e)"
  unfolding UpsertRuleSourceETag_def by (rule keeps_wfI) (simp add: wf_defs)

lemma keeps_InsertApplyStatus: "keeps db_wf (InsertApplyStatus s r)"
  unfolding InsertApplyStatus_def
  by (rule keeps_wfI) (auto simp: wf_defs Let_def list_ex_iff apply_states_def intro!: ids_ok_snoc)

lemma keeps_UpdateApplyStatus: "keeps db_wf (UpdateApplyStatus i st r)"
  unfolding UpdateApplyStatus_def
proof (rule keeps_bind)
  show "keeps db_wf (stmt (apply_update i st r))"
  proof (rule keeps_wfI)
    fix d
    assume d: "db_wf d"
    then have "as_State a \<in> set apply_states" if "a \<in> set (t_apply d)" for a
      using that by (auto simp: wf_defs list_all_iff)
    then show "db_wf (snd (apply_update i st r d))" using d
      by (auto simp: apply_update_def Let_def filter_empty_conv list_all_iff intro!: apply_map)
  qed
qed simp

section \<open>Properties\<close>

lemma SetActive_ok:
  assumes "db_wf d" "SetActiveRuleVersion i d = (Inr (), d')"
  shows "i \<in> rv_ID ` set (t_versions d)"
    "same_tables (d\<lparr>t_versions := promote rv_ID (\<lambda>b r. set_rv b r) i (demote_all rv_Active (\<lambda>b r. set_rv b r) (t_versions d))\<rparr>) d'"
proof -
  let ?vs = "promote rv_ID (\<lambda>b r. set_rv b r) i (demote_all rv_Active (\<lambda>b r. set_rv b r) (t_versions d))"
  obtain d0 d1 where d0: "same_tables d d0" "same_tables d1 d'"
    and body: "bindD (stmt demote_versions) (\<lambda>_. bindD (stmt (promote_version i)) (\<lambda>n.
       if n \<noteq> 1 then throwD ErrNoRows else returnD ())) d0 = (Inr (), d1)"
    using transaction_ok [OF assms(2) [unfolded SetActiveRuleVersion_def]] by blast
  obtain fs where fs: "d0 = d\<lparr>db_faults := fs\<rparr>" using d0(1) by (elim same_tablesE)
  from body obtain d2 n where 2: "stmt demote_versions d0 = (Inr (), d2)" "stmt (promote_version i) d2 = (Inr n, d1)" "n = 1"
    by (auto dest!: bindD_Inr simp: throwD_def returnD_def split: if_splits)
  from stmt_Inr [OF 2(1)] obtain fs1 where "d2 = d\<lparr>db_faults := fs1, t_versions := demote_all rv_Active (\<lambda>b r. set_rv b r) (t_versions d)\<rparr>"
    by (auto simp: demote_versions_def fs)
  with stmt_Inr [OF 2(2)] obtain fs2 where p: "n = length (filter (\<lambda>r. rv_ID r = i) ?vs)" "d1 = d\<lparr>db_faults := fs2, t_versions := ?vs\<rparr>"
    by (auto simp: promote_version_def Let_def split: if_splits)
  then have "filter (\<lambda>r. rv_ID r = i) ?vs \<noteq> []" using 2(3) by auto
  then have "i \<in> rv_ID ` set ?vs" by (auto simp: filter_empty_conv)
  have "same_tables (d\<lparr>t_versions := ?vs\<rparr>) d1" using p(2) by (simp add: same_tables_def)
  then show "same_tables (d\<lparr>t_versions := ?vs\<rparr>) d'" using d0(2) same_tables_trans by blast
  have "rv_ID ` set ?vs = rv_ID ` set (t_versions d)" by (rule image_cong_map) (simp add: promote_def demote_all_def)
  then show "i \<in> rv_ID ` set (t_versions d)" using \<open>i \<in> rv_ID ` set ?vs\<close> by simp
qed

lemma SetActive_succeeds:
  assumes "db_wf d" "db_faults d = []" "i \<in> rv_ID ` set (t_versions d)"
  shows "\<exists>d'. SetActiveRuleVersion i d = (Inr (), d')"
proof -
  let ?vs = "promote rv_ID (\<lambda>b r. set_rv b r) i (demote_all rv_Active (\<lambda>b r. set_rv b r) (t_versions d))"
  have dist: "distinct (map rv_ID (t_versions d))" using assms(1) by (simp add: wf_defs ids_ok_def)
  have "map rv_ID ?vs = map rv_ID (t_versions d)" by (simp add: promote_def demote_all_def)
  then have "length (filter (\<lambda>r. rv_ID r = i) ?vs) = 1"
    using ver.count_key [of ?vs i] dist assms(3) image_cong_map [of rv_ID ?vs] by simp
  moreover have "one_active rv_Active ?vs" using ver.moved_one [OF dist] .
  ultimately show ?thesis using assms(2)
    by (simp add: SetActiveRuleVersion_def transaction_def stmt_no_faults bindD_def returnD_def demote_versions_def promote_version_def Let_def)
qed

text \<open>Moving the active rule version is atomic: when \<open>SetActiveRuleVersion\<close> reports an error no
  table has changed, whichever statement failed; when it reports success the given version exists, it
  is the only active one and nothing but the flags has changed; and with no engine failure it succeeds
  exactly for existing versions.\<close>

theorem set_active_atomic:
  assumes "db_wf d" "SetActiveRuleVersion i d = (r, d')"
  shows "(case r of
      Inl e \<Rightarrow> same_tables d d' \<and> (db_faults d = [] \<longrightarrow> i \<notin> rv_ID ` set (t_versions d))
    | Inr _ \<Rightarrow> i \<in> rv_ID ` set (t_versions d) \<and>
        (\<forall>v\<in>set (t_versions d'). rv_Active v \<longleftrightarrow> rv_ID v = i) \<and>
        map (set_rv False) (t_versions d') = map (set_rv False) (t_versions d) \<and>
        same_tables (d\<lparr>t_versions := t_versions d'\<rparr>) d')"
proof (cases r)
  case (Inl e)
  have "same_tables d d'"
    using assms(2) Inl transaction_error unfolding SetActiveRuleVersion_def by blast
  moreover have "i \<notin> rv_ID ` set (t_versions d)" if "db_faults d = []"
    using SetActive_succeeds [OF assms(1) that, of i] assms(2) Inl by auto
  ultimately show ?thesis using Inl by simp
next
  case (Inr u)
  then have s: "SetActiveRuleVersion i d = (Inr (), d')" using assms(2) by simp
  let ?vs = "promote rv_ID (\<lambda>b r. set_rv b r) i (demote_all rv_Active (\<lambda>b r. set_rv b r) (t_versions d))"
  obtain fs where fs: "d' = d\<lparr>t_versions := ?vs, db_faults := fs\<rparr>"
    using SetActive_ok(2) [OF assms(1) s] by (auto elim: same_tablesE)
  have "map (set_rv False) ?vs = map (set_rv False) (t_versions d)"
    by (simp add: promote_def demote_all_def comp_def cong: if_cong)
  then show ?thesis using Inr fs SetActive_ok(1) [OF assms(1) s] ver.moved_active [of _ i "t_versions d"]
    by (simp add: same_tables_def)
qed

definition emptyDB :: DB where
  "emptyDB = \<lparr>t_users = [], t_sessions = [], t_snapshots = [], t_versions = [], t_audit = [], t_sources = [],
     t_apply = [], t_exits = [\<lparr>ex_ID = 1, ex_exit_id = ''direct'', ex_name = ''direct'', ex_protocol = ''direct'',
       ex_uri = ''direct://'', ex_active = True, ex_created_at = 0\<rparr>], t_settings = [], t_rulesets = [],
     seq_users = 0, seq_snapshots = 0, seq_versions = 0, seq_apply = 0, seq_exits = 1, db_now = 0, db_faults = []\<rparr>"

lemma emptyDB_wf: "db_wf emptyDB"
  by (simp add: emptyDB_def wf_defs ids_ok_def one_active_def)

definition sampleDB :: DB where
  "sampleDB = emptyDB\<lparr>
     t_snapshots := [\<lparr>sn_ID = 1, sn_CreatedAt = 5, sn_ConfigHash = ''h1'', sn_TarballPath = [], sn_Note = []\<rparr>],
     t_versions := [\<lparr>rv_ID = 1, rv_SnapshotID = 1, rv_RulesYAML = ''a'', rv_CreatedAt = 5, rv_Active = True\<rparr>,
       \<lparr>rv_ID = 2, rv_SnapshotID = 1, rv_RulesYAML = ''b'', rv_CreatedAt = 6, rv_Active = False\<rparr>],
     seq_snapshots := 1, seq_versions := 2\<rparr>"

lemma sampleDB_wf: "db_wf sampleDB"
  by (simp add: sampleDB_def emptyDB_def wf_defs ids_ok_def one_active_def)

theorem set_active_atomic_witness:
  "\<exists>d'. SetActiveRuleVersion 7 sampleDB = (Inl ErrNoRows, d') \<and> same_tables sampleDB d'"
proof -
  obtain d' where s: "SetActiveRuleVersion 7 sampleDB = (Inl ErrNoRows, d')"
    by (simp add: SetActiveRuleVersion_def transaction_def stmt_def dbm_defs demote_versions_def promote_version_def
        demote_all_def promote_def one_active_def sampleDB_def emptyDB_def Let_def)
  then show ?thesis using set_active_atomic [OF sampleDB_wf s] by auto
qed

text \<open>Snapshots are stored once: the id \<open>InsertSnapshot\<close> returns is that of a stored row with the
  given content hash, older rows are kept, and inserting the same hash again returns the same id and
  changes nothing.\<close>

theorem insert_snapshot_idempotent:
  assumes "InsertSnapshot s d = (Inr i, d')"
  shows "(\<exists>row\<in>set (t_snapshots d'). sn_ID row = i \<and> sn_ConfigHash row = sn_ConfigHash s) \<and>
    prefix (t_snapshots d) (t_snapshots d') \<and>
    (sn_ConfigHash s' = sn_ConfigHash s \<longrightarrow> db_wf d' \<longrightarrow> InsertSnapshot s' (d'\<lparr>db_faults := []\<rparr>) = (Inr i, d'\<lparr>db_faults := []\<rparr>))"
proof -
  obtain x d1 where 1: "stmt (snapshot_insert s) d = (Inr x, d1)"
    and 2: "(case x of Some i \<Rightarrow> returnD i | None \<Rightarrow> select1 (\<lambda>d. map_option sn_ID
        (find (\<lambda>x. sn_ConfigHash x = sn_ConfigHash s) (t_snapshots d)))) d1 = (Inr i, d')"
    using bindD_Inr [OF assms [unfolded InsertSnapshot_def]] by blast
  obtain fs where si: "snapshot_insert s (d\<lparr>db_faults := fs\<rparr>) = (Inr x, d1)" using stmt_Inr [OF 1] by blast
  have row: "\<exists>row\<in>set (t_snapshots d'). sn_ID row = i \<and> sn_ConfigHash row = sn_ConfigHash s"
    and pre: "prefix (t_snapshots d) (t_snapshots d')"
  proof -
    have "\<exists>row. row \<in> set (t_snapshots d') \<and> sn_ID row = i \<and> sn_ConfigHash row = sn_ConfigHash s \<and> prefix (t_snapshots d) (t_snapshots d')"
    proof (cases x)
      case None
      then have d1: "d1 = d\<lparr>db_faults := fs\<rparr>" using si by (auto simp: snapshot_insert_def Let_def split: if_splits)
      obtain fs' q where q: "find (\<lambda>x. sn_ConfigHash x = sn_ConfigHash s) (t_snapshots d1) = Some q" "i = sn_ID q" "d' = d1\<lparr>db_faults := fs'\<rparr>"
      proof -
        let ?q = "\<lambda>d. map_option sn_ID (find (\<lambda>x. sn_ConfigHash x = sn_ConfigHash s) (t_snapshots d))"
        have "stmt (\<lambda>d. case ?q d of None \<Rightarrow> (Inl ErrNoRows, d) | Some r \<Rightarrow> (Inr r, d)) d1 = (Inr i, d')"
          using 2 None by (simp add: select1_def)
        from stmt_Inr [OF this] show thesis using that by (auto split: option.splits)
      qed
      have "t_snapshots d' = t_snapshots d" "t_snapshots d1 = t_snapshots d" by (simp_all add: q(3) d1)
      then show ?thesis using find_Some_in [OF q(1)] q(2) by (intro exI [of _ q]) simp
    next
      case (Some k)
      then show ?thesis using si 2 by (auto simp: snapshot_insert_def returnD_def Let_def split: if_splits)
    qed
    then show "\<exists>row\<in>set (t_snapshots d'). sn_ID row = i \<and> sn_ConfigHash row = sn_ConfigHash s"
      "prefix (t_snapshots d) (t_snapshots d')" by blast+
  qed
  have "InsertSnapshot s' (d'\<lparr>db_faults := []\<rparr>) = (Inr i, d'\<lparr>db_faults := []\<rparr>)"
    if h: "sn_ConfigHash s' = sn_ConfigHash s" and w: "db_wf d'"
  proof -
    obtain row where r: "row \<in> set (t_snapshots d')" "sn_ID row = i" "sn_ConfigHash row = sn_ConfigHash s" using row by blast
    then obtain q where q: "find (\<lambda>x. sn_ConfigHash x = sn_ConfigHash s) (t_snapshots d') = Some q"
      by (cases "find (\<lambda>x. sn_ConfigHash x = sn_ConfigHash s) (t_snapshots d')") (auto simp: find_None_conv)
    have "inj_on sn_ConfigHash (set (t_snapshots d'))" using w by (simp add: wf_defs distinct_map)
    then have "q = row" using find_Some_in [OF q] r(1,3) by (metis inj_onD)
    then show ?thesis using q r h
      by (auto simp: InsertSnapshot_def snapshot_insert_def select1_def bindD_def stmt_no_faults list_ex_iff)
  qed
  then show ?thesis using row pre by blast
qed

theorem insert_snapshot_idempotent_witness:
  "\<exists>row d'. InsertSnapshot \<lparr>sn_ID = 0, sn_CreatedAt = 0, sn_ConfigHash = ''h1'', sn_TarballPath = [], sn_Note = ''again''\<rparr> sampleDB = (Inr 1, d')
     \<and> row \<in> set (t_snapshots d') \<and> sn_ID row = 1 \<and> sn_ConfigHash row = ''h1''"
proof -
  let ?s = "\<lparr>sn_ID = 0, sn_CreatedAt = 0, sn_ConfigHash = ''h1'', sn_TarballPath = [], sn_Note = ''again''\<rparr>"
  obtain d' where s: "InsertSnapshot ?s sampleDB = (Inr 1, d')"
    by (simp add: InsertSnapshot_def snapshot_insert_def select1_def bindD_def stmt_def sampleDB_def emptyDB_def)
  then show ?thesis using insert_snapshot_idempotent [OF s, of ?s] by auto
qed

text \<open>Bootstrap happens once: of two calls of \<open>InsertFirstPanelUser\<close>, whatever happens between them
  that does not delete users, at most one reports that it created the user, and a call that reports so
  found the table empty.\<close>

theorem bootstrap_once:
  assumes "InsertFirstPanelUser u h d = (Inr (i, True), d1)" "set (t_users d1) \<subseteq> set (t_users d2)"
    "InsertFirstPanelUser u' h' d2 = (Inr (j, c), d3)"
  shows "t_users d = [] \<and> \<not> c \<and> t_users d3 = t_users d2"
  using assms by (auto simp: InsertFirstPanelUser_def Let_def split: if_splits dest!: stmt_Inr)

theorem bootstrap_once_witness:
  "\<exists>d1 d3 c. InsertFirstPanelUser ''admin'' ''x'' emptyDB = (Inr (1, True), d1) \<and>
     InsertFirstPanelUser ''eve'' ''y'' d1 = (Inr (0, c), d3) \<and> \<not> c \<and> t_users d3 = t_users d1"
proof -
  obtain d1 where 1: "InsertFirstPanelUser ''admin'' ''x'' emptyDB = (Inr (1, True), d1)" "t_users d1 \<noteq> []" "db_faults d1 = []"
    by (simp add: InsertFirstPanelUser_def stmt_def emptyDB_def Let_def)
  then have "InsertFirstPanelUser ''eve'' ''y'' d1 = (Inr (0, False), d1)"
    by (simp add: InsertFirstPanelUser_def stmt_def)
  then show ?thesis using bootstrap_once [OF 1(1) order_refl] 1(1) by blast
qed

text \<open>A password change signs every other browser out: after \<open>RevokeSessionsExcept\<close> succeeds, a
  session of that user is reported active only if it carries the kept token, and the sessions of other
  users are as they were.\<close>

theorem revoke_keeps_only_caller:
  assumes "RevokeSessionsExcept userID keep d = (Inr (), d')" "IsSessionActive sid d' = (Inr True, d'')"
  shows "\<exists>s\<in>set (t_sessions d'). ps_ID s = sid \<and> (ps_UserID s = userID \<longrightarrow> ps_JWTID s = keep) \<and>
    s \<in> set (t_sessions d) \<and> db_now d' \<le> ps_ExpiresAt s"
proof -
  let ?f = "\<lambda>s. if ps_UserID s = userID \<and> ps_RevokedAt s = None \<and> ps_JWTID s \<noteq> keep
       then s\<lparr>ps_RevokedAt := Some (db_now d)\<rparr> else s"
  have d': "t_sessions d' = map ?f (t_sessions d)"
    using assms(1) by (auto simp: RevokeSessionsExcept_def cong: if_cong dest!: stmt_Inr)
  obtain s where s: "find (\<lambda>s. ps_ID s = sid) (t_sessions d') = Some s" "ps_RevokedAt s = None" "db_now d' \<le> ps_ExpiresAt s"
    using assms(2) by (auto simp: IsSessionActive_def dest!: stmt_Inr split: option.splits if_splits)
  then have "s \<in> set (t_sessions d')" "ps_ID s = sid" using find_Some_in [OF s(1)] by auto
  moreover from this(1) obtain s0 where "s0 \<in> set (t_sessions d)" "s = ?f s0" unfolding d' by auto
  then have "s \<in> set (t_sessions d)" "ps_UserID s = userID \<longrightarrow> ps_JWTID s = keep"
    using s(2) by (auto split: if_splits)
  ultimately show ?thesis using s(3) by blast
qed

theorem revoke_keeps_only_caller_witness:
  "\<exists>s. s \<in> set (t_sessions (snd (RevokeSessionsExcept 1 ''j'' (emptyDB\<lparr>t_sessions := [\<lparr>ps_ID = ''s'', ps_UserID = 1, ps_JWTID = ''j'',
     ps_IssuedAt = 0, ps_ExpiresAt = 9, ps_RevokedAt = None, ps_IP = [], ps_UserAgent = []\<rparr>]\<rparr>)))) \<and> ps_ID s = ''s'' \<and> ps_JWTID s = ''j''"
proof -
  let ?d = "emptyDB\<lparr>t_sessions := [\<lparr>ps_ID = ''s'', ps_UserID = 1, ps_JWTID = ''j'',
     ps_IssuedAt = 0, ps_ExpiresAt = 9, ps_RevokedAt = None, ps_IP = [], ps_UserAgent = []\<rparr>]\<rparr>"
  have r: "RevokeSessionsExcept 1 ''j'' ?d = (Inr (), ?d)"
    by (simp add: RevokeSessionsExcept_def stmt_def emptyDB_def)
  have a: "IsSessionActive ''s'' ?d = (Inr True, ?d)"
    by (simp add: IsSessionActive_def stmt_def emptyDB_def)
  show ?thesis using revoke_keeps_only_caller [OF r a] r by (auto simp: emptyDB_def)
qed

end
