(* ===== verification/Exits.thy ===== *)
theory Exits
  imports Db
begin

text \<open>
  The exit registry, \<open>internal/exit/store.go\<close>, over the exits table of \<open>Db\<close>: exactly one exit is
  active, switching moves the flag in one transaction, and the active exit cannot be deleted.  The
  proxy URI parser \<open>Parse\<close> (\<open>internal/exit/exit.go\<close>) is an argument of the operations, so what is
  proved holds for every parser.

  The last section collects all operations that write the database into one step relation and shows
  that every reachable database is well-formed.
\<close>

section \<open>Model\<close>

text \<open>Values of Go's \<open>any\<close> that the configuration maps carry; a map is an association list.\<close>

datatype AnyVal =
    AnyStr string | AnyInt int | AnyBool bool | AnyNil
  | AnyMap "(string \<times> AnyVal) list" | AnySlice "AnyVal list"
  | AnyStrs "string list" | AnyInts "int list" | AnyInt64s "int list"

type_synonym proxy_map = "(string \<times> AnyVal) list"

datatype exit_error = ErrInvalidExitID string | ErrExitNotFound string | ErrExitActive | ErrNoActive
  | ErrParseURI string | ErrExitDB db_error

record Exit =
  e_ExitID :: string
  e_Name :: string
  e_Protocol :: string
  e_URI :: string
  e_Active :: bool
  e_ProxyConfig :: "proxy_map option"

record ExitRecord =
  er_ID :: string
  er_Protocol :: string
  er_Config :: "proxy_map option"

type_synonym uri_parser = "string \<Rightarrow> (string, proxy_map) result"

type_synonym 'a exm = "DB \<Rightarrow> (exit_error, 'a) result \<times> DB"

definition directProtocol :: string where "directProtocol = ''direct''"
definition directURI :: string where "directURI = ''direct://''"

text \<open>The regular expression \<open>^[a-zA-Z0-9_-]+$\<close>.\<close>

definition exit_id_char :: "char \<Rightarrow> bool" where
  "exit_id_char c = (let n = (of_char c :: nat) in
     (97 \<le> n \<and> n \<le> 122) \<or> (65 \<le> n \<and> n \<le> 90) \<or> (48 \<le> n \<and> n \<le> 57) \<or> c = CHR ''_'' \<or> c = CHR ''-'')"

definition exitIDRE :: "string \<Rightarrow> bool" where
  "exitIDRE s = (s \<noteq> [] \<and> list_all exit_id_char s)"

definition parseURIOrNil :: "uri_parser \<Rightarrow> string \<Rightarrow> string \<Rightarrow> proxy_map option" where
  "parseURIOrNil parse protocol uri =
     (if protocol = directProtocol \<or> uri = directURI then None
      else case parse uri of Inl _ \<Rightarrow> None | Inr m \<Rightarrow> Some m)"

definition exit_of_row :: "uri_parser \<Rightarrow> ExitRow \<Rightarrow> Exit" where
  "exit_of_row parse r = \<lparr>e_ExitID = ex_exit_id r, e_Name = ex_name r, e_Protocol = ex_protocol r, e_URI = ex_uri r,
     e_Active = ex_active r, e_ProxyConfig = parseURIOrNil parse (ex_protocol r) (ex_uri r)\<rparr>"

text \<open>\<open>ORDER BY active DESC, created_at ASC, id ASC\<close> as successive stable sorts.\<close>

definition exits_ordered :: "ExitRow list \<Rightarrow> ExitRow list" where
  "exits_ordered rs = sort_key (\<lambda>r. \<not> ex_active r) (sort_key ex_created_at (sort_key ex_ID rs))"

definition liftE :: "(db_error \<Rightarrow> exit_error) \<Rightarrow> 'a dbm \<Rightarrow> 'a exm" where
  "liftE h m = (\<lambda>d. case m d of (Inl e, d') \<Rightarrow> (Inl (h e), d') | (Inr a, d') \<Rightarrow> (Inr a, d'))"

definition Store_List :: "uri_parser \<Rightarrow> Exit list exm" where
  "Store_List parse = liftE ErrExitDB (stmt (\<lambda>d. (Inr (map (exit_of_row parse) (exits_ordered (t_exits d))), d)))"

definition exit_insert :: "string \<Rightarrow> string \<Rightarrow> string \<Rightarrow> unit dbm" where
  "exit_insert exitID protocol uri = (\<lambda>d.
     if list_ex (\<lambda>r. ex_exit_id r = exitID) (t_exits d) then (Inl (ErrConstraint ''exits.exit_id''), d)
     else let i = seq_exits d + 1 in
       (Inr (), d\<lparr>seq_exits := i, t_exits := t_exits d @
          [\<lparr>ex_ID = i, ex_exit_id = exitID, ex_name = exitID, ex_protocol = protocol, ex_uri = uri,
            ex_active = False, ex_created_at = db_now d\<rparr>]\<rparr>))"

definition add_protocol :: "uri_parser \<Rightarrow> string \<Rightarrow> string \<Rightarrow> (string, string \<times> proxy_map option) result" where
  "add_protocol parse exitID uri =
     (if exitID = directProtocol \<or> uri = directURI then Inr (directProtocol, None)
      else case parse uri of
          Inl e \<Rightarrow> Inl e
        | Inr proxy \<Rightarrow> Inr ((case map_of proxy ''type'' of Some (AnyStr t) \<Rightarrow> if t \<noteq> [] then t else ''unknown''
                                                    | _ \<Rightarrow> ''unknown''), Some proxy))"

definition Store_Add :: "uri_parser \<Rightarrow> string \<Rightarrow> string \<Rightarrow> Exit exm" where
  "Store_Add parse exitID uri = (\<lambda>d.
     if \<not> exitIDRE exitID then (Inl (ErrInvalidExitID exitID), d)
     else case add_protocol parse exitID uri of
         Inl e \<Rightarrow> (Inl (ErrParseURI e), d)
       | Inr (protocol, cfg) \<Rightarrow>
           liftE ErrExitDB (bindD (stmt (exit_insert exitID protocol uri)) (\<lambda>_.
             returnD \<lparr>e_ExitID = exitID, e_Name = exitID, e_Protocol = protocol, e_URI = uri,
               e_Active = False, e_ProxyConfig = cfg\<rparr>)) d)"

definition exit_delete :: "string \<Rightarrow> nat dbm" where
  "exit_delete exitID = (\<lambda>d. (Inr (length (filter (\<lambda>r. ex_exit_id r = exitID) (t_exits d))),
     d\<lparr>t_exits := filter (\<lambda>r. ex_exit_id r \<noteq> exitID) (t_exits d)\<rparr>))"

definition not_found :: "string \<Rightarrow> db_error \<Rightarrow> exit_error" where
  "not_found exitID e = (if e = ErrNoRows then ErrExitNotFound exitID else ErrExitDB e)"

definition Store_Delete :: "string \<Rightarrow> unit exm" where
  "Store_Delete exitID = (\<lambda>d.
     case select1 (\<lambda>d. map_option ex_active (find (\<lambda>r. ex_exit_id r = exitID) (t_exits d))) d of
       (Inl e, d1) \<Rightarrow> (Inl (not_found exitID e), d1)
     | (Inr active, d1) \<Rightarrow>
         if active then (Inl ErrExitActive, d1)
         else (case stmt (exit_delete exitID) d1 of
             (Inl e, d2) \<Rightarrow> (Inl (ErrExitDB e), d2)
           | (Inr n, d2) \<Rightarrow> if n = 0 then (Inl (ErrExitNotFound exitID), d2) else (Inr (), d2)))"

definition demote_exits :: "unit dbm" where
  "demote_exits = (\<lambda>d. (Inr (), d\<lparr>t_exits := demote_all ex_active (\<lambda>b r. set_ex b r) (t_exits d)\<rparr>))"

definition promote_exit :: "string \<Rightarrow> unit dbm" where
  "promote_exit exitID = (\<lambda>d.
     let rs = promote ex_exit_id (\<lambda>b r. set_ex b r) exitID (t_exits d) in
     if one_active ex_active rs then (Inr (), d\<lparr>t_exits := rs\<rparr>)
     else (Inl (ErrConstraint ''exits.active''), d))"

definition Store_Switch :: "string \<Rightarrow> unit exm" where
  "Store_Switch exitID = liftE (not_found exitID) (transaction (
     bindD (stmt (\<lambda>d. (Inr (length (filter (\<lambda>r. ex_exit_id r = exitID) (t_exits d))), d))) (\<lambda>exists.
       if exists = 0 then throwD ErrNoRows
       else bindD (stmt demote_exits) (\<lambda>_. stmt (promote_exit exitID)))))"

definition Store_Active :: "uri_parser \<Rightarrow> Exit exm" where
  "Store_Active parse = liftE (\<lambda>e. if e = ErrNoRows then ErrNoActive else ErrExitDB e)
     (bindD (select1 (\<lambda>d. find ex_active (t_exits d))) (\<lambda>r. returnD (exit_of_row parse r)))"

definition Store_Records :: "uri_parser \<Rightarrow> ExitRecord list exm" where
  "Store_Records parse = (\<lambda>d. case Store_List parse d of
      (Inl e, d') \<Rightarrow> (Inl e, d')
    | (Inr items, d') \<Rightarrow> (Inr (map (\<lambda>e. \<lparr>er_ID = e_ExitID e, er_Protocol = e_Protocol e, er_Config = e_ProxyConfig e\<rparr>) items), d'))"

section \<open>Lemmas\<close>

lemma liftE_Inr [simp]: "liftE h m d = (Inr a, d') \<longleftrightarrow> m d = (Inr a, d')"
  by (auto simp: liftE_def split: prod.splits sum.splits)

lemma snd_liftE [simp]: "snd (liftE h m d) = snd (m d)"
  by (simp add: liftE_def split: prod.splits sum.splits)

lemma liftE_Inl: "liftE h m d = (Inl e, d') \<Longrightarrow> \<exists>e'. m d = (Inl e', d') \<and> e = h e'"
  by (auto simp: liftE_def split: prod.splits sum.splits)

lemma exits_wf_update:
  assumes "db_wf d" "ids_ok ex_ID sq rs" "distinct (map ex_exit_id rs)" "length (filter ex_active rs) = 1"
  shows "db_wf (d\<lparr>seq_exits := sq, t_exits := rs\<rparr>)"
  using assms by (simp add: wf_defs)

lemma wf_Store_Add: "db_wf d \<Longrightarrow> db_wf (snd (Store_Add parse exitID uri d))"
proof -
  assume w: "db_wf d"
  have "keeps db_wf (stmt (exit_insert exitID p uri))" for p
    by (rule keeps_wfI) (auto simp: exit_insert_def wf_defs Let_def list_ex_iff intro!: ids_ok_snoc)
  then have "keeps db_wf (bindD (stmt (exit_insert exitID p uri)) (\<lambda>_. returnD x))" for p and x :: Exit
    by (intro keeps_bind) auto
  then show ?thesis using w by (auto simp: Store_Add_def keeps_def split: sum.split)
qed

lemma filter_exit_key:
  "distinct (map ex_exit_id rs) \<Longrightarrow> find (\<lambda>r. ex_exit_id r = k) rs = Some r \<Longrightarrow> \<not> ex_active r \<Longrightarrow>
     filter ex_active (filter (\<lambda>r. ex_exit_id r \<noteq> k) rs) = filter ex_active rs"
proof (induction rs)
  case (Cons x rs)
  show ?case
  proof (cases "ex_exit_id x = k")
    case True
    have "k \<notin> ex_exit_id ` set rs" using Cons.prems(1) True by auto
    then have "filter (\<lambda>r. ex_exit_id r \<noteq> k) rs = rs" unfolding filter_id_conv by (metis image_eqI)
    then show ?thesis using True Cons.prems by simp
  qed (use Cons in auto)
qed simp

lemma select1_cases:
  obtains (fault) e fs where "select1 q d = (Inl (ErrSQL e), d\<lparr>db_faults := fs\<rparr>)"
  | (none) fs where "select1 q d = (Inl ErrNoRows, d\<lparr>db_faults := fs\<rparr>)" "q (d\<lparr>db_faults := fs\<rparr>) = None"
  | (some) r fs where "select1 q d = (Inr r, d\<lparr>db_faults := fs\<rparr>)" "q (d\<lparr>db_faults := fs\<rparr>) = Some r"
proof -
  let ?f = "\<lambda>d. case q d of None \<Rightarrow> (Inl ErrNoRows, d) | Some r \<Rightarrow> (Inr r, d)"
  have s: "select1 q d = stmt ?f d" by (simp add: select1_def)
  show thesis
  proof (cases rule: stmt_cases [of ?f d])
    case (fault e fs)
    with s show thesis by (intro that(1)) simp
  next
    case (run fs)
    with s show thesis by (cases "q (d\<lparr>db_faults := fs\<rparr>)") (auto intro: that(2,3))
  qed
qed

lemma wf_Store_Delete: "db_wf d \<Longrightarrow> db_wf (snd (Store_Delete k d))"
proof -
  assume w: "db_wf d"
  let ?q = "\<lambda>d. map_option ex_active (find (\<lambda>r. ex_exit_id r = k) (t_exits d))"
  have tp: "db_wf (d\<lparr>db_faults := fs\<rparr>)" for fs using w by (simp add: wf_defs)
  show ?thesis
  proof (cases rule: select1_cases [of ?q d])
    case (some a fs)
    let ?d1 = "d\<lparr>db_faults := fs\<rparr>"
    show ?thesis
    proof (cases a)
      case False
      then obtain r where r: "find (\<lambda>r. ex_exit_id r = k) (t_exits d) = Some r" "\<not> ex_active r" using some(2) by auto
      have ex: "distinct (map ex_exit_id (t_exits d))" "length (filter ex_active (t_exits d)) = 1"
        "ids_ok ex_ID (seq_exits d) (t_exits d)" using w by (simp_all add: wf_defs)
      have "db_wf (d\<lparr>db_faults := fs', t_exits := filter (\<lambda>r. ex_exit_id r \<noteq> k) (t_exits d)\<rparr>)" for fs'
        using w ex filter_exit_key [OF ex(1) r]
        by (simp add: wf_defs ids_ok_def distinct_map_filter list_all_iff)
      then have "db_wf (snd (stmt (exit_delete k) ?d1))"
        using tp by (cases rule: stmt_cases [of "exit_delete k" ?d1]) (simp_all add: exit_delete_def)
      moreover obtain x d2 where "stmt (exit_delete k) ?d1 = (x, d2)" by (cases "stmt (exit_delete k) ?d1")
      ultimately show ?thesis using some(1) False
        by (cases x) (simp_all add: Store_Delete_def)
    qed (use some tp in \<open>simp add: Store_Delete_def\<close>)
  qed (use tp in \<open>simp_all add: Store_Delete_def\<close>)
qed

lemma Switch_ok:
  assumes "Store_Switch k d = (Inr (), d')"
  shows "k \<in> ex_exit_id ` set (t_exits d)"
    "same_tables (d\<lparr>t_exits := promote ex_exit_id (\<lambda>b r. set_ex b r) k (demote_all ex_active (\<lambda>b r. set_ex b r) (t_exits d))\<rparr>) d'"
proof -
  let ?rs = "promote ex_exit_id (\<lambda>b r. set_ex b r) k (demote_all ex_active (\<lambda>b r. set_ex b r) (t_exits d))"
  obtain d0 d1 where d0: "same_tables d d0" "same_tables d1 d'"
    and body: "bindD (stmt (\<lambda>d. (Inr (length (filter (\<lambda>r. ex_exit_id r = k) (t_exits d))), d))) (\<lambda>exists.
       if exists = 0 then throwD ErrNoRows
       else bindD (stmt demote_exits) (\<lambda>_. stmt (promote_exit k))) d0 = (Inr (), d1)"
    using assms unfolding Store_Switch_def by (auto elim: transaction_ok)
  obtain fs where fs: "d0 = d\<lparr>db_faults := fs\<rparr>" using d0(1) by (elim same_tablesE)
  obtain n d2 where 2: "stmt (\<lambda>d. (Inr (length (filter (\<lambda>r. ex_exit_id r = k) (t_exits d))), d)) d0 = (Inr n, d2)"
    and r: "(if n = 0 then throwD ErrNoRows else bindD (stmt demote_exits) (\<lambda>_. stmt (promote_exit k))) d2 = (Inr (), d1)"
    using bindD_Inr [OF body] by blast
  obtain fs2 where n: "n = length (filter (\<lambda>r. ex_exit_id r = k) (t_exits d))" "d2 = d\<lparr>db_faults := fs2\<rparr>"
    using stmt_Inr [OF 2] fs by auto
  have "n \<noteq> 0" using r by (cases "n = 0") (simp_all add: throwD_def)
  then show "k \<in> ex_exit_id ` set (t_exits d)" using n(1) by (auto simp: filter_empty_conv)
  from r \<open>n \<noteq> 0\<close> have "bindD (stmt demote_exits) (\<lambda>_. stmt (promote_exit k)) d2 = (Inr (), d1)" by simp
  from bindD_Inr [OF this] obtain d3 where 3: "stmt demote_exits d2 = (Inr (), d3)" "stmt (promote_exit k) d3 = (Inr (), d1)" by auto
  from stmt_Inr [OF 3(1)] obtain fs3 where d3: "d3 = d\<lparr>db_faults := fs3, t_exits := demote_all ex_active (\<lambda>b r. set_ex b r) (t_exits d)\<rparr>"
    by (auto simp: demote_exits_def n(2))
  from stmt_Inr [OF 3(2)] obtain fs4 where "d1 = d\<lparr>db_faults := fs4, t_exits := ?rs\<rparr>"
    by (auto simp: promote_exit_def Let_def d3 split: if_splits)
  then have "same_tables (d\<lparr>t_exits := ?rs\<rparr>) d1" by (simp add: same_tables_def)
  then show "same_tables (d\<lparr>t_exits := ?rs\<rparr>) d'" using d0(2) same_tables_trans by blast
qed

lemma Switch_error: "Store_Switch k d = (Inl e, d') \<Longrightarrow> same_tables d d'"
  unfolding Store_Switch_def by (auto dest!: liftE_Inl transaction_error)

lemma Switch_active:
  assumes "db_wf d" "Store_Switch k d = (Inr (), d')"
  shows "length (filter ex_active (t_exits d')) = 1" "\<And>r. r \<in> set (t_exits d') \<Longrightarrow> ex_active r \<longleftrightarrow> ex_exit_id r = k"
    "map ex_exit_id (t_exits d') = map ex_exit_id (t_exits d)" "map ex_ID (t_exits d') = map ex_ID (t_exits d)"
proof -
  let ?rs = "promote ex_exit_id (\<lambda>b r. set_ex b r) k (demote_all ex_active (\<lambda>b r. set_ex b r) (t_exits d))"
  have t: "t_exits d' = ?rs" using Switch_ok(2) [OF assms(2)] by (auto elim!: same_tablesE)
  show a: "\<And>r. r \<in> set (t_exits d') \<Longrightarrow> ex_active r \<longleftrightarrow> ex_exit_id r = k" unfolding t by (rule exi.moved_active)
  show m: "map ex_exit_id (t_exits d') = map ex_exit_id (t_exits d)" "map ex_ID (t_exits d') = map ex_ID (t_exits d)"
    unfolding t by (simp_all add: promote_def demote_all_def)
  have "filter ex_active (t_exits d') = filter (\<lambda>r. ex_exit_id r = k) (t_exits d')" using a by (auto intro: filter_cong)
  moreover have "distinct (map ex_exit_id (t_exits d'))" using assms(1) m by (simp add: wf_defs)
  moreover have "k \<in> ex_exit_id ` set (t_exits d')" using Switch_ok(1) [OF assms(2)] image_cong_map [OF m(1)] by simp
  ultimately show "length (filter ex_active (t_exits d')) = 1" using exi.count_key [of "t_exits d'" k] by simp
qed

lemma wf_Store_Switch: "db_wf d \<Longrightarrow> db_wf (snd (Store_Switch k d))"
proof -
  assume w: "db_wf d"
  obtain r d' where s: "Store_Switch k d = (r, d')" by (cases "Store_Switch k d")
  have "db_wf d'"
  proof (cases r)
    case (Inl e)
    then show ?thesis using s w Switch_error same_tables_pred [OF table_pred_wf] by metis
  next
    case (Inr u)
    then have s: "Store_Switch k d = (Inr (), d')" using s by simp
    note a = Switch_active [OF w s]
    obtain fs where d': "d' = d\<lparr>t_exits := t_exits d', db_faults := fs\<rparr>"
    proof -
      obtain fs where "d' = d\<lparr>t_exits := promote ex_exit_id (\<lambda>b r. set_ex b r) k (demote_all ex_active (\<lambda>b r. set_ex b r) (t_exits d)), db_faults := fs\<rparr>"
        using Switch_ok(2) [OF s] by (elim same_tablesE)
      then show thesis by (intro that [of fs]) simp
    qed
    have "ids_ok ex_ID (seq_exits d) (t_exits d')" using w ids_ok_cong [OF a(4)] by (simp add: wf_defs)
    then have "db_wf (d\<lparr>t_exits := t_exits d', db_faults := fs\<rparr>)" using w a(1,3) by (simp add: wf_defs)
    then show ?thesis using d' by simp
  qed
  then show ?thesis using s by simp
qed

section \<open>Reachable databases\<close>

text \<open>One step of the control plane: any writing operation, with any arguments, under any engine
  failures and at any time.\<close>

inductive db_step :: "DB \<Rightarrow> DB \<Rightarrow> bool" where
  insert_user: "db_step d (snd (InsertPanelUser u h d))"
| insert_first: "db_step d (snd (InsertFirstPanelUser u h d))"
| touch_login: "db_step d (snd (TouchLastLogin i d))"
| password: "db_step d (snd (UpdatePanelUserPassword i h d))"
| insert_session: "db_step d (snd (InsertPanelSession s d))"
| revoke: "db_step d (snd (RevokeSession sid d))"
| revoke_except: "db_step d (snd (RevokeSessionsExcept i j d))"
| insert_snapshot: "db_step d (snd (InsertSnapshot sn d))"
| insert_version: "db_step d (snd (InsertRuleVersion i y b d))"
| set_active: "db_step d (snd (SetActiveRuleVersion i d))"
| clear_active: "db_step d (snd (ClearActiveRuleVersion d))"
| audit: "db_step d (snd (AppendAudit e d))"
| etag: "db_step d (snd (UpsertRuleSourceETag u k et d))"
| insert_apply: "db_step d (snd (InsertApplyStatus i r d))"
| update_apply: "db_step d (snd (UpdateApplyStatus i st r d))"
| add_exit: "db_step d (snd (Store_Add parse x u d))"
| delete_exit: "db_step d (snd (Store_Delete x d))"
| switch_exit: "db_step d (snd (Store_Switch x d))"
| environment: "db_step d (d\<lparr>db_now := t, db_faults := fs\<rparr>)"

inductive db_reachable :: "DB \<Rightarrow> bool" where
  migrated: "db_reachable emptyDB"
| step: "db_reachable d \<Longrightarrow> db_step d d' \<Longrightarrow> db_reachable d'"

lemmas keeps_wf = keeps_InsertPanelUser keeps_InsertFirstPanelUser keeps_TouchLastLogin
  keeps_UpdatePanelUserPassword keeps_InsertPanelSession keeps_RevokeSession keeps_RevokeSessionsExcept
  keeps_InsertSnapshot keeps_InsertRuleVersion keeps_SetActiveRuleVersion keeps_demote keeps_AppendAudit
  keeps_UpsertRuleSourceETag keeps_InsertApplyStatus keeps_UpdateApplyStatus

lemma db_step_wf: "db_step d d' \<Longrightarrow> db_wf d \<Longrightarrow> db_wf d'"
proof (induction rule: db_step.induct)
  case (environment d t fs)
  then show ?case by (simp add: wf_defs)
qed (auto simp: ClearActiveRuleVersion_def wf_Store_Add wf_Store_Delete wf_Store_Switch
    intro: keeps_wf [unfolded keeps_def, rule_format])

section \<open>Properties\<close>

text \<open>(C12) Every database the program can reach from a fresh migration is well-formed: ids are unique and
  never reused, references resolve, apply states are legal, at most one rule version is active, and
  exactly one exit is active. This holds for every sequence of operations, including those in which
  any statement fails.\<close>

theorem reachable_db_wf: "db_reachable d \<Longrightarrow> db_wf d"
  by (induction rule: db_reachable.induct) (auto simp: emptyDB_wf dest: db_step_wf)

theorem reachable_db_wf_witness:
  "db_wf (snd (Store_Switch ''direct'' emptyDB))"
  by (rule reachable_db_wf, rule db_reachable.step [OF db_reachable.migrated db_step.switch_exit])

text \<open>Switching exits is atomic: on success the given exit exists and is the one active exit, with no
  other column changed; on any error the tables are untouched; and when the engine does not fail it
  succeeds exactly for existing exits, so the error for a missing exit is \<open>ErrExitNotFound\<close>.\<close>

theorem switch_exit_atomic:
  assumes "db_wf d" "Store_Switch k d = (r, d')"
  shows "(case r of
      Inl e \<Rightarrow> same_tables d d' \<and> (db_faults d = [] \<longrightarrow> k \<notin> ex_exit_id ` set (t_exits d) \<and> e = ErrExitNotFound k)
    | Inr _ \<Rightarrow> k \<in> ex_exit_id ` set (t_exits d) \<and> filter ex_active (t_exits d') = filter (\<lambda>r. ex_exit_id r = k) (t_exits d') \<and>
        length (filter ex_active (t_exits d')) = 1 \<and>
        map (set_ex False) (t_exits d') = map (set_ex False) (t_exits d))"
proof (cases r)
  case (Inl e)
  have "k \<notin> ex_exit_id ` set (t_exits d) \<and> e = ErrExitNotFound k" if f: "db_faults d = []"
  proof (cases "filter (\<lambda>r. ex_exit_id r = k) (t_exits d) = []")
    case True
    then show ?thesis using assms(2) Inl f
      by (auto simp: Store_Switch_def transaction_def stmt_no_faults dbm_defs liftE_def not_found_def filter_empty_conv)
  next
    case False
    have "one_active ex_active (promote ex_exit_id (\<lambda>b r. set_ex b r) k (demote_all ex_active (\<lambda>b r. set_ex b r) (t_exits d)))"
      using assms(1) by (intro exi.moved_one) (simp add: wf_defs)
    then show ?thesis using assms(2) Inl f False
      by (simp add: Store_Switch_def transaction_def stmt_no_faults dbm_defs liftE_def demote_exits_def promote_exit_def Let_def)
  qed
  then show ?thesis using Inl Switch_error assms(2) by auto
next
  case (Inr u)
  then have s: "Store_Switch k d = (Inr (), d')" using assms(2) by simp
  note a = Switch_active [OF assms(1) s]
  have "t_exits d' = promote ex_exit_id (\<lambda>b r. set_ex b r) k (demote_all ex_active (\<lambda>b r. set_ex b r) (t_exits d))"
    using Switch_ok(2) [OF s] by (auto elim!: same_tablesE)
  then have "map (set_ex False) (t_exits d') = map (set_ex False) (t_exits d)"
    by (simp add: promote_def demote_all_def comp_def cong: if_cong)
  moreover have "filter ex_active (t_exits d') = filter (\<lambda>r. ex_exit_id r = k) (t_exits d')"
    using a(2) by (auto intro: filter_cong)
  ultimately show ?thesis using Inr a(1) Switch_ok(1) [OF s] by simp
qed

theorem switch_exit_atomic_witness:
  "\<exists>e d'. Store_Switch ''tokyo'' emptyDB = (Inl e, d') \<and> same_tables emptyDB d' \<and> e = ErrExitNotFound ''tokyo''"
proof -
  obtain e d' where s: "Store_Switch ''tokyo'' emptyDB = (Inl e, d')"
    by (simp add: Store_Switch_def transaction_def stmt_def dbm_defs liftE_def emptyDB_def)
  show ?thesis using switch_exit_atomic [OF emptyDB_wf s] s by (simp add: emptyDB_def)
qed

text \<open>The active exit survives deletion: \<open>Delete\<close> never removes the active row, and when it succeeds the
  exit it removed existed, was inactive and is gone while every other row is kept.\<close>

theorem delete_spares_active:
  assumes "db_wf d" "Store_Delete k d = (r, d')"
  shows "filter ex_active (t_exits d') = filter ex_active (t_exits d) \<and>
    (r = Inr () \<longrightarrow> t_exits d' = filter (\<lambda>x. ex_exit_id x \<noteq> k) (t_exits d) \<and>
       list_ex (\<lambda>x. ex_exit_id x = k \<and> \<not> ex_active x) (t_exits d)) \<and>
    (r \<noteq> Inr () \<longrightarrow> t_exits d' = t_exits d)"
proof -
  let ?q = "\<lambda>d. map_option ex_active (find (\<lambda>r. ex_exit_id r = k) (t_exits d))"
  have dist: "distinct (map ex_exit_id (t_exits d))" using assms(1) by (simp add: wf_defs)
  show ?thesis
  proof (cases rule: select1_cases [of ?q d])
    case (some a fs)
    then obtain x where x: "find (\<lambda>r. ex_exit_id r = k) (t_exits d) = Some x" "ex_active x = a" by auto
    then have in_x: "x \<in> set (t_exits d)" "ex_exit_id x = k" using find_Some_in [OF x(1)] by auto
    show ?thesis
    proof (cases a)
      case True
      then show ?thesis using some assms(2) by (auto simp: Store_Delete_def)
    next
      case False
      have n: "filter (\<lambda>r. ex_exit_id r = k) (t_exits d) \<noteq> []" using in_x by (auto simp: filter_empty_conv)
      show ?thesis
        using assms(2) some(1) False filter_exit_key [OF dist x(1)] x(2) n in_x
        by (cases rule: stmt_cases [of "exit_delete k" "d\<lparr>db_faults := fs\<rparr>"])
          (auto simp: Store_Delete_def exit_delete_def list_ex_iff)
    qed
  qed (use assms(2) in \<open>auto simp: Store_Delete_def\<close>)
qed

theorem delete_spares_active_witness:
  "\<exists>d'. Store_Delete ''direct'' emptyDB = (Inl ErrExitActive, d') \<and> t_exits d' = t_exits emptyDB"
proof -
  obtain d' where s: "Store_Delete ''direct'' emptyDB = (Inl ErrExitActive, d')"
    by (simp add: Store_Delete_def select1_def stmt_def emptyDB_def)
  show ?thesis using delete_spares_active [OF emptyDB_wf s] s by auto
qed

text \<open>Rendering sees the active exit first: the records handed to the configuration assembly are all
  the exits, each once, and the active one stands at index 0.\<close>

theorem records_active_first:
  assumes "db_wf d" "Store_Records parse d = (Inr recs, d')"
  shows "mset (map er_ID recs) = mset (map ex_exit_id (t_exits d)) \<and>
    (\<exists>x rest. recs = x # rest \<and> list_ex (\<lambda>r. ex_active r \<and> ex_exit_id r = er_ID x) (t_exits d))"
proof -
  let ?o = "exits_ordered (t_exits d)"
  have "recs = map (\<lambda>r. \<lparr>er_ID = ex_exit_id r, er_Protocol = ex_protocol r, er_Config = parseURIOrNil parse (ex_protocol r) (ex_uri r)\<rparr>) ?o"
    using assms(2) by (auto simp: Store_Records_def Store_List_def exit_of_row_def split: prod.splits sum.splits dest!: stmt_Inr)
  then have ids: "map er_ID recs = map ex_exit_id ?o" by (simp add: comp_def)
  have m: "mset ?o = mset (t_exits d)" by (simp add: exits_ordered_def)
  have act: "filter ex_active (t_exits d) \<noteq> []" using assms(1) by (auto simp: wf_defs)
  then have ne: "?o \<noteq> []" using m by (cases ?o) auto
  then obtain x rest where o: "?o = x # rest" by (cases ?o) auto
  have "sorted (map (\<lambda>r. \<not> ex_active r) ?o)" by (simp add: exits_ordered_def)
  moreover obtain a where "a \<in> set ?o" "ex_active a" using act mset_eq_setD [OF m] by (auto simp: filter_empty_conv)
  ultimately have "ex_active x" using o by auto
  moreover have "x \<in> set (t_exits d)" using mset_eq_setD [OF m] o by auto
  moreover obtain y ys where "recs = y # ys" "er_ID y = ex_exit_id x" using ids o by (cases recs) auto
  moreover have "mset (map er_ID recs) = mset (map ex_exit_id (t_exits d))" unfolding ids using m by (metis mset_map)
  ultimately show ?thesis by (auto simp: list_ex_iff)
qed

theorem records_active_first_witness:
  "\<exists>recs d' x rest. Store_Records (\<lambda>_. Inl ''no'') emptyDB = (Inr recs, d') \<and> recs = x # rest \<and>
     list_ex (\<lambda>r. ex_active r \<and> ex_exit_id r = er_ID x) (t_exits emptyDB)"
proof -
  obtain recs d' where s: "Store_Records (\<lambda>_. Inl ''no'') emptyDB = (Inr recs, d')"
    by (simp add: Store_Records_def Store_List_def liftE_def stmt_def emptyDB_def)
  then show ?thesis using records_active_first [OF emptyDB_wf s] by blast
qed

end
