(* ===== verification/Assemble.thy ===== *)
theory Assemble
  imports Rules Exits
begin

text \<open>
  Assembly of the effective configuration, \<open>internal/core/assemble.go\<close>, and the database-backed
  store that feeds it (\<open>bootStore\<close> of \<open>cmd/5gpn/main.go\<close>).

  \<open>Config\<close> has the fields the assembly reads or copies; everything else it copies by value is the
  field \<open>cfg_rest\<close> of arbitrary type.  A Go slice that may be nil is an optional list.  Values are
  immutable here, so the deep copies are functions that rebuild their argument.
\<close>

record ExitConfig =
  ec_ID :: string
  ec_Protocol :: string
  ec_Config :: "proxy_map option"

record RuleSource =
  rs_URL :: string
  rs_Kind :: string
  rs_Cron :: string

record 'r Config =
  cfg_Exits :: "ExitConfig list option"
  cfg_EffectiveRules :: "Rule list option"
  cfg_DNS_Upstreams :: "string list option"
  cfg_WAShim_AllowCIDR :: "string list option"
  cfg_TGBot_AdminChatIDs :: "int list option"
  cfg_Rules_Sources :: "RuleSource list option"
  cfg_rest :: 'r

text \<open>\<open>append([]T(nil), xs...)\<close> is nil when \<open>xs\<close> is empty.\<close>

definition append_nil :: "'a list \<Rightarrow> 'a list option" where
  "append_nil xs = (if xs = [] then None else Some xs)"

fun cloneAnyValue :: "AnyVal \<Rightarrow> AnyVal" where
  "cloneAnyValue (AnyMap m) = AnyMap (map (\<lambda>(k, v). (k, cloneAnyValue v)) m)"
| "cloneAnyValue (AnySlice xs) = AnySlice (map cloneAnyValue xs)"
| "cloneAnyValue (AnyStrs xs) = AnyStrs xs"
| "cloneAnyValue (AnyInts xs) = AnyInts xs"
| "cloneAnyValue (AnyInt64s xs) = AnyInt64s xs"
| "cloneAnyValue v = v"

definition cloneStringAnyMap :: "proxy_map option \<Rightarrow> proxy_map option" where
  "cloneStringAnyMap m = map_option (map (\<lambda>(k, v). (k, cloneAnyValue v))) m"

definition stripNameType :: "proxy_map option \<Rightarrow> proxy_map option" where
  "stripNameType m = map_option (\<lambda>kvs. map (\<lambda>(k, v). (k, cloneAnyValue v))
     (filter (\<lambda>(k, v). \<not> (k = ''name'' \<or> k = ''type'')) kvs)) m"

definition cloneConfig :: "'r Config \<Rightarrow> 'r Config" where
  "cloneConfig cfg = cfg\<lparr>
     cfg_Exits := map_option (map (\<lambda>e. \<lparr>ec_ID = ec_ID e, ec_Protocol = ec_Protocol e, ec_Config = cloneStringAnyMap (ec_Config e)\<rparr>)) (cfg_Exits cfg),
     cfg_EffectiveRules := Option.bind (cfg_EffectiveRules cfg) append_nil,
     cfg_DNS_Upstreams := Option.bind (cfg_DNS_Upstreams cfg) append_nil,
     cfg_WAShim_AllowCIDR := Option.bind (cfg_WAShim_AllowCIDR cfg) append_nil,
     cfg_TGBot_AdminChatIDs := Option.bind (cfg_TGBot_AdminChatIDs cfg) append_nil,
     cfg_Rules_Sources := Option.bind (cfg_Rules_Sources cfg) append_nil\<rparr>"

section \<open>Stores\<close>

datatype assemble_error = ErrNilBase | ErrReadActive string | ErrParseActive parse_error
  | ErrValidateActive rule_error | ErrListExits string

text \<open>The \<open>Store\<close> interface: the YAML of the active rule version (nothing when there is none) and the exits
  (nothing for a nil slice).\<close>

record core_store =
  ActiveRulesYAML :: "DB \<Rightarrow> (db_error, string option) result \<times> DB"
  ListExits :: "DB \<Rightarrow> (exit_error, ExitRecord list option) result \<times> DB"

definition NoStore :: core_store where
  "NoStore = \<lparr>ActiveRulesYAML = (\<lambda>d. (Inr None, d)), ListExits = (\<lambda>d. (Inr None, d))\<rparr>"

definition boot_ActiveRulesYAML :: "DB \<Rightarrow> (db_error, string option) result \<times> DB" where
  "boot_ActiveRulesYAML d = (case GetActiveRuleVersion d of
      (Inr row, d) \<Rightarrow> (Inr (Some (rv_RulesYAML row)), d)
    | (Inl e, d) \<Rightarrow> if e = ErrNoRows then (Inr None, d) else (Inl e, d))"

definition boot_ListExits :: "uri_parser \<Rightarrow> DB \<Rightarrow> (exit_error, ExitRecord list option) result \<times> DB" where
  "boot_ListExits parse d = (case Store_Records parse d of
      (Inr recs, d) \<Rightarrow> (Inr (Some recs), d)
    | (Inl e, d) \<Rightarrow> (Inl e, d))"

definition bootStore :: "uri_parser \<Rightarrow> core_store" where
  "bootStore parse = \<lparr>ActiveRulesYAML = boot_ActiveRulesYAML, ListExits = boot_ListExits parse\<rparr>"

section \<open>Assembly\<close>

text \<open>\<open>isdomain\<close> and \<open>decode\<close> are the domain-name check and the YAML decoder of the rule model; \<open>txt\<close> gives
  the text of a database error and \<open>etxt\<close> that of an exit-store error.\<close>

record rule_lib =
  rl_isdomain :: "string \<Rightarrow> bool"
  rl_decode :: "string \<Rightarrow> (string, RuleSet) result"
  rl_text :: "db_error \<Rightarrow> string"
  rl_etext :: "exit_error \<Rightarrow> string"

definition assemble_rules :: "rule_lib \<Rightarrow> string option \<Rightarrow> 'r Config \<Rightarrow> (assemble_error, 'r Config) result" where
  "assemble_rules lib yaml cfg = (case yaml of
      None \<Rightarrow> Inr cfg
    | Some y \<Rightarrow> (case ParseYAML (rl_isdomain lib) (rl_decode lib) y of
          Inl e \<Rightarrow> Inl (ErrParseActive e)
        | Inr rs \<Rightarrow> (case RuleSet_Validate (rl_isdomain lib) rs of
              Some e \<Rightarrow> Inl (ErrValidateActive e)
            | None \<Rightarrow> Inr (cfg\<lparr>cfg_EffectiveRules := append_nil rs\<rparr>))))"

definition assemble_exits :: "ExitRecord list option \<Rightarrow> 'r Config \<Rightarrow> 'r Config" where
  "assemble_exits exits cfg = (case exits of
      None \<Rightarrow> cfg
    | Some es \<Rightarrow> cfg\<lparr>cfg_Exits := Some (map (\<lambda>e. \<lparr>ec_ID = er_ID e, ec_Protocol = er_Protocol e,
                                              ec_Config = stripNameType (er_Config e)\<rparr>) es)\<rparr>)"

definition Assemble :: "rule_lib \<Rightarrow> 'r Config option \<Rightarrow> core_store option \<Rightarrow> DB \<Rightarrow> (assemble_error, 'r Config) result \<times> DB" where
  "Assemble lib base store d = (case base of
      None \<Rightarrow> (Inl ErrNilBase, d)
    | Some b \<Rightarrow>
        let cfg = cloneConfig b in
        (case store of
           None \<Rightarrow> (Inr cfg, d)
         | Some s \<Rightarrow> (case ActiveRulesYAML s d of
               (Inl e, d) \<Rightarrow> (Inl (ErrReadActive (rl_text lib e)), d)
             | (Inr yaml, d) \<Rightarrow> (case assemble_rules lib yaml cfg of
                   Inl e \<Rightarrow> (Inl e, d)
                 | Inr cfg \<Rightarrow> (case ListExits s d of
                       (Inl e, d) \<Rightarrow> (Inl (ErrListExits (rl_etext lib e)), d)
                     | (Inr exits, d) \<Rightarrow> (Inr (assemble_exits exits cfg), d))))))"

section \<open>Lemmas\<close>

lemma cloneAnyValue_id [simp]: "cloneAnyValue v = v"
proof (induction v rule: cloneAnyValue.induct)
  case (1 m)
  then show ?case by (auto intro!: map_idI)
next
  case (2 xs)
  then show ?case by (auto intro!: map_idI)
qed simp_all

lemma cloneStringAnyMap_id [simp]: "cloneStringAnyMap m = m"
  by (cases m) (simp_all add: cloneStringAnyMap_def case_prod_unfold)

lemma stripNameType_no_clash: "stripNameType m = Some kvs \<Longrightarrow> map_of kvs ''name'' = None \<and> map_of kvs ''type'' = None"
  by (auto simp: stripNameType_def map_of_eq_None_iff case_prod_unfold)

lemma GetActive_same: "GetActiveRuleVersion d = (r, d') \<Longrightarrow> same_tables d d'"
  unfolding GetActiveRuleVersion_def by (cases rule: select1_cases [of "\<lambda>d. find rv_Active (t_versions d)" d]) auto

lemma GetActive_Inr: "GetActiveRuleVersion d = (Inr v, d') \<Longrightarrow> find rv_Active (t_versions d) = Some v"
  unfolding GetActiveRuleVersion_def by (cases rule: select1_cases [of "\<lambda>d. find rv_Active (t_versions d)" d]) auto

lemma GetActive_NoRows: "GetActiveRuleVersion d = (Inl ErrNoRows, d') \<Longrightarrow> find rv_Active (t_versions d) = None"
  unfolding GetActiveRuleVersion_def by (cases rule: select1_cases [of "\<lambda>d. find rv_Active (t_versions d)" d]) auto

lemma boot_rules:
  assumes "boot_ActiveRulesYAML d = (r, d')"
  shows "same_tables d d'" "r = Inr y \<Longrightarrow> y = map_option rv_RulesYAML (find rv_Active (t_versions d))"
  using assms GetActive_Inr [of d] GetActive_NoRows [of d] GetActive_same [of d]
  by (auto simp: boot_ActiveRulesYAML_def split: prod.splits sum.splits if_splits)

lemma Records_same: "Store_Records parse d = (r, d') \<Longrightarrow> same_tables d d'"
proof -
  assume r: "Store_Records parse d = (r, d')"
  let ?f = "\<lambda>d. (Inr (map (exit_of_row parse) (exits_ordered (t_exits d))), d)"
  have "snd (Store_Records parse d) = snd (stmt ?f d)"
    by (simp add: Store_Records_def Store_List_def liftE_def split: prod.splits sum.splits)
  then show ?thesis using r by (cases rule: stmt_cases [of ?f d]) auto
qed

lemma Records_ids:
  assumes "Store_Records parse d = (Inr recs, d')"
  shows "map er_ID recs = map ex_exit_id (exits_ordered (t_exits d))"
proof -
  have "recs = map (\<lambda>r. \<lparr>er_ID = ex_exit_id r, er_Protocol = ex_protocol r, er_Config = parseURIOrNil parse (ex_protocol r) (ex_uri r)\<rparr>) (exits_ordered (t_exits d))"
    using assms by (auto simp: Store_Records_def Store_List_def exit_of_row_def split: prod.splits sum.splits dest!: stmt_Inr)
  then show ?thesis by (simp add: comp_def)
qed

lemma exits_ordered_head:
  assumes "db_wf d"
  obtains x xs where "exits_ordered (t_exits d) = x # xs" "ex_active x" "x \<in> set (t_exits d)"
proof -
  let ?o = "exits_ordered (t_exits d)"
  have m: "set ?o = set (t_exits d)" by (simp add: exits_ordered_def)
  have "filter ex_active (t_exits d) \<noteq> []" using assms by (auto simp: wf_defs)
  then obtain a where a: "a \<in> set ?o" "ex_active a" using m by (auto simp: filter_empty_conv)
  then obtain x xs where o: "?o = x # xs" by (cases ?o) auto
  have "sorted (map (\<lambda>r. \<not> ex_active r) ?o)" by (simp add: exits_ordered_def)
  then have "ex_active x" using a o by auto
  then show thesis using that o m by auto
qed

section \<open>Properties\<close>



end
