(* ===== verification/Orchestrator.thy ===== *)
theory Orchestrator
  imports Prelude
begin

text \<open>
  The data-plane orchestrator, \<open>internal/orchestrator\<close>: \<open>Systemd\<close> (\<open>systemd.go\<close>) renders the three
  service configurations, reloads the units, observes health in the background and commits or restores;
  \<open>NoOp\<close> (\<open>noop.go\<close>) only commits.

  The host is the record \<open>world\<close>: the files (path to content and mode), the directories that exist, the directories
  of the temporary files that exist, what each unit last loaded, and \<open>w_faults\<close>, the outcomes of the system calls and systemctl runs to come (\<open>None\<close>
  succeeds, \<open>Some e\<close> fails).  The configuration type is arbitrary; the three renderers of
  \<open>internal/config/render\<close> are the record \<open>renderers\<close>, an argument.  \<open>applyMu\<close> is the flag
  \<open>sd_applyMu\<close>; the goroutine started by \<open>Apply\<close> is the entry \<open>sd_observing\<close> with the snapshot it
  captured, and \<open>observeHealth\<close> is its run.  The \<open>Commit\<close> callback and the \<open>HealthObserver\<close> act on a
  control-plane state of arbitrary type and are arguments.
\<close>

section \<open>Interface (\<open>orchestrator.go\<close>)\<close>

record 'cfg ApplyRequest =
  rq_SnapshotID :: int
  rq_RuleVersionID :: int
  rq_Config :: "'cfg option"
  rq_PrevSnapshot :: int
  rq_Commit :: bool

record ApplyResult =
  ar_RolledBack :: bool
  ar_Health :: string
  ar_Reason :: string

datatype orch_error = ErrApplyInFlight | OrchErr string

definition orch_error_text :: "orch_error \<Rightarrow> string" where
  "orch_error_text e = (case e of ErrApplyInFlight \<Rightarrow> ''orchestrator: apply in flight'' | OrchErr s \<Rightarrow> s)"

text \<open>\<open>errors.Join\<close>: nothing when every argument is nil, else the messages separated by newlines.\<close>

definition errors_Join :: "string option list \<Rightarrow> string option" where
  "errors_Join es = (let xs = List.map_filter id es in if xs = [] then None else Some (Join xs [CHR 10]))"

section \<open>The host\<close>

record hostfile =
  f_body :: string
  f_mode :: nat

record world =
  w_fs :: "string \<Rightarrow> hostfile option"
  w_dirs :: "string list"
  w_temps :: "string list"
  w_units :: "string \<Rightarrow> (string \<Rightarrow> hostfile option) option"
  w_faults :: "string option list"

definition sys :: "world \<Rightarrow> string option \<times> world" where
  "sys w = (case w_faults w of [] \<Rightarrow> (None, w) | r # fs \<Rightarrow> (r, w\<lparr>w_faults := fs\<rparr>))"

fun sys_all :: "nat \<Rightarrow> world \<Rightarrow> string option \<times> world" where
  "sys_all 0 w = (None, w)"
| "sys_all (Suc n) w = (case sys w of (Some e, w) \<Rightarrow> (Some e, w) | (None, w) \<Rightarrow> sys_all n w)"

text \<open>\<open>filepath.Dir\<close> of a path without \<open>.\<close> and \<open>..\<close> elements, and \<open>os.MkdirAll\<close>, which creates the missing ancestors
  from the root on and may fail at any of them.\<close>

definition filepath_Dir :: "string \<Rightarrow> string" where
  "filepath_Dir p = (if CHR ''/'' \<notin> set p then ''.''
     else let d = rev (dropWhile (\<lambda>c. c = CHR ''/'') (dropWhile (\<lambda>c. c \<noteq> CHR ''/'') (rev p))) in if d = [] then ''/'' else d)"

fun ancestors_from :: "string \<Rightarrow> string \<Rightarrow> string list" where
  "ancestors_from seen [] = (if seen = [] then [] else [rev seen])"
| "ancestors_from seen (c # cs) =
     (if c = CHR ''/'' \<and> seen \<noteq> [] then rev seen # ancestors_from (c # seen) cs else ancestors_from (c # seen) cs)"

definition ancestors :: "string \<Rightarrow> string list" where
  "ancestors d = ancestors_from [] d"

fun mkdirs :: "string list \<Rightarrow> world \<Rightarrow> string option \<times> world" where
  "mkdirs [] w = (None, w)"
| "mkdirs (d # ds) w = (if d \<in> set (w_dirs w) then mkdirs ds w
     else case sys w of (Some e, w) \<Rightarrow> (Some e, w) | (None, w) \<Rightarrow> mkdirs ds (w\<lparr>w_dirs := d # w_dirs w\<rparr>))"

definition MkdirAll :: "string \<Rightarrow> world \<Rightarrow> string option \<times> world" where
  "MkdirAll dir = mkdirs (ancestors dir)"

text \<open>Create the directory and a temporary file in it; set its mode, write, sync and close it, and rename it over the path.
  The deferred \<open>os.Remove\<close>, whose error is ignored, finds nothing after the rename and else deletes the temporary file, or
  leaves it when it fails.\<close>

definition remove_temp :: "string \<Rightarrow> world \<Rightarrow> world" where
  "remove_temp dir w = (case sys w of (Some _, w) \<Rightarrow> w | (None, w) \<Rightarrow> w\<lparr>w_temps := remove1 dir (w_temps w)\<rparr>)"

definition writeBytesAtomic :: "string \<Rightarrow> string \<Rightarrow> nat \<Rightarrow> world \<Rightarrow> string option \<times> world" where
  "writeBytesAtomic path body mode w = (let dir = filepath_Dir path in
     case MkdirAll dir w of
       (Some e, w) \<Rightarrow> (Some e, w)
     | (None, w) \<Rightarrow> (case sys w of
           (Some e, w) \<Rightarrow> (Some e, w)
         | (None, w) \<Rightarrow> (case sys_all 5 (w\<lparr>w_temps := dir # w_temps w\<rparr>) of
               (Some e, w) \<Rightarrow> (Some e, remove_temp dir w)
             | (None, w) \<Rightarrow> (None, w\<lparr>w_fs := (w_fs w)(path \<mapsto> \<lparr>f_body = body, f_mode = mode\<rparr>), w_temps := remove1 dir (w_temps w)\<rparr>))))"

definition writeRendered :: "string \<Rightarrow> ('cfg \<Rightarrow> (string, string) result) \<Rightarrow> 'cfg \<Rightarrow> world \<Rightarrow> string option \<times> world" where
  "writeRendered path render cfg w = (case render cfg of
      Inl e \<Rightarrow> (Some e, w)
    | Inr body \<Rightarrow> writeBytesAtomic path body 420 w)"

record snapshotFile =
  sf_body :: string
  sf_exists :: bool
  sf_mode :: nat

record snapshotBundle =
  sb_dnsdist :: snapshotFile
  sb_mihomo :: snapshotFile
  sb_sniproxy :: snapshotFile

definition snapshotPath :: "string \<Rightarrow> world \<Rightarrow> (string, snapshotFile) result \<times> world" where
  "snapshotPath path w = (case sys w of
      (Some e, w) \<Rightarrow> (Inl (''snapshot '' @ path @ '': '' @ e), w)
    | (None, w) \<Rightarrow> (case w_fs w path of
          None \<Rightarrow> (Inr \<lparr>sf_body = [], sf_exists = False, sf_mode = 0\<rparr>, w)
        | Some f \<Rightarrow> (case sys w of
              (Some e, w) \<Rightarrow> (Inl (''snapshot '' @ path @ '': '' @ e), w)
            | (None, w) \<Rightarrow> (Inr \<lparr>sf_body = f_body f, sf_exists = True, sf_mode = f_mode f\<rparr>, w))))"

section \<open>Systemd\<close>

record 'cfg renderers =
  rn_dnsdist :: "'cfg \<Rightarrow> (string, string) result"
  rn_mihomo :: "'cfg \<Rightarrow> (string, string) result"
  rn_sniproxy :: "'cfg \<Rightarrow> (string, string) result"

record 'cfg Systemd =
  sd_DnsdistPath :: string
  sd_MihomoPath :: string
  sd_SniproxyPath :: string
  sd_HealthCheck :: bool
  sd_Config :: "'cfg option"
  sd_applyMu :: bool
  sd_observing :: "('cfg ApplyRequest \<times> snapshotBundle) option"

definition snapshotCurrent :: "'cfg Systemd \<Rightarrow> world \<Rightarrow> (string, snapshotBundle) result \<times> world" where
  "snapshotCurrent s w = (case snapshotPath (sd_DnsdistPath s) w of
      (Inl e, w) \<Rightarrow> (Inl e, w)
    | (Inr a, w) \<Rightarrow> (case snapshotPath (sd_MihomoPath s) w of
          (Inl e, w) \<Rightarrow> (Inl e, w)
        | (Inr b, w) \<Rightarrow> (case snapshotPath (sd_SniproxyPath s) w of
              (Inl e, w) \<Rightarrow> (Inl e, w)
            | (Inr c, w) \<Rightarrow> (Inr \<lparr>sb_dnsdist = a, sb_mihomo = b, sb_sniproxy = c\<rparr>, w))))"

definition render :: "'cfg renderers \<Rightarrow> 'cfg Systemd \<Rightarrow> 'cfg \<Rightarrow> world \<Rightarrow> string option \<times> world" where
  "render rn s cfg w = (case writeRendered (sd_DnsdistPath s) (rn_dnsdist rn) cfg w of
      (Some e, w) \<Rightarrow> (Some (''render dnsdist: '' @ e), w)
    | (None, w) \<Rightarrow> (case writeRendered (sd_MihomoPath s) (rn_mihomo rn) cfg w of
          (Some e, w) \<Rightarrow> (Some (''render mihomo: '' @ e), w)
        | (None, w) \<Rightarrow> (case writeRendered (sd_SniproxyPath s) (rn_sniproxy rn) cfg w of
              (Some e, w) \<Rightarrow> (Some (''render sniproxy: '' @ e), w)
            | (None, w) \<Rightarrow> (None, w))))"

text \<open>\<open>os.Remove\<close> of a path that is not there is not an error of the restore.\<close>

definition restore_file :: "string \<Rightarrow> snapshotFile \<Rightarrow> world \<Rightarrow> string option \<times> world" where
  "restore_file path f w =
     (if \<not> sf_exists f then
        (case sys w of
           (Some e, w) \<Rightarrow> (Some (''remove newly rendered '' @ path @ '': '' @ e), w)
         | (None, w) \<Rightarrow> (None, w\<lparr>w_fs := (w_fs w)(path := None)\<rparr>))
      else let mode = (if sf_mode f = 0 then 420 else sf_mode f) in
        (case writeBytesAtomic path (sf_body f) mode w of
           (Some e, w) \<Rightarrow> (Some (''restore '' @ path @ '': '' @ e), w)
         | (None, w) \<Rightarrow> (None, w)))"

definition restore :: "'cfg Systemd \<Rightarrow> snapshotBundle \<Rightarrow> world \<Rightarrow> string option \<times> world" where
  "restore s prev w =
     (let (e1, w) = restore_file (sd_DnsdistPath s) (sb_dnsdist prev) w;
          (e2, w) = restore_file (sd_MihomoPath s) (sb_mihomo prev) w;
          (e3, w) = restore_file (sd_SniproxyPath s) (sb_sniproxy prev) w in
      (errors_Join [e1, e2, e3], w))"

definition runSystemctl :: "string \<Rightarrow> string \<Rightarrow> world \<Rightarrow> string option \<times> world" where
  "runSystemctl verb unit w = (case sys w of
      (Some e, w) \<Rightarrow> (Some (''systemctl '' @ verb @ '' '' @ unit @ '': '' @ e), w)
    | (None, w) \<Rightarrow> (None, w\<lparr>w_units := (w_units w)(unit \<mapsto> w_fs w)\<rparr>))"

definition reloadUnits :: "world \<Rightarrow> string option \<times> world" where
  "reloadUnits w = (case runSystemctl ''reload'' ''dnsdist'' w of
      (Some e, w) \<Rightarrow> (Some e, w)
    | (None, w) \<Rightarrow> (case runSystemctl ''reload'' ''mihomo'' w of
          (Some e, w) \<Rightarrow> (Some e, w)
        | (None, w) \<Rightarrow> runSystemctl ''restart'' ''sniproxy'' w))"

definition restoreAndReload :: "'cfg Systemd \<Rightarrow> snapshotBundle \<Rightarrow> world \<Rightarrow> string option \<times> world" where
  "restoreAndReload s prev w =
     (let (e1, w) = restore s prev w; (e2, w) = reloadUnits w in
      (errors_Join [map_option (\<lambda>e. ''restore previous configs: '' @ e) e1,
                    map_option (\<lambda>e. ''reload previous configs: '' @ e) e2], w))"

definition failedApplyResult :: "string \<Rightarrow> string option \<Rightarrow> ApplyResult \<times> string" where
  "failedApplyResult primary rollbackErr = (case rollbackErr of
      None \<Rightarrow> (\<lparr>ar_RolledBack = True, ar_Health = ''failed'', ar_Reason = primary\<rparr>, primary)
    | Some e \<Rightarrow> (let combined = primary @ [CHR 10] @ e in
        (\<lparr>ar_RolledBack = False, ar_Health = ''failed'', ar_Reason = combined\<rparr>, combined)))"

type_synonym ('cfg, 's) commit_fun = "'cfg ApplyRequest \<Rightarrow> 's \<Rightarrow> string option \<times> 's"

definition commitOrRestore :: "('cfg, 's) commit_fun \<Rightarrow> 'cfg Systemd \<Rightarrow> 'cfg ApplyRequest \<Rightarrow> snapshotBundle \<Rightarrow> world \<Rightarrow> 's \<Rightarrow>
    (bool \<times> string option) \<times> world \<times> 's" where
  "commitOrRestore commit s req prev w st =
     (if \<not> rq_Commit req then ((False, None), w, st)
      else case commit req st of
          (None, st) \<Rightarrow> ((False, None), w, st)
        | (Some e, st) \<Rightarrow>
            (let commitErr = ''control-plane commit: '' @ e in
             case restoreAndReload s prev w of
               (Some r, w) \<Rightarrow> ((False, Some (commitErr @ [CHR 10] @ r)), w, st)
             | (None, w) \<Rightarrow> ((True, Some commitErr), w, st)))"

definition Systemd_Apply :: "'cfg renderers \<Rightarrow> ('cfg, 's) commit_fun \<Rightarrow> 'cfg ApplyRequest \<Rightarrow>
    'cfg Systemd \<times> world \<times> 's \<Rightarrow> (ApplyResult \<times> orch_error option) \<times> 'cfg Systemd \<times> world \<times> 's" where
  "Systemd_Apply rn commit req x = (case x of (s, w, st) \<Rightarrow>
     (case rq_Config req of
        None \<Rightarrow> ((\<lparr>ar_RolledBack = False, ar_Health = [], ar_Reason = ''nil config''\<rparr>,
                 Some (OrchErr ''systemd: apply request missing config'')), s, w, st)
      | Some cfg \<Rightarrow>
          if sd_applyMu s then ((\<lparr>ar_RolledBack = False, ar_Health = [], ar_Reason = ''apply-in-flight''\<rparr>, Some ErrApplyInFlight), s, w, st)
          else (case snapshotCurrent s w of
              (Inl e, w) \<Rightarrow> ((\<lparr>ar_RolledBack = False, ar_Health = [], ar_Reason = e\<rparr>, Some (OrchErr e)), s, w, st)
            | (Inr prev, w) \<Rightarrow> (case render rn s cfg w of
                  (Some e, w) \<Rightarrow>
                    (case restore s prev w of (re, w) \<Rightarrow>
                       case failedApplyResult e (map_option (\<lambda>r. ''restore after render failure: '' @ r) re) of
                         (res, err) \<Rightarrow> ((res, Some (OrchErr err)), s, w, st))
                | (None, w) \<Rightarrow> (case reloadUnits w of
                      (Some e, w) \<Rightarrow>
                        (case restoreAndReload s prev w of (re, w) \<Rightarrow>
                           case failedApplyResult e re of (res, err) \<Rightarrow> ((res, Some (OrchErr err)), s, w, st))
                    | (None, w) \<Rightarrow>
                        if \<not> sd_HealthCheck s then
                          (case commitOrRestore commit s req prev w st of
                             ((rb, Some e), w, st) \<Rightarrow>
                               ((\<lparr>ar_RolledBack = rb, ar_Health = ''failed'', ar_Reason = e\<rparr>, Some (OrchErr e)), s, w, st)
                           | ((_, None), w, st) \<Rightarrow>
                               ((\<lparr>ar_RolledBack = False, ar_Health = ''ok'', ar_Reason = []\<rparr>, None), s\<lparr>sd_Config := Some cfg\<rparr>, w, st))
                        else ((\<lparr>ar_RolledBack = False, ar_Health = ''observing'', ar_Reason = []\<rparr>, None),
                              s\<lparr>sd_applyMu := True, sd_observing := Some (req, prev)\<rparr>, w, st))))))"

text \<open>The health phase up to the observer call; the health check is one fallible call of the host.\<close>

definition probe_and_commit :: "('cfg, 's) commit_fun \<Rightarrow> 'cfg ApplyRequest \<Rightarrow> snapshotBundle \<Rightarrow>
    'cfg Systemd \<times> world \<times> 's \<Rightarrow> ApplyResult \<times> 'cfg Systemd \<times> world \<times> 's" where
  "probe_and_commit commit req prev x = (case x of (s, w, st) \<Rightarrow>
     (case sys w of
        (Some e, w) \<Rightarrow> (case restoreAndReload s prev w of (re, w) \<Rightarrow> (fst (failedApplyResult e re), s, w, st))
      | (None, w) \<Rightarrow> (case commitOrRestore commit s req prev w st of
            ((rb, Some e), w, st) \<Rightarrow> (\<lparr>ar_RolledBack = rb, ar_Health = ''failed'', ar_Reason = e\<rparr>, s, w, st)
          | ((_, None), w, st) \<Rightarrow>
              (\<lparr>ar_RolledBack = False, ar_Health = ''ok'', ar_Reason = []\<rparr>, s\<lparr>sd_Config := rq_Config req\<rparr>, w, st))))"

type_synonym ('cfg, 's) observer =
  "'cfg ApplyRequest \<Rightarrow> ApplyResult \<Rightarrow> 'cfg Systemd \<times> world \<times> 's \<Rightarrow> 'cfg Systemd \<times> world \<times> 's"

text \<open>The deferred \<open>Unlock\<close> runs last, after the observer; \<open>aborted\<close> is the branch in which the budget
  of the context ends before the health delay.\<close>

definition observeHealth :: "('cfg, 's) commit_fun \<Rightarrow> ('cfg, 's) observer option \<Rightarrow> bool \<Rightarrow>
    'cfg Systemd \<times> world \<times> 's \<Rightarrow> 'cfg Systemd \<times> world \<times> 's" where
  "observeHealth commit observer aborted x = (case x of (s, w, st) \<Rightarrow>
     (case sd_observing s of
        None \<Rightarrow> (s, w, st)
      | Some (req, prev) \<Rightarrow>
          let s = s\<lparr>sd_observing := None\<rparr> in
          if aborted then (s\<lparr>sd_applyMu := False\<rparr>, w, st)
          else (case probe_and_commit commit req prev (s, w, st) of (res, y) \<Rightarrow>
            (case (case observer of None \<Rightarrow> y | Some f \<Rightarrow> f req res y) of
               (s, w, st) \<Rightarrow> (s\<lparr>sd_applyMu := False\<rparr>, w, st)))))"

definition compensateRollbackFailure :: "'cfg Systemd \<Rightarrow> snapshotBundle \<Rightarrow> string \<Rightarrow> world \<Rightarrow> orch_error option \<times> world" where
  "compensateRollbackFailure s prev primary w = (case restoreAndReload s prev w of
      (Some e, w) \<Rightarrow> (Some (OrchErr (primary @ [CHR 10] @ ''compensate rollback failure: '' @ e)), w)
    | (None, w) \<Rightarrow> (Some (OrchErr primary), w))"

definition Systemd_Rollback :: "'cfg renderers \<Rightarrow> 'cfg Systemd \<Rightarrow> world \<Rightarrow> orch_error option \<times> world" where
  "Systemd_Rollback rn s w =
     (if sd_applyMu s then (Some ErrApplyInFlight, w)
      else case sd_Config s of
          None \<Rightarrow> (Some (OrchErr ''systemd: no base config to rollback to''), w)
        | Some cfg \<Rightarrow> (case snapshotCurrent s w of
              (Inl e, w) \<Rightarrow> (Some (OrchErr (''snapshot current configs before rollback: '' @ e)), w)
            | (Inr prev, w) \<Rightarrow> (case render rn s cfg w of
                  (Some e, w) \<Rightarrow> compensateRollbackFailure s prev (''render rollback configs: '' @ e) w
                | (None, w) \<Rightarrow> (case reloadUnits w of
                      (Some e, w) \<Rightarrow> compensateRollbackFailure s prev (''reload rollback configs: '' @ e) w
                    | (None, w) \<Rightarrow> (None, w)))))"

section \<open>NoOp (\<open>noop.go\<close>)\<close>

definition NoOp_Apply :: "('cfg, 's) commit_fun \<Rightarrow> 'cfg ApplyRequest \<Rightarrow> 's \<Rightarrow> (ApplyResult \<times> orch_error option) \<times> 's" where
  "NoOp_Apply commit req st =
     (if rq_Commit req then
        (case commit req st of
           (Some e, st) \<Rightarrow> ((\<lparr>ar_RolledBack = True, ar_Health = ''failed'', ar_Reason = e\<rparr>, Some (OrchErr e)), st)
         | (None, st) \<Rightarrow> ((\<lparr>ar_RolledBack = False, ar_Health = ''ok (noop)'', ar_Reason = []\<rparr>, None), st))
      else ((\<lparr>ar_RolledBack = False, ar_Health = ''ok (noop)'', ar_Reason = []\<rparr>, None), st))"

definition NoOp_Rollback :: "orch_error option" where
  "NoOp_Rollback = None"

section \<open>Lemmas\<close>

definition managed :: "'cfg Systemd \<Rightarrow> string set" where
  "managed s = {sd_DnsdistPath s, sd_MihomoPath s, sd_SniproxyPath s}"

definition snapshot_of :: "hostfile option \<Rightarrow> snapshotFile" where
  "snapshot_of f = (case f of None \<Rightarrow> \<lparr>sf_body = [], sf_exists = False, sf_mode = 0\<rparr>
     | Some f \<Rightarrow> \<lparr>sf_body = f_body f, sf_exists = True, sf_mode = f_mode f\<rparr>)"

definition bundle_of :: "'cfg Systemd \<Rightarrow> (string \<Rightarrow> hostfile option) \<Rightarrow> snapshotBundle" where
  "bundle_of s fs = \<lparr>sb_dnsdist = snapshot_of (fs (sd_DnsdistPath s)), sb_mihomo = snapshot_of (fs (sd_MihomoPath s)),
     sb_sniproxy = snapshot_of (fs (sd_SniproxyPath s))\<rparr>"

text \<open>What a restore brings back: a file whose mode was 0 comes back with the default mode 0644.\<close>

definition restored :: "'cfg Systemd \<Rightarrow> (string \<Rightarrow> hostfile option) \<Rightarrow> (string \<Rightarrow> hostfile option) \<Rightarrow> string \<Rightarrow> hostfile option" where
  "restored s fs0 fs p = (if p \<in> managed s
     then map_option (\<lambda>f. if f_mode f = 0 then f\<lparr>f_mode := 420\<rparr> else f) (fs0 p) else fs p)"

definition same_host :: "world \<Rightarrow> world \<Rightarrow> bool" where
  "same_host w w' = (w_fs w' = w_fs w \<and> w_units w' = w_units w \<and> w_dirs w' = w_dirs w \<and> w_temps w' = w_temps w)"

lemma same_host_refl [simp]: "same_host w w"
  by (simp add: same_host_def)

lemma sys_same: "sys w = (r, w') \<Longrightarrow> same_host w w'"
  by (auto simp: sys_def same_host_def split: list.splits)

lemma sys_all_same: "sys_all n w = (r, w') \<Longrightarrow> same_host w w'"
proof (induction n arbitrary: w)
  case (Suc n)
  obtain e w1 where s: "sys w = (e, w1)" by (cases "sys w")
  then show ?case using Suc sys_same [OF s] by (cases e) (auto simp: same_host_def)
qed simp

lemma mkdirs_step:
  "mkdirs ds w = (r, w') \<Longrightarrow> w_fs w' = w_fs w \<and> w_units w' = w_units w \<and> w_temps w' = w_temps w \<and>
     set (w_dirs w) \<subseteq> set (w_dirs w') \<and> set (w_dirs w') \<subseteq> set (w_dirs w) \<union> set ds"
proof (induction ds arbitrary: w)
  case (Cons d ds)
  obtain e w1 where s: "sys w = (e, w1)" by (cases "sys w")
  then show ?case using Cons.prems Cons.IH [of w] Cons.IH [of "w1\<lparr>w_dirs := d # w_dirs w1\<rparr>"] sys_same [OF s]
    by (auto simp: same_host_def split: if_splits option.splits)
qed simp

text \<open>What a write may leave besides the file: directories on the way to it, and its temporary file.\<close>

definition beside :: "string set \<Rightarrow> world \<Rightarrow> world \<Rightarrow> bool" where
  "beside P w w' = ((\<exists>ts. w_temps w' = ts @ w_temps w \<and> set ts \<subseteq> filepath_Dir ` P) \<and> set (w_dirs w) \<subseteq> set (w_dirs w') \<and>
     set (w_dirs w') \<subseteq> set (w_dirs w) \<union> (\<Union>p\<in>P. set (ancestors (filepath_Dir p))))"

lemma same_host_beside: "same_host w w' \<Longrightarrow> beside P w w'"
  by (simp add: same_host_def beside_def)

lemma beside_trans: "beside P w w1 \<Longrightarrow> beside P w1 w2 \<Longrightarrow> beside P w w2"
proof -
  assume 1: "beside P w w1" and 2: "beside P w1 w2"
  obtain ts us where t: "w_temps w1 = ts @ w_temps w" "set ts \<subseteq> filepath_Dir ` P" "w_temps w2 = us @ w_temps w1" "set us \<subseteq> filepath_Dir ` P"
    using 1 2 by (auto simp: beside_def)
  then have "w_temps w2 = (us @ ts) @ w_temps w \<and> set (us @ ts) \<subseteq> filepath_Dir ` P" by simp
  then show "beside P w w2" using 1 2 unfolding beside_def by blast
qed

lemma beside_mono: "beside P w w' \<Longrightarrow> P \<subseteq> Q \<Longrightarrow> beside Q w w'"
  unfolding beside_def by blast

lemma writeBytesAtomic_effect:
  assumes "writeBytesAtomic p b m w = (r, w')"
  shows "w_units w' = w_units w \<and> w_fs w' = (if r = None then (w_fs w)(p \<mapsto> \<lparr>f_body = b, f_mode = m\<rparr>) else w_fs w) \<and>
    beside {p} w w' \<and> (r = None \<longrightarrow> w_temps w' = w_temps w)"
proof -
  let ?d = "filepath_Dir p"
  obtain e1 w1 where 1: "MkdirAll ?d w = (e1, w1)" by fastforce
  note h1 = mkdirs_step [OF 1 [unfolded MkdirAll_def]]
  obtain e2 w2 where 2: "sys w1 = (e2, w2)" by fastforce
  note h2 = sys_same [OF 2, unfolded same_host_def]
  obtain e3 w3 where 3: "sys_all 5 (w2\<lparr>w_temps := ?d # w_temps w2\<rparr>) = (e3, w3)" by fastforce
  note h3 = sys_all_same [OF 3, unfolded same_host_def]
  obtain e4 w4 where 4: "sys w3 = (e4, w4)" by fastforce
  note h4 = sys_same [OF 4, unfolded same_host_def]
  note w = assms [unfolded writeBytesAtomic_def Let_def 1]
  show ?thesis
  proof (cases e1)
    case (Some x)
    then show ?thesis using w h1 by (auto simp: beside_def)
  next
    case e1: None
    show ?thesis
    proof (cases e2)
      case (Some x)
      then show ?thesis using w e1 2 h1 h2 by (auto simp: beside_def)
    next
      case e2: None
      show ?thesis
      proof (cases e3)
        case (Some x)
        then show ?thesis using w e1 e2 2 3 4 h1 h2 h3 h4 by (cases e4) (auto simp: beside_def remove_temp_def)
      next
        case None
        then show ?thesis using w e1 e2 2 3 h1 h2 h3 by (auto simp: beside_def)
      qed
    qed
  qed
qed

lemma writeBytesAtomic_step:
  "writeBytesAtomic p b m w = (r, w') \<Longrightarrow> w_units w' = w_units w \<and>
     w_fs w' = (if r = None then (w_fs w)(p \<mapsto> \<lparr>f_body = b, f_mode = m\<rparr>) else w_fs w)"
  using writeBytesAtomic_effect by blast

lemma writeRendered_beside: "writeRendered p f cfg w = (r, w') \<Longrightarrow> beside {p} w w' \<and> (r = None \<longrightarrow> w_temps w' = w_temps w)"
  using writeBytesAtomic_effect [of p _ 420 w r w'] same_host_beside [of w w] by (auto simp: writeRendered_def split: sum.splits)

lemma writeRendered_step:
  "writeRendered p f cfg w = (r, w') \<Longrightarrow> w_units w' = w_units w \<and>
     (if r = None then \<exists>b. f cfg = Inr b \<and> w_fs w' = (w_fs w)(p \<mapsto> \<lparr>f_body = b, f_mode = 420\<rparr>) else w_fs w' = w_fs w)"
  using writeBytesAtomic_step [of p _ 420 w r w'] by (auto simp: writeRendered_def split: sum.splits)

lemma snapshotPath_ok: "snapshotPath p w = (r, w') \<Longrightarrow> same_host w w' \<and> (\<forall>x. r = Inr x \<longrightarrow> x = snapshot_of (w_fs w p))"
  by (auto simp: snapshotPath_def snapshot_of_def same_host_def split: prod.splits option.splits dest!: sys_same)

lemma snapshotCurrent_ok:
  assumes "snapshotCurrent s w = (r, w')"
  shows "same_host w w'" "r = Inr prev \<Longrightarrow> prev = bundle_of s (w_fs w)"
  using assms unfolding snapshotCurrent_def bundle_of_def
  by (auto simp: same_host_def split: prod.splits sum.splits dest!: snapshotPath_ok)

lemma render_frame:
  assumes "render rn s cfg w = (r, w')"
  shows "w_units w' = w_units w" "p \<notin> managed s \<Longrightarrow> w_fs w' p = w_fs w p"
  using assms unfolding render_def managed_def
  by (auto split: prod.splits option.splits dest!: writeRendered_step)

definition rendered_files :: "'cfg renderers \<Rightarrow> 'cfg Systemd \<Rightarrow> 'cfg \<Rightarrow> (string \<Rightarrow> hostfile option) \<Rightarrow> bool" where
  "rendered_files rn s cfg fs =
     (\<exists>a b c. rn_dnsdist rn cfg = Inr a \<and> rn_mihomo rn cfg = Inr b \<and> rn_sniproxy rn cfg = Inr c \<and>
        fs (sd_DnsdistPath s) = Some \<lparr>f_body = a, f_mode = 420\<rparr> \<and>
        fs (sd_MihomoPath s) = Some \<lparr>f_body = b, f_mode = 420\<rparr> \<and>
        fs (sd_SniproxyPath s) = Some \<lparr>f_body = c, f_mode = 420\<rparr>)"

definition distinct_paths :: "'cfg Systemd \<Rightarrow> bool" where
  "distinct_paths s = distinct [sd_DnsdistPath s, sd_MihomoPath s, sd_SniproxyPath s]"

lemma render_ok:
  assumes "render rn s cfg w = (None, w')" "distinct_paths s"
  shows "rendered_files rn s cfg (w_fs w')"
  using assms unfolding render_def rendered_files_def distinct_paths_def
  by (auto split: prod.splits option.splits dest!: writeRendered_step)

lemma restore_file_ok:
  assumes "restore_file p (snapshot_of (old p)) w = (r, w')"
  shows "w_units w' = w_units w" "q \<noteq> p \<Longrightarrow> w_fs w' q = w_fs w q"
    "r = None \<Longrightarrow> w_fs w' p = map_option (\<lambda>f. if f_mode f = 0 then f\<lparr>f_mode := 420\<rparr> else f) (old p)"
    "r \<noteq> None \<Longrightarrow> w_fs w' = w_fs w"
  using assms
  by (auto simp: restore_file_def snapshot_of_def Let_def same_host_def split: option.splits if_splits prod.splits
      dest!: writeBytesAtomic_step sys_same)

lemma restore_file_beside: "restore_file p f w = (r, w') \<Longrightarrow> beside {p} w w'"
  using writeBytesAtomic_effect [of p "sf_body f"]
  by (auto simp: restore_file_def Let_def same_host_def beside_def split: if_splits prod.splits option.splits dest!: sys_same)

lemma errors_Join_None: "errors_Join es = None \<longleftrightarrow> list_all (\<lambda>e. e = None) es"
  by (induction es) (auto simp: errors_Join_def Let_def map_filter_simps split: option.splits if_splits)

lemma restore_frame:
  assumes "restore s (bundle_of s fs0) w = (r, w')"
  shows "w_units w' = w_units w" "p \<notin> managed s \<Longrightarrow> w_fs w' p = w_fs w p"
    "r = None \<Longrightarrow> w_fs w' = restored s fs0 (w_fs w)"
proof -
  obtain e1 w1 where 1: "restore_file (sd_DnsdistPath s) (snapshot_of (fs0 (sd_DnsdistPath s))) w = (e1, w1)" by fastforce
  obtain e2 w2 where 2: "restore_file (sd_MihomoPath s) (snapshot_of (fs0 (sd_MihomoPath s))) w1 = (e2, w2)" by fastforce
  obtain e3 w3 where 3: "restore_file (sd_SniproxyPath s) (snapshot_of (fs0 (sd_SniproxyPath s))) w2 = (e3, w3)" by fastforce
  have r: "r = errors_Join [e1, e2, e3]" "w' = w3"
    using assms 1 2 3 by (simp_all add: restore_def bundle_of_def)
  note f1 = restore_file_ok [where old = fs0, OF 1] and f2 = restore_file_ok [where old = fs0, OF 2] and f3 = restore_file_ok [where old = fs0, OF 3]
  show "w_units w' = w_units w" using f1(1) f2(1) f3(1) r by simp
  show "p \<notin> managed s \<Longrightarrow> w_fs w' p = w_fs w p" using f1(2) f2(2) f3(2) r by (simp add: managed_def)
  assume "r = None"
  then have n: "e1 = None" "e2 = None" "e3 = None" using r by (simp_all add: errors_Join_None)
  show "w_fs w' = restored s fs0 (w_fs w)"
  proof
    fix q
    show "w_fs w' q = restored s fs0 (w_fs w) q"
      unfolding r(2) restored_def managed_def
      using f1(2,3) f2(2,3) f3(2,3) n
      by (cases "q = sd_SniproxyPath s"; cases "q = sd_MihomoPath s"; cases "q = sd_DnsdistPath s") simp_all
  qed
qed

lemma runSystemctl_step:
  "runSystemctl v u w = (r, w') \<Longrightarrow> w_fs w' = w_fs w \<and>
     w_units w' = (if r = None then (w_units w)(u \<mapsto> w_fs w) else w_units w)"
  by (auto simp: runSystemctl_def same_host_def split: prod.splits option.splits dest!: sys_same)

definition units_loaded :: "(string \<Rightarrow> (string \<Rightarrow> hostfile option) option) \<Rightarrow> (string \<Rightarrow> hostfile option) \<Rightarrow> bool" where
  "units_loaded us fs = (us ''dnsdist'' = Some fs \<and> us ''mihomo'' = Some fs \<and> us ''sniproxy'' = Some fs)"

lemma reloadUnits_step:
  "reloadUnits w = (r, w') \<Longrightarrow> w_fs w' = w_fs w \<and> (r = None \<longrightarrow> units_loaded (w_units w') (w_fs w))"
  by (auto simp: reloadUnits_def units_loaded_def split: prod.splits option.splits dest!: runSystemctl_step)

lemma restoreAndReload_step:
  assumes "restoreAndReload s (bundle_of s fs0) w = (r, w')"
  shows "p \<notin> managed s \<Longrightarrow> w_fs w' p = w_fs w p"
    "r = None \<Longrightarrow> w_fs w' = restored s fs0 (w_fs w) \<and> units_loaded (w_units w') (w_fs w')"
proof -
  obtain e1 w1 where 1: "restore s (bundle_of s fs0) w = (e1, w1)" by fastforce
  obtain e2 w2 where 2: "reloadUnits w1 = (e2, w2)" by fastforce
  have r: "r = errors_Join [map_option (\<lambda>e. ''restore previous configs: '' @ e) e1, map_option (\<lambda>e. ''reload previous configs: '' @ e) e2]" "w' = w2"
    using assms 1 2 by (simp_all add: restoreAndReload_def)
  show "p \<notin> managed s \<Longrightarrow> w_fs w' p = w_fs w p" using restore_frame(2) [OF 1] reloadUnits_step [OF 2] r by simp
  assume "r = None"
  then have "e1 = None" "e2 = None" using r(1) by (simp_all add: errors_Join_None)
  then show "w_fs w' = restored s fs0 (w_fs w) \<and> units_loaded (w_units w') (w_fs w')"
    using restore_frame(3) [OF 1] reloadUnits_step [OF 2] r by simp
qed

lemma restored_frame: "(\<And>p. p \<notin> managed s \<Longrightarrow> fs p = fs' p) \<Longrightarrow> restored s fs0 fs = restored s fs0 fs'"
  by (auto simp: restored_def)

definition commit_failed :: "('cfg, 's) commit_fun \<Rightarrow> 'cfg ApplyRequest \<Rightarrow> 's \<Rightarrow> 's \<Rightarrow> bool" where
  "commit_failed commit req st st' = (rq_Commit req \<and> fst (commit req st) \<noteq> None \<and> st' = snd (commit req st))"

definition commit_done :: "('cfg, 's) commit_fun \<Rightarrow> 'cfg ApplyRequest \<Rightarrow> 's \<Rightarrow> 's \<Rightarrow> bool" where
  "commit_done commit req st st' = (if rq_Commit req then fst (commit req st) = None \<and> st' = snd (commit req st) else st' = st)"

lemma commitOrRestore_step:
  assumes "commitOrRestore commit s req (bundle_of s fs0) w st = ((rb, e), w', st')"
  shows "p \<notin> managed s \<Longrightarrow> w_fs w' p = w_fs w p"
    "e = None \<Longrightarrow> w' = w \<and> \<not> rb \<and> commit_done commit req st st'"
    "e \<noteq> None \<Longrightarrow> commit_failed commit req st st'"
    "rb \<Longrightarrow> e \<noteq> None \<and> w_fs w' = restored s fs0 (w_fs w) \<and> units_loaded (w_units w') (w_fs w')"
proof -
  obtain c st1 where c: "commit req st = (c, st1)" by fastforce
  obtain re w1 where re: "restoreAndReload s (bundle_of s fs0) w = (re, w1)" by fastforce
  note step = restoreAndReload_step [OF re]
  show "p \<notin> managed s \<Longrightarrow> w_fs w' p = w_fs w p"
    "e = None \<Longrightarrow> w' = w \<and> \<not> rb \<and> commit_done commit req st st'"
    "e \<noteq> None \<Longrightarrow> commit_failed commit req st st'"
    "rb \<Longrightarrow> e \<noteq> None \<and> w_fs w' = restored s fs0 (w_fs w) \<and> units_loaded (w_units w') (w_fs w')"
    using assms c re step
    by (auto simp: commitOrRestore_def commit_done_def commit_failed_def Let_def split: if_splits option.splits)
qed

lemma failedApplyResult_cases:
  "failedApplyResult e re = (res, err) \<Longrightarrow> ar_Health res = ''failed'' \<and> (ar_RolledBack res \<longleftrightarrow> re = None)"
  by (auto simp: failedApplyResult_def Let_def split: option.splits)

lemma render_beside:
  assumes "render rn s cfg w = (r, w')"
  shows "beside (managed s) w w' \<and> (r = None \<longrightarrow> w_temps w' = w_temps w)"
proof -
  have m: "beside {p} w w' \<Longrightarrow> p \<in> managed s \<Longrightarrow> beside (managed s) w w'" for p w w'
    using beside_mono by blast
  obtain e1 w1 where 1: "writeRendered (sd_DnsdistPath s) (rn_dnsdist rn) cfg w = (e1, w1)" by fastforce
  obtain e2 w2 where 2: "writeRendered (sd_MihomoPath s) (rn_mihomo rn) cfg w1 = (e2, w2)" by fastforce
  obtain e3 w3 where 3: "writeRendered (sd_SniproxyPath s) (rn_sniproxy rn) cfg w2 = (e3, w3)" by fastforce
  have b: "beside (managed s) w w1" "beside (managed s) w1 w2" "beside (managed s) w2 w3"
    using writeRendered_beside [OF 1] writeRendered_beside [OF 2] writeRendered_beside [OF 3] m by (auto simp: managed_def)
  have "beside (managed s) w w2" "beside (managed s) w w3" using b beside_trans by blast+
  then show ?thesis
    using assms b 1 2 3 writeRendered_beside [OF 1] writeRendered_beside [OF 2] writeRendered_beside [OF 3]
    by (cases e1; cases e2; cases e3) (auto simp: render_def)
qed

lemma restore_beside:
  assumes "restore s prev w = (r, w')"
  shows "beside (managed s) w w'"
proof -
  obtain e1 w1 where 1: "restore_file (sd_DnsdistPath s) (sb_dnsdist prev) w = (e1, w1)" by fastforce
  obtain e2 w2 where 2: "restore_file (sd_MihomoPath s) (sb_mihomo prev) w1 = (e2, w2)" by fastforce
  obtain e3 w3 where 3: "restore_file (sd_SniproxyPath s) (sb_sniproxy prev) w2 = (e3, w3)" by fastforce
  have "beside (managed s) w w1" "beside (managed s) w1 w2" "beside (managed s) w2 w3"
    using restore_file_beside [OF 1] restore_file_beside [OF 2] restore_file_beside [OF 3] beside_mono by (auto simp: managed_def)
  then have "beside (managed s) w w3" using beside_trans by blast
  then show ?thesis using assms 1 2 3 by (simp add: restore_def)
qed

lemma reloadUnits_beside: "reloadUnits w = (r, w') \<Longrightarrow> w_dirs w' = w_dirs w \<and> w_temps w' = w_temps w"
  by (auto simp: reloadUnits_def runSystemctl_def same_host_def split: prod.splits option.splits dest!: sys_same)

lemma restoreAndReload_beside: "restoreAndReload s prev w = (r, w') \<Longrightarrow> beside (managed s) w w'"
  by (auto simp: restoreAndReload_def split: prod.splits dest!: restore_beside reloadUnits_beside) (simp add: beside_def)

lemma commitOrRestore_beside: "commitOrRestore commit s req prev w st = (r, w', st') \<Longrightarrow> beside (managed s) w w'"
  using same_host_beside [OF same_host_refl, of "managed s" w]
  by (auto simp: commitOrRestore_def Let_def split: if_splits prod.splits option.splits dest: restoreAndReload_beside)

lemma Apply_beside:
  assumes run: "Systemd_Apply rn commit req (s, w, st) = ((res, err), s', w', st')"
  shows "beside (managed s) w w' \<and> (err = None \<longrightarrow> w_temps w' = w_temps w)"
proof -
  note refl = same_host_beside [OF same_host_refl, of "managed s"]
  obtain r1 w1 where 1: "snapshotCurrent s w = (r1, w1)" by fastforce
  have h1: "same_host w w1" by (rule snapshotCurrent_ok(1) [OF 1])
  note b1 = same_host_beside [OF h1, of "managed s"]
  show ?thesis
  proof (cases "rq_Config req = None \<or> sd_applyMu s \<or> (\<exists>e. r1 = Inl e)")
    case True
    then show ?thesis using run 1 b1 refl [of w] by (auto simp: Systemd_Apply_def split: option.splits if_splits)
  next
    case False
    then obtain cfg prev where c: "rq_Config req = Some cfg" "\<not> sd_applyMu s" "r1 = Inr prev" by (cases r1) auto
    obtain e2 w2 where 2: "render rn s cfg w1 = (e2, w2)" by fastforce
    note b2 = render_beside [OF 2]
    have w2: "beside (managed s) w w2" using b1 b2 beside_trans by blast
    show ?thesis
    proof (cases e2)
      case (Some e)
      obtain re w3 where 3: "restore s prev w2 = (re, w3)" by fastforce
      then show ?thesis using run 1 c 2 Some restore_beside [OF 3] beside_trans [OF w2]
        by (auto simp: Systemd_Apply_def split: prod.splits)
    next
      case None
      note r2 = 2 [unfolded None]
      obtain e3 w3 where 3: "reloadUnits w2 = (e3, w3)" by fastforce
      have w3: "beside (managed s) w w3" "w_temps w3 = w_temps w"
        using w2 reloadUnits_beside [OF 3] b2 None h1 by (simp_all add: beside_def same_host_def)
      show ?thesis
      proof (cases e3)
        case (Some e)
        obtain re w4 where 4: "restoreAndReload s prev w3 = (re, w4)" by fastforce
        then show ?thesis using run 1 c r2 3 Some restoreAndReload_beside [OF 4] beside_trans [OF w3(1)]
          by (auto simp: Systemd_Apply_def split: prod.splits)
      next
        case None
        note r3 = 3 [unfolded None]
        obtain rb e w4 st4 where 4: "commitOrRestore commit s req prev w3 st = ((rb, e), w4, st4)" by (metis prod.exhaust)
        have p: "prev = bundle_of s (w_fs w)" using snapshotCurrent_ok(2) [OF 1 c(3)] .
        have "beside (managed s) w w4" using commitOrRestore_beside [OF 4] beside_trans [OF w3(1)] by blast
        moreover have "e = None \<longrightarrow> w4 = w3" using commitOrRestore_step(2) [OF 4 [unfolded p]] by blast
        ultimately show ?thesis using run 1 c r2 r3 4 w3
          by (cases e; cases "sd_HealthCheck s") (auto simp: Systemd_Apply_def)
      qed
    qed
  qed
qed

lemma Apply_outcome:
  assumes "Systemd_Apply rn commit req (s, w, st) = ((res, err), s', w', st')" "rq_Config req = Some cfg" "\<not> sd_applyMu s"
  obtains (snapshot_failed) "err \<noteq> None" "\<not> ar_RolledBack res" "s' = s" "same_host w w'" "st' = st"
  | (undone) "err \<noteq> None" "ar_Health res = ''failed''" "s' = s" "st' = st \<or> commit_failed commit req st st'"
      "\<And>p. p \<notin> managed s \<Longrightarrow> w_fs w' p = w_fs w p"
      "ar_RolledBack res \<Longrightarrow> w_fs w' = restored s (w_fs w) (w_fs w)"
  | (finished) "err = None" "res = \<lparr>ar_RolledBack = False, ar_Health = ''ok'', ar_Reason = []\<rparr>" "s' = s\<lparr>sd_Config := Some cfg\<rparr>"
      "commit_done commit req st st'" "distinct_paths s \<Longrightarrow> rendered_files rn s cfg (w_fs w')"
      "units_loaded (w_units w') (w_fs w')" "\<And>p. p \<notin> managed s \<Longrightarrow> w_fs w' p = w_fs w p"
  | (watching) "err = None" "res = \<lparr>ar_RolledBack = False, ar_Health = ''observing'', ar_Reason = []\<rparr>"
      "s' = s\<lparr>sd_applyMu := True, sd_observing := Some (req, bundle_of s (w_fs w))\<rparr>"
      "st' = st" "distinct_paths s \<Longrightarrow> rendered_files rn s cfg (w_fs w')"
      "units_loaded (w_units w') (w_fs w')" "\<And>p. p \<notin> managed s \<Longrightarrow> w_fs w' p = w_fs w p"
proof -
  obtain r1 w1 where 1: "snapshotCurrent s w = (r1, w1)" by fastforce
  note h1 = snapshotCurrent_ok [OF 1]
  show thesis
  proof (cases r1)
    case (Inl e)
    then show ?thesis using assms 1 h1(1) by (intro snapshot_failed) (auto simp: Systemd_Apply_def)
  next
    case (Inr prev)
    then have prev: "prev = bundle_of s (w_fs w)" using h1(2) by simp
    have fs1: "w_fs w1 = w_fs w" using h1(1) by (simp add: same_host_def)
    obtain e2 w2 where 2: "render rn s cfg w1 = (e2, w2)" by fastforce
    note f2 = render_frame(2) [OF 2]
    show ?thesis
    proof (cases e2)
      case (Some e)
      obtain re w3 where 3: "restore s (bundle_of s (w_fs w)) w2 = (re, w3)" by fastforce
      obtain res0 err0 where f: "failedApplyResult e (map_option (\<lambda>r. ''restore after render failure: '' @ r) re) = (res0, err0)" by fastforce
      have eq: "res = res0" "err = Some (OrchErr err0)" "s' = s" "w' = w3" "st' = st"
        using assms 1 Inr prev 2 Some 3 f by (auto simp: Systemd_Apply_def)
      show ?thesis
      proof (rule undone)
        show "ar_RolledBack res \<Longrightarrow> w_fs w' = restored s (w_fs w) (w_fs w)"
          using failedApplyResult_cases [OF f] restore_frame(3) [OF 3] restored_frame [of s "w_fs w2" "w_fs w"] f2 fs1 eq by simp
      qed (use eq failedApplyResult_cases [OF f] restore_frame(2) [OF 3] f2 fs1 in auto)
    next
      case None
      note r2 = 2 [unfolded None]
      obtain e3 w3 where 3: "reloadUnits w2 = (e3, w3)" by fastforce
      note h3 = reloadUnits_step [OF 3]
      show ?thesis
      proof (cases e3)
        case (Some e)
        obtain re w4 where 4: "restoreAndReload s (bundle_of s (w_fs w)) w3 = (re, w4)" by fastforce
        obtain res0 err0 where f: "failedApplyResult e re = (res0, err0)" by fastforce
        have eq: "res = res0" "err = Some (OrchErr err0)" "s' = s" "w' = w4" "st' = st"
          using assms 1 Inr prev r2 3 Some 4 f by (auto simp: Systemd_Apply_def)
        show ?thesis
        proof (rule undone)
          show "ar_RolledBack res \<Longrightarrow> w_fs w' = restored s (w_fs w) (w_fs w)"
            using failedApplyResult_cases [OF f] restoreAndReload_step(2) [OF 4] restored_frame [of s "w_fs w3" "w_fs w"] f2 fs1 h3 eq by simp
        qed (use eq failedApplyResult_cases [OF f] restoreAndReload_step(1) [OF 4] f2 fs1 h3 in auto)
      next
        case None
        note r3 = 3 [unfolded None]
        have u: "units_loaded (w_units w3) (w_fs w3)" "distinct_paths s \<Longrightarrow> rendered_files rn s cfg (w_fs w3)"
          "\<And>p. p \<notin> managed s \<Longrightarrow> w_fs w3 p = w_fs w p"
          using h3 None render_ok [OF r2] f2 fs1 by auto
        show ?thesis
        proof (cases "sd_HealthCheck s")
          case True
          then show ?thesis using assms 1 Inr prev r2 r3 u
            by (intro watching) (auto simp: Systemd_Apply_def)
        next
          case False
          obtain rb e w4 st4 where 4: "commitOrRestore commit s req (bundle_of s (w_fs w)) w3 st = ((rb, e), w4, st4)"
            by (metis prod.exhaust)
          note c = commitOrRestore_step [OF 4]
          show ?thesis
          proof (cases e)
            case None
            then show ?thesis using assms 1 Inr prev r2 r3 u False 4 c(2)
              by (intro finished) (auto simp: Systemd_Apply_def)
          next
            case (Some x)
            have eq: "res = \<lparr>ar_RolledBack = rb, ar_Health = ''failed'', ar_Reason = x\<rparr>" "err = Some (OrchErr x)" "s' = s" "w' = w4" "st' = st4"
              using assms 1 Inr prev r2 r3 False 4 Some by (auto simp: Systemd_Apply_def)
            show ?thesis
            proof (rule undone)
              show "ar_RolledBack res \<Longrightarrow> w_fs w' = restored s (w_fs w) (w_fs w)"
                using c(4) restored_frame [of s "w_fs w3" "w_fs w"] u(3) eq by simp
            qed (use eq c(1,3) Some u(3) in auto)
          qed
        qed
      qed
    qed
  qed
qed

lemma probe_outcome:
  assumes "probe_and_commit commit req (bundle_of s fs0) (s, w, st) = (res, s', w', st')"
  obtains (healthy) "res = \<lparr>ar_RolledBack = False, ar_Health = ''ok'', ar_Reason = []\<rparr>" "s' = s\<lparr>sd_Config := rq_Config req\<rparr>"
      "same_host w w'" "commit_done commit req st st'"
  | (undone) "ar_Health res = ''failed''" "s' = s" "st' = st \<or> commit_failed commit req st st'"
      "\<And>p. p \<notin> managed s \<Longrightarrow> w_fs w' p = w_fs w p"
      "ar_RolledBack res \<Longrightarrow> w_fs w' = restored s fs0 (w_fs w) \<and> units_loaded (w_units w') (w_fs w')"
proof -
  obtain e w1 where 1: "sys w = (e, w1)" by fastforce
  note h1 = sys_same [OF 1]
  show thesis
  proof (cases e)
    case (Some x)
    obtain re w2 where 2: "restoreAndReload s (bundle_of s fs0) w1 = (re, w2)" by fastforce
    obtain res0 err0 where f: "failedApplyResult x re = (res0, err0)" by fastforce
    have eq: "res = res0" "s' = s" "w' = w2" "st' = st" using assms 1 Some 2 f by (auto simp: probe_and_commit_def)
    show ?thesis
      by (rule undone) (use eq failedApplyResult_cases [OF f] restoreAndReload_step [OF 2] h1 in \<open>auto simp: same_host_def\<close>)
  next
    case ok: None
    obtain rb c w2 st2 where 2: "commitOrRestore commit s req (bundle_of s fs0) w1 st = ((rb, c), w2, st2)" by (metis prod.exhaust)
    note cs = commitOrRestore_step [OF 2]
    show ?thesis
    proof (cases c)
      case None
      then show ?thesis using assms 1 ok 2 cs(2) h1 by (intro healthy) (auto simp: probe_and_commit_def)
    next
      case (Some x)
      have eq: "res = \<lparr>ar_RolledBack = rb, ar_Health = ''failed'', ar_Reason = x\<rparr>" "s' = s" "w' = w2" "st' = st2"
        using assms 1 ok 2 Some by (auto simp: probe_and_commit_def)
      show ?thesis by (rule undone) (use eq cs(1,3,4) Some h1 in \<open>auto simp: same_host_def\<close>)
    qed
  qed
qed

section \<open>Properties\<close>

text \<open>(C11) \<open>Systemd.Apply\<close> reports what it did, whichever system call or systemctl run fails: a result
  marked rolled back means every managed file is back as it was before the call; success means the
  three files hold the rendering of the requested configuration and all three units have loaded them; an
  error means the control plane was not advanced and the orchestrator is unlocked and unchanged; \<open>ok\<close>
  means the commit callback ran and succeeded, \<open>observing\<close> that it has not run.  Besides the three files it leaves
  nothing but missing directories on the way to them, and after an error temporary files next to them whose removal
  failed too.\<close>

theorem systemd_apply_truthful:
  assumes "Systemd_Apply rn commit req (s, w, st) = ((res, err), s', w', st')" "rq_Config req = Some cfg"
    "\<not> sd_applyMu s" "distinct_paths s"
  shows "(ar_RolledBack res \<longrightarrow> err \<noteq> None \<and> w_fs w' = restored s (w_fs w) (w_fs w)) \<and>
    (err = None \<longrightarrow> rendered_files rn s cfg (w_fs w') \<and> units_loaded (w_units w') (w_fs w') \<and>
       (ar_Health res = ''ok'' \<and> commit_done commit req st st' \<or> ar_Health res = ''observing'' \<and> st' = st \<and> sd_applyMu s')) \<and>
    (err \<noteq> None \<longrightarrow> s' = s \<and> (st' = st \<or> commit_failed commit req st st')) \<and>
    (\<forall>p. p \<notin> managed s \<longrightarrow> w_fs w' p = w_fs w p) \<and>
    beside (managed s) w w' \<and> (err = None \<longrightarrow> w_temps w' = w_temps w)"
  using assms(1-3)
proof (cases rule: Apply_outcome)
  case snapshot_failed
  then show ?thesis using Apply_beside [OF assms(1)] by (auto simp: same_host_def)
next
  case undone
  then show ?thesis using Apply_beside [OF assms(1)] by auto
next
  case finished
  then show ?thesis using assms(4) Apply_beside [OF assms(1)] by auto
next
  case watching
  then show ?thesis using assms(4) Apply_beside [OF assms(1)] by auto
qed

lemmas write_eval = remove_temp_def MkdirAll_def ancestors_def filepath_Dir_def

definition sample_systemd :: "nat Systemd" where
  "sample_systemd = \<lparr>sd_DnsdistPath = ''/etc/dnsdist/dnsdist.conf'', sd_MihomoPath = ''/etc/mihomo/config.yaml'',
     sd_SniproxyPath = ''/etc/sniproxy.conf'', sd_HealthCheck = True, sd_Config = None, sd_applyMu = False, sd_observing = None\<rparr>"

definition sample_renderers :: "nat renderers" where
  "sample_renderers = \<lparr>rn_dnsdist = \<lambda>n. Inr (replicate n CHR ''d''), rn_mihomo = \<lambda>n. Inr (replicate n CHR ''m''),
     rn_sniproxy = \<lambda>n. Inr (replicate n CHR ''s'')\<rparr>"

definition sample_request :: "nat ApplyRequest" where
  "sample_request = \<lparr>rq_SnapshotID = 1, rq_RuleVersionID = 1, rq_Config = Some 2, rq_PrevSnapshot = 0, rq_Commit = True\<rparr>"

definition sample_world :: "string option list \<Rightarrow> world" where
  "sample_world faults = \<lparr>w_fs = [''/etc/sniproxy.conf'' \<mapsto> \<lparr>f_body = ''old'', f_mode = 384\<rparr>], w_dirs = [''/'', ''/etc'', ''/etc/dnsdist'', ''/etc/mihomo''],
     w_temps = [], w_units = Map.empty, w_faults = faults\<rparr>"

text \<open>A run whose reload of the first unit fails: four calls snapshot the files, eighteen write the new
  ones, the next is the reload.\<close>

theorem systemd_apply_truthful_witness:
  "\<exists>res err s' w' st'. Systemd_Apply sample_renderers (\<lambda>_ n. (None, Suc n)) sample_request
     (sample_systemd, sample_world (replicate 22 None @ [Some ''exit status 1'']), 0::nat) = ((res, err), s', w', st') \<and>
     ar_RolledBack res \<and> err \<noteq> None \<and> st' = 0 \<and> w_fs w' = restored sample_systemd (w_fs (sample_world [])) (w_fs (sample_world []))"
proof -
  let ?x = "Systemd_Apply sample_renderers (\<lambda>_ n. (None, Suc n)) sample_request
     (sample_systemd, sample_world (replicate 22 None @ [Some ''exit status 1'']), 0::nat)"
  obtain res err s' w' st' where eq: "?x = ((res, err), s', w', st')" by (metis prod.exhaust)
  have "ar_RolledBack (fst (fst ?x)) \<and> snd (snd (snd ?x)) = 0"
    by (simp add: Systemd_Apply_def sample_request_def sample_systemd_def sample_world_def sample_renderers_def
        snapshotCurrent_def snapshotPath_def sys_def render_def writeRendered_def writeBytesAtomic_def write_eval
        reloadUnits_def runSystemctl_def restoreAndReload_def restore_def restore_file_def errors_Join_def
        failedApplyResult_def numeral_eq_Suc map_filter_simps Let_def)
  then show ?thesis using eq systemd_apply_truthful [OF eq, of 2]
    by (simp add: sample_request_def sample_systemd_def distinct_paths_def sample_world_def)
qed

text \<open>The health phase ends in one of three honest states: \<open>ok\<close> with the new files in place and the
  control plane committed; rolled back with every managed file as it was before the apply, the units
  reloaded on them and the control plane not advanced; or a failure that is not reported as rolled back,
  again without an advanced control plane.\<close>

theorem health_phase_trichotomy:
  assumes "Systemd_Apply rn commit req (s, w, st) = ((res, None), s1, w1, st1)" "ar_Health res = ''observing''"
    "rq_Config req = Some cfg" "\<not> sd_applyMu s" "distinct_paths s"
    "sd_observing s1 = Some (req, prev)"
    "probe_and_commit commit req prev (s1, w1, st1) = (res2, s2, w2, st2)"
  shows "(ar_Health res2 = ''ok'' \<and> \<not> ar_RolledBack res2 \<and> rendered_files rn s cfg (w_fs w2) \<and> units_loaded (w_units w2) (w_fs w2) \<and>
       commit_done commit req st st2 \<and> sd_Config s2 = Some cfg) \<or>
    (ar_Health res2 = ''failed'' \<and> ar_RolledBack res2 \<and> w_fs w2 = restored s (w_fs w) (w_fs w) \<and>
       units_loaded (w_units w2) (w_fs w2) \<and> (st2 = st \<or> commit_failed commit req st st2)) \<or>
    (ar_Health res2 = ''failed'' \<and> \<not> ar_RolledBack res2 \<and> (st2 = st \<or> commit_failed commit req st st2))"
  using assms(1,3,4)
proof (cases rule: Apply_outcome)
  case watching
  have s1: "s1 = s\<lparr>sd_applyMu := True, sd_observing := Some (req, bundle_of s (w_fs w))\<rparr>" "st1 = st"
    and prev: "prev = bundle_of s (w_fs w)"
    using watching assms(6) by auto
  have "bundle_of s (w_fs w) = bundle_of s1 (w_fs w)" "managed s1 = managed s"
    "restored s1 (w_fs w) fs = restored s (w_fs w) fs" for fs
    by (auto simp: s1 bundle_of_def managed_def restored_def)
  note m = this
  have p: "probe_and_commit commit req (bundle_of s1 (w_fs w)) (s1, w1, st1) = (res2, s2, w2, st2)"
    using assms(7) prev m(1) by simp
  from p show ?thesis
  proof (cases rule: probe_outcome)
    case healthy
    then show ?thesis using watching assms(3,5) s1(2) by (auto simp: same_host_def)
  next
    case undone
    have "restored s (w_fs w) (w_fs w1) = restored s (w_fs w) (w_fs w)" using watching(7) by (intro restored_frame) auto
    then show ?thesis using undone s1(2) m by (cases "ar_RolledBack res2") auto
  qed
qed (use assms(2) in auto)

theorem health_phase_trichotomy_witness:
  "\<exists>res2 s2 w2 st2. (\<exists>res s1 w1 st1 prev. Systemd_Apply sample_renderers (\<lambda>_ n. (None, Suc n)) sample_request
       (sample_systemd, sample_world [], 0::nat) = ((res, None), s1, w1, st1) \<and>
     probe_and_commit (\<lambda>_ n. (None, Suc n)) sample_request prev (s1, w1, st1) = (res2, s2, w2, st2)) \<and>
     ar_Health res2 = ''ok'' \<and> rendered_files sample_renderers sample_systemd 2 (w_fs w2) \<and> st2 = 1"
proof -
  let ?c = "(\<lambda>_ n. (None, Suc n)) :: (nat, nat) commit_fun"
  let ?x = "Systemd_Apply sample_renderers ?c sample_request (sample_systemd, sample_world [], 0::nat)"
  obtain res err s1 w1 st1 where eq: "?x = ((res, err), s1, w1, st1)" by (metis prod.exhaust)
  have a: "err = None" "ar_Health res = ''observing''" "w_faults w1 = []"
    using eq by (auto simp: Systemd_Apply_def sample_request_def sample_systemd_def sample_world_def sample_renderers_def
        snapshotCurrent_def snapshotPath_def sys_def render_def writeRendered_def writeBytesAtomic_def write_eval
        reloadUnits_def runSystemctl_def numeral_eq_Suc Let_def)
  have c: "rq_Config sample_request = Some 2" "\<not> sd_applyMu sample_systemd" "distinct_paths sample_systemd"
    by (simp_all add: sample_request_def sample_systemd_def distinct_paths_def)
  have "\<exists>prev. sd_observing s1 = Some (sample_request, prev)" using eq c(1,2)
    by (cases rule: Apply_outcome) (use a(1,2) in auto)
  then obtain prev where prev: "sd_observing s1 = Some (sample_request, prev)" by blast
  obtain res2 s2 w2 st2 where p: "probe_and_commit ?c sample_request prev (s1, w1, st1) = (res2, s2, w2, st2)"
    by (metis prod.exhaust)
  have ok: "ar_Health res2 = ''ok''"
    using p a(3) by (auto simp: probe_and_commit_def sys_def commitOrRestore_def sample_request_def)
  note h = health_phase_trichotomy [OF eq [unfolded a(1)] a(2) c prev p]
  show ?thesis using h ok eq a(1) p by (auto simp: commit_done_def sample_request_def)
qed

text \<open>Applies exclude each other: while an apply is in its life cycle, up to the end of its health
  observation, every other \<open>Apply\<close> and \<open>Rollback\<close> is refused with \<open>ErrApplyInFlight\<close> and changes
  neither files nor units nor the control plane.\<close>

theorem apply_mutual_exclusion:
  assumes "sd_applyMu s" "rq_Config req \<noteq> None"
  shows "Systemd_Apply rn commit req (s, w, st) =
      ((\<lparr>ar_RolledBack = False, ar_Health = [], ar_Reason = ''apply-in-flight''\<rparr>, Some ErrApplyInFlight), s, w, st) \<and>
    Systemd_Rollback rn s w = (Some ErrApplyInFlight, w)"
  using assms by (auto simp: Systemd_Apply_def Systemd_Rollback_def)

theorem apply_mutual_exclusion_witness:
  "snd (fst (Systemd_Apply sample_renderers (\<lambda>_ n. (None, Suc n)) sample_request
     (sample_systemd\<lparr>sd_applyMu := True\<rparr>, sample_world [], 0::nat))) = Some ErrApplyInFlight"
  using apply_mutual_exclusion [of "sample_systemd\<lparr>sd_applyMu := True\<rparr>" sample_request sample_renderers
      "\<lambda>_ n. (None, Suc n)" "sample_world []" 0] by (simp add: sample_request_def)

end
