(* ===== verification/Applier.thy ===== *)
theory Applier
  imports RuleTable Assemble Orchestrator
begin

text \<open>
  The variation service, \<open>internal/core/applier.go\<close>: every change of the data plane goes through
  \<open>ApplyRules\<close>, \<open>SwitchExit\<close> and the health callback \<open>OnHealth\<close>, which keep the database pointers, the
  published rule table and the recorded life cycle of each change in step with what the orchestrator did.

  The state of an \<open>Applier\<close> is the record \<open>ApplierState\<close>; each method locks \<open>mu\<close> for the short
  sections that touch it, and the model runs those sections as single steps.  The orchestrator is the
  record \<open>orch_ops\<close> of its two operations on a state of its own, with instances for \<open>Systemd\<close> and
  \<open>NoOp\<close>.  Error texts come from \<open>rule_lib\<close> and \<open>en_text\<close>.
\<close>

section \<open>State\<close>

datatype core_error =
    CoreNil string | CoreInFlight | CoreExitSwitchInFlight
  | CoreDB string db_error | CoreExit string exit_error | CoreWrongSnapshot int int int
  | CoreParse parse_error | CoreValidate rule_error | CoreAssemble assemble_error
  | CoreStale int int | CoreOrch orch_error | CoreNoInflight int | CoreText string
  | CoreJoin core_error core_error

record applyTerminalStatus =
  ts_State :: string
  ts_Reason :: string

record ruleApplyInfo =
  ri_statusID :: int
  ri_ruleVersionID :: int
  ri_priorVersionID :: int
  ri_priorSnapshotID :: int
  ri_targetTable :: RuleTable
  ri_priorTable :: RuleTable
  ri_committed :: bool

record switchInfo =
  si_statusID :: int
  si_newExitID :: string
  si_priorExitID :: string

record CoreApplyResult =
  cr_SnapshotID :: int
  cr_RuleVersionID :: int
  cr_RolledBack :: bool
  cr_Health :: string
  cr_Reason :: string

record ApplyStatusSnapshot =
  ss_ID :: int
  ss_SnapshotID :: int
  ss_State :: string
  ss_Reason :: string
  ss_CreatedAt :: int
  ss_UpdatedAt :: int

text \<open>An absent entry of \<open>protectedExits\<close> reads as 0, so the map is a function to counts.\<close>

record ApplierState =
  ap_DB :: DB
  ap_Resolver :: "Store option"
  ap_inflight :: "int \<Rightarrow> ruleApplyInfo option"
  ap_switchInflight :: "int \<Rightarrow> switchInfo option"
  ap_protectedExits :: "string \<Rightarrow> nat"
  ap_terminalStatus :: "int \<Rightarrow> applyTerminalStatus option"
  ap_terminalOrder :: "int list"
  ap_variationActive :: bool

definition applyTerminalCacheCap :: nat where "applyTerminalCacheCap = 128"

text \<open>What an \<open>Applier\<close> is wired with: the libraries, the base configuration, the optional stores.\<close>

record 'r env =
  en_sha :: "string \<Rightarrow> byte list"
  en_lib :: rule_lib
  en_parse :: uri_parser
  en_BaseConfig :: "'r Config option"
  en_Store :: "core_store option"
  en_ExitStore :: bool
  en_text :: "core_error \<Rightarrow> string"

type_synonym ('o, 'a) runs = "'o \<times> ApplierState \<Rightarrow> 'a \<times> 'o \<times> ApplierState"

record ('o, 'r) orch_ops =
  oo_Apply :: "('r Config, ApplierState) commit_fun \<Rightarrow> 'r Config ApplyRequest \<Rightarrow> ('o, ApplyResult \<times> orch_error option) runs"
  oo_Rollback :: "int \<Rightarrow> 'o \<Rightarrow> orch_error option \<times> 'o"

definition systemd_ops :: "'r Config renderers \<Rightarrow> ('r Config Systemd \<times> world, 'r) orch_ops" where
  "systemd_ops rn = \<lparr>
     oo_Apply = (\<lambda>commit req ((s, w), st). case Systemd_Apply rn commit req (s, w, st) of (r, s', w', st') \<Rightarrow> (r, (s', w'), st')),
     oo_Rollback = (\<lambda>i (s, w). case Systemd_Rollback rn s w of (r, w') \<Rightarrow> (r, (s, w')))\<rparr>"

definition noop_ops :: "(unit, 'r) orch_ops" where
  "noop_ops = \<lparr>
     oo_Apply = (\<lambda>commit req (u, st). case NoOp_Apply commit req st of (r, st') \<Rightarrow> (r, u, st')),
     oo_Rollback = (\<lambda>i u. (NoOp_Rollback, u))\<rparr>"

definition run_db :: "(DB \<Rightarrow> 'a \<times> DB) \<Rightarrow> ApplierState \<Rightarrow> 'a \<times> ApplierState" where
  "run_db m a = (case m (ap_DB a) of (r, d) \<Rightarrow> (r, a\<lparr>ap_DB := d\<rparr>))"

section \<open>Bookkeeping\<close>

definition beginVariation :: "ApplierState \<Rightarrow> bool \<times> ApplierState" where
  "beginVariation a = (if ap_variationActive a then (False, a) else (True, a\<lparr>ap_variationActive := True\<rparr>))"

definition endVariation :: "ApplierState \<Rightarrow> ApplierState" where
  "endVariation a = a\<lparr>ap_variationActive := False\<rparr>"

fun trim_terminal :: "int list \<Rightarrow> (int \<Rightarrow> applyTerminalStatus option) \<Rightarrow> int list \<times> (int \<Rightarrow> applyTerminalStatus option)" where
  "trim_terminal [] m = ([], m)"
| "trim_terminal (oldest # rest) m =
     (if length (oldest # rest) > applyTerminalCacheCap then trim_terminal rest (m(oldest := None)) else (oldest # rest, m))"

definition recordTerminalStatus :: "int \<Rightarrow> string \<Rightarrow> string \<Rightarrow> ApplierState \<Rightarrow> ApplierState" where
  "recordTerminalStatus snapshotID state reason a =
     (let order = (if ap_terminalStatus a snapshotID = None then ap_terminalOrder a @ [snapshotID] else ap_terminalOrder a);
          m = (ap_terminalStatus a)(snapshotID \<mapsto> \<lparr>ts_State = state, ts_Reason = reason\<rparr>);
          (order', m') = trim_terminal order m in
      a\<lparr>ap_terminalStatus := m', ap_terminalOrder := order'\<rparr>)"

definition clearTerminalStatus :: "int \<Rightarrow> ApplierState \<Rightarrow> ApplierState" where
  "clearTerminalStatus snapshotID a =
     (if ap_terminalStatus a snapshotID = None then a
      else a\<lparr>ap_terminalStatus := (ap_terminalStatus a)(snapshotID := None),
             ap_terminalOrder := remove1 snapshotID (ap_terminalOrder a)\<rparr>)"

definition TerminalStatus :: "int \<Rightarrow> ApplierState \<Rightarrow> applyTerminalStatus option" where
  "TerminalStatus snapshotID a = ap_terminalStatus a snapshotID"

definition persistApplyStatus :: "int \<Rightarrow> int \<Rightarrow> string \<Rightarrow> string \<Rightarrow> ApplierState \<Rightarrow> ApplierState" where
  "persistApplyStatus statusID snapshotID state reason a =
     (case run_db (UpdateApplyStatus statusID state reason) a of
        (Inl e, a) \<Rightarrow> recordTerminalStatus snapshotID state reason a
      | (Inr _, a) \<Rightarrow> clearTerminalStatus snapshotID a)"

fun protectSwitchExits :: "string list \<Rightarrow> ApplierState \<Rightarrow> ApplierState" where
  "protectSwitchExits [] a = a"
| "protectSwitchExits (x # xs) a =
     protectSwitchExits xs (if x \<noteq> [] then a\<lparr>ap_protectedExits := (ap_protectedExits a)(x := ap_protectedExits a x + 1)\<rparr> else a)"

fun unprotectSwitchExits :: "string list \<Rightarrow> ApplierState \<Rightarrow> ApplierState" where
  "unprotectSwitchExits [] a = a"
| "unprotectSwitchExits (x # xs) a =
     unprotectSwitchExits xs (if x = [] then a
       else if ap_protectedExits a x \<le> 1 then a\<lparr>ap_protectedExits := (ap_protectedExits a)(x := 0)\<rparr>
       else a\<lparr>ap_protectedExits := (ap_protectedExits a)(x := ap_protectedExits a x - 1)\<rparr>)"

definition registerInflight :: "int \<Rightarrow> ruleApplyInfo \<Rightarrow> ApplierState \<Rightarrow> ApplierState" where
  "registerInflight i info a = a\<lparr>ap_inflight := (ap_inflight a)(i \<mapsto> info)\<rparr>"

definition clearInflight :: "int \<Rightarrow> ApplierState \<Rightarrow> ApplierState" where
  "clearInflight i a = a\<lparr>ap_inflight := (ap_inflight a)(i := None)\<rparr>"

definition getInflight :: "int \<Rightarrow> ApplierState \<Rightarrow> ruleApplyInfo option" where
  "getInflight i a = ap_inflight a i"

definition registerSwitchInflight :: "int \<Rightarrow> switchInfo \<Rightarrow> ApplierState \<Rightarrow> ApplierState" where
  "registerSwitchInflight i info a = a\<lparr>ap_switchInflight := (ap_switchInflight a)(i \<mapsto> info)\<rparr>"

definition clearSwitchInflight :: "int \<Rightarrow> ApplierState \<Rightarrow> ApplierState" where
  "clearSwitchInflight i a = a\<lparr>ap_switchInflight := (ap_switchInflight a)(i := None)\<rparr>"

definition takeSwitchInflight :: "int \<Rightarrow> ApplierState \<Rightarrow> switchInfo option \<times> ApplierState" where
  "takeSwitchInflight i a = (ap_switchInflight a i, a\<lparr>ap_switchInflight := (ap_switchInflight a)(i := None)\<rparr>)"

definition audit :: "string \<Rightarrow> string \<Rightarrow> string \<Rightarrow> ApplierState \<Rightarrow> ApplierState" where
  "audit action target result a = snd (run_db (AppendAudit \<lparr>ae_Actor = [], ae_Action = action, ae_Target = target,
     ae_Before = [], ae_After = [], ae_Result = result, ae_IP = []\<rparr>) a)"

definition applyTerminalState :: "ApplyResult \<Rightarrow> string" where
  "applyTerminalState res = (if ar_RolledBack res then ''rolled_back''
     else if ar_Health res = ''failed'' then ''failed'' else ''confirmed'')"

section \<open>Commit and rollback of a rules apply\<close>

definition publish :: "RuleTable \<Rightarrow> ApplierState \<Rightarrow> ApplierState" where
  "publish t a = a\<lparr>ap_Resolver := map_option (Store_Publish (Some t)) (ap_Resolver a)\<rparr>"

definition commitRuleApply :: "int \<Rightarrow> ApplierState \<Rightarrow> core_error option \<times> ApplierState" where
  "commitRuleApply snapshotID a = (case getInflight snapshotID a of
      None \<Rightarrow> (Some (CoreNoInflight snapshotID), a)
    | Some info \<Rightarrow>
        if ri_committed info then (None, a)
        else (case run_db (SetActiveRuleVersion (ri_ruleVersionID info)) a of
            (Inl e, a) \<Rightarrow> (Some (CoreDB ''activate rule_version'' e), a)
          | (Inr _, a) \<Rightarrow>
              (None, registerInflight snapshotID (info\<lparr>ri_committed := True\<rparr>) (publish (ri_targetTable info) a))))"

definition rollbackRuleApply :: "int \<Rightarrow> ApplierState \<Rightarrow> ApplierState" where
  "rollbackRuleApply snapshotID a = (case getInflight snapshotID a of
      None \<Rightarrow> a
    | Some info \<Rightarrow>
        if \<not> ri_committed info then a
        else (case run_db (if ri_priorVersionID info = 0 then ClearActiveRuleVersion else SetActiveRuleVersion (ri_priorVersionID info)) a of
            (Inl e, a) \<Rightarrow> a
          | (Inr _, a) \<Rightarrow> registerInflight snapshotID (info\<lparr>ri_committed := False\<rparr>) (publish (ri_priorTable info) a)))"

section \<open>\<open>ApplyRules\<close>\<close>

text \<open>The reads and checks before anything is written.\<close>

definition prior_version :: "'r env \<Rightarrow> ApplierState \<Rightarrow> (core_error, int \<times> int \<times> RuleTable) result \<times> ApplierState" where
  "prior_version en a = (let lib = en_lib en; empty = BuildTable (en_sha en) [] in
     case run_db GetActiveRuleVersion a of
       (Inr prior, a) \<Rightarrow>
         (Inr (rv_ID prior, rv_SnapshotID prior,
            (case ParseYAML (rl_isdomain lib) (rl_decode lib) (rv_RulesYAML prior) of
               Inr rs \<Rightarrow> BuildTable (en_sha en) rs | Inl _ \<Rightarrow> empty)), a)
     | (Inl e, a) \<Rightarrow> if e = ErrNoRows then (Inr (0, 0, empty), a) else (Inl (CoreDB ''read prior rule_version'' e), a))"

definition prepare_rules :: "'r env \<Rightarrow> int \<Rightarrow> int \<Rightarrow> int \<Rightarrow> ApplierState \<Rightarrow>
    (core_error, 'r Config \<times> RuleTable \<times> int \<times> int \<times> RuleTable) result \<times> ApplierState" where
  "prepare_rules en snapshotID ruleVersionID prevSnapshot a = (let lib = en_lib en in
     case run_db (GetRuleVersionByID ruleVersionID) a of
       (Inl e, a) \<Rightarrow> (Inl (CoreDB ''read target rule_version'' e), a)
     | (Inr target, a) \<Rightarrow>
         if rv_SnapshotID target \<noteq> snapshotID then (Inl (CoreWrongSnapshot ruleVersionID (rv_SnapshotID target) snapshotID), a)
         else (case ParseYAML (rl_isdomain lib) (rl_decode lib) (rv_RulesYAML target) of
             Inl e \<Rightarrow> (Inl (CoreParse e), a)
           | Inr rs \<Rightarrow> (case RuleSet_Validate (rl_isdomain lib) rs of
                 Some e \<Rightarrow> (Inl (CoreValidate e), a)
               | None \<Rightarrow> (case run_db (Assemble lib (en_BaseConfig en) (en_Store en)) a of
                     (Inl e, a) \<Rightarrow> (Inl (CoreAssemble e), a)
                   | (Inr cfg, a) \<Rightarrow> (case prior_version en a of
                         (Inl e, a) \<Rightarrow> (Inl e, a)
                       | (Inr (pv, ps, pt), a) \<Rightarrow>
                           if prevSnapshot \<noteq> 0 \<and> ps \<noteq> 0 \<and> prevSnapshot \<noteq> ps then (Inl (CoreStale prevSnapshot ps), a)
                           else (Inr (cfg\<lparr>cfg_EffectiveRules := append_nil rs\<rparr>, BuildTable (en_sha en) rs, pv, ps, pt), a))))))"

definition commit_callback :: "'r env \<Rightarrow> ('r Config, ApplierState) commit_fun" where
  "commit_callback en req a = (case commitRuleApply (rq_SnapshotID req) a of (e, a) \<Rightarrow> (map_option (en_text en) e, a))"

definition zero_result :: CoreApplyResult where
  "zero_result = \<lparr>cr_SnapshotID = 0, cr_RuleVersionID = 0, cr_RolledBack = False, cr_Health = [], cr_Reason = []\<rparr>"

text \<open>What \<open>ApplyRules\<close> does with the answer of the orchestrator.  The first component of the result says
  whether the variation stays open for \<open>OnHealth\<close>.\<close>

definition conclude_rules :: "'r env \<Rightarrow> ('o, 'r) orch_ops \<Rightarrow> int \<Rightarrow> int \<Rightarrow> int \<Rightarrow> int \<Rightarrow> ApplyResult \<times> orch_error option \<Rightarrow>
    ('o, bool \<times> CoreApplyResult \<times> core_error option) runs" where
  "conclude_rules en ops statusID snapshotID ruleVersionID priorSnapshotID reply x = (case x of (o', a) \<Rightarrow> case reply of (res, appErr) \<Rightarrow>
     let result = \<lparr>cr_SnapshotID = snapshotID, cr_RuleVersionID = ruleVersionID, cr_RolledBack = ar_RolledBack res,
                   cr_Health = ar_Health res, cr_Reason = ar_Reason res\<rparr> in
     (case appErr of
        Some ErrApplyInFlight \<Rightarrow>
          ((False, result, Some (CoreOrch ErrApplyInFlight)), o',
            clearInflight snapshotID (persistApplyStatus statusID snapshotID ''rolled_back'' ''apply-in-flight'' a))
      | Some e \<Rightarrow>
          ((False, result, Some (CoreOrch e)), o',
            clearInflight snapshotID (persistApplyStatus statusID snapshotID
              (if ar_RolledBack res then ''rolled_back'' else ''failed'') (orch_error_text e) a))
      | None \<Rightarrow>
          if ar_Health res = ''observing'' then ((True, result, None), o', a)
          else
            let state = applyTerminalState res;
                finish = (\<lambda>o' a. let a = clearInflight snapshotID (persistApplyStatus statusID snapshotID state (ar_Reason res) a) in
                  if state = ''failed''
                  then ((False, result, Some (CoreText (if ar_Reason res = []
                      then ''orchestrator reported failed health without a confirmed rollback'' else ar_Reason res))), o', a)
                  else ((False, result, None), o', a)) in
            if state = ''confirmed'' then
              (case commitRuleApply snapshotID a of
                 (None, a) \<Rightarrow> finish o' a
               | (Some err, a) \<Rightarrow>
                   (case oo_Rollback ops priorSnapshotID o' of (rollbackErr, o') \<Rightarrow>
                      let state = (if rollbackErr = None then ''rolled_back'' else ''failed'');
                          finalErr = (case rollbackErr of None \<Rightarrow> err | Some re \<Rightarrow> CoreJoin err (CoreOrch re)) in
                      ((False, \<lparr>cr_SnapshotID = snapshotID, cr_RuleVersionID = ruleVersionID, cr_RolledBack = (rollbackErr = None),
                          cr_Health = ''failed'', cr_Reason = en_text en finalErr\<rparr>, Some finalErr), o',
                        clearInflight snapshotID (persistApplyStatus statusID snapshotID state (en_text en finalErr) a))))
            else finish o' a))"

definition dispatch_rules :: "'r env \<Rightarrow> ('o, 'r) orch_ops \<Rightarrow> int \<Rightarrow> int \<Rightarrow> 'r Config \<times> RuleTable \<times> int \<times> int \<times> RuleTable \<Rightarrow>
    ('o, bool \<times> CoreApplyResult \<times> core_error option) runs" where
  "dispatch_rules en ops snapshotID ruleVersionID prep x = (case x of (o', a) \<Rightarrow> case prep of (cfg, target, pv, ps, pt) \<Rightarrow>
     (case run_db (InsertApplyStatus snapshotID []) a of
        (Inl e, a) \<Rightarrow> ((False, zero_result, Some (CoreDB ''insert apply_status'' e)), o', a)
      | (Inr statusID, a) \<Rightarrow>
          let a = clearTerminalStatus snapshotID a;
              a = registerInflight snapshotID \<lparr>ri_statusID = statusID, ri_ruleVersionID = ruleVersionID, ri_priorVersionID = pv,
                    ri_priorSnapshotID = ps, ri_targetTable = target, ri_priorTable = pt, ri_committed = False\<rparr> a in
          (case oo_Apply ops (commit_callback en) \<lparr>rq_SnapshotID = snapshotID, rq_RuleVersionID = ruleVersionID, rq_Config = Some cfg,
                rq_PrevSnapshot = ps, rq_Commit = True\<rparr> (o', a) of
             (reply, o', a) \<Rightarrow> conclude_rules en ops statusID snapshotID ruleVersionID ps reply (o', a))))"

definition ApplyRules :: "'r env \<Rightarrow> ('o, 'r) orch_ops option \<Rightarrow> int \<Rightarrow> int \<Rightarrow> int \<Rightarrow> ('o, CoreApplyResult \<times> core_error option) runs" where
  "ApplyRules en orch snapshotID ruleVersionID prevSnapshot x = (case x of (o', a) \<Rightarrow>
     if en_Store en = None then ((zero_result, Some (CoreNil ''nil store'')), o', a)
     else case orch of
         None \<Rightarrow> ((zero_result, Some (CoreNil ''nil orchestrator'')), o', a)
       | Some ops \<Rightarrow> (case beginVariation a of
             (False, a) \<Rightarrow> ((zero_result, Some (CoreOrch ErrApplyInFlight)), o', a)
           | (True, a) \<Rightarrow> (case prepare_rules en snapshotID ruleVersionID prevSnapshot a of
                 (Inl e, a) \<Rightarrow> ((zero_result, Some e), o', endVariation a)
               | (Inr prep, a) \<Rightarrow> (case dispatch_rules en ops snapshotID ruleVersionID prep (o', a) of
                     ((keep, res, err), o', a) \<Rightarrow> ((res, err), o', if keep then a else endVariation a)))))"

section \<open>Exit switches\<close>

text \<open>\<open>applierExitAdapter\<close> of \<open>cmd/5gpn/main.go\<close>: no active exit is the empty id.\<close>

definition adapter_Active :: "uri_parser \<Rightarrow> DB \<Rightarrow> (exit_error, string) result \<times> DB" where
  "adapter_Active parse d = (case Store_Active parse d of
      (Inr e, d) \<Rightarrow> (Inr (e_ExitID e), d)
    | (Inl e, d) \<Rightarrow> if e = ErrNoActive then (Inr [], d) else (Inl e, d))"

definition compensateSwitch :: "'r env \<Rightarrow> string \<Rightarrow> string \<Rightarrow> string \<Rightarrow> ApplierState \<Rightarrow> (string \<times> core_error option) \<times> ApplierState" where
  "compensateSwitch en priorExitID reason terminal a =
     (let reason = (if reason = [] then ''exit switch did not reach a confirmed terminal state'' else reason);
          ((terminal, restoreErr), a) =
            (if priorExitID \<noteq> [] \<and> en_ExitStore en
             then (case run_db (Store_Switch priorExitID) a of
                 (Inl e, a) \<Rightarrow> ((''failed'', Some (CoreExit (''restore prior exit '' @ priorExitID) e)), a)
               | (Inr _, a) \<Rightarrow> ((terminal, None), a))
             else ((terminal, None), a));
          result = (case restoreErr of None \<Rightarrow> reason | Some e \<Rightarrow> en_text en (CoreJoin (CoreText reason) e)) in
      ((terminal, restoreErr), audit (''exits.switch.'' @ terminal) (''prior='' @ priorExitID) result a))"

definition joinErr :: "core_error \<Rightarrow> core_error option \<Rightarrow> core_error" where
  "joinErr e r = (case r of None \<Rightarrow> e | Some x \<Rightarrow> CoreJoin e x)"

definition audit_confirmed :: "string \<Rightarrow> string \<Rightarrow> ApplierState \<Rightarrow> ApplierState" where
  "audit_confirmed exitID priorExitID a =
     audit ''exits.switch.confirmed'' (''exit='' @ exitID @ '' prior='' @ priorExitID) ''ok'' a"

definition fail_switch :: "'r env \<Rightarrow> string \<Rightarrow> core_error \<Rightarrow> ApplierState \<Rightarrow> (bool \<times> CoreApplyResult \<times> core_error option) \<times> ApplierState" where
  "fail_switch en priorExitID primary a =
     (case compensateSwitch en priorExitID (en_text en primary) ''rolled_back'' a of
        ((_, restoreErr), a) \<Rightarrow> ((False, zero_result, Some (joinErr primary restoreErr)), a))"

definition conclude_switch :: "'r env \<Rightarrow> int \<Rightarrow> int \<Rightarrow> string \<Rightarrow> string \<Rightarrow> ApplyResult \<times> orch_error option \<Rightarrow> ApplierState \<Rightarrow>
    (bool \<times> CoreApplyResult \<times> core_error option) \<times> ApplierState" where
  "conclude_switch en statusID snapID exitID priorExitID reply a = (case reply of (res, appErr) \<Rightarrow>
     let result = \<lparr>cr_SnapshotID = snapID, cr_RuleVersionID = 0, cr_RolledBack = ar_RolledBack res, cr_Health = ar_Health res, cr_Reason = ar_Reason res\<rparr> in
     (case appErr of
        Some ErrApplyInFlight \<Rightarrow>
          (case compensateSwitch en priorExitID ''apply-in-flight'' ''rolled_back'' (clearSwitchInflight snapID a) of
             ((state, restoreErr), a) \<Rightarrow>
               ((False, result, Some (joinErr (CoreOrch ErrApplyInFlight) restoreErr)), persistApplyStatus statusID snapID state ''apply-in-flight'' a))
      | Some e \<Rightarrow>
          (case compensateSwitch en priorExitID (orch_error_text e) (if ar_RolledBack res then ''rolled_back'' else ''failed'') (clearSwitchInflight snapID a) of
             ((state, restoreErr), a) \<Rightarrow>
               (let finalErr = joinErr (CoreOrch e) restoreErr in
                ((False, result, Some finalErr), persistApplyStatus statusID snapID state (en_text en finalErr) a)))
      | None \<Rightarrow>
          if ar_Health res = ''observing'' then ((True, result, None), a)
          else if ar_Health res = [] then
            ((False, result, None), audit_confirmed exitID priorExitID (clearSwitchInflight snapID (persistApplyStatus statusID snapID ''confirmed'' [] a)))
          else
            let state0 = applyTerminalState res;
                ((state, reason), a) =
                  (if state0 \<noteq> ''confirmed'' then
                     let reason = (if ar_Reason res = [] then ''orchestrator did not confirm the exit switch'' else ar_Reason res) in
                     (case compensateSwitch en priorExitID reason state0 a of
                        ((state, restoreErr), a) \<Rightarrow>
                          ((state, (case restoreErr of None \<Rightarrow> reason | Some e \<Rightarrow> en_text en (CoreJoin (CoreText reason) e))), a))
                   else ((state0, ar_Reason res), a));
                a = clearSwitchInflight snapID (persistApplyStatus statusID snapID state reason a) in
            if state = ''confirmed'' then ((False, result, None), audit_confirmed exitID priorExitID a)
            else if state = ''failed'' then ((False, result, Some (CoreText reason)), a)
            else ((False, result, None), a)))"

text \<open>From the switched pointer on: assemble, record the snapshot and the life-cycle row, dispatch.  \<open>nano\<close>
  is \<open>time.Now().UnixNano()\<close>.\<close>

definition dispatch_switch :: "'r env \<Rightarrow> ('o, 'r) orch_ops \<Rightarrow> int \<Rightarrow> string \<Rightarrow> string \<Rightarrow> ('o, bool \<times> CoreApplyResult \<times> core_error option) runs" where
  "dispatch_switch en ops nano exitID priorExitID x = (case x of (o', a) \<Rightarrow>
     (case run_db (Assemble (en_lib en) (en_BaseConfig en) (en_Store en)) a of
        (Inl e, a) \<Rightarrow> (case fail_switch en priorExitID (CoreAssemble e) a of (r, a) \<Rightarrow> (r, o', a))
      | (Inr cfg, a) \<Rightarrow>
          (case run_db (InsertSnapshot \<lparr>sn_ID = 0, sn_CreatedAt = 0, sn_ConfigHash = ''exit-switch:'' @ exitID @ '':'' @ itoa nano,
                sn_TarballPath = [], sn_Note = ''exit-switch:'' @ exitID\<rparr>) a of
             (Inl e, a) \<Rightarrow> (case fail_switch en priorExitID (CoreDB ''snapshot'' e) a of (r, a) \<Rightarrow> (r, o', a))
           | (Inr snapID, a) \<Rightarrow>
               (case run_db (InsertApplyStatus snapID ''exits.switch'') a of
                  (Inl e, a) \<Rightarrow> (case fail_switch en priorExitID (CoreDB ''insert apply_status'' e) a of (r, a) \<Rightarrow> (r, o', a))
                | (Inr statusID, a) \<Rightarrow>
                    let a = registerSwitchInflight snapID \<lparr>si_statusID = statusID, si_newExitID = exitID, si_priorExitID = priorExitID\<rparr>
                              (clearTerminalStatus snapID a) in
                    (case oo_Apply ops (commit_callback en) \<lparr>rq_SnapshotID = snapID, rq_RuleVersionID = 0, rq_Config = Some cfg,
                          rq_PrevSnapshot = 0, rq_Commit = False\<rparr> (o', a) of
                       (reply, o', a) \<Rightarrow>
                         (case conclude_switch en statusID snapID exitID priorExitID reply a of (r, a) \<Rightarrow> (r, o', a)))))))"

definition SwitchExit :: "'r env \<Rightarrow> ('o, 'r) orch_ops option \<Rightarrow> int \<Rightarrow> string \<Rightarrow> ('o, CoreApplyResult \<times> core_error option) runs" where
  "SwitchExit en orch nano exitID x = (case x of (o', a) \<Rightarrow>
     if en_Store en = None then ((zero_result, Some (CoreNil ''nil store'')), o', a)
     else if \<not> en_ExitStore en then ((zero_result, Some (CoreNil ''nil exit store'')), o', a)
     else case orch of
         None \<Rightarrow> ((zero_result, Some (CoreNil ''nil orchestrator'')), o', a)
       | Some ops \<Rightarrow>
           if exitID = [] then ((zero_result, Some (CoreText ''empty exit id'')), o', a)
           else (case beginVariation a of
               (False, a) \<Rightarrow> ((zero_result, Some (CoreOrch ErrApplyInFlight)), o', a)
             | (True, a) \<Rightarrow> (case run_db (adapter_Active (en_parse en)) a of
                   (Inl e, a) \<Rightarrow> ((zero_result, Some (CoreExit ''read active'' e)), o', endVariation a)
                 | (Inr priorExitID, a) \<Rightarrow>
                     let a = protectSwitchExits [priorExitID, exitID] a in
                     (case run_db (Store_Switch exitID) a of
                        (Inl e, a) \<Rightarrow>
                          ((zero_result, Some (CoreExit ''db switch'' e)), o', endVariation (unprotectSwitchExits [priorExitID, exitID] a))
                      | (Inr _, a) \<Rightarrow> (case dispatch_switch en ops nano exitID priorExitID (o', a) of
                            ((keep, res, err), o', a) \<Rightarrow>
                              ((res, err), o', if keep then a else endVariation (unprotectSwitchExits [priorExitID, exitID] a)))))))"

definition DeleteExit :: "'r env \<Rightarrow> string \<Rightarrow> ApplierState \<Rightarrow> core_error option \<times> ApplierState" where
  "DeleteExit en exitID a =
     (if \<not> en_ExitStore en then (Some (CoreNil ''nil exit store''), a)
      else if ap_protectedExits a exitID > 0 then (Some CoreExitSwitchInFlight, a)
      else case run_db (Store_Delete exitID) a of
          (Inl e, a) \<Rightarrow> (Some (CoreExit ''delete'' e), a)
        | (Inr _, a) \<Rightarrow> (None, a))"

section \<open>Import and status\<close>

definition ImportRules :: "'r env \<Rightarrow> ('o, 'r) orch_ops option \<Rightarrow> string \<Rightarrow> string \<Rightarrow> string \<Rightarrow> ('o, CoreApplyResult \<times> core_error option) runs" where
  "ImportRules en orch yaml actor ip x = (case x of (o', a) \<Rightarrow>
     (case ParseYAML (rl_isdomain (en_lib en)) (rl_decode (en_lib en)) yaml of
        Inl e \<Rightarrow> ((zero_result, Some (CoreParse e)), o', a)
      | Inr rs \<Rightarrow> (case RuleSet_Validate (rl_isdomain (en_lib en)) rs of
            Some e \<Rightarrow> ((zero_result, Some (CoreValidate e)), o', a)
          | None \<Rightarrow>
              (case run_db (InsertSnapshot \<lparr>sn_ID = 0, sn_CreatedAt = 0, sn_ConfigHash = HashRules (en_sha en) rs,
                    sn_TarballPath = [], sn_Note = ''import by '' @ actor\<rparr>) a of
                 (Inl e, a) \<Rightarrow> ((zero_result, Some (CoreDB ''snapshot'' e)), o', a)
               | (Inr snapID, a) \<Rightarrow>
                   (case run_db (InsertRuleVersion snapID yaml False) a of
                      (Inl e, a) \<Rightarrow> ((zero_result, Some (CoreDB ''rule_version'' e)), o', a)
                    | (Inr rvID, a) \<Rightarrow>
                        let a = snd (run_db (AppendAudit \<lparr>ae_Actor = actor, ae_Action = ''rules.import'',
                              ae_Target = HashRules (en_sha en) rs, ae_Before = [], ae_After = yaml, ae_Result = ''ok'', ae_IP = ip\<rparr>) a) in
                        ApplyRules en orch snapID rvID 0 (o', a))))))"

definition Applier_Status :: "ApplierState \<Rightarrow> (db_error, ApplyStatusSnapshot option) result \<times> ApplierState" where
  "Applier_Status a = (case run_db LatestApplyStatus a of
      (Inl e, a) \<Rightarrow> (Inl e, a)
    | (Inr None, a) \<Rightarrow> (Inr None, a)
    | (Inr (Some row), a) \<Rightarrow>
        let row = (case TerminalStatus (as_SnapshotID row) a of
             Some t \<Rightarrow> if as_State row = ''submitted'' then row\<lparr>as_State := ts_State t, as_Reason := ts_Reason t\<rparr> else row
           | None \<Rightarrow> row) in
        (Inr (Some \<lparr>ss_ID = as_ID row, ss_SnapshotID = as_SnapshotID row, ss_State = as_State row, ss_Reason = as_Reason row,
           ss_CreatedAt = as_CreatedAt row, ss_UpdatedAt = as_UpdatedAt row\<rparr>), a))"

section \<open>Health callback\<close>

definition finalizeSwitchOnHealth :: "'r env \<Rightarrow> int \<Rightarrow> ApplyResult \<Rightarrow> switchInfo \<Rightarrow> ApplierState \<Rightarrow> ApplierState" where
  "finalizeSwitchOnHealth en snapshotID res info a =
     (let state0 = applyTerminalState res;
          ((state, reason), a) =
            (if state0 \<noteq> ''confirmed'' then
               let reason = (if ar_Reason res = [] then ''orchestrator did not confirm the exit switch'' else ar_Reason res) in
               (case compensateSwitch en (si_priorExitID info) reason state0 a of
                  ((state, restoreErr), a) \<Rightarrow>
                    ((state, (case restoreErr of None \<Rightarrow> reason | Some e \<Rightarrow> en_text en (CoreJoin (CoreText reason) e))), a))
             else ((state0, ar_Reason res), a));
          a = persistApplyStatus (si_statusID info) snapshotID state reason a;
          a = (if state \<noteq> ''confirmed'' then a else audit_confirmed (si_newExitID info) (si_priorExitID info) a) in
      unprotectSwitchExits [si_priorExitID info, si_newExitID info] a)"

definition finalizeRulesOnHealth :: "'r env \<Rightarrow> ('o, 'r) orch_ops \<Rightarrow> int \<Rightarrow> ApplyResult \<Rightarrow> ruleApplyInfo \<Rightarrow> 'o \<times> ApplierState \<Rightarrow> 'o \<times> ApplierState" where
  "finalizeRulesOnHealth en ops snapshotID res info x = (case x of (o', a) \<Rightarrow>
     let state0 = applyTerminalState res;
         ((state, reason), o', a) =
           (if state0 = ''rolled_back'' then ((state0, ar_Reason res), o', rollbackRuleApply snapshotID a)
            else if state0 = ''confirmed'' then
              (case commitRuleApply snapshotID a of
                 (None, a) \<Rightarrow> ((state0, ar_Reason res), o', a)
               | (Some err, a) \<Rightarrow> (case oo_Rollback ops (ri_priorSnapshotID info) o' of
                     (None, o') \<Rightarrow> ((''rolled_back'', en_text en err), o', a)
                   | (Some re, o') \<Rightarrow> ((''failed'', en_text en (CoreJoin err (CoreOrch re))), o', a)))
            else ((state0, ar_Reason res), o', a));
         a = clearInflight snapshotID (persistApplyStatus (ri_statusID info) snapshotID state reason a);
         target = ''snapshot='' @ itoa snapshotID;
         a = (if state = ''rolled_back'' then audit ''rules.apply.rolled_back'' target reason a
              else if state = ''failed'' then audit ''rules.apply.failed'' target reason a
              else audit ''rules.apply.confirmed'' target ''ok'' a) in
     (o', a))"

definition OnHealth :: "'r env \<Rightarrow> ('o, 'r) orch_ops \<Rightarrow> 'r Config ApplyRequest \<Rightarrow> ApplyResult \<Rightarrow> 'o \<times> ApplierState \<Rightarrow> 'o \<times> ApplierState" where
  "OnHealth en ops req res x = (case x of (o', a) \<Rightarrow>
     (case takeSwitchInflight (rq_SnapshotID req) a of
        (Some info, a) \<Rightarrow> (o', endVariation (finalizeSwitchOnHealth en (rq_SnapshotID req) res info a))
      | (None, a) \<Rightarrow>
          (case getInflight (rq_SnapshotID req) a of
             None \<Rightarrow> (o', a)
           | Some info \<Rightarrow> (case finalizeRulesOnHealth en ops (rq_SnapshotID req) res info (o', a) of
               (o', a) \<Rightarrow> (o', endVariation a)))))"

section \<open>Frame lemmas\<close>

text \<open>What the bookkeeping leaves alone: the pointer tables and the published rule table.\<close>

definition same_pointers :: "ApplierState \<Rightarrow> ApplierState \<Rightarrow> bool" where
  "same_pointers a a' = (t_versions (ap_DB a') = t_versions (ap_DB a) \<and> t_exits (ap_DB a') = t_exits (ap_DB a) \<and>
     ap_Resolver a' = ap_Resolver a)"

lemma same_pointers_refl [simp]: "same_pointers a a"
  by (simp add: same_pointers_def)

lemma same_pointers_trans: "same_pointers a b \<Longrightarrow> same_pointers b c \<Longrightarrow> same_pointers a c"
  by (simp add: same_pointers_def)

definition pointer_frame :: "'a dbm \<Rightarrow> bool" where
  "pointer_frame m = (\<forall>d. t_versions (snd (m d)) = t_versions d \<and> t_exits (snd (m d)) = t_exits d)"

lemma pointer_frame_stmt: "(\<And>d. t_versions (snd (f d)) = t_versions d \<and> t_exits (snd (f d)) = t_exits d) \<Longrightarrow> pointer_frame (stmt f)"
  unfolding pointer_frame_def
proof
  fix d
  assume "\<And>d. t_versions (snd (f d)) = t_versions d \<and> t_exits (snd (f d)) = t_exits d"
  then show "t_versions (snd (stmt f d)) = t_versions d \<and> t_exits (snd (stmt f d)) = t_exits d"
    by (cases rule: stmt_cases [of f d]) simp_all
qed

lemma pointer_frame_bind: "pointer_frame m \<Longrightarrow> (\<And>a. pointer_frame (f a)) \<Longrightarrow> pointer_frame (bindD m f)"
  unfolding pointer_frame_def bindD_def by (auto split: prod.split sum.split) (metis snd_conv)+

lemma pointer_frame_simple [simp]: "pointer_frame (returnD x)" "pointer_frame (throwD e)"
  by (simp_all add: pointer_frame_def dbm_defs)

lemma pointer_frame_UpdateApplyStatus: "pointer_frame (UpdateApplyStatus i s r)"
  unfolding UpdateApplyStatus_def
  by (intro pointer_frame_bind pointer_frame_stmt) (simp_all add: apply_update_def Let_def)

lemma pointer_frame_InsertApplyStatus: "pointer_frame (InsertApplyStatus i r)"
  unfolding InsertApplyStatus_def by (rule pointer_frame_stmt) (simp add: Let_def)

lemma pointer_frame_AppendAudit: "pointer_frame (AppendAudit e)"
  unfolding AppendAudit_def by (rule pointer_frame_stmt) simp

lemma pointer_frame_InsertSnapshot: "pointer_frame (InsertSnapshot s)"
  unfolding InsertSnapshot_def
  by (intro pointer_frame_bind pointer_frame_stmt)
    (auto simp: snapshot_insert_def select1_def Let_def split: option.split intro!: pointer_frame_stmt)

lemma run_db_same: "pointer_frame m \<Longrightarrow> run_db m a = (r, a') \<Longrightarrow> same_pointers a a' \<and> a' = a\<lparr>ap_DB := ap_DB a'\<rparr>"
  unfolding pointer_frame_def run_db_def same_pointers_def by (auto split: prod.splits) (metis snd_conv)+

lemma same_tables_pointers: "same_tables (ap_DB a) (ap_DB a') \<Longrightarrow> ap_Resolver a' = ap_Resolver a \<Longrightarrow> same_pointers a a'"
  by (auto simp: same_pointers_def elim!: same_tablesE)

lemma terminal_pointers [simp]:
  "same_pointers a (recordTerminalStatus i s r a)" "same_pointers a (clearTerminalStatus i a)"
  "same_pointers a (clearInflight i a)" "same_pointers a (registerInflight i info a)"
  "same_pointers a (clearSwitchInflight i a)" "same_pointers a (registerSwitchInflight i si a)"
  "same_pointers a (endVariation a)"
  by (auto simp: same_pointers_def recordTerminalStatus_def clearTerminalStatus_def clearInflight_def
      registerInflight_def clearSwitchInflight_def registerSwitchInflight_def endVariation_def Let_def split: prod.split)

lemma persist_pointers: "same_pointers a (persistApplyStatus i s st r a)"
  unfolding persistApplyStatus_def
  by (auto split: prod.split sum.split dest!: run_db_same [OF pointer_frame_UpdateApplyStatus] intro: same_pointers_trans)

lemma protect_pointers [simp]: "same_pointers a (protectSwitchExits xs a)" "same_pointers a (unprotectSwitchExits xs a)"
proof -
  show "same_pointers a (protectSwitchExits xs a)"
    by (induction xs a rule: protectSwitchExits.induct) (auto simp: same_pointers_def)
  show "same_pointers a (unprotectSwitchExits xs a)"
    by (induction xs a rule: unprotectSwitchExits.induct) (auto simp: same_pointers_def)
qed

lemma audit_pointers: "same_pointers a (audit x t r a)"
proof -
  let ?e = "\<lparr>ae_Actor = [], ae_Action = x, ae_Target = t, ae_Before = [], ae_After = [], ae_Result = r, ae_IP = []\<rparr>"
  obtain y a' where "run_db (AppendAudit ?e) a = (y, a')" by (cases "run_db (AppendAudit ?e) a")
  then show ?thesis using run_db_same [OF pointer_frame_AppendAudit] by (auto simp: audit_def)
qed

lemma select1_same: "select1 q d = (r, d') \<Longrightarrow> same_tables d d'"
  by (cases rule: select1_cases [of q d]) auto

lemma prior_version_same: "prior_version en a = (r, a') \<Longrightarrow> same_tables (ap_DB a) (ap_DB a') \<and> a' = a\<lparr>ap_DB := ap_DB a'\<rparr>"
  by (auto simp: prior_version_def run_db_def Let_def split: prod.splits sum.splits if_splits dest!: GetActive_same)

text \<open>Stores that only read the database.\<close>

definition store_reads :: "core_store \<Rightarrow> bool" where
  "store_reads s = (\<forall>d. same_tables d (snd (ActiveRulesYAML s d)) \<and> same_tables d (snd (ListExits s d)))"

lemma store_reads_boot: "store_reads (bootStore parse)"
  unfolding store_reads_def
proof (intro allI conjI)
  fix d
  show "same_tables d (snd (ActiveRulesYAML (bootStore parse) d))"
    using boot_rules(1) [of d] by (cases "boot_ActiveRulesYAML d") (simp add: bootStore_def)
  show "same_tables d (snd (ListExits (bootStore parse) d))"
    using Records_same [of parse d] by (auto simp: bootStore_def boot_ListExits_def split: prod.splits sum.splits)
qed

lemma Assemble_same:
  assumes "\<And>s. store = Some s \<Longrightarrow> store_reads s" "Assemble lib base store d = (r, d')"
  shows "same_tables d d'"
proof (cases store)
  case None
  then show ?thesis using assms(2) by (auto simp: Assemble_def Let_def split: option.splits)
next
  case (Some s)
  obtain r1 d1 where 1: "ActiveRulesYAML s d = (r1, d1)" by fastforce
  obtain r2 d2 where 2: "ListExits s d1 = (r2, d2)" by fastforce
  have "same_tables d d1" "same_tables d1 d2" using assms(1) [OF Some] 1 2 by (auto simp: store_reads_def) (metis snd_conv)+
  then show ?thesis using assms(2) Some 1 2
    by (auto simp: Assemble_def Let_def split: option.splits sum.splits intro: same_tables_trans)
qed

lemma prepare_same:
  assumes "\<And>s. en_Store en = Some s \<Longrightarrow> store_reads s" "prepare_rules en i v p a = (r, a')"
  shows "same_tables (ap_DB a) (ap_DB a') \<and> a' = a\<lparr>ap_DB := ap_DB a'\<rparr>"
proof -
  obtain r1 d1 where 1: "GetRuleVersionByID v (ap_DB a) = (r1, d1)" by fastforce
  obtain r2 d2 where 2: "Assemble (en_lib en) (en_BaseConfig en) (en_Store en) d1 = (r2, d2)" by fastforce
  obtain r3 a3 where 3: "prior_version en (a\<lparr>ap_DB := d2\<rparr>) = (r3, a3)" by fastforce
  have s1: "same_tables (ap_DB a) d1" using select1_same 1 by (auto simp: GetRuleVersionByID_def)
  have s2: "same_tables d1 d2" using Assemble_same [OF assms(1) 2] by blast
  have s3: "same_tables d2 (ap_DB a3)" "a3 = a\<lparr>ap_DB := ap_DB a3\<rparr>" using prior_version_same [OF 3] by auto
  show ?thesis using assms(2) 1 2 3 s1 s2 s3
    by (auto simp: prepare_rules_def run_db_def Let_def split: sum.splits option.splits if_splits intro: same_tables_trans)
qed

section \<open>The orchestrator contract\<close>

text \<open>What the applier relies on: an apply that reports success has run the commit callback to success, one
  that reports an error or is still observing has not advanced the control plane.\<close>

locale orchestrator_contract =
  fixes ops :: "('o, 'r) orch_ops"
  assumes apply_done: "oo_Apply ops commit req (o1, a) = ((res, None), o2, a') \<Longrightarrow> ar_Health res \<noteq> ''observing'' \<Longrightarrow>
      commit_done commit req a a' \<and> \<not> ar_RolledBack res \<and> ar_Health res \<noteq> ''failed''"
    and apply_undone: "oo_Apply ops commit req (o1, a) = ((res, err), o2, a') \<Longrightarrow> err \<noteq> None \<or> ar_Health res = ''observing'' \<Longrightarrow>
      a' = a \<or> commit_failed commit req a a'"

lemma commit_error:
  assumes "commitRuleApply i a = (Some e, a')"
  shows "same_pointers a a' \<and> a' = a\<lparr>ap_DB := ap_DB a'\<rparr> \<and> same_tables (ap_DB a) (ap_DB a')"
proof (cases "ap_inflight a i")
  case None
  then show ?thesis using assms by (auto simp: commitRuleApply_def getInflight_def)
next
  case (Some info)
  obtain r d where r: "SetActiveRuleVersion (ri_ruleVersionID info) (ap_DB a) = (r, d)" by fastforce
  then have "same_tables (ap_DB a) d" if "r = Inl x" for x
    using that transaction_error unfolding SetActiveRuleVersion_def by blast
  then show ?thesis using assms Some r
    by (auto simp: commitRuleApply_def getInflight_def run_db_def same_tables_pointers split: if_splits sum.splits)
qed

text \<open>The version is active and its table published.\<close>

definition activated :: "int \<Rightarrow> RuleTable \<Rightarrow> ApplierState \<Rightarrow> ApplierState \<Rightarrow> bool" where
  "activated v t a a' = (v \<in> rv_ID ` set (t_versions (ap_DB a)) \<and>
     (\<forall>x\<in>set (t_versions (ap_DB a')). rv_Active x \<longleftrightarrow> rv_ID x = v) \<and>
     map (set_rv False) (t_versions (ap_DB a')) = map (set_rv False) (t_versions (ap_DB a)) \<and>
     ap_Resolver a' = map_option (Store_Publish (Some t)) (ap_Resolver a) \<and>
     t_exits (ap_DB a') = t_exits (ap_DB a))"

lemma SetActive_moves:
  assumes "db_wf d" "SetActiveRuleVersion i d = (Inr (), d')"
  shows "i \<in> rv_ID ` set (t_versions d)" "\<And>v. v \<in> set (t_versions d') \<Longrightarrow> rv_Active v \<longleftrightarrow> rv_ID v = i"
    "map (set_rv False) (t_versions d') = map (set_rv False) (t_versions d)" "t_exits d' = t_exits d"
proof -
  let ?vs = "promote rv_ID (\<lambda>b r. set_rv b r) i (demote_all rv_Active (\<lambda>b r. set_rv b r) (t_versions d))"
  obtain fs where fs: "d' = d\<lparr>t_versions := ?vs, db_faults := fs\<rparr>"
    using SetActive_ok(2) [OF assms] by (auto elim: same_tablesE)
  show "i \<in> rv_ID ` set (t_versions d)" by (rule SetActive_ok(1) [OF assms])
  show "\<And>v. v \<in> set (t_versions d') \<Longrightarrow> rv_Active v \<longleftrightarrow> rv_ID v = i" using fs ver.moved_active [of _ i "t_versions d"] by simp
  show "map (set_rv False) (t_versions d') = map (set_rv False) (t_versions d)" "t_exits d' = t_exits d"
    by (simp_all add: fs promote_def demote_all_def comp_def cong: if_cong)
qed

lemma commit_success:
  assumes "commitRuleApply i a = (None, a')" "ap_inflight a i = Some info" "\<not> ri_committed info" "db_wf (ap_DB a)"
  shows "activated (ri_ruleVersionID info) (ri_targetTable info) a a'"
    "ap_inflight a' = (ap_inflight a)(i \<mapsto> info\<lparr>ri_committed := True\<rparr>)" "ap_variationActive a' = ap_variationActive a"
proof -
  obtain r d where r: "SetActiveRuleVersion (ri_ruleVersionID info) (ap_DB a) = (r, d)" by fastforce
  then have ok: "SetActiveRuleVersion (ri_ruleVersionID info) (ap_DB a) = (Inr (), d)"
    using assms(1-3) by (cases r) (auto simp: commitRuleApply_def getInflight_def run_db_def)
  have a': "a' = registerInflight i (info\<lparr>ri_committed := True\<rparr>) (publish (ri_targetTable info) (a\<lparr>ap_DB := d\<rparr>))"
    using assms(1-3) ok by (auto simp: commitRuleApply_def getInflight_def run_db_def)
  show "activated (ri_ruleVersionID info) (ri_targetTable info) a a'"
    using SetActive_moves [OF assms(4) ok] by (simp add: a' activated_def registerInflight_def publish_def)
  show "ap_inflight a' = (ap_inflight a)(i \<mapsto> info\<lparr>ri_committed := True\<rparr>)" "ap_variationActive a' = ap_variationActive a"
    by (simp_all add: a' registerInflight_def publish_def)
qed

lemma commit_again: "ap_inflight a i = Some info \<Longrightarrow> ri_committed info \<Longrightarrow> commitRuleApply i a = (None, a)"
  by (simp add: commitRuleApply_def getInflight_def)

lemma activated_same: "activated v t a b \<Longrightarrow> same_pointers a0 a \<Longrightarrow> same_pointers b c \<Longrightarrow> activated v t a0 c"
  by (auto simp: activated_def same_pointers_def)

context orchestrator_contract
begin

lemma dispatch_outcome:
  assumes d: "dispatch_rules en ops i v (cfg, t, pv, ps, pt) (o1, a) = ((keep, res, err), o2, a')" and w: "db_wf (ap_DB a)"
  shows "keep \<or> err \<noteq> None \<Longrightarrow> same_pointers a a'" "\<not> keep \<Longrightarrow> err = None \<Longrightarrow> activated v t a a'"
    "keep \<Longrightarrow> ap_inflight a' i \<noteq> None" "keep \<longleftrightarrow> err = None \<and> cr_Health res = ''observing''"
proof -
  obtain r d1 where 1: "InsertApplyStatus i [] (ap_DB a) = (r, d1)" by fastforce
  have f1: "same_pointers a (a\<lparr>ap_DB := d1\<rparr>)"
    using run_db_same [OF pointer_frame_InsertApplyStatus, of i "[]" a] 1 by (auto simp: run_db_def)
  have w1: "db_wf d1" using keepsD [OF keeps_InsertApplyStatus w 1] .
  have "(keep \<or> err \<noteq> None \<longrightarrow> same_pointers a a') \<and> (\<not> keep \<and> err = None \<longrightarrow> activated v t a a') \<and>
     (keep \<longrightarrow> ap_inflight a' i \<noteq> None) \<and> (keep \<longleftrightarrow> err = None \<and> cr_Health res = ''observing'')"
  proof (cases r)
    case (Inl e)
    then show ?thesis using d 1 f1 by (auto simp: dispatch_rules_def run_db_def zero_result_def)
  next
    case (Inr sid)
    let ?info = "\<lparr>ri_statusID = sid, ri_ruleVersionID = v, ri_priorVersionID = pv, ri_priorSnapshotID = ps,
       ri_targetTable = t, ri_priorTable = pt, ri_committed = False\<rparr>"
    let ?req = "\<lparr>rq_SnapshotID = i, rq_RuleVersionID = v, rq_Config = Some cfg, rq_PrevSnapshot = ps, rq_Commit = True\<rparr>"
    define b where "b = registerInflight i ?info (clearTerminalStatus i (a\<lparr>ap_DB := d1\<rparr>))"
    have fb: "same_pointers a b" unfolding b_def using f1 by (meson same_pointers_trans terminal_pointers(2,4))
    have ib: "ap_inflight b i = Some ?info" by (simp add: b_def registerInflight_def)
    have wb: "db_wf (ap_DB b)" using w1 by (simp add: b_def registerInflight_def clearTerminalStatus_def)
    obtain ores oerr o3 c where ap: "oo_Apply ops (commit_callback en) ?req (o1, b) = ((ores, oerr), o3, c)" by (metis prod.exhaust)
    have con: "conclude_rules en ops sid i v ps (ores, oerr) (o3, c) = ((keep, res, err), o2, a')"
      using d 1 Inr ap by (simp add: dispatch_rules_def run_db_def Let_def b_def)
    have undone: "same_pointers a c \<and> ap_inflight c i \<noteq> None" if u: "oerr \<noteq> None \<or> ar_Health ores = ''observing''"
    proof -
      consider "c = b" | e where "commitRuleApply i b = (Some e, c)"
        using apply_undone [OF ap u] by (auto simp: commit_failed_def commit_callback_def split: prod.splits)
      then show ?thesis
      proof cases
        case 1
        then show ?thesis using fb ib by simp
      next
        case (2 e)
        have "c = b\<lparr>ap_DB := ap_DB c\<rparr>" using commit_error [OF 2] by blast
        then have "ap_inflight c = ap_inflight (b\<lparr>ap_DB := ap_DB c\<rparr>)" by (rule arg_cong)
        then have "ap_inflight c = ap_inflight b" by simp
        then show ?thesis using fb ib commit_error [OF 2] same_pointers_trans by auto
      qed
    qed
    show ?thesis
    proof (cases oerr)
      case (Some e)
      then show ?thesis using con undone persist_pointers
        by (cases e) (auto simp: conclude_rules_def Let_def intro!: same_pointers_trans [OF _ terminal_pointers(3)] intro: same_pointers_trans)
    next
      case None
      show ?thesis
      proof (cases "ar_Health ores = ''observing''")
        case True
        then show ?thesis using con None undone by (auto simp: conclude_rules_def Let_def)
      next
        case False
        note fin = apply_done [OF ap [unfolded None] False]
        then have cm: "commitRuleApply i b = (None, c)"
          by (auto simp: commit_done_def commit_callback_def split: prod.splits)
        have st: "applyTerminalState ores = ''confirmed''" using fin by (simp add: applyTerminalState_def)
        note cs = commit_success [OF cm ib _ wb]
        have "commitRuleApply i c = (None, c)" using cs(2) commit_again [of c i "?info\<lparr>ri_committed := True\<rparr>"] by simp
        then have "err = None" "\<not> keep" "res = \<lparr>cr_SnapshotID = i, cr_RuleVersionID = v, cr_RolledBack = ar_RolledBack ores,
            cr_Health = ar_Health ores, cr_Reason = ar_Reason ores\<rparr>"
          "a' = clearInflight i (persistApplyStatus sid i ''confirmed'' (ar_Reason ores) c)"
          using con None False st by (auto simp: conclude_rules_def Let_def)
        moreover have "same_pointers c (clearInflight i (persistApplyStatus sid i ''confirmed'' (ar_Reason ores) c))"
          using persist_pointers terminal_pointers(3) same_pointers_trans by blast
        ultimately show ?thesis using activated_same [OF cs(1) fb] False by auto
      qed
    qed
  qed
  then show "keep \<or> err \<noteq> None \<Longrightarrow> same_pointers a a'" "\<not> keep \<Longrightarrow> err = None \<Longrightarrow> activated v t a a'"
    "keep \<Longrightarrow> ap_inflight a' i \<noteq> None" "keep \<longleftrightarrow> err = None \<and> cr_Health res = ''observing''" by blast+
qed

end

lemma systemd_contract: "orchestrator_contract (systemd_ops rn)"
proof
  fix commit :: "('a Config, ApplierState) commit_fun" and req and o1 o2 :: "'a Config Systemd \<times> world" and a a' res err
  obtain s w where o1: "o1 = (s, w)" by fastforce
  obtain s' w' where o2: "o2 = (s', w')" by fastforce
  have ap: "Systemd_Apply rn commit req (s, w, a) = ((res, e), s', w', a')"
    if "oo_Apply (systemd_ops rn) commit req (o1, a) = ((res, e), o2, a')" for e
    using that by (auto simp: systemd_ops_def o1 o2 split: prod.splits)
  { assume d: "oo_Apply (systemd_ops rn) commit req (o1, a) = ((res, None), o2, a')" "ar_Health res \<noteq> ''observing''"
    obtain cfg where c: "rq_Config req = Some cfg" "\<not> sd_applyMu s"
      using ap [OF d(1)] by (auto simp: Systemd_Apply_def split: option.splits if_splits)
    show "commit_done commit req a a' \<and> \<not> ar_RolledBack res \<and> ar_Health res \<noteq> ''failed''"
      using d(2) by (cases rule: Apply_outcome [OF ap [OF d(1)] c]) simp_all }
  { assume d: "oo_Apply (systemd_ops rn) commit req (o1, a) = ((res, err), o2, a')" "err \<noteq> None \<or> ar_Health res = ''observing''"
    show "a' = a \<or> commit_failed commit req a a'"
    proof (cases "rq_Config req = None \<or> sd_applyMu s")
      case True
      then show ?thesis using ap [OF d(1)] by (auto simp: Systemd_Apply_def split: option.splits if_splits)
    next
      case False
      then obtain cfg where c: "rq_Config req = Some cfg" "\<not> sd_applyMu s" by auto
      show ?thesis using d(2) by (cases rule: Apply_outcome [OF ap [OF d(1)] c]) simp_all
    qed }
qed

interpretation sd: orchestrator_contract "systemd_ops rn" for rn :: "'r Config renderers"
  by (rule systemd_contract)

interpretation np: orchestrator_contract "noop_ops :: (unit, 'r) orch_ops"
  by unfold_locales (auto simp: noop_ops_def NoOp_Apply_def commit_done_def commit_failed_def split: if_splits prod.splits option.splits)

section \<open>Properties of a rules apply\<close>

lemma begin_cases:
  assumes "beginVariation a = (ok, a')"
  shows "ok \<longleftrightarrow> \<not> ap_variationActive a" "ok \<Longrightarrow> a' = a\<lparr>ap_variationActive := True\<rparr>" "\<not> ok \<Longrightarrow> a' = a"
  using assms by (auto simp: beginVariation_def split: if_splits)

text \<open>What a preparation that succeeds has established.\<close>

definition prepared :: "'r env \<Rightarrow> int \<Rightarrow> int \<Rightarrow> RuleTable \<Rightarrow> DB \<Rightarrow> bool" where
  "prepared en i v t d = (\<exists>x rs. x \<in> set (t_versions d) \<and> rv_ID x = v \<and> rv_SnapshotID x = i \<and>
     ParseYAML (rl_isdomain (en_lib en)) (rl_decode (en_lib en)) (rv_RulesYAML x) = Inr rs \<and>
     RuleSet_Validate (rl_isdomain (en_lib en)) rs = None \<and> t = BuildTable (en_sha en) rs)"

lemma prepare_prepared:
  assumes "prepare_rules en i v p a = (Inr (cfg, t, pv, ps, pt), a')"
  shows "prepared en i v t (ap_DB a)"
proof -
  obtain x d1 where 1: "GetRuleVersionByID v (ap_DB a) = (Inr x, d1)"
    using assms by (auto simp: prepare_rules_def run_db_def Let_def split: prod.splits sum.splits)
  have x: "x \<in> set (t_versions (ap_DB a))" "rv_ID x = v"
    using 1 unfolding GetRuleVersionByID_def
    by (cases rule: select1_cases [of "\<lambda>d. find (\<lambda>r. rv_ID r = v) (t_versions d)" "ap_DB a"]; auto simp: find_Some_iff)+
  show ?thesis using assms x unfolding prepared_def
    by (auto simp: prepare_rules_def run_db_def 1 Let_def split: prod.splits sum.splits option.splits if_splits)
qed

lemma wf_same_tables: "db_wf d \<Longrightarrow> same_tables d d' \<Longrightarrow> db_wf d'"
  using same_tables_pred [OF table_pred_wf] by blast

context orchestrator_contract
begin

lemma apply_rules:
  assumes w: "db_wf (ap_DB a)" and st: "\<And>s. en_Store en = Some s \<Longrightarrow> store_reads s"
    and run: "ApplyRules en (Some ops) i v p (o1, a) = ((res, err), o2, a')"
  shows "if err = None \<and> cr_Health res \<noteq> ''observing'' then \<exists>t. prepared en i v t (ap_DB a) \<and> activated v t a a'
    else same_pointers a a'"
proof (cases "en_Store en = None \<or> ap_variationActive a")
  case True
  then show ?thesis using run by (cases "en_Store en"; cases "ap_variationActive a") (auto simp: ApplyRules_def beginVariation_def)
next
  case False
  let ?b = "a\<lparr>ap_variationActive := True\<rparr>"
  obtain r c where prep: "prepare_rules en i v p ?b = (r, c)" by fastforce
  have same: "same_tables (ap_DB a) (ap_DB c)" "c = ?b\<lparr>ap_DB := ap_DB c\<rparr>"
    using prepare_same [OF st prep] by auto
  have rc: "ap_Resolver c = ap_Resolver a" by (subst same(2)) simp
  then have fc: "same_pointers a c" by (rule same_tables_pointers [OF same(1)])
  show ?thesis
  proof (cases r)
    case (Inl e)
    then show ?thesis using run False prep fc
      by (auto simp: ApplyRules_def beginVariation_def intro: same_pointers_trans [OF _ terminal_pointers(7)])
  next
    case (Inr x)
    obtain cfg t pv ps pt where x: "x = (cfg, t, pv, ps, pt)" by (metis prod.exhaust)
    obtain keep res' err' o' b where d: "dispatch_rules en ops i v x (o1, c) = ((keep, res', err'), o', b)" by (metis prod.exhaust)
    note out = dispatch_outcome [OF d [unfolded x] wf_same_tables [OF w same(1)]]
    have eq: "res = res'" "err = err'" "a' = (if keep then b else endVariation b)"
      using run False prep Inr d by (auto simp: ApplyRules_def beginVariation_def)
    have fb: "same_pointers b a'" using eq by simp
    show ?thesis
    proof (cases "err = None \<and> cr_Health res \<noteq> ''observing''")
      case True
      then have "activated v t c b" using out eq by blast
      then have "activated v t a a'" using activated_same fc fb by blast
      moreover have "prepared en i v t (ap_DB a)" using prepare_prepared prep Inr x by fastforce
      ultimately show ?thesis using True by auto
    next
      case False
      then have "same_pointers c b" using out(1,4) eq(1,2) by (cases err') auto
      then show ?thesis using False fc fb same_pointers_trans by auto
    qed
  qed
qed

end


text \<open>(C3) A rules apply on the systemd orchestrator never half-activates: if it reports success and is not
  left to the health observer, the requested version (whose text parsed and validated) is the one active
  version and the table built from it is the published one; if it reports an error, or the health
  observation is still running, the versions, the exits and the published table are exactly as before.\<close>

theorem apply_rules_all_or_nothing:
  assumes "db_wf (ap_DB a)" "en_Store en = Some s" "store_reads s"
    and "ApplyRules en (Some (systemd_ops rn)) i v p (o1, a) = ((res, err), o2, a')"
  shows "if err = None \<and> cr_Health res \<noteq> ''observing'' then \<exists>t. prepared en i v t (ap_DB a) \<and> activated v t a a'
    else same_pointers a a'"
  using assms by (intro sd.apply_rules) auto

definition sample_lib :: rule_lib where
  "sample_lib = \<lparr>rl_isdomain = \<lambda>_. True, rl_decode = \<lambda>_. Inr [], rl_text = \<lambda>_. [], rl_etext = \<lambda>_. []\<rparr>"

definition sample_env :: "unit env" where
  "sample_env = \<lparr>en_sha = \<lambda>_. [], en_lib = sample_lib, en_parse = \<lambda>_. Inl ''no'',
     en_BaseConfig = Some \<lparr>cfg_Exits = None, cfg_EffectiveRules = None, cfg_DNS_Upstreams = None, cfg_WAShim_AllowCIDR = None,
        cfg_TGBot_AdminChatIDs = None, cfg_Rules_Sources = None, cfg_rest = ()\<rparr>,
     en_Store = Some (bootStore (\<lambda>_. Inl ''no'')), en_ExitStore = True, en_text = \<lambda>_. ''error''\<rparr>"

definition sample_applier :: ApplierState where
  "sample_applier = \<lparr>ap_DB = sampleDB, ap_Resolver = None, ap_inflight = \<lambda>_. None, ap_switchInflight = \<lambda>_. None,
     ap_protectedExits = \<lambda>_. 0, ap_terminalStatus = \<lambda>_. None, ap_terminalOrder = [], ap_variationActive = False\<rparr>"

definition sample_sd :: "bool \<Rightarrow> unit Config Systemd" where
  "sample_sd h = \<lparr>sd_DnsdistPath = ''/a'', sd_MihomoPath = ''/b'', sd_SniproxyPath = ''/c'',
     sd_HealthCheck = h, sd_Config = None, sd_applyMu = False, sd_observing = None\<rparr>"

definition sample_rn :: "unit Config renderers" where
  "sample_rn = \<lparr>rn_dnsdist = \<lambda>_. Inr ''d'', rn_mihomo = \<lambda>_. Inr ''m'', rn_sniproxy = \<lambda>_. Inr ''s''\<rparr>"

lemmas sample_defs = sample_lib_def sample_env_def sample_applier_def sample_sd_def sample_rn_def sampleDB_def emptyDB_def sample_world_def

lemmas db_eval = run_db_def stmt_def select1_def transaction_def bindD_def returnD_def throwD_def one_active_def
  demote_all_def promote_def demote_versions_def promote_version_def Let_def

lemmas prepare_eval = prepare_rules_def prior_version_def GetRuleVersionByID_def GetActiveRuleVersion_def ParseYAML_def
  RuleSet_Validate_def Assemble_def assemble_rules_def assemble_exits_def bootStore_def boot_ActiveRulesYAML_def
  boot_ListExits_def Store_Records_def Store_List_def liftE_def

lemmas systemd_eval = systemd_ops_def Systemd_Apply_def snapshotCurrent_def snapshotPath_def sys_def render_def writeRendered_def
  writeBytesAtomic_def write_eval reloadUnits_def runSystemctl_def commitOrRestore_def numeral_eq_Suc

lemma sample_apply:
  "snd (fst (ApplyRules sample_env (Some (systemd_ops sample_rn)) 1 2 1 ((sample_sd False, sample_world []), sample_applier))) = None \<and>
   cr_Health (fst (fst (ApplyRules sample_env (Some (systemd_ops sample_rn)) 1 2 1 ((sample_sd False, sample_world []), sample_applier)))) = ''ok''"
  by (simp add: ApplyRules_def beginVariation_def dispatch_rules_def conclude_rules_def sample_defs db_eval prepare_eval
     systemd_eval InsertApplyStatus_def commit_callback_def commitRuleApply_def getInflight_def registerInflight_def
     clearTerminalStatus_def SetActiveRuleVersion_def UpdateApplyStatus_def applyTerminalState_def)


theorem apply_rules_all_or_nothing_witness:
  "\<exists>res o2 a' t. ApplyRules sample_env (Some (systemd_ops sample_rn)) 1 2 1 ((sample_sd False, sample_world []), sample_applier) = ((res, None), o2, a')
     \<and> cr_Health res = ''ok'' \<and> activated 2 t sample_applier a'"
proof -
  let ?x = "ApplyRules sample_env (Some (systemd_ops sample_rn)) 1 2 1 ((sample_sd False, sample_world []), sample_applier)"
  obtain res err o2 a' where eq: "?x = ((res, err), o2, a')" by (metis prod.exhaust)
  have r: "err = None" "cr_Health res = ''ok''" using sample_apply eq by simp_all
  have "db_wf (ap_DB sample_applier)" "en_Store sample_env = Some (bootStore (\<lambda>_. Inl ''no''))"
    using sampleDB_wf by (simp_all add: sample_applier_def sample_env_def)
  from apply_rules_all_or_nothing [OF this store_reads_boot eq] show ?thesis using r eq by auto
qed

end
