(* ===== verification/Switching.thy ===== *)
theory Switching
  imports Applier
begin

text \<open>
  Exit switches of \<open>internal/core/applier.go\<close>: the reservations that keep a switch's exits from being
  deleted, the bounded cache of terminal states, and what \<open>SwitchExit\<close> followed by \<open>OnHealth\<close> leaves in the
  exits table.  The lemmas about a switch are proved once for every orchestrator that keeps the contract.
\<close>

section \<open>Exit protection\<close>

definition exit_uses :: "string list \<Rightarrow> string \<Rightarrow> nat" where
  "exit_uses xs x = (if x = [] then 0 else count_list xs x)"

lemma exit_uses_simps [simp]: "exit_uses [] y = 0" "exit_uses xs [] = 0"
  "exit_uses (x # xs) y = (if x = y \<and> y \<noteq> [] then exit_uses xs y + 1 else exit_uses xs y)"
  by (simp_all add: exit_uses_def)

lemma protect_eq: "protectSwitchExits xs a = a\<lparr>ap_protectedExits := \<lambda>x. ap_protectedExits a x + exit_uses xs x\<rparr>"
proof (induction xs a rule: protectSwitchExits.induct)
  case (2 x xs a)
  then show ?case by (auto intro!: arg_cong [where f = "\<lambda>f. a\<lparr>ap_protectedExits := f\<rparr>"])
qed simp

lemma unprotect_eq: "unprotectSwitchExits xs a = a\<lparr>ap_protectedExits := \<lambda>x. ap_protectedExits a x - exit_uses xs x\<rparr>"
proof (induction xs a rule: unprotectSwitchExits.induct)
  case (2 x xs a)
  then show ?case by (auto intro!: ext arg_cong [where f = "\<lambda>f. a\<lparr>ap_protectedExits := f\<rparr>"])
qed simp

declare protectSwitchExits.simps [simp del] unprotectSwitchExits.simps [simp del]

section \<open>The terminal-status cache\<close>

definition cache_ok :: "ApplierState \<Rightarrow> bool" where
  "cache_ok a = (distinct (ap_terminalOrder a) \<and> set (ap_terminalOrder a) = dom (ap_terminalStatus a) \<and>
     length (ap_terminalOrder a) \<le> applyTerminalCacheCap)"

lemma trim_small: "length xs \<le> applyTerminalCacheCap \<Longrightarrow> trim_terminal xs m = (xs, m)"
  by (cases xs) simp_all

lemma record_eq:
  assumes "cache_ok a"
  shows "recordTerminalStatus i s r a =
    (if ap_terminalStatus a i = None \<and> length (ap_terminalOrder a) = applyTerminalCacheCap
     then a\<lparr>ap_terminalStatus := (ap_terminalStatus a)(i \<mapsto> \<lparr>ts_State = s, ts_Reason = r\<rparr>, hd (ap_terminalOrder a) := None),
            ap_terminalOrder := tl (ap_terminalOrder a) @ [i]\<rparr>
     else a\<lparr>ap_terminalStatus := (ap_terminalStatus a)(i \<mapsto> \<lparr>ts_State = s, ts_Reason = r\<rparr>),
            ap_terminalOrder := (if ap_terminalStatus a i = None then ap_terminalOrder a @ [i] else ap_terminalOrder a)\<rparr>)"
proof (cases "ap_terminalStatus a i = None \<and> length (ap_terminalOrder a) = applyTerminalCacheCap")
  case True
  then obtain x xs where x: "ap_terminalOrder a = x # xs" by (cases "ap_terminalOrder a") (auto simp: applyTerminalCacheCap_def)
  then show ?thesis using True by (simp add: recordTerminalStatus_def trim_small Let_def)
next
  case False
  then have "length (if ap_terminalStatus a i = None then ap_terminalOrder a @ [i] else ap_terminalOrder a) \<le> applyTerminalCacheCap"
    using assms by (auto simp: cache_ok_def)
  then show ?thesis unfolding if_not_P [OF False] by (simp add: recordTerminalStatus_def trim_small Let_def)
qed

lemma record_ok:
  assumes "cache_ok a"
  shows "cache_ok (recordTerminalStatus i s r a)" "TerminalStatus i (recordTerminalStatus i s r a) = Some \<lparr>ts_State = s, ts_Reason = r\<rparr>"
proof -
  have i: "i \<notin> set (ap_terminalOrder a)" if "ap_terminalStatus a i = None" using that assms by (auto simp: cache_ok_def)
  have "cache_ok (recordTerminalStatus i s r a) \<and> TerminalStatus i (recordTerminalStatus i s r a) = Some \<lparr>ts_State = s, ts_Reason = r\<rparr>"
  proof (cases "ap_terminalStatus a i = None \<and> length (ap_terminalOrder a) = applyTerminalCacheCap")
    case True
    then obtain x xs where x: "ap_terminalOrder a = x # xs" by (cases "ap_terminalOrder a") (auto simp: applyTerminalCacheCap_def)
    then have d: "dom (ap_terminalStatus a) = insert x (set xs)" "x \<notin> set xs" "distinct xs" "x \<noteq> i" "i \<notin> set xs"
      using assms True i by (auto simp: cache_ok_def)
    then have "dom ((ap_terminalStatus a)(i \<mapsto> \<lparr>ts_State = s, ts_Reason = r\<rparr>, x := None)) = insert i (set xs)" by auto
    then show ?thesis using True x d by (simp add: record_eq [OF assms] cache_ok_def TerminalStatus_def)
  next
    case False
    then show ?thesis using assms i unfolding record_eq [OF assms] if_not_P [OF False]
      by (auto simp: cache_ok_def TerminalStatus_def)
  qed
  then show "cache_ok (recordTerminalStatus i s r a)" "TerminalStatus i (recordTerminalStatus i s r a) = Some \<lparr>ts_State = s, ts_Reason = r\<rparr>"
    by auto
qed

lemma clear_ok: "cache_ok a \<Longrightarrow> cache_ok (clearTerminalStatus i a)"
  by (auto simp: cache_ok_def clearTerminalStatus_def length_remove1 dom_def)


section \<open>Exit switches: lemmas\<close>

abbreviation moved_to :: "string \<Rightarrow> ExitRow list \<Rightarrow> ExitRow list" where
  "moved_to k rs \<equiv> promote ex_exit_id (\<lambda>b r. set_ex b r) k (demote_all ex_active (\<lambda>b r. set_ex b r) rs)"

lemma set_ex_same [simp]: "set_ex b r = r \<longleftrightarrow> ex_active r = b" "r = set_ex b r \<longleftrightarrow> ex_active r = b"
  by (cases r; auto)+

lemma moved_back:
  assumes "\<And>r. r \<in> set rs \<Longrightarrow> ex_active r \<longleftrightarrow> ex_exit_id r = p"
  shows "moved_to p (moved_to x rs) = rs"
  unfolding promote_def demote_all_def by (simp add: comp_def) (rule map_idI, use assms in \<open>simp split: if_splits\<close>)

lemma active_unique:
  assumes "db_wf d" "q \<in> set (t_exits d)" "ex_active q" "r \<in> set (t_exits d)"
  shows "ex_active r \<longleftrightarrow> ex_exit_id r = ex_exit_id q"
proof -
  have "length (filter ex_active (t_exits d)) = 1" "distinct (map ex_exit_id (t_exits d))" using assms(1) by (auto simp: wf_defs)
  then obtain z where z: "filter ex_active (t_exits d) = [z]" by (auto simp: length_Suc_conv)
  have y: "y = z" if "y \<in> set (t_exits d)" "ex_active y" for y
    using that arg_cong [OF z, of set] by auto
  then have "ex_active r \<Longrightarrow> r = q" using assms by metis
  moreover have "ex_exit_id r = ex_exit_id q \<Longrightarrow> r = q"
    using \<open>distinct (map ex_exit_id (t_exits d))\<close> assms by (auto simp: distinct_map dest: inj_onD)
  ultimately show ?thesis using assms by auto
qed

lemma active_key:
  assumes "db_wf d" "Store_Active parse d = (Inr e, d')" "r \<in> set (t_exits d)"
  shows "ex_active r \<longleftrightarrow> ex_exit_id r = e_ExitID e"
proof -
  obtain q where q: "find ex_active (t_exits d) = Some q" "ex_exit_id q = e_ExitID e"
    using assms(2) by (cases rule: select1_cases [of "\<lambda>d. find ex_active (t_exits d)" d])
      (auto simp: Store_Active_def liftE_def bindD_def returnD_def exit_of_row_def split: prod.splits sum.splits)
  then show ?thesis using active_unique [OF assms(1) _ _ assms(3), of q] by (auto simp: find_Some_iff)
qed

lemma Store_Active_same: "Store_Active parse d = (r, d') \<Longrightarrow> same_tables d d'"
  unfolding Store_Active_def
  by (auto simp: liftE_def bindD_def returnD_def split: prod.splits sum.splits dest!: select1_same)

text \<open>The part of the state that only the pointers and the in-flight bookkeeping of an operation touch.\<close>

definition db_only :: "ApplierState \<Rightarrow> ApplierState \<Rightarrow> bool" where
  "db_only a a' = (a' = a\<lparr>ap_DB := ap_DB a'\<rparr>)"

lemma db_onlyE: assumes "db_only a a'" obtains d where "a' = a\<lparr>ap_DB := d\<rparr>"
  using assms unfolding db_only_def by blast

lemma run_db_only: "run_db m a = (r, a') \<Longrightarrow> db_only a a'"
  by (auto simp: run_db_def db_only_def split: prod.splits)

lemma audit_only: "db_only a (audit x t r a)"
  by (simp add: audit_def run_db_def db_only_def split: prod.split)

lemma db_only_trans: "db_only a b \<Longrightarrow> db_only b c \<Longrightarrow> db_only a c"
  by (elim db_onlyE) (simp add: db_only_def)

definition restore_error :: "string \<Rightarrow> core_error option \<Rightarrow> bool" where
  "restore_error p e = (\<exists>x. e = Some (CoreExit (''restore prior exit '' @ p) x))"

lemma compensate_outcome:
  assumes "compensateSwitch en p reason term a = ((st, re), a')" "p \<noteq> []" "en_ExitStore en"
  shows "db_only a a'" "t_versions (ap_DB a') = t_versions (ap_DB a)"
    "re = None \<and> t_exits (ap_DB a') = moved_to p (t_exits (ap_DB a)) \<or> restore_error p re \<and> t_exits (ap_DB a') = t_exits (ap_DB a)"
proof -
  obtain r d where s: "Store_Switch p (ap_DB a) = (r, d)" by fastforce
  obtain r' where a': "a' = audit (''exits.switch.'' @ st) (''prior='' @ p) r' (a\<lparr>ap_DB := d\<rparr>)"
    "re = None \<and> r = Inr () \<or> restore_error p re \<and> r \<noteq> Inr ()"
    using assms s by (cases r) (auto simp: compensateSwitch_def run_db_def restore_error_def Let_def)
  have f: "same_pointers (a\<lparr>ap_DB := d\<rparr>) a'" unfolding a' by (rule audit_pointers)
  show "db_only a a'" unfolding a' by (rule db_only_trans [OF _ audit_only]) (simp add: db_only_def)
  show "t_versions (ap_DB a') = t_versions (ap_DB a)"
    using f s Switch_ok(2) Switch_error by (cases r) (fastforce simp: same_pointers_def elim!: same_tablesE)+
  show "re = None \<and> t_exits (ap_DB a') = moved_to p (t_exits (ap_DB a)) \<or> restore_error p re \<and> t_exits (ap_DB a') = t_exits (ap_DB a)"
    using a'(2) f s Switch_ok(2) Switch_error by (cases r) (fastforce simp: same_pointers_def elim!: same_tablesE)+
qed


text \<open>The three ways a switch can end: the new exit is the active one; the table is as before; or putting
  the prior exit back failed, the error says so and the new exit is still the active one.\<close>

definition switch_result :: "string \<Rightarrow> core_error option \<Rightarrow> ApplierState \<Rightarrow> ApplierState \<Rightarrow> bool" where
  "switch_result x err a a' = (
     if err = None then t_exits (ap_DB a') = moved_to x (t_exits (ap_DB a))
     else t_exits (ap_DB a') = t_exits (ap_DB a) \<or>
       (\<exists>e p y. err = Some (CoreJoin e (CoreExit (''restore prior exit '' @ p) y)) \<and> t_exits (ap_DB a') = moved_to x (t_exits (ap_DB a))))"

lemma compensated:
  assumes "compensateSwitch en p reason term b = ((st, re), c)" "p \<noteq> []" "en_ExitStore en" "\<And>r. r \<in> set (t_exits (ap_DB a)) \<Longrightarrow> ex_active r \<longleftrightarrow> ex_exit_id r = p"
    "t_exits (ap_DB b) = moved_to x (t_exits (ap_DB a))"
  shows "switch_result x (Some (joinErr e re)) a c"
  using compensate_outcome(3) [OF assms(1-3)] moved_back [OF assms(4)] assms(5)
  by (auto simp: switch_result_def restore_error_def joinErr_def)

lemma switch_result_same:
  "switch_result x err a b \<Longrightarrow> t_exits (ap_DB c) = t_exits (ap_DB b) \<Longrightarrow> switch_result x err a c"
  by (auto simp: switch_result_def split: if_splits)

text \<open>What a switch leaves alone between taking and releasing its reservations.\<close>

definition steady :: "ApplierState \<Rightarrow> ApplierState \<Rightarrow> bool" where
  "steady a a' = (t_versions (ap_DB a') = t_versions (ap_DB a) \<and> ap_Resolver a' = ap_Resolver a \<and> ap_inflight a' = ap_inflight a \<and>
     ap_protectedExits a' = ap_protectedExits a \<and> ap_variationActive a' = ap_variationActive a)"

lemma steady_refl [simp]: "steady a a"
  by (simp add: steady_def)

lemma steady_trans: "steady a b \<Longrightarrow> steady b c \<Longrightarrow> steady a c"
  by (simp add: steady_def)

lemma steady_db: "same_pointers a a' \<Longrightarrow> db_only a a' \<Longrightarrow> steady a a'"
  by (auto simp: steady_def same_pointers_def elim!: db_onlyE)

lemma steady_steps [simp]:
  "steady a (clearTerminalStatus i a)" "steady a (clearSwitchInflight i a)" "steady a (registerSwitchInflight i si a)"
  "steady a (recordTerminalStatus i s r a)"
  by (auto simp: steady_def clearTerminalStatus_def clearSwitchInflight_def registerSwitchInflight_def recordTerminalStatus_def
      Let_def split: prod.split)

lemma steady_audit [simp]: "steady a (audit x t r a)"
  by (rule steady_db [OF audit_pointers audit_only])

lemma steady_run: "pointer_frame m \<Longrightarrow> run_db m a = (r, a') \<Longrightarrow> steady a a'"
  using run_db_same [of m a r a'] run_db_only [of m a r a'] steady_db [of a a'] by blast

lemma steady_persist [simp]: "steady a (persistApplyStatus i s st r a)"
proof -
  obtain x a' where x: "run_db (UpdateApplyStatus i st r) a = (x, a')" by fastforce
  have "steady a a'" by (rule steady_run [OF pointer_frame_UpdateApplyStatus x])
  then show ?thesis using x by (cases x) (auto simp: persistApplyStatus_def intro: steady_trans)
qed

lemmas steady_into = steady_trans [OF _ steady_audit] steady_trans [OF _ steady_persist]
  steady_trans [OF _ steady_steps(1)] steady_trans [OF _ steady_steps(2)] steady_trans [OF _ steady_steps(3)]

context orchestrator_contract
begin

lemma apply_plain:
  assumes "oo_Apply ops commit req (o1, a) = ((res, err), o2, a')" "\<not> rq_Commit req"
  shows "a' = a"
proof (cases "err = None \<and> ar_Health res \<noteq> ''observing''")
  case True
  then show ?thesis using apply_done assms by (auto simp: commit_done_def)
next
  case False
  then show ?thesis using apply_undone [OF assms(1)] assms(2) by (auto simp: commit_failed_def)
qed

end

lemma exits_run: "pointer_frame m \<Longrightarrow> run_db m a = (r, a') \<Longrightarrow> t_exits (ap_DB a') = t_exits (ap_DB a)"
  using run_db_same by (auto simp: same_pointers_def)

lemma exits_steps [simp]:
  "t_exits (ap_DB (audit x t r a)) = t_exits (ap_DB a)" "t_exits (ap_DB (persistApplyStatus i s st r' a)) = t_exits (ap_DB a)"
  "t_exits (ap_DB (clearTerminalStatus i a)) = t_exits (ap_DB a)" "t_exits (ap_DB (clearSwitchInflight i a)) = t_exits (ap_DB a)"
  "t_exits (ap_DB (registerSwitchInflight i si a)) = t_exits (ap_DB a)"
  using audit_pointers [of a x t r] persist_pointers [of a i s st r']
  by (simp_all add: same_pointers_def clearTerminalStatus_def clearSwitchInflight_def registerSwitchInflight_def)

text \<open>The reply of an orchestrator that keeps its contract.\<close>

definition lawful_reply :: "ApplyResult \<times> orch_error option \<Rightarrow> bool" where
  "lawful_reply reply = (case reply of (res, err) \<Rightarrow> err = None \<and> ar_Health res \<noteq> ''observing'' \<longrightarrow> applyTerminalState res = ''confirmed'')"

lemma conclude_switch_outcome:
  assumes "conclude_switch en i n x p reply b = ((keep, res, err), c)" "lawful_reply reply" "p \<noteq> []" "en_ExitStore en"
    "\<And>r. r \<in> set (t_exits (ap_DB a)) \<Longrightarrow> ex_active r \<longleftrightarrow> ex_exit_id r = p" "t_exits (ap_DB b) = moved_to x (t_exits (ap_DB a))"
  shows "switch_result x err a c" "steady b c" "keep \<longleftrightarrow> err = None \<and> cr_Health res = ''observing''"
    "keep \<Longrightarrow> c = b \<and> cr_SnapshotID res = n"
proof -
  obtain ores oerr where reply: "reply = (ores, oerr)" by fastforce
  have "switch_result x err a c \<and> steady b c \<and> (keep \<longleftrightarrow> err = None \<and> cr_Health res = ''observing'') \<and> (keep \<longrightarrow> c = b \<and> cr_SnapshotID res = n)"
  proof (cases oerr)
    case None
    then show ?thesis using assms(1,2,6) reply
      by (auto simp: conclude_switch_def lawful_reply_def Let_def audit_confirmed_def switch_result_def
         intro!: steady_into split: if_splits)
  next
    case (Some e)
    define reason tm where "reason = (if e = ErrApplyInFlight then ''apply-in-flight'' else orch_error_text e)"
      and "tm = (if e = ErrApplyInFlight \<or> ar_RolledBack ores then ''rolled_back'' else ''failed'')"
    obtain st re c1 where cs: "compensateSwitch en p reason tm (clearSwitchInflight n b) = ((st, re), c1)" by (metis prod.exhaust)
    have r: "switch_result x (Some (joinErr (CoreOrch e) re)) a c1"
      by (rule compensated [OF cs assms(3-5)]) (simp_all add: assms(6))
    have "steady (clearSwitchInflight n b) c1"
      using compensate_outcome(1,2) [OF cs assms(3,4)] by (auto simp: steady_def elim!: db_onlyE)
    then have st1: "steady b c1" using steady_trans steady_steps(2) by blast
    have c: "err = Some (joinErr (CoreOrch e) re)" "\<not> keep" "\<exists>s r. c = persistApplyStatus i n s r c1"
      using assms(1) reply Some cs by (cases e; force simp: conclude_switch_def reason_def tm_def Let_def)+
    then show ?thesis using r st1 steady_trans steady_persist by (auto intro: switch_result_same)
  qed
  then show "switch_result x err a c" "steady b c" "keep \<longleftrightarrow> err = None \<and> cr_Health res = ''observing''"
    "keep \<Longrightarrow> c = b \<and> cr_SnapshotID res = n" by auto
qed


lemma fail_switch_outcome:
  assumes "fail_switch en p e b = ((keep, res, err), c)" "p \<noteq> []" "en_ExitStore en"
    "\<And>r. r \<in> set (t_exits (ap_DB a)) \<Longrightarrow> ex_active r \<longleftrightarrow> ex_exit_id r = p" "t_exits (ap_DB b) = moved_to x (t_exits (ap_DB a))"
  shows "switch_result x err a c" "steady b c" "\<not> keep \<and> err \<noteq> None"
proof -
  obtain st re c1 where cs: "compensateSwitch en p (en_text en e) ''rolled_back'' b = ((st, re), c1)" by (metis prod.exhaust)
  have eq: "\<not> keep" "err = Some (joinErr e re)" "c = c1" using assms(1) cs by (auto simp: fail_switch_def)
  show "switch_result x err a c" unfolding eq by (rule compensated [OF cs assms(2-5)])
  show "steady b c" using compensate_outcome(1,2) [OF cs assms(2,3)] by (auto simp: eq steady_def elim!: db_onlyE)
  show "\<not> keep \<and> err \<noteq> None" using eq by simp
qed

lemma run_Assemble_steady:
  assumes "\<And>s. en_Store en = Some s \<Longrightarrow> store_reads s" "run_db (Assemble lib base (en_Store en)) a = (r, a')"
  shows "steady a a'" "t_exits (ap_DB a') = t_exits (ap_DB a)"
proof -
  obtain d where d: "Assemble lib base (en_Store en) (ap_DB a) = (r, d)" "a' = a\<lparr>ap_DB := d\<rparr>"
    using assms(2) by (auto simp: run_db_def split: prod.splits)
  have "same_pointers a a'" using Assemble_same [OF assms(1) d(1)] d(2) by (intro same_tables_pointers) auto
  then show "steady a a'" "t_exits (ap_DB a') = t_exits (ap_DB a)"
    using d(2) by (auto simp: steady_def same_pointers_def)
qed

context orchestrator_contract
begin

lemma lawful: "oo_Apply ops commit req (o1, a) = ((res, err), o2, a') \<Longrightarrow> lawful_reply (res, err)"
  using apply_done [of commit req o1 a res o2 a'] by (auto simp: lawful_reply_def applyTerminalState_def)

lemma dispatch_switch_outcome:
  assumes run: "dispatch_switch en ops nano x p (o1, b) = ((keep, res, err), o2, c)"
    and st: "\<And>s. en_Store en = Some s \<Longrightarrow> store_reads s" and p: "p \<noteq> []" "en_ExitStore en"
    and act: "\<And>r. r \<in> set (t_exits (ap_DB a)) \<Longrightarrow> ex_active r \<longleftrightarrow> ex_exit_id r = p"
    and b: "t_exits (ap_DB b) = moved_to x (t_exits (ap_DB a))"
  shows "switch_result x err a c \<and> steady b c \<and> (keep \<longleftrightarrow> err = None \<and> cr_Health res = ''observing'') \<and>
    (keep \<longrightarrow> (\<exists>i. ap_switchInflight c (cr_SnapshotID res) = Some \<lparr>si_statusID = i, si_newExitID = x, si_priorExitID = p\<rparr>))"
proof -
  let ?snap = "\<lparr>sn_ID = 0, sn_CreatedAt = 0, sn_ConfigHash = ''exit-switch:'' @ x @ '':'' @ itoa nano,
                sn_TarballPath = [], sn_Note = ''exit-switch:'' @ x\<rparr>"
  obtain r1 b1 where 1: "run_db (Assemble (en_lib en) (en_BaseConfig en) (en_Store en)) b = (r1, b1)" by fastforce
  note s1 = run_Assemble_steady [OF st 1]
  obtain r2 b2 where 2: "run_db (InsertSnapshot ?snap) b1 = (r2, b2)" by fastforce
  note s2 = steady_run [OF pointer_frame_InsertSnapshot 2] exits_run [OF pointer_frame_InsertSnapshot 2]
  have fail: ?thesis if "fail_switch en p e b' = ((keep, res, err), c)" "steady b b'" "t_exits (ap_DB b') = t_exits (ap_DB b)" for e b'
  proof -
    have "t_exits (ap_DB b') = moved_to x (t_exits (ap_DB a))" using that(3) b by simp
    from fail_switch_outcome [OF that(1) p act this] show ?thesis using steady_trans [OF that(2)] by auto
  qed
  show ?thesis
  proof (cases r1)
    case (Inl e)
    then show ?thesis using run 1 s1 by (intro fail [of _ b1]) (auto simp: dispatch_switch_def split: prod.splits)
  next
    case r1: (Inr cfg)
    show ?thesis
    proof (cases r2)
      case (Inl e)
      then show ?thesis using run 1 2 r1 s1 s2
        by (intro fail [of _ b2]) (auto simp: dispatch_switch_def split: prod.splits intro: steady_trans)
    next
      case r2: (Inr n)
      obtain r3 b3 where 3: "run_db (InsertApplyStatus n ''exits.switch'') b2 = (r3, b3)" by fastforce
      note s3 = steady_run [OF pointer_frame_InsertApplyStatus 3] exits_run [OF pointer_frame_InsertApplyStatus 3]
      have sb3: "steady b b3" using s1 s2 s3 steady_trans by blast
      show ?thesis
      proof (cases r3)
        case (Inl e)
        then show ?thesis using run 1 2 3 r1 r2 s1 s2 s3 sb3
          by (intro fail [of _ b3]) (auto simp: dispatch_switch_def split: prod.splits)
      next
        case r3: (Inr i)
        let ?b = "registerSwitchInflight n \<lparr>si_statusID = i, si_newExitID = x, si_priorExitID = p\<rparr> (clearTerminalStatus n b3)"
        let ?req = "\<lparr>rq_SnapshotID = n, rq_RuleVersionID = 0, rq_Config = Some cfg, rq_PrevSnapshot = 0, rq_Commit = False\<rparr>"
        obtain ores oerr o3 b4 where ap: "oo_Apply ops (commit_callback en) ?req (o1, ?b) = ((ores, oerr), o3, b4)" by (metis prod.exhaust)
        have b4: "b4 = ?b" by (rule apply_plain [OF ap]) simp
        have con: "conclude_switch en i n x p (ores, oerr) ?b = ((keep, res, err), c)"
          using run 1 2 3 r1 r2 r3 ap by (auto simp: dispatch_switch_def Let_def b4 split: prod.splits)
        have "t_exits (ap_DB ?b) = moved_to x (t_exits (ap_DB a))" using s1 s2 s3 b by simp
        note out = conclude_switch_outcome [OF con lawful [OF ap] p act this]
        have "steady b ?b" using sb3 by (intro steady_into)
        moreover have "ap_switchInflight ?b n = Some \<lparr>si_statusID = i, si_newExitID = x, si_priorExitID = p\<rparr>"
          by (simp add: registerSwitchInflight_def)
        ultimately show ?thesis using out steady_trans by auto
      qed
    qed
  qed
qed

end


lemma begin_idle: "\<not> ap_variationActive a \<Longrightarrow> beginVariation a = (True, a\<lparr>ap_variationActive := True\<rparr>)"
  by (simp add: beginVariation_def)

lemma run_switch:
  assumes "run_db (Store_Switch x) a = (r, a')"
  shows "t_versions (ap_DB a') = t_versions (ap_DB a)" "db_only a a'"
    "t_exits (ap_DB a') = (case r of Inl _ \<Rightarrow> t_exits (ap_DB a) | Inr _ \<Rightarrow> moved_to x (t_exits (ap_DB a)))"
    "\<And>u. r = Inr u \<Longrightarrow> x \<in> ex_exit_id ` set (t_exits (ap_DB a))"
proof -
  obtain d where d: "Store_Switch x (ap_DB a) = (r, d)" "a' = a\<lparr>ap_DB := d\<rparr>"
    using assms by (auto simp: run_db_def split: prod.splits)
  show "db_only a a'" using d by (simp add: db_only_def)
  have "t_versions d = t_versions (ap_DB a) \<and> t_exits d = (case r of Inl _ \<Rightarrow> t_exits (ap_DB a) | Inr _ \<Rightarrow> moved_to x (t_exits (ap_DB a)))"
    using d(1) by (cases r) (auto dest!: Switch_ok(2) Switch_error elim!: same_tablesE)
  then show "t_versions (ap_DB a') = t_versions (ap_DB a)"
    "t_exits (ap_DB a') = (case r of Inl _ \<Rightarrow> t_exits (ap_DB a) | Inr _ \<Rightarrow> moved_to x (t_exits (ap_DB a)))" using d(2) by simp_all
  show "\<And>u. r = Inr u \<Longrightarrow> x \<in> ex_exit_id ` set (t_exits (ap_DB a))" using d(1) Switch_ok(1) [of x "ap_DB a" d] by simp
qed

text \<open>Reservations after a switch: held for both exits while the health observation runs, given back otherwise.\<close>

definition reserved :: "string \<Rightarrow> int \<Rightarrow> bool \<Rightarrow> ApplierState \<Rightarrow> ApplierState \<Rightarrow> bool" where
  "reserved x n open a a' = (if open
     then ap_variationActive a' \<and> (\<exists>r i. r \<in> set (t_exits (ap_DB a)) \<and> ex_active r \<and>
       ap_switchInflight a' n = Some \<lparr>si_statusID = i, si_newExitID = x, si_priorExitID = ex_exit_id r\<rparr> \<and>
       ap_protectedExits a' = (\<lambda>y. ap_protectedExits a y + exit_uses [ex_exit_id r, x] y))
     else ap_variationActive a' = ap_variationActive a \<and> ap_protectedExits a' = ap_protectedExits a)"

lemma adapter_prior:
  assumes "db_wf d" "[] \<notin> ex_exit_id ` set (t_exits d)" "adapter_Active parse d = (Inr p, d')"
  shows "p \<noteq> []" "\<And>r. r \<in> set (t_exits d) \<Longrightarrow> ex_active r \<longleftrightarrow> ex_exit_id r = p" "\<exists>r. r \<in> set (t_exits d) \<and> ex_active r \<and> ex_exit_id r = p"
proof -
  have "filter ex_active (t_exits d) \<noteq> []" using assms(1) by (auto simp: wf_defs)
  then obtain z where z: "z \<in> set (t_exits d)" "ex_active z" by (auto simp: filter_empty_conv)
  obtain e where e: "Store_Active parse d = (Inr e, d')" "p = e_ExitID e"
  proof -
    have "find ex_active (t_exits d) \<noteq> None" using z by (auto simp: find_None_iff)
    then have "Store_Active parse d \<noteq> (Inl ErrNoActive, d'')" for d''
      by (cases rule: select1_cases [of "\<lambda>d. find ex_active (t_exits d)" d])
        (auto simp: Store_Active_def liftE_def bindD_def returnD_def split: prod.splits sum.splits)
    then show thesis using assms(3) that by (auto simp: adapter_Active_def split: prod.splits sum.splits if_splits)
  qed
  show a: "\<And>r. r \<in> set (t_exits d) \<Longrightarrow> ex_active r \<longleftrightarrow> ex_exit_id r = p" using active_key [OF assms(1) e(1)] e(2) by simp
  show "\<exists>r. r \<in> set (t_exits d) \<and> ex_active r \<and> ex_exit_id r = p" using a z by blast
  then show "p \<noteq> []" using assms(2) by (metis imageI)
qed


context orchestrator_contract
begin

lemma switch_exit:
  assumes w: "db_wf (ap_DB a)" "[] \<notin> ex_exit_id ` set (t_exits (ap_DB a))" and st: "\<And>s. en_Store en = Some s \<Longrightarrow> store_reads s"
    and run: "SwitchExit en (Some ops) nano x (o1, a) = ((res, err), o2, a')"
  shows "switch_result x err a a' \<and> t_versions (ap_DB a') = t_versions (ap_DB a) \<and> ap_Resolver a' = ap_Resolver a \<and>
    reserved x (cr_SnapshotID res) (err = None \<and> cr_Health res = ''observing'') a a'"
proof (cases "en_Store en = None \<or> \<not> en_ExitStore en \<or> x = [] \<or> ap_variationActive a")
  case True
  then have "a' = a \<and> err \<noteq> None" using run by (cases "en_Store en") (auto simp: SwitchExit_def beginVariation_def split: if_splits)
  then show ?thesis by (auto simp: switch_result_def reserved_def)
next
  case False
  let ?a = "a\<lparr>ap_variationActive := True\<rparr>"
  obtain r1 d1 where 1: "adapter_Active (en_parse en) (ap_DB a) = (r1, d1)" by fastforce
  have s1: "same_tables (ap_DB a) d1"
    using 1 by (auto simp: adapter_Active_def split: prod.splits sum.splits if_splits dest!: Store_Active_same)
  show ?thesis
  proof (cases r1)
    case (Inl e)
    then show ?thesis using run False 1 s1
      by (auto simp: SwitchExit_def begin_idle run_db_def switch_result_def reserved_def endVariation_def elim!: same_tablesE)
  next
    case (Inr p)
    note prior = adapter_prior [OF w 1 [unfolded Inr]]
    let ?b = "protectSwitchExits [p, x] (?a\<lparr>ap_DB := d1\<rparr>)"
    obtain r2 c where 2: "run_db (Store_Switch x) ?b = (r2, c)" by fastforce
    note s2 = run_switch [OF 2]
    have b: "t_exits (ap_DB ?b) = t_exits (ap_DB a)" "t_versions (ap_DB ?b) = t_versions (ap_DB a)" "ap_Resolver ?b = ap_Resolver a"
      using s1 by (auto simp: protect_eq elim!: same_tablesE)
    have c: "ap_Resolver c = ap_Resolver a" "ap_variationActive c" "ap_protectedExits c = (\<lambda>y. ap_protectedExits a y + exit_uses [p, x] y)"
      using s2(2) by (auto simp: protect_eq elim!: db_onlyE)
    show ?thesis
    proof (cases r2)
      case (Inl e)
      then have "a' = endVariation (unprotectSwitchExits [p, x] c)" "err \<noteq> None"
        using run False 1 Inr 2 by (auto simp: SwitchExit_def begin_idle run_db_def Let_def)
      then show ?thesis using s2 b c Inl False
        by (auto simp: switch_result_def reserved_def endVariation_def unprotect_eq)
    next
      case r2: (Inr u)
      obtain keep res' err' o' b' where d: "dispatch_switch en ops nano x p (o1, c) = ((keep, res', err'), o', b')" by (metis prod.exhaust)
      have "t_exits (ap_DB c) = moved_to x (t_exits (ap_DB a))" using s2(3) r2 b by simp
      note out = dispatch_switch_outcome [OF d st prior(1) _ prior(2) this]
      have out: "switch_result x err' a b'" "steady c b'" "keep \<longleftrightarrow> err' = None \<and> cr_Health res' = ''observing''"
        "keep \<Longrightarrow> \<exists>i. ap_switchInflight b' (cr_SnapshotID res') = Some \<lparr>si_statusID = i, si_newExitID = x, si_priorExitID = p\<rparr>"
        using out False by auto
      have a': "res = res'" "err = err'" "a' = (if keep then b' else endVariation (unprotectSwitchExits [p, x] b'))"
        using run False 1 Inr 2 r2 d by (auto simp: SwitchExit_def begin_idle run_db_def Let_def)
      have "switch_result x err a a'" using out(1) a' by (auto simp: endVariation_def unprotect_eq intro: switch_result_same)
      moreover have "t_versions (ap_DB a') = t_versions (ap_DB a)" "ap_Resolver a' = ap_Resolver a"
        using out(2) a' s2(1) b c by (auto simp: endVariation_def unprotect_eq steady_def)
      moreover have "reserved x (cr_SnapshotID res) keep a a'"
        using out(2,4) a' c prior(3) False by (auto simp: endVariation_def unprotect_eq steady_def reserved_def)
      ultimately show ?thesis using out(3) a' by simp
    qed
  qed
qed

end


lemma switch_needs: "SwitchExit en orch nano x (o1, a) = ((res, None), o2, a') \<Longrightarrow> en_ExitStore en \<and> x \<noteq> []"
  by (rule ccontr, cases "en_Store en"; cases orch; cases "en_ExitStore en") (simp_all add: SwitchExit_def)

lemma switch_steps: "ap_switchInflight (audit y t r a) = ap_switchInflight a" "ap_switchInflight (persistApplyStatus i n s r' a) = ap_switchInflight a"
proof -
  show "ap_switchInflight (audit y t r a) = ap_switchInflight a" by (simp add: audit_def run_db_def split: prod.split)
  obtain x b where x: "run_db (UpdateApplyStatus i s r') a = (x, b)" by fastforce
  have b: "ap_switchInflight b = ap_switchInflight a" using run_db_only [OF x] by (auto elim!: db_onlyE)
  show "ap_switchInflight (persistApplyStatus i n s r' a) = ap_switchInflight a"
    using x b by (cases x) (auto simp: persistApplyStatus_def recordTerminalStatus_def clearTerminalStatus_def Let_def split: prod.split)
qed

lemma compensate_state:
  assumes "compensateSwitch en p reason tm a = ((st, re), a')" "p \<noteq> []" "en_ExitStore en"
  shows "db_only a a'" "st = tm \<or> st = ''failed''"
    "t_exits (ap_DB a') = (case fst (Store_Switch p (ap_DB a)) of Inl _ \<Rightarrow> t_exits (ap_DB a) | Inr _ \<Rightarrow> moved_to p (t_exits (ap_DB a)))"
proof -
  obtain r b where s: "run_db (Store_Switch p) a = (r, b)" by fastforce
  then have r: "fst (Store_Switch p (ap_DB a)) = r" by (auto simp: run_db_def split: prod.splits)
  show "db_only a a'" by (rule compensate_outcome [OF assms])
  obtain r' where a': "a' = audit (''exits.switch.'' @ st) (''prior='' @ p) r' b" "st = tm \<or> st = ''failed''"
    using assms s by (cases r) (auto simp: compensateSwitch_def Let_def)
  show "st = tm \<or> st = ''failed''" by (rule a'(2))
  show "t_exits (ap_DB a') = (case fst (Store_Switch p (ap_DB a)) of Inl _ \<Rightarrow> t_exits (ap_DB a) | Inr _ \<Rightarrow> moved_to p (t_exits (ap_DB a)))"
    using run_switch(3) [OF s] unfolding r a'(1) by simp
qed

lemma finalize_switch:
  assumes "p \<noteq> []" "en_ExitStore en"
  shows "\<exists>c. finalizeSwitchOnHealth en n hres \<lparr>si_statusID = i, si_newExitID = x, si_priorExitID = p\<rparr> a = unprotectSwitchExits [p, x] c \<and>
    steady a c \<and> ap_switchInflight c = ap_switchInflight a \<and>
    t_exits (ap_DB c) = (if applyTerminalState hres = ''confirmed'' then t_exits (ap_DB a)
      else case fst (Store_Switch p (ap_DB a)) of Inl _ \<Rightarrow> t_exits (ap_DB a) | Inr _ \<Rightarrow> moved_to p (t_exits (ap_DB a)))"
proof -
  let ?info = "\<lparr>si_statusID = i, si_newExitID = x, si_priorExitID = p\<rparr>"
  show ?thesis
  proof (cases "applyTerminalState hres = ''confirmed''")
    case True
    let ?c = "audit_confirmed x p (persistApplyStatus i n ''confirmed'' (ar_Reason hres) a)"
    have "finalizeSwitchOnHealth en n hres ?info a = unprotectSwitchExits [p, x] ?c"
      using True by (simp add: finalizeSwitchOnHealth_def Let_def)
    moreover have "steady a ?c" "ap_switchInflight ?c = ap_switchInflight a" unfolding audit_confirmed_def
      by (intro steady_into steady_refl) (simp add: switch_steps)
    ultimately show ?thesis using True by (intro exI [of _ ?c]) (simp add: audit_confirmed_def)
  next
    case False
    define reason where "reason = (if ar_Reason hres = [] then ''orchestrator did not confirm the exit switch'' else ar_Reason hres)"
    obtain st re b where cs: "compensateSwitch en p reason (applyTerminalState hres) a = ((st, re), b)" by (metis prod.exhaust)
    note out = compensate_state [OF cs assms]
    have "st \<noteq> ''confirmed''" using out(2) False by auto
    then obtain r where f: "finalizeSwitchOnHealth en n hres ?info a = unprotectSwitchExits [p, x] (persistApplyStatus i n st r b)"
      using False cs by (auto simp: finalizeSwitchOnHealth_def Let_def reason_def)
    let ?c = "persistApplyStatus i n st r b"
    have "steady a ?c" by (rule steady_into) (use out(1) compensate_outcome(2) [OF cs assms] in \<open>auto simp: steady_def elim!: db_onlyE\<close>)
    moreover have "ap_switchInflight ?c = ap_switchInflight a" using out(1) by (auto simp: switch_steps elim!: db_onlyE)
    ultimately show ?thesis using f False out(3) by (intro exI [of _ ?c]) simp
  qed
qed

lemma DeleteExit_reserved: "en_ExitStore en \<Longrightarrow> 0 < ap_protectedExits a y \<Longrightarrow> DeleteExit en y a = (Some CoreExitSwitchInFlight, a)"
  by (simp add: DeleteExit_def)

lemma observed_switch_ends:
  assumes "reserved x n True a a1" "en_ExitStore en" "x \<noteq> []" "[] \<notin> ex_exit_id ` set (t_exits (ap_DB a))"
    "\<And>r q. r \<in> set (t_exits (ap_DB a)) \<Longrightarrow> ex_active r \<Longrightarrow> q \<in> set (t_exits (ap_DB a)) \<Longrightarrow> ex_active q \<longleftrightarrow> ex_exit_id q = ex_exit_id r"
    "t_exits (ap_DB a1) = moved_to x (t_exits (ap_DB a))" "rq_SnapshotID req = n" "OnHealth en ops req hres (o2, a1) = (o3, a2)"
  shows "\<exists>r. r \<in> set (t_exits (ap_DB a)) \<and> ex_active r \<and>
    DeleteExit en (ex_exit_id r) a1 = (Some CoreExitSwitchInFlight, a1) \<and> DeleteExit en x a1 = (Some CoreExitSwitchInFlight, a1) \<and>
    ap_protectedExits a2 = ap_protectedExits a \<and> \<not> ap_variationActive a2 \<and> ap_switchInflight a2 n = None \<and>
    t_exits (ap_DB a2) = (if applyTerminalState hres = ''confirmed'' then t_exits (ap_DB a1)
      else case fst (Store_Switch (ex_exit_id r) (ap_DB a1)) of Inl _ \<Rightarrow> t_exits (ap_DB a1) | Inr _ \<Rightarrow> t_exits (ap_DB a))"
proof -
  obtain r i where r: "r \<in> set (t_exits (ap_DB a))" "ex_active r"
    "ap_switchInflight a1 n = Some \<lparr>si_statusID = i, si_newExitID = x, si_priorExitID = ex_exit_id r\<rparr>"
    "ap_protectedExits a1 = (\<lambda>y. ap_protectedExits a y + exit_uses [ex_exit_id r, x] y)"
    using assms(1) by (auto simp: reserved_def)
  let ?p = "ex_exit_id r" and ?b = "a1\<lparr>ap_switchInflight := (ap_switchInflight a1)(n := None)\<rparr>"
  have p: "?p \<noteq> []" using r(1) assms(4) by (metis imageI)
  obtain c where c: "finalizeSwitchOnHealth en n hres \<lparr>si_statusID = i, si_newExitID = x, si_priorExitID = ?p\<rparr> ?b = unprotectSwitchExits [?p, x] c"
    "steady ?b c" "ap_switchInflight c = ap_switchInflight ?b"
    "t_exits (ap_DB c) = (if applyTerminalState hres = ''confirmed'' then t_exits (ap_DB ?b)
      else case fst (Store_Switch ?p (ap_DB ?b)) of Inl _ \<Rightarrow> t_exits (ap_DB ?b) | Inr _ \<Rightarrow> moved_to ?p (t_exits (ap_DB ?b)))"
    using finalize_switch [OF p assms(2)] by blast
  have a2: "a2 = endVariation (unprotectSwitchExits [?p, x] c)"
    using assms(7,8) r(3) c(1) by (auto simp: OnHealth_def takeSwitchInflight_def)
  have undo: "moved_to ?p (t_exits (ap_DB a1)) = t_exits (ap_DB a)"
    unfolding assms(6) by (rule moved_back) (use assms(5) r in blast)
  have del: "DeleteExit en ?p a1 = (Some CoreExitSwitchInFlight, a1)" "DeleteExit en x a1 = (Some CoreExitSwitchInFlight, a1)"
    using r(4) p assms(3) by (auto intro!: DeleteExit_reserved assms(2))
  have "ap_protectedExits c = ap_protectedExits a1" using c(2) by (simp add: steady_def)
  then have "ap_protectedExits a2 = ap_protectedExits a" by (simp add: a2 endVariation_def unprotect_eq r(4))
  moreover have "\<not> ap_variationActive a2" "ap_switchInflight a2 n = None" using c(3) by (simp_all add: a2 endVariation_def unprotect_eq)
  moreover have "t_exits (ap_DB a2) = (if applyTerminalState hres = ''confirmed'' then t_exits (ap_DB a1)
      else case fst (Store_Switch ?p (ap_DB a1)) of Inl _ \<Rightarrow> t_exits (ap_DB a1) | Inr _ \<Rightarrow> t_exits (ap_DB a))"
    using c(4) undo by (simp add: a2 endVariation_def unprotect_eq split: if_split sum.split)
  ultimately show ?thesis using r(1,2) del by blast
qed

section \<open>Properties of an exit switch\<close>

text \<open>(C4) An exit switch on the systemd orchestrator compensates: if it reports no error the requested exit
  is the active one; if it reports an error the exits table is exactly as before, unless putting the prior
  exit back failed too, which the returned error then says.  Rule versions and the published rule table
  are not touched either way.\<close>

theorem switch_exit_compensates:
  assumes "db_wf (ap_DB a)" "[] \<notin> ex_exit_id ` set (t_exits (ap_DB a))" "en_Store en = Some s" "store_reads s"
    and "SwitchExit en (Some (systemd_ops rn)) nano x (o1, a) = ((res, err), o2, a')"
  shows "t_versions (ap_DB a') = t_versions (ap_DB a) \<and> ap_Resolver a' = ap_Resolver a \<and>
    (if err = None then t_exits (ap_DB a') = moved_to x (t_exits (ap_DB a))
     else t_exits (ap_DB a') = t_exits (ap_DB a) \<or>
       (\<exists>e p y. err = Some (CoreJoin e (CoreExit (''restore prior exit '' @ p) y)) \<and> t_exits (ap_DB a') = moved_to x (t_exits (ap_DB a))))"
  using sd.switch_exit [OF assms(1,2) _ assms(5)] assms(3,4) unfolding switch_result_def by auto

definition sample_exits :: ApplierState where
  "sample_exits = sample_applier\<lparr>ap_DB := sampleDB\<lparr>t_exits := t_exits sampleDB @
     [\<lparr>ex_ID = 2, ex_exit_id = ''hk'', ex_name = ''hk'', ex_protocol = ''ss'', ex_uri = ''ss://x'', ex_active = False, ex_created_at = 3\<rparr>],
     seq_exits := 2\<rparr>\<rparr>"

lemma sample_exits_wf: "db_wf (ap_DB sample_exits)" "[] \<notin> ex_exit_id ` set (t_exits (ap_DB sample_exits))"
  by (simp_all add: sample_exits_def sample_defs wf_defs ids_ok_def one_active_def)

lemmas switch_eval = SwitchExit_def beginVariation_def adapter_Active_def Store_Active_def liftE_def Store_Switch_def
  demote_exits_def promote_exit_def exit_of_row_def protect_eq dispatch_switch_def fail_switch_def compensateSwitch_def

theorem switch_exit_compensates_witness:
  "\<exists>res err o2 a'. SwitchExit (sample_env\<lparr>en_BaseConfig := None\<rparr>) (Some (systemd_ops sample_rn)) 7 ''hk'' ((sample_sd False, sample_world []), sample_exits)
      = ((res, err), o2, a') \<and> err = Some (CoreAssemble ErrNilBase) \<and> t_exits (ap_DB a') = t_exits (ap_DB sample_exits)"
proof -
  let ?en = "sample_env\<lparr>en_BaseConfig := None\<rparr>"
  let ?x = "SwitchExit ?en (Some (systemd_ops sample_rn)) 7 ''hk'' ((sample_sd False, sample_world []), sample_exits)"
  obtain res err o2 a' where eq: "?x = ((res, err), o2, a')" by (metis prod.exhaust)
  have "snd (fst ?x) = Some (CoreAssemble ErrNilBase)"
    by (simp add: switch_eval sample_exits_def sample_defs db_eval Assemble_def joinErr_def)
  then have err: "err = Some (CoreAssemble ErrNilBase)" using eq by simp
  have "en_Store ?en = Some (bootStore (\<lambda>_. Inl ''no''))" by (simp add: sample_env_def)
  from switch_exit_compensates [OF sample_exits_wf this store_reads_boot eq] show ?thesis using eq err by auto
qed


text \<open>An observed exit switch holds its reservations and then gives them back: while the health
  observation of the switch runs neither the new nor the prior exit can be deleted; when \<open>OnHealth\<close> reports,
  whatever it reports, the reservations are as before the switch, the next variation is admitted, and the
  active exit is the new one if health was confirmed and otherwise the prior one, unless the statement that
  puts it back fails.\<close>

theorem switch_observation_ends:
  assumes "db_wf (ap_DB a)" "[] \<notin> ex_exit_id ` set (t_exits (ap_DB a))" "en_Store en = Some s" "store_reads s"
    and "SwitchExit en (Some (systemd_ops rn)) nano x (o1, a) = ((res, None), o2, a1)" "cr_Health res = ''observing''"
    and "rq_SnapshotID req = cr_SnapshotID res" "OnHealth en (systemd_ops rn) req hres (o2, a1) = (o3, a2)"
  shows "\<exists>r. r \<in> set (t_exits (ap_DB a)) \<and> ex_active r \<and>
    DeleteExit en (ex_exit_id r) a1 = (Some CoreExitSwitchInFlight, a1) \<and> DeleteExit en x a1 = (Some CoreExitSwitchInFlight, a1) \<and>
    ap_protectedExits a2 = ap_protectedExits a \<and> \<not> ap_variationActive a2 \<and> ap_switchInflight a2 (cr_SnapshotID res) = None \<and>
    t_exits (ap_DB a2) = (if applyTerminalState hres = ''confirmed'' then moved_to x (t_exits (ap_DB a))
      else case fst (Store_Switch (ex_exit_id r) (ap_DB a1)) of Inl _ \<Rightarrow> moved_to x (t_exits (ap_DB a)) | Inr _ \<Rightarrow> t_exits (ap_DB a))"
proof -
  have "switch_result x None a a1 \<and> reserved x (cr_SnapshotID res) True a a1"
    using sd.switch_exit [OF assms(1,2) _ assms(5)] assms(3,4,6) by auto
  then have 1: "t_exits (ap_DB a1) = moved_to x (t_exits (ap_DB a))" "reserved x (cr_SnapshotID res) True a a1"
    by (auto simp: switch_result_def)
  note needs = switch_needs [OF assms(5)]
  show ?thesis
    using observed_switch_ends [OF 1(2) conjunct1 [OF needs] conjunct2 [OF needs] assms(2) active_unique [OF assms(1)] 1(1) assms(7,8)]
    unfolding 1(1) .
qed


theorem switch_observation_ends_witness:
  "\<exists>res o2 a1 a2. SwitchExit sample_env (Some (systemd_ops sample_rn)) 7 ''hk'' ((sample_sd True, sample_world []), sample_exits) = ((res, None), o2, a1) \<and>
     a2 = snd (OnHealth sample_env (systemd_ops sample_rn)
       \<lparr>rq_SnapshotID = cr_SnapshotID res, rq_RuleVersionID = 0, rq_Config = None, rq_PrevSnapshot = 0, rq_Commit = False\<rparr>
       \<lparr>ar_RolledBack = False, ar_Health = ''ok'', ar_Reason = []\<rparr> (o2, a1)) \<and>
     DeleteExit sample_env ''hk'' a1 = (Some CoreExitSwitchInFlight, a1) \<and> ap_protectedExits a2 ''hk'' = 0 \<and>
     t_exits (ap_DB a2) = moved_to ''hk'' (t_exits (ap_DB sample_exits))"
proof -
  let ?x = "SwitchExit sample_env (Some (systemd_ops sample_rn)) 7 ''hk'' ((sample_sd True, sample_world []), sample_exits)"
  obtain res err o2 a1 where eq: "?x = ((res, err), o2, a1)" by (metis prod.exhaust)
  have "snd (fst ?x) = None \<and> cr_Health (fst (fst ?x)) = ''observing''"
    by (simp add: switch_eval sample_exits_def sample_defs db_eval prepare_eval systemd_eval conclude_switch_def InsertSnapshot_def
        snapshot_insert_def InsertApplyStatus_def clearTerminalStatus_def registerSwitchInflight_def itoa_def)
  then have r: "err = None" "cr_Health res = ''observing''" using eq by simp_all
  let ?req = "\<lparr>rq_SnapshotID = cr_SnapshotID res, rq_RuleVersionID = 0, rq_Config = None, rq_PrevSnapshot = 0, rq_Commit = False\<rparr> :: unit Config ApplyRequest"
  let ?h = "\<lparr>ar_RolledBack = False, ar_Health = ''ok'', ar_Reason = []\<rparr>"
  obtain o3 a2 where h: "OnHealth sample_env (systemd_ops sample_rn) ?req ?h (o2, a1) = (o3, a2)" by fastforce
  have st: "en_Store sample_env = Some (bootStore (\<lambda>_. Inl ''no''))" by (simp add: sample_env_def)
  have p: "ap_protectedExits sample_exits ''hk'' = 0" by (simp add: sample_exits_def sample_applier_def)
  have "applyTerminalState ?h = ''confirmed''" by (simp add: applyTerminalState_def)
  then show ?thesis using eq r h p switch_observation_ends [OF sample_exits_wf st store_reads_boot eq [unfolded r(1)] r(2) _ h] by auto
qed

end
