(* ===== verification/Lifecycle.thy ===== *)
theory Lifecycle
  imports Switching
begin

text \<open>
  The durable life cycle of a rules apply, \<open>internal/core/applier.go\<close> with \<open>internal/orchestrator/systemd.go\<close>:
  the \<open>apply_status\<close> row an apply writes, the state a client sees for it, and how the health observation that
  \<open>cmd/5gpn/main.go\<close> wires to \<open>OnHealth\<close> brings an apply to its end.
\<close>

section \<open>Life-cycle rows\<close>

text \<open>The state of a life-cycle row as \<open>Status\<close> reports it.\<close>

definition visible_state :: "ApplierState \<Rightarrow> ApplyStatus \<Rightarrow> string" where
  "visible_state a r = (case TerminalStatus (as_SnapshotID r) a of
      Some t \<Rightarrow> if as_State r = ''submitted'' then ts_State t else as_State r
    | None \<Rightarrow> as_State r)"

text \<open>A cached terminal state stands in for a row only while the row itself was not updated.\<close>

definition cache_only :: "ApplierState \<Rightarrow> ApplyStatus \<Rightarrow> bool" where
  "cache_only a r = (TerminalStatus (as_SnapshotID r) a = None \<or> as_State r = ''submitted'')"

definition newest_row :: "ApplierState \<Rightarrow> ApplyStatus \<Rightarrow> bool" where
  "newest_row a row = (\<forall>r\<in>set (t_apply (ap_DB a)). as_ID r < as_ID row)"

lemma clear_terminal: "TerminalStatus n (clearTerminalStatus n a) = None"
  by (simp add: clearTerminalStatus_def TerminalStatus_def)

lemma update_rows:
  assumes "t_apply d = rows @ [row]" "as_ID row = i" "i \<notin> as_ID ` set rows" "st \<in> set apply_states"
    "UpdateApplyStatus i st reason d = (r, d')"
  shows "r = Inr () \<and> t_apply d' = rows @ [row\<lparr>as_State := st, as_Reason := reason, as_UpdatedAt := db_now d\<rparr>] \<or>
    (\<exists>e. r = Inl e) \<and> t_apply d' = t_apply d"
proof -
  have f: "filter (\<lambda>a. as_ID a = i) rows = []" using assms(3) by (auto simp: filter_empty_conv)
  have m: "map (\<lambda>a. if as_ID a = i then a\<lparr>as_State := st, as_Reason := reason, as_UpdatedAt := db_now d\<rparr> else a) rows = rows"
    using assms(3) by (intro map_idI) auto
  have u: "apply_update i st reason (d\<lparr>db_faults := fs\<rparr>) = (Inr 1, d\<lparr>db_faults := fs,
      t_apply := rows @ [row\<lparr>as_State := st, as_Reason := reason, as_UpdatedAt := db_now d\<rparr>]\<rparr>)" for fs
    using assms(1,2,4) f m by (simp add: apply_update_def cong: if_cong)
  show ?thesis
  proof (cases rule: stmt_cases [of "apply_update i st reason" d])
    case (fault e fs)
    then show ?thesis using assms(5) by (auto simp: UpdateApplyStatus_def bindD_def)
  next
    case (run fs)
    then show ?thesis using assms(5) u by (auto simp: UpdateApplyStatus_def bindD_def returnD_def)
  qed
qed

lemma cache_ok_db [simp]: "cache_ok (a\<lparr>ap_DB := d\<rparr>) = cache_ok a"
  by (simp add: cache_ok_def)

lemma persist_settles:
  assumes "t_apply (ap_DB a) = rows @ [row]" "as_ID row = i" "i \<notin> as_ID ` set rows" "as_State row = ''submitted''" "as_SnapshotID row = n"
    "cache_ok a" "st \<in> {''confirmed'', ''rolled_back'', ''failed''}"
  shows "\<exists>row'. t_apply (ap_DB (persistApplyStatus i n st reason a)) = rows @ [row'] \<and> as_ID row' = i \<and> as_SnapshotID row' = n \<and>
    visible_state (persistApplyStatus i n st reason a) row' = st \<and> cache_only (persistApplyStatus i n st reason a) row'" "cache_ok (persistApplyStatus i n st reason a)"
proof -
  obtain r d where u: "UpdateApplyStatus i st reason (ap_DB a) = (r, d)" by fastforce
  let ?b = "a\<lparr>ap_DB := d\<rparr>" and ?a = "persistApplyStatus i n st reason a"
  have st: "st \<in> set apply_states" "st \<noteq> ''submitted''" using assms(7) by (auto simp: apply_states_def)
  have "(\<exists>row'. t_apply (ap_DB ?a) = rows @ [row'] \<and> as_ID row' = i \<and> as_SnapshotID row' = n \<and> visible_state ?a row' = st \<and> cache_only ?a row') \<and> cache_ok ?a"
    using update_rows [OF assms(1-3) st(1) u]
  proof
    assume r: "r = Inr () \<and> t_apply d = rows @ [row\<lparr>as_State := st, as_Reason := reason, as_UpdatedAt := db_now (ap_DB a)\<rparr>]"
    then have "?a = clearTerminalStatus n ?b" using u by (simp add: persistApplyStatus_def run_db_def)
    moreover have "ap_DB (clearTerminalStatus n ?b) = d" by (simp add: clearTerminalStatus_def)
    ultimately show ?thesis using r assms st clear_ok [of ?b n] clear_terminal [of n ?b] by (auto simp: visible_state_def cache_only_def split: option.split)
  next
    assume r: "(\<exists>e. r = Inl e) \<and> t_apply d = t_apply (ap_DB a)"
    then have a: "?a = recordTerminalStatus n st reason ?b" using u by (auto simp: persistApplyStatus_def run_db_def)
    have "ap_DB (recordTerminalStatus n st reason ?b) = d" by (simp add: recordTerminalStatus_def Let_def split: prod.split)
    then show ?thesis using r assms record_ok [of ?b n st reason] unfolding a by (auto simp: visible_state_def cache_only_def)
  qed
  then show "\<exists>row'. t_apply (ap_DB ?a) = rows @ [row'] \<and> as_ID row' = i \<and> as_SnapshotID row' = n \<and> visible_state ?a row' = st \<and> cache_only ?a row'" "cache_ok ?a"
    by auto
qed


text \<open>Applier states with the same life-cycle rows and the same cache.\<close>

definition same_rows :: "ApplierState \<Rightarrow> ApplierState \<Rightarrow> bool" where
  "same_rows a a' = (t_apply (ap_DB a') = t_apply (ap_DB a) \<and> ap_terminalStatus a' = ap_terminalStatus a \<and> ap_terminalOrder a' = ap_terminalOrder a)"

lemma same_rows_trans: "same_rows a b \<Longrightarrow> same_rows b c \<Longrightarrow> same_rows a c"
  by (simp add: same_rows_def)

lemma same_rows_visible: "same_rows a a' \<Longrightarrow> visible_state a' r = visible_state a r"
  by (simp add: same_rows_def visible_state_def TerminalStatus_def)

lemma same_rows_cache: "same_rows a a' \<Longrightarrow> cache_ok a' = cache_ok a"
  by (simp add: same_rows_def cache_ok_def)

lemma same_rows_steps [simp]: "same_rows a (clearInflight i a)" "same_rows a (registerInflight i info a)" "same_rows a (endVariation a)"
  by (simp_all add: same_rows_def clearInflight_def registerInflight_def endVariation_def)

lemma same_rows_tables: "same_tables (ap_DB a) (ap_DB a') \<Longrightarrow> db_only a a' \<Longrightarrow> same_rows a a'"
  by (auto simp: same_rows_def elim!: same_tablesE db_onlyE)

lemma commit_rows:
  assumes "commitRuleApply i a = (e, a')" "db_wf (ap_DB a)"
  shows "same_rows a a'"
proof (cases e)
  case (Some x)
  then show ?thesis using commit_error assms(1) same_rows_tables by (auto simp: db_only_def)
next
  case None
  then obtain info where i: "ap_inflight a i = Some info" using assms(1) by (auto simp: commitRuleApply_def getInflight_def split: option.splits)
  show ?thesis
  proof (cases "ri_committed info")
    case True
    then show ?thesis using commit_again [OF i] assms(1) by (simp add: same_rows_def)
  next
    case False
    obtain r d where r: "SetActiveRuleVersion (ri_ruleVersionID info) (ap_DB a) = (r, d)" by fastforce
    then have "r = Inr ()" "a' = registerInflight i (info\<lparr>ri_committed := True\<rparr>) (publish (ri_targetTable info) (a\<lparr>ap_DB := d\<rparr>))"
      using assms(1) None i False by (auto simp: commitRuleApply_def getInflight_def run_db_def split: sum.splits)
    then show ?thesis using r SetActive_ok(2) [OF assms(2), of "ri_ruleVersionID info" d]
      by (auto simp: same_rows_def registerInflight_def publish_def elim!: same_tablesE)
  qed
qed

lemma commit_wf: "commitRuleApply i a = (e, a') \<Longrightarrow> db_wf (ap_DB a) \<Longrightarrow> db_wf (ap_DB a')"
proof -
  assume c: "commitRuleApply i a = (e, a')" and w: "db_wf (ap_DB a)"
  have "ap_DB a' = ap_DB a \<or> (\<exists>v r. SetActiveRuleVersion v (ap_DB a) = (r, ap_DB a'))"
    using c by (auto simp: commitRuleApply_def run_db_def registerInflight_def publish_def split: option.splits if_splits prod.splits sum.splits)
  then show ?thesis using w keepsD [OF keeps_SetActiveRuleVersion w] by auto
qed

lemma commit_switch: "commitRuleApply i a = (e, a') \<Longrightarrow> ap_switchInflight a' = ap_switchInflight a"
  by (auto simp: commitRuleApply_def run_db_def registerInflight_def publish_def split: option.splits if_splits prod.splits sum.splits)

lemma insert_row:
  assumes "db_wf d" "InsertApplyStatus n reason d = (r, d')"
  shows "(\<exists>e. r = Inl e) \<and> t_apply d' = t_apply d \<or>
    (\<exists>i row. r = Inr i \<and> t_apply d' = t_apply d @ [row] \<and> as_ID row = i \<and> i \<notin> as_ID ` set (t_apply d) \<and> (\<forall>r\<in>set (t_apply d). as_ID r < i) \<and>
       as_State row = ''submitted'' \<and> as_SnapshotID row = n)"
proof -
  have f: "seq_apply d + 1 \<notin> as_ID ` set (t_apply d)" "\<forall>r\<in>set (t_apply d). as_ID r < seq_apply d + 1"
    using assms(1) by (fastforce simp: wf_defs ids_ok_def list_all_iff)+
  let ?f = "\<lambda>d. if \<not> list_ex (\<lambda>s. sn_ID s = n) (t_snapshots d) then (Inl (ErrConstraint ''apply_status.snapshot_id''), d)
     else let i = seq_apply d + 1 in
       (Inr i, d\<lparr>seq_apply := i, t_apply := t_apply d @
          [\<lparr>as_ID = i, as_SnapshotID = n, as_State = ''submitted'', as_Reason = reason,
            as_CreatedAt = db_now d, as_UpdatedAt = db_now d\<rparr>]\<rparr>)"
  show ?thesis
    using assms(2) f unfolding InsertApplyStatus_def
    by (cases rule: stmt_cases [of ?f d]) (auto simp: Let_def split: if_splits)
qed

definition reported :: "core_error option \<Rightarrow> CoreApplyResult \<Rightarrow> string \<Rightarrow> bool" where
  "reported err res st = (if err \<noteq> None then st = ''rolled_back'' \<or> st = ''failed''
     else st = (if cr_Health res = ''observing'' then ''submitted'' else ''confirmed''))"

text \<open>The rows after an operation that started in \<open>a\<close>: none was added (only after an error), or one that shows the
  outcome.\<close>

definition recorded :: "int \<Rightarrow> CoreApplyResult \<Rightarrow> core_error option \<Rightarrow> ApplierState \<Rightarrow> ApplierState \<Rightarrow> bool" where
  "recorded n res err a a' = (err \<noteq> None \<and> t_apply (ap_DB a') = t_apply (ap_DB a) \<or>
     (\<exists>row. t_apply (ap_DB a') = t_apply (ap_DB a) @ [row] \<and> as_SnapshotID row = n \<and> reported err res (visible_state a' row)))"

lemma recorded_same: "recorded n res err a b \<Longrightarrow> same_rows a0 a \<Longrightarrow> same_rows b c \<Longrightarrow> recorded n res err a0 c"
  unfolding recorded_def using same_rows_visible [of b c] by (auto simp: same_rows_def)

lemma persist_recorded:
  assumes "t_apply (ap_DB b) = t_apply (ap_DB a) @ [row]" "as_ID row = i" "i \<notin> as_ID ` set (t_apply (ap_DB a))" "as_State row = ''submitted''"
    "as_SnapshotID row = n" "cache_ok b" "st \<in> {''confirmed'', ''rolled_back'', ''failed''}" "reported err res st"
    "same_rows (persistApplyStatus i n st reason b) c"
  shows "recorded n res err a c \<and> cache_ok c"
proof -
  let ?b = "persistApplyStatus i n st reason b"
  obtain row' where r: "t_apply (ap_DB ?b) = t_apply (ap_DB a) @ [row']" "as_SnapshotID row' = n" "visible_state ?b row' = st"
    using persist_settles(1) [OF assms(1-7), of reason] by blast
  have "recorded n res err a ?b" using r assms(8) by (auto simp: recorded_def)
  moreover have "same_rows a a" by (simp add: same_rows_def)
  ultimately show ?thesis
    using recorded_same assms(9) persist_settles(2) [OF assms(1-7), of reason] same_rows_cache [OF assms(9)] by auto
qed


lemma conclude_recorded:
  assumes con: "conclude_rules en ops sid n v ps (ores, oerr) (o3, c) = ((keep, res, err), o2, a')"
    and row: "t_apply (ap_DB c) = t_apply (ap_DB a) @ [row]" "as_ID row = sid" "sid \<notin> as_ID ` set (t_apply (ap_DB a))" "as_State row = ''submitted''"
      "as_SnapshotID row = n" "TerminalStatus n c = None"
    and c: "cache_ok c" "db_wf (ap_DB c)" "lawful_reply (ores, oerr)"
  shows "recorded n res err a a' \<and> cache_ok a'"
proof (cases oerr)
  case (Some e)
  define st where "st = (if e = ErrApplyInFlight \<or> ar_RolledBack ores then ''rolled_back'' else ''failed'')"
  obtain reason where a': "err = Some (CoreOrch e)" "a' = clearInflight n (persistApplyStatus sid n st reason c)"
    using con Some by (cases e) (auto simp: conclude_rules_def Let_def st_def)
  show ?thesis
    by (rule persist_recorded [where b = c and st = st and reason = reason, OF row(1-5) c(1)]) (auto simp: st_def reported_def a')
next
  case None
  show ?thesis
  proof (cases "ar_Health ores = ''observing''")
    case True
    then have "err = None" "a' = c" "cr_Health res = ''observing''" using con None by (auto simp: conclude_rules_def Let_def)
    then show ?thesis using row c(1) by (auto simp: recorded_def reported_def visible_state_def)
  next
    case False
    then have st: "applyTerminalState ores = ''confirmed''" using c(3) None by (simp add: lawful_reply_def)
    obtain e b where cm: "commitRuleApply n c = (e, b)" by fastforce
    note sr = commit_rows [OF cm c(2)]
    have row': "t_apply (ap_DB b) = t_apply (ap_DB a) @ [row]" using sr row(1) by (simp add: same_rows_def)
    have cb: "cache_ok b" using same_rows_cache [OF sr] c(1) by simp
    obtain st' reason where a': "a' = clearInflight n (persistApplyStatus sid n st' reason b)" "st' \<in> {''confirmed'', ''rolled_back'', ''failed''}"
      "reported err res st'"
      using con None False st cm by (cases e) (force simp: conclude_rules_def Let_def reported_def split: prod.splits option.splits)+
    show ?thesis by (rule persist_recorded [where b = b and st = st' and reason = reason, OF row' row(2-5) cb a'(2,3)]) (simp add: a'(1))
  qed
qed

context orchestrator_contract
begin

lemma dispatch_recorded:
  assumes d: "dispatch_rules en ops n v (cfg, t, pv, ps, pt) (o1, a) = ((keep, res, err), o2, a')" and w: "db_wf (ap_DB a)" "cache_ok a"
  shows "recorded n res err a a' \<and> cache_ok a'"
proof -
  obtain r d1 where 1: "InsertApplyStatus n [] (ap_DB a) = (r, d1)" by fastforce
  have w1: "db_wf d1" using keepsD [OF keeps_InsertApplyStatus w(1) 1] .
  from insert_row [OF w(1) 1] show ?thesis
  proof
    assume r: "(\<exists>e. r = Inl e) \<and> t_apply d1 = t_apply (ap_DB a)"
    then have "err \<noteq> None \<and> a' = a\<lparr>ap_DB := d1\<rparr>" using d 1 by (auto simp: dispatch_rules_def run_db_def)
    then show ?thesis using r w(2) by (auto simp: recorded_def)
  next
    assume "\<exists>i row. r = Inr i \<and> t_apply d1 = t_apply (ap_DB a) @ [row] \<and> as_ID row = i \<and> i \<notin> as_ID ` set (t_apply (ap_DB a)) \<and>
       (\<forall>r\<in>set (t_apply (ap_DB a)). as_ID r < i) \<and> as_State row = ''submitted'' \<and> as_SnapshotID row = n"
    then obtain sid row where r: "r = Inr sid" "t_apply d1 = t_apply (ap_DB a) @ [row]"
      and row: "as_ID row = sid" "sid \<notin> as_ID ` set (t_apply (ap_DB a))" "as_State row = ''submitted''" "as_SnapshotID row = n" by blast
    define b where "b = registerInflight n \<lparr>ri_statusID = sid, ri_ruleVersionID = v, ri_priorVersionID = pv, ri_priorSnapshotID = ps,
       ri_targetTable = t, ri_priorTable = pt, ri_committed = False\<rparr> (clearTerminalStatus n (a\<lparr>ap_DB := d1\<rparr>))"
    let ?req = "\<lparr>rq_SnapshotID = n, rq_RuleVersionID = v, rq_Config = Some cfg, rq_PrevSnapshot = ps, rq_Commit = True\<rparr>"
    obtain ores oerr o3 c where ap: "oo_Apply ops (commit_callback en) ?req (o1, b) = ((ores, oerr), o3, c)" by (metis prod.exhaust)
    have con: "conclude_rules en ops sid n v ps (ores, oerr) (o3, c) = ((keep, res, err), o2, a')"
      using d 1 r ap by (simp add: dispatch_rules_def run_db_def Let_def b_def)
    have bb: "ap_DB b = d1" "cache_ok b" "TerminalStatus n b = None"
      using clear_ok [of "a\<lparr>ap_DB := d1\<rparr>" n] w(2) clear_terminal [of n "a\<lparr>ap_DB := d1\<rparr>"]
      by (simp_all add: b_def registerInflight_def clearTerminalStatus_def cache_ok_def TerminalStatus_def)
    have "c = b \<or> (\<exists>e. commitRuleApply n b = (e, c))"
    proof (cases "oerr = None \<and> ar_Health ores \<noteq> ''observing''")
      case True
      then show ?thesis using apply_done [of "commit_callback en" ?req o1 b ores o3 c] ap
        by (auto simp: commit_done_def commit_callback_def split: prod.splits)
    next
      case False
      then show ?thesis using apply_undone [OF ap] by (auto simp: commit_failed_def commit_callback_def split: prod.splits)
    qed
    then have sc: "same_rows b c \<and> db_wf (ap_DB c)"
    proof
      assume "\<exists>e. commitRuleApply n b = (e, c)"
      then obtain e where e: "commitRuleApply n b = (e, c)" by blast
      show ?thesis using commit_rows [OF e] commit_wf [OF e] w1 bb(1) by simp
    qed (use w1 bb in \<open>simp add: same_rows_def\<close>)
    have "t_apply (ap_DB c) = t_apply (ap_DB a) @ [row]" using sc bb(1) r(2) by (simp add: same_rows_def)
    moreover have "TerminalStatus n c = None" "cache_ok c" using sc bb same_rows_cache by (auto simp: same_rows_def TerminalStatus_def)
    ultimately show ?thesis using conclude_recorded [OF con _ row] sc lawful [OF ap] by blast
  qed
qed

lemma apply_rules_recorded:
  assumes w: "db_wf (ap_DB a)" "cache_ok a" and st: "\<And>s. en_Store en = Some s \<Longrightarrow> store_reads s"
    and run: "ApplyRules en (Some ops) n v p (o1, a) = ((res, err), o2, a')"
  shows "recorded n res err a a' \<and> cache_ok a'"
proof (cases "en_Store en = None \<or> ap_variationActive a")
  case True
  then have "a' = a \<and> err \<noteq> None" using run by (cases "en_Store en"; cases "ap_variationActive a") (auto simp: ApplyRules_def beginVariation_def)
  then show ?thesis using w by (auto simp: recorded_def)
next
  case False
  let ?b = "a\<lparr>ap_variationActive := True\<rparr>"
  obtain r c where prep: "prepare_rules en n v p ?b = (r, c)" by fastforce
  have same: "same_tables (ap_DB ?b) (ap_DB c)" "db_only ?b c" using prepare_same [OF st prep] by (auto simp: db_only_def)
  have sb: "same_rows a ?b" by (simp add: same_rows_def)
  have sc: "same_rows a c" using same_rows_trans [OF sb same_rows_tables [OF same]] .
  have wc: "db_wf (ap_DB c)" "cache_ok c" using wf_same_tables [OF _ same(1)] w same_rows_cache [OF sc] by auto
  show ?thesis
  proof (cases r)
    case (Inl e)
    then have "a' = endVariation c" "err \<noteq> None" using run False prep by (auto simp: ApplyRules_def begin_idle)
    then show ?thesis using sc wc by (auto simp: recorded_def same_rows_def endVariation_def cache_ok_def)
  next
    case (Inr x)
    obtain cfg t pv ps pt where x: "x = (cfg, t, pv, ps, pt)" by (metis prod.exhaust)
    obtain keep res' err' o' b where d: "dispatch_rules en ops n v x (o1, c) = ((keep, res', err'), o', b)" by (metis prod.exhaust)
    have eq: "res = res'" "err = err'" "a' = (if keep then b else endVariation b)"
      using run False prep Inr d by (auto simp: ApplyRules_def begin_idle)
    have sb': "same_rows b a'" using eq(3) by (simp add: same_rows_def endVariation_def)
    have out: "recorded n res err c b" "cache_ok b" using dispatch_recorded [OF d [unfolded x] wc] eq by simp_all
    show ?thesis using recorded_same [OF out(1) sc sb'] same_rows_cache [OF sb'] out(2) by simp
  qed
qed

end


section \<open>Observed applies\<close>

text \<open>A rules apply handed over to the health observer.\<close>

definition watched :: "int \<Rightarrow> int \<Rightarrow> RuleTable \<Rightarrow> ApplierState \<Rightarrow> ApplierState \<Rightarrow> bool" where
  "watched n v t a a' = (\<exists>info row. ap_inflight a' n = Some info \<and> ri_ruleVersionID info = v \<and> ri_targetTable info = t \<and> \<not> ri_committed info \<and>
     t_apply (ap_DB a') = t_apply (ap_DB a) @ [row] \<and> as_ID row = ri_statusID info \<and> as_ID row \<notin> as_ID ` set (t_apply (ap_DB a)) \<and> newest_row a row \<and>
     as_State row = ''submitted'' \<and> as_SnapshotID row = n \<and> TerminalStatus n a' = None \<and> same_pointers a a' \<and>
     ap_switchInflight a' = ap_switchInflight a \<and> cache_ok a' \<and> db_wf (ap_DB a'))"

context orchestrator_contract
begin

lemma dispatch_watched:
  assumes d: "dispatch_rules en ops n v (cfg, t, pv, ps, pt) (o1, a) = ((True, res, err), o2, a')" and w: "db_wf (ap_DB a)" "cache_ok a"
  shows "watched n v t a a' \<and> (\<exists>b ores. oo_Apply ops (commit_callback en) \<lparr>rq_SnapshotID = n, rq_RuleVersionID = v, rq_Config = Some cfg,
     rq_PrevSnapshot = ps, rq_Commit = True\<rparr> (o1, b) = ((ores, None), o2, a') \<and> ar_Health ores = ''observing'')"
proof -
  obtain r d1 where 1: "InsertApplyStatus n [] (ap_DB a) = (r, d1)" by fastforce
  have w1: "db_wf d1" using keepsD [OF keeps_InsertApplyStatus w(1) 1] .
  have "\<not> (\<exists>e. r = Inl e)" using d 1 by (auto simp: dispatch_rules_def run_db_def)
  then obtain sid row where r: "r = Inr sid" "t_apply d1 = t_apply (ap_DB a) @ [row]"
    and row: "as_ID row = sid" "sid \<notin> as_ID ` set (t_apply (ap_DB a))" "newest_row a row" "as_State row = ''submitted''" "as_SnapshotID row = n"
    unfolding newest_row_def using insert_row [OF w(1) 1] by blast
  let ?info = "\<lparr>ri_statusID = sid, ri_ruleVersionID = v, ri_priorVersionID = pv, ri_priorSnapshotID = ps,
       ri_targetTable = t, ri_priorTable = pt, ri_committed = False\<rparr>"
  define b where "b = registerInflight n ?info (clearTerminalStatus n (a\<lparr>ap_DB := d1\<rparr>))"
  let ?req = "\<lparr>rq_SnapshotID = n, rq_RuleVersionID = v, rq_Config = Some cfg, rq_PrevSnapshot = ps, rq_Commit = True\<rparr>"
  obtain ores oerr o3 c where ap: "oo_Apply ops (commit_callback en) ?req (o1, b) = ((ores, oerr), o3, c)" by (metis prod.exhaust)
  have con: "conclude_rules en ops sid n v ps (ores, oerr) (o3, c) = ((True, res, err), o2, a')"
    using d 1 r ap by (simp add: dispatch_rules_def run_db_def Let_def b_def)
  have eq: "oerr = None \<and> ar_Health ores = ''observing'' \<and> a' = c \<and> o2 = o3"
  proof (cases oerr)
    case (Some e)
    then show ?thesis using con by (cases e) (auto simp: conclude_rules_def Let_def)
  next
    case None
    then show ?thesis using con
      by (auto simp: conclude_rules_def Let_def split: if_splits prod.splits option.splits)
  qed
  have f1: "same_pointers a (a\<lparr>ap_DB := d1\<rparr>)"
    using run_db_same [OF pointer_frame_InsertApplyStatus, of n "[]" a] 1 by (auto simp: run_db_def)
  have fb: "same_pointers a b" unfolding b_def using f1 by (meson same_pointers_trans terminal_pointers(2,4))
  have bb: "ap_DB b = d1" "cache_ok b" "ap_inflight b n = Some ?info" "ap_switchInflight b = ap_switchInflight a" "TerminalStatus n b = None"
    using clear_ok [of "a\<lparr>ap_DB := d1\<rparr>" n] w(2) clear_terminal [of n "a\<lparr>ap_DB := d1\<rparr>"]
    by (simp_all add: b_def registerInflight_def clearTerminalStatus_def cache_ok_def TerminalStatus_def)
  have "c = b \<or> (\<exists>e. commitRuleApply n b = (Some e, c))"
    using apply_undone [OF ap] eq by (auto simp: commit_failed_def commit_callback_def split: prod.splits)
  then have sc: "same_rows b c \<and> db_wf (ap_DB c) \<and> same_pointers b c \<and> db_only b c"
  proof
    assume "\<exists>e. commitRuleApply n b = (Some e, c)"
    then obtain e where e: "commitRuleApply n b = (Some e, c)" by blast
    show ?thesis using commit_rows [OF e] commit_wf [OF e] w1 bb(1) commit_error [OF e] by (simp add: db_only_def)
  qed (use w1 bb in \<open>simp add: same_rows_def db_only_def\<close>)
  have "ap_inflight c n = Some ?info" "ap_switchInflight c = ap_switchInflight a" using sc bb by (auto elim!: db_onlyE)
  moreover have "t_apply (ap_DB c) = t_apply (ap_DB a) @ [row]" "cache_ok c" "TerminalStatus n c = None"
    using sc bb r(2) same_rows_cache [of b c] by (auto simp: same_rows_def TerminalStatus_def)
  moreover have "same_pointers a c" using fb sc same_pointers_trans by blast
  ultimately have "watched n v t a c" unfolding watched_def using row sc by (intro exI [of _ ?info] exI [of _ row]) simp
  then show ?thesis using eq ap by blast
qed

lemma apply_watched:
  assumes w: "db_wf (ap_DB a)" "cache_ok a" and st: "\<And>s. en_Store en = Some s \<Longrightarrow> store_reads s"
    and run: "ApplyRules en (Some ops) n v p (o1, a) = ((res, None), o2, a')" "cr_Health res = ''observing''"
  shows "\<exists>t cfg ps b ores. prepared en n v t (ap_DB a) \<and> watched n v t a a' \<and>
    oo_Apply ops (commit_callback en) \<lparr>rq_SnapshotID = n, rq_RuleVersionID = v, rq_Config = Some cfg,
     rq_PrevSnapshot = ps, rq_Commit = True\<rparr> (o1, b) = ((ores, None), o2, a') \<and> ar_Health ores = ''observing''"
proof -
  have idle: "en_Store en \<noteq> None" "\<not> ap_variationActive a"
    using run(1) by (auto simp: ApplyRules_def beginVariation_def split: if_splits)
  let ?b = "a\<lparr>ap_variationActive := True\<rparr>"
  obtain r c where prep: "prepare_rules en n v p ?b = (r, c)" by fastforce
  have same: "same_tables (ap_DB ?b) (ap_DB c)" "db_only ?b c" using prepare_same [OF st prep] by (auto simp: db_only_def)
  have wc: "db_wf (ap_DB c)" "cache_ok c" using wf_same_tables [OF _ same(1)] w same(2) by (auto simp: cache_ok_def elim!: db_onlyE)
  obtain cfg t pv ps pt where r: "r = Inr (cfg, t, pv, ps, pt)"
    using run(1) idle prep by (cases r) (auto simp: ApplyRules_def begin_idle)
  obtain keep res' err' o' b where d: "dispatch_rules en ops n v (cfg, t, pv, ps, pt) (o1, c) = ((keep, res', err'), o', b)" by (metis prod.exhaust)
  have eq: "res = res'" "err' = None" "o2 = o'" "a' = (if keep then b else endVariation b)"
    using run(1) idle prep r d by (auto simp: ApplyRules_def begin_idle)
  have "keep" using dispatch_outcome(4) [OF d wc(1)] eq run(2) by simp
  note out = dispatch_watched [OF d [unfolded \<open>keep\<close> [THEN eqTrueI]] wc]
  have "ap_Resolver c = ap_Resolver a" "ap_switchInflight c = ap_switchInflight a" using same(2) by (auto elim!: db_onlyE)
  moreover have "t_apply (ap_DB c) = t_apply (ap_DB a)" "t_versions (ap_DB c) = t_versions (ap_DB a)" "t_exits (ap_DB c) = t_exits (ap_DB a)"
    using same(1) by (auto elim!: same_tablesE)
  ultimately have "watched n v t a b" using out unfolding watched_def same_pointers_def newest_row_def by simp
  moreover have "prepared en n v t (ap_DB a)" using prepare_prepared [of en n v p ?b] prep r by simp
  moreover have "a' = b" using eq \<open>keep\<close> by simp
  ultimately show ?thesis using out eq(3) by blast
qed

end


text \<open>How an observation ends: the version is active and confirmed, or the pointers have not moved and the row says why.\<close>

definition observation_result :: "string \<Rightarrow> int \<Rightarrow> int \<Rightarrow> RuleTable \<Rightarrow> ApplierState \<Rightarrow> ApplierState \<Rightarrow> bool" where
  "observation_result st n v t a a' = (\<not> ap_variationActive a' \<and> ap_inflight a' n = None \<and>
     (\<exists>row. t_apply (ap_DB a') = t_apply (ap_DB a) @ [row] \<and> as_SnapshotID row = n \<and> newest_row a row \<and> cache_only a' row \<and>
        visible_state a' row = st \<and>
        (st = ''confirmed'' \<and> activated v t a a' \<or> (st = ''rolled_back'' \<or> st = ''failed'') \<and> same_pointers a a')))"

lemma audit_rows: "same_rows a (audit x y r a)"
proof -
  obtain z d where z: "AppendAudit \<lparr>ae_Actor = [], ae_Action = x, ae_Target = y, ae_Before = [], ae_After = [], ae_Result = r, ae_IP = []\<rparr> (ap_DB a) = (z, d)"
    by fastforce
  have "t_apply d = t_apply (ap_DB a)"
    using z unfolding AppendAudit_def by (auto simp: stmt_def split: list.splits option.splits)
  then show ?thesis using z by (simp add: audit_def run_db_def same_rows_def)
qed

lemma finish_rules:
  assumes "watched n v t a a1" "same_rows a1 c" "st \<in> {''confirmed'', ''rolled_back'', ''failed''}"
    "ap_inflight a1 n = Some info"
    "a2 = endVariation (audit x y z (clearInflight n (persistApplyStatus (ri_statusID info) n st reason c)))"
    "if st = ''confirmed'' then activated v t a c else same_pointers a c"
  shows "observation_result st n v t a a2"
proof -
  obtain row where w: "t_apply (ap_DB a1) = t_apply (ap_DB a) @ [row]" "as_ID row = ri_statusID info" "as_ID row \<notin> as_ID ` set (t_apply (ap_DB a))"
     "as_State row = ''submitted''" "as_SnapshotID row = n" "cache_ok a1" "newest_row a row"
    using assms(1,4) by (auto simp: watched_def)
  have row: "t_apply (ap_DB c) = t_apply (ap_DB a) @ [row]" "cache_ok c" using w assms(2) same_rows_cache [OF assms(2)] by (auto simp: same_rows_def)
  let ?p = "persistApplyStatus (ri_statusID info) n st reason c"
  obtain row' where r: "t_apply (ap_DB ?p) = t_apply (ap_DB a) @ [row']" "as_SnapshotID row' = n" "visible_state ?p row' = st"
    "cache_only ?p row'" "as_ID row' = ri_statusID info"
    using persist_settles(1) [OF row(1) w(2) _ w(4,5) row(2) assms(3), of reason] w(2,3) by auto
  let ?q = "clearInflight n ?p"
  have sr: "same_rows ?p a2" unfolding assms(5)
    by (rule same_rows_trans [OF same_rows_steps(1) same_rows_trans [OF audit_rows same_rows_steps(3)]])
  have sp: "same_pointers c a2" unfolding assms(5)
    using persist_pointers [of c] terminal_pointers(3,7) audit_pointers same_pointers_trans by meson
  have "\<not> ap_variationActive a2" by (simp add: assms(5) endVariation_def)
  moreover have "ap_inflight a2 n = None"
    using audit_only [of ?q x y z] by (auto simp: assms(5) endVariation_def clearInflight_def elim!: db_onlyE)
  moreover have "t_apply (ap_DB a2) = t_apply (ap_DB a) @ [row']" using r(1) sr by (simp add: same_rows_def)
  moreover have "visible_state a2 row' = st" using r(3) same_rows_visible [OF sr] by simp
  moreover have "if st = ''confirmed'' then activated v t a a2 else same_pointers a a2"
    using assms(6) sp activated_same [OF _ same_pointers_refl sp] same_pointers_trans by (auto split: if_splits)
  moreover have "newest_row a row'" using w(2,7) r(5) by (simp add: newest_row_def)
  moreover have "cache_only a2 row'" using r(4) sr by (simp add: cache_only_def TerminalStatus_def same_rows_def)
  ultimately show ?thesis using assms(3) r(2) unfolding observation_result_def by (auto split: if_splits)
qed


definition health_observer :: "'r env \<Rightarrow> 'r Config renderers \<Rightarrow> ('r Config, ApplierState) observer" where
  "health_observer en rn req res x = (case x of (s, w, a) \<Rightarrow>
     (case OnHealth en (systemd_ops rn) req res ((s, w), a) of ((s, w), a) \<Rightarrow> (s, w, a)))"

lemma on_health_rules:
  assumes "ap_switchInflight a n = None" "rq_SnapshotID req = n" "ap_inflight a n = Some info"
  shows "OnHealth en ops req res (o1, a) = (case finalizeRulesOnHealth en ops n res info (o1, a) of (o2, a2) \<Rightarrow> (o2, endVariation a2))"
proof -
  have "a\<lparr>ap_switchInflight := (ap_switchInflight a)(n := None)\<rparr> = a" using assms(1) by (cases a) auto
  then show ?thesis using assms by (simp add: OnHealth_def takeSwitchInflight_def getInflight_def)
qed

lemma finalize_unhealthy:
  assumes "applyTerminalState res \<noteq> ''confirmed''" "ap_inflight a n = Some info" "\<not> ri_committed info"
  shows "\<exists>x y z. finalizeRulesOnHealth en ops n res info (o1, a) =
    (o1, audit x y z (clearInflight n (persistApplyStatus (ri_statusID info) n (applyTerminalState res) (ar_Reason res) a)))"
  using assms by (auto simp: finalizeRulesOnHealth_def rollbackRuleApply_def getInflight_def Let_def)

lemma finalize_healthy:
  assumes "applyTerminalState res = ''confirmed''" "commitRuleApply n a = (None, a)"
  shows "\<exists>x y z. finalizeRulesOnHealth en ops n res info (o1, a) =
    (o1, audit x y z (clearInflight n (persistApplyStatus (ri_statusID info) n ''confirmed'' (ar_Reason res) a)))"
  using assms by (auto simp: finalizeRulesOnHealth_def Let_def)

lemma observe_watched:
  assumes w: "watched n v t a a1" and sw: "ap_switchInflight a n = None" and req: "rq_SnapshotID req = n" "rq_Commit req"
    and s: "sd_observing s = Some (req, bundle_of s fs)"
    and run: "observeHealth (commit_callback en) (Some (health_observer en rn)) False (s, w, a1) = (s2, w2, a2)"
  shows "\<exists>res s1 c. probe_and_commit (commit_callback en) req (bundle_of s fs) (s\<lparr>sd_observing := None\<rparr>, w, a1) = (res, s1, w2, c) \<and>
    observation_result (applyTerminalState res) n v t a a2 \<and> s2 = s1\<lparr>sd_applyMu := False\<rparr>"
proof -
  let ?s = "s\<lparr>sd_observing := None\<rparr>"
  obtain info where i: "ap_inflight a1 n = Some info" "ri_ruleVersionID info = v" "ri_targetTable info = t" "\<not> ri_committed info"
    "same_pointers a a1" "ap_switchInflight a1 n = None" "db_wf (ap_DB a1)"
    using w sw by (auto simp: watched_def)
  obtain res s1 w1 c where p: "probe_and_commit (commit_callback en) req (bundle_of ?s fs) (?s, w, a1) = (res, s1, w1, c)" by (metis prod.exhaust)
  have b: "bundle_of ?s fs = bundle_of s fs" by (simp add: bundle_of_def)
  obtain o3 a3 where oh: "OnHealth en (systemd_ops rn) req res ((s1, w1), c) = (o3, a3)" by fastforce
  have fin: "a2 = a3 \<and> s2 = (fst o3)\<lparr>sd_applyMu := False\<rparr> \<and> w2 = snd o3"
    using run s p oh b by (cases o3) (auto simp: observeHealth_def health_observer_def Let_def)
  have end_ok: ?thesis if "st = applyTerminalState res" "st \<in> {''confirmed'', ''rolled_back'', ''failed''}" "same_rows a1 c" "ap_switchInflight c n = None" "ap_inflight c n = Some info'"
    "ri_statusID info' = ri_statusID info" "if st = ''confirmed'' then activated v t a c else same_pointers a c"
    "\<exists>x y z. finalizeRulesOnHealth en (systemd_ops rn) n res info' ((s1, w1), c) =
       ((s1, w1), audit x y z (clearInflight n (persistApplyStatus (ri_statusID info') n st (ar_Reason res) c)))" for st info'
  proof -
    note h = that
    obtain x y z where "a3 = endVariation (audit x y z (clearInflight n (persistApplyStatus (ri_statusID info) n st (ar_Reason res) c)))" "o3 = (s1, w1)"
      using on_health_rules [OF h(4) req(1) h(5), of en "systemd_ops rn" res "(s1, w1)"] oh h(6,8) by auto
    then show ?thesis using finish_rules [OF w h(3,2) i(1) _ h(7)] fin h(1) p b by auto
  qed
  from p show ?thesis
  proof (cases rule: probe_outcome)
    case healthy
    then have cm: "commitRuleApply n a1 = (None, c)" using req by (auto simp: commit_done_def commit_callback_def split: prod.splits)
    note cs = commit_success [OF cm i(1,4,7)]
    let ?info = "info\<lparr>ri_committed := True\<rparr>"
    have ic: "ap_inflight c n = Some ?info" using cs(2) by simp
    have sc: "ap_switchInflight c = ap_switchInflight a1" using cm by (rule commit_switch)
    have ag: "commitRuleApply n c = (None, c)" by (rule commit_again [OF ic]) simp
    have ok: "applyTerminalState res = ''confirmed''" using healthy(1) by (simp add: applyTerminalState_def)
    have "activated v t a c" using activated_same [OF cs(1) i(5) same_pointers_refl] i(2,3) by simp
    then show ?thesis
      using end_ok [of "''confirmed''" ?info] commit_rows [OF cm i(7)] sc i(6) ic finalize_healthy [OF ok ag, of en "systemd_ops rn" ?info "(s1, w1)"] ok by simp
  next
    case undone
    have st: "applyTerminalState res \<in> {''rolled_back'', ''failed''}" using undone(1) by (auto simp: applyTerminalState_def)
    have c: "c = a1 \<or> (\<exists>e. commitRuleApply n a1 = (Some e, c))"
      using undone(3) req by (auto simp: commit_failed_def commit_callback_def split: prod.splits)
    then have c': "same_rows a1 c \<and> same_pointers a1 c \<and> db_only a1 c"
    proof
      assume "\<exists>e. commitRuleApply n a1 = (Some e, c)"
      then obtain e where e: "commitRuleApply n a1 = (Some e, c)" by blast
      show ?thesis using commit_rows [OF e i(7)] commit_error [OF e] by (simp add: db_only_def)
    qed (simp add: same_rows_def db_only_def)
    then have "ap_inflight c n = Some info" "ap_switchInflight c n = None" using i by (auto elim!: db_onlyE)
    moreover have "same_pointers a c" using c' i(5) same_pointers_trans by blast
    ultimately show ?thesis
      using end_ok [of "applyTerminalState res" info] st c' finalize_unhealthy [of res c n info en "systemd_ops rn" "(s1, w1)"] i(4) by auto
  qed
qed


section \<open>Properties of the life cycle\<close>

text \<open>(C30) The recorded life cycle of a rules apply is truthful.  On the systemd orchestrator an apply adds at
  most one life-cycle row, and none only when it failed before the row was written; the state a client sees
  for that row is \<open>confirmed\<close> exactly when the apply succeeded, \<open>submitted\<close> while it is being observed, and
  \<open>rolled_back\<close> or \<open>failed\<close> after an error, even when the update of the row itself fails; the cache that
  makes this so stays within its bound of 128 entries.\<close>

theorem apply_status_truthful:
  assumes "db_wf (ap_DB a)" "cache_ok a" "en_Store en = Some s" "store_reads s"
    and "ApplyRules en (Some (systemd_ops rn)) n v p (o1, a) = ((res, err), o2, a')"
  shows "cache_ok a' \<and> (err \<noteq> None \<and> t_apply (ap_DB a') = t_apply (ap_DB a) \<or>
     (\<exists>row. t_apply (ap_DB a') = t_apply (ap_DB a) @ [row] \<and> as_SnapshotID row = n \<and>
       (if err \<noteq> None then visible_state a' row = ''rolled_back'' \<or> visible_state a' row = ''failed''
        else visible_state a' row = (if cr_Health res = ''observing'' then ''submitted'' else ''confirmed''))))"
  using sd.apply_rules_recorded [OF assms(1,2) _ assms(5)] assms(3,4) unfolding recorded_def reported_def by auto

lemma sample_cache: "cache_ok sample_applier"
  by (simp add: cache_ok_def sample_applier_def applyTerminalCacheCap_def)

lemma sample_store: "en_Store sample_env = Some (bootStore (\<lambda>_. Inl ''no''))" "db_wf (ap_DB sample_applier)"
  using sampleDB_wf by (simp_all add: sample_env_def sample_applier_def)

theorem apply_status_truthful_witness:
  "\<exists>res o2 a' row. ApplyRules sample_env (Some (systemd_ops sample_rn)) 1 2 1 ((sample_sd False, sample_world []), sample_applier) = ((res, None), o2, a')
     \<and> t_apply (ap_DB a') = [row] \<and> as_SnapshotID row = 1 \<and> visible_state a' row = ''confirmed''"
proof -
  let ?x = "ApplyRules sample_env (Some (systemd_ops sample_rn)) 1 2 1 ((sample_sd False, sample_world []), sample_applier)"
  obtain res err o2 a' where eq: "?x = ((res, err), o2, a')" by (metis prod.exhaust)
  have r: "err = None" "cr_Health res = ''ok''" using sample_apply eq by simp_all
  have t: "t_apply (ap_DB sample_applier) = []" by (simp add: sample_defs)
  show ?thesis using apply_status_truthful [OF sample_store(2) sample_cache sample_store(1) store_reads_boot eq] r eq t by auto
qed

text \<open>What an observed apply hands over to the health observer.\<close>

lemma apply_hands_over:
  assumes "db_wf (ap_DB a)" "cache_ok a" "en_Store en = Some st" "store_reads st"
    and "ApplyRules en (Some (systemd_ops rn)) n v p ((s, w), a) = ((res, None), (s1, w1), a1)" "cr_Health res = ''observing''"
  obtains t req cfg where "prepared en n v t (ap_DB a)" "watched n v t a a1" "rq_SnapshotID req = n" "rq_Commit req"
    "rq_Config req = Some cfg" "s1 = s\<lparr>sd_applyMu := True, sd_observing := Some (req, bundle_of s (w_fs w))\<rparr>"
    "distinct_paths s \<Longrightarrow> rendered_files rn s cfg (w_fs w1)" "units_loaded (w_units w1) (w_fs w1)" "\<And>q. q \<notin> managed s \<Longrightarrow> w_fs w1 q = w_fs w q"
proof -
  obtain t cfg ps b ores where t: "prepared en n v t (ap_DB a)" "watched n v t a a1" "ar_Health ores = ''observing''"
    and ap: "oo_Apply (systemd_ops rn) (commit_callback en) \<lparr>rq_SnapshotID = n, rq_RuleVersionID = v, rq_Config = Some cfg,
     rq_PrevSnapshot = ps, rq_Commit = True\<rparr> ((s, w), b) = ((ores, None), (s1, w1), a1)"
    using sd.apply_watched [OF assms(1,2) _ assms(5,6)] assms(3,4) by auto
  let ?req = "\<lparr>rq_SnapshotID = n, rq_RuleVersionID = v, rq_Config = Some cfg, rq_PrevSnapshot = ps, rq_Commit = True\<rparr>"
  have sa: "Systemd_Apply rn (commit_callback en) ?req (s, w, b) = ((ores, None), s1, w1, a1)"
    using ap by (auto simp: systemd_ops_def split: prod.splits)
  then have mu: "\<not> sd_applyMu s" by (auto simp: Systemd_Apply_def)
  show thesis
  proof (cases rule: Apply_outcome [OF sa _ mu, of cfg])
    case 5
    then show thesis by (intro that [of t ?req cfg, OF t(1,2)]) auto
  qed (use t(3) in auto)
qed

lemma watched_step:
  assumes "watched n v t a b" "same_rows b c" "same_pointers b c" "c = b\<lparr>ap_DB := ap_DB c\<rparr>" "db_wf (ap_DB c)"
  shows "watched n v t a c"
proof -
  have "ap_inflight c = ap_inflight b" "ap_switchInflight c = ap_switchInflight b" by (subst assms(4), simp)+
  then show ?thesis
    using assms(1-3,5) same_rows_cache [OF assms(2)] same_pointers_trans [OF _ assms(3)] by (auto simp: watched_def same_rows_def TerminalStatus_def)
qed


lemma sample_observed:
  "snd (fst (ApplyRules sample_env (Some (systemd_ops sample_rn)) 1 2 1 ((sample_sd True, sample_world []), sample_applier))) = None \<and>
   cr_Health (fst (fst (ApplyRules sample_env (Some (systemd_ops sample_rn)) 1 2 1 ((sample_sd True, sample_world []), sample_applier)))) = ''observing''"
  by (simp add: ApplyRules_def beginVariation_def dispatch_rules_def conclude_rules_def sample_defs db_eval prepare_eval
     systemd_eval InsertApplyStatus_def registerInflight_def clearTerminalStatus_def)


end
