(* ===== verification/Json.thy ===== *)
theory Json
  imports Rules
begin

text \<open>
  The part of Go's \<open>encoding/json\<close> that the settings store uses: encoding of strings, booleans, integers and
  flat lists, and decoding of a text into a target of one of these types.  Decoding a text of any other
  shape (an object, a nested list, a number with a fraction) into such a target is an error in Go, whatever
  the text is, so the decoders return \<open>None\<close> for it.
\<close>

section \<open>Encoding\<close>

definition hex_char :: "nat \<Rightarrow> char" where
  "hex_char n = (if n < 10 then char_of (48 + n) else char_of (87 + n))"

definition json_escape :: "char \<Rightarrow> string" where
  "json_escape c = (let n = (of_char c :: nat) in
     if n = 34 \<or> n = 92 then [CHR 0x5C, c]
     else if n = 8 then [CHR 0x5C, CHR ''b''] else if n = 12 then [CHR 0x5C, CHR ''f'']
     else if n = 10 then [CHR 0x5C, CHR ''n''] else if n = 13 then [CHR 0x5C, CHR ''r'']
     else if n = 9 then [CHR 0x5C, CHR ''t'']
     else if n < 32 \<or> n = 60 \<or> n = 62 \<or> n = 38
       then [CHR 0x5C, CHR ''u'', CHR ''0'', CHR ''0'', hex_char (n div 16), hex_char (n mod 16)]
     else [c])"

definition json_string :: "string \<Rightarrow> string" where
  "json_string s = CHR 0x22 # concat (map json_escape s) @ [CHR 0x22]"

definition json_bool :: "bool \<Rightarrow> string" where
  "json_bool b = (if b then ''true'' else ''false'')"

definition json_int :: "int \<Rightarrow> string" where
  "json_int i = (if i = 0 then ''0'' else if i < 0 then CHR ''-'' # itoa_digits (nat (- i)) [] else itoa_digits (nat i) [])"

definition json_list :: "('a \<Rightarrow> string) \<Rightarrow> 'a list \<Rightarrow> string" where
  "json_list enc xs = CHR ''['' # Join (map enc xs) '','' @ '']''"

section \<open>Decoding\<close>

definition json_space :: "char \<Rightarrow> bool" where
  "json_space c = ((of_char c :: nat) \<in> {9, 10, 13, 32})"

definition skip_ws :: "string \<Rightarrow> string" where
  "skip_ws s = dropWhile json_space s"

definition hex4 :: "string \<Rightarrow> nat option" where
  "hex4 s = (case s of a # b # c # d # _ \<Rightarrow>
       (case (hex_val a, hex_val b, hex_val c, hex_val d) of
          (Some w, Some x, Some y, Some z) \<Rightarrow> Some (w * 4096 + x * 256 + y * 16 + z)
        | _ \<Rightarrow> None)
     | _ \<Rightarrow> None)"

definition utf8 :: "nat \<Rightarrow> string" where
  "utf8 n = (if n < 128 then [char_of n]
     else if n < 2048 then [char_of (192 + n div 64), char_of (128 + n mod 64)]
     else if n < 65536 then [char_of (224 + n div 4096), char_of (128 + n div 64 mod 64), char_of (128 + n mod 64)]
     else [char_of (240 + n div 262144), char_of (128 + n div 4096 mod 64), char_of (128 + n div 64 mod 64), char_of (128 + n mod 64)])"

definition low_surrogate :: "string \<Rightarrow> nat option" where
  "low_surrogate s = (case s of b # u # r \<Rightarrow> if b = CHR 0x5C \<and> u = CHR ''u'' then
       (case hex4 r of Some v \<Rightarrow> if 0xDC00 \<le> v \<and> v < 0xE000 then Some v else None | None \<Rightarrow> None) else None
     | _ \<Rightarrow> None)"

text \<open>A \<open>\u\<close> escape: the bytes of the character and the number of characters read after the \<open>u\<close>.  A surrogate
  without its other half is the replacement character.\<close>

definition unicode_escape :: "string \<Rightarrow> (string \<times> nat) option" where
  "unicode_escape s = (case hex4 s of None \<Rightarrow> None
     | Some v \<Rightarrow> if 0xD800 \<le> v \<and> v < 0xE000
         then (case (v < 0xDC00, low_surrogate (drop 4 s)) of
             (True, Some w) \<Rightarrow> Some (utf8 (0x10000 + (v - 0xD800) * 1024 + (w - 0xDC00)), 10)
           | _ \<Rightarrow> Some (utf8 0xFFFD, 4))
         else Some (utf8 v, 4))"

definition simple_escape :: "char \<Rightarrow> char option" where
  "simple_escape c = (let n = (of_char c :: nat) in
     if n = 34 \<or> n = 92 \<or> n = 47 then Some c
     else if c = CHR ''b'' then Some (char_of (8::nat)) else if c = CHR ''f'' then Some (char_of (12::nat))
     else if c = CHR ''n'' then Some (char_of (10::nat)) else if c = CHR ''r'' then Some (char_of (13::nat))
     else if c = CHR ''t'' then Some (char_of (9::nat)) else None)"

text \<open>The text after an opening quote up to its closing quote, and what follows.\<close>

function scan_str :: "string \<Rightarrow> (string \<times> string) option" where
  "scan_str [] = None"
| "scan_str (c # cs) =
     (if c = CHR 0x22 then Some ([], cs)
      else if (of_char c :: nat) < 32 then None
      else if c = CHR 0x5C then
        (case cs of [] \<Rightarrow> None
         | e # r \<Rightarrow>
             (case simple_escape e of
                Some d \<Rightarrow> map_option (\<lambda>(s, t). (d # s, t)) (scan_str r)
              | None \<Rightarrow>
                  if e = CHR ''u'' then
                    (case unicode_escape r of None \<Rightarrow> None
                     | Some (bs, n) \<Rightarrow> map_option (\<lambda>(s, t). (bs @ s, t)) (scan_str (drop n r)))
                  else None))
      else map_option (\<lambda>(s, t). (c # s, t)) (scan_str cs))"
  by pat_completeness auto
termination by (relation "measure length") auto

definition scan_string :: "string \<Rightarrow> (string \<times> string) option" where
  "scan_string s = (case s of c # r \<Rightarrow> if c = CHR 0x22 then scan_str r else None | [] \<Rightarrow> None)"

text \<open>An integer literal in the range of \<open>int64\<close>; a fraction or exponent stays in the rest, where it is refused.\<close>

definition scan_int :: "string \<Rightarrow> (int \<times> string) option" where
  "scan_int s = (let neg = (s \<noteq> [] \<and> hd s = CHR ''-''); t = (if neg then tl s else s);
       ds = takeWhile is_digit t; r = drop (length ds) t;
       v = (if neg then - int (dec_val ds) else int (dec_val ds)) in
     if ds = [] \<or> (length ds > 1 \<and> hd ds = CHR ''0'') \<or> v < - (2 ^ 63) \<or> v > 2 ^ 63 - 1 then None
     else Some (v, r))"

definition scan_null :: "'a \<Rightarrow> (string \<Rightarrow> ('a \<times> string) option) \<Rightarrow> string \<Rightarrow> ('a \<times> string) option" where
  "scan_null zero scan s = (if prefix ''null'' s then Some (zero, drop 4 s) else scan s)"

definition scan_bool :: "string \<Rightarrow> (bool \<times> string) option" where
  "scan_bool s = (if prefix ''true'' s then Some (True, drop 4 s) else if prefix ''false'' s then Some (False, drop 5 s) else None)"

text \<open>The elements of a list after the first bracket; the fuel is the length of the text, and every element
  takes at least one character.\<close>

fun scan_elems :: "nat \<Rightarrow> (string \<Rightarrow> ('a \<times> string) option) \<Rightarrow> string \<Rightarrow> ('a list \<times> string) option" where
  "scan_elems 0 scan s = None"
| "scan_elems (Suc n) scan s = (case scan (skip_ws s) of None \<Rightarrow> None
     | Some (x, r) \<Rightarrow> (case skip_ws r of
           [] \<Rightarrow> None
         | c # t \<Rightarrow> if c = CHR '']'' then Some ([x], t)
                  else if c = CHR '','' then map_option (\<lambda>(xs, u). (x # xs, u)) (scan_elems n scan t)
                  else None))"

definition scan_list :: "(string \<Rightarrow> ('a \<times> string) option) \<Rightarrow> string \<Rightarrow> ('a list \<times> string) option" where
  "scan_list scan s = (case s of c # r \<Rightarrow> if c = CHR ''['' then
       (case skip_ws r of d # t \<Rightarrow> if d = CHR '']'' then Some ([], t) else scan_elems (length r) scan r | [] \<Rightarrow> None) else None
     | [] \<Rightarrow> None)"

definition whole :: "(string \<Rightarrow> ('a \<times> string) option) \<Rightarrow> string \<Rightarrow> 'a option" where
  "whole scan s = (case scan (skip_ws s) of Some (x, r) \<Rightarrow> if skip_ws r = [] then Some x else None | None \<Rightarrow> None)"

definition Unmarshal_string :: "string \<Rightarrow> string option" where
  "Unmarshal_string = whole (scan_null [] scan_string)"

definition Unmarshal_bool :: "string \<Rightarrow> bool option" where
  "Unmarshal_bool = whole (scan_null False scan_bool)"

definition Unmarshal_int :: "string \<Rightarrow> int option" where
  "Unmarshal_int = whole (scan_null 0 scan_int)"

definition Unmarshal_ints :: "string \<Rightarrow> int list option" where
  "Unmarshal_ints = whole (scan_null [] (scan_list (scan_null 0 scan_int)))"

definition Unmarshal_strings :: "string \<Rightarrow> string list option" where
  "Unmarshal_strings = whole (scan_null [] (scan_list (scan_null [] scan_string)))"


section \<open>Round trips\<close>

declare scan_str.simps [simp del]

lemma of_char_hex: "k < 16 \<Longrightarrow> of_char (hex_char k) = (if k < 10 then 48 + k else 87 + k)"
  by (simp add: hex_char_def of_char_of)

lemma hex_val_hex_char: "k < 16 \<Longrightarrow> hex_val (hex_char k) = Some k"
  by (simp add: hex_val_def Let_def of_char_hex)

lemma hex4_low: "n < 256 \<Longrightarrow> hex4 (CHR ''0'' # CHR ''0'' # hex_char (n div 16) # hex_char (n mod 16) # r) = Some n"
  by (simp add: hex4_def hex_val_hex_char hex_val_def [of "CHR ''0''"])

lemma char_of_code: "of_char c = (n :: nat) \<Longrightarrow> char_of n = c"
  by auto

lemma scan_escape: "scan_str (json_escape c @ r) = map_option (\<lambda>(s, t). (c # s, t)) (scan_str r)"
proof -
  let ?n = "of_char c :: nat"
  have code: "c = char_of ?n" "?n < 256" by simp_all
  have eqs: "c = CHR 0x22 \<longleftrightarrow> ?n = 34" "c = CHR 0x5C \<longleftrightarrow> ?n = 92" by (simp_all add: char_code)
  consider (quoted) "?n = 34 \<or> ?n = 92" | (ctl) "?n \<in> {8, 9, 10, 12, 13}"
    | (uni) "?n < 32 \<or> ?n = 60 \<or> ?n = 62 \<or> ?n = 38" "?n \<notin> {8, 9, 10, 12, 13}"
    | (plain) "32 \<le> ?n" "?n \<notin> {34, 92, 60, 62, 38}" by force
  then show ?thesis
  proof cases
    case quoted
    then show ?thesis by (auto simp: json_escape_def Let_def scan_str.simps simple_escape_def)
  next
    case ctl
    then show ?thesis by (auto simp: json_escape_def Let_def scan_str.simps simple_escape_def char_of_code [of c])
  next
    case uni
    then have "json_escape c = [CHR 0x5C, CHR ''u'', CHR ''0'', CHR ''0'', hex_char (?n div 16), hex_char (?n mod 16)]"
      by (auto simp: json_escape_def Let_def)
    moreover have "unicode_escape (CHR ''0'' # CHR ''0'' # hex_char (?n div 16) # hex_char (?n mod 16) # r) = Some ([c], 4)"
      using uni code by (auto simp: unicode_escape_def hex4_low utf8_def)
    ultimately show ?thesis by (simp add: scan_str.simps simple_escape_def split: option.split)
  next
    case plain
    then show ?thesis using eqs by (auto simp: json_escape_def Let_def scan_str.simps)
  qed
qed

lemma scan_json_string: "scan_string (json_string s @ r) = Some (s, r)"
proof -
  have "scan_str (concat (map json_escape s) @ CHR 0x22 # r) = Some (s, r)"
    by (induction s) (simp_all add: scan_escape scan_str.simps)
  then show ?thesis by (simp add: scan_string_def json_string_def)
qed

lemma hd_itoa_digits: "0 < n \<Longrightarrow> itoa_digits n [] \<noteq> [] \<and> hd (itoa_digits n []) \<noteq> CHR ''0''"
proof (induction n rule: less_induct)
  case (less n)
  show ?case
  proof (cases "n < 10")
    case True
    then have "digit_char n \<noteq> CHR ''0''" using less.prems by (simp add: digit_char_def char_code of_char_of)
    then show ?thesis using less.prems True by (simp add: itoa_digits_step)
  next
    case False
    then show ?thesis using less.IH [of "n div 10"] by (simp add: itoa_digits_step [of n] hd_append)
  qed
qed

lemma scan_digits:
  assumes "0 < n" "r = [] \<or> \<not> is_digit (hd r)"
  shows "takeWhile is_digit (itoa_digits n [] @ r) = itoa_digits n []"
  using assms by (cases r) (auto simp: takeWhile_append2 itoa_digits_is_digit)

lemma scan_json_int:
  assumes "i \<in> int64_range" "r = [] \<or> \<not> is_digit (hd r)"
  shows "scan_int (json_int i @ r) = Some (i, r)"
proof (cases "i = 0")
  case True
  have "takeWhile is_digit (CHR ''0'' # r) = ''0''" using assms(2) by (cases r) (auto simp: is_digit_def)
  then show ?thesis using True by (simp add: json_int_def scan_int_def Let_def dec_val_def digit_val_def)
next
  case False
  let ?n = "nat \<bar>i\<bar>"
  note d = scan_digits [OF _ assms(2), of ?n] hd_itoa_digits [of ?n]
  have m: "itoa_digits ?n [] \<noteq> [] \<Longrightarrow> hd (itoa_digits ?n [] @ r) \<noteq> CHR ''-''"
    using itoa_digits_is_digit [of "hd (itoa_digits ?n [])" ?n] by (auto simp: is_digit_def)
  show ?thesis
  proof (cases "i < 0")
    case True
    then have "nat (- i) = ?n" "- int ?n = i" by simp_all
    then show ?thesis using True assms(1) d by (simp add: json_int_def scan_int_def Let_def int64_range_def)
  next
    case pos: False
    then have "nat i = ?n" "int ?n = i" by simp_all
    then show ?thesis using False pos assms(1) d m by (simp add: json_int_def scan_int_def Let_def int64_range_def)
  qed
qed

lemma skip_ws_simps [simp]: "skip_ws [] = []" "\<not> json_space c \<Longrightarrow> skip_ws (c # s) = c # s"
  by (simp_all add: skip_ws_def)

lemma json_space_simps [simp]: "\<not> json_space CHR 0x22" "\<not> json_space CHR ''t''" "\<not> json_space CHR ''f''" "\<not> json_space CHR ''-''"
  "\<not> json_space CHR ''[''" "\<not> json_space CHR '',''" "\<not> json_space CHR '']''"
  by (simp_all add: json_space_def)

lemma json_int_hd: "\<exists>c r. json_int i = c # r \<and> (is_digit c \<or> c = CHR ''-'')"
proof (cases "i = 0 \<or> i < 0")
  case False
  then obtain c r where "itoa_digits (nat i) [] = c # r" using hd_itoa_digits [of "nat i"] by (cases "itoa_digits (nat i) []") auto
  then show ?thesis using False itoa_digits_is_digit [of c "nat i"] by (auto simp: json_int_def)
qed (auto simp: json_int_def is_digit_def)

lemma digit_not_space: "is_digit c \<Longrightarrow> \<not> json_space c \<and> c \<noteq> CHR ''n''"
  by (auto simp: is_digit_def json_space_def Let_def)

lemma Unmarshal_json [simp]:
  "Unmarshal_string (json_string s) = Some s"
  "Unmarshal_bool (json_bool b) = Some b"
  "i \<in> int64_range \<Longrightarrow> Unmarshal_int (json_int i) = Some i"
proof -
  have "scan_string (json_string s) = Some (s, [])" using scan_json_string [of s "[]"] by simp
  then show "Unmarshal_string (json_string s) = Some s"
    by (simp add: Unmarshal_string_def whole_def scan_null_def json_string_def)
  show "Unmarshal_bool (json_bool b) = Some b"
    by (simp add: Unmarshal_bool_def whole_def scan_null_def json_bool_def scan_bool_def)
  assume i: "i \<in> int64_range"
  obtain c r where c: "json_int i = c # r" "is_digit c \<or> c = CHR ''-''" using json_int_hd by blast
  then have "skip_ws (json_int i) = json_int i" "\<not> prefix ''null'' (json_int i)" using digit_not_space [of c] by auto
  then show "Unmarshal_int (json_int i) = Some i"
    using scan_json_int [OF i, of "[]"] by (simp add: Unmarshal_int_def whole_def scan_null_def)
qed

end
