(* ===== verification/Settings.thy ===== *)
theory Settings
  imports Json Assemble
begin

text \<open>
  The panel settings: the key-value store over the \<open>panel_settings\<close> table (\<open>internal/settings/store.go\<close>) with
  its JSON-typed readers and writers, and the boot-time overlay of the stored values over the YAML
  configuration (\<open>internal/settings/overlay.go\<close>).
\<close>

section \<open>Store\<close>

datatype settings_error = SetErrNotFound | SetErrDB string db_error | SetErrEncode string | SetErrDecode string

type_synonym 'a stm = "DB \<Rightarrow> (settings_error, 'a) result \<times> DB"

text \<open>The values that callers hand over as \<open>any\<close>; a nil slice is \<open>None\<close> and encodes as null, and \<open>ValOther\<close> is a
  value without a JSON form.\<close>

datatype setting_value = ValStr string | ValBool bool | ValInt int | ValInts "int list option" | ValStrs "string list option" | ValOther

definition json_Marshal :: "setting_value \<Rightarrow> string option" where
  "json_Marshal v = (case v of
      ValStr s \<Rightarrow> Some (json_string s) | ValBool b \<Rightarrow> Some (json_bool b) | ValInt i \<Rightarrow> Some (json_int i)
    | ValInts None \<Rightarrow> Some ''null'' | ValInts (Some is) \<Rightarrow> Some (json_list json_int is)
    | ValStrs None \<Rightarrow> Some ''null'' | ValStrs (Some ss) \<Rightarrow> Some (json_list json_string ss)
    | ValOther \<Rightarrow> None)"

definition setting_upsert :: "int \<Rightarrow> string \<Rightarrow> string \<Rightarrow> string \<Rightarrow> unit dbm" where
  "setting_upsert now key value updatedBy = (\<lambda>d. (Inr (),
     if list_ex (\<lambda>r. st_key r = key) (t_settings d)
     then d\<lparr>t_settings := map (\<lambda>r. if st_key r = key
            then r\<lparr>st_value := value, st_updated_at := now, st_updated_by := updatedBy\<rparr> else r) (t_settings d)\<rparr>
     else d\<lparr>t_settings := t_settings d @
            [\<lparr>st_key = key, st_value = value, st_updated_at = now, st_updated_by = updatedBy\<rparr>]\<rparr>))"

definition liftS :: "string \<Rightarrow> 'a dbm \<Rightarrow> 'a stm" where
  "liftS what m = (\<lambda>d. case m d of (Inl e, d') \<Rightarrow> (Inl (SetErrDB what e), d') | (Inr a, d') \<Rightarrow> (Inr a, d'))"

text \<open>The encoding loop of \<open>SetMany\<close> over the map in the order \<open>values\<close> gives, then the writing loop.\<close>

fun encode_values :: "(string \<times> setting_value) list \<Rightarrow> (settings_error, (string \<times> string) list) result" where
  "encode_values [] = Inr []"
| "encode_values ((key, value) # vs) = (case json_Marshal value of
      None \<Rightarrow> Inl (SetErrEncode key)
    | Some raw \<Rightarrow> (case encode_values vs of Inl e \<Rightarrow> Inl e | Inr es \<Rightarrow> Inr ((key, raw) # es)))"

fun upsert_all :: "int \<Rightarrow> string \<Rightarrow> (string \<times> string) list \<Rightarrow> unit dbm" where
  "upsert_all now updatedBy [] = returnD ()"
| "upsert_all now updatedBy ((key, value) # es) =
     bindD (stmt (setting_upsert now key value updatedBy)) (\<lambda>_. upsert_all now updatedBy es)"

definition SetMany :: "int \<Rightarrow> (string \<times> setting_value) list \<Rightarrow> string \<Rightarrow> unit stm" where
  "SetMany now values updatedBy = (\<lambda>d.
     if values = [] then (Inr (), d)
     else case encode_values values of
         Inl e \<Rightarrow> (Inl e, d)
       | Inr encoded \<Rightarrow> liftS ''settings.SetMany'' (transaction (upsert_all now updatedBy encoded)) d)"

definition Settings_Get :: "string \<Rightarrow> string stm" where
  "Settings_Get key = (\<lambda>d. case select1 (\<lambda>d. map_option st_value (find (\<lambda>r. st_key r = key) (t_settings d))) d of
      (Inr v, d') \<Rightarrow> (Inr v, d')
    | (Inl e, d') \<Rightarrow> (Inl (if e = ErrNoRows then SetErrNotFound else SetErrDB key e), d'))"

definition Settings_Set :: "int \<Rightarrow> string \<Rightarrow> string \<Rightarrow> string \<Rightarrow> unit stm" where
  "Settings_Set now key value updatedBy = liftS key (stmt (setting_upsert now key value updatedBy))"

definition Settings_Delete :: "string \<Rightarrow> unit stm" where
  "Settings_Delete key = liftS key (stmt (\<lambda>d. (Inr (), d\<lparr>t_settings := filter (\<lambda>r. st_key r \<noteq> key) (t_settings d)\<rparr>)))"

definition Settings_Snapshot :: "(string \<Rightarrow> string option) stm" where
  "Settings_Snapshot = liftS ''settings.Snapshot'' (stmt (\<lambda>d.
     (Inr (map_of (rev (map (\<lambda>r. (st_key r, st_value r)) (t_settings d)))), d)))"

text \<open>The typed readers share their shape: a missing key is the zero value, a text of another type an error.\<close>

definition read_as :: "(string \<Rightarrow> 'a option) \<Rightarrow> 'a \<Rightarrow> string \<Rightarrow> 'a stm" where
  "read_as decode zero key = (\<lambda>d. case Settings_Get key d of
      (Inl e, d') \<Rightarrow> if e = SetErrNotFound then (Inr zero, d') else (Inl e, d')
    | (Inr raw, d') \<Rightarrow> (case decode raw of None \<Rightarrow> (Inl (SetErrDecode key), d') | Some v \<Rightarrow> (Inr v, d')))"

definition GetString :: "string \<Rightarrow> string stm" where
  "GetString = read_as Unmarshal_string []"

definition SetString :: "int \<Rightarrow> string \<Rightarrow> string \<Rightarrow> string \<Rightarrow> unit stm" where
  "SetString now key value updatedBy = Settings_Set now key (json_string value) updatedBy"

definition GetBool :: "string \<Rightarrow> bool stm" where
  "GetBool = read_as Unmarshal_bool False"

definition SetBool :: "int \<Rightarrow> string \<Rightarrow> bool \<Rightarrow> string \<Rightarrow> unit stm" where
  "SetBool now key value updatedBy = Settings_Set now key (json_bool value) updatedBy"

definition GetInt :: "string \<Rightarrow> int stm" where
  "GetInt = read_as Unmarshal_int 0"

definition SetInt :: "int \<Rightarrow> string \<Rightarrow> int \<Rightarrow> string \<Rightarrow> unit stm" where
  "SetInt now key value updatedBy = Settings_Set now key (json_int value) updatedBy"

definition GetJSON :: "(string \<Rightarrow> 'a option) \<Rightarrow> string \<Rightarrow> 'a stm" where
  "GetJSON decode key = (\<lambda>d. case Settings_Get key d of
      (Inl e, d') \<Rightarrow> (Inl e, d')
    | (Inr raw, d') \<Rightarrow> (case decode raw of None \<Rightarrow> (Inl (SetErrDecode key), d') | Some v \<Rightarrow> (Inr v, d')))"

definition SetJSON :: "int \<Rightarrow> string \<Rightarrow> setting_value \<Rightarrow> string \<Rightarrow> unit stm" where
  "SetJSON now key value updatedBy = (case json_Marshal value of
      None \<Rightarrow> (\<lambda>d. (Inl (SetErrEncode key), d))
    | Some raw \<Rightarrow> Settings_Set now key raw updatedBy)"

section \<open>Overlay\<close>

definition KeyServerDomain :: string where "KeyServerDomain = ''server.domain''"
definition KeyServerPanelBind :: string where "KeyServerPanelBind = ''server.panel_bind''"
definition KeyServerPanelPort :: string where "KeyServerPanelPort = ''server.panel_port''"
definition KeyTGBotToken :: string where "KeyTGBotToken = ''tgbot.token''"
definition KeyTGBotAdminChats :: string where "KeyTGBotAdminChats = ''tgbot.admin_chat_ids''"
definition KeyWAShimListen :: string where "KeyWAShimListen = ''washim.listen''"
definition KeyWAShimPort :: string where "KeyWAShimPort = ''washim.port''"
definition KeyWAShimBackend :: string where "KeyWAShimBackend = ''washim.backend''"
definition KeyWAShimWAHost :: string where "KeyWAShimWAHost = ''washim.wa_host''"
definition KeyWAShimAllowCIDR :: string where "KeyWAShimAllowCIDR = ''washim.allow_cidr''"

text \<open>The scalar fields of \<open>config.Config\<close> that the overlay may set; the two lists are fields of \<open>Config\<close>
  itself.\<close>

record panel_fields =
  pf_Domain :: string
  pf_PanelBind :: string
  pf_PanelPort :: int
  pf_Token :: string
  pf_Listen :: string
  pf_Port :: int
  pf_Backend :: string
  pf_WAHost :: string

type_synonym pcfg = "panel_fields Config"

type_synonym overlay_step = "pcfg \<Rightarrow> DB \<Rightarrow> (settings_error option \<times> pcfg) \<times> DB"

definition overlay_with :: "'a stm \<Rightarrow> ('a \<Rightarrow> bool) \<Rightarrow> ('a \<Rightarrow> pcfg \<Rightarrow> pcfg) \<Rightarrow> overlay_step" where
  "overlay_with get zero upd cfg d = (case get d of
      (Inl e, d') \<Rightarrow> ((Some e, cfg), d')
    | (Inr v, d') \<Rightarrow> ((None, if zero v then cfg else upd v cfg), d'))"

text \<open>\<open>GetJSON\<close> into a variable that starts as nil; a missing key is no error.\<close>

definition get_list :: "(string \<Rightarrow> 'a list option) \<Rightarrow> string \<Rightarrow> 'a list stm" where
  "get_list decode key d = (case GetJSON decode key d of
      (Inl e, d') \<Rightarrow> if e = SetErrNotFound then (Inr [], d') else (Inl e, d')
    | (Inr v, d') \<Rightarrow> (Inr v, d'))"

fun overlay_seq :: "overlay_step list \<Rightarrow> overlay_step" where
  "overlay_seq [] cfg d = ((None, cfg), d)"
| "overlay_seq (f # fs) cfg d = (case f cfg d of
      ((Some e, cfg'), d') \<Rightarrow> ((Some e, cfg'), d')
    | ((None, cfg'), d') \<Rightarrow> overlay_seq fs cfg' d')"

definition overlay_string :: "string \<Rightarrow> (string \<Rightarrow> panel_fields \<Rightarrow> panel_fields) \<Rightarrow> overlay_step" where
  "overlay_string key upd = overlay_with (GetString key) (\<lambda>v. v = []) (\<lambda>v cfg. cfg\<lparr>cfg_rest := upd v (cfg_rest cfg)\<rparr>)"

definition overlay_int :: "string \<Rightarrow> (int \<Rightarrow> panel_fields \<Rightarrow> panel_fields) \<Rightarrow> overlay_step" where
  "overlay_int key upd = overlay_with (GetInt key) (\<lambda>v. v = 0) (\<lambda>v cfg. cfg\<lparr>cfg_rest := upd v (cfg_rest cfg)\<rparr>)"

definition overlay_steps :: "overlay_step list" where
  "overlay_steps = [
     overlay_string KeyServerDomain (\<lambda>v f. f\<lparr>pf_Domain := v\<rparr>),
     overlay_string KeyServerPanelBind (\<lambda>v f. f\<lparr>pf_PanelBind := v\<rparr>),
     overlay_int KeyServerPanelPort (\<lambda>v f. f\<lparr>pf_PanelPort := v\<rparr>),
     overlay_string KeyTGBotToken (\<lambda>v f. f\<lparr>pf_Token := v\<rparr>),
     overlay_with (get_list Unmarshal_ints KeyTGBotAdminChats) (\<lambda>v. v = []) (\<lambda>v cfg. cfg\<lparr>cfg_TGBot_AdminChatIDs := Some v\<rparr>),
     overlay_string KeyWAShimListen (\<lambda>v f. f\<lparr>pf_Listen := v\<rparr>),
     overlay_int KeyWAShimPort (\<lambda>v f. f\<lparr>pf_Port := v\<rparr>),
     overlay_string KeyWAShimBackend (\<lambda>v f. f\<lparr>pf_Backend := v\<rparr>),
     overlay_string KeyWAShimWAHost (\<lambda>v f. f\<lparr>pf_WAHost := v\<rparr>),
     overlay_with (get_list Unmarshal_strings KeyWAShimAllowCIDR) (\<lambda>v. v = []) (\<lambda>v cfg. cfg\<lparr>cfg_WAShim_AllowCIDR := Some v\<rparr>)]"

definition OverlayConfig :: "bool \<Rightarrow> pcfg option \<Rightarrow> DB \<Rightarrow> (settings_error option \<times> pcfg option) \<times> DB" where
  "OverlayConfig store cfg d = (case (store, cfg) of
      (True, Some c) \<Rightarrow> (case overlay_seq overlay_steps c d of ((err, c'), d') \<Rightarrow> ((err, Some c'), d'))
    | _ \<Rightarrow> ((None, cfg), d))"


section \<open>Lookup and update\<close>

text \<open>What the callers rely on: a store of texts by key.\<close>

locale kv_store =
  fixes lookup :: "'d \<Rightarrow> string \<Rightarrow> string option" and update :: "string \<Rightarrow> string \<Rightarrow> 'd \<Rightarrow> 'd"
  assumes lookup_update: "lookup (update k v d) j = (if j = k then Some v else lookup d j)"
begin

lemma lookup_updates:
  "lookup (foldl (\<lambda>d (k, v). update k v d) d kvs) j = (case map_of (rev kvs) j of Some v \<Rightarrow> Some v | None \<Rightarrow> lookup d j)"
  by (induction kvs rule: rev_induct) (auto simp: lookup_update split: option.split)

end

definition setting :: "DB \<Rightarrow> string \<Rightarrow> string option" where
  "setting d k = map_option st_value (find (\<lambda>r. st_key r = k) (t_settings d))"

abbreviation put_setting :: "int \<Rightarrow> string \<Rightarrow> string \<Rightarrow> string \<Rightarrow> DB \<Rightarrow> DB" where
  "put_setting now by' k v d \<equiv> snd (setting_upsert now k v by' d)"

lemma find_map_upd:
  assumes "\<And>r. key (f r) = key r"
  shows "find (\<lambda>r. key r = j) (map (\<lambda>r. if key r = k then f r else r) rs) =
    map_option (\<lambda>r. if key r = k then f r else r) (find (\<lambda>r. key r = j) rs)"
  using assms by (induction rs) auto

interpretation kv: kv_store setting "put_setting now by'" for now by'
proof
  fix k v d j
  show "setting (put_setting now by' k v d) j = (if j = k then Some v else setting d j)"
  proof (cases "list_ex (\<lambda>r. st_key r = k) (t_settings d)")
    case True
    then obtain r where r: "find (\<lambda>r. st_key r = k) (t_settings d) = Some r"
      by (cases "find (\<lambda>r. st_key r = k) (t_settings d)") (auto simp: find_None_iff list_ex_iff)
    then have "st_key r = k" by (auto simp: find_Some_iff)
    show ?thesis
    proof (cases "j = k")
      case True
      then show ?thesis using r \<open>list_ex _ _\<close> \<open>st_key r = k\<close>
        by (simp add: setting_upsert_def setting_def find_map_upd [where key = st_key])
    next
      case False
      have "(if st_key q = k then q\<lparr>st_value := v, st_updated_at := now, st_updated_by := by'\<rparr> else q) = q" if "find (\<lambda>r. st_key r = j) (t_settings d) = Some q" for q
        using that False by (auto simp: find_Some_iff)
      then show ?thesis using \<open>list_ex _ _\<close> False
        by (cases "find (\<lambda>r. st_key r = j) (t_settings d)") (auto simp: setting_upsert_def setting_def find_map_upd [where key = st_key])
    qed
  next
    case False
    then have "find (\<lambda>r. st_key r = k) (t_settings d) = None" by (auto simp: find_None_iff list_ex_iff)
    then show ?thesis using False by (auto simp: setting_upsert_def setting_def find_append split: option.split)
  qed
qed

lemma setting_same: "same_tables d d' \<Longrightarrow> setting d' k = setting d k"
  by (auto simp: setting_def elim!: same_tablesE)

lemma upsert_faults: "setting_upsert now k v by' (d\<lparr>db_faults := fs\<rparr>) = (Inr (), (put_setting now by' k v d)\<lparr>db_faults := fs\<rparr>)"
  by (simp add: setting_upsert_def)

lemma upsert_all_ok:
  "upsert_all now by' es d = (Inr (), d') \<Longrightarrow> same_tables (foldl (\<lambda>d (k, v). put_setting now by' k v d) d es) d'"
proof (induction es arbitrary: d)
  case Nil
  then show ?case by (simp add: returnD_def)
next
  case (Cons e es)
  obtain k v where e: "e = (k, v)" by fastforce
  obtain d1 where 1: "stmt (setting_upsert now k v by') d = (Inr (), d1)" "upsert_all now by' es d1 = (Inr (), d')"
    using bindD_Inr Cons.prems e by fastforce
  obtain fs where "d1 = (put_setting now by' k v d)\<lparr>db_faults := fs\<rparr>" using stmt_Inr [OF 1(1)] by (auto simp: upsert_faults)
  moreover have "foldl (\<lambda>d (k, v). put_setting now by' k v d) (x\<lparr>db_faults := fs\<rparr>) es =
      (foldl (\<lambda>d (k, v). put_setting now by' k v d) x es)\<lparr>db_faults := fs\<rparr>" for x
  proof (induction es arbitrary: x)
    case (Cons y ys)
    then show ?case by (cases y) (simp add: upsert_faults)
  qed simp
  ultimately show ?case using Cons.IH [OF 1(2)] e by (auto simp: same_tables_def)
qed


lemma map_of_distinct_rev: "distinct (map fst xs) \<Longrightarrow> map_of (rev xs) = map_of xs"
  by (rule map_of_eqI) (auto simp: rev_map [symmetric] map_of_is_SomeI map_of_eq_Some_iff intro!: ext)

lemma encode_map:
  "encode_values vs = Inr es \<Longrightarrow> map fst es = map fst vs \<and> (\<forall>k. map_of es k = Option.bind (map_of vs k) json_Marshal) \<and>
    (\<forall>k v. map_of vs k = Some v \<longrightarrow> json_Marshal v \<noteq> None)"
proof (induction vs arbitrary: es)
  case (Cons kv vs)
  obtain k v where kv: "kv = (k, v)" by fastforce
  then obtain raw es' where "json_Marshal v = Some raw" "encode_values vs = Inr es'" "es = (k, raw) # es'"
    using Cons.prems by (auto split: option.splits sum.splits)
  then show ?case using Cons.IH kv by auto
qed simp

lemma SetMany_ok:
  assumes "SetMany now vs by' d = (Inr (), d')" "distinct (map fst vs)"
  shows "setting d' k = (case map_of vs k of None \<Rightarrow> setting d k | Some v \<Rightarrow> json_Marshal v)"
proof (cases "vs = []")
  case True
  then show ?thesis using assms by (simp add: SetMany_def)
next
  case False
  obtain es where es: "encode_values vs = Inr es" using assms(1) False by (auto simp: SetMany_def split: sum.splits)
  then have "transaction (upsert_all now by' es) d = (Inr (), d')"
    using assms(1) False by (auto simp: SetMany_def liftS_def split: prod.splits sum.splits)
  then obtain d0 d1 where d: "same_tables d d0" "upsert_all now by' es d0 = (Inr (), d1)" "same_tables d1 d'" by (rule transaction_ok)
  have "setting d' k = setting (foldl (\<lambda>d (k, v). put_setting now by' k v d) d0 es) k"
    using setting_same [OF d(3)] setting_same [OF upsert_all_ok [OF d(2)]] by simp
  also have "\<dots> = (case map_of es k of Some v \<Rightarrow> Some v | None \<Rightarrow> setting d0 k)"
    using kv.lookup_updates [of now by' d0 es k] encode_map [OF es] assms(2) by (simp add: map_of_distinct_rev)
  finally have eq: "setting d' k = (case map_of es k of Some v \<Rightarrow> Some v | None \<Rightarrow> setting d0 k)" .
  have "map_of es k = Option.bind (map_of vs k) json_Marshal" "\<And>v. map_of vs k = Some v \<Longrightarrow> json_Marshal v \<noteq> None"
    using encode_map [OF es] by blast+
  then show ?thesis using eq setting_same [OF d(1)] by (cases "map_of vs k") auto
qed

lemma SetMany_error: "SetMany now vs by' d = (Inl e, d') \<Longrightarrow> same_tables d d'"
  by (auto simp: SetMany_def liftS_def split: if_splits sum.splits prod.splits dest: transaction_error)

lemma Get_cases:
  obtains (fault) e d' where "Settings_Get key d = (Inl (SetErrDB key e), d')" "same_tables d d'" "db_faults d \<noteq> []"
  | (absent) d' where "Settings_Get key d = (Inl SetErrNotFound, d')" "same_tables d d'" "setting d key = None"
  | (present) v d' where "Settings_Get key d = (Inr v, d')" "same_tables d d'" "setting d key = Some v"
proof -
  let ?q = "\<lambda>d. map_option st_value (find (\<lambda>r. st_key r = key) (t_settings d))"
  show thesis
  proof (cases rule: select1_cases [of ?q d])
    case (fault e fs)
    have "db_faults d \<noteq> []"
    proof
      assume "db_faults d = []"
      then show False using fault by (auto simp: select1_def stmt_no_faults split: option.splits)
    qed
    then show ?thesis using fault by (intro that(1)) (auto simp: Settings_Get_def)
  next
    case (none fs)
    then show ?thesis by (intro that(2)) (auto simp: Settings_Get_def setting_def)
  next
    case (some r fs)
    then show ?thesis by (intro that(3)) (auto simp: Settings_Get_def setting_def)
  qed
qed

definition decoded :: "(string \<Rightarrow> 'a option) \<Rightarrow> 'a \<Rightarrow> DB \<Rightarrow> string \<Rightarrow> 'a" where
  "decoded decode zero d key = (case Option.bind (setting d key) decode of Some v \<Rightarrow> v | None \<Rightarrow> zero)"

lemma decoded_same: "same_tables d d' \<Longrightarrow> decoded dec z d' k = decoded dec z d k"
  by (simp add: decoded_def setting_same)

lemma read_as_ok: "read_as dec z key d = (Inr v, d') \<Longrightarrow> v = decoded dec z d key \<and> same_tables d d'"
  by (cases rule: Get_cases [of key d]) (auto simp: read_as_def decoded_def split: option.splits)

lemma read_as_back: "setting d key = Some raw \<Longrightarrow> dec raw = Some v \<Longrightarrow> db_faults d = [] \<Longrightarrow> fst (read_as dec z key d) = Inr v"
  by (cases rule: Get_cases [of key d]) (auto simp: read_as_def)


section \<open>Properties of the store\<close>

text \<open>(C36) Writing settings is atomic and reads back: \<open>SetMany\<close> either fails and leaves every table as it was, or
  stores exactly the given values and no others, and the typed readers then return the strings, booleans and
  integers that were written.\<close>

theorem set_many_atomic_readback:
  assumes "distinct (map fst values)" "SetMany now values by' d = (r, d')"
  shows "(\<forall>e. r = Inl e \<longrightarrow> same_tables d d') \<and>
    (r = Inr () \<longrightarrow> (\<forall>k. setting d' k = (case map_of values k of None \<Rightarrow> setting d k | Some v \<Rightarrow> json_Marshal v)) \<and>
      (db_faults d' = [] \<longrightarrow> (\<forall>k s b i.
         (map_of values k = Some (ValStr s) \<longrightarrow> fst (GetString k d') = Inr s) \<and>
         (map_of values k = Some (ValBool b) \<longrightarrow> fst (GetBool k d') = Inr b) \<and>
         (map_of values k = Some (ValInt i) \<and> i \<in> int64_range \<longrightarrow> fst (GetInt k d') = Inr i))))"
proof -
  have "setting d' k = (case map_of values k of None \<Rightarrow> setting d k | Some v \<Rightarrow> json_Marshal v)" if "r = Inr ()" for k
    using SetMany_ok assms that by blast
  then show ?thesis using SetMany_error assms(2)
    by (auto simp: GetString_def GetBool_def GetInt_def json_Marshal_def intro!: read_as_back)
qed

theorem set_many_atomic_readback_witness:
  "\<exists>d'. SetMany 9 [(''washim.port'', ValInt 443), (''server.domain'', ValStr ''a.b'')] ''admin'' emptyDB = (Inr (), d') \<and>
     fst (GetInt ''washim.port'' d') = Inr 443 \<and> fst (GetString ''server.domain'' d') = Inr ''a.b''"
proof -
  let ?vs = "[(''washim.port'', ValInt 443), (''server.domain'', ValStr ''a.b'')]"
  have d: "distinct (map fst ?vs)" by simp
  obtain d' where s: "SetMany 9 ?vs ''admin'' emptyDB = (Inr (), d')" "db_faults d' = []"
    by (simp add: SetMany_def json_Marshal_def liftS_def transaction_def stmt_def returnD_def bindD_def setting_upsert_def emptyDB_def)
  then show ?thesis using set_many_atomic_readback [OF d s(1)] by (simp add: int64_range_def)
qed

section \<open>Overlay: reference and equivalence\<close>

definition over :: "'a \<Rightarrow> 'a \<Rightarrow> 'a \<Rightarrow> 'a" where
  "over zero old new = (if new = zero then old else new)"

text \<open>The overlaid configuration: each field is the stored value, or the YAML one where the stored value is
  missing or zero.\<close>

definition overlaid :: "DB \<Rightarrow> pcfg \<Rightarrow> pcfg" where
  "overlaid d c = (let f = cfg_rest c; str = decoded Unmarshal_string [] d; num = decoded Unmarshal_int 0 d;
       ids = decoded Unmarshal_ints [] d KeyTGBotAdminChats; cidrs = decoded Unmarshal_strings [] d KeyWAShimAllowCIDR in
     c\<lparr>cfg_WAShim_AllowCIDR := (if cidrs = [] then cfg_WAShim_AllowCIDR c else Some cidrs),
       cfg_TGBot_AdminChatIDs := (if ids = [] then cfg_TGBot_AdminChatIDs c else Some ids),
       cfg_rest := \<lparr>
         pf_Domain = over [] (pf_Domain f) (str KeyServerDomain),
         pf_PanelBind = over [] (pf_PanelBind f) (str KeyServerPanelBind),
         pf_PanelPort = over 0 (pf_PanelPort f) (num KeyServerPanelPort),
         pf_Token = over [] (pf_Token f) (str KeyTGBotToken),
         pf_Listen = over [] (pf_Listen f) (str KeyWAShimListen),
         pf_Port = over 0 (pf_Port f) (num KeyWAShimPort),
         pf_Backend = over [] (pf_Backend f) (str KeyWAShimBackend),
         pf_WAHost = over [] (pf_WAHost f) (str KeyWAShimWAHost)\<rparr>\<rparr>)"

definition step_does :: "overlay_step \<Rightarrow> (DB \<Rightarrow> pcfg \<Rightarrow> pcfg) \<Rightarrow> bool" where
  "step_does f g = ((\<forall>c d c' d'. f c d = ((None, c'), d') \<longrightarrow> c' = g d c \<and> same_tables d d') \<and>
     (\<forall>d d' c. same_tables d d' \<longrightarrow> g d' c = g d c))"

lemma seq_does:
  assumes "list_all2 step_does fs gs" "overlay_seq fs c d = ((None, c'), d')"
  shows "c' = foldl (\<lambda>c g. g d c) c gs \<and> same_tables d d'"
  using assms
proof (induction fs gs arbitrary: c d rule: list_all2_induct)
  case (Cons f fs g gs)
  obtain c1 d1 where 1: "f c d = ((None, c1), d1)" "overlay_seq fs c1 d1 = ((None, c'), d')"
    using Cons.prems by (auto split: prod.splits option.splits)
  then have "c1 = g d c" "same_tables d d1" using Cons.hyps(1) by (auto simp: step_does_def)
  moreover have "foldl (\<lambda>c g. g d1 c) x gs = foldl (\<lambda>c g. g d c) x gs" for x
    using Cons.hyps(2) \<open>same_tables d d1\<close> by (induction fs gs arbitrary: x rule: list_all2_induct) (auto simp: step_does_def)
  ultimately show ?case using Cons.IH [OF 1(2)] same_tables_trans by auto
qed simp

lemma with_does:
  assumes "\<And>d v d'. get d = (Inr v, d') \<Longrightarrow> v = val d \<and> same_tables d d'" "\<And>d d'. same_tables d d' \<Longrightarrow> val d' = val d"
  shows "step_does (overlay_with get zero upd) (\<lambda>d c. if zero (val d) then c else upd (val d) c)"
  unfolding step_does_def using assms by (fastforce simp: overlay_with_def split: sum.splits prod.splits)

lemma get_list_ok: "get_list dec key d = (Inr v, d') \<Longrightarrow> v = decoded dec [] d key \<and> same_tables d d'"
  by (cases rule: Get_cases [of key d]) (auto simp: get_list_def GetJSON_def decoded_def split: option.splits)

lemma string_does: "step_does (overlay_string key upd)
    (\<lambda>d c. if decoded Unmarshal_string [] d key = [] then c else c\<lparr>cfg_rest := upd (decoded Unmarshal_string [] d key) (cfg_rest c)\<rparr>)"
  unfolding overlay_string_def GetString_def by (rule with_does) (simp_all add: read_as_ok decoded_same)

lemma int_does: "step_does (overlay_int key upd)
    (\<lambda>d c. if decoded Unmarshal_int 0 d key = 0 then c else c\<lparr>cfg_rest := upd (decoded Unmarshal_int 0 d key) (cfg_rest c)\<rparr>)"
  unfolding overlay_int_def GetInt_def by (rule with_does) (simp_all add: read_as_ok decoded_same)


lemma string_field:
  assumes "\<And>f. upd (fld f) f = f"
  shows "step_does (overlay_string key upd)
    (\<lambda>d c. c\<lparr>cfg_rest := upd (over [] (fld (cfg_rest c)) (decoded Unmarshal_string [] d key)) (cfg_rest c)\<rparr>)"
  using string_does [of key upd] assms by (simp add: over_def if_distrib [of "\<lambda>x. upd x _"] if_distrib [of "\<lambda>x. _\<lparr>cfg_rest := x\<rparr>"] cong: if_cong)

lemma int_field:
  assumes "\<And>f. upd (fld f) f = f"
  shows "step_does (overlay_int key upd)
    (\<lambda>d c. c\<lparr>cfg_rest := upd (over 0 (fld (cfg_rest c)) (decoded Unmarshal_int 0 d key)) (cfg_rest c)\<rparr>)"
  using int_does [of key upd] assms by (simp add: over_def if_distrib [of "\<lambda>x. upd x _"] if_distrib [of "\<lambda>x. _\<lparr>cfg_rest := x\<rparr>"] cong: if_cong)

lemma overlay_seq_overlaid:
  assumes "overlay_seq overlay_steps c d = ((None, c'), d')"
  shows "c' = overlaid d c \<and> same_tables d d'"
proof -
  let ?str = "decoded Unmarshal_string []" and ?num = "decoded Unmarshal_int 0"
  let ?gs = "[
     \<lambda>d c. c\<lparr>cfg_rest := cfg_rest c\<lparr>pf_Domain := over [] (pf_Domain (cfg_rest c)) (?str d KeyServerDomain)\<rparr>\<rparr>,
     \<lambda>d c. c\<lparr>cfg_rest := cfg_rest c\<lparr>pf_PanelBind := over [] (pf_PanelBind (cfg_rest c)) (?str d KeyServerPanelBind)\<rparr>\<rparr>,
     \<lambda>d c. c\<lparr>cfg_rest := cfg_rest c\<lparr>pf_PanelPort := over 0 (pf_PanelPort (cfg_rest c)) (?num d KeyServerPanelPort)\<rparr>\<rparr>,
     \<lambda>d c. c\<lparr>cfg_rest := cfg_rest c\<lparr>pf_Token := over [] (pf_Token (cfg_rest c)) (?str d KeyTGBotToken)\<rparr>\<rparr>,
     \<lambda>d c. if decoded Unmarshal_ints [] d KeyTGBotAdminChats = [] then c else c\<lparr>cfg_TGBot_AdminChatIDs := Some (decoded Unmarshal_ints [] d KeyTGBotAdminChats)\<rparr>,
     \<lambda>d c. c\<lparr>cfg_rest := cfg_rest c\<lparr>pf_Listen := over [] (pf_Listen (cfg_rest c)) (?str d KeyWAShimListen)\<rparr>\<rparr>,
     \<lambda>d c. c\<lparr>cfg_rest := cfg_rest c\<lparr>pf_Port := over 0 (pf_Port (cfg_rest c)) (?num d KeyWAShimPort)\<rparr>\<rparr>,
     \<lambda>d c. c\<lparr>cfg_rest := cfg_rest c\<lparr>pf_Backend := over [] (pf_Backend (cfg_rest c)) (?str d KeyWAShimBackend)\<rparr>\<rparr>,
     \<lambda>d c. c\<lparr>cfg_rest := cfg_rest c\<lparr>pf_WAHost := over [] (pf_WAHost (cfg_rest c)) (?str d KeyWAShimWAHost)\<rparr>\<rparr>,
     \<lambda>d c. if decoded Unmarshal_strings [] d KeyWAShimAllowCIDR = [] then c else c\<lparr>cfg_WAShim_AllowCIDR := Some (decoded Unmarshal_strings [] d KeyWAShimAllowCIDR)\<rparr>]"
  have "list_all2 step_does overlay_steps ?gs"
    unfolding overlay_steps_def
    by (simp only: list_all2_Cons list_all2_Nil simp_thms, intro conjI string_field int_field with_does)
      (simp_all add: get_list_ok decoded_same)
  then have "c' = foldl (\<lambda>c g. g d c) c ?gs \<and> same_tables d d'" using assms by (rule seq_does)
  then show ?thesis by (cases c; cases "cfg_rest c") (auto simp: overlaid_def Let_def)
qed

text \<open>The boot-time overlay equals its reference: when \<open>OverlayConfig\<close> succeeds, every field the panel manages
  is the stored value where one is stored and not zero, and the YAML value otherwise; no other field of the
  configuration and no table changes.\<close>

theorem overlay_equals_reference:
  assumes "OverlayConfig True (Some c) d = ((None, c'), d')"
  shows "c' = Some (overlaid d c) \<and> same_tables d d'"
proof -
  obtain err c1 d1 where 1: "overlay_seq overlay_steps c d = ((err, c1), d1)" by (metis prod.exhaust)
  then have "err = None" "c' = Some c1" "d' = d1" using assms by (auto simp: OverlayConfig_def)
  then show ?thesis using overlay_seq_overlaid [of c d c1 d1] 1 by simp
qed


theorem overlay_equals_reference_witness:
  "\<exists>c' d'. OverlayConfig True (Some \<lparr>cfg_Exits = None, cfg_EffectiveRules = None, cfg_DNS_Upstreams = None, cfg_WAShim_AllowCIDR = None,
      cfg_TGBot_AdminChatIDs = Some [5], cfg_Rules_Sources = None, cfg_rest = \<lparr>pf_Domain = ''old'', pf_PanelBind = ''0.0.0.0'', pf_PanelPort = 443,
      pf_Token = [], pf_Listen = [], pf_Port = 0, pf_Backend = [], pf_WAHost = []\<rparr>\<rparr>)
      (emptyDB\<lparr>t_settings := [\<lparr>st_key = ''server.domain'', st_value = json_string ''new'', st_updated_at = 1, st_updated_by = ''admin''\<rparr>]\<rparr>)
      = ((None, Some c'), d') \<and> pf_Domain (cfg_rest c') = ''new'' \<and> pf_PanelPort (cfg_rest c') = 443 \<and> cfg_TGBot_AdminChatIDs c' = Some [5]"
proof -
  let ?c = "\<lparr>cfg_Exits = None, cfg_EffectiveRules = None, cfg_DNS_Upstreams = None, cfg_WAShim_AllowCIDR = None,
      cfg_TGBot_AdminChatIDs = Some [5], cfg_Rules_Sources = None, cfg_rest = \<lparr>pf_Domain = ''old'', pf_PanelBind = ''0.0.0.0'', pf_PanelPort = 443,
      pf_Token = [], pf_Listen = [], pf_Port = 0, pf_Backend = [], pf_WAHost = []\<rparr>\<rparr> :: pcfg"
  let ?d = "emptyDB\<lparr>t_settings := [\<lparr>st_key = ''server.domain'', st_value = json_string ''new'', st_updated_at = 1, st_updated_by = ''admin''\<rparr>]\<rparr>"
  note keys = KeyServerDomain_def KeyServerPanelBind_def KeyServerPanelPort_def KeyTGBotToken_def KeyTGBotAdminChats_def
    KeyWAShimListen_def KeyWAShimPort_def KeyWAShimBackend_def KeyWAShimWAHost_def KeyWAShimAllowCIDR_def
  have "\<exists>c' d'. OverlayConfig True (Some ?c) ?d = ((None, Some c'), d')"
    by (simp add: OverlayConfig_def overlay_steps_def overlay_string_def overlay_int_def overlay_with_def get_list_def GetJSON_def
        GetString_def GetInt_def read_as_def Settings_Get_def select1_def stmt_def emptyDB_def keys)
  then obtain c' d' where o: "OverlayConfig True (Some ?c) ?d = ((None, Some c'), d')" by blast
  then have "c' = overlaid ?d ?c" using overlay_equals_reference [OF o] by simp
  then show ?thesis using o by (simp add: overlaid_def decoded_def setting_def over_def keys emptyDB_def Let_def)
qed

end
