(* ===== verification/Access.thy ===== *)
theory Access
  imports Settings
begin

unbundle bit_operations_syntax

text \<open>
  The internal-only access gate: \<open>internal/access/gate.go\<close>, the settings handler that changes its policy
  (\<open>internal/api/internal_only.go\<close>) and the HTTP middleware that asks it (\<open>internal_only_middleware.go\<close>).

  The gate's atomic pointer is the field \<open>g_snapshot\<close>; a handler runs under the settings mutex and is one step
  on the pair of gate and database.  Request bodies arrive decoded.
\<close>

section \<open>Gate\<close>

definition DefaultInternalCIDRs :: string where
  "DefaultInternalCIDRs = ''172.16.0.0/12,10.0.0.0/8,192.168.0.0/16,127.0.0.0/8,::1/128,fd00::/8''"

definition KeyFrontdoorInternalOnlyEnabled :: string where "KeyFrontdoorInternalOnlyEnabled = ''frontdoor.internal_only_enabled''"
definition KeyFrontdoorInternalCIDRs :: string where "KeyFrontdoorInternalCIDRs = ''frontdoor.internal_cidrs''"

record gate_state =
  gs_enabled :: bool
  gs_cidrs :: "Prefix list"

record Gate =
  g_settings :: bool
  g_snapshot :: "gate_state option"

text \<open>\<open>net.Addr\<close>: a nil interface, the three concrete types (with a nil pointer as \<open>None\<close>), or another type with
  its text.\<close>

datatype net_addr = NilAddr | TCPAddr "IP option" | UDPAddr "IP option" | IPAddr "IP option" | OtherAddr string

fun parseCIDRs_loop :: "string list \<Rightarrow> Prefix list" where
  "parseCIDRs_loop [] = []"
| "parseCIDRs_loop (s # ss) = (let s = TrimSpace s in
     if s = [] then parseCIDRs_loop ss
     else case ParsePrefix s of None \<Rightarrow> parseCIDRs_loop ss | Some p \<Rightarrow> p # parseCIDRs_loop ss)"

definition parseCIDRs :: "string \<Rightarrow> Prefix list" where
  "parseCIDRs raw = parseCIDRs_loop (Split (CHR '','') raw)"

fun validate_loop :: "string list \<Rightarrow> string option" where
  "validate_loop [] = None"
| "validate_loop (s # ss) = (let s = TrimSpace s in
     if s = [] then validate_loop ss
     else case ParsePrefix s of None \<Rightarrow> Some s | Some _ \<Rightarrow> validate_loop ss)"

text \<open>The error carries the offending entry.\<close>

definition ValidateCIDRs :: "string \<Rightarrow> string option" where
  "ValidateCIDRs raw = validate_loop (Split (CHR '','') raw)"

definition Gate_Refresh :: "Gate option \<Rightarrow> DB \<Rightarrow> (settings_error option \<times> Gate option) \<times> DB" where
  "Gate_Refresh g d = (case g of
      None \<Rightarrow> ((None, None), d)
    | Some g \<Rightarrow>
        if \<not> g_settings g then ((None, Some (g\<lparr>g_snapshot := Some \<lparr>gs_enabled = False, gs_cidrs = []\<rparr>\<rparr>)), d)
        else (case GetBool KeyFrontdoorInternalOnlyEnabled d of
            (Inl e, d) \<Rightarrow> ((Some e, Some g), d)
          | (Inr on, d) \<Rightarrow> (case GetString KeyFrontdoorInternalCIDRs d of
                (Inl e, d) \<Rightarrow> ((Some e, Some g), d)
              | (Inr raw, d) \<Rightarrow>
                  let raw = (if TrimSpace raw = [] then DefaultInternalCIDRs else raw) in
                  ((None, Some (g\<lparr>g_snapshot := Some \<lparr>gs_enabled = on, gs_cidrs = parseCIDRs raw\<rparr>\<rparr>)), d))))"

definition NewGate :: "bool \<Rightarrow> DB \<Rightarrow> (settings_error, Gate) result \<times> DB" where
  "NewGate store d = (case Gate_Refresh (Some \<lparr>g_settings = store, g_snapshot = None\<rparr>) d of
      ((Some e, _), d) \<Rightarrow> (Inl e, d)
    | ((None, Some g), d) \<Rightarrow> (Inr g, d)
    | ((None, None), d) \<Rightarrow> (Inl SetErrNotFound, d))"

definition Gate_Configure :: "bool \<Rightarrow> string \<Rightarrow> Gate option \<Rightarrow> string option \<times> Gate option" where
  "Gate_Configure enabled raw g = (case g of
      None \<Rightarrow> (None, None)
    | Some g \<Rightarrow>
        let raw = (if TrimSpace raw = [] then DefaultInternalCIDRs else raw) in
        (case ValidateCIDRs raw of
           Some e \<Rightarrow> (Some e, Some g)
         | None \<Rightarrow> (None, Some (g\<lparr>g_snapshot := Some \<lparr>gs_enabled = enabled, gs_cidrs = parseCIDRs raw\<rparr>\<rparr>))))"

definition Gate_Enabled :: "Gate option \<Rightarrow> bool" where
  "Gate_Enabled g = (case g of None \<Rightarrow> False | Some g \<Rightarrow> (case g_snapshot g of None \<Rightarrow> False | Some s \<Rightarrow> gs_enabled s))"

definition netAddrToNetip :: "IP \<Rightarrow> Addr" where
  "netAddrToNetip ip = (if ip = [] then AddrInvalid
     else case To4 ip of
         Some v4 \<Rightarrow> (case AddrFromSlice v4 of Some a \<Rightarrow> Addr_Unmap a | None \<Rightarrow> AddrInvalid)
       | None \<Rightarrow> (case AddrFromSlice ip of Some a \<Rightarrow> Addr_Unmap a | None \<Rightarrow> AddrInvalid))"

definition extractIP :: "net_addr \<Rightarrow> Addr" where
  "extractIP remote = (case remote of
      NilAddr \<Rightarrow> AddrInvalid
    | TCPAddr ip \<Rightarrow> (case ip of None \<Rightarrow> AddrInvalid | Some ip \<Rightarrow> netAddrToNetip ip)
    | UDPAddr ip \<Rightarrow> (case ip of None \<Rightarrow> AddrInvalid | Some ip \<Rightarrow> netAddrToNetip ip)
    | IPAddr ip \<Rightarrow> (case ip of None \<Rightarrow> AddrInvalid | Some ip \<Rightarrow> netAddrToNetip ip)
    | OtherAddr text \<Rightarrow>
        let host = (case SplitHostPort text of Some (h, _) \<Rightarrow> h | None \<Rightarrow> text) in
        (case ParseAddr host of Some a \<Rightarrow> a | None \<Rightarrow> AddrInvalid))"

definition AllowIP :: "Addr \<Rightarrow> Gate option \<Rightarrow> bool" where
  "AllowIP ip g = (case g of None \<Rightarrow> True
     | Some g \<Rightarrow> (case g_snapshot g of None \<Rightarrow> True
         | Some s \<Rightarrow> if \<not> gs_enabled s then True
             else if \<not> Addr_IsValid ip then False
             else if Addr_IsLoopback ip then True
             else list_ex (\<lambda>p. Prefix_Contains p ip) (gs_cidrs s)))"

definition Allow :: "net_addr \<Rightarrow> Gate option \<Rightarrow> bool" where
  "Allow remote g = (case g of None \<Rightarrow> True
     | Some g \<Rightarrow> (case g_snapshot g of None \<Rightarrow> True
         | Some s \<Rightarrow> if \<not> gs_enabled s then True
             else let ip = extractIP remote in
               if \<not> Addr_IsValid ip then False
               else if Addr_IsLoopback ip then True
               else list_ex (\<lambda>p. Prefix_Contains p ip) (gs_cidrs s)))"

section \<open>Settings handler\<close>

record internalOnlyDoc =
  io_Enabled :: "bool option"
  io_CIDRs :: "string option"

record internalOnlyResponse =
  ir_Enabled :: bool
  ir_CIDRs :: string

text \<open>A reply: 200 with a body, or an error with its status and code.\<close>

datatype 'a reply = ReplyOK 'a | ReplyError nat string

definition readInternalOnly :: "internalOnlyResponse stm" where
  "readInternalOnly d = (case GetBool KeyFrontdoorInternalOnlyEnabled d of
      (Inl e, d) \<Rightarrow> (Inl e, d)
    | (Inr enabled, d) \<Rightarrow> (case GetString KeyFrontdoorInternalCIDRs d of
          (Inl e, d) \<Rightarrow> (Inl e, d)
        | (Inr cidrs, d) \<Rightarrow> (Inr \<lparr>ir_Enabled = enabled, ir_CIDRs = (if cidrs = [] then DefaultInternalCIDRs else cidrs)\<rparr>, d)))"

definition handleGetInternalOnly :: "bool \<Rightarrow> DB \<Rightarrow> internalOnlyResponse reply \<times> DB" where
  "handleGetInternalOnly store d = (if \<not> store then (ReplyError 503 ''settings_unavailable'', d)
     else case readInternalOnly d of
         (Inl e, d) \<Rightarrow> (ReplyError 500 ''read_failed'', d)
       | (Inr resp, d) \<Rightarrow> (ReplyOK resp, d))"

definition handleUpdateInternalOnly :: "bool \<Rightarrow> int \<Rightarrow> string \<Rightarrow> (string, internalOnlyDoc) result \<Rightarrow> Gate option \<times> DB \<Rightarrow>
    internalOnlyResponse reply \<times> Gate option \<times> DB" where
  "handleUpdateInternalOnly store now actor body x = (case x of (g, d) \<Rightarrow>
     if \<not> store then (ReplyError 503 ''settings_unavailable'', g, d)
     else case body of
         Inl e \<Rightarrow> (ReplyError 400 ''bad_request'', g, d)
       | Inr req \<Rightarrow> (case readInternalOnly d of
             (Inl e, d) \<Rightarrow> (ReplyError 500 ''read_failed'', g, d)
           | (Inr eff, d) \<Rightarrow>
               let values = (case io_Enabled req of Some b \<Rightarrow> [(KeyFrontdoorInternalOnlyEnabled, ValBool b)] | None \<Rightarrow> []) @
                            (case io_CIDRs req of Some c \<Rightarrow> [(KeyFrontdoorInternalCIDRs, ValStr c)] | None \<Rightarrow> []);
                   eff = \<lparr>ir_Enabled = (case io_Enabled req of Some b \<Rightarrow> b | None \<Rightarrow> ir_Enabled eff),
                          ir_CIDRs = (case io_CIDRs req of Some c \<Rightarrow> c | None \<Rightarrow> ir_CIDRs eff)\<rparr> in
               (case ValidateCIDRs (ir_CIDRs eff) of
                  Some e \<Rightarrow> (ReplyError 400 ''invalid_settings'', g, d)
                | None \<Rightarrow> (case SetMany now values actor d of
                      (Inl e, d) \<Rightarrow> (ReplyError 500 ''write_failed'', g, d)
                    | (Inr _, d) \<Rightarrow> (case Gate_Configure (ir_Enabled eff) (ir_CIDRs eff) g of
                          (Some e, g) \<Rightarrow> (ReplyError 500 ''apply_failed'', g, d)
                        | (None, g) \<Rightarrow> (ReplyOK eff, g, d))))))"

section \<open>Middleware\<close>

definition isInternalOnlyBypass :: "string \<Rightarrow> bool" where
  "isInternalOnlyBypass p = (p = ''/api/v1/health'' \<or> p = ''/ios-dot.mobileconfig'' \<or> p = ''/dns-query'' \<or> HasPrefix p ''/api/v1/bootstrap'')"

text \<open>Whether a request with this method, path and \<open>RemoteAddr\<close> reaches the next handler; otherwise the reply is
  403 \<open>internal_only_access\<close>.\<close>

definition internalOnlyMiddleware :: "Gate option \<Rightarrow> string \<Rightarrow> string \<Rightarrow> string \<Rightarrow> bool" where
  "internalOnlyMiddleware g method path remoteAddr = (if g = None \<or> \<not> Gate_Enabled g then True
     else if method = ''OPTIONS'' then True
     else if isInternalOnlyBypass path then True
     else Allow (OtherAddr remoteAddr) g)"


section \<open>The default policy\<close>

definition default_prefixes :: "Prefix list" where
  "default_prefixes = [
     \<lparr>pfx_ip = Addr4 0xAC100000, pfx_bits = 12\<rparr>, \<lparr>pfx_ip = Addr4 0x0A000000, pfx_bits = 8\<rparr>, \<lparr>pfx_ip = Addr4 0xC0A80000, pfx_bits = 16\<rparr>,
     \<lparr>pfx_ip = Addr4 0x7F000000, pfx_bits = 8\<rparr>, \<lparr>pfx_ip = Addr6 1 [], pfx_bits = 128\<rparr>,
     \<lparr>pfx_ip = Addr6 0xFD000000000000000000000000000000 [], pfx_bits = 8\<rparr>]"

lemma default_entries: "Split (CHR '','') DefaultInternalCIDRs =
    [''172.16.0.0/12'', ''10.0.0.0/8'', ''192.168.0.0/16'', ''127.0.0.0/8'', ''::1/128'', ''fd00::/8'']"
  by (simp add: DefaultInternalCIDRs_def)

lemma default_v6_fields:
  "ipv6_fields 8 ''1'' [] (Some 0) = Some ([0, 1], Some 0, [])" "ipv6_fields 8 ''fd00::'' [] None = Some ([0xfd, 0], Some 2, [])"
proof -
  have fuel8: "ipv6_fields 8 s ip ell = ipv6_fields (Suc 7) s ip ell" for s ip ell by simp
  have run: "hex_run ''1'' = ''1''" "hex_run ''fd00::'' = ''fd00''" "hex_num ''1'' = 1" "hex_num ''fd00'' = 0xfd00"
    by (simp_all add: hex_run_def hex_num_def hex_val_def)
  show "ipv6_fields 8 ''1'' [] (Some 0) = Some ([0, 1], Some 0, [])" "ipv6_fields 8 ''fd00::'' [] None = Some ([0xfd, 0], Some 2, [])"
    by (subst fuel8, subst ipv6_fields.simps(2), simp add: run Let_def)+
qed

lemma default_v6_words:
  "word_of_bytes (replicate 14 0 @ [0, 1]) = (1 :: 128 word)"
  "word_of_bytes ([0xfd, 0] @ replicate 14 0) = (0xFD000000000000000000000000000000 :: 128 word)"
proof -
  have "replicate 14 (0 :: nat) = [0, 0, 0, 0, 0, 0, 0, 0, 0, 0, 0, 0, 0, 0]" by (simp add: numeral_eq_Suc)
  then show "word_of_bytes (replicate 14 0 @ [0, 1]) = (1 :: 128 word)"
    "word_of_bytes ([0xfd, 0] @ replicate 14 0) = (0xFD000000000000000000000000000000 :: 128 word)"
    by (simp_all add: word_of_bytes_def)
qed

lemmas prefix_eval = ParsePrefix_def ParseAddr_def parseIPv6_def Let_def Addr_zone_def dec_val_def digit_val_def is_digit_def Addr_BitLen_def

lemma default_parsed:
  "ParsePrefix ''172.16.0.0/12'' = Some \<lparr>pfx_ip = Addr4 0xAC100000, pfx_bits = 12\<rparr>"
  "ParsePrefix ''10.0.0.0/8'' = Some \<lparr>pfx_ip = Addr4 0x0A000000, pfx_bits = 8\<rparr>"
  "ParsePrefix ''192.168.0.0/16'' = Some \<lparr>pfx_ip = Addr4 0xC0A80000, pfx_bits = 16\<rparr>"
  "ParsePrefix ''127.0.0.0/8'' = Some \<lparr>pfx_ip = Addr4 0x7F000000, pfx_bits = 8\<rparr>"
  by code_simp+

lemma default_parsed6:
  "ParsePrefix ''::1/128'' = Some \<lparr>pfx_ip = Addr6 1 [], pfx_bits = 128\<rparr>"
  "ParsePrefix ''fd00::/8'' = Some \<lparr>pfx_ip = Addr6 0xFD000000000000000000000000000000 [], pfx_bits = 8\<rparr>"
  using default_v6_words by (simp_all add: prefix_eval default_v6_fields)

lemma default_trim:
  "TrimSpace ''172.16.0.0/12'' = ''172.16.0.0/12''" "TrimSpace ''10.0.0.0/8'' = ''10.0.0.0/8''" "TrimSpace ''192.168.0.0/16'' = ''192.168.0.0/16''"
  "TrimSpace ''127.0.0.0/8'' = ''127.0.0.0/8''" "TrimSpace ''::1/128'' = ''::1/128''" "TrimSpace ''fd00::/8'' = ''fd00::/8''"
  by code_simp+

lemma default_valid [simp]: "ValidateCIDRs DefaultInternalCIDRs = None" "parseCIDRs DefaultInternalCIDRs = default_prefixes"
  by (simp_all add: ValidateCIDRs_def parseCIDRs_def default_entries default_trim default_parsed default_parsed6 default_prefixes_def)

section \<open>Persisted and live policy\<close>

text \<open>The policy the database describes.\<close>

definition policy_of :: "DB \<Rightarrow> gate_state" where
  "policy_of d = (let raw = decoded Unmarshal_string [] d KeyFrontdoorInternalCIDRs in
     \<lparr>gs_enabled = decoded Unmarshal_bool False d KeyFrontdoorInternalOnlyEnabled,
      gs_cidrs = parseCIDRs (if TrimSpace raw = [] then DefaultInternalCIDRs else raw)\<rparr>)"

lemma policy_same: "same_tables d d' \<Longrightarrow> policy_of d' = policy_of d"
  by (simp add: policy_of_def decoded_same)

lemma GetBool_ok: "GetBool k d = (Inr v, d') \<Longrightarrow> v = decoded Unmarshal_bool False d k \<and> same_tables d d'"
  unfolding GetBool_def by (rule read_as_ok)

lemma GetString_ok: "GetString k d = (Inr v, d') \<Longrightarrow> v = decoded Unmarshal_string [] d k \<and> same_tables d d'"
  unfolding GetString_def by (rule read_as_ok)

lemma read_as_same: "read_as dec z k d = (r, d') \<Longrightarrow> same_tables d d'"
  by (cases rule: Get_cases [of k d]) (auto simp: read_as_def split: option.splits if_splits)

lemma Get_same: "GetBool k d = (b, d') \<Longrightarrow> same_tables d d'" "GetString k d = (s, d') \<Longrightarrow> same_tables d d'"
  unfolding GetBool_def GetString_def by (auto intro: read_as_same)

lemma Refresh_ok:
  assumes "Gate_Refresh (Some g) d = ((None, g'), d')" "g_settings g"
  shows "g' = Some (g\<lparr>g_snapshot := Some (policy_of d)\<rparr>) \<and> same_tables d d'"
proof -
  obtain on d1 raw where 1: "GetBool KeyFrontdoorInternalOnlyEnabled d = (Inr on, d1)" "GetString KeyFrontdoorInternalCIDRs d1 = (Inr raw, d')"
    "g' = Some (g\<lparr>g_snapshot := Some \<lparr>gs_enabled = on, gs_cidrs = parseCIDRs (if TrimSpace raw = [] then DefaultInternalCIDRs else raw)\<rparr>\<rparr>)"
    using assms by (auto simp: Gate_Refresh_def Let_def split: prod.splits sum.splits)
  note b = GetBool_ok [OF 1(1)] and s = GetString_ok [OF 1(2)]
  have "raw = decoded Unmarshal_string [] d KeyFrontdoorInternalCIDRs" using s decoded_same b by metis
  then show ?thesis using 1(3) b s same_tables_trans by (auto simp: policy_of_def Let_def)
qed

lemma readInternalOnly_ok:
  assumes "readInternalOnly d = (r, d')"
  shows "same_tables d d'" "\<And>e. r = Inr e \<Longrightarrow> ir_Enabled e = decoded Unmarshal_bool False d KeyFrontdoorInternalOnlyEnabled \<and>
     ir_CIDRs e = over [] DefaultInternalCIDRs (decoded Unmarshal_string [] d KeyFrontdoorInternalCIDRs)"
proof -
  obtain on d1 where 1: "GetBool KeyFrontdoorInternalOnlyEnabled d = (on, d1)" by fastforce
  obtain raw d2 where 2: "GetString KeyFrontdoorInternalCIDRs d1 = (raw, d2)" by fastforce
  show "same_tables d d'" using assms 1 2 Get_same(1) [OF 1] Get_same(2) [OF 2]
    by (auto simp: readInternalOnly_def split: sum.splits intro: same_tables_trans)
  fix e assume "r = Inr e"
  then obtain b s where bs: "on = Inr b" "raw = Inr s" "e = \<lparr>ir_Enabled = b, ir_CIDRs = (if s = [] then DefaultInternalCIDRs else s)\<rparr>"
    using assms 1 2 by (auto simp: readInternalOnly_def split: sum.splits)
  then show "ir_Enabled e = decoded Unmarshal_bool False d KeyFrontdoorInternalOnlyEnabled \<and>
     ir_CIDRs e = over [] DefaultInternalCIDRs (decoded Unmarshal_string [] d KeyFrontdoorInternalCIDRs)"
    using GetBool_ok [OF 1 [unfolded bs(1)]] GetString_ok [OF 2 [unfolded bs(2)]] decoded_same [of d d1 Unmarshal_string "[]"] by (auto simp: over_def)
qed

lemma decoded_encoded:
  "setting d k = Some (json_string s) \<Longrightarrow> decoded Unmarshal_string z d k = s"
  "setting d k = Some (json_bool b) \<Longrightarrow> decoded Unmarshal_bool w d k = b"
  by (simp_all add: decoded_def)

lemma keys_differ [simp]: "KeyFrontdoorInternalOnlyEnabled \<noteq> KeyFrontdoorInternalCIDRs" "KeyFrontdoorInternalCIDRs \<noteq> KeyFrontdoorInternalOnlyEnabled"
  by (simp_all add: KeyFrontdoorInternalOnlyEnabled_def KeyFrontdoorInternalCIDRs_def)

lemma default_trimmed [simp]: "TrimSpace DefaultInternalCIDRs \<noteq> []"
  unfolding DefaultInternalCIDRs_def by code_simp

lemma policy_written:
  assumes "SetMany now vals actor d1 = (Inr u, d2)" "distinct (map fst vals)" "same_tables d d1"
    and "vals = (case en of Some b \<Rightarrow> [(KeyFrontdoorInternalOnlyEnabled, ValBool b)] | None \<Rightarrow> []) @
      (case ci of Some c \<Rightarrow> [(KeyFrontdoorInternalCIDRs, ValStr c)] | None \<Rightarrow> [])"
    and "e = decoded Unmarshal_bool False d KeyFrontdoorInternalOnlyEnabled"
    and "c = over [] DefaultInternalCIDRs (decoded Unmarshal_string [] d KeyFrontdoorInternalCIDRs)"
  shows "policy_of d2 = (let raw = (case ci of Some c \<Rightarrow> c | None \<Rightarrow> c) in
    \<lparr>gs_enabled = (case en of Some b \<Rightarrow> b | None \<Rightarrow> e), gs_cidrs = parseCIDRs (if TrimSpace raw = [] then DefaultInternalCIDRs else raw)\<rparr>)"
proof -
  have s: "setting d2 k = (case map_of vals k of None \<Rightarrow> setting d k | Some v \<Rightarrow> json_Marshal v)" for k
    using SetMany_ok [of now vals actor d1 d2] assms(1,2) setting_same [OF assms(3)] by (simp split: option.split)
  have en: "decoded Unmarshal_bool False d2 KeyFrontdoorInternalOnlyEnabled = (case en of Some b \<Rightarrow> b | None \<Rightarrow> e)"
    unfolding assms(5) decoded_def s by (auto simp: assms(4) json_Marshal_def split: option.split)
  have ci: "decoded Unmarshal_string [] d2 KeyFrontdoorInternalCIDRs =
      (case ci of Some c \<Rightarrow> c | None \<Rightarrow> decoded Unmarshal_string [] d KeyFrontdoorInternalCIDRs)"
    unfolding decoded_def s by (auto simp: assms(4) json_Marshal_def split: option.split)
  show ?thesis unfolding policy_of_def en ci assms(6) by (auto simp: over_def Let_def split: option.split)
qed

text \<open>(C37) The persisted and the live access policy change together.  If the gate enforces the policy the database
  describes, then after any request to the internal-only settings handler, whatever is in the request and
  whichever statement fails, it still does; an accepted request makes exactly the requested values effective,
  a refused one changes neither side, and the reply \<open>apply_failed\<close> (persisted but not live) never happens.\<close>

theorem internal_only_update_in_step:
  assumes "g_snapshot g = Some (policy_of d)"
    and "handleUpdateInternalOnly True now actor body (Some g, d) = (rep, g', d')"
  shows "\<exists>h. g' = Some h \<and> g_snapshot h = Some (policy_of d') \<and>
    (case rep of ReplyError status code \<Rightarrow> h = g \<and> same_tables d d' \<and> code \<noteq> ''apply_failed''
     | ReplyOK eff \<Rightarrow> \<exists>req. body = Inr req \<and> ValidateCIDRs (ir_CIDRs eff) = None \<and>
         gs_enabled (policy_of d') = ir_Enabled eff \<and>
         (\<forall>b. io_Enabled req = Some b \<longrightarrow> ir_Enabled eff = b) \<and> (\<forall>c. io_CIDRs req = Some c \<longrightarrow> ir_CIDRs eff = c))"
proof (cases body)
  case (Inl e)
  then show ?thesis using assms by (auto simp: handleUpdateInternalOnly_def)
next
  case (Inr req)
  obtain r d1 where 1: "readInternalOnly d = (r, d1)" by fastforce
  note r1 = readInternalOnly_ok [OF 1]
  show ?thesis
  proof (cases r)
    case (Inl e)
    then show ?thesis using assms Inr 1 r1 policy_same by (auto simp: handleUpdateInternalOnly_def)
  next
    case eff: (Inr eff0)
    define eff where "eff = \<lparr>ir_Enabled = (case io_Enabled req of Some b \<Rightarrow> b | None \<Rightarrow> ir_Enabled eff0),
      ir_CIDRs = (case io_CIDRs req of Some c \<Rightarrow> c | None \<Rightarrow> ir_CIDRs eff0)\<rparr>"
    define vals where "vals = (case io_Enabled req of Some b \<Rightarrow> [(KeyFrontdoorInternalOnlyEnabled, ValBool b)] | None \<Rightarrow> []) @
      (case io_CIDRs req of Some c \<Rightarrow> [(KeyFrontdoorInternalCIDRs, ValStr c)] | None \<Rightarrow> [])"
    have dist: "distinct (map fst vals)"
      by (auto simp: vals_def KeyFrontdoorInternalOnlyEnabled_def KeyFrontdoorInternalCIDRs_def split: option.split)
    show ?thesis
    proof (cases "ValidateCIDRs (ir_CIDRs eff)")
      case (Some e)
      then show ?thesis using assms Inr 1 eff r1 policy_same by (auto simp: handleUpdateInternalOnly_def eff_def Let_def)
    next
      case valid: None
      obtain w d2 where 2: "SetMany now vals actor d1 = (w, d2)" by fastforce
      show ?thesis
      proof (cases w)
        case (Inl e)
        then have s: "same_tables d d2" using SetMany_error 2 r1(1) same_tables_trans by blast
        have "(rep, g', d') = (ReplyError 500 ''write_failed'', Some g, d2)"
          using assms(2) Inr 1 eff valid 2 Inl by (simp add: handleUpdateInternalOnly_def eff_def vals_def Let_def)
        then show ?thesis using s policy_same [OF s] assms(1) by auto
      next
        case w: (Inr u)
        let ?raw = "if TrimSpace (ir_CIDRs eff) = [] then DefaultInternalCIDRs else ir_CIDRs eff"
        let ?h = "g\<lparr>g_snapshot := Some \<lparr>gs_enabled = ir_Enabled eff, gs_cidrs = parseCIDRs ?raw\<rparr>\<rparr>"
        have rep: "rep = ReplyOK eff" "g' = Some ?h" "d' = d2"
          using assms(2) Inr 1 eff valid 2 w
          by (auto simp: handleUpdateInternalOnly_def eff_def vals_def Gate_Configure_def Let_def split: if_splits)
        have pol: "policy_of d2 = \<lparr>gs_enabled = ir_Enabled eff, gs_cidrs = parseCIDRs ?raw\<rparr>"
          using policy_written [OF 2 [unfolded w] dist r1(1) vals_def conjunct1 [OF r1(2) [OF eff]] conjunct2 [OF r1(2) [OF eff]]]
          by (simp add: eff_def Let_def)
        show ?thesis using rep pol valid Inr by (auto simp: eff_def)
      qed
    qed
  qed
qed

theorem internal_only_update_in_step_witness:
  "\<exists>eff g' d'. handleUpdateInternalOnly True 9 ''admin'' (Inr \<lparr>io_Enabled = Some True, io_CIDRs = None\<rparr>)
       (Some \<lparr>g_settings = True, g_snapshot = Some (policy_of emptyDB)\<rparr>, emptyDB) = (ReplyOK eff, g', d') \<and>
     Gate_Enabled g' \<and> gs_enabled (policy_of d')"
proof -
  let ?g = "\<lparr>g_settings = True, g_snapshot = Some (policy_of emptyDB)\<rparr>"
  let ?b = "Inr \<lparr>io_Enabled = Some True, io_CIDRs = None\<rparr>"
  obtain rep g' d' where h: "handleUpdateInternalOnly True 9 ''admin'' ?b (Some ?g, emptyDB) = (rep, g', d')" by (metis prod_cases3)
  then have ok: "rep = ReplyOK \<lparr>ir_Enabled = True, ir_CIDRs = DefaultInternalCIDRs\<rparr>"
    by (simp add: handleUpdateInternalOnly_def readInternalOnly_def GetBool_def GetString_def read_as_def Settings_Get_def SetMany_def json_Marshal_def
        liftS_def transaction_def stmt_def returnD_def bindD_def setting_upsert_def select1_def emptyDB_def Gate_Configure_def Let_def)
  have "\<exists>x. g' = Some x \<and> g_snapshot x = Some (policy_of d') \<and> gs_enabled (policy_of d')"
    using internal_only_update_in_step [OF _ h] unfolding ok by auto
  then show ?thesis using h ok by (auto simp: Gate_Enabled_def)
qed

section \<open>Who the default policy admits\<close>

lemma v6: "Prefix_Contains \<lparr>pfx_ip = Addr6 1 [], pfx_bits = 128\<rparr> (Addr6 w []) \<longleftrightarrow> w = 1"
  "Prefix_Contains \<lparr>pfx_ip = Addr6 0xFD000000000000000000000000000000 [], pfx_bits = 8\<rparr> (Addr6 w []) \<longleftrightarrow> drop_bit 120 w = 0xFD"
proof -
  show "Prefix_Contains \<lparr>pfx_ip = Addr6 1 [], pfx_bits = 128\<rparr> (Addr6 w []) \<longleftrightarrow> w = 1"
    by (auto simp: Prefix_Contains_def xor_zero)
  have "drop_bit 120 (0xFD000000000000000000000000000000 :: 128 word) = 0xFD" by simp
  then show "Prefix_Contains \<lparr>pfx_ip = Addr6 0xFD000000000000000000000000000000 [], pfx_bits = 8\<rparr> (Addr6 w []) \<longleftrightarrow> drop_bit 120 w = 0xFD"
    unfolding Prefix_Contains_def Prefix.simps Addr.case prod.case by (simp only: drop_bit_xor xor_zero) auto
qed

lemma netAddr4: "netAddrToNetip [a, b, c, d] = Addr4 (word_of_bytes [unat a, unat b, unat c, unat d])"
  by (simp add: netAddrToNetip_def To4_def AddrFromSlice_def Addr_Unmap_def)

lemma netAddr_mapped: "netAddrToNetip (v4InV6Prefix @ [a, b, c, d]) = netAddrToNetip [a, b, c, d]"
  by (simp add: netAddrToNetip_def To4_def v4InV6Prefix_def)

lemma byte_eq: "(a :: byte) = 10 \<longleftrightarrow> unat a = 10" "a = 127 \<longleftrightarrow> unat a = 127" "a = 172 \<longleftrightarrow> unat a = 172"
  "a = 192 \<longleftrightarrow> unat a = 192" "a = 168 \<longleftrightarrow> unat a = 168" "16 \<le> a \<longleftrightarrow> 16 \<le> unat a" "a \<le> 31 \<longleftrightarrow> unat a \<le> 31"
  by (simp_all add: word_unat_eq_iff word_le_nat_alt)

text \<open>What the default policy admits.  An enabled gate with the default CIDR list lets an IPv4 peer in exactly
  when its address is in 10/8, 127/8, 172.16/12 or 192.168/16, whether the listener reports it as four bytes or
  in the mapped sixteen-byte form, and an IPv6 peer exactly when it is the loopback address, in fd00::/8, or a
  mapped IPv4 loopback address.\<close>

theorem default_gate_admits:
  assumes "g_snapshot g = Some \<lparr>gs_enabled = True, gs_cidrs = parseCIDRs DefaultInternalCIDRs\<rparr>"
  shows "(Allow (TCPAddr (Some [a, b, c, d])) (Some g) \<longleftrightarrow> a = 10 \<or> a = 127 \<or> (a = 172 \<and> 16 \<le> b \<and> b \<le> 31) \<or> (a = 192 \<and> b = 168)) \<and>
    Allow (TCPAddr (Some (v4InV6Prefix @ [a, b, c, d]))) (Some g) = Allow (TCPAddr (Some [a, b, c, d])) (Some g) \<and>
    (AllowIP (Addr6 w []) (Some g) \<longleftrightarrow> w = 1 \<or> drop_bit 120 w = 0xFD \<or> (drop_bit 32 w = 0xFFFF \<and> drop_bit 24 (ucast w :: 32 word) = 127))"
proof -
  let ?w = "word_of_bytes [unat a, unat b, unat c, unat d] :: 32 word"
  note v4 = default_v4 [OF unat_octets unat_byte(2) unat_byte(2) unat_byte(2) unat_byte(2), of a b c d]
  have "Allow (TCPAddr (Some [a, b, c, d])) (Some g) \<longleftrightarrow> a = 10 \<or> a = 127 \<or> (a = 172 \<and> 16 \<le> b \<and> b \<le> 31) \<or> (a = 192 \<and> b = 168)"
    using v4 by (simp add: Allow_def assms extractIP_def netAddr4 Addr_IsValid_def default_prefixes_def loopback4 contains4 contains46 byte_eq) blast
  moreover have "Allow (TCPAddr (Some (v4InV6Prefix @ [a, b, c, d]))) (Some g) = Allow (TCPAddr (Some [a, b, c, d])) (Some g)"
  proof -
    have "extractIP (TCPAddr (Some (v4InV6Prefix @ [a, b, c, d]))) = extractIP (TCPAddr (Some [a, b, c, d]))"
      unfolding extractIP_def net_addr.case option.case netAddr_mapped ..
    then show ?thesis by (simp only: Allow_def)
  qed
  moreover have "AllowIP (Addr6 w []) (Some g) \<longleftrightarrow> w = 1 \<or> drop_bit 120 w = 0xFD \<or> (drop_bit 32 w = 0xFFFF \<and> drop_bit 24 (ucast w :: 32 word) = 127)"
    using v6 [of w] by (simp add: AllowIP_def assms Addr_IsValid_def default_prefixes_def contains64 Addr_IsLoopback_def)
  ultimately show ?thesis by blast
qed

theorem default_gate_admits_witness:
  "let g = Some \<lparr>g_settings = True, g_snapshot = Some \<lparr>gs_enabled = True, gs_cidrs = parseCIDRs DefaultInternalCIDRs\<rparr>\<rparr> in
     Allow (TCPAddr (Some [172, 22, 0, 9])) g \<and> \<not> Allow (TCPAddr (Some [172, 32, 0, 1])) g \<and>
     Allow (TCPAddr (Some (v4InV6Prefix @ [10, 1, 2, 3]))) g \<and> \<not> AllowIP (Addr6 0x20010DB8000000000000000000000001 []) g"
  using default_gate_admits [of "\<lparr>g_settings = True, g_snapshot = Some \<lparr>gs_enabled = True, gs_cidrs = parseCIDRs DefaultInternalCIDRs\<rparr>\<rparr>"
      172 22 0 9 "0x20010DB8000000000000000000000001"]
    default_gate_admits [of "\<lparr>g_settings = True, g_snapshot = Some \<lparr>gs_enabled = True, gs_cidrs = parseCIDRs DefaultInternalCIDRs\<rparr>\<rparr>" 172 32 0 1 0]
    default_gate_admits [of "\<lparr>g_settings = True, g_snapshot = Some \<lparr>gs_enabled = True, gs_cidrs = parseCIDRs DefaultInternalCIDRs\<rparr>\<rparr>" 10 1 2 3 0]
  by (simp only: Let_def Gate.simps simp_thms) simp

end
