(* ===== verification/Panel.thy ===== *)
theory Panel
  imports Access "HOL-Library.AList"
begin

text \<open>
  Panel authentication: the token issuer and verifier (\<open>internal/api/auth.go\<close>), the bearer middleware and the login
  limiter (\<open>middleware.go\<close>) and the handlers for bootstrap, login, logout and password change (\<open>panel.go\<close>).

  The JWT and bcrypt libraries and the token bucket of \<open>golang.org/x/time/rate\<close> are parameters.  Times are whole
  seconds; the clock of a request is \<open>db_now\<close> of the database it runs on.  Request bodies arrive decoded, and the two
  identifiers that \<open>Issue\<close> draws are arguments.
\<close>

section \<open>Login limiter\<close>

text \<open>A zero \<open>lockUntil\<close> or \<open>lastSweep\<close> is \<open>None\<close>.  \<open>visitors\<close> is listed in the order in which a loop over the map
  meets the entries.\<close>

record 'l ipRecord =
  ir_lim :: 'l
  ir_failures :: nat
  ir_lockUntil :: "int option"
  ir_lastSeen :: int

record 'l ipLimiter =
  il_fresh :: 'l
  il_lockMinutes :: int
  il_visitors :: "(string \<times> 'l ipRecord) list"
  il_lastSweep :: "int option"

definition limiterVisitorTTL :: int where "limiterVisitorTTL = 3600"
definition limiterSweepEvery :: int where "limiterSweepEvery = 300"
definition limiterMaxVisitors :: nat where "limiterMaxVisitors = 10000"

definition newIPLimiter :: "'l \<Rightarrow> int \<Rightarrow> 'l ipLimiter" where
  "newIPLimiter fresh lockMinutes = \<lparr>il_fresh = fresh, il_lockMinutes = lockMinutes, il_visitors = [], il_lastSweep = None\<rparr>"

definition locked :: "int \<Rightarrow> 'l ipRecord \<Rightarrow> bool" where
  "locked now rec = (case ir_lockUntil rec of None \<Rightarrow> False | Some t \<Rightarrow> now < t)"

definition prune :: "int \<Rightarrow> 'l ipLimiter \<Rightarrow> 'l ipLimiter" where
  "prune now l = (if (case il_lastSweep l of None \<Rightarrow> False | Some t \<Rightarrow> now - t < limiterSweepEvery) then l
     else l\<lparr>il_lastSweep := Some now,
            il_visitors := filter (\<lambda>(ip, rec). locked now rec \<or> now - ir_lastSeen rec \<le> limiterVisitorTTL) (il_visitors l)\<rparr>)"

text \<open>The loop variables are \<open>oldestIP\<close>, empty while nothing was found, and \<open>oldest\<close>.\<close>

fun oldest_loop :: "int \<Rightarrow> string \<Rightarrow> int \<Rightarrow> (string \<times> 'l ipRecord) list \<Rightarrow> string" where
  "oldest_loop now oldestIP oldest [] = oldestIP"
| "oldest_loop now oldestIP oldest ((ip, rec) # vs) =
     (if locked now rec then oldest_loop now oldestIP oldest vs
      else if oldestIP = [] \<or> ir_lastSeen rec < oldest then oldest_loop now ip (ir_lastSeen rec) vs
      else oldest_loop now oldestIP oldest vs)"

definition evictOldestUnlocked :: "int \<Rightarrow> 'l ipLimiter \<Rightarrow> bool \<times> 'l ipLimiter" where
  "evictOldestUnlocked now l = (let ip = oldest_loop now [] 0 (il_visitors l) in
     if ip = [] then (False, l) else (True, l\<lparr>il_visitors := AList.delete ip (il_visitors l)\<rparr>))"

text \<open>\<open>bucket\<close> is \<open>rate.Limiter.Allow\<close> at a time.\<close>

definition visit :: "(int \<Rightarrow> 'l \<Rightarrow> bool \<times> 'l) \<Rightarrow> int \<Rightarrow> string \<Rightarrow> 'l ipRecord \<Rightarrow> 'l ipLimiter \<Rightarrow> (bool \<times> string) \<times> 'l ipLimiter" where
  "visit bucket now ip rec l = (let rec = rec\<lparr>ir_lastSeen := now\<rparr> in
     if locked now rec then ((False, ''ip locked''), l\<lparr>il_visitors := AList.update ip rec (il_visitors l)\<rparr>)
     else case bucket now (ir_lim rec) of (ok, lim) \<Rightarrow>
       ((ok, if ok then [] else ''rate limit''), l\<lparr>il_visitors := AList.update ip (rec\<lparr>ir_lim := lim\<rparr>) (il_visitors l)\<rparr>))"

definition limiter_allow :: "(int \<Rightarrow> 'l \<Rightarrow> bool \<times> 'l) \<Rightarrow> int \<Rightarrow> string \<Rightarrow> 'l ipLimiter \<Rightarrow> (bool \<times> string) \<times> 'l ipLimiter" where
  "limiter_allow bucket now ip l = (let l = prune now l in
     case map_of (il_visitors l) ip of
       Some rec \<Rightarrow> visit bucket now ip rec l
     | None \<Rightarrow>
         let rec = \<lparr>ir_lim = il_fresh l, ir_failures = 0, ir_lockUntil = None, ir_lastSeen = 0\<rparr> in
         if length (il_visitors l) \<ge> limiterMaxVisitors then
           (case evictOldestUnlocked now l of
              (False, l) \<Rightarrow> ((False, ''rate limiter capacity''), l)
            | (True, l) \<Rightarrow> visit bucket now ip rec l)
         else visit bucket now ip rec l)"

definition recordFailure :: "int \<Rightarrow> string \<Rightarrow> 'l ipLimiter \<Rightarrow> 'l ipLimiter" where
  "recordFailure now ip l = (case map_of (il_visitors l) ip of None \<Rightarrow> l
     | Some rec \<Rightarrow>
         let rec = rec\<lparr>ir_lastSeen := now, ir_failures := ir_failures rec + 1\<rparr>;
             rec = (if ir_failures rec \<ge> 3 then rec\<lparr>ir_lockUntil := Some (now + il_lockMinutes l * 60), ir_failures := 0\<rparr> else rec) in
         l\<lparr>il_visitors := AList.update ip rec (il_visitors l)\<rparr>)"

definition limiter_reset :: "string \<Rightarrow> 'l ipLimiter \<Rightarrow> 'l ipLimiter" where
  "limiter_reset ip l = l\<lparr>il_visitors := AList.delete ip (il_visitors l)\<rparr>"

definition clientIP :: "string \<Rightarrow> string" where
  "clientIP remoteAddr = (case SplitHostPort remoteAddr of Some (host, _) \<Rightarrow> host | None \<Rightarrow> remoteAddr)"

section \<open>Tokens (\<open>auth.go\<close>)\<close>

record authClaims =
  cl_SessionID :: string
  cl_UserID :: int
  cl_Username :: string
  cl_Issuer :: string
  cl_Subject :: string
  cl_IssuedAt :: int
  cl_ExpiresAt :: int
  cl_ID :: string

text \<open>The JWT library signs claims with a secret, and parses a token at a time, refusing other signing methods, bad
  signatures and expired claims; bcrypt compares and hashes.\<close>

record auth_lib =
  al_sign :: "string \<Rightarrow> authClaims \<Rightarrow> (string, string) result"
  al_parse :: "string \<Rightarrow> int \<Rightarrow> string \<Rightarrow> (string, authClaims) result"
  al_compare :: "string \<Rightarrow> string \<Rightarrow> bool"
  al_generate :: "string \<Rightarrow> (string, string) result"

record Authenticator =
  au_lib :: auth_lib
  au_Secret :: string
  au_TokenTTL :: int
  au_Issuer :: string

datatype auth_error = AuthSign string | AuthToken string | AuthDB db_error | AuthRevoked

type_synonym 'a aum = "DB \<Rightarrow> (auth_error, 'a) result \<times> DB"

definition liftA :: "'a dbm \<Rightarrow> 'a aum" where
  "liftA m = (\<lambda>d. case m d of (Inl e, d') \<Rightarrow> (Inl (AuthDB e), d') | (Inr a, d') \<Rightarrow> (Inr a, d'))"

definition Auth_Issue :: "Authenticator \<Rightarrow> string \<Rightarrow> string \<Rightarrow> int \<Rightarrow> string \<Rightarrow> string \<Rightarrow> string \<Rightarrow> (string \<times> string) aum" where
  "Auth_Issue a sid jti userID username ip ua = (\<lambda>d.
     let exp = db_now d + au_TokenTTL a;
         claims = \<lparr>cl_SessionID = sid, cl_UserID = userID, cl_Username = username, cl_Issuer = au_Issuer a, cl_Subject = username,
                   cl_IssuedAt = db_now d, cl_ExpiresAt = exp, cl_ID = jti\<rparr> in
     (case al_sign (au_lib a) (au_Secret a) claims of
        Inl e \<Rightarrow> (Inl (AuthSign e), d)
      | Inr token \<Rightarrow> (case liftA (InsertPanelSession \<lparr>ps_ID = sid, ps_UserID = userID, ps_JWTID = jti, ps_IssuedAt = db_now d, ps_ExpiresAt = exp,
              ps_RevokedAt = None, ps_IP = ip, ps_UserAgent = ua\<rparr>) d of
            (Inl e, d) \<Rightarrow> (Inl e, d)
          | (Inr _, d) \<Rightarrow> (Inr (token, sid), d))))"

definition Auth_Verify :: "Authenticator \<Rightarrow> string \<Rightarrow> authClaims aum" where
  "Auth_Verify a tokenString = (\<lambda>d. case al_parse (au_lib a) (au_Secret a) (db_now d) tokenString of
      Inl e \<Rightarrow> (Inl (AuthToken e), d)
    | Inr claims \<Rightarrow> (case liftA (IsSessionActive (cl_SessionID claims)) d of
          (Inl e, d) \<Rightarrow> (Inl e, d)
        | (Inr active, d) \<Rightarrow> if \<not> active then (Inl AuthRevoked, d) else (Inr claims, d)))"

definition Auth_Revoke :: "string \<Rightarrow> unit aum" where
  "Auth_Revoke sessionID = liftA (RevokeSession sessionID)"

definition CheckPassword :: "auth_lib \<Rightarrow> string \<Rightarrow> string \<Rightarrow> bool" where
  "CheckPassword lib hash plaintext = al_compare lib hash plaintext"

definition HashPassword :: "auth_lib \<Rightarrow> string \<Rightarrow> (string, string) result" where
  "HashPassword lib plaintext = al_generate lib plaintext"

section \<open>Middleware\<close>

text \<open>\<open>strings.SplitN(h, " ", 2)\<close>.\<close>

definition extractBearer :: "string \<Rightarrow> string" where
  "extractBearer h = (let scheme = takeWhile (\<lambda>c. c \<noteq> CHR '' '') h; rest = drop (length scheme) h in
     if h \<noteq> [] \<and> rest \<noteq> [] \<and> EqualFold scheme ''Bearer'' then TrimSpace (tl rest) else [])"

record auth_ctx =
  cx_UserID :: int
  cx_Username :: string
  cx_SessionID :: string
  cx_JWTID :: string

text \<open>The context handed to the next handler, or the refusal.\<close>

definition authMiddleware :: "Authenticator \<Rightarrow> string \<Rightarrow> DB \<Rightarrow> auth_ctx reply \<times> DB" where
  "authMiddleware a header d = (let token = extractBearer header in
     if token = [] then (ReplyError 401 ''unauthorized'', d)
     else case Auth_Verify a token d of
         (Inl e, d) \<Rightarrow> (ReplyError 401 ''unauthorized'', d)
       | (Inr claims, d) \<Rightarrow> (ReplyOK \<lparr>cx_UserID = cl_UserID claims, cx_Username = cl_Username claims, cx_SessionID = cl_SessionID claims, cx_JWTID = cl_ID claims\<rparr>, d))"

section \<open>Handlers (\<open>panel.go\<close>)\<close>

record 'l panel =
  pn_DB :: DB
  pn_Auth :: Authenticator
  pn_Limiter :: "'l ipLimiter"
  pn_SetupToken :: string
  pn_Settings :: bool

record loginRequest =
  lr_Username :: string
  lr_Password :: string

record bootstrapRequest =
  br_Token :: string
  br_Username :: string
  br_Password :: string

record changePasswordRequest =
  cp_Current :: string
  cp_Next :: string

definition run_panel :: "(DB \<Rightarrow> 'a \<times> DB) \<Rightarrow> 'l panel \<Rightarrow> 'a \<times> 'l panel" where
  "run_panel m p = (case m (pn_DB p) of (r, d) \<Rightarrow> (r, p\<lparr>pn_DB := d\<rparr>))"

definition panel_audit :: "string \<Rightarrow> string \<Rightarrow> string \<Rightarrow> string \<Rightarrow> 'l panel \<Rightarrow> 'l panel" where
  "panel_audit actor action result ip p = snd (run_panel (AppendAudit \<lparr>ae_Actor = actor, ae_Action = action, ae_Target = [], ae_Before = [],
     ae_After = [], ae_Result = result, ae_IP = ip\<rparr>) p)"

definition KeyWizardComplete :: string where "KeyWizardComplete = ''wizard.complete''"

text \<open>\<open>needs_setup\<close> and \<open>needs_wizard\<close>.\<close>

definition handleBootstrapStatus :: "'l panel \<Rightarrow> (bool \<times> bool) reply \<times> 'l panel" where
  "handleBootstrapStatus p = (case run_panel CountPanelUsers p of
      (Inl e, p) \<Rightarrow> (ReplyError 500 ''db_error'', p)
    | (Inr n, p) \<Rightarrow>
        if n > 0 \<and> pn_Settings p then (case run_panel (GetBool KeyWizardComplete) p of
            (Inl e, p) \<Rightarrow> (ReplyError 500 ''settings_error'', p)
          | (Inr v, p) \<Rightarrow> (ReplyOK (n = 0, \<not> v), p))
        else (ReplyOK (n = 0, False), p))"

definition handleBootstrapClaim :: "(string, bootstrapRequest) result \<Rightarrow> 'l panel \<Rightarrow> (int \<times> string) reply \<times> 'l panel" where
  "handleBootstrapClaim body p = (case body of
      Inl e \<Rightarrow> (ReplyError 400 ''bad_request'', p)
    | Inr req \<Rightarrow>
        if length (br_Password req) < 8 then (ReplyError 400 ''weak_password'', p)
        else if pn_SetupToken p = [] \<or> br_Token req \<noteq> pn_SetupToken p then (ReplyError 403 ''invalid_setup_token'', p)
        else (case HashPassword (au_lib (pn_Auth p)) (br_Password req) of
            Inl e \<Rightarrow> (ReplyError 500 ''hash_error'', p)
          | Inr hash \<Rightarrow> (case run_panel (InsertFirstPanelUser (br_Username req) hash) p of
                (Inl e, p) \<Rightarrow> (ReplyError 500 ''insert_error'', p)
              | (Inr (uid, created), p) \<Rightarrow>
                  if \<not> created then (ReplyError 409 ''already_setup'', p\<lparr>pn_SetupToken := []\<rparr>)
                  else (ReplyOK (uid, br_Username req), p\<lparr>pn_SetupToken := []\<rparr>))))"

definition fail_login :: "string \<Rightarrow> nat \<Rightarrow> string \<Rightarrow> 'l panel \<Rightarrow> string reply \<times> 'l panel" where
  "fail_login ip status code p = (ReplyError status code, p\<lparr>pn_Limiter := recordFailure (db_now (pn_DB p)) ip (pn_Limiter p)\<rparr>)"

text \<open>\<open>handleLogin\<close> takes the limiter's lock twice: \<open>login_admit\<close> is the part up to the verdict of \<open>allow\<close>,
  \<open>login_verify\<close> the rest, before which the requests of other clients may run.\<close>

definition login_admit :: "(int \<Rightarrow> 'l \<Rightarrow> bool \<times> 'l) \<Rightarrow> string \<Rightarrow> 'l panel \<Rightarrow> string reply option \<times> 'l panel" where
  "login_admit bucket ip p = (case limiter_allow bucket (db_now (pn_DB p)) ip (pn_Limiter p) of
       ((False, reason), l) \<Rightarrow> (Some (ReplyError 429 ''rate_limited''), p\<lparr>pn_Limiter := l\<rparr>)
     | ((True, _), l) \<Rightarrow> (None, p\<lparr>pn_Limiter := l\<rparr>))"

definition login_verify :: "string \<Rightarrow> string \<Rightarrow> string \<Rightarrow> string \<Rightarrow> (string, loginRequest) result \<Rightarrow> 'l panel \<Rightarrow> string reply \<times> 'l panel" where
  "login_verify sid jti ip ua body p = (case body of
      Inl e \<Rightarrow> fail_login ip 400 ''bad_request'' p
    | Inr req \<Rightarrow> (case run_panel (GetPanelUserByUsername (lr_Username req)) p of
          (Inl e, p) \<Rightarrow> if e = ErrNoRows then fail_login ip 401 ''invalid_credentials'' p else (ReplyError 500 ''db_error'', p)
        | (Inr u, p) \<Rightarrow>
            if \<not> CheckPassword (au_lib (pn_Auth p)) (pu_BcryptHash u) (lr_Password req) then fail_login ip 401 ''invalid_credentials'' p
            else (case run_panel (Auth_Issue (pn_Auth p) sid jti (pu_ID u) (pu_Username u) ip ua) p of
                (Inl e, p) \<Rightarrow> (ReplyError 500 ''issue_error'', p)
              | (Inr (tok, _), p) \<Rightarrow>
                  let p = panel_audit (pu_Username u) ''panel.login'' ''ok'' ip (snd (run_panel (TouchLastLogin (pu_ID u)) p)) in
                  (ReplyOK tok, p\<lparr>pn_Limiter := limiter_reset ip (pn_Limiter p)\<rparr>))))"

definition handleLogin :: "(int \<Rightarrow> 'l \<Rightarrow> bool \<times> 'l) \<Rightarrow> string \<Rightarrow> string \<Rightarrow> string \<Rightarrow> string \<Rightarrow> (string, loginRequest) result \<Rightarrow> 'l panel \<Rightarrow> string reply \<times> 'l panel" where
  "handleLogin bucket sid jti remoteAddr ua body p = (let ip = clientIP remoteAddr in
     case login_admit bucket ip p of
       (Some rep, p) \<Rightarrow> (rep, p)
     | (None, p) \<Rightarrow> login_verify sid jti ip ua body p)"

lemmas login_defs = handleLogin_def login_admit_def login_verify_def

definition handleLogout :: "auth_ctx \<Rightarrow> string \<Rightarrow> 'l panel \<Rightarrow> unit reply \<times> 'l panel" where
  "handleLogout cx remoteAddr p = (if cx_SessionID cx = [] then (ReplyError 401 ''unauthorized'', p)
     else case run_panel (Auth_Revoke (cx_SessionID cx)) p of
         (Inl e, p) \<Rightarrow> (ReplyError 500 ''revoke_error'', p)
       | (Inr _, p) \<Rightarrow> (ReplyOK (), panel_audit (cx_Username cx) ''panel.logout'' ''ok'' (clientIP remoteAddr) p))"

definition handleMe :: "auth_ctx \<Rightarrow> (int \<times> string) reply" where
  "handleMe cx = ReplyOK (cx_UserID cx, cx_Username cx)"

definition handleChangePassword :: "auth_ctx \<Rightarrow> string \<Rightarrow> (string, changePasswordRequest) result \<Rightarrow> 'l panel \<Rightarrow> unit reply \<times> 'l panel" where
  "handleChangePassword cx remoteAddr body p = (let ip = clientIP remoteAddr; lib = au_lib (pn_Auth p) in
     if cx_UserID cx = 0 \<or> cx_JWTID cx = [] then (ReplyError 401 ''unauthorized'', p)
     else case body of
         Inl e \<Rightarrow> (ReplyError 400 ''bad_request'', p)
       | Inr req \<Rightarrow>
           if length (cp_Next req) < 8 then (ReplyError 400 ''weak_password'', p)
           else (case run_panel (GetPanelUserByUsername (cx_Username cx)) p of
               (Inl e, p) \<Rightarrow> (if e = ErrNoRows then ReplyError 401 ''unauthorized'' else ReplyError 500 ''db_error'', p)
             | (Inr u, p) \<Rightarrow>
                 if \<not> CheckPassword lib (pu_BcryptHash u) (cp_Current req)
                 then (ReplyError 401 ''invalid_credentials'', panel_audit (cx_Username cx) ''panel.password.change'' ''wrong_current'' ip p)
                 else (case HashPassword lib (cp_Next req) of
                     Inl e \<Rightarrow> (ReplyError 500 ''hash_error'', p)
                   | Inr hash \<Rightarrow> (case run_panel (UpdatePanelUserPassword (cx_UserID cx) hash) p of
                         (Inl e, p) \<Rightarrow> (ReplyError 500 ''update_error'', p)
                       | (Inr _, p) \<Rightarrow> (case run_panel (RevokeSessionsExcept (cx_UserID cx) (cx_JWTID cx)) p of
                             (Inl e, p) \<Rightarrow> (ReplyError 500 ''revoke_error'', p)
                           | (Inr _, p) \<Rightarrow> (ReplyOK (), panel_audit (cx_Username cx) ''panel.password.change'' ''ok'' ip p))))))"

section \<open>Limiter: lemmas\<close>

definition limiter_ok :: "'l ipLimiter \<Rightarrow> bool" where
  "limiter_ok l = (distinct (map fst (il_visitors l)) \<and> length (il_visitors l) \<le> limiterMaxVisitors)"

text \<open>The entry of \<open>ip\<close> is locked until \<open>t\<close>.\<close>

definition lock_held :: "string \<Rightarrow> int \<Rightarrow> 'l ipLimiter \<Rightarrow> bool" where
  "lock_held ip t l = (case map_of (il_visitors l) ip of None \<Rightarrow> False | Some rec \<Rightarrow> ir_lockUntil rec = Some t)"

lemma length_update: "length (AList.update k v al) = (if k \<in> fst ` set al then length al else Suc (length al))"
  by (induction al) auto

lemma map_of_filter_some:
  "distinct (map fst al) \<Longrightarrow> map_of al k = Some v \<Longrightarrow> P (k, v) \<Longrightarrow> map_of (filter P al) k = Some v"
  by (induction al) (auto dest: map_of_SomeD)

lemma prune_ok: "limiter_ok l \<Longrightarrow> limiter_ok (prune now l)"
  unfolding limiter_ok_def prune_def by (auto simp: distinct_map_filter intro: order_trans [OF length_filter_le])

lemma prune_keeps:
  "limiter_ok l \<Longrightarrow> map_of (il_visitors l) ip = Some rec \<Longrightarrow> locked now rec \<or> now - ir_lastSeen rec \<le> limiterVisitorTTL \<Longrightarrow>
    map_of (il_visitors (prune now l)) ip = Some rec"
  by (auto simp: prune_def limiter_ok_def intro: map_of_filter_some)

lemma oldest_loop_unlocked:
  "oldest_loop now o' t vs = o' \<or> (\<exists>rec. (oldest_loop now o' t vs, rec) \<in> set vs \<and> \<not> locked now rec)"
proof (induction vs arbitrary: o' t)
  case (Cons v vs)
  obtain ip rec where v: "v = (ip, rec)" by (cases v)
  show ?case using Cons.IH [of o' t] Cons.IH [of ip "ir_lastSeen rec"] unfolding v by auto
qed simp

lemma evict_cases:
  assumes "evictOldestUnlocked now l = (b, l')" "distinct (map fst (il_visitors l))"
  obtains (none) "\<not> b" "l' = l"
  | (gone) k rec where "b" "map_of (il_visitors l) k = Some rec" "\<not> locked now rec" "l' = l\<lparr>il_visitors := AList.delete k (il_visitors l)\<rparr>"
proof -
  let ?k = "oldest_loop now [] 0 (il_visitors l)"
  show thesis
  proof (cases "?k = []")
    case True
    then show ?thesis using assms(1) none by (simp add: evictOldestUnlocked_def)
  next
    case False
    then obtain rec where "(?k, rec) \<in> set (il_visitors l)" "\<not> locked now rec" using oldest_loop_unlocked [of now "[]" 0 "il_visitors l"] by auto
    then show ?thesis using assms False gone [of ?k rec] by (simp add: evictOldestUnlocked_def map_of_is_SomeI)
  qed
qed

lemma length_delete_key: "map_of al k = Some v \<Longrightarrow> length (AList.delete k al) < length al"
  unfolding AList.delete_eq by (induction al) (auto simp: less_Suc_eq_le intro: length_filter_le split: if_splits)

lemma update_ok:
  assumes "limiter_ok l" "map_of (il_visitors l) ip \<noteq> None \<or> length (il_visitors l) < limiterMaxVisitors"
  shows "limiter_ok (l\<lparr>il_visitors := AList.update ip rec (il_visitors l)\<rparr>)"
  using assms by (auto simp: limiter_ok_def length_update distinct_update map_of_eq_None_iff)

lemma visit_ok:
  assumes "limiter_ok l" "map_of (il_visitors l) ip \<noteq> None \<or> length (il_visitors l) < limiterMaxVisitors" "visit bucket now ip rec l = (r, l')"
  shows "limiter_ok l'"
  using assms update_ok [OF assms(1,2)] by (auto simp: visit_def Let_def split: if_splits prod.splits)

text \<open>The ways through \<open>allow\<close>: refused at capacity, or a visit after an eviction of an unlocked entry at most.\<close>

lemma limiter_allow_cases:
  assumes "limiter_ok l" "limiter_allow bucket now ip l = (r, l')"
  obtains (full) "\<not> fst r" "l' = prune now l" "map_of (il_visitors (prune now l)) ip = None"
  | (known) rec where "map_of (il_visitors (prune now l)) ip = Some rec" "visit bucket now ip rec (prune now l) = (r, l')"
  | (fresh) rec l1 where "map_of (il_visitors (prune now l)) ip = None" "ir_lockUntil rec = None" "ir_failures rec = 0"
      "visit bucket now ip rec l1 = (r, l')" "limiter_ok l1" "length (il_visitors l1) < limiterMaxVisitors"
      "\<And>k v. map_of (il_visitors (prune now l)) k = Some v \<Longrightarrow> locked now v \<Longrightarrow> map_of (il_visitors l1) k = Some v"
proof -
  let ?l = "prune now l" and ?new = "\<lparr>ir_lim = il_fresh (prune now l), ir_failures = 0, ir_lockUntil = None, ir_lastSeen = 0\<rparr>"
  note ok = prune_ok [OF assms(1), of now]
  show thesis
  proof (cases "map_of (il_visitors ?l) ip")
    case (Some rec)
    then show ?thesis using assms(2) by (intro known [of rec]) (simp_all add: limiter_allow_def Let_def)
  next
    case None
    show ?thesis
    proof (cases "length (il_visitors ?l) \<ge> limiterMaxVisitors")
      case False
      then show ?thesis using assms(2) None ok by (intro fresh [of ?new ?l]) (simp_all add: limiter_allow_def Let_def)
    next
      case True
      obtain b l1 where e: "evictOldestUnlocked now ?l = (b, l1)" by fastforce
      have d: "distinct (map fst (il_visitors ?l))" using ok by (simp add: limiter_ok_def)
      from e d show ?thesis
      proof (cases rule: evict_cases)
        case none
        then show ?thesis using assms(2) None True e by (intro full) (auto simp: limiter_allow_def Let_def)
      next
        case (gone k rec)
        have len: "length (il_visitors l1) < limiterMaxVisitors" using length_delete_key [OF gone(2)] ok gone(4) by (simp add: limiter_ok_def)
        moreover have "limiter_ok l1" using ok gone(4) len by (simp add: limiter_ok_def distinct_delete)
        moreover have "map_of (il_visitors l1) k' = Some v" if "map_of (il_visitors ?l) k' = Some v" "locked now v" for k' v
          using that gone(2-4) by (auto simp: delete_conv')
        ultimately show ?thesis using assms(2) None True e gone(1)
          by (intro fresh [of "\<lparr>ir_lim = il_fresh l1, ir_failures = 0, ir_lockUntil = None, ir_lastSeen = 0\<rparr>" l1]) (auto simp: limiter_allow_def Let_def gone(4))
      qed
    qed
  qed
qed

lemma limiter_allow_ok:
  assumes "limiter_ok l" "limiter_allow bucket now ip l = (r, l')"
  shows "limiter_ok l'"
  using assms
proof (cases rule: limiter_allow_cases)
  case full
  then show ?thesis using prune_ok assms(1) by auto
next
  case (known rec)
  then show ?thesis by (intro visit_ok [OF prune_ok [OF assms(1)] _ known(2)]) simp
next
  case (fresh rec l1)
  then show ?thesis using visit_ok by blast
qed

lemma recordFailure_ok: "limiter_ok l \<Longrightarrow> limiter_ok (recordFailure now ip l)"
  by (auto simp: recordFailure_def Let_def intro: update_ok split: option.split)

lemma limiter_reset_ok: "limiter_ok l \<Longrightarrow> limiter_ok (limiter_reset ip l)"
  unfolding limiter_reset_def limiter_ok_def by (auto simp: distinct_delete intro: order_trans [OF length_delete_le])

inductive limiter_reachable :: "(int \<Rightarrow> 'l \<Rightarrow> bool \<times> 'l) \<Rightarrow> 'l ipLimiter \<Rightarrow> bool" for bucket where
  start: "limiter_reachable bucket (newIPLimiter fresh minutes)"
| allowed: "limiter_reachable bucket l \<Longrightarrow> limiter_allow bucket now ip l = (r, l') \<Longrightarrow> limiter_reachable bucket l'"
| failed: "limiter_reachable bucket l \<Longrightarrow> limiter_reachable bucket (recordFailure now ip l)"
| reset: "limiter_reachable bucket l \<Longrightarrow> limiter_reachable bucket (limiter_reset ip l)"

lemma reachable_ok: "limiter_reachable bucket l \<Longrightarrow> limiter_ok l"
proof (induction rule: limiter_reachable.induct)
  case (start fresh minutes)
  then show ?case by (simp add: newIPLimiter_def limiter_ok_def)
qed (auto intro: limiter_allow_ok recordFailure_ok limiter_reset_ok)

section \<open>Lockout: lemmas\<close>

lemma visit_keeps_lock:
  assumes "visit bucket now ip rec l = (r, l')" "map_of (il_visitors l) ip = None \<or> map_of (il_visitors l) ip = Some rec" "lock_held k t l"
  shows "lock_held k t l'"
  using assms by (auto simp: visit_def lock_held_def Let_def update_conv' split: if_splits prod.splits option.splits)

lemma allow_keeps_lock:
  assumes "limiter_ok l" "limiter_allow bucket now ip l = (r, l')" "lock_held k t l" "now < t"
  shows "lock_held k t l' \<and> (ip = k \<longrightarrow> \<not> fst r)"
proof -
  obtain rec where rec: "map_of (il_visitors l) k = Some rec" "ir_lockUntil rec = Some t"
    using assms(3) by (auto simp: lock_held_def split: option.splits)
  have lk: "locked now rec" using rec(2) assms(4) by (simp add: locked_def)
  have p: "map_of (il_visitors (prune now l)) k = Some rec" using prune_keeps [OF assms(1) rec(1)] lk by blast
  from assms(1,2) show ?thesis
  proof (cases rule: limiter_allow_cases)
    case full
    then show ?thesis using p rec(2) by (simp add: lock_held_def)
  next
    case (known rec')
    have "lock_held k t l'" using visit_keeps_lock [OF known(2)] known(1) p rec(2) by (simp add: lock_held_def)
    moreover have "\<not> fst r" if "ip = k"
      using known p that lk by (auto simp: visit_def locked_def Let_def)
    ultimately show ?thesis by blast
  next
    case (fresh rec' l1)
    have k: "map_of (il_visitors l1) k = Some rec" using fresh(7) [OF p lk] .
    have "ip \<noteq> k" using fresh(1) p by auto
    then show ?thesis using fresh(4) k rec(2) by (auto simp: visit_def lock_held_def Let_def update_conv' split: if_splits prod.splits)
  qed
qed

lemma other_keeps_lock:
  "ip \<noteq> k \<Longrightarrow> lock_held k t l \<Longrightarrow> lock_held k t (recordFailure now ip l)"
  "ip \<noteq> k \<Longrightarrow> lock_held k t l \<Longrightarrow> lock_held k t (limiter_reset ip l)"
  by (auto simp: recordFailure_def limiter_reset_def lock_held_def Let_def update_conv' delete_conv' split: option.splits)

lemma run_panel_limiter [simp]: "run_panel m p = (r, p') \<Longrightarrow> pn_Limiter p' = pn_Limiter p \<and> pn_Auth p' = pn_Auth p \<and> pn_SetupToken p' = pn_SetupToken p"
  by (auto simp: run_panel_def split: prod.splits)

lemma panel_audit_limiter [simp]: "pn_Limiter (panel_audit a b c e p) = pn_Limiter p"
  by (simp add: panel_audit_def run_panel_def split: prod.split)

lemma snd_run_panel [simp]: "pn_Limiter (snd (run_panel m p)) = pn_Limiter p" "pn_Auth (snd (run_panel m p)) = pn_Auth p"
  by (simp_all add: run_panel_def split: prod.split)

text \<open>What the second part of a login does to the limiter: at most a failure or a reset of its address.\<close>

lemma login_verify_limiter:
  "login_verify sid jti ip ua body p = (rep, p') \<Longrightarrow> pn_Limiter p' = pn_Limiter p \<or> (\<exists>now. pn_Limiter p' = recordFailure now ip (pn_Limiter p)) \<or>
     pn_Limiter p' = limiter_reset ip (pn_Limiter p)"
  by (auto simp: login_verify_def fail_login_def Let_def split: sum.splits prod.splits if_splits dest!: run_panel_limiter)

lemma login_admit_limiter:
  "login_admit bucket ip p = (v, p') \<Longrightarrow> \<exists>r. limiter_allow bucket (db_now (pn_DB p)) ip (pn_Limiter p) = (r, pn_Limiter p') \<and>
     (v = None \<longleftrightarrow> fst r) \<and> (v \<noteq> None \<longrightarrow> v = Some (ReplyError 429 ''rate_limited''))"
  by (auto simp: login_admit_def split: prod.splits bool.splits)

text \<open>Logins that overlap.  The state is a panel with the addresses of the logins that were admitted and are not done.  A login
  arrives at a time before \<open>t\<close>, on whatever the database holds then; one that was admitted ends on whatever the
  database holds then; and requests to other handlers, which leave the limiter alone, run in between.\<close>

inductive logins :: "(int \<Rightarrow> 'l \<Rightarrow> bool \<times> 'l) \<Rightarrow> int \<Rightarrow> 'l panel \<times> string list \<Rightarrow> 'l panel \<times> string list \<Rightarrow> bool" for bucket t x where
  idle: "logins bucket t x x"
| admitted: "logins bucket t x (q, fl) \<Longrightarrow> db_now (pn_DB q) < t \<Longrightarrow> login_admit bucket ip q = (None, q') \<Longrightarrow> logins bucket t x (q', ip # fl)"
| refused: "logins bucket t x (q, fl) \<Longrightarrow> db_now (pn_DB q) < t \<Longrightarrow> login_admit bucket ip q = (Some rep, q') \<Longrightarrow> logins bucket t x (q', fl)"
| verified: "logins bucket t x (q, fl) \<Longrightarrow> ip \<in> set fl \<Longrightarrow> login_verify sid jti ip ua body q = (rep, q') \<Longrightarrow> logins bucket t x (q', remove1 ip fl)"
| other: "logins bucket t x (q, fl) \<Longrightarrow> pn_Limiter q' = pn_Limiter q \<Longrightarrow> logins bucket t x (q', fl)"

lemma admit_keeps_lock:
  assumes "limiter_ok (pn_Limiter p)" "lock_held k t (pn_Limiter p)" "db_now (pn_DB p) < t" "login_admit bucket ip p = (v, p')"
  shows "limiter_ok (pn_Limiter p')" "lock_held k t (pn_Limiter p')" "ip = k \<Longrightarrow> v = Some (ReplyError 429 ''rate_limited'')"
proof -
  obtain r where r: "limiter_allow bucket (db_now (pn_DB p)) ip (pn_Limiter p) = (r, pn_Limiter p')" "v = None \<longleftrightarrow> fst r"
    "v \<noteq> None \<longrightarrow> v = Some (ReplyError 429 ''rate_limited'')" using login_admit_limiter [OF assms(4)] by blast
  note lk = allow_keeps_lock [OF assms(1) r(1) assms(2,3)]
  show "limiter_ok (pn_Limiter p')" by (rule limiter_allow_ok [OF assms(1) r(1)])
  show "lock_held k t (pn_Limiter p')" using lk by blast
  show "v = Some (ReplyError 429 ''rate_limited'')" if "ip = k" using lk r(2,3) that by blast
qed

lemma verify_keeps_lock:
  assumes "limiter_ok (pn_Limiter p)" "lock_held k t (pn_Limiter p)" "ip \<noteq> k" "login_verify sid jti ip ua body p = (rep, p')"
  shows "limiter_ok (pn_Limiter p')" "lock_held k t (pn_Limiter p')"
  using login_verify_limiter [OF assms(4)] assms(1-3) recordFailure_ok limiter_reset_ok other_keeps_lock by metis+

lemma logins_keep_lock:
  "logins bucket t x y \<Longrightarrow> limiter_ok (pn_Limiter (fst x)) \<Longrightarrow> lock_held k t (pn_Limiter (fst x)) \<Longrightarrow> k \<notin> set (snd x) \<Longrightarrow>
     limiter_ok (pn_Limiter (fst y)) \<and> lock_held k t (pn_Limiter (fst y)) \<and> k \<notin> set (snd y)"
proof (induction rule: logins.induct)
  case (admitted q fl ip q')
  then have i: "limiter_ok (pn_Limiter q)" "lock_held k t (pn_Limiter q)" "k \<notin> set fl" by simp_all
  note a = admit_keeps_lock [OF i(1,2) admitted.hyps(2,3)]
  then show ?case using i(3) by auto
next
  case (refused q fl ip rep q')
  then have i: "limiter_ok (pn_Limiter q)" "lock_held k t (pn_Limiter q)" "k \<notin> set fl" by simp_all
  then show ?case using admit_keeps_lock(1,2) [OF i(1,2) refused.hyps(2,3)] by simp
next
  case (verified q fl ip sid jti ua body rep q')
  then have i: "limiter_ok (pn_Limiter q)" "lock_held k t (pn_Limiter q)" "k \<notin> set fl" by simp_all
  then have "ip \<noteq> k" using verified.hyps(2) by blast
  then show ?case using verify_keeps_lock [OF i(1,2) _ verified.hyps(3)] i(3) by (auto dest: notin_set_remove1)
qed auto

text \<open>The failure that sets the lock: the entry had two, and the login was refused for its credentials or body.\<close>

lemma third_failure_locks:
  assumes "map_of (il_visitors (pn_Limiter p)) ip = Some rec" "ir_failures rec = 2"
    "login_verify sid jti ip ua body p = (ReplyError status code, p')" "status \<in> {400, 401}"
    and same: "\<And>u h d r d'. GetPanelUserByUsername u d = (r, d') \<Longrightarrow> db_now d' = db_now d"
  shows "lock_held ip (db_now (pn_DB p) + il_lockMinutes (pn_Limiter p) * 60) (pn_Limiter p')"
proof -
  have "pn_Limiter p' = recordFailure (db_now (pn_DB p)) ip (pn_Limiter p)"
    using assms(3,4) same
    by (auto simp: login_verify_def fail_login_def run_panel_def Let_def split: sum.splits prod.splits if_splits)
  then show ?thesis using assms(1,2) by (simp add: recordFailure_def lock_held_def Let_def update_conv')
qed

section \<open>Sessions: lemmas\<close>

lemma GetUser_same: "GetPanelUserByUsername u d = (r, d') \<Longrightarrow> same_tables d d'"
  unfolding GetPanelUserByUsername_def by (cases rule: select1_cases [of "\<lambda>d. find (\<lambda>x. pu_Username x = u) (t_users d)" d]) auto

lemma GetUser_found: "GetPanelUserByUsername u d = (Inr x, d') \<Longrightarrow> x \<in> set (t_users d) \<and> pu_Username x = u"
  unfolding GetPanelUserByUsername_def select1_def
  by (auto dest!: stmt_Inr find_Some_in split: option.splits)

definition session_active :: "DB \<Rightarrow> string \<Rightarrow> bool" where
  "session_active d sid = (case find (\<lambda>s. ps_ID s = sid) (t_sessions d) of None \<Rightarrow> False
     | Some s \<Rightarrow> ps_RevokedAt s = None \<and> db_now d \<le> ps_ExpiresAt s)"

lemma IsSessionActive_Inr: "IsSessionActive sid d = (Inr b, d') \<Longrightarrow> b = session_active d sid"
  by (auto simp: IsSessionActive_def session_active_def dest!: stmt_Inr split: option.splits if_splits)

lemma IsSessionActive_run: "db_faults d = [] \<Longrightarrow> IsSessionActive sid d = (Inr (session_active d sid), d)"
  by (auto simp: IsSessionActive_def session_active_def stmt_def split: option.splits)

text \<open>A request passes the middleware only with a token whose session is active.\<close>

lemma authMiddleware_ok:
  assumes "authMiddleware a header d = (ReplyOK cx, d')"
  obtains c where "al_parse (au_lib a) (au_Secret a) (db_now d) (extractBearer header) = Inr c" "session_active d (cl_SessionID c)"
    "cx = \<lparr>cx_UserID = cl_UserID c, cx_Username = cl_Username c, cx_SessionID = cl_SessionID c, cx_JWTID = cl_ID c\<rparr>"
  using assms
  by (auto simp: authMiddleware_def Auth_Verify_def liftA_def Let_def split: if_splits sum.splits prod.splits dest!: IsSessionActive_Inr)

lemma authMiddleware_accepts:
  assumes "al_parse (au_lib a) (au_Secret a) (db_now d) (extractBearer header) = Inr c" "session_active d (cl_SessionID c)" "db_faults d = []" "extractBearer header \<noteq> []"
  shows "authMiddleware a header d = (ReplyOK \<lparr>cx_UserID = cl_UserID c, cx_Username = cl_Username c, cx_SessionID = cl_SessionID c, cx_JWTID = cl_ID c\<rparr>, d)"
  using assms by (simp add: authMiddleware_def Auth_Verify_def liftA_def Let_def IsSessionActive_run)

lemma extractBearer_token: "TrimSpace tok = tok \<Longrightarrow> extractBearer (''Bearer '' @ tok) = tok"
  by (simp add: extractBearer_def EqualFold_def Let_def)

text \<open>What the model relies on of the JWT library: a signed token is non-empty text without surrounding space, parses
  back to its claims until they expire, and is refused from then on.\<close>

definition jwt_ok :: "Authenticator \<Rightarrow> bool" where
  "jwt_ok a = (\<forall>c tok. al_sign (au_lib a) (au_Secret a) c = Inr tok \<longrightarrow>
     tok \<noteq> [] \<and> TrimSpace tok = tok \<and> (\<forall>now<cl_ExpiresAt c. al_parse (au_lib a) (au_Secret a) now tok = Inr c) \<and>
     (\<forall>now\<ge>cl_ExpiresAt c. al_parse (au_lib a) (au_Secret a) now tok = Inl ''token is expired''))"

lemma InsertPanelSession_ok:
  assumes "InsertPanelSession s d = (Inr u, d')"
  shows "t_sessions d' = t_sessions d @ [s\<lparr>ps_RevokedAt := None\<rparr>]" "find (\<lambda>x. ps_ID x = ps_ID s) (t_sessions d') = Some (s\<lparr>ps_RevokedAt := None\<rparr>)"
    "t_users d' = t_users d" "db_now d' = db_now d"
proof -
  note r = assms [unfolded InsertPanelSession_def]
  show s: "t_sessions d' = t_sessions d @ [s\<lparr>ps_RevokedAt := None\<rparr>]" "t_users d' = t_users d" "db_now d' = db_now d"
    using r by (auto dest!: stmt_Inr split: if_splits)
  have "find (\<lambda>x. ps_ID x = ps_ID s) (t_sessions d) = None" using r by (auto simp: find_None_conv list_ex_iff dest!: stmt_Inr split: if_splits)
  then show "find (\<lambda>x. ps_ID x = ps_ID s) (t_sessions d') = Some (s\<lparr>ps_RevokedAt := None\<rparr>)" unfolding s(1) find_append by simp
qed

lemma Touch_sessions: "TouchLastLogin i d = (r, d') \<Longrightarrow> t_sessions d' = t_sessions d"
  unfolding TouchLastLogin_def
  by (cases rule: stmt_cases [of "\<lambda>d. (Inr (), d\<lparr>t_users := map (\<lambda>u. if pu_ID u = i then u\<lparr>pu_LastLoginAt := Some (db_now d)\<rparr> else u) (t_users d)\<rparr>)" d]) auto

lemma AppendAudit_rest: "AppendAudit e d = (r, d') \<Longrightarrow> t_sessions d' = t_sessions d \<and> t_users d' = t_users d"
  unfolding AppendAudit_def by (cases rule: stmt_cases [of "\<lambda>d. (Inr (), d\<lparr>t_audit := t_audit d @ [e]\<rparr>)" d]) auto

lemma panel_audit_rest [simp]: "t_sessions (pn_DB (panel_audit a b c e p)) = t_sessions (pn_DB p)" "t_users (pn_DB (panel_audit a b c e p)) = t_users (pn_DB p)"
  by (auto simp: panel_audit_def run_panel_def split: prod.split dest: AppendAudit_rest)

lemma login_session:
  assumes "handleLogin bucket sid jti remote ua body p = (ReplyOK tok, p')"
  obtains u req where "body = Inr req" "u \<in> set (t_users (pn_DB p))" "pu_Username u = lr_Username req"
    "CheckPassword (au_lib (pn_Auth p)) (pu_BcryptHash u) (lr_Password req)"
    "al_sign (au_lib (pn_Auth p)) (au_Secret (pn_Auth p)) \<lparr>cl_SessionID = sid, cl_UserID = pu_ID u, cl_Username = pu_Username u,
       cl_Issuer = au_Issuer (pn_Auth p), cl_Subject = pu_Username u, cl_IssuedAt = db_now (pn_DB p),
       cl_ExpiresAt = db_now (pn_DB p) + au_TokenTTL (pn_Auth p), cl_ID = jti\<rparr> = Inr tok"
    "find (\<lambda>s. ps_ID s = sid) (t_sessions (pn_DB p')) = Some \<lparr>ps_ID = sid, ps_UserID = pu_ID u, ps_JWTID = jti, ps_IssuedAt = db_now (pn_DB p),
       ps_ExpiresAt = db_now (pn_DB p) + au_TokenTTL (pn_Auth p), ps_RevokedAt = None, ps_IP = clientIP remote, ps_UserAgent = ua\<rparr>"
    "pn_Auth p' = pn_Auth p"
proof -
  obtain why l where a: "limiter_allow bucket (db_now (pn_DB p)) (clientIP remote) (pn_Limiter p) = ((True, why), l)"
    using assms by (cases "limiter_allow bucket (db_now (pn_DB p)) (clientIP remote) (pn_Limiter p)")
      (auto simp: login_defs Let_def split: if_splits bool.splits)
  obtain req where b: "body = Inr req" using assms a by (cases body) (auto simp: login_defs fail_login_def Let_def)
  obtain r d1 where g: "GetPanelUserByUsername (lr_Username req) (pn_DB p) = (r, d1)" by fastforce
  have now: "db_now d1 = db_now (pn_DB p)" using GetUser_same [OF g] by (auto elim!: same_tablesE)
  note run = assms [unfolded login_defs Let_def a b prod.case bool.case option.case sum.case run_panel_def]
  obtain u where u: "r = Inr u" using run g by (cases r) (auto simp: fail_login_def split: if_splits)
  let ?c = "\<lparr>cl_SessionID = sid, cl_UserID = pu_ID u, cl_Username = pu_Username u, cl_Issuer = au_Issuer (pn_Auth p), cl_Subject = pu_Username u,
       cl_IssuedAt = db_now (pn_DB p), cl_ExpiresAt = db_now (pn_DB p) + au_TokenTTL (pn_Auth p), cl_ID = jti\<rparr>"
  let ?s = "\<lparr>ps_ID = sid, ps_UserID = pu_ID u, ps_JWTID = jti, ps_IssuedAt = db_now (pn_DB p),
       ps_ExpiresAt = db_now (pn_DB p) + au_TokenTTL (pn_Auth p), ps_RevokedAt = None, ps_IP = clientIP remote, ps_UserAgent = ua\<rparr>"
  have pw: "CheckPassword (au_lib (pn_Auth p)) (pu_BcryptHash u) (lr_Password req)"
    using run g u by (auto simp: fail_login_def split: if_splits)
  obtain x d2 where i: "Auth_Issue (pn_Auth p) sid jti (pu_ID u) (pu_Username u) (clientIP remote) ua d1 = (x, d2)" by fastforce
  obtain sid' where x: "x = Inr (tok, sid')" using run g u pw i by (auto split: sum.splits)
  have sign: "al_sign (au_lib (pn_Auth p)) (au_Secret (pn_Auth p)) ?c = Inr tok"
    using i x by (auto simp: Auth_Issue_def Let_def now liftA_def split: sum.splits prod.splits)
  have ins: "InsertPanelSession ?s d1 = (Inr (), d2)"
    using i x sign by (auto simp: Auth_Issue_def Let_def now liftA_def split: sum.splits prod.splits)
  obtain y d3 where t: "TouchLastLogin (pu_ID u) d2 = (y, d3)" by fastforce
  have "t_sessions (pn_DB p') = t_sessions d2" "pn_Auth p' = pn_Auth p"
    using run g u pw i x t Touch_sessions [OF t] by (auto simp: panel_audit_def run_panel_def split: prod.splits dest: AppendAudit_rest)
  moreover have "find (\<lambda>s. ps_ID s = sid) (t_sessions d2) = Some ?s" using InsertPanelSession_ok(2) [OF ins] by simp
  ultimately show thesis using that [OF b conjunct1 [OF GetUser_found [OF g [unfolded u]]] conjunct2 [OF GetUser_found [OF g [unfolded u]]] pw sign] by simp
qed

lemma RevokeSession_ok: "RevokeSession sid d = (Inr u, d') \<Longrightarrow>
    t_sessions d' = map (\<lambda>s. if ps_ID s = sid then s\<lparr>ps_RevokedAt := Some (db_now d)\<rparr> else s) (t_sessions d)"
  by (auto simp: RevokeSession_def dest!: stmt_Inr)

lemma revoked_inactive:
  "session_active d sid = False" if "t_sessions d = map (\<lambda>s. if ps_ID s = sid then s\<lparr>ps_RevokedAt := Some t\<rparr> else s) xs"
proof -
  have "ps_RevokedAt s \<noteq> None" if "find (\<lambda>s. ps_ID s = sid) (map (\<lambda>s. if ps_ID s = sid then s\<lparr>ps_RevokedAt := Some t\<rparr> else s) ys) = Some s" for ys s
  proof -
    note h = find_Some_in [OF that]
    obtain y where "s = (if ps_ID y = sid then y\<lparr>ps_RevokedAt := Some t\<rparr> else y)" using conjunct1 [OF h] unfolding set_map image_iff by (elim bexE)
    then show ?thesis using conjunct2 [OF h] by (cases "ps_ID y = sid") simp_all
  qed
  then show ?thesis using that by (auto simp: session_active_def split: option.split)
qed

section \<open>Properties\<close>

text \<open>The limiter stays bounded.  In every state it can reach, whatever addresses visit, fail or log in and at whatever
  times, it keeps at most \<open>limiterMaxVisitors\<close> entries and one per address.\<close>

theorem limiter_bounded:
  assumes "limiter_reachable bucket l"
  shows "length (il_visitors l) \<le> limiterMaxVisitors \<and> distinct (map fst (il_visitors l))"
  using reachable_ok [OF assms] by (simp add: limiter_ok_def)

theorem limiter_bounded_witness:
  "\<exists>l. snd (limiter_allow (\<lambda>now n. (0 < n, n - 1)) 7 ''10.0.0.1'' (newIPLimiter (5 :: nat) 15)) = l \<and>
     length (il_visitors l) \<le> limiterMaxVisitors \<and> map fst (il_visitors l) = [''10.0.0.1'']"
proof -
  let ?b = "\<lambda>(now :: int) n. (0 < n, n - 1 :: nat)"
  obtain r l where a: "limiter_allow ?b 7 ''10.0.0.1'' (newIPLimiter 5 15) = (r, l)" by fastforce
  then have "map fst (il_visitors l) = [''10.0.0.1'']"
    by (auto simp: limiter_allow_def newIPLimiter_def prune_def visit_def locked_def limiterMaxVisitors_def Let_def)
  then show ?thesis using limiter_bounded [OF limiter_reachable.allowed [OF limiter_reachable.start a]] a by auto
qed


text \<open>The limits of the lock: a login that \<open>allow\<close> let pass before the third failure, and that succeeds after it, deletes the entry
  with its lock.\<close>

lemma login_under_way_clears_lock:
  assumes "login_verify sid jti ip ua body p = (ReplyOK tok, p')"
  shows "map_of (il_visitors (pn_Limiter p')) ip = None"
  using assms
  by (auto simp: login_verify_def fail_login_def limiter_reset_def delete_conv' Let_def split: sum.splits prod.splits if_splits)

text \<open>What can happen to the sessions after a login: other logins, log-outs and password changes, with whatever outcome, and
  anything that leaves the session table alone, such as the passing of time.  The list holds the log-outs and password changes that
  were answered with success.\<close>

datatype session_event = LoggedOut string | SignedOutOthers int string

inductive session_run :: "(int \<Rightarrow> 'l \<Rightarrow> bool \<times> 'l) \<Rightarrow> 'l panel \<Rightarrow> session_event list \<Rightarrow> 'l panel \<Rightarrow> bool" for bucket p where
  start: "session_run bucket p [] p"
| login: "session_run bucket p es q \<Longrightarrow> handleLogin bucket sid jti remote ua body q = (rep, q') \<Longrightarrow> session_run bucket p es q'"
| logout: "session_run bucket p es q \<Longrightarrow> handleLogout cx remote q = (rep, q') \<Longrightarrow>
    session_run bucket p (case rep of ReplyOK _ \<Rightarrow> LoggedOut (cx_SessionID cx) # es | _ \<Rightarrow> es) q'"
| password: "session_run bucket p es q \<Longrightarrow> handleChangePassword cx remote body q = (rep, q') \<Longrightarrow>
    session_run bucket p (case rep of ReplyOK _ \<Rightarrow> SignedOutOthers (cx_UserID cx) (cx_JWTID cx) # es | _ \<Rightarrow> es) q'"
| other: "session_run bucket p es q \<Longrightarrow> t_sessions (pn_DB q') = t_sessions (pn_DB q) \<Longrightarrow> pn_Auth q' = pn_Auth q \<Longrightarrow> session_run bucket p es q'"

text \<open>The events that end the session with a given identifier, user and token identifier.\<close>

definition ends_session :: "string \<Rightarrow> int \<Rightarrow> string \<Rightarrow> session_event \<Rightarrow> bool" where
  "ends_session sid uid jti e = (case e of LoggedOut i \<Rightarrow> i = sid | SignedOutOthers u keep \<Rightarrow> u = uid \<and> keep \<noteq> jti)"

text \<open>The row of a session: the one it was created with, revoked or not.\<close>

definition session_row :: "PanelSession \<Rightarrow> bool \<Rightarrow> DB \<Rightarrow> bool" where
  "session_row s off d = (\<exists>r. find (\<lambda>x. ps_ID x = ps_ID s) (t_sessions d) = Some r \<and> r\<lparr>ps_RevokedAt := None\<rparr> = s\<lparr>ps_RevokedAt := None\<rparr> \<and>
     (ps_RevokedAt r \<noteq> None) = off)"

lemma find_map_same: "(\<And>x. P (f x) = P x) \<Longrightarrow> find P (map f xs) = map_option f (find P xs)"
  by (induction xs) auto

lemma session_row_map:
  assumes "session_row s off d" "t_sessions d' = map (\<lambda>x. if Q x then x\<lparr>ps_RevokedAt := Some t\<rparr> else x) (t_sessions d)"
    "\<And>r. r\<lparr>ps_RevokedAt := None\<rparr> = s\<lparr>ps_RevokedAt := None\<rparr> \<Longrightarrow> (ps_RevokedAt r \<noteq> None) = off \<Longrightarrow> (Q r \<or> off) = off'"
  shows "session_row s off' d'"
proof -
  obtain r where r: "find (\<lambda>x. ps_ID x = ps_ID s) (t_sessions d) = Some r" "r\<lparr>ps_RevokedAt := None\<rparr> = s\<lparr>ps_RevokedAt := None\<rparr>"
    "(ps_RevokedAt r \<noteq> None) = off" using assms(1) by (auto simp: session_row_def)
  have "find (\<lambda>x. ps_ID x = ps_ID s) (t_sessions d') = Some (if Q r then r\<lparr>ps_RevokedAt := Some t\<rparr> else r)"
    unfolding assms(2) by (subst find_map_same) (simp_all add: r(1))
  then show ?thesis using r(2,3) assms(3) [OF r(2,3)] by (auto simp: session_row_def)
qed

lemma row_fields: "r\<lparr>ps_RevokedAt := None\<rparr> = s\<lparr>ps_RevokedAt := None\<rparr> \<Longrightarrow> ps_ID r = ps_ID s \<and> ps_UserID r = ps_UserID s \<and> ps_JWTID r = ps_JWTID s"
  by (cases r; cases s) simp

lemma session_row_same: "session_row s off d \<Longrightarrow> t_sessions d' = t_sessions d @ xs \<Longrightarrow> session_row s off d'"
  by (auto simp: session_row_def find_append)

lemma login_sessions:
  assumes "handleLogin bucket sid jti remote ua body p = (rep, p')"
  shows "(\<exists>xs. t_sessions (pn_DB p') = t_sessions (pn_DB p) @ xs) \<and> pn_Auth p' = pn_Auth p"
proof -
  have i: "\<exists>xs. t_sessions d' = t_sessions d @ xs" if "Auth_Issue a sid jti i u ip ua d = (r, d')" for a sid jti i u ip ua d r d'
  proof (cases "\<exists>x. r = Inr x")
    case True
    then show ?thesis using that InsertPanelSession_ok(1)
      by (auto simp: Auth_Issue_def liftA_def Let_def split: sum.splits prod.splits)
  next
    case False
    have "t_sessions e' = t_sessions e" if "InsertPanelSession s e = (Inl x, e')" for s e x e'
      using that unfolding InsertPanelSession_def by (auto simp: stmt_def split: list.splits option.splits if_splits)
    then show ?thesis using False that
      by (auto simp: Auth_Issue_def liftA_def Let_def split: sum.splits prod.splits)
  qed
  have g: "t_sessions d' = t_sessions d" if "GetPanelUserByUsername u d = (r, d')" for u d r d'
    using GetUser_same [OF that] by (auto elim!: same_tablesE)
  have t: "t_sessions (pn_DB (snd (run_panel (TouchLastLogin k) q))) = t_sessions (pn_DB q)" for k q
    by (auto simp: run_panel_def split: prod.split dest: Touch_sessions)
  have a: "pn_Auth (panel_audit x y z w q) = pn_Auth q" for x y z w and q :: "'a panel"
    by (simp add: panel_audit_def)
  show ?thesis using assms
    by (auto simp: login_defs fail_login_def Let_def t a split: sum.splits prod.splits bool.splits if_splits option.splits)
      (auto simp: run_panel_def split: prod.splits dest!: g i)
qed

lemma logout_sessions:
  assumes "handleLogout cx remote p = (rep, p')"
  shows "t_sessions (pn_DB p') = (case rep of ReplyOK _ \<Rightarrow>
      map (\<lambda>s. if ps_ID s = cx_SessionID cx then s\<lparr>ps_RevokedAt := Some (db_now (pn_DB p))\<rparr> else s) (t_sessions (pn_DB p))
    | _ \<Rightarrow> t_sessions (pn_DB p)) \<and> pn_Auth p' = pn_Auth p"
proof -
  have e: "t_sessions d' = t_sessions d" if "RevokeSession k d = (Inl x, d')" for k d x d'
    using that unfolding RevokeSession_def by (auto simp: stmt_def split: list.splits option.splits)
  have a: "pn_Auth (panel_audit x y z w q) = pn_Auth q" for x y z w and q :: "'a panel"
    by (simp add: panel_audit_def)
  show ?thesis using assms
    by (auto simp: handleLogout_def run_panel_def Auth_Revoke_def liftA_def a split: if_splits sum.splits prod.splits dest: e RevokeSession_ok)
qed

lemma password_sessions:
  assumes "handleChangePassword cx remote body p = (rep, p')"
  shows "(case rep of ReplyOK _ \<Rightarrow> \<exists>t. t_sessions (pn_DB p') =
      map (\<lambda>s. if ps_UserID s = cx_UserID cx \<and> ps_RevokedAt s = None \<and> ps_JWTID s \<noteq> cx_JWTID cx then s\<lparr>ps_RevokedAt := Some t\<rparr> else s) (t_sessions (pn_DB p))
    | _ \<Rightarrow> t_sessions (pn_DB p') = t_sessions (pn_DB p)) \<and> pn_Auth p' = pn_Auth p"
proof -
  have g: "t_sessions d' = t_sessions d" if "GetPanelUserByUsername u d = (r, d')" for u d r d'
    using GetUser_same [OF that] by (auto elim!: same_tablesE)
  have u: "t_sessions d' = t_sessions d" if "UpdatePanelUserPassword i h d = (r, d')" for i h d r d'
    using that unfolding UpdatePanelUserPassword_def
    by (cases rule: stmt_cases [of "\<lambda>d. (Inr (), d\<lparr>t_users := map (\<lambda>u. if pu_ID u = i then u\<lparr>pu_BcryptHash := h\<rparr> else u) (t_users d)\<rparr>)" d]; auto)
  have e: "t_sessions d' = t_sessions d" if "RevokeSessionsExcept i k d = (Inl x, d')" for i k d x d'
    using that unfolding RevokeSessionsExcept_def by (auto simp: stmt_def split: list.splits option.splits)
  have o: "t_sessions d' = map (\<lambda>s. if ps_UserID s = i \<and> ps_RevokedAt s = None \<and> ps_JWTID s \<noteq> k then s\<lparr>ps_RevokedAt := Some (db_now d)\<rparr> else s) (t_sessions d)"
    if "RevokeSessionsExcept i k d = (Inr x, d')" for i k d x d'
    using that unfolding RevokeSessionsExcept_def by (auto cong: if_cong dest!: stmt_Inr)
  have a: "pn_Auth (panel_audit x y z w q) = pn_Auth q" for x y z w and q :: "'a panel"
    by (simp add: panel_audit_def)
  show ?thesis using assms
    by (auto simp: handleChangePassword_def run_panel_def a Let_def split: if_splits sum.splits prod.splits dest!: g u e o)
qed

lemma session_run_row:
  "session_run bucket p es q \<Longrightarrow> session_row s False (pn_DB p) \<Longrightarrow>
     session_row s (\<exists>e\<in>set es. ends_session (ps_ID s) (ps_UserID s) (ps_JWTID s) e) (pn_DB q) \<and> pn_Auth q = pn_Auth p"
proof (induction rule: session_run.induct)
  case (login es q sid jti remote ua body rep q')
  then show ?case using login_sessions [OF login.hyps(2)] session_row_same by metis
next
  case (logout es q cx remote rep q')
  note ls = logout_sessions [OF logout.hyps(2)]
  show ?case
  proof (cases rep)
    case (ReplyOK u)
    have row: "session_row s (\<exists>e\<in>set es. ends_session (ps_ID s) (ps_UserID s) (ps_JWTID s) e) (pn_DB q)" using logout by simp
    have t: "t_sessions (pn_DB q') = map (\<lambda>x. if ps_ID x = cx_SessionID cx then x\<lparr>ps_RevokedAt := Some (db_now (pn_DB q))\<rparr> else x) (t_sessions (pn_DB q))"
      using ls ReplyOK by simp
    have "session_row s (\<exists>e\<in>set (LoggedOut (cx_SessionID cx) # es). ends_session (ps_ID s) (ps_UserID s) (ps_JWTID s) e) (pn_DB q')"
    proof (rule session_row_map [OF row t])
      fix r assume r: "r\<lparr>ps_RevokedAt := None\<rparr> = s\<lparr>ps_RevokedAt := None\<rparr>"
      show "(ps_ID r = cx_SessionID cx \<or> (\<exists>e\<in>set es. ends_session (ps_ID s) (ps_UserID s) (ps_JWTID s) e)) =
        (\<exists>e\<in>set (LoggedOut (cx_SessionID cx) # es). ends_session (ps_ID s) (ps_UserID s) (ps_JWTID s) e)"
        using row_fields [OF r] by (auto simp: ends_session_def)
    qed
    then show ?thesis using logout ls ReplyOK by simp
  next
    case (ReplyError st c)
    then show ?thesis using logout ls session_row_same [of s _ "pn_DB q" "pn_DB q'" "[]"] by simp
  qed
next
  case (password es q cx remote body rep q')
  note ps = password_sessions [OF password.hyps(2)]
  show ?case
  proof (cases rep)
    case (ReplyOK u)
    have row: "session_row s (\<exists>e\<in>set es. ends_session (ps_ID s) (ps_UserID s) (ps_JWTID s) e) (pn_DB q)" using password by simp
    obtain now where t: "t_sessions (pn_DB q') = map (\<lambda>x. if ps_UserID x = cx_UserID cx \<and> ps_RevokedAt x = None \<and> ps_JWTID x \<noteq> cx_JWTID cx
        then x\<lparr>ps_RevokedAt := Some now\<rparr> else x) (t_sessions (pn_DB q))" using ps ReplyOK by auto
    have "session_row s (\<exists>e\<in>set (SignedOutOthers (cx_UserID cx) (cx_JWTID cx) # es). ends_session (ps_ID s) (ps_UserID s) (ps_JWTID s) e) (pn_DB q')"
    proof (rule session_row_map [OF row t])
      fix r assume r: "r\<lparr>ps_RevokedAt := None\<rparr> = s\<lparr>ps_RevokedAt := None\<rparr>" "(ps_RevokedAt r \<noteq> None) = (\<exists>e\<in>set es. ends_session (ps_ID s) (ps_UserID s) (ps_JWTID s) e)"
      show "(ps_UserID r = cx_UserID cx \<and> ps_RevokedAt r = None \<and> ps_JWTID r \<noteq> cx_JWTID cx \<or> (\<exists>e\<in>set es. ends_session (ps_ID s) (ps_UserID s) (ps_JWTID s) e)) =
        (\<exists>e\<in>set (SignedOutOthers (cx_UserID cx) (cx_JWTID cx) # es). ends_session (ps_ID s) (ps_UserID s) (ps_JWTID s) e)"
        unfolding r(2) [symmetric] list.set bex_simps using row_fields [OF r(1)] by (auto simp: ends_session_def)
    qed
    then show ?thesis using password ps ReplyOK by simp
  next
    case (ReplyError st c)
    then show ?thesis using password ps session_row_same [of s _ "pn_DB q" "pn_DB q'" "[]"] by simp
  qed
next
  case (other es q q')
  then show ?case using session_row_same [of s _ "pn_DB q" "pn_DB q'" "[]"] by simp
qed simp

text \<open>(C8) The life of a session.  A login succeeds only for a stored user and a password that bcrypt accepts.  Later, whatever
  logins, log-outs and password changes have run, a request with its token passes the middleware as that user as long as
  the token has not expired, nobody has logged the session out, and no password change of the user from another session has
  signed it out, unless the database fails; and once one of these has happened, it is refused forever.\<close>

theorem session_lifecycle:
  assumes "jwt_ok (pn_Auth p)" "handleLogin bucket sid jti remote ua body p = (ReplyOK tok, p1)" "session_run bucket p1 es q"
  shows "\<exists>u req. body = Inr req \<and> u \<in> set (t_users (pn_DB p)) \<and> pu_Username u = lr_Username req \<and>
      CheckPassword (au_lib (pn_Auth p)) (pu_BcryptHash u) (lr_Password req) \<and>
      (if db_now (pn_DB q) < db_now (pn_DB p) + au_TokenTTL (pn_Auth p) \<and> list_all (\<lambda>e. \<not> ends_session sid (pu_ID u) jti e) es
       then db_faults (pn_DB q) = [] \<longrightarrow> authMiddleware (pn_Auth q) (''Bearer '' @ tok) (pn_DB q) =
         (ReplyOK \<lparr>cx_UserID = pu_ID u, cx_Username = pu_Username u, cx_SessionID = sid, cx_JWTID = jti\<rparr>, pn_DB q)
       else fst (authMiddleware (pn_Auth q) (''Bearer '' @ tok) (pn_DB q)) = ReplyError 401 ''unauthorized'')"
proof -
  let ?a = "pn_Auth p" and ?exp = "db_now (pn_DB p) + au_TokenTTL (pn_Auth p)"
  obtain u req where l: "body = Inr req" "u \<in> set (t_users (pn_DB p))" "pu_Username u = lr_Username req"
    "CheckPassword (au_lib ?a) (pu_BcryptHash u) (lr_Password req)"
    and sign: "al_sign (au_lib ?a) (au_Secret ?a) \<lparr>cl_SessionID = sid, cl_UserID = pu_ID u, cl_Username = pu_Username u,
       cl_Issuer = au_Issuer ?a, cl_Subject = pu_Username u, cl_IssuedAt = db_now (pn_DB p), cl_ExpiresAt = ?exp, cl_ID = jti\<rparr> = Inr tok"
    and find: "find (\<lambda>s. ps_ID s = sid) (t_sessions (pn_DB p1)) = Some \<lparr>ps_ID = sid, ps_UserID = pu_ID u, ps_JWTID = jti, ps_IssuedAt = db_now (pn_DB p),
       ps_ExpiresAt = ?exp, ps_RevokedAt = None, ps_IP = clientIP remote, ps_UserAgent = ua\<rparr>"
    and auth: "pn_Auth p1 = ?a"
    using login_session [OF assms(2)] by metis
  define c where "c = \<lparr>cl_SessionID = sid, cl_UserID = pu_ID u, cl_Username = pu_Username u, cl_Issuer = au_Issuer ?a, cl_Subject = pu_Username u,
       cl_IssuedAt = db_now (pn_DB p), cl_ExpiresAt = ?exp, cl_ID = jti\<rparr>"
  have c: "cl_ExpiresAt c = ?exp" "cl_SessionID c = sid" by (simp_all add: c_def)
  have j: "tok \<noteq> []" "TrimSpace tok = tok" "\<And>now. now < ?exp \<Longrightarrow> al_parse (au_lib ?a) (au_Secret ?a) now tok = Inr c"
    "\<And>now. ?exp \<le> now \<Longrightarrow> al_parse (au_lib ?a) (au_Secret ?a) now tok = Inl ''token is expired''"
    using assms(1) sign [folded c_def] unfolding jwt_ok_def c(1) [symmetric] by blast+
  have bearer: "extractBearer (''Bearer '' @ tok) = tok" using extractBearer_token j(2) by blast
  let ?s = "\<lparr>ps_ID = sid, ps_UserID = pu_ID u, ps_JWTID = jti, ps_IssuedAt = db_now (pn_DB p), ps_ExpiresAt = ?exp, ps_RevokedAt = None,
      ps_IP = clientIP remote, ps_UserAgent = ua\<rparr>"
  have "session_row ?s False (pn_DB p1)" using find by (simp add: session_row_def)
  then have row: "session_row ?s (\<exists>e\<in>set es. ends_session sid (pu_ID u) jti e) (pn_DB q)" and a: "pn_Auth q = ?a"
    using session_run_row [OF assms(3), of ?s] auth by auto
  obtain r where r: "find (\<lambda>x. ps_ID x = sid) (t_sessions (pn_DB q)) = Some r" "r\<lparr>ps_RevokedAt := None\<rparr> = ?s"
    "(ps_RevokedAt r \<noteq> None) = (\<exists>e\<in>set es. ends_session sid (pu_ID u) jti e)"
    using row by (auto simp: session_row_def)
  have exp: "ps_ExpiresAt r = ?exp" using arg_cong [OF r(2), of ps_ExpiresAt] by simp
  have act: "session_active (pn_DB q) sid \<longleftrightarrow> list_all (\<lambda>e. \<not> ends_session sid (pu_ID u) jti e) es \<and> db_now (pn_DB q) \<le> ?exp"
    using r(1,3) exp by (auto simp: session_active_def list_all_iff)
  have "db_faults (pn_DB q) = [] \<longrightarrow> authMiddleware ?a (''Bearer '' @ tok) (pn_DB q) =
         (ReplyOK \<lparr>cx_UserID = pu_ID u, cx_Username = pu_Username u, cx_SessionID = sid, cx_JWTID = jti\<rparr>, pn_DB q)"
    if "db_now (pn_DB q) < ?exp" "list_all (\<lambda>e. \<not> ends_session sid (pu_ID u) jti e) es"
    using that authMiddleware_accepts [of ?a "pn_DB q" "''Bearer '' @ tok" c] j(1,3) act bearer c(2) by (simp add: c_def)
  moreover have "fst (authMiddleware ?a (''Bearer '' @ tok) (pn_DB q)) = ReplyError 401 ''unauthorized''"
    if "\<not> (db_now (pn_DB q) < ?exp \<and> list_all (\<lambda>e. \<not> ends_session sid (pu_ID u) jti e) es)"
  proof (cases "db_now (pn_DB q) < ?exp")
    case True
    then have "\<not> session_active (pn_DB q) sid" using that act by blast
    then show ?thesis using True j(3) bearer c(2) j(1)
      by (auto simp: authMiddleware_def Auth_Verify_def liftA_def Let_def split: sum.splits prod.splits dest!: IsSessionActive_Inr)
  next
    case False
    then show ?thesis using j(4) bearer by (simp add: authMiddleware_def Auth_Verify_def Let_def)
  qed
  ultimately show ?thesis unfolding a using l by (intro exI [of _ u] exI [of _ req]) auto
qed

definition sample_claims :: "string \<Rightarrow> authClaims" where
  "sample_claims tok = \<lparr>cl_SessionID = ''s1'', cl_UserID = 1, cl_Username = ''admin'', cl_Issuer = ''5gpn'', cl_Subject = ''admin'', cl_IssuedAt = 0, cl_ExpiresAt = 100, cl_ID = ''j1''\<rparr>"

text \<open>A token library that knows one token, for the claims of one login.\<close>

definition sample_auth :: Authenticator where
  "sample_auth = \<lparr>au_lib = \<lparr>al_sign = (\<lambda>k c. if c = sample_claims ''t'' then Inr ''t'' else Inl ''no''),
      al_parse = (\<lambda>k now tok. if now < 100 then Inr (sample_claims tok) else Inl ''token is expired''),
      al_compare = (\<lambda>h p. h = ''#'' @ p), al_generate = (\<lambda>p. Inr (''#'' @ p))\<rparr>,
    au_Secret = ''k'', au_TokenTTL = 100, au_Issuer = ''5gpn''\<rparr>"

lemma sample_jwt: "jwt_ok sample_auth"
proof -
  have "TrimSpace ''t'' = ''t''" by code_simp
  then show ?thesis by (auto simp: jwt_ok_def sample_auth_def sample_claims_def)
qed

definition sample_bucket :: "int \<Rightarrow> nat \<Rightarrow> bool \<times> nat" where
  "sample_bucket now n = (0 < n, n - 1)"

definition sample_panel :: "string \<Rightarrow> nat panel" where
  "sample_panel setup = \<lparr>pn_DB = emptyDB\<lparr>t_users := (if setup = [] then [\<lparr>pu_ID = 1, pu_Username = ''admin'', pu_BcryptHash = ''#password'', pu_CreatedAt = 0, pu_LastLoginAt = None\<rparr>] else [])\<rparr>,
     pn_Auth = sample_auth, pn_Limiter = newIPLimiter 5 15, pn_SetupToken = setup, pn_Settings = True\<rparr>"

lemmas panel_eval = login_defs limiter_allow_def newIPLimiter_def prune_def visit_def locked_def limiterMaxVisitors_def sample_bucket_def
  run_panel_def GetPanelUserByUsername_def select1_def stmt_def CheckPassword_def Auth_Issue_def liftA_def InsertPanelSession_def
  panel_audit_def AppendAudit_def TouchLastLogin_def limiter_reset_def fail_login_def recordFailure_def
  sample_panel_def sample_auth_def sample_claims_def emptyDB_def Let_def

lemma sample_ip: "clientIP ''10.0.0.9:5'' = ''10.0.0.9''"
  by code_simp

text \<open>A log-in at time 0 and a log-out of that session.\<close>

theorem session_lifecycle_witness:
  "\<exists>p1 p2. handleLogin sample_bucket ''s1'' ''j1'' ''10.0.0.9:5'' ''ua'' (Inr \<lparr>lr_Username = ''admin'', lr_Password = ''password''\<rparr>) (sample_panel []) = (ReplyOK ''t'', p1) \<and>
     fst (authMiddleware sample_auth ''Bearer t'' (pn_DB p1)) = ReplyOK \<lparr>cx_UserID = 1, cx_Username = ''admin'', cx_SessionID = ''s1'', cx_JWTID = ''j1''\<rparr> \<and>
     handleLogout \<lparr>cx_UserID = 1, cx_Username = ''admin'', cx_SessionID = ''s1'', cx_JWTID = ''j1''\<rparr> ''10.0.0.9:5'' p1 = (ReplyOK (), p2) \<and>
     fst (authMiddleware sample_auth ''Bearer t'' (pn_DB p2)) = ReplyError 401 ''unauthorized''"
proof -
  let ?b = "Inr \<lparr>lr_Username = ''admin'', lr_Password = ''password''\<rparr>" and ?cx = "\<lparr>cx_UserID = 1, cx_Username = ''admin'', cx_SessionID = ''s1'', cx_JWTID = ''j1''\<rparr>"
  obtain p1 where l: "handleLogin sample_bucket ''s1'' ''j1'' ''10.0.0.9:5'' ''ua'' ?b (sample_panel []) = (ReplyOK ''t'', p1)"
    by (simp add: panel_eval sample_ip)
  have f: "db_faults (pn_DB p1) = []" "db_now (pn_DB p1) = 0" "pn_Auth p1 = sample_auth"
    using l by (simp_all add: panel_eval sample_ip) (auto simp: panel_eval)
  have a: "pn_Auth (sample_panel []) = sample_auth" "db_now (pn_DB (sample_panel [])) = 0" "au_TokenTTL sample_auth = 100"
    "t_users (pn_DB (sample_panel [])) = [\<lparr>pu_ID = 1, pu_Username = ''admin'', pu_BcryptHash = ''#password'', pu_CreatedAt = 0, pu_LastLoginAt = None\<rparr>]"
    by (simp_all add: sample_panel_def emptyDB_def sample_auth_def)
  obtain p2 where o: "handleLogout ?cx ''10.0.0.9:5'' p1 = (ReplyOK (), p2)"
    using f(1) by (simp add: handleLogout_def run_panel_def Auth_Revoke_def liftA_def RevokeSession_def stmt_def)
  have r: "session_run sample_bucket p1 [] p1" "session_run sample_bucket p1 [LoggedOut ''s1''] p2"
    using session_run.start session_run.logout [OF session_run.start o] by simp_all
  have j: "jwt_ok (pn_Auth (sample_panel []))" using sample_jwt a(1) by simp
  have p2: "pn_Auth p2 = sample_auth" using logout_sessions [OF o] f(3) by simp
  from session_lifecycle [OF j l r(1)] session_lifecycle [OF j l r(2)]
  show ?thesis unfolding a f p2 using l o by (auto simp: ends_session_def)
qed

text \<open>Bootstrap is claimed once.  A claim succeeds only with the one-shot token, on a database without users; afterwards
  the token is gone, and no later claim succeeds as long as the user table is not emptied, even in another process
  with a token of its own.\<close>

theorem bootstrap_claim_once:
  assumes "handleBootstrapClaim body p = (ReplyOK (i, u), p1)" "t_users d \<noteq> []"
  shows "\<exists>req. body = Inr req \<and> br_Token req = pn_SetupToken p \<and> pn_SetupToken p \<noteq> [] \<and> 8 \<le> length (br_Password req) \<and>
    t_users (pn_DB p) = [] \<and> map pu_Username (t_users (pn_DB p1)) = [br_Username req] \<and> pn_SetupToken p1 = [] \<and>
    fst (handleBootstrapClaim body' p1) \<noteq> ReplyOK x \<and> fst (handleBootstrapClaim body' (q\<lparr>pn_DB := d\<rparr>)) \<noteq> ReplyOK x"
proof -
  obtain req hash d1 where r: "body = Inr req" "8 \<le> length (br_Password req)" "pn_SetupToken p \<noteq> []" "br_Token req = pn_SetupToken p"
    "InsertFirstPanelUser (br_Username req) hash (pn_DB p) = (Inr (i, True), d1)" "p1 = p\<lparr>pn_DB := d1, pn_SetupToken := []\<rparr>"
    using assms(1) by (auto simp: handleBootstrapClaim_def run_panel_def not_less split: sum.splits prod.splits if_splits)
  have ins: "t_users (pn_DB p) = []" "map pu_Username (t_users d1) = [br_Username req]"
    using r(5) by (auto simp: InsertFirstPanelUser_def Let_def split: if_splits dest!: stmt_Inr)
  have refuse: False if "InsertFirstPanelUser a b d = (Inr (j, True), d')" for a b j d'
    using that assms(2) by (auto simp: InsertFirstPanelUser_def Let_def split: if_splits dest!: stmt_Inr)
  have "fst (handleBootstrapClaim body' p1) \<noteq> ReplyOK x" using r(6) by (auto simp: handleBootstrapClaim_def split: sum.split)
  moreover have "fst (handleBootstrapClaim body' (q\<lparr>pn_DB := d\<rparr>)) \<noteq> ReplyOK x"
    by (auto simp: handleBootstrapClaim_def run_panel_def split: sum.split prod.split dest: refuse)
  ultimately show ?thesis using r ins by auto
qed

theorem bootstrap_claim_once_witness:
  "\<exists>p1. handleBootstrapClaim (Inr \<lparr>br_Token = ''tk'', br_Username = ''admin'', br_Password = ''password''\<rparr>) (sample_panel ''tk'') = (ReplyOK (1, ''admin''), p1) \<and>
     pn_SetupToken p1 = [] \<and> fst (handleBootstrapClaim (Inr \<lparr>br_Token = ''tk'', br_Username = ''eve'', br_Password = ''password2''\<rparr>) p1) \<noteq> ReplyOK (2, ''eve'')"
proof -
  let ?b = "Inr \<lparr>br_Token = ''tk'', br_Username = ''admin'', br_Password = ''password''\<rparr>"
  obtain p1 where h: "handleBootstrapClaim ?b (sample_panel ''tk'') = (ReplyOK (1, ''admin''), p1)"
    by (simp add: handleBootstrapClaim_def HashPassword_def run_panel_def InsertFirstPanelUser_def stmt_def sample_panel_def sample_auth_def emptyDB_def Let_def)
  have u: "t_users (pn_DB (sample_panel [])) \<noteq> []" by (simp add: sample_panel_def)
  show ?thesis using bootstrap_claim_once [OF h u, of "Inr \<lparr>br_Token = ''tk'', br_Username = ''eve'', br_Password = ''password2''\<rparr>" "(2, ''eve'')"] h by blast
qed

lemma UpdatePassword_run:
  assumes "UpdatePanelUserPassword i h d = (r, d')"
  shows "t_sessions d' = t_sessions d" "r = Inr u \<Longrightarrow> t_users d' = map (\<lambda>u. if pu_ID u = i then u\<lparr>pu_BcryptHash := h\<rparr> else u) (t_users d)"
    "r = Inl e \<Longrightarrow> t_users d' = t_users d"
  using assms unfolding UpdatePanelUserPassword_def
  by (cases rule: stmt_cases [of "\<lambda>d. (Inr (), d\<lparr>t_users := map (\<lambda>u. if pu_ID u = i then u\<lparr>pu_BcryptHash := h\<rparr> else u) (t_users d)\<rparr>)" d]; auto)+

lemma RevokeExcept_run:
  assumes "RevokeSessionsExcept i k d = (r, d')"
  shows "t_users d' = t_users d" "r = Inl e \<Longrightarrow> t_sessions d' = t_sessions d"
    "r = Inr u \<Longrightarrow> s \<in> set (t_sessions d') \<Longrightarrow> ps_RevokedAt s = None \<Longrightarrow> s \<in> set (t_sessions d) \<and> (ps_UserID s = i \<longrightarrow> ps_JWTID s = k)"
proof -
  let ?f = "\<lambda>t s. if ps_UserID s = i \<and> ps_RevokedAt s = None \<and> ps_JWTID s \<noteq> k then s\<lparr>ps_RevokedAt := Some t\<rparr> else s"
  let ?body = "\<lambda>d. (Inr (), d\<lparr>t_sessions := map (?f (db_now d)) (t_sessions d)\<rparr>)"
  note run = assms [unfolded RevokeSessionsExcept_def]
  show "t_users d' = t_users d" "r = Inl e \<Longrightarrow> t_sessions d' = t_sessions d"
    using run by (cases rule: stmt_cases [of ?body d]; auto)+
  show "s \<in> set (t_sessions d) \<and> (ps_UserID s = i \<longrightarrow> ps_JWTID s = k)"
    if h: "r = Inr u" "s \<in> set (t_sessions d')" "ps_RevokedAt s = None"
  proof -
    have "t_sessions d' = map (?f (db_now d)) (t_sessions d)" using run h(1) by (auto cong: if_cong dest!: stmt_Inr)
    then obtain y where "y \<in> set (t_sessions d)" "s = ?f (db_now d) y" using h(2) by auto
    then show ?thesis using h(3) by (cases "ps_UserID y = i \<and> ps_RevokedAt y = None \<and> ps_JWTID y \<noteq> k") auto
  qed
qed

lemma revoked_sessions_refused:
  assumes "RevokeSessionsExcept i k d = (Inr u, d')" "t_sessions e = t_sessions d'" "authMiddleware a header e = (ReplyOK cx, e')"
  shows "\<exists>s\<in>set (t_sessions d). ps_ID s = cx_SessionID cx \<and> (ps_UserID s = i \<longrightarrow> ps_JWTID s = k)"
proof -
  have "session_active e (cx_SessionID cx)" using assms(3) by (elim authMiddleware_ok) simp
  then obtain s where s: "find (\<lambda>s. ps_ID s = cx_SessionID cx) (t_sessions d') = Some s" "ps_RevokedAt s = None"
    using assms(2) by (auto simp: session_active_def split: option.splits)
  then show ?thesis using RevokeExcept_run(3) [OF assms(1) refl _ s(2)] find_Some_in [OF s(1)] by auto
qed

text \<open>A password change signs every other browser out.  When it is answered with success, the current password
  was right, the new hash is stored for that user only, and from then on a request passes the middleware with a session of the
  user only if it is the session the change was made from.  A refused change leaves the sessions as they were, and
  the stored passwords too, unless the new password was stored and only the sign-out failed.\<close>

theorem password_change_signs_out:
  assumes "handleChangePassword cx remote body p = (rep, p')"
  shows "case rep of
      ReplyOK _ \<Rightarrow> \<exists>req hash u. body = Inr req \<and> 8 \<le> length (cp_Next req) \<and> HashPassword (au_lib (pn_Auth p)) (cp_Next req) = Inr hash \<and>
        u \<in> set (t_users (pn_DB p)) \<and> pu_Username u = cx_Username cx \<and> CheckPassword (au_lib (pn_Auth p)) (pu_BcryptHash u) (cp_Current req) \<and>
        t_users (pn_DB p') = map (\<lambda>u. if pu_ID u = cx_UserID cx then u\<lparr>pu_BcryptHash := hash\<rparr> else u) (t_users (pn_DB p)) \<and>
        (\<forall>a header e cx' e'. t_sessions e = t_sessions (pn_DB p') \<longrightarrow> authMiddleware a header e = (ReplyOK cx', e') \<longrightarrow>
          (\<exists>s\<in>set (t_sessions (pn_DB p)). ps_ID s = cx_SessionID cx' \<and> (ps_UserID s = cx_UserID cx \<longrightarrow> ps_JWTID s = cx_JWTID cx)))
    | ReplyError status code \<Rightarrow> t_sessions (pn_DB p') = t_sessions (pn_DB p) \<and> (code \<noteq> ''revoke_error'' \<longrightarrow> t_users (pn_DB p') = t_users (pn_DB p))"
proof -
  let ?lib = "au_lib (pn_Auth p)"
  note run = assms [unfolded handleChangePassword_def Let_def]
  show ?thesis
  proof (cases "\<exists>req u d. \<not> (cx_UserID cx = 0 \<or> cx_JWTID cx = []) \<and> body = Inr req \<and> 8 \<le> length (cp_Next req) \<and>
      GetPanelUserByUsername (cx_Username cx) (pn_DB p) = (Inr u, d) \<and> CheckPassword ?lib (pu_BcryptHash u) (cp_Current req)")
    case False
    then show ?thesis using run
      by (auto simp: run_panel_def not_less split: if_splits sum.splits prod.splits elim!: same_tablesE dest!: GetUser_same)
  next
    case True
    then obtain req u d where a: "\<not> (cx_UserID cx = 0 \<or> cx_JWTID cx = [])" "body = Inr req" "8 \<le> length (cp_Next req)"
      "GetPanelUserByUsername (cx_Username cx) (pn_DB p) = (Inr u, d)" "CheckPassword ?lib (pu_BcryptHash u) (cp_Current req)" by blast
    have d: "t_users d = t_users (pn_DB p)" "t_sessions d = t_sessions (pn_DB p)" using GetUser_same [OF a(4)] by (auto elim!: same_tablesE)
    have u: "u \<in> set (t_users (pn_DB p))" "pu_Username u = cx_Username cx" using GetUser_found [OF a(4)] by auto
    have weak: "\<not> length (cp_Next req) < 8" using a(3) by simp
    note run = run [unfolded a(2) sum.case run_panel_def a(4) prod.case if_not_P [OF a(1)] if_not_P [OF weak], simplified a(5) not_True_eq_False if_False panel.simps]
    show ?thesis
    proof (cases "HashPassword ?lib (cp_Next req)")
      case (Inl e)
      then show ?thesis using run a(5) d by auto
    next
      case (Inr hash)
      obtain r1 d1 where up: "UpdatePanelUserPassword (cx_UserID cx) hash d = (r1, d1)" by fastforce
      show ?thesis
      proof (cases r1)
        case Inl
        then show ?thesis using run a(5) Inr up UpdatePassword_run(1,3) [OF up] d by auto
      next
        case r1: (Inr x)
        obtain r2 d2 where rv: "RevokeSessionsExcept (cx_UserID cx) (cx_JWTID cx) d1 = (r2, d2)" by fastforce
        show ?thesis
        proof (cases r2)
          case Inl
          then show ?thesis using run a(5) Inr up r1 rv UpdatePassword_run(1) [OF up] RevokeExcept_run(2) [OF rv] d by auto
        next
          case r2: (Inr y)
          have res: "rep = ReplyOK ()" "t_users (pn_DB p') = t_users d2" "t_sessions (pn_DB p') = t_sessions d2"
            using run a(5) Inr up r1 rv r2 by auto
          have only: "\<exists>s\<in>set (t_sessions (pn_DB p)). ps_ID s = cx_SessionID cx' \<and> (ps_UserID s = cx_UserID cx \<longrightarrow> ps_JWTID s = cx_JWTID cx)"
            if "t_sessions e = t_sessions (pn_DB p')" "authMiddleware b header e = (ReplyOK cx', e')" for b header e cx' e'
            using revoked_sessions_refused [OF rv [unfolded r2] _ that(2)] that(1) res(3) UpdatePassword_run(1) [OF up] d(2) by simp
          have users: "t_users (pn_DB p') = map (\<lambda>u. if pu_ID u = cx_UserID cx then u\<lparr>pu_BcryptHash := hash\<rparr> else u) (t_users (pn_DB p))"
            using UpdatePassword_run(2) [OF up r1] RevokeExcept_run(1) [OF rv] d(1) res(2) by simp
          show ?thesis unfolding res(1) reply.case using a u Inr users only by blast
        qed
      qed
    qed
  qed
qed


definition sample_ctx :: auth_ctx where
  "sample_ctx = \<lparr>cx_UserID = 1, cx_Username = ''admin'', cx_SessionID = ''s1'', cx_JWTID = ''j1''\<rparr>"

theorem password_change_signs_out_witness:
  "\<exists>p'. handleChangePassword sample_ctx ''10.0.0.9:5'' (Inr \<lparr>cp_Current = ''password'', cp_Next = ''new password''\<rparr>) (sample_panel []) = (ReplyOK (), p') \<and>
     map pu_BcryptHash (t_users (pn_DB p')) = [''#new password'']"
proof -
  obtain p' where h: "handleChangePassword sample_ctx ''10.0.0.9:5'' (Inr \<lparr>cp_Current = ''password'', cp_Next = ''new password''\<rparr>) (sample_panel []) = (ReplyOK (), p')"
    by (simp add: handleChangePassword_def sample_ctx_def panel_eval HashPassword_def UpdatePanelUserPassword_def RevokeSessionsExcept_def)
  show ?thesis using password_change_signs_out [OF h] h by (auto simp: HashPassword_def sample_panel_def sample_auth_def sample_ctx_def)
qed


end
