(* ===== verification/Feed.thy ===== *)
theory Feed
  imports Lifecycle Panel
begin

text \<open>
  The feed of applies that the panel polls, \<open>internal/api/applies.go\<close>: a ring of the last \<open>applyRingCap\<close> entries, each
  pending until its apply succeeded or failed, brought up to date from the life cycle that the \<open>Applier\<close> records.

  Every read of the clock is an argument, or a value of \<open>tick\<close> at the read's position in a handler; the identifier that
  \<open>create\<close> draws is an argument too.  A nil entry is \<open>None\<close>.  \<open>rebuildAndPublish\<close> has no caller and is left out.
\<close>

section \<open>The ring\<close>

definition applyRingCap :: nat where "applyRingCap = 128"
definition applyRingTTL :: int where "applyRingTTL = 24 * 3600"

record applyEntry =
  ent_ID :: string
  ent_Hash :: string
  ent_Status :: string
  ent_Kind :: string
  ent_StartedAt :: int
  ent_FinishedAt :: "int option"
  ent_Error :: string
  ent_RuleCount :: nat
  ent_SnapshotID :: int

record applyStore =
  st_order :: "string list"
  st_byID :: "string \<Rightarrow> applyEntry option"

definition newApplyStore :: applyStore where
  "newApplyStore = \<lparr>st_order = [], st_byID = \<lambda>_. None\<rparr>"

fun trim_order :: "string list \<Rightarrow> (string \<Rightarrow> applyEntry option) \<Rightarrow> string list \<times> (string \<Rightarrow> applyEntry option)" where
  "trim_order [] m = ([], m)"
| "trim_order (oldest # rest) m =
     (if length (oldest # rest) > applyRingCap then trim_order rest (m(oldest := None)) else (oldest # rest, m))"

definition feed_create :: "int \<Rightarrow> string \<Rightarrow> string \<Rightarrow> string \<Rightarrow> nat \<Rightarrow> int \<Rightarrow> applyStore \<Rightarrow> applyEntry \<times> applyStore" where
  "feed_create now i hash kind ruleCount snapID f =
     (let e = \<lparr>ent_ID = i, ent_Hash = hash, ent_Status = ''pending'', ent_Kind = kind, ent_StartedAt = now, ent_FinishedAt = None,
               ent_Error = [], ent_RuleCount = ruleCount, ent_SnapshotID = snapID\<rparr>;
          (order, byID) = trim_order (st_order f @ [i]) ((st_byID f)(i \<mapsto> e)) in
      (e, \<lparr>st_order = order, st_byID = byID\<rparr>))"

definition feed_finish :: "int \<Rightarrow> string \<Rightarrow> string \<Rightarrow> string \<Rightarrow> applyStore \<Rightarrow> applyStore" where
  "feed_finish now i status errMsg f = (case st_byID f i of
      None \<Rightarrow> f
    | Some e \<Rightarrow> if ent_Status e \<noteq> ''pending'' then f
        else f\<lparr>st_byID := (st_byID f)(i \<mapsto> e\<lparr>ent_Status := status, ent_Error := errMsg, ent_FinishedAt := Some now\<rparr>)\<rparr>)"

definition feed_Get :: "int \<Rightarrow> string \<Rightarrow> applyStore \<Rightarrow> applyEntry option" where
  "feed_Get now i f = (case st_byID f i of
      None \<Rightarrow> None
    | Some e \<Rightarrow> if now - ent_StartedAt e > applyRingTTL then None else Some e)"

text \<open>\<open>sort.Slice\<close> leaves the order of entries started at the same instant open; here they stay in ring order.\<close>

definition feed_List :: "int \<Rightarrow> applyStore \<Rightarrow> applyEntry list" where
  "feed_List now f = sort_key (\<lambda>e. - ent_StartedAt e)
     (filter (\<lambda>e. \<not> ent_StartedAt e < now - applyRingTTL) (List.map_filter (st_byID f) (st_order f)))"

section \<open>Tracking an apply\<close>

definition trackApplyResult :: "(nat \<Rightarrow> int) \<Rightarrow> string \<Rightarrow> string \<Rightarrow> string \<Rightarrow> nat \<Rightarrow> CoreApplyResult \<Rightarrow> applyStore \<Rightarrow> applyEntry option \<times> applyStore" where
  "trackApplyResult tick i hash kind ruleCount res f = (case feed_create (tick 0) i hash kind ruleCount (cr_SnapshotID res) f of
      (entry, f) \<Rightarrow>
        if cr_Health res = ''observing'' then (Some entry, f)
        else let f = (if cr_RolledBack res then feed_finish (tick 1) (ent_ID entry) ''failed'' (cr_Reason res) f
                      else feed_finish (tick 1) (ent_ID entry) ''succeeded'' [] f) in
          (feed_Get (tick 2) (ent_ID entry) f, f))"

definition trackRuleApply :: "(string \<Rightarrow> byte list) \<Rightarrow> (nat \<Rightarrow> int) \<Rightarrow> string \<Rightarrow> RuleSet \<Rightarrow> string \<Rightarrow> CoreApplyResult \<Rightarrow> applyStore \<Rightarrow> applyEntry option \<times> applyStore" where
  "trackRuleApply sha tick i rs kind res f = trackApplyResult tick i (HashRules sha rs) kind (length rs) res f"

text \<open>\<open>refreshApplyEntry\<close>; \<open>wired\<close> is whether the server has an \<open>Applier\<close>.\<close>

definition refreshApplyEntry :: "bool \<Rightarrow> (nat \<Rightarrow> int) \<Rightarrow> applyEntry \<Rightarrow> applyStore \<times> ApplierState \<Rightarrow> applyEntry option \<times> applyStore \<times> ApplierState" where
  "refreshApplyEntry wired tick entry x = (case x of (f, a) \<Rightarrow>
     if ent_Status entry \<noteq> ''pending'' \<or> ent_SnapshotID entry = 0 then (Some entry, f, a)
     else case (if wired then TerminalStatus (ent_SnapshotID entry) a else None) of
         Some terminal \<Rightarrow>
           let f = (if ts_State terminal = ''confirmed'' then feed_finish (tick 0) (ent_ID entry) ''succeeded'' [] f
                    else feed_finish (tick 0) (ent_ID entry) ''failed'' (ts_Reason terminal) f) in
           (feed_Get (tick 1) (ent_ID entry) f, f, a)
       | None \<Rightarrow> (case run_db (ApplyStatusBySnapshot (ent_SnapshotID entry)) a of
             (Inl e, a) \<Rightarrow> (Some entry, f, a)
           | (Inr None, a) \<Rightarrow> (Some entry, f, a)
           | (Inr (Some status), a) \<Rightarrow>
               if as_State status = ''submitted'' then (Some entry, f, a)
               else
                 let f = (if as_State status = ''confirmed'' then feed_finish (tick 0) (ent_ID entry) ''succeeded'' [] f
                          else feed_finish (tick 0) (ent_ID entry) ''failed'' (as_Reason status) f) in
                 (case feed_Get (tick 1) (ent_ID entry) f of
                    None \<Rightarrow> (Some entry, f, a)
                  | Some refreshed \<Rightarrow> (Some refreshed, f, a))))"

section \<open>Handlers\<close>

definition handleApplyGet :: "bool \<Rightarrow> (nat \<Rightarrow> int) \<Rightarrow> string \<Rightarrow> applyStore \<times> ApplierState \<Rightarrow> applyEntry option reply \<times> applyStore \<times> ApplierState" where
  "handleApplyGet wired tick i x = (case x of (f, a) \<Rightarrow>
     (case feed_Get (tick 0) i f of
        None \<Rightarrow> (ReplyError 404 ''apply_expired'', f, a)
      | Some entry \<Rightarrow> (case refreshApplyEntry wired (\<lambda>n. tick (Suc n)) entry (f, a) of (r, f, a) \<Rightarrow> (ReplyOK r, f, a))))"

text \<open>The loop of \<open>handleAppliesList\<close>.  The result is \<open>None\<close> when it dereferences a nil entry.\<close>

fun refresh_all :: "bool \<Rightarrow> (nat \<Rightarrow> int) \<Rightarrow> applyEntry list \<Rightarrow> applyStore \<times> ApplierState \<Rightarrow> applyEntry list option \<times> applyStore \<times> ApplierState" where
  "refresh_all wired tick [] x = (Some [], x)"
| "refresh_all wired tick (e # es) x = (case refreshApplyEntry wired tick e x of
      (None, x) \<Rightarrow> (None, x)
    | (Some r, x) \<Rightarrow> (case refresh_all wired (\<lambda>n. tick (n + 2)) es x of
          (None, x) \<Rightarrow> (None, x)
        | (Some rs, x) \<Rightarrow> (Some (r # rs), x)))"

definition handleAppliesList :: "bool \<Rightarrow> (nat \<Rightarrow> int) \<Rightarrow> applyStore \<times> ApplierState \<Rightarrow> applyEntry list option \<times> applyStore \<times> ApplierState" where
  "handleAppliesList wired tick x = refresh_all wired (\<lambda>n. tick (Suc n)) (feed_List (tick 0) (fst x)) x"

section \<open>The ring as a history\<close>

text \<open>The stores that can arise, with the identifiers of all entries ever created, oldest first.\<close>

inductive feed_history :: "string list \<Rightarrow> applyStore \<Rightarrow> bool" where
  empty: "feed_history [] newApplyStore"
| created: "feed_history h f \<Longrightarrow> i \<notin> set h \<Longrightarrow> feed_create now i hash kind n snap f = (e, f') \<Longrightarrow> feed_history (h @ [i]) f'"
| finished: "feed_history h f \<Longrightarrow> status \<noteq> ''pending'' \<Longrightarrow> feed_history h (feed_finish now i status msg f)"

definition feed_ok :: "string list \<Rightarrow> applyStore \<Rightarrow> bool" where
  "feed_ok h f = (distinct h \<and> st_order f = drop (length h - applyRingCap) h \<and> dom (st_byID f) = set (st_order f) \<and>
     (\<forall>i e. st_byID f i = Some e \<longrightarrow> ent_ID e = i \<and> (ent_Status e = ''pending'') = (ent_FinishedAt e = None)))"

lemma trim_order_eq:
  "distinct xs \<Longrightarrow> trim_order xs m = (drop (length xs - applyRingCap) xs, m |` (- set (take (length xs - applyRingCap) xs)))"
proof (induction xs m rule: trim_order.induct)
  case (2 oldest rest m)
  show ?case
  proof (cases "length (oldest # rest) > applyRingCap")
    case True
    then have n: "length (oldest # rest) - applyRingCap = Suc (length rest - applyRingCap)" by simp
    have "m(oldest := None) |` (- set (take (length rest - applyRingCap) rest)) = m |` (- set (take (Suc (length rest - applyRingCap)) (oldest # rest)))"
      by (auto simp: restrict_map_def)
    then show ?thesis using "2.IH" [OF True] "2.prems" True unfolding n by (simp only: trim_order.simps if_True distinct.simps drop_Suc_Cons simp_thms)
  next
    case False
    then show ?thesis by (simp add: restrict_map_def)
  qed
qed (simp add: restrict_map_def)

lemma feed_create_ok:
  assumes "feed_ok h f" "i \<notin> set h" "feed_create now i hash kind n snap f = (e, f')"
  shows "feed_ok (h @ [i]) f'" "st_byID f' i = Some e" "ent_ID e = i" "ent_Status e = ''pending''" "ent_StartedAt e = now" "ent_SnapshotID e = snap"
    "j \<noteq> i \<Longrightarrow> st_byID f' j = None \<or> st_byID f' j = st_byID f j"
proof -
  let ?xs = "st_order f @ [i]" and ?m = "(st_byID f)(i \<mapsto> e)"
  let ?k = "length ?xs - applyRingCap"
  have o: "st_order f = drop (length h - applyRingCap) h" and dom: "dom (st_byID f) = set (st_order f)" and dh: "distinct h"
    using assms(1) by (auto simp: feed_ok_def)
  have d: "distinct ?xs" using o dh assms(2) by (auto dest: in_set_dropD)
  have f': "f' = \<lparr>st_order = drop ?k ?xs, st_byID = ?m |` (- set (take ?k ?xs))\<rparr>"
    and e: "e = \<lparr>ent_ID = i, ent_Hash = hash, ent_Status = ''pending'', ent_Kind = kind, ent_StartedAt = now, ent_FinishedAt = None,
               ent_Error = [], ent_RuleCount = n, ent_SnapshotID = snap\<rparr>"
    using assms(3) trim_order_eq [OF d] by (auto simp: feed_create_def Let_def)
  have "?k \<le> length (st_order f)" by (simp add: applyRingCap_def)
  then have k: "take ?k ?xs = take ?k (st_order f)" "drop ?k ?xs = drop ?k (st_order f) @ [i]" by simp_all
  have i: "i \<notin> set (st_order f)" using d by simp
  have order: "drop ?k ?xs = drop (length (h @ [i]) - applyRingCap) (h @ [i])"
  proof (cases "length h \<le> 127")
    case False
    then have "Suc (length h - 128) = length h - 127" by arith
    then show ?thesis using False by (simp add: o k(2) applyRingCap_def)
  qed (simp add: o k(2) applyRingCap_def)
  have split: "set (st_order f) = set (take ?k (st_order f)) \<union> set (drop ?k (st_order f))"
    by (metis append_take_drop_id set_append)
  have disj: "set (take ?k (st_order f)) \<inter> set (drop ?k (st_order f)) = {}" using d by (simp add: set_take_disj_set_drop_if_distinct)
  have dm: "dom (st_byID f') = set (drop ?k ?xs)"
    using i split disj dom unfolding f' k by (auto simp: restrict_map_def dom_def split: if_splits)
  show "feed_ok (h @ [i]) f'"
    using assms(1,2) order dm e unfolding feed_ok_def f' by (auto simp: restrict_map_def split: if_splits)
  show "st_byID f' i = Some e" using i k(1) by (auto simp: f' restrict_map_def dest: in_set_takeD)
  show "ent_ID e = i" "ent_Status e = ''pending''" "ent_StartedAt e = now" "ent_SnapshotID e = snap" by (simp_all add: e)
  show "st_byID f' j = None \<or> st_byID f' j = st_byID f j" if "j \<noteq> i" using that by (simp add: f' restrict_map_def)
qed

lemma feed_finish_ok: "feed_ok h f \<Longrightarrow> status \<noteq> ''pending'' \<Longrightarrow> feed_ok h (feed_finish now i status msg f)"
  by (auto simp: feed_ok_def feed_finish_def split: option.split)

lemma history_ok: "feed_history h f \<Longrightarrow> feed_ok h f"
proof (induction rule: feed_history.induct)
  case empty
  show ?case by (simp add: feed_ok_def newApplyStore_def)
qed (auto intro: feed_create_ok(1) feed_finish_ok)

section \<open>Properties\<close>

text \<open>The feed keeps the newest applies.  Whatever is tracked, finished and refreshed, the ring holds exactly the last
  \<open>applyRingCap\<close> applies ever created, oldest first, one entry for each under its own identifier, and an entry has an end
  time exactly when it is no longer pending.\<close>

theorem feed_keeps_newest:
  assumes "feed_history h f"
  shows "st_order f = drop (length h - applyRingCap) h \<and> dom (st_byID f) = set (st_order f) \<and> distinct (st_order f) \<and>
    length (st_order f) \<le> applyRingCap \<and>
    (\<forall>i e. st_byID f i = Some e \<longrightarrow> ent_ID e = i \<and> (ent_Status e = ''pending'') = (ent_FinishedAt e = None))"
  using history_ok [OF assms] by (auto simp: feed_ok_def)

theorem feed_keeps_newest_witness:
  "st_order (snd (feed_create 5 ''b'' ''h'' ''apply'' 1 2 (snd (feed_create 3 ''a'' ''g'' ''apply'' 1 1 newApplyStore)))) = [''a'', ''b'']"
proof -
  obtain e f where 1: "feed_create 3 ''a'' ''g'' ''apply'' 1 1 newApplyStore = (e, f)" by fastforce
  obtain e' f' where 2: "feed_create 5 ''b'' ''h'' ''apply'' 1 2 f = (e', f')" by fastforce
  have "feed_history ([] @ [''a'']) f" by (rule feed_history.created [OF feed_history.empty _ 1]) simp
  then have "feed_history [''a'', ''b''] f'" using feed_history.created [OF _ _ 2, of "[''a'']"] by simp
  from feed_keeps_newest [OF this] show ?thesis using 1 2 by (simp add: applyRingCap_def)
qed

text \<open>Later stores of the same process.\<close>

inductive feed_later :: "string list \<Rightarrow> applyStore \<Rightarrow> string list \<Rightarrow> applyStore \<Rightarrow> bool" for h f where
  now: "feed_later h f h f"
| create: "feed_later h f h' f' \<Longrightarrow> i \<notin> set h' \<Longrightarrow> feed_create t i hash kind n snap f' = (e, f'') \<Longrightarrow> feed_later h f (h' @ [i]) f''"
| finish: "feed_later h f h' f' \<Longrightarrow> status \<noteq> ''pending'' \<Longrightarrow> feed_later h f h' (feed_finish t i status msg f')"

definition same_apply :: "applyEntry \<Rightarrow> applyEntry \<Rightarrow> bool" where
  "same_apply e e' = (e'\<lparr>ent_Status := ent_Status e, ent_Error := ent_Error e, ent_FinishedAt := ent_FinishedAt e\<rparr> = e)"

lemma feed_later_entry:
  assumes "feed_later h f h' f'" "feed_ok h f" "st_byID f i = Some e"
  shows "feed_ok h' f' \<and> set h \<subseteq> set h' \<and> (\<forall>e'. st_byID f' i = Some e' \<longrightarrow> same_apply e e' \<and> (ent_Status e \<noteq> ''pending'' \<longrightarrow> e' = e))"
  using assms(1)
proof (induction rule: feed_later.induct)
  case now
  then show ?case using assms(2,3) by (simp add: same_apply_def)
next
  case (create h' f' j t hash kind n snap x f'')
  have ok: "feed_ok h' f'" using create.IH by blast
  have "i \<in> set h" using assms(2,3) unfolding feed_ok_def by (metis domI in_set_dropD)
  then have "i \<noteq> j" using create.hyps(2) create.IH by blast
  then show ?case using feed_create_ok(1,7) [OF ok create.hyps(2,3)] create.IH by fastforce
next
  case (finish h' f' status t j msg)
  have "feed_ok h' (feed_finish t j status msg f')" using finish feed_finish_ok by blast
  then show ?case using finish by (auto simp: feed_finish_def same_apply_def split: option.splits)
qed

text \<open>(C33) The outcome of an apply is final.  Whatever is tracked, finished or refreshed later, as long as the feed still
  has an entry it is the same apply, and once the entry is no longer pending it never changes again.\<close>

theorem outcome_is_final:
  assumes "feed_history h f" "st_byID f i = Some e" "feed_later h f h' f'" "st_byID f' i = Some e'"
  shows "same_apply e e' \<and> (ent_Status e \<noteq> ''pending'' \<longrightarrow> e' = e)"
  using feed_later_entry [OF assms(3) history_ok [OF assms(1)] assms(2)] assms(4) by blast

theorem outcome_is_final_witness:
  "\<exists>e. st_byID (feed_finish 8 ''a'' ''failed'' ''late'' (feed_finish 5 ''a'' ''succeeded'' [] (snd (feed_create 3 ''a'' ''g'' ''apply'' 1 1 newApplyStore)))) ''a'' = Some e \<and>
     ent_Status e = ''succeeded''"
proof -
  obtain x f where 1: "feed_create 3 ''a'' ''g'' ''apply'' 1 1 newApplyStore = (x, f)" by fastforce
  let ?g = "feed_finish 5 ''a'' ''succeeded'' [] f"
  have "feed_history ([] @ [''a'']) f" by (rule feed_history.created [OF feed_history.empty _ 1]) simp
  then have h: "feed_history [''a''] ?g" by (auto intro: feed_history.finished)
  have e: "st_byID ?g ''a'' = Some (x\<lparr>ent_Status := ''succeeded'', ent_Error := [], ent_FinishedAt := Some 5\<rparr>)"
    using 1 by (auto simp: feed_finish_def feed_create_def newApplyStore_def applyRingCap_def Let_def)
  have l: "feed_later [''a''] ?g [''a''] (feed_finish 8 ''a'' ''failed'' ''late'' ?g)" by (intro feed_later.intros) simp
  have e': "st_byID (feed_finish 8 ''a'' ''failed'' ''late'' ?g) ''a'' = st_byID ?g ''a''" using e by (simp add: feed_finish_def [of 8])
  show ?thesis using outcome_is_final [OF h e l trans [OF e' e]] e e' 1 by simp
qed

section \<open>Polling\<close>

lemma feed_Get_finish:
  assumes "st_byID f i = Some e" "ent_Status e = ''pending''" "now' - ent_StartedAt e \<le> applyRingTTL"
  shows "feed_Get now' i (feed_finish now i status msg f) =
    Some (e\<lparr>ent_Status := status, ent_Error := msg, ent_FinishedAt := Some now\<rparr>)"
  using assms by (simp add: feed_Get_def feed_finish_def)

text \<open>The latest life-cycle row of a snapshot is the one an apply of it wrote last.\<close>

lemma last_filter_sorted:
  assumes "\<forall>r\<in>set xs. as_ID r < as_ID row" "as_SnapshotID row = n"
  shows "last_option (filter (\<lambda>a. as_SnapshotID a = n) (sort_key as_ID (xs @ [row]))) = Some row"
proof -
  have "filter (\<lambda>x. as_ID k = as_ID x) (sort_key as_ID xs) = filter (\<lambda>x. as_ID k = as_ID x) xs" for k
    using sort_key_stable [of as_ID "as_ID k" xs] by (simp add: eq_commute [of "as_ID k"])
  then have "sort_key as_ID (xs @ [row]) = sort_key as_ID xs @ [row]"
    using assms(1) by (intro properties_for_sort_key) (auto simp: less_imp_le sorted_append)
  then show ?thesis using assms(2) by (simp add: last_option_def)
qed


text \<open>Polling an entry whose apply was observed to its end: the entry is closed with the outcome.\<close>

lemma poll_outcome:
  assumes ob: "observation_result st n v t a a2" and e: "st_byID f i = Some e" "ent_ID e = i" "ent_Status e = ''pending''" "ent_SnapshotID e = n" "n \<noteq> 0"
    and ttl: "\<forall>k. tick k - ent_StartedAt e \<le> applyRingTTL" and db: "db_faults (ap_DB a2) = []"
  shows "\<exists>e' x. handleApplyGet True tick i (f, a2) = (ReplyOK (Some e'), x) \<and> same_apply e e' \<and>
    (ent_Status e' = ''succeeded'' \<and> activated v t a a2 \<or> ent_Status e' = ''failed'' \<and> same_pointers a a2)"
proof -
  obtain row where r: "t_apply (ap_DB a2) = t_apply (ap_DB a) @ [row]" "as_SnapshotID row = n" "newest_row a row" "cache_only a2 row"
    and vis: "visible_state a2 row = ''confirmed'' \<and> activated v t a a2 \<or>
         (visible_state a2 row = ''rolled_back'' \<or> visible_state a2 row = ''failed'') \<and> same_pointers a a2"
    using ob by (auto simp: observation_result_def)
  have get: "feed_Get (tick k) i f = Some e" for k using e(1) ttl by (simp add: feed_Get_def not_less)
  have fin: "feed_Get (tick k) i (feed_finish now i status msg f) = Some (e\<lparr>ent_Status := status, ent_Error := msg, ent_FinishedAt := Some now\<rparr>)"
    for k now status msg using feed_Get_finish [OF e(1,3)] ttl by blast
  have same: "same_apply e (e\<lparr>ent_Status := status, ent_Error := msg, ent_FinishedAt := Some now\<rparr>)" for status msg now
    by (simp add: same_apply_def)
  show ?thesis
  proof (cases "TerminalStatus n a2")
    case (Some ts)
    then have st: "visible_state a2 row = ts_State ts" using r(2,4) by (simp add: visible_state_def cache_only_def)
    have "handleApplyGet True tick i (f, a2) = (ReplyOK (Some (e\<lparr>ent_Status := (if ts_State ts = ''confirmed'' then ''succeeded'' else ''failed''),
        ent_Error := (if ts_State ts = ''confirmed'' then [] else ts_Reason ts), ent_FinishedAt := Some (tick 1)\<rparr>)),
        feed_finish (tick 1) i (if ts_State ts = ''confirmed'' then ''succeeded'' else ''failed'') (if ts_State ts = ''confirmed'' then [] else ts_Reason ts) f, a2)"
      using Some e(2-5) get fin by (auto simp: handleApplyGet_def refreshApplyEntry_def Let_def)
    then show ?thesis using vis same unfolding st by fastforce
  next
    case None
    then have st: "visible_state a2 row = as_State row" using r(2) by (simp add: visible_state_def)
    have row: "run_db (ApplyStatusBySnapshot n) a2 = (Inr (Some row), a2)"
      using last_filter_sorted [OF r(3) [unfolded newest_row_def] r(2)] r(1) db by (simp add: run_db_def ApplyStatusBySnapshot_def stmt_def)
    have sub: "as_State row \<noteq> ''submitted''" using vis st by auto
    have "handleApplyGet True tick i (f, a2) = (ReplyOK (Some (e\<lparr>ent_Status := (if as_State row = ''confirmed'' then ''succeeded'' else ''failed''),
        ent_Error := (if as_State row = ''confirmed'' then [] else as_Reason row), ent_FinishedAt := Some (tick 1)\<rparr>)),
        feed_finish (tick 1) i (if as_State row = ''confirmed'' then ''succeeded'' else ''failed'') (if as_State row = ''confirmed'' then [] else as_Reason row) f, a2)"
      using None row sub e(2-5) get fin by (auto simp: handleApplyGet_def refreshApplyEntry_def Let_def)
    then show ?thesis using vis same unfolding st by fastforce
  qed
qed

text \<open>\<open>handleAppliesList\<close> re-reads an entry after closing it.  When the entry passes its retention age between the two reads of
  the clock, and its outcome comes from the cache of the \<open>Applier\<close>, the handler dereferences nil.\<close>

lemma applies_list_panics:
  assumes "st_order f = [i]" "st_byID f i = Some e" "ent_ID e = i" "ent_Status e = ''pending''" "ent_SnapshotID e = n" "n \<noteq> 0"
    and "TerminalStatus n a = Some ts" "tick 0 - ent_StartedAt e \<le> applyRingTTL" "tick 2 - ent_StartedAt e > applyRingTTL"
  shows "fst (handleAppliesList True tick (f, a)) = None"
proof -
  have l: "feed_List (tick 0) f = [e]" using assms(1,2,8) by (simp add: feed_List_def List.map_filter_def)
  have g: "feed_Get (tick (Suc (Suc 0))) i (feed_finish (tick 1) i s m f) = None" for s m
    using assms(2,9) by (auto simp: feed_Get_def feed_finish_def numeral_2_eq_2 split: option.splits if_splits)
  show ?thesis using assms(3-7) l g by (simp add: handleAppliesList_def refreshApplyEntry_def Let_def)
qed

end
