(* ===== verification/RuleImport.thy ===== *)
theory RuleImport
  imports Rules
begin

text \<open>
  The rule importers of \<open>internal/rules\<close>: the legacy list reader (\<open>importlegacy.go\<close>) and the gfwlist / AutoProxy
  reader with its format detection (\<open>importgfwlist.go\<close>).  Both turn foreign text into lines
  \<open>KIND,VALUE,CATEGORY\<close>.  The regular expressions of the sources are written out as character predicates.
\<close>

section \<open>Legacy lists (\<open>importlegacy.go\<close>)\<close>

record ImportLegacyReport =
  rep_Converted :: nat
  rep_Dropped :: nat
  rep_OrFlattened :: nat
  rep_Categories :: "string list"
  rep_FinalPolicy :: string

record ImportLegacyOptions =
  io_KeepCategories :: "string list"
  io_DirectCategories :: "string list"

definition legacyKeep :: "string list" where
  "legacyKeep = [''DOMAIN'', ''DOMAIN-SUFFIX'', ''DOMAIN-KEYWORD'', ''IP-CIDR'', ''IP-CIDR6'', ''RULE-SET'', ''GEOIP'', ''GEOSITE'']"

definition legacyDrop :: "string list" where
  "legacyDrop = [''PROCESS-NAME'', ''SRC-IP'', ''SRC-PORT'', ''DEST-PORT'', ''IN-PORT'', ''MAC-ADDRESS'', ''DEVICE-NAME'', ''IP-ASN'',
     ''USER-AGENT'', ''SUBNET'', ''PROTOCOL'', ''CELLULAR-RADIO'', ''SSID'']"

abbreviation newline :: char where "newline \<equiv> CHR 0x0A"
abbreviation quote :: char where "quote \<equiv> CHR 0x22"

text \<open>\<open>(?i)^(no-resolve|extended-matching|dns-failed|pre-matching|update-interval=.*|interval=.*)$\<close>; the dot does
  not match a line feed.\<close>

definition modifierRE :: "string \<Rightarrow> bool" where
  "modifierRE s = (let t = ToLower s in
     t \<in> set [''no-resolve'', ''extended-matching'', ''dns-failed'', ''pre-matching''] \<or>
     ((HasPrefix t ''update-interval='' \<or> HasPrefix t ''interval='') \<and> newline \<notin> set t))"

text \<open>\<open>^[^\w\p{Han}]+\<close> replaced by nothing.\<close>

definition is_word :: "char \<Rightarrow> bool" where
  "is_word c = (let n = (of_char c :: nat) in (48 \<le> n \<and> n \<le> 57) \<or> (65 \<le> n \<and> n \<le> 90) \<or> n = 95 \<or> (97 \<le> n \<and> n \<le> 122))"

definition leadingSymbols :: "string \<Rightarrow> string" where
  "leadingSymbols s = dropWhile (\<lambda>c. \<not> is_word c) s"

text \<open>\<open>[,\s]+\<close> as separator; the parts are trimmed and the empty ones skipped.\<close>

definition is_list_sep :: "char \<Rightarrow> bool" where
  "is_list_sep c = (c = CHR '','' \<or> c \<in> set [CHR 0x09, CHR 0x0A, CHR 0x0C, CHR 0x0D, CHR '' ''])"

fun split_seps :: "string \<Rightarrow> string \<Rightarrow> string list" where
  "split_seps cur [] = [rev cur]"
| "split_seps cur (c # cs) = (if is_list_sep c then rev cur # split_seps [] cs else split_seps (c # cur) cs)"

definition env_list :: "string \<Rightarrow> string list" where
  "env_list s = filter (\<lambda>p. p \<noteq> []) (map TrimSpace (split_seps [] s))"

definition ImportOptionsFromEnv :: "(string \<Rightarrow> string) \<Rightarrow> ImportLegacyOptions" where
  "ImportOptionsFromEnv getenv =
     \<lparr>io_KeepCategories = env_list (getenv ''PGW_KEEP_CATEGORIES''), io_DirectCategories = env_list (getenv ''PGW_DIRECT_CATEGORIES'')\<rparr>"

definition normCategory :: "string \<Rightarrow> string" where
  "normCategory policy = (let p = TrimSpace (leadingSymbols (TrimFunc (\<lambda>c. c = quote) (TrimSpace policy))) in
     if p = [] then ''Proxy'' else p)"

text \<open>The comma-separated fields, with quoted commas kept; \<open>cur\<close> is the builder.\<close>

fun csv_loop :: "bool \<Rightarrow> string \<Rightarrow> string \<Rightarrow> string list" where
  "csv_loop inQ cur [] = [TrimSpace cur]"
| "csv_loop inQ cur (ch # s) =
     (if ch = quote then csv_loop (\<not> inQ) cur s
      else if ch = CHR '','' \<and> \<not> inQ then TrimSpace cur # csv_loop inQ [] s
      else csv_loop inQ (cur @ [ch]) s)"

definition csvSplit :: "string \<Rightarrow> string list" where
  "csvSplit s = csv_loop False [] s"

text \<open>\<open>group\<close> collects the text between the first parenthesis and the one that closes it; \<open>start\<close> is the member
  being read.\<close>

fun closing :: "int \<Rightarrow> string \<Rightarrow> string \<Rightarrow> (string \<times> string) option" where
  "closing depth acc [] = None"
| "closing depth acc (c # s) =
     (if c = CHR ''('' then closing (depth + 1) (acc @ [c]) s
      else if c = CHR '')'' then (if depth - 1 = 0 then Some (acc, s) else closing (depth - 1) (acc @ [c]) s)
      else closing depth (acc @ [c]) s)"

fun top_parens :: "int \<Rightarrow> string option \<Rightarrow> string \<Rightarrow> string list" where
  "top_parens depth start [] = []"
| "top_parens depth start (c # s) =
     (if c = CHR ''('' then
        top_parens (depth + 1) (if depth = 0 then Some [] else map_option (\<lambda>m. m @ [c]) start) s
      else if c = CHR '')'' then
        (case start of
           Some m \<Rightarrow> if depth - 1 = 0 then m # top_parens (depth - 1) None s else top_parens (depth - 1) (Some (m @ [c])) s
         | None \<Rightarrow> top_parens (depth - 1) None s)
      else top_parens depth (map_option (\<lambda>m. m @ [c]) start) s)"

definition splitTopParens :: "string \<Rightarrow> string list" where
  "splitTopParens s = top_parens 0 None s"

definition parseLogical :: "string \<Rightarrow> string list \<times> string" where
  "parseLogical line = (case dropWhile (\<lambda>c. c \<noteq> CHR ''('') line of
      [] \<Rightarrow> ([], [])
    | p # s \<Rightarrow> (case closing 1 [] s of
          None \<Rightarrow> ([], [])
        | Some (grp, rest) \<Rightarrow>
            let tail = dropWhile (\<lambda>c. c = CHR '','') rest in
            (splitTopParens grp, if tail = [] then [] else hd (csvSplit tail))))"

definition block_markers :: "string list" where
  "block_markers = [''advert'', ''hijack'', ''privacy'', ''reject'', [CHR 0xE5, CHR 0xB9, CHR 0xBF, CHR 0xE5, CHR 0x91, CHR 0x8A], ''malware'']"

definition catFn :: "ImportLegacyOptions \<Rightarrow> string \<Rightarrow> string" where
  "catFn opts policy = (let cat = normCategory policy; low = ToLower cat in
     if low \<in> set (map ToLower (io_DirectCategories opts)) then ''direct''
     else if io_KeepCategories opts = [] \<or> cat \<in> set (io_KeepCategories opts) then cat
     else if low \<in> set [''dir'', ''direct'', ''china'', ''lan'', ''domestic''] then ''direct''
     else if list_ex (\<lambda>marker. Contains low marker) block_markers then ''block''
     else ''Proxy'')"

text \<open>The variables of the loop: the rules, the category set, the final category, the two counters.\<close>

record import_state =
  im_rules :: "string list"
  im_catSet :: "string list"
  im_final :: string
  im_Dropped :: nat
  im_OrFlattened :: nat

definition emit :: "ImportLegacyOptions \<Rightarrow> string \<Rightarrow> string \<Rightarrow> string \<Rightarrow> import_state \<Rightarrow> import_state" where
  "emit opts kind value policy st = (let kind = ToUpper kind; kind = (if kind = ''IP-CIDR6'' then ''IP-CIDR'' else kind); cat = catFn opts policy in
     st\<lparr>im_rules := im_rules st @ [kind @ '','' @ value @ '','' @ cat], im_catSet := List.insert cat (im_catSet st)\<rparr>)"

fun emit_members :: "ImportLegacyOptions \<Rightarrow> string \<Rightarrow> string list \<Rightarrow> bool \<Rightarrow> import_state \<Rightarrow> bool \<times> import_state" where
  "emit_members opts policy [] took st = (took, st)"
| "emit_members opts policy (m # ms) took st = (let parts = csvSplit m; mt = ToUpper (hd parts) in
     if mt \<in> set legacyKeep \<and> length parts \<ge> 2 then emit_members opts policy ms True (emit opts mt (parts ! 1) policy st)
     else emit_members opts policy ms took st)"

definition import_line :: "ImportLegacyOptions \<Rightarrow> string \<Rightarrow> import_state \<Rightarrow> import_state" where
  "import_line opts raw st = (let line = TrimSpace raw in
     if line = [] \<or> HasPrefix line ''#'' \<or> HasPrefix line '';'' \<or> HasPrefix line ''['' then st
     else let typ = ToUpper (TrimSpace (takeWhile (\<lambda>c. c \<noteq> CHR '','') line)) in
       if typ = ''OR'' \<or> typ = ''AND'' then
         (case parseLogical line of (members, policy) \<Rightarrow>
            if policy = [] then st
            else case emit_members opts policy members False st of
                (True, st) \<Rightarrow> st\<lparr>im_OrFlattened := im_OrFlattened st + 1\<rparr>
              | (False, st) \<Rightarrow> st\<lparr>im_Dropped := im_Dropped st + 1\<rparr>)
       else let parts = csvSplit line in
         if typ = ''FINAL'' then (if length parts > 1 then st\<lparr>im_final := catFn opts (parts ! 1)\<rparr> else st)
         else if typ \<in> set legacyDrop then st\<lparr>im_Dropped := im_Dropped st + 1\<rparr>
         else if typ \<notin> set legacyKeep \<or> length parts < 2 then st\<lparr>im_Dropped := im_Dropped st + 1\<rparr>
         else let rest = filter (\<lambda>p. \<not> modifierRE (TrimFunc (\<lambda>c. c = quote) (TrimSpace p))) (drop 2 parts);
                  policy = (if rest \<noteq> [] then hd rest else []) in
           emit opts typ (parts ! 1) policy st)"

definition import_start :: import_state where
  "import_start = \<lparr>im_rules = [], im_catSet = [], im_final = [], im_Dropped = 0, im_OrFlattened = 0\<rparr>"

definition import_finish :: "import_state \<Rightarrow> string list \<times> ImportLegacyReport" where
  "import_finish st = (let f = im_final st;
       rules = (if f \<noteq> [] then im_rules st @ [''FINAL,'' @ f] else im_rules st);
       cats = (if f \<noteq> [] then List.insert f (im_catSet st) else im_catSet st) in
     (rules, \<lparr>rep_Converted = length rules, rep_Dropped = im_Dropped st, rep_OrFlattened = im_OrFlattened st,
        rep_Categories = sort (remdups cats), rep_FinalPolicy = f\<rparr>))"

definition ImportLegacy :: "string \<Rightarrow> ImportLegacyOptions \<Rightarrow> string list \<times> ImportLegacyReport" where
  "ImportLegacy inp opts = import_finish (fold (import_line opts) (Split newline inp) import_start)"

section \<open>gfwlist (\<open>importgfwlist.go\<close>)\<close>

definition gfwlistPolicyPROXY :: string where "gfwlistPolicyPROXY = ''Proxy''"
definition gfwlistPolicyDIRECT :: string where "gfwlistPolicyDIRECT = ''direct''"

text \<open>\<open>^(?:[a-zA-Z0-9\-]+(?:\.[a-zA-Z0-9\-]+)+)$\<close>\<close>

definition is_host_char :: "char \<Rightarrow> bool" where
  "is_host_char c = (is_word c \<and> c \<noteq> CHR ''_'' \<or> c = CHR ''-'')"

definition hostRE :: "string \<Rightarrow> bool" where
  "hostRE s = (let ls = Split (CHR ''.'') s in length ls \<ge> 2 \<and> list_all (\<lambda>l. l \<noteq> [] \<and> list_all is_host_char l) ls)"

definition hostFromBody :: "string \<Rightarrow> string" where
  "hostFromBody body = (if body = [] then []
     else let body = takeWhile (\<lambda>c. c \<notin> set ''/?#'') body;
              body = (if CHR ''@'' \<in> set body then tl (dropWhile (\<lambda>c. c \<noteq> CHR ''@'') body) else body);
              body = takeWhile (\<lambda>c. c \<noteq> CHR '':'') body in
       TrimSpace body)"

definition trimGFWTail :: "string \<Rightarrow> string" where
  "trimGFWTail s = TrimSuffix (TrimSuffix (TrimSpace s) ''^'') ''/''"

text \<open>\<open>body[idx+3:]\<close> for the first \<open>://\<close>.\<close>

fun after_scheme :: "string \<Rightarrow> string option" where
  "after_scheme [] = None"
| "after_scheme (c # s) = (if prefix ''://'' (c # s) then Some (drop 3 (c # s)) else after_scheme s)"

text \<open>The rule one line of the list stands for: kind, value and policy.\<close>

definition gfw_rule :: "string \<Rightarrow> (string \<times> string \<times> string) option" where
  "gfw_rule raw = (let line = TrimSpace raw in
     if line = [] then None
     else if HasPrefix line ''!'' \<or> HasPrefix line ''['' then None
     else let policy = (if HasPrefix line ''@@'' then gfwlistPolicyDIRECT else gfwlistPolicyPROXY);
              line = (if HasPrefix line ''@@'' then TrimPrefix line ''@@'' else line) in
       if HasPrefix line ''/'' \<and> HasSuffix line ''/'' \<and> length line > 2 then None
       else if HasPrefix line ''||'' then
         (let host = hostFromBody (trimGFWTail (TrimPrefix line ''||'')) in
          if host \<noteq> [] \<and> hostRE host then Some (''DOMAIN-SUFFIX'', host, policy) else None)
       else if HasPrefix line ''|http://'' \<or> HasPrefix line ''|https://'' then
         (let body = TrimPrefix line ''|'';
              body = (case after_scheme body of Some b \<Rightarrow> b | None \<Rightarrow> body);
              host = hostFromBody body in
          if host \<noteq> [] \<and> hostRE host then Some (''DOMAIN'', host, policy) else None)
       else if HasPrefix line ''*.'' then
         (let body = trimGFWTail (TrimPrefix line ''*.'') in if hostRE body then Some (''DOMAIN-SUFFIX'', body, policy) else None)
       else if HasPrefix line ''.'' then
         (let body = trimGFWTail (TrimPrefix line ''.'') in if hostRE body then Some (''DOMAIN-SUFFIX'', body, policy) else None)
       else let host = hostFromBody (trimGFWTail line) in
         if host = [] then None else if hostRE host then Some (''DOMAIN-KEYWORD'', host, policy) else None)"

definition csv_line :: "string \<times> string \<times> string \<Rightarrow> string" where
  "csv_line r = (case r of (kind, value, policy) \<Rightarrow> kind @ '','' @ value @ '','' @ policy)"

text \<open>\<open>push\<close> with the set \<open>seen\<close> of keys.\<close>

definition push :: "string \<times> string \<times> string \<Rightarrow> string list \<times> string list \<Rightarrow> string list \<times> string list" where
  "push r st = (case (r, st) of ((kind, value, policy), (seen, out)) \<Rightarrow>
     if value = [] then (seen, out)
     else let key = kind @ ''|'' @ value @ ''|'' @ policy in
       if key \<in> set seen then (seen, out) else (key # seen, out @ [csv_line r]))"

definition gfwlistToClash :: "string \<Rightarrow> string list" where
  "gfwlistToClash inp = snd (fold (\<lambda>raw st. case gfw_rule raw of None \<Rightarrow> st | Some r \<Rightarrow> push r st) (Split newline inp) ([], []))"

fun gfw_hits :: "string list \<Rightarrow> nat \<Rightarrow> nat \<Rightarrow> bool" where
  "gfw_hits [] pipeHits commaHits = (pipeHits \<ge> 3 \<and> pipeHits > commaHits)"
| "gfw_hits (l # ls) pipeHits commaHits = (let line = TrimSpace l in
     if line = [] \<or> HasPrefix line ''!'' then gfw_hits ls pipeHits commaHits
     else let pipeHits = (if HasPrefix line ''||'' \<or> HasPrefix line ''|http'' \<or> HasPrefix line ''@@'' then pipeHits + 1 else pipeHits);
              commaHits = (if Contains line '','' then commaHits + 1 else commaHits) in
       if pipeHits \<ge> 3 \<and> commaHits = 0 then True else gfw_hits ls pipeHits commaHits)"

definition looksLikeGFWList :: "string \<Rightarrow> bool" where
  "looksLikeGFWList inp = (if Contains inp ''[AutoProxy'' then True else gfw_hits (Split newline inp) 0 0)"

definition stripAllWhitespace :: "string \<Rightarrow> string" where
  "stripAllWhitespace s = filter (\<lambda>c. \<not> is_space c) s"

definition isBase64Char :: "char \<Rightarrow> bool" where
  "isBase64Char c = (let n = (of_char c :: nat) in (65 \<le> n \<and> n \<le> 90) \<or> (97 \<le> n \<and> n \<le> 122) \<or> (48 \<le> n \<and> n \<le> 57) \<or> c \<in> set ''+/=-_'')"

text \<open>\<open>encoding/base64\<close>: the two alphabets and the padded decoder.\<close>

definition b64_val :: "char \<Rightarrow> char \<Rightarrow> char \<Rightarrow> nat option" where
  "b64_val c62 c63 c = (let n = (of_char c :: nat) in
     if 65 \<le> n \<and> n \<le> 90 then Some (n - 65) else if 97 \<le> n \<and> n \<le> 122 then Some (n - 71)
     else if 48 \<le> n \<and> n \<le> 57 then Some (n + 4) else if c = c62 then Some 62 else if c = c63 then Some 63 else None)"

fun b64_decode :: "(char \<Rightarrow> nat option) \<Rightarrow> string \<Rightarrow> string option" where
  "b64_decode val [] = Some []"
| "b64_decode val (a # b # c # d # s) = (case (val a, val b) of
      (Some x, Some y) \<Rightarrow>
        let v1 = char_of (x * 4 + y div 16) in
        if c = CHR ''='' then (if d = CHR ''='' \<and> s = [] then Some [v1] else None)
        else (case val c of None \<Rightarrow> None
          | Some z \<Rightarrow>
              let v2 = char_of (y mod 16 * 16 + z div 4) in
              if d = CHR ''='' then (if s = [] then Some [v1, v2] else None)
              else (case val d of None \<Rightarrow> None
                | Some w \<Rightarrow> map_option (\<lambda>r. v1 # v2 # char_of (z mod 4 * 64 + w) # r) (b64_decode val s)))
    | _ \<Rightarrow> None)"
| "b64_decode val _ = None"

definition StdDecode :: "string \<Rightarrow> string option" where "StdDecode = b64_decode (b64_val (CHR ''+'') (CHR ''/''))"
definition URLDecode :: "string \<Rightarrow> string option" where "URLDecode = b64_decode (b64_val (CHR ''-'') (CHR ''_''))"

definition decodeIfBase64GFWList :: "string \<Rightarrow> string option" where
  "decodeIfBase64GFWList inp = (let trimmed = stripAllWhitespace inp in
     if length trimmed < 32 then None
     else if \<not> list_all isBase64Char trimmed then None
     else let pad = length trimmed mod 4;
              padded = (if pad \<noteq> 0 then trimmed @ replicate (4 - pad) (CHR ''='') else trimmed) in
       case (case StdDecode padded of Some raw \<Rightarrow> Some raw | None \<Rightarrow> URLDecode padded) of
         None \<Rightarrow> None
       | Some decoded \<Rightarrow> if looksLikeGFWList decoded then Some decoded else None)"

definition mergeUnique :: "string list \<Rightarrow> string list \<Rightarrow> string list" where
  "mergeUnique existing extra = fold (\<lambda>s out. if s \<in> set out then out else out @ [s]) extra existing"

definition Import :: "string \<Rightarrow> ImportLegacyOptions \<Rightarrow> string list \<times> ImportLegacyReport" where
  "Import inp opts = (let inp = (case decodeIfBase64GFWList inp of Some decoded \<Rightarrow> decoded | None \<Rightarrow> inp) in
     if looksLikeGFWList inp then
       (case ImportLegacy (Join (gfwlistToClash inp) [newline]) opts of
          (rules, rep) \<Rightarrow> (rules, rep\<lparr>rep_Categories := mergeUnique (rep_Categories rep) [''gfwlist'']\<rparr>))
     else ImportLegacy inp opts)"

section \<open>Fields of a line\<close>

lemma TrimFunc_id: "TrimFunc p s = s \<longleftrightarrow> s = [] \<or> (\<not> p (hd s) \<and> \<not> p (last s))"
proof
  assume e: "TrimFunc p s = s"
  have "length s \<le> length (dropWhile p s)"
    using arg_cong [OF e, of length] length_dropWhile_le [of p "rev (dropWhile p s)"] by (simp add: TrimFunc_def)
  moreover have "length (takeWhile p s) + length (dropWhile p s) = length s" by (metis length_append takeWhile_dropWhile_id)
  ultimately have "length (takeWhile p s) = 0" by linarith
  then have "takeWhile p s = []" by simp
  then have d: "dropWhile p s = s" using takeWhile_dropWhile_id [of p s] by simp
  then have "dropWhile p (rev s) = rev s" using e by (simp add: TrimFunc_def rev_swap)
  then show "s = [] \<or> (\<not> p (hd s) \<and> \<not> p (last s))" using d by (auto simp: dropWhile_eq_self_iff hd_rev)
next
  assume "s = [] \<or> (\<not> p (hd s) \<and> \<not> p (last s))"
  then have "dropWhile p s = s" "dropWhile p (rev s) = rev s" by (auto simp: dropWhile_eq_self_iff hd_rev)
  then show "TrimFunc p s = s" by (simp add: TrimFunc_def)
qed

lemma csv_loop_plain: "quote \<notin> set s \<Longrightarrow> csv_loop False cur s = (case Split (CHR '','') s of w # ws \<Rightarrow> TrimSpace (cur @ w) # map TrimSpace ws)"
proof (induction s arbitrary: cur)
  case (Cons c s)
  then show ?case by (cases "Split (CHR '','') s") auto
qed simp

lemma csvSplit_plain: "quote \<notin> set s \<Longrightarrow> csvSplit s = map TrimSpace (Split (CHR '','') s)"
  by (cases "Split (CHR '','') s") (simp_all add: csvSplit_def csv_loop_plain)

section \<open>Canonical lines pass unchanged\<close>

definition plain :: "string \<Rightarrow> bool" where
  "plain s = (TrimSpace s = s \<and> list_all (\<lambda>c. c \<noteq> CHR '','' \<and> c \<noteq> quote \<and> c \<noteq> newline) s)"

definition canonical :: "string \<times> string \<times> string \<Rightarrow> bool" where
  "canonical r = (case r of (kind, value, policy) \<Rightarrow>
     kind \<in> set legacyKeep \<and> kind \<noteq> ''IP-CIDR6'' \<and> plain value \<and> plain policy \<and> policy \<noteq> [] \<and> is_word (hd policy) \<and> \<not> modifierRE policy)"

abbreviation no_options :: ImportLegacyOptions where
  "no_options \<equiv> \<lparr>io_KeepCategories = [], io_DirectCategories = []\<rparr>"

lemma keep_plain: "kind \<in> set legacyKeep \<Longrightarrow> plain kind \<and> kind \<noteq> [] \<and> is_word (hd kind) \<and> ToUpper kind = kind \<and>
    kind \<notin> set legacyDrop \<and> kind \<noteq> ''OR'' \<and> kind \<noteq> ''AND'' \<and> kind \<noteq> ''FINAL''"
  by (auto simp: legacyKeep_def legacyDrop_def plain_def TrimSpace_def TrimFunc_id is_space_def is_word_def ToUpper_def upper_char_def)

lemma plain_chars: "plain s \<Longrightarrow> CHR '','' \<notin> set s \<and> quote \<notin> set s \<and> newline \<notin> set s"
  by (auto simp: plain_def list_all_iff)

lemma word_not_symbol: "is_word c \<Longrightarrow> \<not> is_space c \<and> c \<noteq> CHR ''#'' \<and> c \<noteq> CHR '';'' \<and> c \<noteq> CHR ''[''"
  by (auto simp: is_word_def is_space_def Let_def)

lemma Trim_quotes: "plain s \<Longrightarrow> TrimFunc (\<lambda>c. c = quote) s = s"
  unfolding TrimFunc_id using plain_chars [of s] hd_in_set [of s] last_in_set [of s] by metis

lemma normCategory_canonical:
  assumes "plain p" "p \<noteq> []" "is_word (hd p)"
  shows "normCategory p = p"
proof -
  have t: "TrimSpace p = p" using assms(1) by (simp add: plain_def)
  have "leadingSymbols p = p" using assms(2,3) by (cases p) (auto simp: leadingSymbols_def)
  then show ?thesis using assms t by (simp add: normCategory_def Trim_quotes)
qed

lemma TrimSpace_ends: "plain s \<Longrightarrow> s \<noteq> [] \<Longrightarrow> \<not> is_space (hd s) \<and> \<not> is_space (last s)"
  unfolding plain_def TrimSpace_def TrimFunc_id by blast

lemma import_line_canonical:
  assumes "canonical r"
  shows "import_line no_options (csv_line r) st =
    st\<lparr>im_rules := im_rules st @ [csv_line r], im_catSet := List.insert (snd (snd r)) (im_catSet st)\<rparr>"
proof -
  obtain kind val policy where r: "r = (kind, val, policy)" by (cases r) auto
  note c = assms [unfolded r canonical_def prod.case]
  have k: "plain kind" "kind \<noteq> []" "is_word (hd kind)" "ToUpper kind = kind" "kind \<notin> set legacyDrop" "kind \<noteq> ''OR''" "kind \<noteq> ''AND''" "kind \<noteq> ''FINAL''"
    using keep_plain c by blast+
  have v: "plain val" "plain policy" "policy \<noteq> []" "is_word (hd policy)" "\<not> modifierRE policy" using c by auto
  let ?l = "csv_line r"
  have l: "?l = kind @ '','' @ val @ '','' @ policy" by (simp add: csv_line_def r)
  have "hd ?l = hd kind" "last ?l = last policy" using k(2) v(3) by (simp_all add: l)
  then have trim: "TrimSpace ?l = ?l"
    unfolding TrimSpace_def TrimFunc_id using TrimSpace_ends [OF k(1,2)] TrimSpace_ends [OF v(2,3)] by auto
  obtain a t where a: "kind = a # t" using k(2) by (cases kind) auto
  have noskip: "\<not> (?l = [] \<or> HasPrefix ?l ''#'' \<or> HasPrefix ?l '';'' \<or> HasPrefix ?l ''['')"
    using word_not_symbol [of a] k(3) by (auto simp: l a HasPrefix_def)
  have ty: "takeWhile (\<lambda>c. c \<noteq> CHR '','') ?l = kind"
    unfolding l using plain_chars [OF k(1)] by (subst takeWhile_append2) auto
  have tk: "TrimSpace kind = kind" "TrimSpace val = val" "TrimSpace policy = policy" using k v by (auto simp: plain_def)
  have "quote \<notin> set ?l" using plain_chars k(1) v(1,2) by (auto simp: l)
  moreover have "Split (CHR '','') ?l = [kind, val, policy]"
    using plain_chars k(1) v(1,2) by (simp add: l Split_append Split_single)
  ultimately have parts: "csvSplit ?l = [kind, val, policy]" by (simp add: csvSplit_plain tk)
  have cat: "catFn no_options policy = policy"
    using normCategory_canonical v by (simp add: catFn_def)
  show ?thesis
    unfolding import_line_def Let_def trim ty tk k(4) parts
    using noskip k(5-8) c by (simp add: v(5) tk Trim_quotes [OF v(2)] emit_def k(4) cat r csv_line_def)
qed

lemma imports_canonical:
  "list_all canonical rs \<Longrightarrow> fold (import_line no_options) (map csv_line rs) st =
    st\<lparr>im_rules := im_rules st @ map csv_line rs, im_catSet := fold List.insert (map (snd \<circ> snd) rs) (im_catSet st)\<rparr>"
  by (induction rs arbitrary: st) (simp_all add: import_line_canonical)

lemma canonical_newline: "canonical r \<Longrightarrow> newline \<notin> set (csv_line r)"
  using keep_plain plain_chars by (cases r) (fastforce simp: canonical_def csv_line_def)

lemma set_fold_insert: "set (fold List.insert xs ys) = set xs \<union> set ys"
  by (induction xs arbitrary: ys) auto

lemma sort_remdups_eq: "set xs = set ys \<Longrightarrow> sort (remdups xs) = sort (remdups (ys :: 'a::linorder list))"
  by (metis sorted_list_of_set_sort_remdups)

lemma ImportLegacy_canonical:
  assumes "list_all canonical rs"
  shows "ImportLegacy (Join (map csv_line rs) [newline]) no_options =
    (map csv_line rs, \<lparr>rep_Converted = length rs, rep_Dropped = 0, rep_OrFlattened = 0,
       rep_Categories = sort (remdups (map (snd \<circ> snd) rs)), rep_FinalPolicy = []\<rparr>)"
proof (cases "rs = []")
  case True
  then show ?thesis by (simp add: ImportLegacy_def import_line_def import_start_def import_finish_def)
next
  case False
  have "Split newline (Join (map csv_line rs) [newline]) = map csv_line rs"
    using False assms canonical_newline by (intro Split_Join) (auto simp: list_all_iff)
  moreover have "sort (remdups (fold List.insert (map (snd \<circ> snd) rs) [])) = sort (remdups (map (snd \<circ> snd) rs))"
    by (rule sort_remdups_eq) (simp add: set_fold_insert)
  ultimately show ?thesis using assms
    by (simp add: ImportLegacy_def imports_canonical import_start_def import_finish_def Let_def)
qed

section \<open>gfwlist lines\<close>

lemma hostRE_chars:
  assumes "hostRE h"
  shows "plain h" "h \<noteq> []" "CHR ''|'' \<notin> set h"
proof -
  have ls: "list_all (\<lambda>l. l \<noteq> [] \<and> list_all is_host_char l) (Split (CHR ''.'') h)" "2 \<le> length (Split (CHR ''.'') h)"
    using assms by (simp_all add: hostRE_def Let_def)
  have chars: "is_host_char c \<or> c = CHR ''.''" if "c \<in> set h" for c
  proof -
    have "set (Join ws [CHR ''.'']) \<subseteq> (\<Union>w\<in>set ws. set w) \<union> {CHR ''.''}" for ws
      by (induction ws rule: induct_list012) auto
    then have "set h \<subseteq> (\<Union>w\<in>set (Split (CHR ''.'') h). set w) \<union> {CHR ''.''}" by (metis Join_Split)
    then show ?thesis using that ls(1) by (auto simp: list_all_iff)
  qed
  show "h \<noteq> []" using ls(2) by auto
  have sp: "\<not> is_space c \<and> c \<noteq> CHR '','' \<and> c \<noteq> quote \<and> c \<noteq> newline \<and> c \<noteq> CHR ''|''" if "c \<in> set h" for c
    using chars [OF that] by (auto simp: is_host_char_def is_word_def is_space_def Let_def)
  then show "CHR ''|'' \<notin> set h" by blast
  show "plain h" using sp \<open>h \<noteq> []\<close> by (auto simp: plain_def TrimSpace_def TrimFunc_id list_all_iff)
qed

lemma gfw_rule_canonical:
  assumes "gfw_rule raw = Some r"
  shows "canonical r" "fst (snd r) \<noteq> []" "CHR ''|'' \<notin> set (fst r)" "CHR ''|'' \<notin> set (fst (snd r))"
proof -
  obtain kind host policy where r: "r = (kind, host, policy)" by (cases r) auto
  have h: "hostRE host" "kind \<in> {''DOMAIN-SUFFIX'', ''DOMAIN'', ''DOMAIN-KEYWORD''}" "policy \<in> {''Proxy'', ''direct''}"
    using assms unfolding r gfw_rule_def gfwlistPolicyDIRECT_def gfwlistPolicyPROXY_def by (auto simp: Let_def split: if_splits option.splits)
  have p: "plain policy" "is_word (hd policy)" "policy \<noteq> []" "\<not> modifierRE policy"
    using h(3) by (auto simp: plain_def TrimSpace_def TrimFunc_id is_space_def is_word_def modifierRE_def ToLower_def lower_char_def HasPrefix_def)
  show "canonical r" using hostRE_chars [OF h(1)] h(2) p by (auto simp: canonical_def r legacyKeep_def)
  show "fst (snd r) \<noteq> []" "CHR ''|'' \<notin> set (fst r)" "CHR ''|'' \<notin> set (fst (snd r))" using hostRE_chars [OF h(1)] h(2) by (auto simp: r)
qed


text \<open>What the loop keeps: the first of equal rules, in order.\<close>

definition first_occurrences :: "'a list \<Rightarrow> 'a list" where
  "first_occurrences xs = rev (remdups (rev xs))"

lemma first_occurrences_simps [simp]:
  "first_occurrences [] = []"
  "first_occurrences (xs @ [x]) = (if x \<in> set xs then first_occurrences xs else first_occurrences xs @ [x])"
  "set (first_occurrences xs) = set xs" "distinct (first_occurrences xs)"
  by (simp_all add: first_occurrences_def)

definition gfw_rules :: "string \<Rightarrow> (string \<times> string \<times> string) list" where
  "gfw_rules inp = first_occurrences (List.map_filter gfw_rule (Split newline inp))"

definition gfw_key :: "string \<times> string \<times> string \<Rightarrow> string" where
  "gfw_key r = (case r of (kind, value, policy) \<Rightarrow> kind @ ''|'' @ value @ ''|'' @ policy)"

lemma gfw_key_inj:
  assumes "CHR ''|'' \<notin> set (fst r)" "CHR ''|'' \<notin> set (fst (snd r))" "CHR ''|'' \<notin> set (fst r')" "CHR ''|'' \<notin> set (fst (snd r'))" "gfw_key r = gfw_key r'"
  shows "r = r'"
proof -
  have "takeWhile (\<lambda>c. c \<noteq> CHR ''|'') (a @ CHR ''|'' # b) = a" "tl (dropWhile (\<lambda>c. c \<noteq> CHR ''|'') (a @ CHR ''|'' # b)) = b" if "CHR ''|'' \<notin> set a" for a b :: string
    using that by (auto simp: takeWhile_append dropWhile_append)
  then show ?thesis using assms by (cases r; cases r') (auto simp: gfw_key_def; metis)
qed

lemma map_filter_snoc: "List.map_filter f (xs @ [x]) = List.map_filter f xs @ (case f x of None \<Rightarrow> [] | Some y \<Rightarrow> [y])"
  by (simp add: map_filter_def split: option.split)

lemma gfw_loop:
  "fold (\<lambda>raw st. case gfw_rule raw of None \<Rightarrow> st | Some r \<Rightarrow> push r st) lines ([], []) =
    (rev (map gfw_key (first_occurrences (List.map_filter gfw_rule lines))), map csv_line (first_occurrences (List.map_filter gfw_rule lines)))"
proof (induction lines rule: rev_induct)
  case (snoc raw lines)
  let ?rs = "List.map_filter gfw_rule lines"
  show ?case
  proof (cases "gfw_rule raw")
    case None
    then show ?thesis using snoc.IH by (simp add: map_filter_snoc)
  next
    case (Some r)
    have keys: "gfw_key r \<in> gfw_key ` set ?rs \<longleftrightarrow> r \<in> set ?rs"
    proof -
      have "r' = r" if "r' \<in> set ?rs" "gfw_key r = gfw_key r'" for r'
        using that gfw_key_inj [of r' r] gfw_rule_canonical(3,4) Some by (auto simp: map_filter_def)
      then show ?thesis by auto
    qed
    obtain k v p where r: "r = (k, v, p)" by (cases r) auto
    have v: "v \<noteq> []" using gfw_rule_canonical(2) [OF Some] by (simp add: r)
    have "push r (rev (map gfw_key (first_occurrences ?rs)), map csv_line (first_occurrences ?rs)) =
        (rev (map gfw_key (first_occurrences (?rs @ [r]))), map csv_line (first_occurrences (?rs @ [r])))"
      using keys v by (auto simp: push_def r gfw_key_def)
    then show ?thesis using snoc.IH Some by (simp add: map_filter_snoc)
  qed
qed (simp add: map_filter_def)

lemma gfwlistToClash_eq: "gfwlistToClash inp = map csv_line (gfw_rules inp)"
  by (simp add: gfwlistToClash_def gfw_loop gfw_rules_def)

lemma gfw_rules_canonical: "list_all canonical (gfw_rules inp)"
  using gfw_rule_canonical(1) by (auto simp: gfw_rules_def list_all_iff map_filter_def)

section \<open>Base64 bodies\<close>

text \<open>A gfwlist body holds a character outside the base64 alphabet, so it is never itself taken for base64.\<close>

lemma Split_subset: "w \<in> set (Split c s) \<Longrightarrow> set w \<subseteq> set s"
proof (induction s arbitrary: w)
  case (Cons x s)
  then show ?case by (cases "Split c s") (fastforce split: if_splits)+
qed simp

lemma no_gfw_hits:
  "\<forall>l\<in>set ls. CHR ''|'' \<notin> set l \<and> CHR ''@'' \<notin> set l \<Longrightarrow> gfw_hits ls 0 c = False"
proof (induction ls arbitrary: c)
  case (Cons l ls)
  have "CHR ''|'' \<notin> set (TrimSpace l)" "CHR ''@'' \<notin> set (TrimSpace l)" using Cons.prems TrimSpace_subset [of l] by auto
  then have "\<not> HasPrefix (TrimSpace l) ''||''" "\<not> HasPrefix (TrimSpace l) ''|http''" "\<not> HasPrefix (TrimSpace l) ''@@''"
    by (auto simp: HasPrefix_def prefix_def)
  then show ?case using Cons by (simp add: Let_def)
qed simp

lemma gfwlist_not_base64: "looksLikeGFWList inp \<Longrightarrow> decodeIfBase64GFWList inp = None"
proof (rule ccontr)
  assume l: "looksLikeGFWList inp" and "decodeIfBase64GFWList inp \<noteq> None"
  then have "list_all isBase64Char (stripAllWhitespace inp)"
    by (auto simp: decodeIfBase64GFWList_def Let_def split: if_splits)
  then have c: "is_space c \<or> isBase64Char c" if "c \<in> set inp" for c using that by (auto simp: stripAllWhitespace_def list_all_iff)
  have no: "CHR ''|'' \<notin> set inp" "CHR ''@'' \<notin> set inp" "CHR ''['' \<notin> set inp"
    using c [of "CHR ''|''"] c [of "CHR ''@''"] c [of "CHR ''[''"] by (auto simp: is_space_def isBase64Char_def)
  have "\<not> Contains inp ''[AutoProxy''" using no(3) unfolding Contains_def by (auto dest: set_mono_sublist)
  moreover have "gfw_hits (Split newline inp) 0 0 = False" using no Split_subset by (intro no_gfw_hits) blast
  ultimately show False using l by (simp add: looksLikeGFWList_def)
qed

text \<open>The standard encoding, as the reference.\<close>

definition b64_char :: "nat \<Rightarrow> char" where
  "b64_char n = (if n < 26 then char_of (n + 65) else if n < 52 then char_of (n + 71) else if n < 62 then char_of (n - 4)
     else if n = 62 then CHR ''+'' else CHR ''/'')"

fun b64_encode :: "string \<Rightarrow> string" where
  "b64_encode [] = []"
| "b64_encode [a] = (let x = of_char a in [b64_char (x div 4), b64_char (x mod 4 * 16), CHR ''='', CHR ''=''])"
| "b64_encode [a, b] = (let x = of_char a; y = of_char b in
     [b64_char (x div 4), b64_char (x mod 4 * 16 + y div 16), b64_char (y mod 16 * 4), CHR ''=''])"
| "b64_encode (a # b # c # s) = (let x = of_char a; y = of_char b; z = of_char c in
     b64_char (x div 4) # b64_char (x mod 4 * 16 + y div 16) # b64_char (y mod 16 * 4 + z div 64) # b64_char (z mod 64) # b64_encode s)"

lemma b64_val_char: "n < 64 \<Longrightarrow> b64_val (CHR ''+'') (CHR ''/'') (b64_char n) = Some n"
  by (auto simp: b64_val_def b64_char_def Let_def)

lemma b64_char_alphabet:
  assumes "n < 64"
  shows "b64_char n \<noteq> CHR ''=''" "isBase64Char (b64_char n)" "\<not> is_space (b64_char n)"
proof -
  have "of_char (b64_char n) \<noteq> (61 :: nat)" using assms by (auto simp: b64_char_def)
  then show "b64_char n \<noteq> CHR ''=''" by auto
  show "isBase64Char (b64_char n)" "\<not> is_space (b64_char n)" using assms by (auto simp: b64_char_def isBase64Char_def is_space_def Let_def)
qed

lemma char_bound: "of_char c < (256 :: nat)"
  by (metis char_of_def of_char_of of_char_mod_256 mod_less_divisor zero_less_numeral)


lemma sextets:
  "of_char a div 4 < (64 :: nat)" "of_char a mod 4 * 16 < (64 :: nat)" "of_char a mod 4 * 16 + of_char b div 16 < (64 :: nat)"
  "of_char a mod 16 * 4 < (64 :: nat)" "of_char a mod 16 * 4 + of_char b div 64 < (64 :: nat)" "of_char a mod 64 < (64 :: nat)"
proof -
  have q: "of_char c div 4 < (64 :: nat)" "of_char c div 16 < (16 :: nat)" "of_char c div 64 < (4 :: nat)" for c
    using char_bound [of c] by (simp_all add: less_mult_imp_div_less)
  have m: "of_char a mod 4 \<le> (3 :: nat)" "of_char a mod 16 \<le> (15 :: nat)"
    using mod_less_divisor [of 4 "of_char a"] mod_less_divisor [of 16 "of_char a"] by linarith+
  show "of_char a div 4 < (64 :: nat)" "of_char a mod 4 * 16 < (64 :: nat)" "of_char a mod 16 * 4 < (64 :: nat)" "of_char a mod 64 < (64 :: nat)"
    using q m by simp_all
  show "of_char a mod 4 * 16 + of_char b div 16 < (64 :: nat)" using q(2) [of b] m(1) by linarith
  show "of_char a mod 16 * 4 + of_char b div 64 < (64 :: nat)" using q(3) [of b] m(2) by linarith
qed

lemmas b64_digits = b64_val_char b64_char_alphabet(1)

lemma char_pieces:
  "of_char c div 16 div 16 = (0 :: nat)" "of_char c div 64 div 4 = (0 :: nat)"
  "of_char c div 16 mod 16 * 16 + of_char c mod 16 = (of_char c :: nat)" "of_char c div 64 mod 4 * 64 + of_char c mod 64 = (of_char c :: nat)"
proof -
  have "of_char c < (256 :: nat)" by (rule char_bound)
  then have q: "of_char c div 16 < (16 :: nat)" "of_char c div 64 < (4 :: nat)" by (simp_all add: less_mult_imp_div_less)
  then show "of_char c div 16 div 16 = (0 :: nat)" "of_char c div 64 div 4 = (0 :: nat)" by simp_all
  show "of_char c div 16 mod 16 * 16 + of_char c mod 16 = (of_char c :: nat)" "of_char c div 64 mod 4 * 64 + of_char c mod 64 = (of_char c :: nat)"
    unfolding mod_less [OF q(1)] mod_less [OF q(2)] by simp_all
qed

lemma StdDecode_encode: "StdDecode (b64_encode s) = Some s"
  by (induction s rule: b64_encode.induct) (simp_all add: StdDecode_def Let_def b64_digits sextets char_pieces)

lemma encode_shape:
  "\<exists>e k. b64_encode s = e @ replicate k (CHR ''='') \<and> k < 4 \<and> (length e + k) mod 4 = 0 \<and> 3 * length e \<ge> 4 * length s \<and>
     list_all (\<lambda>c. isBase64Char c \<and> \<not> is_space c \<and> c \<noteq> CHR ''='') e"
proof (induction s rule: b64_encode.induct)
  case 1
  show ?case by (intro exI [of _ "[]"] exI [of _ 0]) simp
next
  case (2 a)
  show ?case by (rule exI [of _ "[b64_char (of_char a div 4), b64_char (of_char a mod 4 * 16)]"], rule exI [of _ 2])
    (simp add: Let_def numeral_2_eq_2 b64_char_alphabet sextets)
next
  case (3 a b)
  show ?case
    by (rule exI [of _ "[b64_char (of_char a div 4), b64_char (of_char a mod 4 * 16 + of_char b div 16), b64_char (of_char b mod 16 * 4)]"], rule exI [of _ 1])
      (simp add: Let_def b64_char_alphabet sextets)
next
  case (4 a b c s)
  let ?q = "[b64_char (of_char a div 4), b64_char (of_char a mod 4 * 16 + of_char b div 16), b64_char (of_char b mod 16 * 4 + of_char c div 64), b64_char (of_char c mod 64)]"
  obtain e k where e: "b64_encode s = e @ replicate k (CHR ''='')" "k < 4" "(length e + k) mod 4 = 0" "3 * length e \<ge> 4 * length s"
    "list_all (\<lambda>c. isBase64Char c \<and> \<not> is_space c \<and> c \<noteq> CHR ''='') e" using 4 [OF refl refl refl] by (elim exE conjE) (rule that)
  then show ?case by (intro exI [of _ "?q @ e"] exI [of _ k]) (simp add: Let_def b64_char_alphabet sextets)
qed

lemma decode_of_encoded:
  assumes "stripAllWhitespace t = b64_encode body \<or> stripAllWhitespace t = takeWhile (\<lambda>c. c \<noteq> CHR ''='') (b64_encode body)"
    and "24 \<le> length body" "looksLikeGFWList body"
  shows "decodeIfBase64GFWList t = Some body"
proof -
  obtain e k where e: "b64_encode body = e @ replicate k (CHR ''='')" "k < 4" "(length e + k) mod 4 = 0" "3 * length e \<ge> 4 * length body"
    "list_all (\<lambda>c. isBase64Char c \<and> \<not> is_space c \<and> c \<noteq> CHR ''='') e" using encode_shape [of body] by (elim exE conjE) (rule that)
  let ?t = "stripAllWhitespace t"
  have tw: "takeWhile (\<lambda>c. c \<noteq> CHR ''='') (b64_encode body) = e"
    unfolding e(1) using e(5) by (subst takeWhile_append2) (auto simp: list_all_iff takeWhile_replicate)
  define j where "j = (if ?t = b64_encode body then k else 0)"
  have t: "?t = e @ replicate j (CHR ''='')" "j = k \<or> j = 0" using assms(1) unfolding tw j_def by (auto simp: e(1))
  have len: "\<not> length ?t < 32" using e(4) assms(2) t(1) by simp
  have "isBase64Char (CHR ''='')" by (simp add: isBase64Char_def)
  then have chars: "list_all isBase64Char ?t" using e(5) unfolding t(1) list_all_iff by (simp add: ball_Un)
  have pad: "(if length ?t mod 4 \<noteq> 0 then ?t @ replicate (4 - length ?t mod 4) (CHR ''='') else ?t) = b64_encode body"
  proof (cases "j = k")
    case True
    then show ?thesis using e(1,3) t(1) by simp
  next
    case False
    then have j: "j = 0" "k \<noteq> 0" using t(2) by auto
    have "length e mod 4 = 4 - k" using e(2,3) j(2) by presburger
    then show ?thesis using j e(1,2) t(1) by simp
  qed
  show ?thesis unfolding decodeIfBase64GFWList_def Let_def pad using len chars assms(3) by (simp add: StdDecode_encode)
qed

section \<open>Properties\<close>


definition sample_gfw :: string where
  "sample_gfw = ''||a.com^'' @ [newline] @ ''@@||b.org/x'' @ [newline] @ ''||a.com'' @ [newline] @ ''/re/''"

lemma sample_gfw_facts:
  "looksLikeGFWList sample_gfw"
  "gfw_rules sample_gfw = [(''DOMAIN-SUFFIX'', ''a.com'', ''Proxy''), (''DOMAIN-SUFFIX'', ''b.org'', ''direct'')]"
  by code_simp+


text \<open>Base64 is transparent.  A body that is the standard base64 encoding of a gfwlist, with or without its padding
  and with any white space in between, imports exactly as the gfwlist itself.\<close>

theorem base64_transparent:
  assumes "stripAllWhitespace t = b64_encode body \<or> stripAllWhitespace t = takeWhile (\<lambda>c. c \<noteq> CHR ''='') (b64_encode body)"
    and "24 \<le> length body" "looksLikeGFWList body"
  shows "Import t opts = Import body opts"
  using decode_of_encoded [OF assms] gfwlist_not_base64 [OF assms(3)] by (simp add: Import_def)

theorem base64_transparent_witness:
  "fst (Import (b64_encode sample_gfw @ [newline]) no_options) = [''DOMAIN-SUFFIX,a.com,Proxy'', ''DOMAIN-SUFFIX,b.org,direct'']"
proof -
  have s: "stripAllWhitespace (b64_encode sample_gfw @ [newline]) = b64_encode sample_gfw" by code_simp
  have l: "24 \<le> length sample_gfw" by (simp add: sample_gfw_def)
  have c: "fst (Import sample_gfw no_options) = map csv_line (gfw_rules sample_gfw)"
    using gfwlist_not_base64 [OF sample_gfw_facts(1)] sample_gfw_facts(1) ImportLegacy_canonical [OF gfw_rules_canonical [of sample_gfw]]
    by (simp add: Import_def gfwlistToClash_eq)
  show ?thesis unfolding base64_transparent [OF disjI1 [OF s] l sample_gfw_facts(1), of no_options] c
    using sample_gfw_facts by (simp add: csv_line_def)
qed

section \<open>Two divergences\<close>

text \<open>The host pattern of the gfwlist reader accepts IPv4 literals, which its comment says it rejects.\<close>

lemma gfw_accepts_ip_literal: "gfwlistToClash ''||1.2.3.4^'' = [''DOMAIN-SUFFIX,1.2.3.4,Proxy'']"
  by code_simp

text \<open>A quoted field that holds a comma is unquoted and written back without quotes, so the comma becomes a separator of
  the produced line.\<close>

lemma quoted_comma_leaks: "fst (ImportLegacy (''DOMAIN,'' @ [quote] @ ''a,b'' @ [quote] @ '',X'') no_options) = [''DOMAIN,a,b,X'']"
  by code_simp

end
