(* ===== verification/Netguard.thy ===== *)
theory Netguard
  imports NetAddr
begin

unbundle bit_operations_syntax

text \<open>
  The outbound policy for user-controlled destinations: \<open>internal/netguard/netguard.go\<close>.  The resolver and the
  dialer are parameters; every operation also returns what it asked them, so that the theorems can speak of the
  lookups made and the addresses dialled.  A URL arrives parsed by \<open>net/url\<close>.
\<close>

section \<open>Address classes (\<open>net/netip\<close>)\<close>

definition Addr_IsMulticast :: "Addr \<Rightarrow> bool" where
  "Addr_IsMulticast a = (case a of AddrInvalid \<Rightarrow> False
     | Addr4 w \<Rightarrow> drop_bit 28 w = 0xE
     | Addr6 w z \<Rightarrow> if drop_bit 32 w = 0xFFFF then drop_bit 28 (ucast w :: 32 word) = 0xE else drop_bit 120 w = 0xFF)"

definition Addr_IsLinkLocalUnicast :: "Addr \<Rightarrow> bool" where
  "Addr_IsLinkLocalUnicast a = (case a of AddrInvalid \<Rightarrow> False
     | Addr4 w \<Rightarrow> drop_bit 16 w = 0xA9FE
     | Addr6 w z \<Rightarrow> if drop_bit 32 w = 0xFFFF then drop_bit 16 (ucast w :: 32 word) = 0xA9FE else drop_bit 118 w = 0x3FA)"

definition Addr_IsUnspecified :: "Addr \<Rightarrow> bool" where
  "Addr_IsUnspecified a = (a = Addr4 0 \<or> a = Addr6 0 [])"

definition Addr_IsPrivate :: "Addr \<Rightarrow> bool" where
  "Addr_IsPrivate a = (case Addr_Unmap a of AddrInvalid \<Rightarrow> False
     | Addr4 w \<Rightarrow> drop_bit 24 w = 10 \<or> drop_bit 20 w = 0xAC1 \<or> drop_bit 16 w = 0xC0A8
     | Addr6 w z \<Rightarrow> drop_bit 121 w = 0x7E)"

definition Addr_IsGlobalUnicast :: "Addr \<Rightarrow> bool" where
  "Addr_IsGlobalUnicast a = (case Addr_Unmap a of AddrInvalid \<Rightarrow> False
     | b \<Rightarrow> b \<noteq> Addr4 0 \<and> b \<noteq> Addr4 0xFFFFFFFF \<and> b \<noteq> Addr6 0 [] \<and>
         \<not> Addr_IsLoopback b \<and> \<not> Addr_IsMulticast b \<and> \<not> Addr_IsLinkLocalUnicast b)"

section \<open>Policy\<close>

definition carrierGradeNAT :: Prefix where
  "carrierGradeNAT = \<lparr>pfx_ip = Addr4 0x64400000, pfx_bits = 10\<rparr>"

definition IsPublicIP :: "IP \<Rightarrow> bool" where
  "IsPublicIP ip = (case AddrFromSlice ip of None \<Rightarrow> False
     | Some addr \<Rightarrow> let addr = Addr_Unmap addr in
         if \<not> Addr_IsValid addr \<or> \<not> Addr_IsGlobalUnicast addr \<or> Addr_IsPrivate addr \<or>
            Addr_IsLoopback addr \<or> Addr_IsLinkLocalUnicast addr \<or> Addr_IsUnspecified addr then False
         else \<not> Prefix_Contains carrierGradeNAT addr)"

datatype guard_error = EmptyHostname | NotPublic string | ResolveFailed string | NoAddresses | ResolvedNonPublic string IP
  | InvalidDestination string | DialFailed string | InvalidURL | BadScheme | NoHostname | CredentialsNotAllowed | TooManyRedirects

record URL =
  u_Scheme :: string
  u_Hostname :: string
  u_User :: "string option"

text \<open>\<open>parsed\<close> is what \<open>url.Parse\<close> returns for the trimmed text.\<close>

definition ValidateHTTPURL :: "URL option \<Rightarrow> (guard_error, URL) result" where
  "ValidateHTTPURL parsed = (case parsed of None \<Rightarrow> Inl InvalidURL
     | Some u \<Rightarrow>
         if u_Scheme u \<noteq> ''http'' \<and> u_Scheme u \<noteq> ''https'' then Inl BadScheme
         else if u_Hostname u = [] then Inl NoHostname
         else if u_User u \<noteq> None then Inl CredentialsNotAllowed
         else Inr u)"

fun check_addrs :: "string \<Rightarrow> IP list \<Rightarrow> (guard_error, IP list) result" where
  "check_addrs host [] = Inr []"
| "check_addrs host (a # as) = (if \<not> IsPublicIP a then Inl (ResolvedNonPublic host a)
     else case check_addrs host as of Inl e \<Rightarrow> Inl e | Inr out \<Rightarrow> Inr (a # out))"

text \<open>The names looked up are the second result.\<close>

definition ResolvePublic :: "(string \<Rightarrow> IP list option) \<Rightarrow> string \<Rightarrow> (guard_error, IP list) result \<times> string list" where
  "ResolvePublic lookup host = (let host = TrimSpace (TrimSuffix host ''.'') in
     if host = [] then (Inl EmptyHostname, [])
     else case ParseIP host of
         Some literal \<Rightarrow> if \<not> IsPublicIP literal then (Inl (NotPublic host), []) else (Inr [literal], [])
       | None \<Rightarrow> (case lookup host of
             None \<Rightarrow> (Inl (ResolveFailed host), [host])
           | Some addrs \<Rightarrow> if addrs = [] then (Inl NoAddresses, [host]) else (check_addrs host addrs, [host])))"

text \<open>The dialer gets the address literal \<open>ip\<close> and the port; the second result is the addresses it was given.\<close>

fun dial_loop :: "(IP \<Rightarrow> string \<Rightarrow> 'c option) \<Rightarrow> string \<Rightarrow> IP list \<Rightarrow> 'c option \<times> IP list" where
  "dial_loop dial port [] = (None, [])"
| "dial_loop dial port (ip # ips) = (case dial ip port of
      Some conn \<Rightarrow> (Some conn, [ip])
    | None \<Rightarrow> (case dial_loop dial port ips of (r, tried) \<Rightarrow> (r, ip # tried)))"

definition DialPublicContext :: "(string \<Rightarrow> IP list option) \<Rightarrow> (IP \<Rightarrow> string \<Rightarrow> 'c option) \<Rightarrow> string \<Rightarrow>
    (guard_error, 'c) result \<times> string list \<times> IP list" where
  "DialPublicContext lookup dial address = (case SplitHostPort address of
      None \<Rightarrow> (Inl (InvalidDestination address), [], [])
    | Some (host, port) \<Rightarrow> (case ResolvePublic lookup host of
          (Inl e, asked) \<Rightarrow> (Inl e, asked, [])
        | (Inr ips, asked) \<Rightarrow> (case dial_loop dial port ips of
              (Some conn, tried) \<Rightarrow> (Inr conn, asked, tried)
            | (None, tried) \<Rightarrow> (Inl (DialFailed address), asked, tried))))"

definition maxRedirects :: nat where "maxRedirects = 10"

definition CheckRedirect :: "URL option \<Rightarrow> nat \<Rightarrow> guard_error option" where
  "CheckRedirect parsed via = (if maxRedirects \<le> via then Some TooManyRedirects
     else case ValidateHTTPURL parsed of Inl e \<Rightarrow> Some e | Inr _ \<Rightarrow> None)"

section \<open>Which addresses count as public\<close>

lemma addr4_eq: "drop_bit n (w :: 32 word) = v \<longleftrightarrow> unat w div 2 ^ n = unat v"
proof -
  have "unat w < 2 ^ LENGTH(32)" by (rule unsigned_less)
  then have lt: "unat w mod 4294967296 = unat w" by simp
  have "drop_bit n w = v \<longleftrightarrow> unat (drop_bit n w) = unat v" by (simp only: word_unat_eq_iff)
  then show ?thesis by (simp only: unsigned_drop_bit_eq) (simp add: drop_bit_eq_div take_bit_eq_mod lt)
qed

lemma unat_mapped:
  "unat (word_of_bytes (map unat (v4InV6Prefix @ [a, b, c, d])) :: 128 word) =
    0xFFFF * 4294967296 + unat (word_of_bytes [unat a, unat b, unat c, unat d] :: 32 word)"
proof -
  have "replicate 10 (0 :: byte) = [0, 0, 0, 0, 0, 0, 0, 0, 0, 0]" by (simp add: numeral_eq_Suc)
  moreover have "unat (0xFF :: byte) = 255" by simp
  ultimately have l: "map unat (v4InV6Prefix @ [a, b, c, d]) = [0, 0, 0, 0, 0, 0, 0, 0, 0, 0, 255, 255, unat a, unat b, unat c, unat d]"
    by (simp add: v4InV6Prefix_def)
  show ?thesis unfolding l unat_octets
    using unat_word_of_bytes [of "[0, 0, 0, 0, 0, 0, 0, 0, 0, 0, 255, 255, unat a, unat b, unat c, unat d]", where 'a = 128] by (simp add: unat_byte)
qed

lemma unmap_mapped:
  "AddrFromSlice (v4InV6Prefix @ [a, b, c, d]) = Some (Addr6 (word_of_bytes (map unat (v4InV6Prefix @ [a, b, c, d]))) [])"
  "Addr_Unmap (Addr6 (word_of_bytes (map unat (v4InV6Prefix @ [a, b, c, d]))) []) = Addr4 (word_of_bytes [unat a, unat b, unat c, unat d])"
proof -
  let ?w = "word_of_bytes (map unat (v4InV6Prefix @ [a, b, c, d])) :: 128 word" and ?v = "word_of_bytes [unat a, unat b, unat c, unat d] :: 32 word"
  have "unat ?v < 2 ^ LENGTH(32)" by (rule unsigned_less)
  then have lt: "unat ?v < 4294967296" by simp
  have w: "unat ?w = 0xFFFF * 4294967296 + unat ?v" by (rule unat_mapped)
  have "unat (drop_bit 32 ?w) = 0xFFFF" using lt by (simp only: unsigned_drop_bit_eq w) (simp add: drop_bit_eq_div take_bit_eq_mod)
  then have "drop_bit 32 ?w = 0xFFFF" by (simp add: word_unat_eq_iff)
  moreover have "unat (ucast ?w :: 32 word) = unat ?v"
    unfolding unsigned_ucast_eq w take_bit_eq_mod using lt mod_mult_self3 [of 65535 4294967296 "unat ?v"] by simp
  ultimately show "Addr_Unmap (Addr6 ?w []) = Addr4 ?v" by (simp add: Addr_Unmap_def word_unat_eq_iff del: map_append)
qed (simp add: AddrFromSlice_def v4InV6Prefix_def)

lemma mapped_from_slice: "IsPublicIP (v4InV6Prefix @ [a, b, c, d]) = IsPublicIP [a, b, c, d]"
  unfolding IsPublicIP_def unmap_mapped option.case Let_def by (simp add: AddrFromSlice_def Addr_Unmap_def)

lemma public4:
  "IsPublicIP [a, b, c, d] \<longleftrightarrow> (let n = unat (word_of_bytes [unat a, unat b, unat c, unat d] :: 32 word) in
     n \<noteq> 0 \<and> n \<noteq> 4294967295 \<and> 10 \<noteq> n div 16777216 \<and> 127 \<noteq> n div 16777216 \<and> 2753 \<noteq> n div 1048576 \<and> 49320 \<noteq> n div 65536 \<and> n div 65536 \<noteq> 43518 \<and>
     n div 268435456 \<noteq> 14 \<and> n div 4194304 \<noteq> 401)"
proof -
  have v: "v = 0 \<longleftrightarrow> unat v = 0" "v = 0xFFFFFFFF \<longleftrightarrow> unat v = 4294967295" for v :: "32 word" by (simp_all add: word_unat_eq_iff)
  show ?thesis
    by (simp add: IsPublicIP_def AddrFromSlice_def Addr_Unmap_def Addr_IsValid_def Addr_IsGlobalUnicast_def Addr_IsPrivate_def Addr_IsLoopback_def
     Addr_IsMulticast_def Addr_IsLinkLocalUnicast_def Addr_IsUnspecified_def carrierGradeNAT_def contains4 addr4_eq Let_def v) auto
qed

lemma public6:
  assumes "length ip = 16" "take 12 ip \<noteq> v4InV6Prefix" "w = word_of_bytes (map unat ip)" "drop_bit 32 w \<noteq> 0xFFFF"
  shows "IsPublicIP ip \<longleftrightarrow> w \<noteq> 0 \<and> w \<noteq> (1 :: 128 word) \<and> drop_bit 120 w \<noteq> 0xFF \<and> drop_bit 118 w \<noteq> 0x3FA \<and> drop_bit 121 w \<noteq> 0x7E"
  using assms by (simp add: IsPublicIP_def AddrFromSlice_def Addr_Unmap_def Addr_IsValid_def Addr_IsGlobalUnicast_def Addr_IsPrivate_def Addr_IsLoopback_def
     Addr_IsMulticast_def Addr_IsLinkLocalUnicast_def Addr_IsUnspecified_def carrierGradeNAT_def Prefix_Contains_def Let_def) blast


lemma octet_ranges:
  fixes ua ub uc ud :: nat
  assumes "n = ua * 16777216 + ub * 65536 + uc * 256 + ud" "ua \<le> 255" "ub \<le> 255" "uc \<le> 255" "ud \<le> 255"
  shows "n div 268435456 = 14 \<longleftrightarrow> 224 \<le> ua \<and> ua \<le> 239" "n div 4194304 = 401 \<longleftrightarrow> ua = 100 \<and> 64 \<le> ub \<and> ub \<le> 127"
    "n = 4294967295 \<longleftrightarrow> ua = 255 \<and> ub = 255 \<and> uc = 255 \<and> ud = 255"
    "n div 65536 = 43518 \<longleftrightarrow> ua = 169 \<and> ub = 254"
proof -
  have "n div 268435456 = n div 16777216 div 16" "n div 4194304 = n div 65536 div 64" by (simp_all add: div_mult2_eq [symmetric])
  then have d: "n div 268435456 = ua div 16" "n div 4194304 = (ua * 256 + ub) div 64" "n div 65536 = ua * 256 + ub"
    using octet_divs [OF assms(2-5,1)] by simp_all
  show "n div 268435456 = 14 \<longleftrightarrow> 224 \<le> ua \<and> ua \<le> 239" unfolding d by auto
  define q where "q = ub div 64"
  have q: "q < 4" using assms(3) by (simp add: q_def less_mult_imp_div_less)
  have e: "n div 4194304 = ua * 4 + q" unfolding q_def d by simp
  have "n div 4194304 = 401 \<longleftrightarrow> ua = 100 \<and> q = 1" unfolding e using q by presburger
  also have "\<dots> \<longleftrightarrow> ua = 100 \<and> 64 \<le> ub \<and> ub \<le> 127" unfolding q_def by auto
  finally show "n div 4194304 = 401 \<longleftrightarrow> ua = 100 \<and> 64 \<le> ub \<and> ub \<le> 127" .
  show "n div 65536 = 43518 \<longleftrightarrow> ua = 169 \<and> ub = 254" unfolding d using assms(3) by presburger
  show "n = 4294967295 \<longleftrightarrow> ua = 255 \<and> ub = 255 \<and> uc = 255 \<and> ud = 255" unfolding assms(1) using assms(2-5) by (intro iffI conjI; (elim conjE)?; linarith)
qed

definition special4 :: "byte \<Rightarrow> byte \<Rightarrow> byte \<Rightarrow> byte \<Rightarrow> bool" where
  "special4 a b c d = (a = 10 \<or> a = 127 \<or> (a = 100 \<and> 64 \<le> b \<and> b \<le> 127) \<or> (a = 169 \<and> b = 254) \<or>
     (a = 172 \<and> 16 \<le> b \<and> b \<le> 31) \<or> (a = 192 \<and> b = 168) \<or> (224 \<le> a \<and> a \<le> 239) \<or>
     (a = 0 \<and> b = 0 \<and> c = 0 \<and> d = 0) \<or> (a = 255 \<and> b = 255 \<and> c = 255 \<and> d = 255))"

lemma special4_unat:
  "special4 a b c d \<longleftrightarrow> (let ua = unat a; ub = unat b; uc = unat c; ud = unat d in
     ua = 10 \<or> ua = 127 \<or> (ua = 100 \<and> 64 \<le> ub \<and> ub \<le> 127) \<or> (ua = 169 \<and> ub = 254) \<or>
     (ua = 172 \<and> 16 \<le> ub \<and> ub \<le> 31) \<or> (ua = 192 \<and> ub = 168) \<or> (224 \<le> ua \<and> ua \<le> 239) \<or>
     (ua = 0 \<and> ub = 0 \<and> uc = 0 \<and> ud = 0) \<or> (ua = 255 \<and> ub = 255 \<and> uc = 255 \<and> ud = 255))"
  by (simp add: special4_def word_unat_eq_iff word_le_nat_alt Let_def)

lemma public_exactly:
  "IsPublicIP [a, b, c, d] \<longleftrightarrow> \<not> special4 a b c d"
  "IsPublicIP (v4InV6Prefix @ [a, b, c, d]) \<longleftrightarrow> \<not> special4 a b c d"
proof -
  let ?n = "unat (word_of_bytes [unat a, unat b, unat c, unat d] :: 32 word)"
  note r = octet_ranges [OF unat_octets unat_byte(2) unat_byte(2) unat_byte(2) unat_byte(2), of a b c d]
  note v = octet_divs [OF unat_byte(2) unat_byte(2) unat_byte(2) unat_byte(2) unat_octets, of a b c d]
  have z: "?n = 0 \<longleftrightarrow> unat a = 0 \<and> unat b = 0 \<and> unat c = 0 \<and> unat d = 0" unfolding unat_octets by auto
  note w = default_v4 [OF unat_octets unat_byte(2) unat_byte(2) unat_byte(2) unat_byte(2), of a b c d]
  show 1: "IsPublicIP [a, b, c, d] \<longleftrightarrow> \<not> special4 a b c d"
    unfolding public4 special4_unat Let_def by (simp only: r z w) blast
  then show "IsPublicIP (v4InV6Prefix @ [a, b, c, d]) \<longleftrightarrow> \<not> special4 a b c d" by (simp only: mapped_from_slice)
qed


text \<open>What counts as public.  An IPv4 address, given as four bytes or in the mapped sixteen-byte form, passes the
  outbound policy exactly when it is outside 10/8, 127/8, 100.64/10, 169.254/16, 172.16/12, 192.168/16, 224/4 and is
  neither 0.0.0.0 nor 255.255.255.255; a nil slice never passes.\<close>

theorem public_ipv4_exactly:
  "(IsPublicIP [a, b, c, d] \<longleftrightarrow> \<not> special4 a b c d) \<and> (IsPublicIP (v4InV6Prefix @ [a, b, c, d]) \<longleftrightarrow> \<not> special4 a b c d) \<and> \<not> IsPublicIP []"
  using public_exactly by (simp add: IsPublicIP_def AddrFromSlice_def)

text \<open>Reserved blocks outside that list count as public: "this network" 0/8 but for 0.0.0.0, benchmarking 198.18/15,
  documentation 192.0.2/24 and class E 240/4.\<close>

lemma reserved_counted_public:
  "IsPublicIP [0, 1, 2, 3]" "IsPublicIP [198, 18, 0, 1]" "IsPublicIP [192, 0, 2, 1]" "IsPublicIP [240, 0, 0, 1]"
  by (simp_all add: public_exactly special4_unat)

section \<open>Lookups and dials\<close>

lemma check_addrs_ok: "check_addrs host as = Inr out \<longleftrightarrow> out = as \<and> list_all IsPublicIP as"
proof -
  have "check_addrs host as = (case find (\<lambda>a. \<not> IsPublicIP a) as of None \<Rightarrow> Inr as | Some a \<Rightarrow> Inl (ResolvedNonPublic host a))"
    by (induction as) (simp_all split: option.split)
  then show ?thesis by (cases "find (\<lambda>a. \<not> IsPublicIP a) as") (auto simp: find_None_iff find_Some_iff list_all_iff intro: nth_mem)
qed

lemma ResolvePublic_ok:
  assumes "ResolvePublic lookup host = (Inr ips, asked)"
  shows "ips \<noteq> []" "list_all IsPublicIP ips" "length asked \<le> 1"
  using assms by (auto simp: ResolvePublic_def Let_def check_addrs_ok split: if_splits option.splits)

lemma ResolvePublic_asked: "length (snd (ResolvePublic lookup host)) \<le> 1"
  unfolding ResolvePublic_def Let_def by (simp split: option.split)

lemma dial_loop_tried: "dial_loop dial port ips = (r, tried) \<Longrightarrow> prefix tried ips"
  by (induction ips arbitrary: tried) (auto split: option.splits prod.splits)

lemma dial_loop_result:
  "dial_loop dial port ips = (r, tried) \<Longrightarrow> case r of
      None \<Rightarrow> tried = ips \<and> list_all (\<lambda>ip. dial ip port = None) ips
    | Some conn \<Rightarrow> tried \<noteq> [] \<and> dial (last tried) port = Some conn \<and> list_all (\<lambda>ip. dial ip port = None) (butlast tried)"
  by (induction ips arbitrary: tried r) (auto split: option.splits prod.splits)

text \<open>(C32) Outbound connections go to checked addresses only.  Whatever the resolver answers and the dialer does, every
  address handed to the dialer is public, the resolver is asked at most once (so a second answer cannot replace a
  checked one), a returned connection is the one of the last address tried after all earlier ones failed, and a
  failure means that nothing was dialled or every resolved address was tried and failed.\<close>

theorem dial_public_only:
  assumes "DialPublicContext lookup dial address = (r, asked, tried)"
  shows "list_all IsPublicIP tried \<and> length asked \<le> 1 \<and>
    (case r of
      Inr conn \<Rightarrow> \<exists>host port. SplitHostPort address = Some (host, port) \<and> tried \<noteq> [] \<and> dial (last tried) port = Some conn \<and>
        list_all (\<lambda>ip. dial ip port = None) (butlast tried)
    | Inl e \<Rightarrow> tried = [] \<or> (\<exists>host port ips. SplitHostPort address = Some (host, port) \<and> fst (ResolvePublic lookup host) = Inr ips \<and>
        tried = ips \<and> list_all (\<lambda>ip. dial ip port = None) ips))"
proof (cases "SplitHostPort address")
  case None
  then show ?thesis using assms by (auto simp: DialPublicContext_def)
next
  case (Some hp)
  then obtain host port where hp: "SplitHostPort address = Some (host, port)" by (cases hp) simp
  obtain res q where res: "ResolvePublic lookup host = (res, q)" by fastforce
  note q = ResolvePublic_asked [of lookup host, unfolded res]
  show ?thesis
  proof (cases res)
    case (Inl e)
    then show ?thesis using assms hp res q by (auto simp: DialPublicContext_def)
  next
    case (Inr ips)
    obtain c t where d: "dial_loop dial port ips = (c, t)" by fastforce
    have "list_all IsPublicIP t"
      using ResolvePublic_ok(2) [OF res [unfolded Inr]] dial_loop_tried [OF d] by (auto simp: prefix_def)
    then show ?thesis using assms hp res Inr d q dial_loop_result [OF d] by (auto simp: DialPublicContext_def split: option.splits)
  qed
qed

theorem dial_public_only_witness:
  "\<exists>r asked tried. DialPublicContext (\<lambda>_. Some [[1, 1, 1, 1], [8, 8, 8, 8]]) (\<lambda>ip port. if ip = [8, 8, 8, 8] then Some () else None) ''dns.test:443'' = (r, asked, tried) \<and>
     r = Inr () \<and> asked = [''dns.test''] \<and> tried = [[1, 1, 1, 1], [8, 8, 8, 8]] \<and> list_all IsPublicIP tried"
proof -
  let ?l = "\<lambda>_ :: string. Some [[1, 1, 1, 1 :: byte], [8, 8, 8, 8]]" and ?d = "\<lambda>ip (port :: string). if ip = [8, 8, 8, 8 :: byte] then Some () else None"
  have p: "IsPublicIP [1, 1, 1, 1]" "IsPublicIP [8, 8, 8, 8]" by (simp_all add: public_exactly special4_unat)
  have h: "SplitHostPort ''dns.test:443'' = Some (''dns.test'', ''443'')" "ParseIP ''dns.test'' = None" "TrimSpace (TrimSuffix ''dns.test'' ''.'') = ''dns.test''"
    by code_simp+
  have run: "DialPublicContext ?l ?d ''dns.test:443'' = (Inr (), [''dns.test''], [[1, 1, 1, 1], [8, 8, 8, 8]])"
    by (simp add: DialPublicContext_def ResolvePublic_def h p Let_def)
  show ?thesis using dial_public_only [OF run] run by blast
qed

end
