(* ===== verification/Rulesets.thy ===== *)
theory Rulesets
  imports RuleImport Db Netguard
begin

text \<open>
  The registered rule providers: the store over the \<open>rulesets\<close> table and its expansion into rules
  (\<open>internal/rulesets/rulesets.go\<close>), and the synchronisation with the remote source (\<open>sync.go\<close>).

  The HTTP client is a parameter: the answer to a request that carries the two cache headers.  Bodies arrive as
  \<open>io.ReadAll\<close> of the limited reader returns them, so a long body is cut after \<open>MaxBytes + 1\<close> bytes.
\<close>

section \<open>Store\<close>

definition KindClash :: string where "KindClash = ''clash''"
definition KindGFWList :: string where "KindGFWList = ''gfwlist''"

text \<open>The zero \<open>CreatedAt\<close> and a nil \<open>LastSyncedAt\<close> are \<open>None\<close>; a nil \<open>Content\<close> is the empty text.\<close>

record Ruleset =
  rs_Name :: string
  rs_SourceURL :: string
  rs_Kind :: string
  rs_Action :: string
  rs_Priority :: int
  rs_Enabled :: bool
  rs_ETag :: string
  rs_LastModified :: string
  rs_LastSyncedAt :: "int option"
  rs_LastError :: string
  rs_RuleCount :: nat
  rs_Content :: string
  rs_CreatedAt :: "int option"
  rs_CreatedBy :: string

datatype rulesets_error = RsNotFound | RsDB db_error | RsRequired string | RsMalformed string nat | RsInvalid string nat rule_error | RsNoRules string nat
  | RsURL guard_error | RsHTTP string | RsStatus nat | RsTooLong nat

type_synonym 'a rsm = "DB \<Rightarrow> (rulesets_error, 'a) result \<times> DB"

definition liftR :: "'a dbm \<Rightarrow> 'a rsm" where
  "liftR m = (\<lambda>d. case m d of (Inl e, d') \<Rightarrow> (Inl (RsDB e), d') | (Inr a, d') \<Rightarrow> (Inr a, d'))"

definition ruleset_upsert :: "Ruleset \<Rightarrow> unit dbm" where
  "ruleset_upsert r = (\<lambda>d. (Inr (),
     let en = (if rs_Enabled r then 1 else 0); prio = (if rs_Priority r = 0 then 500 else rs_Priority r) in
     if list_ex (\<lambda>x. rt_name x = rs_Name r) (t_rulesets d)
     then d\<lparr>t_rulesets := map (\<lambda>x. if rt_name x = rs_Name r
            then x\<lparr>rt_source_url := rs_SourceURL r, rt_kind := rs_Kind r, rt_action := rs_Action r, rt_priority := prio, rt_enabled := en\<rparr> else x) (t_rulesets d)\<rparr>
     else d\<lparr>t_rulesets := t_rulesets d @ [\<lparr>rt_name = rs_Name r, rt_source_url = rs_SourceURL r, rt_kind = rs_Kind r, rt_action = rs_Action r,
            rt_priority = prio, rt_enabled = en, rt_etag = [], rt_last_modified = [], rt_last_synced_at = None, rt_last_error = None,
            rt_rule_count = 0, rt_content = None, rt_created_at = (case rs_CreatedAt r of Some t \<Rightarrow> t | None \<Rightarrow> db_now d), rt_created_by = rs_CreatedBy r\<rparr>]\<rparr>))"

definition Rulesets_Upsert :: "Ruleset \<Rightarrow> unit rsm" where
  "Rulesets_Upsert r = (\<lambda>d.
     if rs_Name r = [] then (Inl (RsRequired ''name''), d)
     else if rs_SourceURL r = [] then (Inl (RsRequired ''source_url''), d)
     else if rs_Action r = [] then (Inl (RsRequired ''action''), d)
     else liftR (stmt (ruleset_upsert r)) d)"

definition scanRow :: "RulesetRow \<Rightarrow> Ruleset" where
  "scanRow x = \<lparr>rs_Name = rt_name x, rs_SourceURL = rt_source_url x, rs_Kind = rt_kind x, rs_Action = rt_action x, rs_Priority = rt_priority x,
     rs_Enabled = (rt_enabled x \<noteq> 0), rs_ETag = rt_etag x, rs_LastModified = rt_last_modified x, rs_LastSyncedAt = rt_last_synced_at x,
     rs_LastError = (case rt_last_error x of Some e \<Rightarrow> e | None \<Rightarrow> []), rs_RuleCount = rt_rule_count x,
     rs_Content = (case rt_content x of Some c \<Rightarrow> c | None \<Rightarrow> []), rs_CreatedAt = Some (rt_created_at x), rs_CreatedBy = rt_created_by x\<rparr>"

definition Rulesets_Get :: "string \<Rightarrow> Ruleset rsm" where
  "Rulesets_Get name = (\<lambda>d. case select1 (\<lambda>d. map_option scanRow (find (\<lambda>x. rt_name x = name) (t_rulesets d))) d of
      (Inr r, d') \<Rightarrow> (Inr r, d')
    | (Inl e, d') \<Rightarrow> (Inl (if e = ErrNoRows then RsNotFound else RsDB e), d'))"

text \<open>\<open>ORDER BY priority ASC, name ASC\<close>.\<close>

definition by_priority :: "RulesetRow list \<Rightarrow> RulesetRow list" where
  "by_priority rows = sort_key rt_priority (sort_key rt_name rows)"

definition Rulesets_List :: "Ruleset list rsm" where
  "Rulesets_List = liftR (stmt (\<lambda>d. (Inr (map scanRow (by_priority (t_rulesets d))), d)))"

definition Rulesets_Delete :: "string \<Rightarrow> unit rsm" where
  "Rulesets_Delete name = liftR (stmt (\<lambda>d. (Inr (), d\<lparr>t_rulesets := filter (\<lambda>x. rt_name x \<noteq> name) (t_rulesets d)\<rparr>)))"

definition update_ruleset :: "string \<Rightarrow> (int \<Rightarrow> RulesetRow \<Rightarrow> RulesetRow) \<Rightarrow> unit rsm" where
  "update_ruleset name f = liftR (stmt (\<lambda>d. (Inr (), d\<lparr>t_rulesets := map (\<lambda>x. if rt_name x = name then f (db_now d) x else x) (t_rulesets d)\<rparr>)))"

definition Rulesets_SetEnabled :: "string \<Rightarrow> bool \<Rightarrow> unit rsm" where
  "Rulesets_SetEnabled name en = update_ruleset name (\<lambda>now x. x\<lparr>rt_enabled := (if en then 1 else 0)\<rparr>)"

definition UpdateContent :: "string \<Rightarrow> string \<Rightarrow> nat \<Rightarrow> string \<Rightarrow> string \<Rightarrow> unit rsm" where
  "UpdateContent name content ruleCount etag lastModified = update_ruleset name (\<lambda>now x. x\<lparr>rt_content := Some content, rt_rule_count := ruleCount,
     rt_etag := etag, rt_last_modified := lastModified, rt_last_synced_at := Some now, rt_last_error := None\<rparr>)"

definition TouchSyncedAt :: "string \<Rightarrow> unit rsm" where
  "TouchSyncedAt name = update_ruleset name (\<lambda>now x. x\<lparr>rt_last_synced_at := Some now, rt_last_error := None\<rparr>)"

definition RecordError :: "string \<Rightarrow> string \<Rightarrow> unit rsm" where
  "RecordError name reason = update_ruleset name (\<lambda>now x. x\<lparr>rt_last_error := Some reason\<rparr>)"

section \<open>Expansion\<close>

fun csv3_loop :: "nat \<Rightarrow> string \<Rightarrow> string \<Rightarrow> string list" where
  "csv3_loop out cur [] = [rev cur]"
| "csv3_loop out cur (c # s) = (if c = CHR '','' \<and> out < 2 then rev cur # csv3_loop (out + 1) [] s else csv3_loop out (c # cur) s)"

definition splitCSV3 :: "string \<Rightarrow> string list" where
  "splitCSV3 s = csv3_loop 0 [] s"

definition lowerASCII :: "string \<Rightarrow> string" where
  "lowerASCII s = map lower_char s"

definition line_rule :: "(string \<Rightarrow> bool) \<Rightarrow> Ruleset \<Rightarrow> nat \<Rightarrow> string \<Rightarrow> (rulesets_error, Rule) result" where
  "line_rule isDN rs i line = (let parts = splitCSV3 line in
     if length parts < 2 then Inl (RsMalformed (rs_Name rs) (i + 1))
     else let kind = parts ! 0; final = (kind = ''FINAL'' \<or> kind = ''MATCH'') in
       if \<not> final \<and> length parts < 3 then Inl (RsMalformed (rs_Name rs) (i + 1))
       else let pattern = (if final then [] else parts ! 1);
                action = (if final then parts ! 1 else parts ! 2);
                low = lowerASCII action;
                action = (if low \<noteq> ''direct'' \<and> low \<noteq> ''block'' then rs_Action rs else action);
                rule = \<lparr>rule_ID = rs_Name rs @ ''-'' @ itoa (int (i + 1)), rule_Kind = (if final then ''MATCH'' else kind), rule_Pattern = pattern,
                  rule_Action = action, rule_Priority = rs_Priority rs, rule_Enabled = True, rule_Notes = [], rule_GroupID = rs_Name rs\<rparr> in
         (case Rule_Validate isDN rule of Some e \<Rightarrow> Inl (RsInvalid (rs_Name rs) (i + 1) e) | None \<Rightarrow> Inr rule))"

fun lines_rules :: "(string \<Rightarrow> bool) \<Rightarrow> Ruleset \<Rightarrow> nat \<Rightarrow> string list \<Rightarrow> (rulesets_error, Rule list) result" where
  "lines_rules isDN rs i [] = Inr []"
| "lines_rules isDN rs i (l # ls) = (case line_rule isDN rs i l of Inl e \<Rightarrow> Inl e
     | Inr r \<Rightarrow> (case lines_rules isDN rs (i + 1) ls of Inl e \<Rightarrow> Inl e | Inr out \<Rightarrow> Inr (r # out)))"

fun expandList :: "(string \<Rightarrow> bool) \<Rightarrow> Ruleset list \<Rightarrow> (rulesets_error, Rule list) result" where
  "expandList isDN [] = Inr []"
| "expandList isDN (rs # list) = (if \<not> rs_Enabled rs \<or> rs_Content rs = [] then expandList isDN list
     else case Import (rs_Content rs) no_options of (expanded, report) \<Rightarrow>
       (case lines_rules isDN rs 0 expanded of
          Inl e \<Rightarrow> Inl e
        | Inr rules \<Rightarrow>
            if rules = [] then Inl (RsNoRules (rs_Name rs) (rep_Dropped report))
            else (case expandList isDN list of Inl e \<Rightarrow> Inl e | Inr out \<Rightarrow> Inr (rules @ out))))"

definition ExpandWithGroups :: "(string \<Rightarrow> bool) \<Rightarrow> (Rule list \<times> string list) rsm" where
  "ExpandWithGroups isDN = (\<lambda>d. case Rulesets_List d of
      (Inl e, d') \<Rightarrow> (Inl e, d')
    | (Inr list, d') \<Rightarrow> (case expandList isDN list of Inl e \<Rightarrow> (Inl e, d') | Inr expanded \<Rightarrow> (Inr (expanded, map rs_Name list), d')))"

definition Expand :: "(string \<Rightarrow> bool) \<Rightarrow> Rule list rsm" where
  "Expand isDN = (\<lambda>d. case ExpandWithGroups isDN d of (Inl e, d') \<Rightarrow> (Inl e, d') | (Inr (expanded, _), d') \<Rightarrow> (Inr expanded, d'))"

section \<open>Synchronisation (\<open>sync.go\<close>)\<close>

record SyncOptions =
  so_Timeout :: nat
  so_MaxBytes :: nat
  so_UserAgent :: string

definition NewSyncer :: "SyncOptions \<Rightarrow> SyncOptions" where
  "NewSyncer opts = \<lparr>so_Timeout = (if so_Timeout opts = 0 then 10 else so_Timeout opts),
     so_MaxBytes = (if so_MaxBytes opts = 0 then 4 * 1024 * 1024 else so_MaxBytes opts),
     so_UserAgent = (if so_UserAgent opts = [] then ''5gpn-panel/rulesets'' else so_UserAgent opts)\<rparr>"

record http_response =
  hr_StatusCode :: nat
  hr_Body :: "(string, string) result"
  hr_ETag :: string
  hr_LastModified :: string

text \<open>What the client is asked: the URL and the headers; and what it answers, an error text or a response.\<close>

record http_request =
  hq_URL :: string
  hq_UserAgent :: string
  hq_IfNoneMatch :: string
  hq_IfModifiedSince :: string

type_synonym http_client = "http_request \<Rightarrow> (string, http_response) result"

text \<open>\<open>parse_url\<close> is \<open>url.Parse\<close>, which \<open>http.NewRequest\<close> also applies to the untrimmed text, and \<open>msg\<close> the text of an
  error.\<close>

definition SyncOne :: "(string \<Rightarrow> URL option) \<Rightarrow> (rulesets_error \<Rightarrow> string) \<Rightarrow> SyncOptions \<Rightarrow> http_client \<Rightarrow> string \<Rightarrow> unit rsm" where
  "SyncOne parse_url msg opts client name = (\<lambda>d. case Rulesets_Get name d of
      (Inl e, d) \<Rightarrow> (Inl e, d)
    | (Inr rs, d) \<Rightarrow>
        let failed = (\<lambda>e d. (Inl e, snd (RecordError name (msg e) d))) in
        (case ValidateHTTPURL (parse_url (TrimSpace (rs_SourceURL rs))) of
           Inl e \<Rightarrow> failed (RsURL e) d
         | Inr _ \<Rightarrow> if parse_url (rs_SourceURL rs) = None then (Inl (RsHTTP ''request''), d) else (case client \<lparr>hq_URL = rs_SourceURL rs, hq_UserAgent = so_UserAgent opts, hq_IfNoneMatch = rs_ETag rs, hq_IfModifiedSince = rs_LastModified rs\<rparr> of
               Inl e \<Rightarrow> failed (RsHTTP e) d
             | Inr resp \<Rightarrow>
                 if hr_StatusCode resp = 304 then TouchSyncedAt name d
                 else if hr_StatusCode resp \<ge> 400 then failed (RsStatus (hr_StatusCode resp)) d
                 else (case hr_Body resp of
                     Inl e \<Rightarrow> failed (RsHTTP e) d
                   | Inr full \<Rightarrow>
                       let body = take (so_MaxBytes opts + 1) full in
                       if length body > so_MaxBytes opts then failed (RsTooLong (so_MaxBytes opts)) d
                       else UpdateContent name body (length (fst (Import body no_options))) (TrimSpace (hr_ETag resp)) (TrimSpace (hr_LastModified resp)) d))))"

text \<open>One tick of \<open>Run\<close>: every enabled ruleset in order; a failing one does not stop the others.\<close>

fun sync_all :: "(string \<Rightarrow> URL option) \<Rightarrow> (rulesets_error \<Rightarrow> string) \<Rightarrow> SyncOptions \<Rightarrow> http_client \<Rightarrow> Ruleset list \<Rightarrow> DB \<Rightarrow> DB" where
  "sync_all parse_url msg opts client [] d = d"
| "sync_all parse_url msg opts client (rs # list) d =
     sync_all parse_url msg opts client list (if rs_Enabled rs then snd (SyncOne parse_url msg opts client (rs_Name rs) d) else d)"

definition Run_tick :: "(string \<Rightarrow> URL option) \<Rightarrow> (rulesets_error \<Rightarrow> string) \<Rightarrow> SyncOptions \<Rightarrow> http_client \<Rightarrow> DB \<Rightarrow> DB" where
  "Run_tick parse_url msg opts client d = (case Rulesets_List d of (Inl e, d) \<Rightarrow> d | (Inr list, d) \<Rightarrow> sync_all parse_url msg opts client list d)"

section \<open>Expansion: lemmas\<close>

definition rule_id :: "string \<Rightarrow> nat \<Rightarrow> string" where
  "rule_id name k = name @ ''-'' @ itoa (int k)"

lemma no_dash_split:
  assumes "CHR ''-'' \<notin> set x" "CHR ''-'' \<notin> set y" "a @ ''-'' @ x = b @ ''-'' @ y"
  shows "a = b" "x = y"
proof -
  have t: "takeWhile (\<lambda>c. c \<noteq> CHR ''-'') (rev (c @ ''-'' @ z)) = rev z" "dropWhile (\<lambda>c. c \<noteq> CHR ''-'') (rev (c @ ''-'' @ z)) = CHR ''-'' # rev c"
    if "CHR ''-'' \<notin> set z" for c z :: string
    using that by (auto simp: takeWhile_append dropWhile_append)
  show "x = y" using t(1) [OF assms(1), of a] t(1) [OF assms(2), of b] unfolding assms(3) by (metis rev_rev_ident)
  show "a = b" using t(2) [OF assms(1), of a] t(2) [OF assms(2), of b] unfolding assms(3) by (metis list.inject rev_rev_ident)
qed

lemma rule_id_inj: "rule_id a j = rule_id b k \<Longrightarrow> a = b \<and> j = k"
proof -
  assume e: "rule_id a j = rule_id b k"
  have n: "CHR ''-'' \<notin> set (itoa (int j))" "CHR ''-'' \<notin> set (itoa (int k))" using itoa_val_nonneg by simp_all
  note s = no_dash_split [OF n e [unfolded rule_id_def]]
  have "dec_val (itoa (int j)) = j" "dec_val (itoa (int k)) = k" using itoa_val_nonneg [of "int j"] itoa_val_nonneg [of "int k"] by simp_all
  then show ?thesis using s(1) arg_cong [OF s(2), of dec_val] by metis
qed

definition from_ruleset :: "(string \<Rightarrow> bool) \<Rightarrow> Ruleset \<Rightarrow> Rule \<Rightarrow> bool" where
  "from_ruleset isDN rs r = (Rule_Validate isDN r = None \<and> rule_Enabled r \<and> rule_GroupID r = rs_Name rs \<and> rule_Priority r = rs_Priority rs \<and>
     (rule_Action r = rs_Action rs \<or> lowerASCII (rule_Action r) = ''direct'' \<or> lowerASCII (rule_Action r) = ''block''))"

lemma line_rule_ok: "line_rule isDN rs i l = Inr r \<Longrightarrow> from_ruleset isDN rs r \<and> rule_ID r = rule_id (rs_Name rs) (i + 1)"
  unfolding line_rule_def Let_def by (auto simp: from_ruleset_def rule_id_def split: if_splits option.splits)

lemma lines_rules_ok:
  "lines_rules isDN rs i ls = Inr rules \<Longrightarrow> list_all (from_ruleset isDN rs) rules \<and>
     map rule_ID rules = map (rule_id (rs_Name rs)) [i + 1..<i + 1 + length ls]"
proof (induction ls arbitrary: i rules)
  case (Cons l ls)
  then obtain r out where r: "line_rule isDN rs i l = Inr r" "lines_rules isDN rs (i + 1) ls = Inr out" "rules = r # out"
    by (auto split: sum.splits)
  have "[i + 1..<i + 1 + length (l # ls)] = (i + 1) # [i + 1 + 1..<i + 1 + 1 + length ls]"
    by (subst upt_conv_Cons) (simp_all del: upt_Suc)
  then show ?case using Cons.IH [OF r(2)] line_rule_ok [OF r(1)] r(3) by simp
qed simp

definition contributes :: "Ruleset \<Rightarrow> bool" where
  "contributes rs = (rs_Enabled rs \<and> rs_Content rs \<noteq> [])"

lemma expandList_ok:
  "expandList isDN list = Inr rules \<Longrightarrow> distinct (map rs_Name list) \<Longrightarrow>
     (\<forall>r\<in>set rules. \<exists>rs\<in>set list. contributes rs \<and> from_ruleset isDN rs r \<and> (\<exists>k. rule_ID r = rule_id (rs_Name rs) k)) \<and>
     distinct (map rule_ID rules) \<and> (\<forall>rs\<in>set list. contributes rs \<longrightarrow> (\<exists>r\<in>set rules. rule_GroupID r = rs_Name rs))"
proof (induction list arbitrary: rules)
  case (Cons rs list)
  show ?case
  proof (cases "contributes rs")
    case False
    then have "expandList isDN list = Inr rules" using Cons.prems(1) by (auto simp: contributes_def)
    then show ?thesis using Cons.IH [of rules] Cons.prems(2) False by auto
  next
    case True
    then obtain ls rep rs1 out where e: "Import (rs_Content rs) no_options = (ls, rep)" "lines_rules isDN rs 0 ls = Inr rs1" "rs1 \<noteq> []"
      "expandList isDN list = Inr out" "rules = rs1 @ out"
      using Cons.prems(1) by (auto simp: contributes_def split: prod.splits sum.splits if_splits)
    note l = lines_rules_ok [OF e(2)]
    have IH: "\<forall>r\<in>set out. \<exists>rs\<in>set list. contributes rs \<and> from_ruleset isDN rs r \<and> (\<exists>k. rule_ID r = rule_id (rs_Name rs) k)"
      "distinct (map rule_ID out)" "\<forall>rs\<in>set list. contributes rs \<longrightarrow> (\<exists>r\<in>set out. rule_GroupID r = rs_Name rs)"
      using Cons.IH [OF e(4)] Cons.prems(2) by auto
    have id1: "\<exists>k. rule_ID r = rule_id (rs_Name rs) k" if "r \<in> set rs1" for r
    proof -
      have "rule_ID r \<in> set (map rule_ID rs1)" using that by simp
      then show ?thesis using l by auto
    qed
    have "distinct (map rule_ID rs1)" unfolding conjunct2 [OF l] by (auto simp: distinct_map inj_on_def dest: rule_id_inj)
    moreover have "rule_ID r \<noteq> rule_ID r'" if "r \<in> set rs1" "r' \<in> set out" for r r'
    proof
      note h = that
      assume same: "rule_ID r = rule_ID r'"
      obtain rs' j k where "rs' \<in> set list" "rule_ID r' = rule_id (rs_Name rs') k" "rule_ID r = rule_id (rs_Name rs) j"
        using id1 [OF h(1)] IH(1) h(2) by blast
      then have "rs_Name rs = rs_Name rs'" "rs' \<in> set list" using same rule_id_inj by metis+
      then show False using Cons.prems(2) by auto
    qed
    ultimately have d: "distinct (map rule_ID rules)" using IH(2) e(5) by auto
    have g: "\<exists>r\<in>set rules. rule_GroupID r = rs_Name rs"
      using e(3,5) l by (cases rs1) (auto simp: from_ruleset_def)
    show ?thesis using d g IH id1 l True e(5) by (auto simp: list_all_iff)
  qed
qed simp


text \<open>A gfwlist expands line by line, and nothing in it can make the expansion fail but a host that the DNS library does
  not take for a domain name.\<close>

lemma csv3_loop_field: "CHR '','' \<notin> set a \<Longrightarrow> k < 2 \<Longrightarrow> csv3_loop k cur (a @ CHR '','' # s) = (rev cur @ a) # csv3_loop (k + 1) [] s"
  by (induction a arbitrary: cur) auto

lemma csv3_loop_last: "k \<ge> 2 \<Longrightarrow> csv3_loop k cur s = [rev cur @ s]"
  by (induction s arbitrary: cur) auto

lemma splitCSV3_canonical: "canonical (kind, v, p) \<Longrightarrow> splitCSV3 (csv_line (kind, v, p)) = [kind, v, p]"
  using keep_plain [of kind] plain_chars [of kind] plain_chars [of v]
  by (simp add: canonical_def splitCSV3_def csv_line_def csv3_loop_field csv3_loop_last)

definition gfw_to_rule :: "Ruleset \<Rightarrow> nat \<Rightarrow> string \<times> string \<times> string \<Rightarrow> Rule" where
  "gfw_to_rule rs i g = (case g of (kind, host, policy) \<Rightarrow>
     \<lparr>rule_ID = rule_id (rs_Name rs) (i + 1), rule_Kind = kind, rule_Pattern = host, rule_Action = (if policy = ''direct'' then ''direct'' else rs_Action rs),
      rule_Priority = rs_Priority rs, rule_Enabled = True, rule_Notes = [], rule_GroupID = rs_Name rs\<rparr>)"

definition action_ok :: "string \<Rightarrow> bool" where
  "action_ok a = (TrimSpace a \<noteq> [] \<and> \<not> ContainsAny a csv_delims)"

lemma hostRE_no_cr: "hostRE h \<Longrightarrow> c \<in> set h \<Longrightarrow> is_host_char c \<or> c = CHR ''.''"
proof -
  assume h: "hostRE h" and c: "c \<in> set h"
  have "set (Join ws [CHR ''.'']) \<subseteq> (\<Union>w\<in>set ws. set w) \<union> {CHR ''.''}" for ws
    by (induction ws rule: induct_list012) auto
  then have "set h \<subseteq> (\<Union>w\<in>set (Split (CHR ''.'') h). set w) \<union> {CHR ''.''}" by (metis Join_Split)
  then show ?thesis using h c by (auto simp: hostRE_def Let_def list_all_iff)
qed

lemma rule_id_trim: "TrimSpace (rule_id n k) \<noteq> []"
proof
  assume "TrimSpace (rule_id n k) = []"
  then have "list_all is_space (dropWhile is_space (rule_id n k))" by (simp add: TrimSpace_def TrimFunc_def list_all_iff)
  then have "dropWhile is_space (rule_id n k) = []"
    by (metis dropWhile_eq_Nil_conv hd_dropWhile list.set_sel(1) list_all_iff)
  then have "\<forall>c\<in>set (rule_id n k). is_space c" by (simp add: dropWhile_eq_Nil_conv)
  then show False by (simp add: rule_id_def is_space_def)
qed

lemma gfw_line_rule:
  assumes "gfw_rule raw = Some g" "action_ok (rs_Action rs)" "fst g = ''DOMAIN-KEYWORD'' \<or> isDN (fst (snd g))"
  shows "line_rule isDN rs i (csv_line g) = Inr (gfw_to_rule rs i g)"
proof -
  obtain kind host policy where g: "g = (kind, host, policy)" by (cases g) auto
  have h: "hostRE host" "kind \<in> {''DOMAIN-SUFFIX'', ''DOMAIN'', ''DOMAIN-KEYWORD''}" "policy \<in> {''Proxy'', ''direct''}"
    using assms(1) unfolding g gfw_rule_def gfwlistPolicyDIRECT_def gfwlistPolicyPROXY_def by (auto simp: Let_def split: if_splits option.splits)
  have can: "canonical (kind, host, policy)" using gfw_rule_canonical(1) [OF assms(1)] by (simp add: g)
  have trim: "TrimSpace host = host" "host \<noteq> []" using hostRE_chars [OF h(1)] by (auto simp: plain_def)
  have "\<not> ContainsAny host csv_delims"
    using hostRE_no_cr [OF h(1)] by (fastforce simp: ContainsAny_def list_ex_iff csv_delims_def is_host_char_def is_word_def)
  moreover have "TrimSpace ''direct'' \<noteq> []" "\<not> ContainsAny ''direct'' csv_delims" by code_simp+
  ultimately have valid: "Rule_Validate isDN (gfw_to_rule rs i g) = None"
    using h(2) assms(2,3) trim rule_id_trim
    by (auto simp: Rule_Validate_def gfw_to_rule_def g action_ok_def allKinds_def kind_defs)
  have low: "lowerASCII ''Proxy'' = ''proxy''" "lowerASCII ''direct'' = ''direct''" by code_simp+
  have kind: "\<not> (kind = ''FINAL'' \<or> kind = ''MATCH'')" using h(2) by auto
  have parts: "splitCSV3 (csv_line g) = [kind, host, policy]" using splitCSV3_canonical [OF can] by (simp only: g)
  show ?thesis
  proof (cases "policy = ''direct''")
    case True
    then show ?thesis using kind low valid unfolding line_rule_def Let_def parts by (simp add: gfw_to_rule_def g rule_id_def)
  next
    case False
    then have "policy = ''Proxy''" using h(3) by simp
    then show ?thesis using kind low valid unfolding line_rule_def Let_def parts by (simp add: gfw_to_rule_def g rule_id_def)
  qed
qed


lemma gfw_lines_rules:
  assumes "\<And>g. g \<in> set gs \<Longrightarrow> (\<exists>raw. gfw_rule raw = Some g) \<and> (fst g = ''DOMAIN-KEYWORD'' \<or> isDN (fst (snd g)))" "action_ok (rs_Action rs)"
  shows "lines_rules isDN rs i (map csv_line gs) = Inr (map (\<lambda>(k, g). gfw_to_rule rs k g) (zip [i..<i + length gs] gs))"
  using assms(1)
proof (induction gs arbitrary: i)
  case (Cons g gs)
  obtain raw where "gfw_rule raw = Some g" using Cons.prems [of g] by auto
  then have "line_rule isDN rs i (csv_line g) = Inr (gfw_to_rule rs i g)" using gfw_line_rule assms(2) Cons.prems by auto
  moreover have "[i..<i + length (g # gs)] = i # [i + 1..<i + 1 + length gs]" by (subst upt_conv_Cons) (simp_all del: upt_Suc)
  ultimately show ?case using Cons by simp
qed simp

lemma gfw_rules_source: "g \<in> set (gfw_rules inp) \<Longrightarrow> \<exists>raw. gfw_rule raw = Some g"
  by (auto simp: gfw_rules_def map_filter_def)

section \<open>Properties\<close>

definition sample_ruleset :: Ruleset where
  "sample_ruleset = \<lparr>rs_Name = ''gfw'', rs_SourceURL = ''http://l.test/g'', rs_Kind = ''clash'', rs_Action = ''exit-1'', rs_Priority = 500, rs_Enabled = True,
     rs_ETag = [], rs_LastModified = [], rs_LastSyncedAt = None, rs_LastError = [], rs_RuleCount = 0, rs_Content = sample_gfw, rs_CreatedAt = None, rs_CreatedBy = []\<rparr>"

text \<open>(C39) Expansion is sound.  Whatever the cached contents are, when the registered rulesets expand at all, every rule is
  valid and enabled, belongs to an enabled ruleset with cached content, has that ruleset's priority and its action (or
  is a direct or block rule), no two rules share an id, even across rulesets, and every such ruleset contributes at
  least one rule.\<close>

theorem expansion_sound:
  assumes "expandList isDN list = Inr rules" "distinct (map rs_Name list)"
  shows "(\<forall>r\<in>set rules. \<exists>rs\<in>set list. contributes rs \<and> from_ruleset isDN rs r) \<and> distinct (map rule_ID rules) \<and>
    (\<forall>rs\<in>set list. contributes rs \<longrightarrow> (\<exists>r\<in>set rules. rule_GroupID r = rs_Name rs))"
  using expandList_ok [OF assms] by blast

theorem expansion_sound_witness:
  "\<exists>rules. expandList (\<lambda>_. True) [sample_ruleset, sample_ruleset\<lparr>rs_Name := ''off'', rs_Enabled := False\<rparr>] = Inr rules \<and>
     distinct (map rule_ID rules) \<and> Some ''gfw'' = map_option rule_GroupID (find (\<lambda>r. rule_GroupID r = ''gfw'') rules)"
proof -
  let ?l = "[sample_ruleset, sample_ruleset\<lparr>rs_Name := ''off'', rs_Enabled := False\<rparr>]"
  have e: "expandList (\<lambda>_. True) ?l = Inr [gfw_to_rule sample_ruleset 0 (''DOMAIN-SUFFIX'', ''a.com'', ''Proxy''),
     gfw_to_rule sample_ruleset 1 (''DOMAIN-SUFFIX'', ''b.org'', ''direct'')]" by code_simp
  have d: "distinct (map rs_Name ?l)" by (simp add: sample_ruleset_def)
  have "contributes sample_ruleset" by code_simp
  then obtain r where "r \<in> set [gfw_to_rule sample_ruleset 0 (''DOMAIN-SUFFIX'', ''a.com'', ''Proxy''),
     gfw_to_rule sample_ruleset 1 (''DOMAIN-SUFFIX'', ''b.org'', ''direct'')]" "rule_GroupID r = ''gfw''"
    using expansion_sound [OF e d] by (auto simp: sample_ruleset_def)
  then show ?thesis using expansion_sound [OF e d] e by (auto simp: gfw_to_rule_def sample_ruleset_def)
qed

text \<open>A gfwlist provider expands rule for rule.  An enabled ruleset whose cached body is a gfwlist with at least one rule
  expands without error into exactly one rule per entry, in order, numbered from 1, with direct for the entries the
  list exempts and the ruleset's action for the others, provided the DNS library takes the anchored hosts for domain
  names.\<close>

theorem gfwlist_provider_expands:
  assumes "looksLikeGFWList (rs_Content rs)" "rs_Enabled rs" "action_ok (rs_Action rs)" "gfw_rules (rs_Content rs) \<noteq> []"
    and "\<And>g. g \<in> set (gfw_rules (rs_Content rs)) \<Longrightarrow> fst g = ''DOMAIN-KEYWORD'' \<or> isDN (fst (snd g))"
  shows "expandList isDN [rs] = Inr (map (\<lambda>(k, g). gfw_to_rule rs k g) (List.enumerate 0 (gfw_rules (rs_Content rs))))"
proof -
  let ?gs = "gfw_rules (rs_Content rs)"
  have c: "rs_Content rs \<noteq> []" using assms(1) by (auto simp: looksLikeGFWList_def Contains_def)
  obtain rep where i: "Import (rs_Content rs) no_options = (map csv_line ?gs, rep)"
    using assms(1) gfwlist_not_base64 [OF assms(1)] ImportLegacy_canonical [OF gfw_rules_canonical [of "rs_Content rs"]]
    by (simp add: Import_def gfwlistToClash_eq Let_def)
  have "lines_rules isDN rs 0 (map csv_line ?gs) = Inr (map (\<lambda>(k, g). gfw_to_rule rs k g) (zip [0..<0 + length ?gs] ?gs))"
    using gfw_rules_source assms(3,5) by (intro gfw_lines_rules) auto
  moreover have "zip [0..<0 + length ?gs] ?gs \<noteq> []" using assms(4) by simp
  ultimately show ?thesis using assms(2) c i by (simp add: enumerate_eq_zip)
qed

theorem gfwlist_provider_expands_witness:
  "expandList (\<lambda>_. True) [sample_ruleset] = Inr [gfw_to_rule sample_ruleset 0 (''DOMAIN-SUFFIX'', ''a.com'', ''Proxy''),
     gfw_to_rule sample_ruleset 1 (''DOMAIN-SUFFIX'', ''b.org'', ''direct'')]"
proof -
  have f: "rs_Content sample_ruleset = sample_gfw" "rs_Enabled sample_ruleset" by (simp_all add: sample_ruleset_def)
  have a: "action_ok (rs_Action sample_ruleset)" by code_simp
  show ?thesis using gfwlist_provider_expands [of sample_ruleset "\<lambda>_. True"] f a sample_gfw_facts by simp
qed

section \<open>Synchronisation: lemmas\<close>

definition registration :: "RulesetRow \<Rightarrow> RulesetRow" where
  "registration x = x\<lparr>rt_content := None, rt_rule_count := 0, rt_etag := [], rt_last_modified := [], rt_last_synced_at := None, rt_last_error := None\<rparr>"

definition cached :: "RulesetRow \<Rightarrow> string option \<times> nat \<times> string \<times> string" where
  "cached x = (rt_content x, rt_rule_count x, rt_etag x, rt_last_modified x)"

text \<open>A change of the metadata of the rows called \<open>name\<close>.\<close>

definition touches_only :: "string \<Rightarrow> DB \<Rightarrow> DB \<Rightarrow> bool" where
  "touches_only name d d' = (map registration (t_rulesets d') = map registration (t_rulesets d) \<and>
     filter (\<lambda>x. rt_name x \<noteq> name) (t_rulesets d') = filter (\<lambda>x. rt_name x \<noteq> name) (t_rulesets d) \<and>
     same_tables (d\<lparr>t_rulesets := []\<rparr>) (d'\<lparr>t_rulesets := []\<rparr>))"

lemma same_touches: "same_tables d d' \<Longrightarrow> touches_only name d d'"
  by (auto simp: touches_only_def elim!: same_tablesE) (simp add: same_tables_def)

lemma touches_trans: "touches_only n a b \<Longrightarrow> touches_only n b c \<Longrightarrow> touches_only n a c"
  by (auto simp: touches_only_def intro: same_tables_trans)

lemma update_ruleset_cases:
  obtains (fault) e fs where "update_ruleset name f d = (Inl (RsDB e), d\<lparr>db_faults := fs\<rparr>)"
  | (run) fs where "update_ruleset name f d = (Inr (), d\<lparr>db_faults := fs, t_rulesets := map (\<lambda>x. if rt_name x = name then f (db_now d) x else x) (t_rulesets d)\<rparr>)"
proof (cases rule: stmt_cases [of "\<lambda>d. (Inr (), d\<lparr>t_rulesets := map (\<lambda>x. if rt_name x = name then f (db_now d) x else x) (t_rulesets d)\<rparr>)" d])
  case (fault e fs)
  then show ?thesis by (intro that(1)) (simp add: update_ruleset_def liftR_def)
next
  case (run fs)
  have now: "db_now (d\<lparr>db_faults := fs\<rparr>) = db_now d" "t_rulesets (d\<lparr>db_faults := fs\<rparr>) = t_rulesets d" by simp_all
  show ?thesis by (rule that(2)) (simp only: update_ruleset_def liftR_def run now prod.case sum.case)
qed

lemma map_update_filter:
  "(\<And>x. rt_name x = name \<Longrightarrow> rt_name (f x) = name) \<Longrightarrow>
    filter (\<lambda>x. rt_name x \<noteq> name) (map (\<lambda>x. if rt_name x = name then f x else x) xs) = filter (\<lambda>x. rt_name x \<noteq> name) xs"
  by (induction xs) auto

lemma update_touches:
  assumes "update_ruleset name f d = (r, d')" "\<And>now x. registration (f now x) = registration x"
  shows "touches_only name d d'"
proof (cases rule: update_ruleset_cases [of name f d])
  case (fault e fs)
  then show ?thesis using assms(1) same_touches by auto
next
  case (run fs)
  have n: "rt_name (f now x) = rt_name x" for now x using arg_cong [OF assms(2), of rt_name now x] by (simp add: registration_def)
  have "registration \<circ> (\<lambda>x. if rt_name x = name then f (db_now d) x else x) = registration" using assms(2) by auto
  moreover have "filter (\<lambda>x. rt_name x \<noteq> name) (map (\<lambda>x. if rt_name x = name then f (db_now d) x else x) (t_rulesets d)) = filter (\<lambda>x. rt_name x \<noteq> name) (t_rulesets d)"
    by (rule map_update_filter) (simp add: n)
  ultimately show ?thesis using run assms(1) by (auto simp: touches_only_def same_tables_def)
qed

lemma update_cached:
  assumes "update_ruleset name f d = (r, d')" "\<And>now x. cached (f now x) = cached x"
  shows "map cached (t_rulesets d') = map cached (t_rulesets d)"
proof (cases rule: update_ruleset_cases [of name f d])
  case (fault e fs)
  then show ?thesis using assms(1) by auto
next
  case (run fs)
  have "cached \<circ> (\<lambda>x. if rt_name x = name then f (db_now d) x else x) = cached" using assms(2) by auto
  then show ?thesis using run assms(1) by auto
qed

lemma RecordError_keeps:
  "touches_only name d (snd (RecordError name reason d))" "map cached (t_rulesets (snd (RecordError name reason d))) = map cached (t_rulesets d)"
proof -
  obtain r d' where u: "RecordError name reason d = (r, d')" by fastforce
  show "touches_only name d (snd (RecordError name reason d))" unfolding u snd_conv
    by (rule update_touches [OF u [unfolded RecordError_def]]) (simp add: registration_def)
  show "map cached (t_rulesets (snd (RecordError name reason d))) = map cached (t_rulesets d)" unfolding u snd_conv
    by (rule update_cached [OF u [unfolded RecordError_def]]) (simp add: cached_def)
qed

lemma Rulesets_Get_same: "Rulesets_Get name d = (r, d') \<Longrightarrow> same_tables d d'"
  unfolding Rulesets_Get_def select1_def
  by (cases rule: stmt_cases [of "\<lambda>d. case map_option scanRow (find (\<lambda>x. rt_name x = name) (t_rulesets d)) of None \<Rightarrow> (Inl ErrNoRows, d) | Some r \<Rightarrow> (Inr r, d)" d])
    (auto split: option.splits)

lemma same_rulesets: "same_tables d d' \<Longrightarrow> t_rulesets d' = t_rulesets d"
  by (auto elim!: same_tablesE)

text \<open>The three ways a sync ends.\<close>

lemma SyncOne_cases:
  assumes "SyncOne parse_url msg opts client name d = (r, d')"
  obtains (failed) e where "r = Inl e" "touches_only name d d'" "map cached (t_rulesets d') = map cached (t_rulesets d)"
  | (unchanged) d1 where "same_tables d d1" "TouchSyncedAt name d1 = (r, d')"
  | (fresh) d1 body etag lm where "same_tables d d1" "length body \<le> so_MaxBytes opts"
      "UpdateContent name body (length (fst (Import body no_options))) etag lm d1 = (r, d')"
proof -
  obtain g d1 where g: "Rulesets_Get name d = (g, d1)" by fastforce
  note same = Rulesets_Get_same [OF g]
  have err: "touches_only name d (snd (RecordError name reason d1))" "map cached (t_rulesets (snd (RecordError name reason d1))) = map cached (t_rulesets d)" for reason
    using touches_trans [OF same_touches [OF same] RecordError_keeps(1)] RecordError_keeps(2) [of name reason d1] same_rulesets [OF same] by auto
  show thesis
  proof (cases g)
    case (Inl e)
    then show ?thesis using assms g same same_touches same_rulesets by (intro failed [of e]) (auto simp: SyncOne_def)
  next
    case (Inr rs)
    let ?q = "\<lparr>hq_URL = rs_SourceURL rs, hq_UserAgent = so_UserAgent opts, hq_IfNoneMatch = rs_ETag rs, hq_IfModifiedSince = rs_LastModified rs\<rparr>"
    note run = assms [unfolded SyncOne_def g Inr prod.case sum.case Let_def]
    consider e where "r = Inl e" "d' = snd (RecordError name (msg e) d1)" | e where "r = Inl e" "d' = d1"
      | "TouchSyncedAt name d1 = (r, d')"
      | body etag lm where "length body \<le> so_MaxBytes opts" "UpdateContent name body (length (fst (Import body no_options))) etag lm d1 = (r, d')"
      using run by (auto split: sum.splits if_splits simp: not_less simp del: length_take)
    then show ?thesis
    proof cases
      case 1
      then show ?thesis using err by (intro failed) auto
    next
      case 2
      then show ?thesis using same same_touches same_rulesets by (intro failed) auto
    next
      case 3
      then show ?thesis using same by (intro unchanged)
    next
      case 4
      then show ?thesis using same by (intro fresh)
    qed
  qed
qed


section \<open>Properties of a sync\<close>

definition sample_rulesets_db :: DB where
  "sample_rulesets_db = emptyDB\<lparr>t_rulesets := [\<lparr>rt_name = ''gfw'', rt_source_url = ''http://l.test/g'', rt_kind = ''clash'', rt_action = ''exit-1'', rt_priority = 500,
     rt_enabled = 1, rt_etag = [], rt_last_modified = [], rt_last_synced_at = None, rt_last_error = Some ''x'', rt_rule_count = 0, rt_content = None,
     rt_created_at = 0, rt_created_by = []\<rparr>]\<rparr>"

lemma expandList_length:
  assumes "contributes rs" "expandList isDN [rs] = Inr rules"
  shows "length rules = length (fst (Import (rs_Content rs) no_options))"
proof -
  obtain ls rep where "Import (rs_Content rs) no_options = (ls, rep)" "lines_rules isDN rs 0 ls = Inr rules"
    using assms by (auto simp: contributes_def split: prod.splits sum.splits if_splits)
  then show ?thesis using arg_cong [OF conjunct2 [OF lines_rules_ok [of isDN rs 0 ls rules]], of length] by (simp del: upt_Suc)
qed

text \<open>A sync touches the cache of one ruleset and nothing else.  Whatever the source answers and whichever statement
  fails, every registration and every other row and table is as before; after an error the cached content, its rule
  count and its cache headers are as before, so the last good body stays in use; after a success each row of that
  name either kept its cache (not modified) or holds a body within the size cap, its error is cleared, and its rule
  count is the number of rules it expands to.\<close>

theorem sync_touches_cache_only:
  assumes "SyncOne parse_url msg opts client name d = (r, d')"
  shows "touches_only name d d' \<and>
    (case r of
       Inl e \<Rightarrow> map cached (t_rulesets d') = map cached (t_rulesets d)
     | Inr _ \<Rightarrow> map cached (t_rulesets d') = map cached (t_rulesets d) \<or>
         (\<exists>body. length body \<le> so_MaxBytes opts \<and>
           (\<forall>x\<in>set (t_rulesets d'). rt_name x = name \<longrightarrow> rt_content x = Some body \<and> rt_last_error x = None \<and>
             (\<forall>isDN rules. contributes (scanRow x) \<longrightarrow> expandList isDN [scanRow x] = Inr rules \<longrightarrow> length rules = rt_rule_count x))))"
  using assms
proof (cases rule: SyncOne_cases)
  case (failed e)
  then show ?thesis by simp
next
  case (unchanged d1)
  have "touches_only name d1 d'" by (rule update_touches [OF unchanged(2) [unfolded TouchSyncedAt_def]]) (simp add: registration_def)
  then have "touches_only name d d'" using unchanged(1) same_touches touches_trans by blast
  moreover have "map cached (t_rulesets d') = map cached (t_rulesets d1)"
    by (rule update_cached [OF unchanged(2) [unfolded TouchSyncedAt_def]]) (simp add: cached_def)
  ultimately show ?thesis using same_rulesets [OF unchanged(1)] by (simp split: sum.split)
next
  case (fresh d1 body etag lm)
  note u = fresh(3) [unfolded UpdateContent_def]
  have "touches_only name d1 d'" by (rule update_touches [OF u]) (simp add: registration_def)
  then have t: "touches_only name d d'" using fresh(1) same_touches touches_trans by blast
  show ?thesis
  proof (cases rule: update_ruleset_cases [of name "\<lambda>now x. x\<lparr>rt_content := Some body, rt_rule_count := length (fst (Import body no_options)),
     rt_etag := etag, rt_last_modified := lm, rt_last_synced_at := Some now, rt_last_error := None\<rparr>" d1])
    case (fault e fs)
    then show ?thesis using u t same_rulesets [OF fresh(1)] by auto
  next
    case (run fs)
    have r: "r = Inr ()" using u run by simp
    have d': "d' = d1\<lparr>db_faults := fs, t_rulesets := map (\<lambda>x. if rt_name x = name then x\<lparr>rt_content := Some body,
        rt_rule_count := length (fst (Import body no_options)), rt_etag := etag, rt_last_modified := lm, rt_last_synced_at := Some (db_now d1),
        rt_last_error := None\<rparr> else x) (t_rulesets d1)\<rparr>"
      using trans [OF u [symmetric] run] by (rule Pair_inject)
    have rows: "t_rulesets d' = map (\<lambda>x. if rt_name x = name then x\<lparr>rt_content := Some body,
        rt_rule_count := length (fst (Import body no_options)), rt_etag := etag, rt_last_modified := lm, rt_last_synced_at := Some (db_now d1),
        rt_last_error := None\<rparr> else x) (t_rulesets d1)" unfolding d' by simp
    have "rt_content x = Some body \<and> rt_last_error x = None \<and> rt_rule_count x = length (fst (Import body no_options))"
      if "x \<in> set (t_rulesets d')" "rt_name x = name" for x
    proof -
      note h = that
      obtain y where "x = (if rt_name y = name then y\<lparr>rt_content := Some body, rt_rule_count := length (fst (Import body no_options)),
          rt_etag := etag, rt_last_modified := lm, rt_last_synced_at := Some (db_now d1), rt_last_error := None\<rparr> else y)"
        using h(1) unfolding rows set_map image_iff by (elim bexE)
      then show ?thesis using h(2) by (cases "rt_name y = name") simp_all
    qed
    moreover have "rs_Content (scanRow x) = body" if "rt_content x = Some body" for x by (simp add: scanRow_def that)
    ultimately have "\<forall>x\<in>set (t_rulesets d'). rt_name x = name \<longrightarrow> rt_content x = Some body \<and> rt_last_error x = None \<and>
             (\<forall>isDN rules. contributes (scanRow x) \<longrightarrow> expandList isDN [scanRow x] = Inr rules \<longrightarrow> length rules = rt_rule_count x)"
      using expandList_length by metis
    then show ?thesis using t r fresh(2) by auto
  qed
qed

theorem sync_touches_cache_only_witness:
  "\<exists>r d'. SyncOne (\<lambda>_. Some \<lparr>u_Scheme = ''http'', u_Hostname = ''l.test'', u_User = None\<rparr>) (\<lambda>_. ''err'') (NewSyncer \<lparr>so_Timeout = 0, so_MaxBytes = 9, so_UserAgent = []\<rparr>)
       (\<lambda>_. Inr \<lparr>hr_StatusCode = 200, hr_Body = Inr ''0123456789'', hr_ETag = [], hr_LastModified = []\<rparr>) ''gfw'' sample_rulesets_db = (r, d') \<and>
     r = Inl (RsTooLong 9) \<and> map rt_content (t_rulesets d') = [None] \<and> map rt_last_error (t_rulesets d') = [Some ''err'']"
proof -
  let ?S = "SyncOne (\<lambda>_. Some \<lparr>u_Scheme = ''http'', u_Hostname = ''l.test'', u_User = None\<rparr>) (\<lambda>_. ''err'') (NewSyncer \<lparr>so_Timeout = 0, so_MaxBytes = 9, so_UserAgent = []\<rparr>)
       (\<lambda>_. Inr \<lparr>hr_StatusCode = 200, hr_Body = Inr ''0123456789'', hr_ETag = [], hr_LastModified = []\<rparr>) ''gfw'' sample_rulesets_db"
  obtain d' where s: "?S = (Inl (RsTooLong 9), d')" "map rt_last_error (t_rulesets d') = [Some ''err'']"
    by (simp add: SyncOne_def Rulesets_Get_def select1_def stmt_def sample_rulesets_db_def emptyDB_def scanRow_def ValidateHTTPURL_def NewSyncer_def
        RecordError_def update_ruleset_def liftR_def Let_def)
  have "map cached (t_rulesets d') = map cached (t_rulesets sample_rulesets_db)" using sync_touches_cache_only [OF s(1)] by simp
  then have "map (fst \<circ> cached) (t_rulesets d') = map (fst \<circ> cached) (t_rulesets sample_rulesets_db)" by (metis map_map)
  then have "map rt_content (t_rulesets d') = [None]" by (simp add: cached_def comp_def sample_rulesets_db_def emptyDB_def)
  then show ?thesis using s by auto
qed

end
