(* ===== verification/ApplyApi.thy ===== *)
theory ApplyApi
  imports Feed Rulesets
begin

text \<open>
  The handlers through which the panel changes the live rules: \<open>internal/api/rules.go\<close> (list, dry run, apply, status) and
  \<open>internal/api/snapshots.go\<close> (list, roll back, restore a backup).

  A handler runs on the orchestrator, the \<open>Applier\<close> with its database, and the feed of applies.  Bodies and path
  parameters arrive decoded.  YAML encoding, and the tar and gzip readers, are parameters; the texts of errors are left out.
\<close>

section \<open>Rulesets in a rule list\<close>

definition stripRulesetExpansions :: "Rule list \<Rightarrow> string list \<Rightarrow> Rule list" where
  "stripRulesetExpansions rs groups = filter (\<lambda>r. \<not> (rule_GroupID r \<noteq> [] \<and> rule_GroupID r \<in> set groups)) rs"

text \<open>\<open>registry\<close> is whether the server has a ruleset store.\<close>

definition expandRulesets :: "bool \<Rightarrow> (string \<Rightarrow> bool) \<Rightarrow> Rule list \<Rightarrow> Rule list rsm" where
  "expandRulesets registry isDN rs = (\<lambda>d. if \<not> registry then (Inr rs, d)
     else case ExpandWithGroups isDN d of
         (Inl e, d) \<Rightarrow> (Inl e, d)
       | (Inr (extra, groups), d) \<Rightarrow> (Inr (stripRulesetExpansions rs groups @ extra), d))"

section \<open>Rules handlers (\<open>rules.go\<close>)\<close>

datatype 'a answer = Answer "'a reply" | NilPanic

definition handleListRules :: "rule_lib \<Rightarrow> ApplierState \<Rightarrow> Rule list reply \<times> ApplierState" where
  "handleListRules lib a = (case run_db GetActiveRuleVersion a of
      (Inl e, a) \<Rightarrow> (if e = ErrNoRows then ReplyOK [] else ReplyError 500 ''db_error'', a)
    | (Inr active, a) \<Rightarrow> (case ParseYAML (rl_isdomain lib) (rl_decode lib) (rv_RulesYAML active) of
          Inl e \<Rightarrow> (ReplyError 500 ''parse_error'', a)
        | Inr rs \<Rightarrow> (ReplyOK rs, a)))"

record dryRunRequest =
  dq_Rules :: "Rule list"
  dq_Fixtures :: "TestFixture list"

record dryRunResponse =
  dp_Results :: "DryRunResult list"
  dp_Passed :: nat
  dp_Failed :: nat

definition base_exit :: "'r Config option \<Rightarrow> string" where
  "base_exit base = (case base of None \<Rightarrow> [] | Some cfg \<Rightarrow> (case cfg_Exits cfg of Some (e # _) \<Rightarrow> ec_ID e | _ \<Rightarrow> []))"

definition handleDryRun :: "'r env \<Rightarrow> bool \<Rightarrow> (string, dryRunRequest) result \<Rightarrow> ApplierState \<Rightarrow> dryRunResponse reply \<times> ApplierState" where
  "handleDryRun en registry body a = (case body of
      Inl e \<Rightarrow> (ReplyError 400 ''bad_request'', a)
    | Inr req \<Rightarrow> (case run_db (expandRulesets registry (rl_isdomain (en_lib en)) (dq_Rules req)) a of
          (Inl e, a) \<Rightarrow> (ReplyError 503 ''ruleset_expand_failed'', a)
        | (Inr rs, a) \<Rightarrow>
            if RuleSet_Validate (rl_isdomain (en_lib en)) rs \<noteq> None then (ReplyError 400 ''validation_failed'', a)
            else
              let target = fst (ResolveFallthrough rs (base_exit (en_BaseConfig en)) ''PROXY'');
                  res = DryRun rs (dq_Fixtures req) target;
                  passed = length (filter dr_Pass res) in
              (ReplyOK \<lparr>dp_Results = res, dp_Passed = passed, dp_Failed = length res - passed\<rparr>, a)))"

record applyRequest =
  aq_Rules :: "Rule list"
  aq_Note :: string

record applyResponse =
  rp_SnapshotID :: int
  rp_RuleVersionID :: int
  rp_RolledBack :: bool
  rp_Health :: string
  rp_Reason :: string

text \<open>200 with the result, or 202 with the id to poll.\<close>

datatype apply_answer = ApplyDone applyResponse | ApplyPending int int string string string

definition prev_snapshot :: "ApplierState \<Rightarrow> (db_error, int) result \<times> ApplierState" where
  "prev_snapshot a = (case run_db GetActiveRuleVersion a of
      (Inr prev, a) \<Rightarrow> (Inr (rv_SnapshotID prev), a)
    | (Inl e, a) \<Rightarrow> if e = ErrNoRows then (Inr 0, a) else (Inl e, a))"

text \<open>\<open>errors.Is(err, orchestrator.ErrApplyInFlight)\<close>.\<close>

fun in_flight :: "core_error \<Rightarrow> bool" where
  "in_flight (CoreOrch e) = (e = ErrApplyInFlight)"
| "in_flight (CoreJoin e e') = (in_flight e \<or> in_flight e')"
| "in_flight _ = False"

definition audit_as :: "string \<Rightarrow> string \<Rightarrow> string \<Rightarrow> string \<Rightarrow> string \<Rightarrow> string \<Rightarrow> ApplierState \<Rightarrow> ApplierState" where
  "audit_as actor action target after result ip a = snd (run_db (AppendAudit \<lparr>ae_Actor = actor, ae_Action = action, ae_Target = target,
     ae_Before = [], ae_After = after, ae_Result = result, ae_IP = ip\<rparr>) a)"

text \<open>The snapshot and the inactive version that \<open>handleApply\<close> writes before it calls the \<open>Applier\<close>: its two ids and the
  snapshot active now.\<close>

definition store_version :: "'r env \<Rightarrow> string \<Rightarrow> RuleSet \<Rightarrow> string \<Rightarrow> ApplierState \<Rightarrow> (string, int \<times> int \<times> int) result \<times> ApplierState" where
  "store_version en note rs yaml a = (case run_db (InsertSnapshot \<lparr>sn_ID = 0, sn_CreatedAt = 0, sn_ConfigHash = HashRules (en_sha en) rs,
        sn_TarballPath = [], sn_Note = note\<rparr>) a of
      (Inl e, a) \<Rightarrow> (Inl ''snapshot_error'', a)
    | (Inr snapID, a) \<Rightarrow> (case prev_snapshot a of
          (Inl e, a) \<Rightarrow> (Inl ''rule_version_error'', a)
        | (Inr prevSnapshot, a) \<Rightarrow> (case run_db (InsertRuleVersion snapID yaml False) a of
              (Inl e, a) \<Rightarrow> (Inl ''rule_version_error'', a)
            | (Inr rvID, a) \<Rightarrow> (Inr (snapID, rvID, prevSnapshot), a))))"

type_synonym ('o, 'a) handler = "'o \<times> ApplierState \<times> applyStore \<Rightarrow> 'a answer \<times> 'o \<times> ApplierState \<times> applyStore"

definition handleApply :: "'r env \<Rightarrow> ('o, 'r) orch_ops option \<Rightarrow> bool \<Rightarrow> (RuleSet \<Rightarrow> (string, string) result) \<Rightarrow> (nat \<Rightarrow> int) \<Rightarrow> string \<Rightarrow>
    string \<Rightarrow> string \<Rightarrow> (string, applyRequest) result \<Rightarrow> ('o, apply_answer) handler" where
  "handleApply en orch registry marshal tick i actor remote body x = (case x of (o', a, f) \<Rightarrow>
     (case body of
        Inl e \<Rightarrow> (Answer (ReplyError 400 ''bad_request''), o', a, f)
      | Inr req \<Rightarrow> (case run_db (expandRulesets registry (rl_isdomain (en_lib en)) (aq_Rules req)) a of
            (Inl e, a) \<Rightarrow> (Answer (ReplyError 503 ''ruleset_expand_failed''), o', a, f)
          | (Inr rs, a) \<Rightarrow>
              if RuleSet_Validate (rl_isdomain (en_lib en)) rs \<noteq> None then (Answer (ReplyError 400 ''validation_failed''), o', a, f)
              else (case marshal rs of
                  Inl e \<Rightarrow> (Answer (ReplyError 500 ''marshal_error''), o', a, f)
                | Inr yaml \<Rightarrow> (case store_version en (aq_Note req) rs yaml a of
                      (Inl code, a) \<Rightarrow> (Answer (ReplyError 500 code), o', a, f)
                    | (Inr (snapID, rvID, prevSnapshot), a) \<Rightarrow>
                        (case ApplyRules en orch snapID rvID prevSnapshot (o', a) of
                           ((appRes, appErr), o', a) \<Rightarrow>
                             let result = (if cr_RolledBack appRes then ''rolled_back''
                                   else case appErr of None \<Rightarrow> ''ok'' | Some e \<Rightarrow> if in_flight e then ''in_flight'' else ''failed'');
                                 a = audit_as actor ''rules.apply'' (HashRules (en_sha en) rs) yaml result (clientIP remote) a in
                             (case appErr of
                                Some e \<Rightarrow> (Answer (if in_flight e then ReplyError 409 ''apply_in_flight'' else ReplyError 500 ''apply_failed''), o', a, f)
                              | None \<Rightarrow> (case trackRuleApply (en_sha en) tick i rs ''apply'' appRes f of
                                    (None, f) \<Rightarrow> (NilPanic, o', a, f)
                                  | (Some entry, f) \<Rightarrow>
                                      if ent_Status entry = ''pending''
                                      then (Answer (ReplyOK (ApplyPending snapID rvID (ent_ID entry) (ent_Hash entry) (cr_Health appRes))), o', a, f)
                                      else (Answer (ReplyOK (ApplyDone \<lparr>rp_SnapshotID = snapID, rp_RuleVersionID = rvID, rp_RolledBack = cr_RolledBack appRes,
                                              rp_Health = cr_Health appRes, rp_Reason = cr_Reason appRes\<rparr>)), o', a, f)))))))))"

definition handleApplyStatus :: "bool \<Rightarrow> ApplierState \<Rightarrow> ApplyStatusSnapshot option reply \<times> ApplierState" where
  "handleApplyStatus wired a = (if \<not> wired then (ReplyError 500 ''applier_missing'', a)
     else case Applier_Status a of (Inl e, a) \<Rightarrow> (ReplyError 500 ''db_error'', a) | (Inr s, a) \<Rightarrow> (ReplyOK s, a))"

section \<open>Snapshot handlers (\<open>snapshots.go\<close>)\<close>

record snapshotEntry =
  se_ID :: int
  se_CreatedAt :: int
  se_ConfigHash :: string
  se_Note :: string
  se_Active :: bool
  se_Rollbackable :: bool

definition rollbackableSnapshotIDs :: "Snapshot list \<Rightarrow> int list dbm" where
  "rollbackableSnapshotIDs snaps = (if snaps = [] then returnD []
     else stmt (\<lambda>d. (Inr (remdups (filter (\<lambda>i. i \<in> sn_ID ` set snaps) (map rv_SnapshotID (t_versions d)))), d)))"

text \<open>\<open>limit\<close> is the query parameter when it is a number.\<close>

definition handleListSnapshots :: "int option \<Rightarrow> ApplierState \<Rightarrow> snapshotEntry list reply \<times> ApplierState" where
  "handleListSnapshots limit a = (let limit = (case limit of Some n \<Rightarrow> if n > 0 \<and> n \<le> 500 then n else 50 | None \<Rightarrow> 50) in
     case run_db (ListSnapshots limit) a of
       (Inl e, a) \<Rightarrow> (ReplyError 500 ''db_error'', a)
     | (Inr rows, a) \<Rightarrow> (case run_db (rollbackableSnapshotIDs rows) a of
           (Inl e, a) \<Rightarrow> (ReplyError 500 ''db_error'', a)
         | (Inr rollbackable, a) \<Rightarrow> (case prev_snapshot a of
               (Inl e, a) \<Rightarrow> (ReplyError 500 ''db_error'', a)
             | (Inr active, a) \<Rightarrow> (ReplyOK (map (\<lambda>r. \<lparr>se_ID = sn_ID r, se_CreatedAt = sn_CreatedAt r, se_ConfigHash = sn_ConfigHash r,
                  se_Note = sn_Note r, se_Active = (sn_ID r = active), se_Rollbackable = (sn_ID r \<in> set rollbackable)\<rparr>) rows), a))))"

record rollbackResponse =
  rb_SnapshotID :: int
  rb_RuleVersionID :: int
  rb_ApplyID :: string
  rb_Status :: string
  rb_Hash :: string
  rb_Health :: string
  rb_RolledBack :: bool
  rb_Reason :: string

definition handleRollbackSnapshot :: "'r env \<Rightarrow> ('o, 'r) orch_ops option \<Rightarrow> (nat \<Rightarrow> int) \<Rightarrow> string \<Rightarrow> string \<Rightarrow> string \<Rightarrow> int option \<Rightarrow>
    ('o, rollbackResponse) handler" where
  "handleRollbackSnapshot en orch tick i actor remote idParam x = (case x of (o', a, f) \<Rightarrow>
     (case idParam of
        None \<Rightarrow> (Answer (ReplyError 400 ''bad_request''), o', a, f)
      | Some n \<Rightarrow> (case run_db (GetSnapshotByID n) a of
            (Inl e, a) \<Rightarrow> (Answer (if e = ErrNoRows then ReplyError 404 ''not_found'' else ReplyError 500 ''db_error''), o', a, f)
          | (Inr snap, a) \<Rightarrow> (case run_db (GetRuleVersionBySnapshot (sn_ID snap)) a of
                (Inl e, a) \<Rightarrow> (Answer (if e = ErrNoRows then ReplyError 409 ''no_rules'' else ReplyError 500 ''db_error''), o', a, f)
              | (Inr target, a) \<Rightarrow> (case ParseYAML (rl_isdomain (en_lib en)) (rl_decode (en_lib en)) (rv_RulesYAML target) of
                    Inl e \<Rightarrow> (Answer (ReplyError 500 ''rules_corrupt''), o', a, f)
                  | Inr rs \<Rightarrow>
                      if RuleSet_Validate (rl_isdomain (en_lib en)) rs \<noteq> None then (Answer (ReplyError 500 ''rules_corrupt''), o', a, f)
                      else (case prev_snapshot a of
                          (Inl e, a) \<Rightarrow> (Answer (ReplyError 500 ''db_error''), o', a, f)
                        | (Inr prevSnapshot, a) \<Rightarrow> (case ApplyRules en orch (sn_ID snap) (rv_ID target) prevSnapshot (o', a) of
                              ((appRes, Some e), o', a) \<Rightarrow>
                                (Answer (if in_flight e then ReplyError 409 ''apply_in_flight'' else ReplyError 500 ''rollback_failed''), o', a, f)
                            | ((appRes, None), o', a) \<Rightarrow> (case trackRuleApply (en_sha en) tick i rs ''rollback'' appRes f of
                                  (None, f) \<Rightarrow> (NilPanic, o', audit_as actor ''rules.rollback'' (sn_ConfigHash snap) []
                                      (if cr_Health appRes = ''observing'' then ''observing'' else ''ok'') (clientIP remote) a, f)
                                | (Some entry, f) \<Rightarrow> (Answer (ReplyOK \<lparr>rb_SnapshotID = sn_ID snap, rb_RuleVersionID = rv_ID target, rb_ApplyID = ent_ID entry,
                                      rb_Status = ent_Status entry, rb_Hash = ent_Hash entry, rb_Health = cr_Health appRes,
                                      rb_RolledBack = cr_RolledBack appRes, rb_Reason = cr_Reason appRes\<rparr>), o',
                                    audit_as actor ''rules.rollback'' (sn_ConfigHash snap) []
                                      (if cr_Health appRes = ''observing'' then ''observing'' else ''ok'') (clientIP remote) a, f)))))))))"

section \<open>Restoring a backup\<close>

definition backupMaxCompressedBytes :: int where "backupMaxCompressedBytes = 32 * 2 ^ 20"
definition backupMaxEntries :: nat where "backupMaxEntries = 256"
definition backupMaxTotalBytes :: int where "backupMaxTotalBytes = 128 * 2 ^ 20"
definition backupMaxMemberBytes :: int where "backupMaxMemberBytes = 128 * 2 ^ 20"
definition backupMaxRulesBytes :: nat where "backupMaxRulesBytes = 8 * 2 ^ 20"

text \<open>What the tar reader delivers before the end of the archive: an error, or a header and the bytes of the member (or the
  error met while reading them).\<close>

record tar_header =
  th_Name :: string
  th_Regular :: bool
  th_Size :: int

datatype tar_event = TarError | TarMember tar_header "(string, string) result"

record backup_scan =
  bs_entries :: nat
  bs_totalSize :: int
  bs_seen :: "string list"
  bs_rulesYAML :: string
  bs_ignored :: "string list"

definition scan_start :: backup_scan where
  "scan_start = \<lparr>bs_entries = 0, bs_totalSize = 0, bs_seen = [], bs_rulesYAML = [], bs_ignored = []\<rparr>"

text \<open>One turn of the loop over the members.\<close>

definition scan_member :: "tar_header \<Rightarrow> (string, string) result \<Rightarrow> backup_scan \<Rightarrow> (string, backup_scan) result" where
  "scan_member hdr content b =
     (if bs_entries b + 1 > backupMaxEntries then Inl ''backup_limits''
      else if \<not> th_Regular hdr then Inl ''bad_tar''
      else if th_Size hdr < 0 \<or> th_Size hdr > backupMaxMemberBytes then Inl ''backup_limits''
      else if bs_totalSize b + th_Size hdr > backupMaxTotalBytes then Inl ''backup_limits''
      else if th_Name hdr \<in> set (bs_seen b) then Inl ''duplicate_member''
      else
        let b = b\<lparr>bs_entries := bs_entries b + 1, bs_totalSize := bs_totalSize b + th_Size hdr, bs_seen := bs_seen b @ [th_Name hdr]\<rparr> in
        if th_Name hdr = ''rules/active.yaml'' then
          (if th_Size hdr > int backupMaxRulesBytes then Inl ''backup_limits''
           else case content of
               Inl e \<Rightarrow> Inl ''bad_tar''
             | Inr bytes \<Rightarrow>
                 let body = take (backupMaxRulesBytes + 1) bytes in
                 if body = [] \<or> length body > backupMaxRulesBytes then Inl ''bad_rules'' else Inr (b\<lparr>bs_rulesYAML := body\<rparr>))
        else if th_Name hdr \<in> {''snapshots/manifest.json'', ''db/5gpn.db'', ''README.txt''} then
          (case content of Inl e \<Rightarrow> Inl ''bad_tar'' | Inr _ \<Rightarrow> Inr (b\<lparr>bs_ignored := bs_ignored b @ [th_Name hdr]\<rparr>))
        else Inl ''unknown_member'')"

fun scan_archive :: "tar_event list \<Rightarrow> backup_scan \<Rightarrow> (string, backup_scan) result" where
  "scan_archive [] b = Inr b"
| "scan_archive (TarError # es) b = Inl ''bad_tar''"
| "scan_archive (TarMember hdr content # es) b = (case scan_member hdr content b of Inl e \<Rightarrow> Inl e | Inr b \<Rightarrow> scan_archive es b)"

record importBackupResponse =
  ib_Entries :: nat
  ib_TotalBytes :: int
  ib_Applied :: bool
  ib_Ignored :: "string list"
  ib_Health :: string
  ib_Reason :: string
  ib_ApplyID :: string
  ib_Status :: string
  ib_SnapshotID :: int

text \<open>\<open>archive\<close> is what the gzip reader makes of the body.\<close>

definition handleImportBackup :: "'r env \<Rightarrow> ('o, 'r) orch_ops option \<Rightarrow> bool \<Rightarrow> (nat \<Rightarrow> int) \<Rightarrow> string \<Rightarrow> string \<Rightarrow> string \<Rightarrow> int \<Rightarrow>
    (string, tar_event list) result \<Rightarrow> ('o, importBackupResponse) handler" where
  "handleImportBackup en orch wired tick i actor remote contentLength archive x = (case x of (o', a, f) \<Rightarrow>
     let refuse = (\<lambda>status code. (Answer (ReplyError status code), o', a, f)) in
     if \<not> wired then refuse 500 ''applier_missing''
     else if contentLength > backupMaxCompressedBytes then refuse 413 ''backup_too_large''
     else case archive of
         Inl e \<Rightarrow> refuse 400 ''bad_gzip''
       | Inr events \<Rightarrow> (case scan_archive events scan_start of
             Inl code \<Rightarrow> refuse 400 code
           | Inr b \<Rightarrow>
               if bs_rulesYAML b = [] then refuse 400 ''rules_missing''
               else (case ParseYAML (rl_isdomain (en_lib en)) (rl_decode (en_lib en)) (bs_rulesYAML b) of
                   Inl e \<Rightarrow> refuse 400 ''bad_rules''
                 | Inr rs \<Rightarrow>
                     if RuleSet_Validate (rl_isdomain (en_lib en)) rs \<noteq> None then refuse 400 ''bad_rules''
                     else (case ImportRules en orch (bs_rulesYAML b) actor (clientIP remote) (o', a) of
                         ((res, appErr), o', a) \<Rightarrow>
                           if appErr \<noteq> None \<or> cr_RolledBack res then
                             (Answer (ReplyError 500 ''import_failed''), o', audit_as actor ''backup.restore.rolled_back'' ''rules/active.yaml'' []
                               (case appErr of None \<Rightarrow> cr_Reason res | Some e \<Rightarrow> en_text en e) (clientIP remote) a, f)
                           else (case trackRuleApply (en_sha en) tick i rs ''import'' res f of
                               (None, f) \<Rightarrow> (NilPanic, o', a, f)
                             | (Some entry, f) \<Rightarrow>
                                 let pending = (ent_Status entry = ''pending''); health = (if pending then ''observing'' else ''confirmed'') in
                                 (Answer (ReplyOK \<lparr>ib_Entries = bs_entries b, ib_TotalBytes = bs_totalSize b, ib_Applied = (\<not> pending),
                                    ib_Ignored = bs_ignored b, ib_Health = health, ib_Reason = cr_Reason res, ib_ApplyID = ent_ID entry,
                                    ib_Status = ent_Status entry, ib_SnapshotID = cr_SnapshotID res\<rparr>), o',
                                  audit_as actor ''backup.restore'' ''rules/active.yaml'' [] health (clientIP remote) a, f))))))"

section \<open>The live plane: lemmas\<close>

text \<open>What a client of the panel can observe of the rules: the active version, the published table, the exits.\<close>

definition plane :: "ApplierState \<Rightarrow> RuleVersion option \<times> Store option \<times> ExitRow list" where
  "plane a = (find rv_Active (t_versions (ap_DB a)), ap_Resolver a, t_exits (ap_DB a))"

text \<open>Version \<open>v\<close> holds the YAML of \<open>rs\<close>, is the active one, and its table is published; the exits are those of \<open>a\<close>.\<close>

definition live :: "'r env \<Rightarrow> int \<Rightarrow> RuleSet \<Rightarrow> ApplierState \<Rightarrow> ApplierState \<Rightarrow> bool" where
  "live en v rs a a' = (\<exists>x. plane a' = (Some x, map_option (Store_Publish (Some (BuildTable (en_sha en) rs))) (ap_Resolver a), t_exits (ap_DB a)) \<and>
     rv_ID x = v \<and> ParseYAML (rl_isdomain (en_lib en)) (rl_decode (en_lib en)) (rv_RulesYAML x) = Inr rs)"

lemma same_pointers_plane: "same_pointers a a' \<Longrightarrow> plane a' = plane a"
  by (simp add: same_pointers_def plane_def)

lemma plane_live: "plane a = plane a0 \<Longrightarrow> live en v rs a a' \<Longrightarrow> live en v rs a0 a'"
  by (simp add: plane_def live_def)

lemma activated_live:
  assumes "db_wf (ap_DB a)" "prepared en i v t (ap_DB a)" "activated v t a a'"
  obtains x rs where "x \<in> set (t_versions (ap_DB a))" "rv_ID x = v" "rv_SnapshotID x = i"
    "ParseYAML (rl_isdomain (en_lib en)) (rl_decode (en_lib en)) (rv_RulesYAML x) = Inr rs" "live en v rs a a'"
proof -
  obtain x rs where x: "x \<in> set (t_versions (ap_DB a))" "rv_ID x = v" "rv_SnapshotID x = i"
    "ParseYAML (rl_isdomain (en_lib en)) (rl_decode (en_lib en)) (rv_RulesYAML x) = Inr rs" "t = BuildTable (en_sha en) rs"
    using assms(2) by (auto simp: prepared_def)
  have act: "\<And>y. y \<in> set (t_versions (ap_DB a')) \<Longrightarrow> rv_Active y \<longleftrightarrow> rv_ID y = v"
    and m: "map (set_rv False) (t_versions (ap_DB a')) = map (set_rv False) (t_versions (ap_DB a))"
    and rest: "ap_Resolver a' = map_option (Store_Publish (Some t)) (ap_Resolver a)" "t_exits (ap_DB a') = t_exits (ap_DB a)"
    using assms(3) by (auto simp: activated_def)
  have pre: "\<exists>z\<in>set zs. set_rv False z = set_rv False y" if "map (set_rv False) ys = map (set_rv False) zs" "y \<in> set ys" for ys zs y
    using that by (metis (no_types, lifting) image_iff image_set)
  obtain y where y: "y \<in> set (t_versions (ap_DB a'))" "set_rv False y = set_rv False x" using pre [OF m [symmetric] x(1)] by blast
  then have "rv_ID y = v" using x(2) by (metis RuleVersion.select_convs(1) RuleVersion.surjective RuleVersion.update_convs(5))
  then have "rv_Active y" using act y(1) by blast
  then obtain z where z: "find rv_Active (t_versions (ap_DB a')) = Some z" using y(1) by (cases "find rv_Active (t_versions (ap_DB a'))") (auto simp: find_None_iff)
  have zi: "z \<in> set (t_versions (ap_DB a'))" "rv_ID z = v" using find_Some_in [OF z] act by auto
  obtain z0 where z0: "z0 \<in> set (t_versions (ap_DB a))" "set_rv False z0 = set_rv False z" using pre [OF m zi(1)] by blast
  have "rv_ID z0 = v" "rv_RulesYAML z = rv_RulesYAML z0"
    using z0(2) zi(2) by (cases z; cases z0; simp)+
  moreover have "distinct (map rv_ID (t_versions (ap_DB a)))" using assms(1) by (simp add: wf_defs ids_ok_def)
  ultimately have "z0 = x" using x(1,2) z0(1) by (auto simp: distinct_map dest: inj_onD)
  then have "live en v rs a a'" using z zi(2) rest x(4,5) \<open>rv_RulesYAML z = rv_RulesYAML z0\<close> by (simp add: live_def plane_def)
  then show thesis using that x by blast
qed

context orchestrator_contract
begin

text \<open>An apply makes its version live, or the plane is as before.\<close>

lemma apply_plane:
  assumes "db_wf (ap_DB a)" "\<And>s. en_Store en = Some s \<Longrightarrow> store_reads s"
    and "ApplyRules en (Some ops) i v p (o1, a) = ((res, err), o2, a')"
  shows "if err = None \<and> cr_Health res \<noteq> ''observing''
    then \<exists>x rs. x \<in> set (t_versions (ap_DB a)) \<and> rv_ID x = v \<and> rv_SnapshotID x = i \<and>
      ParseYAML (rl_isdomain (en_lib en)) (rl_decode (en_lib en)) (rv_RulesYAML x) = Inr rs \<and> live en v rs a a'
    else plane a' = plane a"
  using apply_rules [OF assms] activated_live [OF assms(1), of en i v _ a'] same_pointers_plane [of a a'] by (auto split: if_splits) metis+

end

text \<open>The inserts that precede an apply do not touch the plane.\<close>

lemma InsertSnapshot_frame:
  assumes "InsertSnapshot s d = (r, d')"
  shows "t_versions d' = t_versions d \<and> t_exits d' = t_exits d"
  using pointer_frame_InsertSnapshot assms unfolding pointer_frame_def by (metis snd_conv)

lemma InsertRuleVersion_ok:
  assumes "InsertRuleVersion i y False d = (Inr v, d')"
  obtains c where "t_versions d' = t_versions d @ [\<lparr>rv_ID = v, rv_SnapshotID = i, rv_RulesYAML = y, rv_CreatedAt = c, rv_Active = False\<rparr>]"
    "t_exits d' = t_exits d"
proof -
  obtain d0 d1 where d: "same_tables d d0" "stmt (version_insert i y False) d0 = (Inr v, d1)" "same_tables d1 d'"
    using assms unfolding InsertRuleVersion_def by (elim transaction_ok) (simp add: bindD_def returnD_def)
  have "t_versions d1 = t_versions d0 @ [\<lparr>rv_ID = v, rv_SnapshotID = i, rv_RulesYAML = y, rv_CreatedAt = db_now d0, rv_Active = False\<rparr>]"
    "t_exits d1 = t_exits d0"
    using d(2) by (auto simp: version_insert_def Let_def dest!: stmt_Inr split: if_splits)
  then show thesis using that d(1,3) by (auto elim!: same_tablesE)
qed

lemma InsertRuleVersion_text:
  assumes "InsertRuleVersion i y False d = (Inr v, d')" "db_wf d'" "x \<in> set (t_versions d')" "rv_ID x = v"
  shows "rv_RulesYAML x = y"
proof -
  obtain c where c: "t_versions d' = t_versions d @ [\<lparr>rv_ID = v, rv_SnapshotID = i, rv_RulesYAML = y, rv_CreatedAt = c, rv_Active = False\<rparr>]"
    using InsertRuleVersion_ok [OF assms(1)] by metis
  have "distinct (map rv_ID (t_versions d'))" using assms(2) by (simp add: wf_defs ids_ok_def)
  then have "x \<notin> set (t_versions d)" using assms(4) unfolding c by auto
  then have "x = \<lparr>rv_ID = v, rv_SnapshotID = i, rv_RulesYAML = y, rv_CreatedAt = c, rv_Active = False\<rparr>" using assms(3) unfolding c by simp
  then show ?thesis by simp
qed

lemma InsertRuleVersion_error: "InsertRuleVersion i y False d = (Inl e, d') \<Longrightarrow> same_tables d d'"
  unfolding InsertRuleVersion_def by (rule transaction_error)

lemma run_db_eq: "run_db m a = (r, a') \<longleftrightarrow> (\<exists>d. m (ap_DB a) = (r, d) \<and> a' = a\<lparr>ap_DB := d\<rparr>)"
  by (auto simp: run_db_def split: prod.splits)

lemma prev_snapshot_same: "prev_snapshot a = (r, a') \<Longrightarrow> same_tables (ap_DB a) (ap_DB a') \<and> a' = a\<lparr>ap_DB := ap_DB a'\<rparr>"
  by (auto simp: prev_snapshot_def run_db_eq GetActiveRuleVersion_def split: prod.splits sum.splits if_splits dest: select1_same)

lemma conclude_result:
  assumes "conclude_rules en ops sid i v ps (ores, oerr) (o1, a) = ((keep, res, None), o2, a')"
  shows "cr_SnapshotID res = i \<and> cr_Health res = ar_Health ores \<and> cr_RolledBack res = ar_RolledBack ores \<and> oerr = None"
proof (cases oerr)
  case None
  then show ?thesis using assms by (auto simp: conclude_rules_def Let_def split: if_splits prod.splits option.splits)
next
  case (Some e)
  then show ?thesis using assms by (cases e) (auto simp: conclude_rules_def Let_def)
qed

context orchestrator_contract
begin

lemma apply_result:
  assumes "ApplyRules en (Some ops) i v p (o1, a) = ((res, None), o2, a')"
  shows "cr_SnapshotID res = i \<and> (cr_Health res \<noteq> ''observing'' \<longrightarrow> \<not> cr_RolledBack res)"
proof -
  obtain b prep o3 a3 keep where d: "dispatch_rules en ops i v prep (o3, b) = ((keep, res, None), o2, a3)"
    using assms by (auto simp: ApplyRules_def split: if_splits prod.splits sum.splits bool.splits)
  obtain cfg t pv ps pt where prep: "prep = (cfg, t, pv, ps, pt)" by (metis prod.exhaust)
  obtain sid c where s: "run_db (InsertApplyStatus i []) b = (Inr sid, c)"
    using d prep by (auto simp: dispatch_rules_def split: prod.splits sum.splits)
  let ?b = "registerInflight i \<lparr>ri_statusID = sid, ri_ruleVersionID = v, ri_priorVersionID = pv, ri_priorSnapshotID = ps, ri_targetTable = t,
      ri_priorTable = pt, ri_committed = False\<rparr> (clearTerminalStatus i c)"
  let ?req = "\<lparr>rq_SnapshotID = i, rq_RuleVersionID = v, rq_Config = Some cfg, rq_PrevSnapshot = ps, rq_Commit = True\<rparr>"
  obtain ores oerr o4 a4 where ap: "oo_Apply ops (commit_callback en) ?req (o3, ?b) = ((ores, oerr), o4, a4)" by (metis prod.exhaust)
  have "conclude_rules en ops sid i v ps (ores, oerr) (o4, a4) = ((keep, res, None), o2, a3)"
    using d prep s ap by (simp add: dispatch_rules_def Let_def)
  note c = conclude_result [OF this]
  show ?thesis using c ap apply_done [of "commit_callback en" ?req o3 ?b ores o4 a4] by auto
qed

end

section \<open>Handlers: lemmas\<close>

lemma AppendAudit_frame: "AppendAudit e d = (r, d') \<Longrightarrow> t_versions d' = t_versions d \<and> t_exits d' = t_exits d \<and> t_apply d' = t_apply d"
  unfolding AppendAudit_def by (cases rule: stmt_cases [of "\<lambda>d. (Inr (), d\<lparr>t_audit := t_audit d @ [e]\<rparr>)" d]) auto

lemma audit_as_plane [simp]: "plane (audit_as w x y z u v a) = plane a"
  by (auto simp: plane_def audit_as_def run_db_def split: prod.split dest: AppendAudit_frame)

lemma expandRulesets_same: "expandRulesets registry isDN rs d = (r, d') \<Longrightarrow> same_tables d d'"
proof -
  have l: "same_tables d e" if "Rulesets_List d = (q, e)" for d q e
    using that unfolding Rulesets_List_def liftR_def
    by (cases rule: stmt_cases [of "\<lambda>d. (Inr (map scanRow (by_priority (t_rulesets d))), d)" d]) auto
  assume "expandRulesets registry isDN rs d = (r, d')"
  then show ?thesis by (auto simp: expandRulesets_def ExpandWithGroups_def split: if_splits prod.splits sum.splits dest: l)
qed

lemma run_db_plane: "same_tables (ap_DB a) d \<Longrightarrow> plane (a\<lparr>ap_DB := d\<rparr>) = plane a"
  by (auto simp: plane_def elim!: same_tablesE)

lemma find_snoc_inactive: "\<not> P x \<Longrightarrow> find P (xs @ [x]) = find P xs"
  by (simp add: find_append split: option.split)

text \<open>Storing a version leaves the plane alone and yields an inactive version with the given text.\<close>

lemma store_version_ok:
  assumes "store_version en note rs yaml a = (r, a')" "db_wf (ap_DB a)"
  shows "plane a' = plane a \<and> db_wf (ap_DB a') \<and> a' = a\<lparr>ap_DB := ap_DB a'\<rparr> \<and>
    (\<forall>n v p. r = Inr (n, v, p) \<longrightarrow> (\<forall>x\<in>set (t_versions (ap_DB a')). rv_ID x = v \<longrightarrow> rv_RulesYAML x = yaml))"
proof -
  let ?s = "\<lparr>sn_ID = 0, sn_CreatedAt = 0, sn_ConfigHash = HashRules (en_sha en) rs, sn_TarballPath = [], sn_Note = note\<rparr>"
  obtain r1 d1 where 1: "InsertSnapshot ?s (ap_DB a) = (r1, d1)" by fastforce
  have w1: "db_wf d1" using keepsD [OF keeps_InsertSnapshot assms(2) 1] .
  have p1: "plane (a\<lparr>ap_DB := d1\<rparr>) = plane a" using InsertSnapshot_frame [OF 1] by (simp add: plane_def)
  show ?thesis
  proof (cases r1)
    case (Inl e)
    then show ?thesis using assms(1) 1 w1 p1 by (auto simp: store_version_def run_db_def)
  next
    case (Inr n)
    obtain r2 a2 where 2: "prev_snapshot (a\<lparr>ap_DB := d1\<rparr>) = (r2, a2)" by fastforce
    obtain d2 where d2: "same_tables d1 d2" "a2 = a\<lparr>ap_DB := d2\<rparr>" using prev_snapshot_same [OF 2] by (metis ApplierState.select_convs(1) ApplierState.surjective ApplierState.update_convs(1))
    have w2: "db_wf d2" "plane a2 = plane a" using wf_same_tables [OF w1 d2(1)] run_db_plane [of "a\<lparr>ap_DB := d1\<rparr>" d2] d2 p1 by simp_all
    show ?thesis
    proof (cases r2)
      case Inl
      then show ?thesis using assms(1) 1 2 Inr d2 w2 by (auto simp: store_version_def run_db_def)
    next
      case r2: (Inr p)
      obtain r3 d3 where 3: "InsertRuleVersion n yaml False d2 = (r3, d3)" by fastforce
      have w3: "db_wf d3" using keepsD [OF keeps_InsertRuleVersion w2(1) 3] .
      show ?thesis
      proof (cases r3)
        case Inl
        then show ?thesis using assms(1) 1 2 Inr r2 3 d2 w3 w2(2) run_db_plane [of a2 d3] InsertRuleVersion_error [of n yaml d2 _ d3]
          by (auto simp: store_version_def run_db_def)
      next
        case r3: (Inr v)
        obtain c where c: "t_versions d3 = t_versions d2 @ [\<lparr>rv_ID = v, rv_SnapshotID = n, rv_RulesYAML = yaml, rv_CreatedAt = c, rv_Active = False\<rparr>]"
          "t_exits d3 = t_exits d2" using InsertRuleVersion_ok [OF 3 [unfolded r3]] by metis
        have a': "a' = a\<lparr>ap_DB := d3\<rparr>" "r = Inr (n, v, p)" using assms(1) 1 2 Inr r2 3 r3 d2 by (auto simp: store_version_def run_db_def)
        have "plane a' = plane a" using w2(2) c d2(2) by (simp add: a' plane_def find_snoc_inactive)
        moreover note InsertRuleVersion_text [OF 3 [unfolded r3] w3]
        ultimately show ?thesis using w3 a' by simp
      qed
    qed
  qed
qed

text \<open>Tracking an apply that was answered without an error.\<close>

lemma track_ok:
  assumes "feed_history h f" "i \<notin> set h" "tick 2 - tick 0 \<le> applyRingTTL" "trackApplyResult tick i hash kind n res f = (r, f')"
  obtains e where "r = Some e" "st_byID f' i = Some e" "ent_ID e = i" "ent_SnapshotID e = cr_SnapshotID res" "ent_StartedAt e = tick 0"
    "ent_Status e = (if cr_Health res = ''observing'' then ''pending'' else if cr_RolledBack res then ''failed'' else ''succeeded'')"
    "feed_history (h @ [i]) f'"
proof -
  obtain e0 f0 where c: "feed_create (tick 0) i hash kind n (cr_SnapshotID res) f = (e0, f0)" by fastforce
  note ok = feed_create_ok(2-6) [OF history_ok [OF assms(1)] assms(2) c]
  have h: "feed_history (h @ [i]) f0" by (rule feed_history.created [OF assms(1,2) c])
  show thesis
  proof (cases "cr_Health res = ''observing''")
    case True
    then show ?thesis using that [of e0] assms(4) c ok h by (auto simp: trackApplyResult_def)
  next
    case False
    let ?st = "if cr_RolledBack res then ''failed'' else ''succeeded''" and ?msg = "if cr_RolledBack res then cr_Reason res else []"
    let ?f = "feed_finish (tick 1) i ?st ?msg f0" and ?e = "e0\<lparr>ent_Status := ?st, ent_Error := ?msg, ent_FinishedAt := Some (tick 1)\<rparr>"
    have g: "feed_Get (tick 2) i ?f = Some ?e" using feed_Get_finish [OF ok(1,3)] assms(3) ok(4) by simp
    have b: "st_byID ?f i = Some ?e" using ok(1,3) by (simp add: feed_finish_def)
    have f: "r = feed_Get (tick 2) i ?f" "f' = ?f" using assms(4) c False ok(2) by (auto simp: trackApplyResult_def Let_def)
    have "feed_history (h @ [i]) ?f" using h by (rule feed_history.finished) simp
    then show ?thesis using that [of ?e] f g b False ok by simp
  qed
qed

text \<open>A YAML library that reads back what it wrote.\<close>

definition yaml_ok :: "rule_lib \<Rightarrow> (RuleSet \<Rightarrow> (string, string) result) \<Rightarrow> bool" where
  "yaml_ok lib marshal = (\<forall>rs y. marshal rs = Inr y \<longrightarrow> rl_decode lib y = Inr rs)"

context orchestrator_contract
begin

text \<open>How a request that reaches the \<open>Applier\<close> goes on.\<close>

lemma handleApply_cases:
  assumes run: "handleApply en (Some ops) registry marshal tick i actor remote body (o1, a, f) = (ans, o2, a', f')"
    and w: "db_wf (ap_DB a)" and st: "\<And>s. en_Store en = Some s \<Longrightarrow> store_reads s" and y: "yaml_ok (en_lib en) marshal"
  obtains (refused) status code where "ans = Answer (ReplyError status code)" "plane a' = plane a" "f' = f"
  | (tried) req rs n v p b res err c where "body = Inr req" "fst (expandRulesets registry (rl_isdomain (en_lib en)) (aq_Rules req) (ap_DB a)) = Inr rs"
      "plane b = plane a" "db_wf (ap_DB b)" "b = a\<lparr>ap_DB := ap_DB b\<rparr>" "ApplyRules en (Some ops) n v p (o1, b) = ((res, err), o2, c)"
      "\<And>x. x \<in> set (t_versions (ap_DB b)) \<Longrightarrow> rv_ID x = v \<Longrightarrow> ParseYAML (rl_isdomain (en_lib en)) (rl_decode (en_lib en)) (rv_RulesYAML x) = Inr rs"
      "same_rows c a'" "same_pointers c a'" "a' = c\<lparr>ap_DB := ap_DB a'\<rparr>"
      "case err of Some e \<Rightarrow> f' = f \<and> (\<exists>status code. ans = Answer (ReplyError status code))
        | None \<Rightarrow> (case trackRuleApply (en_sha en) tick i rs ''apply'' res f of (r, g) \<Rightarrow> f' = g \<and> ans = (case r of None \<Rightarrow> NilPanic
            | Some entry \<Rightarrow> Answer (ReplyOK (if ent_Status entry = ''pending''
               then ApplyPending n v (ent_ID entry) (ent_Hash entry) (cr_Health res)
               else ApplyDone \<lparr>rp_SnapshotID = n, rp_RuleVersionID = v, rp_RolledBack = cr_RolledBack res, rp_Health = cr_Health res, rp_Reason = cr_Reason res\<rparr>))))"
      "db_wf (ap_DB c) \<Longrightarrow> db_wf (ap_DB a')"
proof -
  let ?isDN = "rl_isdomain (en_lib en)"
  show thesis
  proof (cases body)
    case (Inl e)
    then show ?thesis using run by (auto simp: handleApply_def intro: refused)
  next
    case (Inr req)
    obtain r1 d1 where 1: "expandRulesets registry ?isDN (aq_Rules req) (ap_DB a) = (r1, d1)" by fastforce
    let ?a1 = "a\<lparr>ap_DB := d1\<rparr>"
    have s1: "same_tables (ap_DB a) d1" using expandRulesets_same [OF 1] .
    have p1: "plane ?a1 = plane a" "db_wf (ap_DB ?a1)" using run_db_plane [OF s1] wf_same_tables [OF w s1] by simp_all
    show ?thesis
    proof (cases "\<exists>rs yaml. r1 = Inr rs \<and> RuleSet_Validate ?isDN rs = None \<and> marshal rs = Inr yaml")
      case False
      then show ?thesis using run Inr 1 p1(1) by (auto simp: handleApply_def run_db_def split: sum.splits if_splits intro: refused)
    next
      case True
      then obtain rs yaml where rs: "r1 = Inr rs" "RuleSet_Validate ?isDN rs = None" "marshal rs = Inr yaml" by blast
      obtain r2 b where 2: "store_version en (aq_Note req) rs yaml ?a1 = (r2, b)" by fastforce
      note sv = store_version_ok [OF 2 p1(2)]
      show ?thesis
      proof (cases r2)
        case (Inl code)
        then show ?thesis using run Inr 1 rs 2 sv p1(1) by (auto simp: handleApply_def run_db_def intro: refused)
      next
        case r2: (Inr q)
        obtain n v p where q: "q = (n, v, p)" by (metis prod.exhaust)
        obtain res err o3 c where ap: "ApplyRules en (Some ops) n v p (o1, b) = ((res, err), o3, c)" by (metis prod.exhaust)
        define result where "result = (if cr_RolledBack res then ''rolled_back''
            else case err of None \<Rightarrow> ''ok'' | Some e \<Rightarrow> if in_flight e then ''in_flight'' else ''failed'')"
        have fin: "a' = audit_as actor ''rules.apply'' (HashRules (en_sha en) rs) yaml result (clientIP remote) c" "o3 = o2"
          using run Inr 1 rs 2 r2 q ap by (auto simp: handleApply_def run_db_def Let_def result_def split: option.splits prod.splits if_splits)
        have "case err of Some e \<Rightarrow> f' = f \<and> (\<exists>status code. ans = Answer (ReplyError status code))
        | None \<Rightarrow> (case trackRuleApply (en_sha en) tick i rs ''apply'' res f of (r, g) \<Rightarrow> f' = g \<and> ans = (case r of None \<Rightarrow> NilPanic
            | Some entry \<Rightarrow> Answer (ReplyOK (if ent_Status entry = ''pending''
               then ApplyPending n v (ent_ID entry) (ent_Hash entry) (cr_Health res)
               else ApplyDone \<lparr>rp_SnapshotID = n, rp_RuleVersionID = v, rp_RolledBack = cr_RolledBack res, rp_Health = cr_Health res, rp_Reason = cr_Reason res\<rparr>))))"
          using run Inr 1 rs 2 r2 q ap by (auto simp: handleApply_def run_db_def Let_def split: option.splits prod.splits if_splits)
        moreover have "same_rows c a'" "same_pointers c a'" "a' = c\<lparr>ap_DB := ap_DB a'\<rparr>"
          unfolding fin by (auto simp: audit_as_def run_db_def same_rows_def same_pointers_def split: prod.split dest: AppendAudit_frame)
        moreover have "db_wf (ap_DB a')" if "db_wf (ap_DB c)"
          unfolding fin using that keeps_AppendAudit by (auto simp: audit_as_def run_db_def split: prod.split dest: keepsD)
        moreover have "ParseYAML ?isDN (rl_decode (en_lib en)) (rv_RulesYAML x) = Inr rs" if "x \<in> set (t_versions (ap_DB b))" "rv_ID x = v" for x
          using that sv r2 q rs(2,3) y by (auto simp: ParseYAML_def yaml_ok_def)
        ultimately show ?thesis using sv p1(1) Inr 1 rs(1) ap fin(2)
          by (intro tried [of req rs b n v p res err c]) auto
      qed
    qed
  qed
qed

end

section \<open>Properties\<close>

text \<open>(C1) An apply request, end to end.  Answered as done, the effective rule set (the submitted rules without the expansions
  of registered rulesets, plus their fresh expansions) is the text of the one active version and the published table, and
  its entry in the feed says so.  Answered as pending, the plane is as before and a pending entry can be polled.  Refused
  for whatever reason, the plane and the feed are as before.  The handler does not panic.\<close>

theorem apply_request_end_to_end:
  assumes "db_wf (ap_DB a)" "en_Store en = Some s" "store_reads s" "yaml_ok (en_lib en) marshal"
    and "feed_history h f" "i \<notin> set h" "tick 2 - tick 0 \<le> applyRingTTL"
    and "handleApply en (Some (systemd_ops rn)) registry marshal tick i actor remote body (o1, a, f) = (ans, o2, a', f')"
  shows "case ans of
      Answer (ReplyOK (ApplyDone rp)) \<Rightarrow> \<exists>req rs e. body = Inr req \<and> fst (expandRulesets registry (rl_isdomain (en_lib en)) (aq_Rules req) (ap_DB a)) = Inr rs \<and>
        live en (rp_RuleVersionID rp) rs a a' \<and> \<not> rp_RolledBack rp \<and> st_byID f' i = Some e \<and> ent_Status e = ''succeeded''
    | Answer (ReplyOK (ApplyPending n v j hash health)) \<Rightarrow> plane a' = plane a \<and> j = i \<and>
        (\<exists>e. st_byID f' i = Some e \<and> ent_Status e = ''pending'' \<and> ent_SnapshotID e = n)
    | Answer (ReplyError status code) \<Rightarrow> plane a' = plane a \<and> f' = f
    | NilPanic \<Rightarrow> False"
proof -
  have st: "\<And>x. en_Store en = Some x \<Longrightarrow> store_reads x" using assms(2,3) by simp
  show ?thesis
  proof (rule sd.handleApply_cases [OF assms(8,1) st assms(4)], goal_cases)
  case tried: (3 req rs n v p b res err c)
  note ap = sd.apply_plane [OF tried(4) st tried(6)] and pc = same_pointers_plane [OF tried(9)]
  show ?thesis
  proof (cases err)
    case (Some e)
    then show ?thesis using tried(3,11) ap pc by auto
  next
    case None
    note res = sd.apply_result [OF tried(6) [unfolded None]]
    obtain r g where t: "trackRuleApply (en_sha en) tick i rs ''apply'' res f = (r, g)" by fastforce
    obtain e where e: "r = Some e" "st_byID g i = Some e" "ent_ID e = i" "ent_SnapshotID e = cr_SnapshotID res"
      "ent_Status e = (if cr_Health res = ''observing'' then ''pending'' else if cr_RolledBack res then ''failed'' else ''succeeded'')"
      using track_ok [OF assms(5,6,7) t [unfolded trackRuleApply_def]] by metis
    show ?thesis
    proof (cases "cr_Health res = ''observing''")
      case True
      then show ?thesis using tried(3,11) ap pc None t e res by auto
    next
      case False
      then obtain x rs' where x: "x \<in> set (t_versions (ap_DB b))" "rv_ID x = v"
        "ParseYAML (rl_isdomain (en_lib en)) (rl_decode (en_lib en)) (rv_RulesYAML x) = Inr rs'" "live en v rs' b c"
        using ap None by auto
      then have "rs' = rs" using tried(7) [OF x(1,2)] by simp
      then have "live en v rs a a'" using x(4) plane_live [OF tried(3)] pc by (simp add: live_def)
      then show ?thesis using False tried(1,2,11) None t e res by auto
    qed
  qed
qed (use assms(2,3) in auto)
qed

lemma prepared_live:
  assumes "db_wf (ap_DB a)" "prepared en n v t (ap_DB a)" "activated v t a a'"
    and "\<And>x. x \<in> set (t_versions (ap_DB a)) \<Longrightarrow> rv_ID x = v \<Longrightarrow> ParseYAML (rl_isdomain (en_lib en)) (rl_decode (en_lib en)) (rv_RulesYAML x) = Inr rs"
  shows "live en v rs a a'"
  using activated_live [OF assms(1-3)] assms(4) by (metis sum.inject(2))

text \<open>The same state when the next statement does not fail.\<close>

definition no_fault :: "ApplierState \<Rightarrow> ApplierState" where
  "no_fault a = a\<lparr>ap_DB := (ap_DB a)\<lparr>db_faults := []\<rparr>\<rparr>"

lemma no_fault_result: "observation_result st n v t a a' \<Longrightarrow> observation_result st n v t a (no_fault a')"
  by (simp add: observation_result_def no_fault_def visible_state_def cache_only_def newest_row_def TerminalStatus_def activated_def same_pointers_def)

lemma no_fault_simps: "db_faults (ap_DB (no_fault a)) = []" "activated v t a (no_fault a') = activated v t a a'" "same_pointers a (no_fault a') = same_pointers a a'"
  by (simp_all add: no_fault_def activated_def same_pointers_def)

text \<open>Polling an entry whose row is still \<open>submitted\<close> leaves it pending.\<close>

lemma poll_pending:
  assumes w: "watched n v t b a2" and e: "st_byID f i = Some e" "ent_Status e = ''pending''" "ent_SnapshotID e = n"
    and ttl: "\<forall>k. tick k - ent_StartedAt e \<le> applyRingTTL" and db: "db_faults (ap_DB a2) = []"
  shows "handleApplyGet True tick i (f, a2) = (ReplyOK (Some e), f, a2)"
proof -
  obtain row where r: "t_apply (ap_DB a2) = t_apply (ap_DB b) @ [row]" "as_SnapshotID row = n" "newest_row b row" "as_State row = ''submitted''"
    "TerminalStatus n a2 = None" using w by (auto simp: watched_def)
  have "run_db (ApplyStatusBySnapshot n) a2 = (Inr (Some row), a2)"
    using last_filter_sorted [OF r(3) [unfolded newest_row_def] r(2)] r(1) db by (simp add: run_db_def ApplyStatusBySnapshot_def stmt_def)
  then show ?thesis using e r(4,5) ttl by (simp add: handleApplyGet_def refreshApplyEntry_def feed_Get_def not_less)
qed


lemma select1_found: "select1 q d = (Inr x, d') \<Longrightarrow> (\<And>fs. q (d\<lparr>db_faults := fs\<rparr>) = q d) \<Longrightarrow> q d = Some x"
  unfolding select1_def by (auto dest!: stmt_Inr split: option.splits)

lemma GetSnapshot_run:
  assumes "GetSnapshotByID n d = (r, d')"
  shows "same_tables d d'" "r = Inr s \<Longrightarrow> sn_ID s = n"
  using assms select1_same select1_found [of "\<lambda>d. find (\<lambda>s. sn_ID s = n) (t_snapshots d)" d s d'] find_Some_in [of "\<lambda>s. sn_ID s = n"]
  unfolding GetSnapshotByID_def by fastforce+

text \<open>The first row of a list in descending order of its ids.\<close>

lemma find_rev_sorted:
  assumes "find P (rev (sort_key rv_ID xs)) = Some x"
  shows "x \<in> set xs \<and> P x \<and> (\<forall>y\<in>set xs. P y \<longrightarrow> rv_ID y \<le> rv_ID x)"
proof -
  define l where "l = rev (sort_key rv_ID xs)"
  have set: "set l = set xs" by (simp add: l_def)
  have "sorted (rev (map rv_ID l))" unfolding l_def by (simp add: rev_map [symmetric])
  then have le: "rv_ID (l ! j) \<le> rv_ID (l ! k)" if "k \<le> j" "j < length l" for j k
    using that sorted_rev_nth_mono [of "map rv_ID l" k j] by simp
  obtain k where k: "k < length l" "l ! k = x" "P x" "\<forall>j<k. \<not> P (l ! j)" using assms unfolding l_def [symmetric] find_Some_iff by blast
  have "rv_ID y \<le> rv_ID x" if y: "y \<in> set xs" "P y" for y
  proof -
    obtain j where j: "j < length l" "l ! j = y" using y(1) unfolding set [symmetric] in_set_conv_nth by blast
    then show ?thesis using le [of k j] k(2,4) y(2) by (metis not_le)
  qed
  then show ?thesis using k set nth_mem [OF k(1)] by auto
qed

lemma GetBySnapshot_run:
  assumes "GetRuleVersionBySnapshot n d = (r, d')"
  shows "same_tables d d'"
    "r = Inr x \<Longrightarrow> x \<in> set (t_versions d) \<and> rv_SnapshotID x = n \<and> (\<forall>y\<in>set (t_versions d). rv_SnapshotID y = n \<longrightarrow> rv_ID y \<le> rv_ID x)"
proof -
  note g = assms [unfolded GetRuleVersionBySnapshot_def]
  show "same_tables d d'" by (rule select1_same [OF g])
  assume "r = Inr x"
  then have "find (\<lambda>r. rv_SnapshotID r = n) (rev (sort_key rv_ID (t_versions d))) = Some x" using select1_found [OF g [unfolded \<open>r = Inr x\<close>]] by simp
  then show "x \<in> set (t_versions d) \<and> rv_SnapshotID x = n \<and> (\<forall>y\<in>set (t_versions d). rv_SnapshotID y = n \<longrightarrow> rv_ID y \<le> rv_ID x)"
    by (rule find_rev_sorted)
qed

text \<open>How a roll back that reaches the \<open>Applier\<close> goes on.\<close>

lemma rollback_cases:
  assumes run: "handleRollbackSnapshot en orch tick i actor remote (Some n) (o1, a, f) = (ans, o2, a', f')" and w: "db_wf (ap_DB a)"
  obtains (refused) status code where "ans = Answer (ReplyError status code)" "plane a' = plane a" "f' = f"
  | (tried) x rs p b res err c where "x \<in> set (t_versions (ap_DB a))" "rv_SnapshotID x = n"
      "\<forall>y\<in>set (t_versions (ap_DB a)). rv_SnapshotID y = n \<longrightarrow> rv_ID y \<le> rv_ID x"
      "ParseYAML (rl_isdomain (en_lib en)) (rl_decode (en_lib en)) (rv_RulesYAML x) = Inr rs"
      "plane b = plane a" "db_wf (ap_DB b)" "t_versions (ap_DB b) = t_versions (ap_DB a)"
      "ApplyRules en orch n (rv_ID x) p (o1, b) = ((res, err), o2, c)" "plane a' = plane c"
      "case err of Some e \<Rightarrow> f' = f \<and> (\<exists>status code. ans = Answer (ReplyError status code))
        | None \<Rightarrow> (case trackRuleApply (en_sha en) tick i rs ''rollback'' res f of
            (None, g) \<Rightarrow> ans = NilPanic
          | (Some e, g) \<Rightarrow> f' = g \<and> (\<exists>rb. ans = Answer (ReplyOK rb) \<and> rb_RuleVersionID rb = rv_ID x \<and> rb_Status rb = ent_Status e))"
proof -
  let ?P = "ParseYAML (rl_isdomain (en_lib en)) (rl_decode (en_lib en))"
  obtain r1 d1 where 1: "GetSnapshotByID n (ap_DB a) = (r1, d1)" by fastforce
  note g1 = GetSnapshot_run [OF 1]
  note run = run [unfolded handleRollbackSnapshot_def prod.case option.case]
  show thesis
  proof (cases r1)
    case (Inl e)
    then show ?thesis using run 1 run_db_plane [of a d1] g1(1) by (auto simp: run_db_def split: if_splits intro: refused)
  next
    case (Inr snap)
    have sn: "sn_ID snap = n" using g1(2) Inr by blast
    obtain r2 d2 where 2: "GetRuleVersionBySnapshot n d1 = (r2, d2)" by fastforce
    note g2 = GetBySnapshot_run [OF 2]
    have t: "same_tables (ap_DB a) d2" "t_versions d1 = t_versions (ap_DB a)" "t_versions d2 = t_versions (ap_DB a)"
      using g1(1) g2(1) same_tables_trans by (auto elim!: same_tablesE)
    have p2: "plane (a\<lparr>ap_DB := d2\<rparr>) = plane a" "db_wf d2" using run_db_plane [OF t(1)] wf_same_tables [OF w t(1)] by simp_all
    show ?thesis
    proof (cases "\<exists>x rs. r2 = Inr x \<and> ?P (rv_RulesYAML x) = Inr rs")
      case False
      then show ?thesis using run 1 Inr sn 2 p2(1) by (auto simp: run_db_def split: sum.splits if_splits intro: refused)
    next
      case True
      then obtain x rs where x: "r2 = Inr x" "?P (rv_RulesYAML x) = Inr rs" by blast
      have val: "RuleSet_Validate (rl_isdomain (en_lib en)) rs = None" using x(2) by (auto simp: ParseYAML_def split: sum.splits option.splits)
      obtain r3 b where 3: "prev_snapshot (a\<lparr>ap_DB := d2\<rparr>) = (r3, b)" by fastforce
      note g3 = prev_snapshot_same [OF 3]
      have b: "plane b = plane a" "db_wf (ap_DB b)" "t_versions (ap_DB b) = t_versions (ap_DB a)"
        using g3 run_db_plane [of "a\<lparr>ap_DB := d2\<rparr>" "ap_DB b"] p2 wf_same_tables [OF p2(2)] t(3) by (auto elim!: same_tablesE)
      show ?thesis
      proof (cases r3)
        case Inl
        then show ?thesis using run 1 Inr sn 2 x val 3 b(1) by (auto simp: run_db_def intro: refused)
      next
        case r3: (Inr p)
        obtain res err o3 c where ap: "ApplyRules en orch n (rv_ID x) p (o1, b) = ((res, err), o3, c)" by (metis prod.exhaust)
        have "plane a' = plane c" "o3 = o2" "case err of Some e \<Rightarrow> f' = f \<and> (\<exists>status code. ans = Answer (ReplyError status code))
        | None \<Rightarrow> (case trackRuleApply (en_sha en) tick i rs ''rollback'' res f of
            (None, g) \<Rightarrow> ans = NilPanic
          | (Some e, g) \<Rightarrow> f' = g \<and> (\<exists>rb. ans = Answer (ReplyOK rb) \<and> rb_RuleVersionID rb = rv_ID x \<and> rb_Status rb = ent_Status e))"
          using run 1 Inr sn 2 x val 3 r3 ap by (auto simp: run_db_def split: option.splits prod.splits if_splits)
        then show ?thesis using g2(2) [OF x(1)] t(2) x(2) b ap by (intro tried [of x rs b p res err c]) auto
      qed
    qed
  qed
qed


section \<open>Backups: lemmas\<close>

definition member_names :: "string list" where
  "member_names = [''rules/active.yaml'', ''snapshots/manifest.json'', ''db/5gpn.db'', ''README.txt'']"

definition scan_ok :: "backup_scan \<Rightarrow> bool" where
  "scan_ok b = (bs_entries b = length (bs_seen b) \<and> distinct (bs_seen b) \<and> set (bs_seen b) \<subseteq> set member_names \<and>
     0 \<le> bs_totalSize b \<and> bs_totalSize b \<le> backupMaxTotalBytes \<and> length (bs_rulesYAML b) \<le> backupMaxRulesBytes \<and>
     (bs_rulesYAML b \<noteq> [] \<longrightarrow> ''rules/active.yaml'' \<in> set (bs_seen b)))"

lemma scan_member_ok:
  assumes "scan_member hdr content b = Inr b'" "scan_ok b"
  shows "scan_ok b'" "bs_seen b' = bs_seen b @ [th_Name hdr]" "bs_totalSize b' = bs_totalSize b + th_Size hdr" "th_Regular hdr"
    "bs_rulesYAML b' = (if th_Name hdr = ''rules/active.yaml'' then projr content else bs_rulesYAML b)"
proof -
  have h: "th_Regular hdr" "0 \<le> th_Size hdr" "bs_totalSize b + th_Size hdr \<le> backupMaxTotalBytes" "th_Name hdr \<notin> set (bs_seen b)"
    "th_Name hdr \<in> set member_names"
    using assms(1) by (auto simp: scan_member_def member_names_def Let_def split: if_splits sum.splits)
  show seen: "bs_seen b' = bs_seen b @ [th_Name hdr]" "bs_totalSize b' = bs_totalSize b + th_Size hdr" "th_Regular hdr"
    using assms(1) h(1) by (auto simp: scan_member_def Let_def split: if_splits sum.splits)
  have n: "bs_entries b' = bs_entries b + 1" using assms(1) by (auto simp: scan_member_def Let_def split: if_splits sum.splits)
  show y: "bs_rulesYAML b' = (if th_Name hdr = ''rules/active.yaml'' then projr content else bs_rulesYAML b)"
    using assms(1) by (auto simp: scan_member_def Let_def split: if_splits sum.splits)
  have len: "length (bs_rulesYAML b') \<le> backupMaxRulesBytes"
    using assms by (auto simp: scan_member_def scan_ok_def Let_def split: if_splits sum.splits)
  show "scan_ok b'" using assms(2) h n seen len y unfolding scan_ok_def by auto
qed

lemma scan_archive_ok: "scan_archive es b = Inr b' \<Longrightarrow> scan_ok b \<Longrightarrow>
    scan_ok b' \<and> (\<exists>ms. es = map (\<lambda>(h, c). TarMember h c) ms \<and> bs_seen b' = bs_seen b @ map (th_Name \<circ> fst) ms \<and>
      bs_totalSize b' = bs_totalSize b + sum_list (map (th_Size \<circ> fst) ms) \<and> list_all (th_Regular \<circ> fst) ms \<and>
      bs_rulesYAML b' = (case find (\<lambda>m. th_Name (fst m) = ''rules/active.yaml'') ms of Some m \<Rightarrow> projr (snd m) | None \<Rightarrow> bs_rulesYAML b))"
proof (induction es b rule: scan_archive.induct)
  case (3 hdr content es b)
  obtain b1 where b1: "scan_member hdr content b = Inr b1" "scan_archive es b1 = Inr b'" using "3.prems"(1) by (auto split: sum.splits)
  note m = scan_member_ok [OF b1(1) "3.prems"(2)]
  obtain ms where ms: "scan_ok b'" "es = map (\<lambda>(h, c). TarMember h c) ms" "bs_seen b' = bs_seen b1 @ map (th_Name \<circ> fst) ms"
    "bs_totalSize b' = bs_totalSize b1 + sum_list (map (th_Size \<circ> fst) ms)" "list_all (th_Regular \<circ> fst) ms"
    "bs_rulesYAML b' = (case find (\<lambda>m. th_Name (fst m) = ''rules/active.yaml'') ms of Some m \<Rightarrow> projr (snd m) | None \<Rightarrow> bs_rulesYAML b1)"
    using "3.IH" [OF b1(1,2) m(1)] by blast
  have dup: "find (\<lambda>m. th_Name (fst m) = ''rules/active.yaml'') ms = None" if "th_Name hdr = ''rules/active.yaml''"
  proof -
    have "distinct (bs_seen b')" using ms(1) by (simp add: scan_ok_def)
    then show ?thesis using that ms(3) m(2) by (force simp: find_None_iff)
  qed
  show ?case using ms m dup by (intro conjI exI [of _ "(hdr, content) # ms"]) (auto simp: comp_def split: option.split)
qed simp_all

lemma scan_start_ok: "scan_ok scan_start"
  by (simp add: scan_ok_def scan_start_def backupMaxTotalBytes_def)

lemma scan_fields: "bs_seen scan_start = []" "bs_totalSize scan_start = 0" "bs_rulesYAML scan_start = []"
  by (simp_all add: scan_start_def)

lemma four_members: "scan_ok b \<Longrightarrow> bs_entries b \<le> 4"
  using card_mono [of "set member_names" "set (bs_seen b)"] distinct_card [of "bs_seen b"] card_length [of member_names]
  by (auto simp: scan_ok_def member_names_def)

text \<open>An archive that a restore accepts, with the rule set in it.\<close>

definition accepted_archive :: "'r env \<Rightarrow> tar_event list \<Rightarrow> string \<Rightarrow> RuleSet \<Rightarrow> bool" where
  "accepted_archive en es yaml rs = (\<exists>ms. es = map (\<lambda>(h, c). TarMember h c) ms \<and> length ms \<le> 4 \<and> distinct (map (th_Name \<circ> fst) ms) \<and>
     set (map (th_Name \<circ> fst) ms) \<subseteq> set member_names \<and> list_all (th_Regular \<circ> fst) ms \<and>
     sum_list (map (th_Size \<circ> fst) ms) \<le> backupMaxTotalBytes \<and> length yaml \<le> backupMaxRulesBytes \<and>
     map_option (projr \<circ> snd) (find (\<lambda>m. th_Name (fst m) = ''rules/active.yaml'') ms) = Some yaml \<and>
     ParseYAML (rl_isdomain (en_lib en)) (rl_decode (en_lib en)) yaml = Inr rs)"

lemma scan_accepts:
  assumes "scan_archive es scan_start = Inr b" "bs_rulesYAML b \<noteq> []" "ParseYAML (rl_isdomain (en_lib en)) (rl_decode (en_lib en)) (bs_rulesYAML b) = Inr rs"
  shows "accepted_archive en es (bs_rulesYAML b) rs"
proof -
  obtain ms where ms: "scan_ok b" "es = map (\<lambda>(h, c). TarMember h c) ms" "bs_seen b = map (th_Name \<circ> fst) ms"
    "bs_totalSize b = sum_list (map (th_Size \<circ> fst) ms)" "list_all (th_Regular \<circ> fst) ms"
    "bs_rulesYAML b = (case find (\<lambda>m. th_Name (fst m) = ''rules/active.yaml'') ms of Some m \<Rightarrow> projr (snd m) | None \<Rightarrow> [])"
    using scan_archive_ok [OF assms(1) scan_start_ok, unfolded scan_fields append_Nil add_0] by blast
  have "length ms \<le> 4" using four_members [OF ms(1)] ms(1,3) by (simp add: scan_ok_def)
  then show ?thesis using ms assms(2,3) unfolding accepted_archive_def scan_ok_def by (intro exI [of _ ms]) (auto split: option.splits)
qed

context orchestrator_contract
begin

lemma import_plane:
  assumes w: "db_wf (ap_DB a)" and st: "\<And>s. en_Store en = Some s \<Longrightarrow> store_reads s"
    and run: "ImportRules en (Some ops) yaml actor ip (o1, a) = ((res, err), o2, a')"
    and y: "ParseYAML (rl_isdomain (en_lib en)) (rl_decode (en_lib en)) yaml = Inr rs"
  shows "if err = None \<and> cr_Health res \<noteq> ''observing'' then (\<exists>v. live en v rs a a') \<and> \<not> cr_RolledBack res else plane a' = plane a"
proof -
  have val: "RuleSet_Validate (rl_isdomain (en_lib en)) rs = None" using y by (auto simp: ParseYAML_def split: sum.splits option.splits)
  let ?s = "\<lparr>sn_ID = 0, sn_CreatedAt = 0, sn_ConfigHash = HashRules (en_sha en) rs, sn_TarballPath = [], sn_Note = ''import by '' @ actor\<rparr>"
  note run = run [unfolded ImportRules_def prod.case y sum.case val option.case run_db_def]
  obtain r1 d1 where 1: "InsertSnapshot ?s (ap_DB a) = (r1, d1)" by fastforce
  have f1: "db_wf d1" "plane (a\<lparr>ap_DB := d1\<rparr>) = plane a" using keepsD [OF keeps_InsertSnapshot w 1] InsertSnapshot_frame [OF 1] by (simp_all add: plane_def)
  show ?thesis
  proof (cases r1)
    case (Inl e)
    then show ?thesis using run 1 f1(2) by auto
  next
    case (Inr n)
    obtain r2 d2 where 2: "InsertRuleVersion n yaml False d1 = (r2, d2)" by fastforce
    have w2: "db_wf d2" using keepsD [OF keeps_InsertRuleVersion f1(1) 2] .
    show ?thesis
    proof (cases r2)
      case Inl
      then show ?thesis using run 1 Inr 2 f1(2) run_db_plane [of "a\<lparr>ap_DB := d1\<rparr>" d2] InsertRuleVersion_error [of n yaml d1 _ d2] by auto
    next
      case r2: (Inr v)
      obtain c where c: "t_versions d2 = t_versions d1 @ [\<lparr>rv_ID = v, rv_SnapshotID = n, rv_RulesYAML = yaml, rv_CreatedAt = c, rv_Active = False\<rparr>]"
        "t_exits d2 = t_exits d1" using InsertRuleVersion_ok [OF 2 [unfolded r2]] by metis
      define b where "b = snd (run_db (AppendAudit \<lparr>ae_Actor = actor, ae_Action = ''rules.import'', ae_Target = HashRules (en_sha en) rs, ae_Before = [],
         ae_After = yaml, ae_Result = ''ok'', ae_IP = ip\<rparr>) (a\<lparr>ap_DB := d2\<rparr>))"
      have b: "db_wf (ap_DB b)" "plane b = plane a" "t_versions (ap_DB b) = t_versions d2"
        using w2 c f1(2) by (auto simp: b_def run_db_def plane_def find_snoc_inactive split: prod.split dest: keepsD [OF keeps_AppendAudit] AppendAudit_frame)
      have ap: "ApplyRules en (Some ops) n v 0 (o1, b) = ((res, err), o2, a')"
        using run 1 Inr 2 r2 by (simp add: b_def run_db_def Let_def)
      have yt: "rv_RulesYAML x = yaml" if "x \<in> set (t_versions (ap_DB b))" "rv_ID x = v" for x
        using that InsertRuleVersion_text [OF 2 [unfolded r2] w2] unfolding b(3) by blast
      show ?thesis
        using apply_plane [OF b(1) st ap] apply_result [of en n v 0 o1 b res o2 a'] ap yt y b(2) plane_live [OF b(2)] by (fastforce split: if_splits)
    qed
  qed
qed

end

text \<open>(C10) A restore is all or nothing.  Only an archive of at most four regular members with distinct known names and at most
  128 MiB in all, whose \<open>rules/active.yaml\<close> is at most 8 MiB and holds a valid rule set, gets beyond the checks; then,
  answered as applied, that rule set is live, and answered as pending or failed, the plane is as before.  A request
  refused by the checks has no effect at all.\<close>

theorem restore_all_or_nothing:
  assumes "db_wf (ap_DB a)" "en_Store en = Some st" "store_reads st" "feed_history h f" "i \<notin> set h" "tick 2 - tick 0 \<le> applyRingTTL"
    and "handleImportBackup en (Some (systemd_ops rn)) wired tick i actor remote len archive (o1, a, f) = (ans, o2, a', f')"
  shows "case ans of
      Answer (ReplyOK ib) \<Rightarrow> \<exists>es yaml rs. archive = Inr es \<and> accepted_archive en es yaml rs \<and>
        (if ib_Applied ib then (\<exists>v. live en v rs a a') \<and> ib_Status ib = ''succeeded'' else plane a' = plane a \<and> ib_Status ib = ''pending'')
    | Answer (ReplyError status code) \<Rightarrow> plane a' = plane a \<and> f' = f \<and> (code \<noteq> ''import_failed'' \<longrightarrow> a' = a \<and> o2 = o1)
    | NilPanic \<Rightarrow> False"
proof -
  have str: "\<And>x. en_Store en = Some x \<Longrightarrow> store_reads x" using assms(2,3) by simp
  note run = assms(7) [unfolded handleImportBackup_def prod.case Let_def]
  show ?thesis
  proof (cases "\<exists>es b rs. wired \<and> len \<le> backupMaxCompressedBytes \<and> archive = Inr es \<and> scan_archive es scan_start = Inr b \<and> bs_rulesYAML b \<noteq> [] \<and>
      ParseYAML (rl_isdomain (en_lib en)) (rl_decode (en_lib en)) (bs_rulesYAML b) = Inr rs")
    case False
    then show ?thesis using run by (auto split: if_splits sum.splits)
  next
    case True
    then obtain es b rs where x: "wired" "len \<le> backupMaxCompressedBytes" "archive = Inr es" "scan_archive es scan_start = Inr b" "bs_rulesYAML b \<noteq> []"
      "ParseYAML (rl_isdomain (en_lib en)) (rl_decode (en_lib en)) (bs_rulesYAML b) = Inr rs" by blast
    have val: "RuleSet_Validate (rl_isdomain (en_lib en)) rs = None" using x(6) by (auto simp: ParseYAML_def split: sum.splits option.splits)
    obtain res err o3 c where im: "ImportRules en (Some (systemd_ops rn)) (bs_rulesYAML b) actor (clientIP remote) (o1, a) = ((res, err), o3, c)"
      by (metis prod.exhaust)
    note pl = sd.import_plane [OF assms(1) str im x(6)]
    show ?thesis
    proof (cases "err \<noteq> None \<or> cr_RolledBack res")
      case True
      then show ?thesis using run x val im pl by (auto split: if_splits)
    next
      case False
      obtain r g where tr: "trackRuleApply (en_sha en) tick i rs ''import'' res f = (r, g)" by fastforce
      obtain e where e: "r = Some e" "ent_Status e = (if cr_Health res = ''observing'' then ''pending'' else if cr_RolledBack res then ''failed'' else ''succeeded'')"
        using track_ok [OF assms(4,5,6) tr [unfolded trackRuleApply_def]] by metis
      obtain ib where ib: "ans = Answer (ReplyOK ib)" "ib_Applied ib = (ent_Status e \<noteq> ''pending'')" "ib_Status ib = ent_Status e" "plane a' = plane c"
        using run x val im False tr e(1) by auto
      have "if ib_Applied ib then (\<exists>v. live en v rs a a') \<and> ib_Status ib = ''succeeded'' else plane a' = plane a \<and> ib_Status ib = ''pending''"
        using pl False e(2) ib(2-4) by (auto simp: live_def split: if_splits)
      then show ?thesis unfolding ib(1) answer.case reply.case using x(3) scan_accepts [OF x(4-6)] by blast
    qed
  qed
qed

section \<open>Rule lists and rulesets\<close>

definition registered :: "DB \<Rightarrow> Ruleset list" where
  "registered d = map scanRow (by_priority (t_rulesets d))"

lemma Rulesets_List_Inr: "Rulesets_List d = (Inr l, d') \<Longrightarrow> l = registered d"
  by (auto simp: Rulesets_List_def liftR_def registered_def split: prod.splits sum.splits dest!: stmt_Inr)

lemma Rulesets_List_run: "db_faults d = [] \<Longrightarrow> Rulesets_List d = (Inr (registered d), d)"
  by (simp add: Rulesets_List_def liftR_def registered_def stmt_def)

lemma expandRulesets_Inr:
  assumes "fst (expandRulesets registry isDN rs d) = Inr rs1"
  shows "if registry then \<exists>extra. expandList isDN (registered d) = Inr extra \<and>
      rs1 = stripRulesetExpansions rs (map rs_Name (registered d)) @ extra else rs1 = rs"
  using assms by (auto simp: expandRulesets_def ExpandWithGroups_def split: if_splits prod.splits sum.splits dest!: Rulesets_List_Inr)

lemma registered_names: "set (map rs_Name (registered d)) = rt_name ` set (t_rulesets d)"
  "distinct (map rt_name (t_rulesets d)) \<Longrightarrow> distinct (map rs_Name (registered d))"
proof -
  have m: "map rs_Name (registered d) = map rt_name (by_priority (t_rulesets d))" by (simp add: registered_def scanRow_def)
  have p: "mset (by_priority (t_rulesets d)) = mset (t_rulesets d)" by (simp add: by_priority_def)
  show "set (map rs_Name (registered d)) = rt_name ` set (t_rulesets d)" unfolding m using mset_eq_setD [OF p] by simp
  assume "distinct (map rt_name (t_rulesets d))"
  then show "distinct (map rs_Name (registered d))" unfolding m using arg_cong [OF p, of "image_mset rt_name"]
    by (metis mset_eq_imp_distinct_iff mset_map)
qed

text \<open>What the panel shows can be submitted again.  After an apply, listing the rules returns the effective set, manual rules
  and expansions together; expanding that list again, with the same registered rulesets, gives the same list and not
  the expansions twice.\<close>

theorem listed_rules_resubmit:
  assumes "live en v rs a a'" "fst (expandRulesets registry (rl_isdomain (en_lib en)) rs0 (ap_DB a)) = Inr rs"
    and "t_rulesets (ap_DB a') = t_rulesets (ap_DB a)" "db_faults (ap_DB a') = []"
    and "\<forall>x\<in>set (t_rulesets (ap_DB a)). rt_name x \<noteq> []" "distinct (map rt_name (t_rulesets (ap_DB a)))"
  shows "fst (handleListRules (en_lib en) a') = ReplyOK rs \<and> fst (expandRulesets registry (rl_isdomain (en_lib en)) rs (ap_DB a')) = Inr rs"
proof -
  obtain x where "find rv_Active (t_versions (ap_DB a')) = Some x" "ParseYAML (rl_isdomain (en_lib en)) (rl_decode (en_lib en)) (rv_RulesYAML x) = Inr rs"
    using assms(1) by (auto simp: live_def plane_def)
  then have l: "fst (handleListRules (en_lib en) a') = ReplyOK rs"
    using assms(4) by (simp add: handleListRules_def run_db_def GetActiveRuleVersion_def select1_def stmt_def)
  have same: "registered (ap_DB a') = registered (ap_DB a)" using assms(3) by (simp add: registered_def)
  have "fst (expandRulesets registry (rl_isdomain (en_lib en)) rs (ap_DB a')) = Inr rs"
  proof (cases registry)
    case True
    let ?g = "map rs_Name (registered (ap_DB a))"
    obtain extra where e: "expandList (rl_isdomain (en_lib en)) (registered (ap_DB a)) = Inr extra" "rs = stripRulesetExpansions rs0 ?g @ extra"
      using expandRulesets_Inr [OF assms(2)] True by auto
    have "rule_GroupID r \<in> set ?g" if "r \<in> set extra" for r
      using expandList_ok [OF e(1) registered_names(2) [OF assms(6)]] that by (auto simp: from_ruleset_def)
    moreover have "[] \<notin> set ?g" using registered_names(1) [of "ap_DB a"] assms(5) by auto
    ultimately have "filter (\<lambda>r. \<not> (rule_GroupID r \<noteq> [] \<and> rule_GroupID r \<in> set ?g)) extra = []" by (metis (mono_tags, lifting) filter_False)
    then have "stripRulesetExpansions rs ?g = stripRulesetExpansions rs0 ?g" unfolding e(2) stripRulesetExpansions_def by simp
    then show ?thesis using True e assms(4) Rulesets_List_run [OF assms(4)] same
      by (simp add: expandRulesets_def ExpandWithGroups_def)
  next
    case False
    then show ?thesis by (simp add: expandRulesets_def)
  qed
  then show ?thesis using l by blast
qed

section \<open>Witnesses\<close>

text \<open>A YAML library for the empty rule set.\<close>

definition sample_marshal :: "RuleSet \<Rightarrow> (string, string) result" where
  "sample_marshal rs = (if rs = [] then Inr ''c'' else Inl ''no'')"

lemma sample_yaml: "yaml_ok (en_lib sample_env) sample_marshal"
  by (auto simp: yaml_ok_def sample_marshal_def sample_env_def sample_lib_def)

lemma sample_reads: "store_reads (bootStore (\<lambda>_. Inl ''no''))"
  by (rule store_reads_boot)

definition sample_stored :: ApplierState where
  "sample_stored = sample_applier\<lparr>ap_DB := sampleDB\<lparr>
     t_snapshots := t_snapshots sampleDB @ [\<lparr>sn_ID = 2, sn_CreatedAt = 0, sn_ConfigHash = [], sn_TarballPath = [], sn_Note = []\<rparr>],
     t_versions := t_versions sampleDB @ [\<lparr>rv_ID = 3, rv_SnapshotID = 2, rv_RulesYAML = ''c'', rv_CreatedAt = 0, rv_Active = False\<rparr>],
     seq_snapshots := 2, seq_versions := 3\<rparr>\<rparr>"

lemma sample_hash: "HashRules (\<lambda>_. []) rs = []"
  by (simp add: HashRules_def hexEncode_def)

lemma sample_store_version: "store_version sample_env [] [] ''c'' sample_applier = (Inr (2, 3, 1), sample_stored)"
  by (simp add: store_version_def sample_hash InsertSnapshot_def snapshot_insert_def prev_snapshot_def InsertRuleVersion_def version_insert_def
     GetActiveRuleVersion_def sample_stored_def sample_defs db_eval)

lemma sample_apply_stored:
  "snd (fst (ApplyRules sample_env (Some (systemd_ops sample_rn)) 2 3 1 ((sample_sd h, sample_world []), sample_stored))) = None \<and>
   cr_Health (fst (fst (ApplyRules sample_env (Some (systemd_ops sample_rn)) 2 3 1 ((sample_sd h, sample_world []), sample_stored)))) = (if h then ''observing'' else ''ok'')"
  by (cases h) (simp_all add: ApplyRules_def beginVariation_def dispatch_rules_def conclude_rules_def sample_stored_def sample_defs db_eval prepare_eval
     systemd_eval InsertApplyStatus_def commit_callback_def commitRuleApply_def getInflight_def registerInflight_def
     clearTerminalStatus_def SetActiveRuleVersion_def UpdateApplyStatus_def applyTerminalState_def)

lemma sample_empty_set: "RuleSet_Validate (rl_isdomain (en_lib sample_env)) [] = None"
  by (simp add: RuleSet_Validate_def)

lemma sample_handle:
  obtains ans o2 a' f' where "handleApply sample_env (Some (systemd_ops sample_rn)) False sample_marshal (\<lambda>_. 0) ''id'' ''admin'' ''10.0.0.9:5''
      (Inr \<lparr>aq_Rules = [], aq_Note = []\<rparr>) ((sample_sd h, sample_world []), sample_applier, newApplyStore) = (Answer (ReplyOK ans), o2, a', f')"
    "if h then ans = ApplyPending 2 3 ''id'' [] ''observing'' else \<exists>rp. ans = ApplyDone rp \<and> rp_RuleVersionID rp = 3"
proof -
  obtain res err o2 c where x: "ApplyRules sample_env (Some (systemd_ops sample_rn)) 2 3 1 ((sample_sd h, sample_world []), sample_stored) = ((res, err), o2, c)"
    by (metis prod.exhaust)
  have err: "err = None" "cr_Health res = (if h then ''observing'' else ''ok'')" using sample_apply_stored [of h] x by simp_all
  have e: "expandRulesets False (rl_isdomain (en_lib sample_env)) [] d = (Inr [], d)" for d by (simp add: expandRulesets_def)
  have m: "sample_marshal [] = Inr ''c''" by (simp add: sample_marshal_def)
  have sha: "en_sha sample_env = (\<lambda>_. [])" by (simp add: sample_env_def)
  obtain r g where t: "trackRuleApply (\<lambda>_. []) (\<lambda>_. 0) ''id'' [] ''apply'' res newApplyStore = (r, g)" by fastforce
  obtain en where en: "r = Some en" "ent_ID en = ''id''" "ent_Hash en = []"
    "(ent_Status en = ''pending'') = h"
    using t err(2) by (auto simp: trackRuleApply_def trackApplyResult_def feed_create_def feed_finish_def feed_Get_def newApplyStore_def applyRingCap_def
        applyRingTTL_def sample_hash Let_def split: if_splits)
  let ?q = "handleApply sample_env (Some (systemd_ops sample_rn)) False sample_marshal (\<lambda>_. 0) ''id'' ''admin'' ''10.0.0.9:5''
      (Inr \<lparr>aq_Rules = [], aq_Note = []\<rparr>) ((sample_sd h, sample_world []), sample_applier, newApplyStore)"
  obtain ans o3 a' f' where q: "?q = (ans, o3, a', f')" by (metis prod.exhaust)
  have "ans = Answer (ReplyOK (if ent_Status en = ''pending'' then ApplyPending 2 3 (ent_ID en) (ent_Hash en) (cr_Health res)
      else ApplyDone \<lparr>rp_SnapshotID = 2, rp_RuleVersionID = 3, rp_RolledBack = cr_RolledBack res, rp_Health = cr_Health res, rp_Reason = cr_Reason res\<rparr>))"
    using q by (auto simp: handleApply_def run_db_def e sample_empty_set m sample_store_version x err(1) sha t en(1) Let_def split: if_splits)
  then show thesis using that q en(2-4) err(2) by (auto split: if_splits)
qed

text \<open>The empty feed.\<close>

lemma sample_feed: "feed_history [] newApplyStore" "''id'' \<notin> set []" "(0 :: int) - 0 \<le> applyRingTTL"
  by (auto intro: feed_history.empty simp: applyRingTTL_def)

theorem apply_request_end_to_end_witness:
  "\<exists>rp o2 a' f'. handleApply sample_env (Some (systemd_ops sample_rn)) False sample_marshal (\<lambda>_. 0) ''id'' ''admin'' ''10.0.0.9:5''
      (Inr \<lparr>aq_Rules = [], aq_Note = []\<rparr>) ((sample_sd False, sample_world []), sample_applier, newApplyStore) = (Answer (ReplyOK (ApplyDone rp)), o2, a', f') \<and>
    live sample_env 3 [] sample_applier a'"
proof -
  obtain rp o2 a' f' where q: "handleApply sample_env (Some (systemd_ops sample_rn)) False sample_marshal (\<lambda>_. 0) ''id'' ''admin'' ''10.0.0.9:5''
      (Inr \<lparr>aq_Rules = [], aq_Note = []\<rparr>) ((sample_sd False, sample_world []), sample_applier, newApplyStore) = (Answer (ReplyOK (ApplyDone rp)), o2, a', f')"
    "rp_RuleVersionID rp = 3" by (rule sample_handle [of False]) auto
  show ?thesis
    using apply_request_end_to_end [OF sample_store(2,1) sample_reads sample_yaml sample_feed q(1)] q by (auto simp: expandRulesets_def)
qed




definition sample_archive :: "tar_event list" where
  "sample_archive = [TarMember \<lparr>th_Name = ''README.txt'', th_Regular = True, th_Size = 2\<rparr> (Inr ''hi''),
     TarMember \<lparr>th_Name = ''rules/active.yaml'', th_Regular = True, th_Size = 1\<rparr> (Inr ''c'')]"

lemma sample_scan: "scan_archive sample_archive scan_start = Inr \<lparr>bs_entries = 2, bs_totalSize = 3,
    bs_seen = [''README.txt'', ''rules/active.yaml''], bs_rulesYAML = ''c'', bs_ignored = [''README.txt'']\<rparr>"
  by (simp add: sample_archive_def scan_start_def scan_member_def backupMaxEntries_def backupMaxMemberBytes_def backupMaxTotalBytes_def backupMaxRulesBytes_def Let_def)

text \<open>A restore of this archive reaches the \<open>Applier\<close>; on a machine whose orchestrator is busy it changes nothing.\<close>

theorem restore_all_or_nothing_witness:
  "\<exists>o2 a' f'. handleImportBackup sample_env (Some (systemd_ops sample_rn)) True (\<lambda>_. 0) ''id'' ''admin'' ''10.0.0.9:5'' 3 (Inr sample_archive)
      ((sample_sd False, sample_world []), sample_applier\<lparr>ap_variationActive := True\<rparr>, newApplyStore) = (Answer (ReplyError 500 ''import_failed''), o2, a', f') \<and>
    plane a' = plane sample_applier \<and> f' = newApplyStore"
proof -
  let ?a = "sample_applier\<lparr>ap_variationActive := True\<rparr>"
  obtain ans o3 a' f' where q: "handleImportBackup sample_env (Some (systemd_ops sample_rn)) True (\<lambda>_. 0) ''id'' ''admin'' ''10.0.0.9:5'' 3 (Inr sample_archive)
      ((sample_sd False, sample_world []), ?a, newApplyStore) = (ans, o3, a', f')" by (metis prod.exhaust)
  have p: "ParseYAML (rl_isdomain (en_lib sample_env)) (rl_decode (en_lib sample_env)) ''c'' = Inr []"
    by (simp add: ParseYAML_def RuleSet_Validate_def sample_env_def sample_lib_def)
  obtain res err o4 c where im: "ImportRules sample_env (Some (systemd_ops sample_rn)) ''c'' ''admin'' (clientIP ''10.0.0.9:5'') ((sample_sd False, sample_world []), ?a) = ((res, err), o4, c)"
    by (metis prod.exhaust)
  have err: "err \<noteq> None" using im
    by (auto simp: ImportRules_def p sample_empty_set run_db_def ApplyRules_def beginVariation_def sample_store(1) Let_def split: prod.splits sum.splits)
  then obtain e where e: "err = Some e" by auto
  have ans: "ans = Answer (ReplyError 500 ''import_failed'')"
    using q by (auto simp: handleImportBackup_def sample_scan p sample_empty_set im [unfolded e] backupMaxCompressedBytes_def Let_def)
  have w: "db_wf (ap_DB ?a)" using sample_store(2) by simp
  have "plane ?a = plane sample_applier" by (simp add: plane_def)
  then show ?thesis using restore_all_or_nothing [OF w sample_store(1) sample_reads sample_feed q] ans q by auto
qed


definition sample_listed :: RuleSet where
  "sample_listed = [sample_rule ''m'' KindMatch [] ''Proxy'' 900, gfw_to_rule sample_ruleset 0 (''DOMAIN-SUFFIX'', ''a.com'', ''Proxy''),
     gfw_to_rule sample_ruleset 1 (''DOMAIN-SUFFIX'', ''b.org'', ''direct'')]"

definition sample_panel_env :: "unit env" where
  "sample_panel_env = sample_env\<lparr>en_lib := sample_lib\<lparr>rl_decode := \<lambda>_. Inr sample_listed\<rparr>\<rparr>"

definition sample_live :: ApplierState where
  "sample_live = sample_applier\<lparr>ap_DB := sampleDB\<lparr>t_rulesets := [\<lparr>rt_name = ''gfw'', rt_source_url = ''http://l.test/g'', rt_kind = ''clash'', rt_action = ''exit-1'',
     rt_priority = 500, rt_enabled = 1, rt_etag = [], rt_last_modified = [], rt_last_synced_at = None, rt_last_error = None, rt_rule_count = 2, rt_content = Some sample_gfw,
     rt_created_at = 0, rt_created_by = []\<rparr>]\<rparr>\<rparr>"

theorem listed_rules_resubmit_witness:
  "fst (handleListRules (en_lib sample_panel_env) sample_live) = ReplyOK sample_listed \<and>
   fst (expandRulesets True (rl_isdomain (en_lib sample_panel_env)) sample_listed (ap_DB sample_live)) = Inr sample_listed"
proof -
  have f: "db_faults (ap_DB sample_live) = []" "\<forall>x\<in>set (t_rulesets (ap_DB sample_live)). rt_name x \<noteq> []" "distinct (map rt_name (t_rulesets (ap_DB sample_live)))"
    by (simp_all add: sample_live_def sampleDB_def emptyDB_def)
  have v: "RuleSet_Validate (\<lambda>_. True) sample_listed = None" by code_simp
  have d: "rl_isdomain (en_lib sample_panel_env) = (\<lambda>_. True)" "rl_decode (en_lib sample_panel_env) = (\<lambda>_. Inr sample_listed)"
    by (simp_all add: sample_panel_env_def sample_env_def sample_lib_def)
  have l: "live sample_panel_env 1 sample_listed sample_live sample_live"
    by (simp add: live_def plane_def d v ParseYAML_def sample_live_def sample_defs)
  have e: "expandList (\<lambda>_. True) (registered (ap_DB sample_live)) = Inr (tl sample_listed)" by code_simp
  have n: "map rs_Name (registered (ap_DB sample_live)) = [''gfw'']" by code_simp
  have r: "fst (expandRulesets True (rl_isdomain (en_lib sample_panel_env)) [hd sample_listed] (ap_DB sample_live)) = Inr sample_listed"
    unfolding d(1) using Rulesets_List_run [OF f(1)] e n
    by (simp add: expandRulesets_def ExpandWithGroups_def stripRulesetExpansions_def sample_listed_def sample_rule_def)
  show ?thesis using listed_rules_resubmit [OF l r refl f] .
qed

end
