(* ===== verification/ExitUri.thy ===== *)
theory ExitUri
  imports RuleImport Exits Json "HOL-Library.AList"
begin

text \<open>
  Share links of proxies, \<open>internal/exit/exit.go\<close>: the parsers that turn a link into the map a proxy is configured with.

  What they use of the standard library is written out: percent-decoding, \<open>url.Parse\<close> and \<open>url.ParseQuery\<close> (for ASCII text,
  with the checks of bracketed hosts of Go 1.25), base64 with either alphabet, and JSON values.  JSON numbers are exact
  decimals.  Error texts are shortened to their constant part.
\<close>

section \<open>\<open>net/url\<close>\<close>

text \<open>The text before and after the last occurrence of a byte.\<close>

definition split_last :: "char \<Rightarrow> string \<Rightarrow> (string \<times> string) option" where
  "split_last c s = (if c \<in> set s then let b = takeWhile (\<lambda>x. x \<noteq> c) (rev s) in Some (take (length s - length b - 1) s, rev b) else None)"

definition cut :: "char \<Rightarrow> string \<Rightarrow> string \<times> string" where
  "cut c s = (let a = takeWhile (\<lambda>x. x \<noteq> c) s in (a, drop (length a + 1) s))"

definition before :: "char \<Rightarrow> string \<Rightarrow> string" where
  "before c s = takeWhile (\<lambda>x. x \<noteq> c) s"

text \<open>Percent-decoding; \<open>keep v\<close> says whether an escape of byte \<open>v\<close> is allowed, and \<open>pl c\<close> what an unescaped byte stands for.\<close>

function decode_escapes :: "(nat \<Rightarrow> bool) \<Rightarrow> (char \<Rightarrow> char option) \<Rightarrow> string \<Rightarrow> string option" where
  "decode_escapes keep pl [] = Some []"
| "decode_escapes keep pl (c # s) =
     (if c = CHR ''%'' then
        (case s of a # b # t \<Rightarrow> (case (hex_val a, hex_val b) of
             (Some x, Some y) \<Rightarrow> if keep (16 * x + y) then map_option (\<lambda>r. char_of (16 * x + y) # r) (decode_escapes keep pl t) else None
           | _ \<Rightarrow> None)
         | _ \<Rightarrow> None)
      else (case pl c of None \<Rightarrow> None | Some d \<Rightarrow> map_option (\<lambda>r. d # r) (decode_escapes keep pl s)))"
  by pat_completeness auto
termination by (relation "measure (\<lambda>(_, _, s). length s)") auto

definition QueryUnescape :: "string \<Rightarrow> string option" where
  "QueryUnescape s = decode_escapes (\<lambda>_. True) (\<lambda>c. Some (if c = CHR ''+'' then CHR '' '' else c)) s"

definition PathUnescape :: "string \<Rightarrow> string option" where
  "PathUnescape s = decode_escapes (\<lambda>_. True) Some s"

definition is_alnum :: "char \<Rightarrow> bool" where
  "is_alnum c = (let n = (of_char c :: nat) in (97 \<le> n \<and> n \<le> 122) \<or> (65 \<le> n \<and> n \<le> 90) \<or> (48 \<le> n \<and> n \<le> 57))"

text \<open>The bytes that stand for themselves in a host.\<close>

definition host_char :: "char \<Rightarrow> bool" where
  "host_char c = (is_alnum c \<or> c \<in> set ''-_.~!$&()*+,;=:[]<>'' \<or> c = CHR 0x22 \<or> c = CHR 0x27 \<or> (of_char c :: nat) \<ge> 128)"

definition unescape_host :: "string \<Rightarrow> string option" where
  "unescape_host s = decode_escapes (\<lambda>v. v \<ge> 128 \<or> v = 37) (\<lambda>c. if host_char c then Some c else None) s"

definition unescape_zone :: "string \<Rightarrow> string option" where
  "unescape_zone s = decode_escapes (\<lambda>v. v = 37 \<or> v = 32 \<or> host_char (char_of v)) (\<lambda>c. if host_char c then Some c else None) s"

definition validOptionalPort :: "string \<Rightarrow> bool" where
  "validOptionalPort p = (case p of [] \<Rightarrow> True | c # ds \<Rightarrow> c = CHR '':'' \<and> list_all is_digit ds)"

text \<open>The part before and from the first \<open>%25\<close>.\<close>

fun zone_split :: "string \<Rightarrow> string \<times> string" where
  "zone_split [] = ([], [])"
| "zone_split (c # s) = (if prefix ''%25'' (c # s) then ([], c # s) else case zone_split s of (a, b) \<Rightarrow> (c # a, b))"

definition parseHost :: "string \<Rightarrow> string option" where
  "parseHost host = (case split_last (CHR ''['') host of
      Some (_, _) \<Rightarrow> (case split_last (CHR '']'') host of
          None \<Rightarrow> None
        | Some (lit, colonPort) \<Rightarrow>
            if \<not> validOptionalPort colonPort then None
            else (case split_last (CHR ''['') lit of
                None \<Rightarrow> None
              | Some (pre, hostname) \<Rightarrow> (case zone_split hostname of (h, z) \<Rightarrow>
                  if pre \<noteq> [] then None else (case (unescape_host h, unescape_zone z) of
                     (Some h, Some z) \<Rightarrow> (case ParseAddr (h @ z) of
                        Some (Addr6 _ _) \<Rightarrow> Some (''['' @ h @ z @ '']'' @ colonPort)
                      | _ \<Rightarrow> None)
                   | _ \<Rightarrow> None))))
    | None \<Rightarrow> (case split_last (CHR '':'') host of
          Some (_, p) \<Rightarrow> if list_all is_digit p then unescape_host host else None
        | None \<Rightarrow> unescape_host host))"

definition validUserinfo :: "string \<Rightarrow> bool" where
  "validUserinfo s = list_all (\<lambda>c. is_alnum c \<or> c \<in> set ''-._:~!$&()*+,;=%@'' \<or> c = CHR 0x27) s"

record share_url =
  su_Scheme :: string
  su_User :: "(string \<times> string option) option"
  su_Host :: string
  su_RawQuery :: string

definition parseAuthority :: "string \<Rightarrow> ((string \<times> string option) option \<times> string) option" where
  "parseAuthority authority = (case split_last (CHR ''@'') authority of
      None \<Rightarrow> map_option (\<lambda>h. (None, h)) (parseHost authority)
    | Some (userinfo, hostport) \<Rightarrow> (case parseHost hostport of
          None \<Rightarrow> None
        | Some h \<Rightarrow>
            if \<not> validUserinfo userinfo then None
            else if CHR '':'' \<notin> set userinfo then map_option (\<lambda>u. (Some (u, None), h)) (PathUnescape userinfo)
            else (case cut (CHR '':'') userinfo of (u, p) \<Rightarrow> (case (PathUnescape u, PathUnescape p) of
                (Some u, Some p) \<Rightarrow> Some (Some (u, Some p), h)
              | _ \<Rightarrow> None))))"

definition ctl_free :: "string \<Rightarrow> bool" where
  "ctl_free s = list_all (\<lambda>c. let n = (of_char c :: nat) in 32 \<le> n \<and> n \<noteq> 127) s"

text \<open>\<open>url.Parse\<close> of text that starts with a scheme and \<open>://\<close>, as every caller's does.\<close>

definition url_Parse :: "string \<Rightarrow> share_url option" where
  "url_Parse raw = (case cut (CHR ''#'') raw of (u, frag) \<Rightarrow>
     if \<not> ctl_free u then None
     else let scheme = before (CHR '':'') u; rest = drop (length scheme + 1) u;
              (rest, query) = cut (CHR ''?'') rest;
              authority = before (CHR ''/'') (drop 2 rest); path = drop (length authority) (drop 2 rest) in
       if \<not> prefix ''//'' rest then None
       else case parseAuthority authority of
           None \<Rightarrow> None
         | Some (user, host) \<Rightarrow>
             if PathUnescape path = None \<or> PathUnescape frag = None then None
             else Some \<lparr>su_Scheme = ToLower scheme, su_User = user, su_Host = host, su_RawQuery = query\<rparr>)"

definition host_port :: "string \<Rightarrow> string \<times> string" where
  "host_port hp = (case split_last (CHR '':'') hp of
      Some (h, p) \<Rightarrow> if list_all is_digit p then (h, p) else (hp, [])
    | None \<Rightarrow> (hp, []))"

definition url_Hostname :: "share_url \<Rightarrow> string" where
  "url_Hostname u = (let h = fst (host_port (su_Host u)) in
     if h \<noteq> [] \<and> hd h = CHR ''['' \<and> last h = CHR '']'' then butlast (tl h) else h)"

definition url_Port :: "share_url \<Rightarrow> string" where
  "url_Port u = snd (host_port (su_Host u))"

text \<open>\<open>url.ParseQuery\<close>: the pairs it keeps, in order.\<close>

definition query_pair :: "string \<Rightarrow> (string \<times> string) option" where
  "query_pair kv = (if kv = [] \<or> CHR '';'' \<in> set kv then None
     else case cut (CHR ''='') kv of (k, v) \<Rightarrow> (case (QueryUnescape k, QueryUnescape v) of (Some k, Some v) \<Rightarrow> Some (k, v) | _ \<Rightarrow> None))"

definition ParseQuery :: "string \<Rightarrow> (string \<times> string) list" where
  "ParseQuery q = List.map_filter query_pair (Split (CHR ''&'') q)"

section \<open>JSON values\<close>

datatype jval = JString string | JNumber int | JBool bool | JNull | JArray "jval list" | JObject "(string \<times> jval) list"

text \<open>A number, truncated towards zero as the conversion to \<open>int\<close> does.\<close>

definition scan_exp :: "string \<Rightarrow> (int \<times> string) option" where
  "scan_exp s = (case s of
      c # r \<Rightarrow> if c = CHR ''e'' \<or> c = CHR ''E'' then
          let neg = (r \<noteq> [] \<and> hd r = CHR ''-''); t = (if r \<noteq> [] \<and> (hd r = CHR ''-'' \<or> hd r = CHR ''+'') then tl r else r); ds = takeWhile is_digit t in
          if ds = [] then None else Some (if neg then - int (dec_val ds) else int (dec_val ds), drop (length ds) t)
        else Some (0, s)
    | [] \<Rightarrow> Some (0, []))"

definition scan_number :: "string \<Rightarrow> (jval \<times> string) option" where
  "scan_number s = (let neg = (s \<noteq> [] \<and> hd s = CHR ''-''); t = (if neg then tl s else s); ds = takeWhile is_digit t; r = drop (length ds) t;
       dot = (r \<noteq> [] \<and> hd r = CHR ''.''); fs = (if dot then takeWhile is_digit (tl r) else []); r = (if dot then drop (length fs) (tl r) else r) in
     if ds = [] \<or> (length ds > 1 \<and> hd ds = CHR ''0'') \<or> (dot \<and> fs = []) then None
     else case scan_exp r of
         None \<Rightarrow> None
       | Some (e, r) \<Rightarrow>
           let m = int (dec_val (ds @ fs)); e = e - int (length fs); v = (if e \<ge> 0 then m * 10 ^ nat e else m div 10 ^ nat (- e)) in
           Some (JNumber (if neg then - v else v), r))"

text \<open>The fuel is the length of the text; every call consumes a byte.\<close>

fun json_value :: "nat \<Rightarrow> string \<Rightarrow> (jval \<times> string) option"
  and json_members :: "nat \<Rightarrow> string \<Rightarrow> ((string \<times> jval) list \<times> string) option"
  and json_elems :: "nat \<Rightarrow> string \<Rightarrow> (jval list \<times> string) option" where
  "json_value 0 s = None"
| "json_value (Suc n) s = (case s of [] \<Rightarrow> None
     | c # r \<Rightarrow>
         if c = CHR 0x22 then map_option (\<lambda>(x, t). (JString x, t)) (scan_str r)
         else if c = CHR ''{'' then (if skip_ws r \<noteq> [] \<and> hd (skip_ws r) = CHR ''}'' then Some (JObject [], tl (skip_ws r))
           else map_option (\<lambda>(x, t). (JObject x, t)) (json_members n (skip_ws r)))
         else if c = CHR ''['' then (if skip_ws r \<noteq> [] \<and> hd (skip_ws r) = CHR '']'' then Some (JArray [], tl (skip_ws r))
           else map_option (\<lambda>(x, t). (JArray x, t)) (json_elems n (skip_ws r)))
         else if prefix ''true'' s then Some (JBool True, drop 4 s)
         else if prefix ''false'' s then Some (JBool False, drop 5 s)
         else if prefix ''null'' s then Some (JNull, drop 4 s)
         else scan_number s)"
| "json_members 0 s = None"
| "json_members (Suc n) s = (case scan_string s of None \<Rightarrow> None
     | Some (k, t) \<Rightarrow> (case skip_ws t of [] \<Rightarrow> None
         | c # u \<Rightarrow> if c \<noteq> CHR '':'' then None
             else (case json_value n (skip_ws u) of None \<Rightarrow> None
               | Some (v, w) \<Rightarrow> (case skip_ws w of [] \<Rightarrow> None
                   | d # z \<Rightarrow> if d = CHR ''}'' then Some ([(k, v)], z)
                       else if d = CHR '','' then map_option (\<lambda>(ms, y). ((k, v) # ms, y)) (json_members n (skip_ws z))
                       else None))))"
| "json_elems 0 s = None"
| "json_elems (Suc n) s = (case json_value n s of None \<Rightarrow> None
     | Some (v, w) \<Rightarrow> (case skip_ws w of [] \<Rightarrow> None
         | d # z \<Rightarrow> if d = CHR '']'' then Some ([v], z)
             else if d = CHR '','' then map_option (\<lambda>(vs, y). (v # vs, y)) (json_elems n (skip_ws z))
             else None))"

text \<open>\<open>json.Unmarshal\<close> into a \<open>map[string]any\<close>; a later member replaces an earlier one of the same name.\<close>

definition json_object :: "string \<Rightarrow> (string \<Rightarrow> jval option) option" where
  "json_object s = (case json_value (length s + 1) (skip_ws s) of
      Some (v, r) \<Rightarrow> if skip_ws r \<noteq> [] then None else (case v of JObject ms \<Rightarrow> Some (map_of (rev ms)) | JNull \<Rightarrow> Some (\<lambda>_. None) | _ \<Rightarrow> None)
    | None \<Rightarrow> None)"

definition json_str :: "jval option \<Rightarrow> string" where
  "json_str v = (case v of Some (JString s) \<Rightarrow> s | _ \<Rightarrow> [])"

definition Atoi :: "string \<Rightarrow> int option" where
  "Atoi s = (let neg = (s \<noteq> [] \<and> hd s = CHR ''-''); ds = (if s \<noteq> [] \<and> (hd s = CHR ''-'' \<or> hd s = CHR ''+'') then tl s else s);
       v = (if neg then - int (dec_val ds) else int (dec_val ds)) in
     if ds = [] \<or> \<not> list_all is_digit ds \<or> v < - (2 ^ 63) \<or> v > 2 ^ 63 - 1 then None else Some v)"

section \<open>Helpers\<close>

definition firstScheme :: "string \<Rightarrow> string" where
  "firstScheme uri = (case find (\<lambda>i. prefix ''://'' (drop i uri)) [0..<length uri] of
      Some i \<Rightarrow> if i > 0 then take i uri else uri
    | None \<Rightarrow> uri)"

text \<open>\<open>DecodeString\<close> skips line breaks.\<close>

definition b64AnyDecode :: "string \<Rightarrow> string option" where
  "b64AnyDecode s = (let s = TrimSpace s in
     if s = [] then None
     else let padded = filter (\<lambda>c. c \<noteq> CHR 0x0A \<and> c \<noteq> CHR 0x0D) (s @ replicate ((4 - length s mod 4) mod 4) (CHR ''='')) in
       case URLDecode padded of Some v \<Rightarrow> Some v | None \<Rightarrow> StdDecode padded)"

text \<open>The regular expression \<open>hostPortRE\<close> leaves one reading: the port is the digits after the last colon.\<close>

definition hostPortRE :: "string \<Rightarrow> (string \<times> string) option" where
  "hostPortRE v = (case split_last (CHR '':'') v of
      None \<Rightarrow> None
    | Some (h, p) \<Rightarrow>
        if p = [] \<or> \<not> list_all is_digit p \<or> h = [] \<or> CHR 0x0A \<in> set h then None
        else if length h > 2 \<and> hd h = CHR ''['' \<and> last h = CHR '']'' then Some (butlast (tl h), p) else Some (h, p))"

definition parseHostPort :: "string \<Rightarrow> (string, string \<times> int) result" where
  "parseHostPort val = (let val = TrimSpace (before (CHR ''#'') (before (CHR ''?'') (before (CHR ''/'') val))) in
     case hostPortRE val of
       None \<Rightarrow> Inl ''cannot parse host:port''
     | Some (host, port) \<Rightarrow>
         if host = [] then Inl ''missing host''
         else (case Atoi port of
             Some p \<Rightarrow> if p < 1 \<or> p > 65535 then Inl ''bad port'' else Inr (host, p)
           | None \<Rightarrow> Inl ''bad port''))"

definition portOrDefault :: "share_url \<Rightarrow> int \<Rightarrow> (string, int) result" where
  "portOrDefault u def = (if url_Port u = [] then Inr def
     else case Atoi (url_Port u) of
         Some p \<Rightarrow> if p < 1 \<or> p > 65535 then Inl ''bad port'' else Inr p
       | None \<Rightarrow> Inl ''bad port'')"

definition queryFirst :: "share_url \<Rightarrow> string \<Rightarrow> string" where
  "queryFirst u k = (case map_of (ParseQuery (su_RawQuery u)) k of Some v \<Rightarrow> v | None \<Rightarrow> [])"

definition truthy :: "string \<Rightarrow> bool" where
  "truthy v = (ToLower v \<in> {''1'', ''true'', ''yes'', ''on''})"

definition unescape :: "string \<Rightarrow> string \<Rightarrow> string" where
  "unescape s def = (if s = [] then def else case QueryUnescape s of Some v \<Rightarrow> v | None \<Rightarrow> s)"

definition firstNonEmpty :: "string list \<Rightarrow> string" where
  "firstNonEmpty vals = (case find (\<lambda>v. v \<noteq> []) vals of Some v \<Rightarrow> v | None \<Rightarrow> [])"

definition put :: "string \<Rightarrow> AnyVal \<Rightarrow> proxy_map \<Rightarrow> proxy_map" where
  "put k v p = AList.update k v p"

definition setTLS :: "string \<Rightarrow> bool \<Rightarrow> proxy_map \<Rightarrow> proxy_map" where
  "setTLS servername insecure p = (let p = put ''tls'' (AnyBool True) p;
       p = (if servername \<noteq> [] then put ''servername'' (AnyStr servername) p else p) in
     if insecure then put ''skip-cert-verify'' (AnyBool True) p else p)"

definition setTransport :: "string \<Rightarrow> string \<Rightarrow> string \<Rightarrow> string \<Rightarrow> proxy_map \<Rightarrow> proxy_map" where
  "setTransport network host path service p = (let network = ToLower network in
     if network = ''ws'' \<or> network = ''websocket'' then
       put ''ws-opts'' (AnyMap ((''path'', AnyStr (unescape path ''/'')) # (if host \<noteq> [] then [(''headers'', AnyMap [(''Host'', AnyStr host)])] else [])))
         (put ''network'' (AnyStr ''ws'') p)
     else if network = ''grpc'' then
       put ''grpc-opts'' (AnyMap [(''grpc-service-name'', AnyStr (if service = [] then TrimPrefix (unescape path []) ''/'' else service))])
         (put ''network'' (AnyStr ''grpc'') p)
     else if network = ''http'' \<or> network = ''h2'' then
       put ''h2-opts'' (AnyMap [(''path'', AnyStr (unescape path ''/'')), (''host'', AnyStrs (if host \<noteq> [] then [host] else []))])
         (put ''network'' (AnyStr ''h2'') p)
     else p)"

section \<open>Parsers\<close>

definition ssCredsRE :: "string \<Rightarrow> bool" where
  "ssCredsRE s = (s \<noteq> [] \<and> list_all (\<lambda>c. let n = (of_char c :: nat) in (97 \<le> n \<and> n \<le> 122) \<or> (48 \<le> n \<and> n \<le> 57) \<or> c = CHR ''-'') s)"

text \<open>Method and password of the user part of a link: base64 first, then percent-encoded text.\<close>

definition ss_credentials :: "string \<Rightarrow> (string \<times> string) option" where
  "ss_credentials userinfo =
     (case (case b64AnyDecode userinfo of
          Some decoded \<Rightarrow> if CHR '':'' \<in> set decoded \<and> ssCredsRE (fst (cut (CHR '':'') decoded))
            then Some (fst (cut (CHR '':'') decoded), unescape (snd (cut (CHR '':'') decoded)) []) else None
        | None \<Rightarrow> None) of
        Some c \<Rightarrow> Some c
      | None \<Rightarrow> (case QueryUnescape userinfo of
            Some u \<Rightarrow> if CHR '':'' \<in> set u then Some (cut (CHR '':'') u) else None
          | None \<Rightarrow> None))"

type_synonym parsed = "(string, proxy_map) result outcome"

definition ss_proxy :: "string \<Rightarrow> string \<Rightarrow> string \<Rightarrow> (string, proxy_map) result" where
  "ss_proxy meth password server = (case parseHostPort server of
      Inl e \<Rightarrow> Inl (''ss: '' @ e)
    | Inr (host, port) \<Rightarrow> Inr [(''name'', AnyStr ''out''), (''type'', AnyStr ''ss''), (''server'', AnyStr host), (''port'', AnyInt port),
        (''cipher'', AnyStr meth), (''password'', AnyStr password), (''udp'', AnyBool True)])"

text \<open>In the legacy form \<open>parts[1]\<close> is read without a check.\<close>

definition parseSS :: "string \<Rightarrow> parsed" where
  "parseSS uri = (let rest = before (CHR ''?'') (before (CHR ''#'') (TrimPrefix uri ''ss://'')) in
     case split_last (CHR ''@'') rest of
       Some (userinfo, srv) \<Rightarrow> (case ss_credentials userinfo of
           None \<Rightarrow> Ret (Inl ''cannot parse ss:// credentials'')
         | Some (meth, password) \<Rightarrow> Ret (ss_proxy meth password srv))
     | None \<Rightarrow> (case b64AnyDecode rest of
           None \<Rightarrow> Ret (Inl ''invalid ss:// payload'')
         | Some dec \<Rightarrow> (case split_last (CHR ''@'') dec of
               None \<Rightarrow> Ret (Inl ''invalid legacy ss:// payload'')
             | Some (creds, srv) \<Rightarrow>
                 if CHR '':'' \<notin> set dec then Ret (Inl ''invalid legacy ss:// payload'')
                 else if CHR '':'' \<notin> set creds then Panic
                 else Ret (ss_proxy (fst (cut (CHR '':'') creds)) (snd (cut (CHR '':'') creds)) srv))))"

definition strip_socks :: "string \<Rightarrow> string" where
  "strip_socks uri = (let low = ToLower uri in
     if prefix ''socks5h://'' low then drop 10 uri else if prefix ''socks5://'' low then drop 9 uri
     else if prefix ''socks://'' low then drop 8 uri else uri)"

definition parseSocks :: "string \<Rightarrow> (string, proxy_map) result" where
  "parseSocks uri = (let rest = strip_socks uri;
       (userinfo, hostport) = (case split_last (CHR ''@'') rest of Some (u, h) \<Rightarrow> (u, h) | None \<Rightarrow> ([], rest)) in
     case parseHostPort hostport of
       Inl e \<Rightarrow> Inl (''socks: '' @ e)
     | Inr (host, port) \<Rightarrow>
         let p = [(''name'', AnyStr ''out''), (''type'', AnyStr ''socks5''), (''server'', AnyStr host), (''port'', AnyInt port), (''udp'', AnyBool True)] in
         if userinfo = [] then Inr p
         else
           let userinfo = (case QueryUnescape userinfo of Some u \<Rightarrow> u | None \<Rightarrow> userinfo);
               (user, pass) = (if CHR '':'' \<in> set userinfo then cut (CHR '':'') userinfo else (userinfo, []));
               p = put ''username'' (AnyStr user) p in
           Inr (if pass \<noteq> [] then put ''password'' (AnyStr pass) p else p))"

definition json_int_or :: "int \<Rightarrow> jval option \<Rightarrow> int" where
  "json_int_or def v = (case v of
      Some (JString s) \<Rightarrow> (case Atoi s of Some p \<Rightarrow> p | None \<Rightarrow> def)
    | Some (JNumber n) \<Rightarrow> n
    | _ \<Rightarrow> def)"

definition parseVMess :: "string \<Rightarrow> (string, proxy_map) result" where
  "parseVMess uri = (case b64AnyDecode (TrimPrefix uri ''vmess://'') of
      None \<Rightarrow> Inl ''vmess: not base64''
    | Some decoded \<Rightarrow> (case json_object decoded of
          None \<Rightarrow> Inl ''vmess payload''
        | Some data \<Rightarrow>
            let host = json_str (data ''add'') in
            if host = [] then Inl ''vmess: missing host''
            else
              let port = json_int_or 443 (data ''port''); aid = json_int_or 0 (data ''aid'');
                  cipher = (if json_str (data ''scy'') \<noteq> [] then json_str (data ''scy'') else ''auto'');
                  proxy = [(''name'', AnyStr ''out''), (''type'', AnyStr ''vmess''), (''server'', AnyStr host), (''port'', AnyInt port),
                    (''uuid'', AnyStr (json_str (data ''id''))), (''alterId'', AnyInt aid), (''cipher'', AnyStr cipher), (''udp'', AnyBool True)];
                  tls = json_str (data ''tls'');
                  sni = firstNonEmpty [json_str (data ''sni''), json_str (data ''host''), host];
                  proxy = (if EqualFold tls ''tls'' \<or> EqualFold tls ''true'' \<or> tls = ''1'' then setTLS sni False proxy else proxy) in
              Inr (setTransport (json_str (data ''net'')) (json_str (data ''host'')) (json_str (data ''path'')) [] proxy)))"

text \<open>What the parsers of URL-shaped links share: the host, the port and the first values of the query.\<close>

definition with_url :: "string \<Rightarrow> string \<Rightarrow> (share_url \<Rightarrow> int) \<Rightarrow>
    (share_url \<Rightarrow> string \<Rightarrow> int \<Rightarrow> (string \<Rightarrow> string) \<Rightarrow> (string, proxy_map) result) \<Rightarrow> (string, proxy_map) result" where
  "with_url label uri def k = (case url_Parse uri of
      None \<Rightarrow> Inl ''parse''
    | Some u \<Rightarrow>
        if url_Hostname u = [] then Inl (label @ '': missing host'')
        else (case portOrDefault u (def u) of Inl e \<Rightarrow> Inl e | Inr port \<Rightarrow> k u (url_Hostname u) port (queryFirst u)))"

text \<open>\<open>pw, _ = url.QueryUnescape(u.User.Username())\<close>: the empty text on an error.\<close>

definition username_again :: "share_url \<Rightarrow> string" where
  "username_again u = (case su_User u of None \<Rightarrow> [] | Some (name, _) \<Rightarrow> (case QueryUnescape name of Some s \<Rightarrow> s | None \<Rightarrow> []))"

definition parseTrojan :: "string \<Rightarrow> (string, proxy_map) result" where
  "parseTrojan uri = with_url ''trojan'' uri (\<lambda>_. 443) (\<lambda>u host port q.
     let proxy = [(''name'', AnyStr ''out''), (''type'', AnyStr ''trojan''), (''server'', AnyStr host), (''port'', AnyInt port),
           (''password'', AnyStr (username_again u)), (''udp'', AnyBool True)];
         proxy = setTLS (firstNonEmpty [q ''sni'', q ''peer'', host]) (truthy (q ''allowInsecure'')) proxy in
     Inr (setTransport (q ''type'') (q ''host'') (q ''path'') (firstNonEmpty [q ''serviceName'', q ''service_name'']) proxy))"

definition parseVLess :: "string \<Rightarrow> (string, proxy_map) result" where
  "parseVLess uri = with_url ''vless'' uri (\<lambda>_. 443) (\<lambda>u host port q.
     let proxy = [(''name'', AnyStr ''out''), (''type'', AnyStr ''vless''), (''server'', AnyStr host), (''port'', AnyInt port),
           (''uuid'', AnyStr (username_again u)), (''udp'', AnyBool True)];
         proxy = (if q ''flow'' \<noteq> [] then put ''flow'' (AnyStr (q ''flow'')) proxy else proxy);
         security = (if ToLower (q ''security'') = [] then ''tls'' else ToLower (q ''security''));
         proxy = (if security = ''tls'' \<or> security = ''reality'' then setTLS (firstNonEmpty [q ''sni'', host]) (truthy (q ''allowInsecure'')) proxy else proxy);
         pbk = firstNonEmpty [q ''pbk'', q ''public_key''] in
     if security = ''reality'' \<and> pbk = [] then Inl ''vless reality URI missing public key (pbk)''
     else
       let proxy = (if security = ''reality'' then
             put ''client-fingerprint'' (AnyStr (if q ''fp'' = [] then ''chrome'' else q ''fp''))
               (put ''reality-opts'' (AnyMap [(''public-key'', AnyStr pbk), (''short-id'', AnyStr (firstNonEmpty [q ''sid'', q ''short_id'']))]) proxy)
           else proxy) in
       Inr (setTransport (firstNonEmpty [q ''type'', q ''transport'']) (q ''host'') (q ''path'') (firstNonEmpty [q ''serviceName'', q ''service_name'']) proxy))"

definition parseHysteria2 :: "string \<Rightarrow> (string, proxy_map) result" where
  "parseHysteria2 uri = with_url ''hysteria2'' uri (\<lambda>_. 443) (\<lambda>u host port q.
     let p = [(''name'', AnyStr ''out''), (''type'', AnyStr ''hysteria2''), (''server'', AnyStr host), (''port'', AnyInt port),
           (''password'', AnyStr (username_again u)), (''udp'', AnyBool True), (''sni'', AnyStr (firstNonEmpty [q ''sni'', host])),
           (''skip-cert-verify'', AnyBool (truthy (q ''insecure'')))] in
     Inr (if q ''obfs'' \<noteq> [] then put ''obfs-password'' (AnyStr (firstNonEmpty [q ''obfs-password'', q ''obfs_password''])) (put ''obfs'' (AnyStr (q ''obfs'')) p) else p))"

definition tuic_user :: "share_url \<Rightarrow> string \<times> string" where
  "tuic_user u = (case su_User u of
      None \<Rightarrow> ([], [])
    | Some (name, pass) \<Rightarrow>
        let raw = (case QueryUnescape name of Some s \<Rightarrow> s | None \<Rightarrow> []) in
        if CHR '':'' \<in> set raw then cut (CHR '':'') raw
        else (raw, case pass of Some p \<Rightarrow> (case QueryUnescape p of Some s \<Rightarrow> s | None \<Rightarrow> []) | None \<Rightarrow> []))"

definition parseTUIC :: "string \<Rightarrow> (string, proxy_map) result" where
  "parseTUIC uri = with_url ''tuic'' uri (\<lambda>_. 443) (\<lambda>u host port q.
     Inr [(''name'', AnyStr ''out''), (''type'', AnyStr ''tuic''), (''server'', AnyStr host), (''port'', AnyInt port),
       (''uuid'', AnyStr (fst (tuic_user u))), (''password'', AnyStr (snd (tuic_user u))), (''udp'', AnyBool True),
       (''sni'', AnyStr (firstNonEmpty [q ''sni'', host])), (''skip-cert-verify'', AnyBool (truthy (q ''allow_insecure''))),
       (''udp-relay-mode'', AnyStr (firstNonEmpty [q ''udp_relay_mode'', ''native''])),
       (''congestion-controller'', AnyStr (firstNonEmpty [q ''congestion_control'', ''bbr'']))])"

definition parseAnyTLS :: "string \<Rightarrow> (string, proxy_map) result" where
  "parseAnyTLS uri = with_url ''anytls'' uri (\<lambda>_. 443) (\<lambda>u host port q.
     Inr [(''name'', AnyStr ''out''), (''type'', AnyStr ''anytls''), (''server'', AnyStr host), (''port'', AnyInt port),
       (''password'', AnyStr (username_again u)), (''udp'', AnyBool True), (''sni'', AnyStr (firstNonEmpty [q ''sni'', host])),
       (''skip-cert-verify'', AnyBool (truthy (q ''insecure'')))])"

definition parseHTTP :: "string \<Rightarrow> (string, proxy_map) result" where
  "parseHTTP uri = with_url ''http'' uri (\<lambda>u. if EqualFold (su_Scheme u) ''https'' then 443 else 80) (\<lambda>u host port q.
     let p = [(''name'', AnyStr ''out''), (''type'', AnyStr ''http''), (''server'', AnyStr host), (''port'', AnyInt port)];
         p = (case su_User u of None \<Rightarrow> p
            | Some (_, pass) \<Rightarrow>
                let p = put ''username'' (AnyStr (username_again u)) p in
                (case pass of None \<Rightarrow> p
                 | Some pw \<Rightarrow> put ''password'' (AnyStr (case QueryUnescape pw of Some s \<Rightarrow> s | None \<Rightarrow> [])) p)) in
     Inr (if EqualFold (su_Scheme u) ''https'' then setTLS host False p else p))"

definition Parse :: "string \<Rightarrow> parsed" where
  "Parse uri = (let uri = TrimSpace uri; low = ToLower uri; has = (\<lambda>p. prefix p low) in
     if has ''ss://'' then parseSS uri
     else if has ''vmess://'' then Ret (parseVMess uri)
     else if has ''trojan://'' then Ret (parseTrojan uri)
     else if has ''vless://'' then Ret (parseVLess uri)
     else if has ''hysteria2://'' \<or> has ''hy2://'' then Ret (parseHysteria2 uri)
     else if has ''tuic://'' then Ret (parseTUIC uri)
     else if has ''anytls://'' then Ret (parseAnyTLS uri)
     else if has ''socks5h://'' \<or> has ''socks5://'' \<or> has ''socks://'' then Ret (parseSocks uri)
     else if has ''http://'' \<or> has ''https://'' then Ret (parseHTTP uri)
     else Ret (Inl (''exit: unsupported URI scheme: '' @ firstScheme uri)))"

section \<open>What a parsed link looks like\<close>

text \<open>The fields every consumer reads: the name is fixed, the type is \<open>kind\<close>, the server is not empty and the port is allowed.\<close>

definition wf_proxy :: "(int \<Rightarrow> bool) \<Rightarrow> string \<Rightarrow> proxy_map \<Rightarrow> bool" where
  "wf_proxy okp kind p = (distinct (map fst p) \<and> map_of p ''name'' = Some (AnyStr ''out'') \<and> map_of p ''type'' = Some (AnyStr kind) \<and>
     (case map_of p ''server'' of Some (AnyStr h) \<Rightarrow> h \<noteq> [] | _ \<Rightarrow> False) \<and>
     (case map_of p ''port'' of Some (AnyInt n) \<Rightarrow> okp n | _ \<Rightarrow> False))"

abbreviation port_range :: "int \<Rightarrow> bool" where
  "port_range \<equiv> (\<lambda>n. 1 \<le> n \<and> n \<le> 65535)"

text \<open>The type a link's scheme stands for.\<close>

definition scheme_kind :: "string \<Rightarrow> string option" where
  "scheme_kind uri = map_of [(''ss'', ''ss''), (''vmess'', ''vmess''), (''trojan'', ''trojan''), (''vless'', ''vless''), (''hysteria2'', ''hysteria2''),
     (''hy2'', ''hysteria2''), (''tuic'', ''tuic''), (''anytls'', ''anytls''), (''socks5h'', ''socks5''), (''socks5'', ''socks5''),
     (''socks'', ''socks5''), (''http'', ''http''), (''https'', ''http'')] (before (CHR '':'') (ToLower (TrimSpace uri)))"

lemma put_wf [intro]:
  "wf_proxy okp kind p \<Longrightarrow> k \<notin> {''name'', ''type'', ''server'', ''port''} \<Longrightarrow> wf_proxy okp kind (put k v p)"
  by (auto simp: wf_proxy_def put_def update_conv' distinct_update)

lemma setTLS_wf [intro]: "wf_proxy okp kind p \<Longrightarrow> wf_proxy okp kind (setTLS sni ins p)"
  by (simp add: setTLS_def Let_def put_wf)

lemma setTransport_wf [intro]: "wf_proxy okp kind p \<Longrightarrow> wf_proxy okp kind (setTransport network host path service p)"
  by (simp add: setTransport_def Let_def put_wf)

lemma parseHostPort_ok: "parseHostPort v = Inr (h, n) \<Longrightarrow> h \<noteq> [] \<and> port_range n"
  by (auto simp: parseHostPort_def Let_def split: option.splits if_splits)

lemma portOrDefault_ok: "portOrDefault u def = Inr n \<Longrightarrow> port_range def \<Longrightarrow> port_range n"
  by (auto simp: portOrDefault_def split: option.splits if_splits)

lemma with_url_ok:
  assumes "with_url label uri def k = Inr p" and "\<And>u. port_range (def u)"
    and "\<And>u host n. url_Parse uri = Some u \<Longrightarrow> host \<noteq> [] \<Longrightarrow> port_range n \<Longrightarrow> k u host n (queryFirst u) = Inr p \<Longrightarrow> wf_proxy port_range kind p"
  shows "wf_proxy port_range kind p"
  using assms portOrDefault_ok by (fastforce simp: with_url_def split: option.splits if_splits sum.splits)

lemma parseSS_wf: "parseSS uri = Ret (Inr p) \<Longrightarrow> wf_proxy port_range ''ss'' p"
  by (auto simp: parseSS_def ss_proxy_def Let_def wf_proxy_def dest!: parseHostPort_ok split: option.splits prod.splits if_splits sum.splits)

lemma parseSocks_wf: "parseSocks uri = Inr p \<Longrightarrow> wf_proxy port_range ''socks5'' p"
proof -
  assume a: "parseSocks uri = Inr p"
  have lit: "wf_proxy port_range ''socks5'' [(''name'', AnyStr ''out''), (''type'', AnyStr ''socks5''), (''server'', AnyStr host), (''port'', AnyInt n), (''udp'', AnyBool True)]"
    if "host \<noteq> []" "port_range n" for host n using that by (simp add: wf_proxy_def)
  show ?thesis using a by (auto simp: parseSocks_def Let_def dest!: parseHostPort_ok intro!: put_wf lit split: option.splits prod.splits if_splits sum.splits)
qed

lemma parseVMess_wf: "parseVMess uri = Inr p \<Longrightarrow> wf_proxy (\<lambda>_. True) ''vmess'' p"
proof -
  assume a: "parseVMess uri = Inr p"
  have lit: "wf_proxy (\<lambda>_. True) ''vmess'' [(''name'', AnyStr ''out''), (''type'', AnyStr ''vmess''), (''server'', AnyStr host), (''port'', AnyInt port),
      (''uuid'', i), (''alterId'', aid), (''cipher'', ci), (''udp'', AnyBool True)]"
    if "host \<noteq> []" for host port i aid ci using that by (simp add: wf_proxy_def)
  show ?thesis using a by (auto simp: parseVMess_def Let_def intro!: put_wf lit split: option.splits if_splits)
qed

lemma parseTrojan_wf: "parseTrojan uri = Inr p \<Longrightarrow> wf_proxy port_range ''trojan'' p"
  unfolding parseTrojan_def by (erule with_url_ok) (auto simp: Let_def wf_proxy_def [of _ _ "_ # _"] intro!: setTransport_wf setTLS_wf)

lemma parseVLess_wf: "parseVLess uri = Inr p \<Longrightarrow> wf_proxy port_range ''vless'' p"
  unfolding parseVLess_def
  by (erule with_url_ok) (auto simp: Let_def wf_proxy_def [of _ _ "_ # _"] intro!: setTransport_wf setTLS_wf put_wf split: if_splits)

lemma parseHysteria2_wf: "parseHysteria2 uri = Inr p \<Longrightarrow> wf_proxy port_range ''hysteria2'' p"
  unfolding parseHysteria2_def by (erule with_url_ok) (auto simp: Let_def wf_proxy_def [of _ _ "_ # _"] intro!: put_wf split: if_splits)

lemma parseTUIC_wf: "parseTUIC uri = Inr p \<Longrightarrow> wf_proxy port_range ''tuic'' p"
  unfolding parseTUIC_def by (erule with_url_ok) (auto simp: wf_proxy_def)

lemma parseAnyTLS_wf: "parseAnyTLS uri = Inr p \<Longrightarrow> wf_proxy port_range ''anytls'' p"
  unfolding parseAnyTLS_def by (erule with_url_ok) (auto simp: wf_proxy_def)

lemma parseHTTP_wf: "parseHTTP uri = Inr p \<Longrightarrow> wf_proxy port_range ''http'' p"
  unfolding parseHTTP_def
  by (erule with_url_ok) (auto simp: Let_def wf_proxy_def [of _ _ "_ # _"] intro!: setTLS_wf put_wf split: option.splits if_splits)

section \<open>Shadowsocks links read back\<close>

lemma b64_decode_agree:
  assumes "\<And>c x y. f c = Some x \<Longrightarrow> g c = Some y \<Longrightarrow> x = y"
  shows "b64_decode f s = Some v \<Longrightarrow> b64_decode g s = Some w \<Longrightarrow> v = w"
  using assms
proof (induction f s arbitrary: v w rule: b64_decode.induct [case_names Nil Quad bad1 bad2 bad3])
  case (Quad f a b c d s)
  note agree = Quad.prems(3)
  from Quad.prems obtain x y x' y' where v: "f a = Some x" "f b = Some y" "g a = Some x'" "g b = Some y'"
    by (auto split: option.splits)
  have xy: "x' = x" "y' = y" using v agree by metis+
  show ?case
  proof (cases "c = CHR ''=''")
    case True
    then show ?thesis using Quad.prems v xy by (simp add: Let_def split: if_splits)
  next
    case c: False
    from Quad.prems v c obtain z z' where z: "f c = Some z" "g c = Some z'" by (auto simp: Let_def split: option.splits)
    have zz: "z' = z" using z agree by metis
    show ?thesis
    proof (cases "d = CHR ''=''")
      case True
      then show ?thesis using Quad.prems v xy z zz c by (simp add: Let_def split: if_splits)
    next
      case d: False
      from Quad.prems v c z d obtain u u' r r' where r: "f d = Some u" "g d = Some u'" "b64_decode f s = Some r" "b64_decode g s = Some r'"
        by (auto simp: Let_def split: option.splits)
      have "u' = u" using r agree by metis
      moreover have "r' = r" using Quad.IH [OF refl v(1,2) refl c z(1) refl d r(1,3,4) agree] by simp
      ultimately show ?thesis using Quad.prems v xy z zz c d r by (simp add: Let_def)
    qed
  qed
qed auto

lemma alphabets_agree: "URLDecode s = Some v \<Longrightarrow> StdDecode s = Some w \<Longrightarrow> v = w"
  unfolding URLDecode_def StdDecode_def by (rule b64_decode_agree) (auto simp: b64_val_def Let_def split: if_splits)

lemma TrimSpace_none: "\<forall>c \<in> set s. \<not> is_space c \<Longrightarrow> TrimSpace s = s"
proof -
  assume s: "\<forall>c \<in> set s. \<not> is_space c"
  have "dropWhile is_space t = t" if "\<forall>c \<in> set t. \<not> is_space c" for t using that by (cases t) auto
  from this [of s] this [of "rev s"] show ?thesis using s by (simp add: TrimSpace_def TrimFunc_def)
qed

lemma padding: "(a + k) mod 4 = 0 \<Longrightarrow> k < 4 \<Longrightarrow> (4 - a mod 4) mod 4 = (k :: nat)"
proof -
  assume k: "(a + k) mod 4 = 0" "k < 4"
  define m where "m = a mod 4"
  have "m < 4" "(m + k) mod 4 = 0" using k(1) by (simp_all add: m_def mod_add_left_eq)
  then have "m + k = 0 \<or> m + k = 4" using k(2) by presburger
  then have "(4 - m) mod 4 = k" using k(2) by (auto simp: mod_if)
  then show ?thesis by (simp add: m_def)
qed

lemma b64AnyDecode_encode:
  assumes "t = b64_encode s \<or> t = takeWhile (\<lambda>c. c \<noteq> CHR ''='') (b64_encode s)" and "s \<noteq> []"
  shows "b64AnyDecode t = Some s" and "\<forall>c \<in> set t. isBase64Char c \<and> \<not> is_space c"
proof -
  obtain e k where e: "b64_encode s = e @ replicate k (CHR ''='')" "k < 4" "(length e + k) mod 4 = 0" "3 * length e \<ge> 4 * length s"
      and chars: "list_all (\<lambda>c. isBase64Char c \<and> \<not> is_space c \<and> c \<noteq> CHR ''='') e" using encode_shape [of s] by (elim exE conjE) (rule that)
  have tw: "takeWhile (\<lambda>c. c \<noteq> CHR ''='') (b64_encode s) = e"
    using chars by (cases k) (auto simp: e(1) takeWhile_append2 list_all_iff)
  define j where "j = (if t = b64_encode s then k else 0)"
  have t: "t = e @ replicate j (CHR ''='')" and jk: "j = k \<or> j = 0" using assms(1) tw by (auto simp: j_def e(1))
  have ne: "t \<noteq> []" using e(4) assms(2) by (auto simp: t)
  have "isBase64Char (CHR ''='') \<and> \<not> is_space (CHR ''='')" by (simp add: isBase64Char_def is_space_def)
  then show cs: "\<forall>c \<in> set t. isBase64Char c \<and> \<not> is_space c"
    using chars unfolding t set_append set_replicate_conv_if list_all_iff by (simp add: ball_Un)
  have pad: "j + (4 - length t mod 4) mod 4 = k"
  proof (cases "j = k")
    case True
    then show ?thesis using e(3) by (simp add: t)
  next
    case False
    then have j0: "j = 0" using jk by simp
    show ?thesis using padding [OF e(3,2)] by (simp add: t j0)
  qed
  have "t @ replicate ((4 - length t mod 4) mod 4) (CHR ''='') = b64_encode s"
    unfolding e(1) pad [symmetric] replicate_add by (simp add: t)
  moreover have "filter (\<lambda>c. c \<noteq> CHR 0x0A \<and> c \<noteq> CHR 0x0D) (b64_encode s) = b64_encode s"
  proof -
    have "is_space (CHR 0x0A)" "is_space (CHR 0x0D)" "\<not> is_space (CHR ''='')" by (simp_all add: is_space_def)
    moreover from this(3) have "\<forall>c \<in> set (b64_encode s). \<not> is_space c"
      using chars unfolding e(1) set_append set_replicate_conv_if list_all_iff by (simp add: ball_Un)
    ultimately show ?thesis by (intro filter_True) metis
  qed
  ultimately show "b64AnyDecode t = Some s"
    using cs ne alphabets_agree [OF _ StdDecode_encode] by (auto simp: b64AnyDecode_def Let_def TrimSpace_none StdDecode_encode split: option.split)
qed

lemma QueryUnescape_plain: "CHR ''%'' \<notin> set s \<Longrightarrow> CHR ''+'' \<notin> set s \<Longrightarrow> QueryUnescape s = Some s"
  unfolding QueryUnescape_def by (induction s) auto

lemma takeWhile_until: "c \<notin> set a \<Longrightarrow> takeWhile (\<lambda>x. x \<noteq> c) (a @ c # b) = a"
  by (subst takeWhile_append2) auto

lemma split_last_append: "c \<notin> set b \<Longrightarrow> split_last c (a @ c # b) = Some (a, b)"
  by (simp add: split_last_def Let_def takeWhile_until)

lemma before_id: "c \<notin> set s \<Longrightarrow> before c s = s"
  by (simp add: before_def takeWhile_eq_all_conv) metis

lemma before_append: "c \<notin> set s \<Longrightarrow> before c (s @ c # t) = s"
  by (simp add: before_def takeWhile_until)

lemma cut_append: "c \<notin> set a \<Longrightarrow> cut c (a @ c # b) = (a, b)"
  by (simp add: cut_def Let_def takeWhile_until)

lemma Atoi_itoa: "0 < n \<Longrightarrow> n \<le> 65535 \<Longrightarrow> Atoi (itoa n) = Some n"
proof -
  assume n: "0 < n" "n \<le> 65535"
  have d: "\<forall>c \<in> set (itoa n). is_digit c" using itoa_digits_is_digit n(1) by (auto simp: itoa_pos)
  have ne: "itoa n \<noteq> []" using hd_itoa_digits [of "nat n"] n(1) by (simp add: itoa_pos)
  then have "is_digit (hd (itoa n))" using d by simp
  then have "hd (itoa n) \<noteq> CHR ''-''" "hd (itoa n) \<noteq> CHR ''+''" by (auto simp: is_digit_def)
  then show ?thesis using n d ne itoa_val_nonneg [of n] by (simp add: Atoi_def Let_def list_all_iff)
qed

text \<open>A host as links carry it.\<close>

definition link_host :: "string \<Rightarrow> bool" where
  "link_host h = (h \<noteq> [] \<and> hd h \<noteq> CHR ''['' \<and> list_all (\<lambda>c. c \<notin> set ''/?#@'' \<and> \<not> is_space c) h)"

lemma itoa_chars: "0 < n \<Longrightarrow> \<forall>c \<in> set (itoa n). is_digit c"
  using itoa_digits_is_digit by (auto simp: itoa_pos)

lemma digit_chars: "is_digit c \<Longrightarrow> c \<notin> set ''/?#@:'' \<and> \<not> is_space c"
  by (auto simp: is_digit_def is_space_def Let_def)

lemma link_chars:
  assumes "link_host h" and "1 \<le> n" and "c \<in> set (h @ CHR '':'' # itoa n)"
  shows "c \<notin> set ''/?#@'' \<and> \<not> is_space c"
proof -
  consider "c \<in> set h" | "c = CHR '':''" | "c \<in> set (itoa n)" using assms(3) by fastforce
  then show ?thesis
  proof cases
    case 1
    then show ?thesis using assms(1) by (simp add: link_host_def list_all_iff)
  next
    case 2
    then show ?thesis by (simp add: is_space_def)
  next
    case 3
    then show ?thesis using itoa_chars [of n] assms(2) digit_chars [of c] by simp
  qed
qed

lemma parseHostPort_link:
  assumes "link_host h" and "1 \<le> n" and "n \<le> 65535"
  shows "parseHostPort (h @ CHR '':'' # itoa n) = Inr (h, n)"
proof -
  let ?v = "h @ CHR '':'' # itoa n"
  have n: "0 < n" using assms(2) by simp
  note ns = link_chars [OF assms(1,2)]
  have ne: "itoa n \<noteq> []" using hd_itoa_digits [of "nat n"] n by (simp add: itoa_pos)
  have t: "TrimSpace (before (CHR ''#'') (before (CHR ''?'') (before (CHR ''/'') ?v))) = ?v"
  proof -
    have "CHR ''/'' \<notin> set ?v" "CHR ''?'' \<notin> set ?v" "CHR ''#'' \<notin> set ?v"
      using ns [of "CHR ''/''"] ns [of "CHR ''?''"] ns [of "CHR ''#''"] by auto
    then have "before (CHR ''#'') (before (CHR ''?'') (before (CHR ''/'') ?v)) = ?v"
      using before_id [of _ ?v] by metis
    then show ?thesis using TrimSpace_none [of ?v] ns by simp
  qed
  have "CHR '':'' \<notin> set (itoa n)" using itoa_chars [OF n] digit_chars by force
  then have sl: "split_last (CHR '':'') ?v = Some (h, itoa n)" by (rule split_last_append)
  have nl: "CHR 0x0A \<notin> set h" using ns [of "CHR 0x0A"] by (auto simp: is_space_def)
  have "hostPortRE ?v = Some (h, itoa n)"
    using sl ne itoa_chars [OF n] assms(1) nl by (auto simp: hostPortRE_def link_host_def list_all_iff)
  then show ?thesis using t Atoi_itoa [OF n assms(3)] assms by (simp add: parseHostPort_def link_host_def)
qed


text \<open>The SIP002 form of a link: the user part is the base64 of \<open>method:password\<close>, with or without its padding.\<close>

definition ss_link :: "bool \<Rightarrow> string \<Rightarrow> string \<Rightarrow> string \<Rightarrow> int \<Rightarrow> string \<Rightarrow> string" where
  "ss_link padded meth password host port tag = (let e = b64_encode (meth @ CHR '':'' # password) in
     ''ss://'' @ (if padded then e else takeWhile (\<lambda>c. c \<noteq> CHR ''='') e) @ CHR ''@'' # host @ CHR '':'' # itoa port @ CHR ''#'' # tag)"

lemma TrimSpace_front: "s \<noteq> [] \<Longrightarrow> \<not> is_space (hd s) \<Longrightarrow> \<not> is_space (last s) \<Longrightarrow> TrimSpace (s @ t) = s @ rev (dropWhile is_space (rev t))"
proof -
  assume s: "s \<noteq> []" "\<not> is_space (hd s)" "\<not> is_space (last s)"
  then have "dropWhile is_space (s @ t) = s @ t" by (cases s) auto
  moreover have "dropWhile is_space (rev t @ rev s) = dropWhile is_space (rev t) @ rev s"
    using s by (cases "rev s") (auto simp: dropWhile_append hd_rev [symmetric] dropWhile_eq_Nil_conv)
  ultimately show ?thesis by (simp add: TrimSpace_def TrimFunc_def)
qed



text \<open>A \<open>+\<close> in a base64 password does not survive: the decoded text is percent-decoded once more.\<close>

lemma plus_in_password_lost: "ss_credentials (b64_encode ''aes-128-gcm:a+b'') = Some (''aes-128-gcm'', ''a b'')"
  by code_simp

text \<open>The scheme is matched without regard to case, but only a lower-case one is cut off.\<close>

lemma upper_case_scheme_leaks:
  "Parse (''SS://aes-128-gcm:pw@h.test:443'') = Ret (Inr [(''name'', AnyStr ''out''), (''type'', AnyStr ''ss''), (''server'', AnyStr ''h.test''),
     (''port'', AnyInt 443), (''cipher'', AnyStr ''SS''), (''password'', AnyStr ''//aes-128-gcm:pw''), (''udp'', AnyBool True)])"
  by code_simp

lemma upper_case_vmess_rejected: "Parse (''VMESS://'' @ b64_encode ''{}'') = Ret (Inl ''vmess: not base64'')"
  by code_simp

text \<open>The user part of a URL is percent-decoded by \<open>url.Parse\<close> and once more by the parsers; the error of the second decoding is dropped,
  so a password that holds a percent sign is lost.\<close>

lemma percent_password_lost:
  "map_option (\<lambda>u. (su_User u, username_again u)) (url_Parse ''trojan://100%25@h.test:443'') = Some (Some (''100%'', None), [])"
  by code_simp

lemma split_last_None: "split_last c s = None \<longleftrightarrow> c \<notin> set s"
  by (simp add: split_last_def Let_def)

lemma split_last_Some: "split_last c s = Some (a, b) \<longleftrightarrow> s = a @ c # b \<and> c \<notin> set b"
proof
  assume h: "split_last c s = Some (a, b)"
  then have "c \<in> set s" by (metis option.distinct(1) split_last_None)
  then obtain x y where "s = x @ c # y" "c \<notin> set y" by (meson split_list_last)
  then show "s = a @ c # b \<and> c \<notin> set b" using h split_last_append [of c y x] by simp
qed (auto intro: split_last_append)

lemma last_split_unique: "a @ c # b = a' @ (c :: char) # b' \<Longrightarrow> c \<notin> set b \<Longrightarrow> c \<notin> set b' \<Longrightarrow> a = a' \<and> b = b'"
proof -
  assume eq: "a @ c # b = a' @ c # b'" and b: "c \<notin> set b" "c \<notin> set b'"
  have "Some (a, b) = Some (a', b')" by (rule trans [OF split_last_append [OF b(1), symmetric]]) (unfold eq, rule split_last_append [OF b(2)])
  then show ?thesis by blast
qed

text \<open>When parsing a link panics: exactly for a Shadowsocks link with no \<open>@\<close> whose payload decodes to text with an \<open>@\<close> and a colon, but
  no colon before the last \<open>@\<close>; the field after the method is then read past the end of the split.  Every other link ends in a
  proxy or an error.\<close>

theorem parse_panics_exactly:
  "Parse uri = Panic \<longleftrightarrow> prefix ''ss://'' (ToLower (TrimSpace uri)) \<and>
     (let rest = before (CHR ''?'') (before (CHR ''#'') (TrimPrefix (TrimSpace uri) ''ss://'')) in
        CHR ''@'' \<notin> set rest \<and> (\<exists>creds srv. b64AnyDecode rest = Some (creds @ CHR ''@'' # srv) \<and> CHR ''@'' \<notin> set srv \<and>
          CHR '':'' \<in> set srv \<and> CHR '':'' \<notin> set creds))"
proof -
  let ?u = "TrimSpace uri"
  have "Parse uri = Panic \<longleftrightarrow> prefix ''ss://'' (ToLower ?u) \<and> parseSS ?u = Panic" by (simp add: Parse_def Let_def)
  moreover have "parseSS ?u = Panic \<longleftrightarrow>
     (let rest = before (CHR ''?'') (before (CHR ''#'') (TrimPrefix ?u ''ss://'')) in
        CHR ''@'' \<notin> set rest \<and> (\<exists>creds srv. b64AnyDecode rest = Some (creds @ CHR ''@'' # srv) \<and> CHR ''@'' \<notin> set srv \<and>
          CHR '':'' \<in> set srv \<and> CHR '':'' \<notin> set creds))"
    by (auto simp: parseSS_def Let_def split_last_Some split_last_None split_last_append dest: last_split_unique split: option.splits prod.splits)
  ultimately show ?thesis by simp
qed

lemma legacy_ss_panics: "Parse ''ss://YWJjQGhvc3Q6NDQz'' = Panic"
  by code_simp

lemma prefix_scheme: "prefix (w @ CHR '':'' # t) s \<Longrightarrow> CHR '':'' \<notin> set w \<Longrightarrow> before (CHR '':'') s = w"
  by (auto simp: prefix_def before_append)

text \<open>What a parsed link holds: the map has no key twice, its name is \<open>out\<close>, its type is the one the scheme stands for, its
  server is not empty, and its port is between 1 and 65535 for every type but \<open>vmess\<close>, whose port is taken as it is.  No other scheme is
  parsed.\<close>

theorem parsed_link_well_formed:
  assumes "Parse uri = Ret (Inr p)"
  shows "\<exists>kind. scheme_kind uri = Some kind \<and> wf_proxy (\<lambda>n. kind = ''vmess'' \<or> 1 \<le> n \<and> n \<le> 65535) kind p"
proof -
  let ?low = "ToLower (TrimSpace uri)"
  have weaken: "wf_proxy port_range k p \<Longrightarrow> wf_proxy (\<lambda>n. k = ''vmess'' \<or> 1 \<le> n \<and> n \<le> 65535) k p" for k
    by (auto simp: wf_proxy_def simp del: map_of_eq_Some_iff split: option.splits AnyVal.splits)
  have kind: "scheme_kind uri = map_of [(''ss'', ''ss''), (''vmess'', ''vmess''), (''trojan'', ''trojan''), (''vless'', ''vless''), (''hysteria2'', ''hysteria2''),
     (''hy2'', ''hysteria2''), (''tuic'', ''tuic''), (''anytls'', ''anytls''), (''socks5h'', ''socks5''), (''socks5'', ''socks5''),
     (''socks'', ''socks5''), (''http'', ''http''), (''https'', ''http'')] w" if "prefix (w @ ''://'') ?low" "CHR '':'' \<notin> set w" for w
    using prefix_scheme [of w "''//''" ?low] that by (simp add: scheme_kind_def)
  show ?thesis
    using assms kind [of "''ss''"] kind [of "''vmess''"] kind [of "''trojan''"] kind [of "''vless''"] kind [of "''hysteria2''"] kind [of "''hy2''"]
      kind [of "''tuic''"] kind [of "''anytls''"] kind [of "''socks5h''"] kind [of "''socks5''"] kind [of "''socks''"] kind [of "''http''"] kind [of "''https''"]
    by (auto simp: Parse_def Let_def simp del: prefix_Cons intro!: weaken
        dest: parseSS_wf parseVMess_wf parseTrojan_wf parseVLess_wf parseHysteria2_wf parseTUIC_wf parseAnyTLS_wf parseSocks_wf parseHTTP_wf split: if_splits)
qed

theorem parsed_link_well_formed_witness:
  "\<exists>kind. scheme_kind ''vless://id@[::1]:700?security=none'' = Some kind \<and> wf_proxy (\<lambda>n. kind = ''vmess'' \<or> 1 \<le> n \<and> n \<le> 65535) kind
     [(''name'', AnyStr ''out''), (''type'', AnyStr ''vless''), (''server'', AnyStr ''::1''), (''port'', AnyInt 700), (''uuid'', AnyStr ''id''), (''udp'', AnyBool True)]"
  by (rule parsed_link_well_formed) code_simp

text \<open>The port of a \<open>vmess\<close> link is not checked.\<close>

lemma vmess_port_unchecked:
  "map_option (\<lambda>d. json_int_or 443 (d ''port'')) (json_object ([CHR 0x7B, CHR 0x22] @ ''port'' @ [CHR 0x22] @ '':-7}'')) = Some (- 7)"
  by code_simp

end
