(* ===== verification/Renderers.thy ===== *)
theory Renderers
  imports Assemble Orchestrator
begin

text \<open>
  The renderers of \<open>internal/config/render\<close>: \<open>mihomo.go\<close> builds the document of the proxy core (proxies, the select group, the
  rule lines), \<open>dnsdist.go\<close> and \<open>sniproxy.go\<close> fill a template.  The YAML encoder and the texts of the rule errors are
  parameters.  \<open>%q\<close> is written out for ASCII text.
\<close>

section \<open>The configuration the renderers read\<close>

record render_rest =
  rr_TLS_Cert :: string
  rr_TLS_Key :: string
  rr_DoTPort :: int
  rr_ChinaListPath :: string
  rr_ListenHTTP :: int
  rr_LoopbackHTTPS :: int
  rr_MihomoMixedPort :: int

type_synonym RenderConfig = "render_rest Config"

datatype render_error = ErrNilConfig | ErrRuleAction string string | ErrRuleLine rule_error | ErrEncode string

section \<open>The proxy core (\<open>mihomo.go\<close>)\<close>

definition defaultMihomoMixedPort :: int where "defaultMihomoMixedPort = 7890"

definition mihomoAction :: "string \<Rightarrow> string list \<Rightarrow> (string, string) result" where
  "mihomoAction action exitNames =
     (let action = TrimSpace action; low = ToLower action in
      if low = ''block'' \<or> low = ''reject'' then Inr ''REJECT''
      else if low = ''direct'' then Inr ''DIRECT''
      else if low = ''proxy'' then Inr ''PROXY''
      else if action \<in> set exitNames then Inr action
      else Inl action)"

definition buildProxyGroupNames :: "string list \<Rightarrow> string \<Rightarrow> string list" where
  "buildProxyGroupNames names activeExitName = activeExitName # filter (\<lambda>n. n \<noteq> activeExitName) names"

definition render_rule :: "string list \<Rightarrow> Rule \<Rightarrow> (render_error, string) result" where
  "render_rule exitNames r = (case mihomoAction (rule_Action r) exitNames of
      Inl a \<Rightarrow> Inl (ErrRuleAction (rule_ID r) a)
    | Inr canonical \<Rightarrow> (case ToMihomoLine (r\<lparr>rule_Action := canonical\<rparr>) of
          Inl e \<Rightarrow> Inl (ErrRuleLine e)
        | Inr line \<Rightarrow> Inr line))"

fun render_rules :: "string list \<Rightarrow> Rule list \<Rightarrow> (render_error, string list) result" where
  "render_rules exitNames [] = Inr []"
| "render_rules exitNames (r # rs) = (case render_rule exitNames r of
      Inl e \<Rightarrow> Inl e
    | Inr line \<Rightarrow> (case render_rules exitNames rs of Inl e \<Rightarrow> Inl e | Inr lines \<Rightarrow> Inr (line # lines)))"

text \<open>The loop that sets the MATCH rules apart keeps the latest one.\<close>

definition match_rule :: "Rule list \<Rightarrow> Rule option" where
  "match_rule rs = find (\<lambda>r. rule_Kind r = KindMatch) (rev (enabled_rules rs))"

definition buildRuleLines :: "Rule list \<Rightarrow> string \<Rightarrow> string list \<Rightarrow> (render_error, string list) result" where
  "buildRuleLines effectiveRules activeExitName exitNames =
     (if effectiveRules = [] then Inr [''MATCH,'' @ activeExitName]
      else let nonMatch = sort_key rule_Priority (filter (\<lambda>r. rule_Kind r \<noteq> KindMatch) (enabled_rules effectiveRules)) in
        (case render_rules exitNames nonMatch of
           Inl e \<Rightarrow> Inl e
         | Inr out \<Rightarrow> (case match_rule effectiveRules of
               Some m \<Rightarrow> (case render_rule exitNames m of Inl e \<Rightarrow> Inl e | Inr line \<Rightarrow> Inr (out @ [line]))
             | None \<Rightarrow> Inr (out @ [''MATCH,'' @ activeExitName]))))"

definition proxy_entry :: "ExitConfig \<Rightarrow> proxy_map" where
  "proxy_entry ex = (''name'', AnyStr (ec_ID ex)) # (''type'', AnyStr (ec_Protocol ex)) #
     filter (\<lambda>(k, v). k \<noteq> ''name'' \<and> k \<noteq> ''type'') (case ec_Config ex of None \<Rightarrow> [] | Some m \<Rightarrow> m)"

definition direct_entry :: proxy_map where
  "direct_entry = [(''name'', AnyStr ''direct''), (''type'', AnyStr ''direct'')]"

definition go_slice :: "'a list option \<Rightarrow> 'a list" where
  "go_slice x = (case x of None \<Rightarrow> [] | Some xs \<Rightarrow> xs)"

definition exit_names :: "ExitConfig list \<Rightarrow> string list" where
  "exit_names es = (if es = [] then [''direct''] else map ec_ID es)"

definition mihomo_proxies :: "ExitConfig list \<Rightarrow> proxy_map list" where
  "mihomo_proxies es = (if es = [] then [direct_entry] else map proxy_entry es)"

definition mihomo_doc :: "RenderConfig \<Rightarrow> (render_error, proxy_map) result" where
  "mihomo_doc cfg =
     (let port = rr_MihomoMixedPort (cfg_rest cfg);
          mixedPort = (if port = 0 then defaultMihomoMixedPort else port);
          exits = go_slice (cfg_Exits cfg);
          names = exit_names exits;
          activeExitName = hd names in
      case buildRuleLines (go_slice (cfg_EffectiveRules cfg)) activeExitName names of
        Inl e \<Rightarrow> Inl e
      | Inr ruleLines \<Rightarrow> Inr [
          (''mode'', AnyStr ''rule''),
          (''log-level'', AnyStr ''warning''),
          (''ipv6'', AnyBool False),
          (''mixed-port'', AnyInt mixedPort),
          (''bind-address'', AnyStr ''127.0.0.1''),
          (''external-controller'', AnyStr ''127.0.0.1:9090''),
          (''profile'', AnyMap [(''store-selected'', AnyBool False)]),
          (''proxies'', AnySlice (map AnyMap (mihomo_proxies exits))),
          (''proxy-groups'', AnySlice [AnyMap [(''name'', AnyStr ''PROXY''), (''type'', AnyStr ''select''),
             (''proxies'', AnyStrs (buildProxyGroupNames names activeExitName))]]),
          (''rules'', AnyStrs ruleLines)])"

definition Mihomo_Render :: "(proxy_map \<Rightarrow> (string, string) result) \<Rightarrow> RenderConfig option \<Rightarrow> (render_error, string) result" where
  "Mihomo_Render encode cfg = (case cfg of
      None \<Rightarrow> Inl ErrNilConfig
    | Some c \<Rightarrow> (case mihomo_doc c of
          Inl e \<Rightarrow> Inl e
        | Inr doc \<Rightarrow> (case encode doc of Inl e \<Rightarrow> Inl (ErrEncode e) | Inr body \<Rightarrow> Inr body)))"

section \<open>Templates (\<open>dnsdist.go\<close>, \<open>sniproxy.go\<close>)\<close>

definition split_host_port :: "string \<Rightarrow> string \<Rightarrow> string \<times> string" where
  "split_host_port hp defaultPort =
     (let b = takeWhile (\<lambda>c. c \<noteq> CHR '':'') (rev hp); i = length hp - length b - 1 in
      if CHR '':'' \<in> set hp \<and> 0 < i \<and> \<not> HasSuffix hp '']'' then (take i hp, rev b) else (hp, defaultPort))"

definition first_non_empty :: "string \<Rightarrow> string \<Rightarrow> string" where
  "first_non_empty a b = (if a \<noteq> [] then a else b)"

definition firstNonZero :: "int \<Rightarrow> int \<Rightarrow> int" where
  "firstNonZero a b = (if a \<noteq> 0 then a else b)"

text \<open>The verb \<open>%q\<close>.\<close>

definition quote_char :: "char \<Rightarrow> string" where
  "quote_char c = (let n = of_char c :: nat in
     if c = CHR 0x22 then [CHR 0x5C, CHR 0x22] else if c = CHR 0x5C then [CHR 0x5C, CHR 0x5C]
     else if n = 7 then [CHR 0x5C, CHR ''a''] else if n = 8 then [CHR 0x5C, CHR ''b'']
     else if n = 12 then [CHR 0x5C, CHR ''f''] else if n = 10 then [CHR 0x5C, CHR ''n'']
     else if n = 13 then [CHR 0x5C, CHR ''r''] else if n = 9 then [CHR 0x5C, CHR ''t'']
     else if n = 11 then [CHR 0x5C, CHR ''v'']
     else if n < 32 \<or> n = 127 then [CHR 0x5C, CHR ''x'', hex_digit (n div 16), hex_digit (n mod 16)]
     else [c])"

definition go_quote :: "string \<Rightarrow> string" where
  "go_quote s = CHR 0x22 # concat (map quote_char s) @ [CHR 0x22]"

definition server_line :: "nat \<Rightarrow> string \<Rightarrow> string" where
  "server_line i u = (case split_host_port u ''53'' of (host, port) \<Rightarrow>
     ''newServer({address='' @ go_quote (host @ '':'' @ port) @ '', pool='' @ go_quote ''remote'' @
     '', name='' @ go_quote (''remote_'' @ itoa (int i + 1)) @ '', order='' @ itoa (int i + 2) @ ''})'' @ [CHR 0x0A])"

definition or_default :: "string list \<Rightarrow> string list \<Rightarrow> string list" where
  "or_default xs dflt = (if xs = [] then dflt else xs)"

definition remote_block :: "string list \<Rightarrow> string" where
  "remote_block us = concat (map (\<lambda>(i, u). server_line i u) (enumerate 0 us))"

definition unlines :: "string list \<Rightarrow> string" where
  "unlines ls = concat (map (\<lambda>l. l @ [CHR 0x0A]) ls)"
definition dnsdistTemplate :: "string \<Rightarrow> string \<Rightarrow> int \<Rightarrow> string \<Rightarrow> string \<Rightarrow> string" where
  \<open>dnsdistTemplate cert key dotPort upstreams chinaListPath = unlines [
     ''-- Auto-generated by 5gpn '' @ [CHR 0xE2, CHR 0x80, CHR 0x94] @ '' do not hand-edit.'',
     ''setServerPolicy(leastOutstanding)'',
     ''addLocal("0.0.0.0:53", {doTCP=true})'',
     '''',
     ''-- DoT listener'',
     ''certPath = "'' @ cert @ ''"'',
     ''keyPath  = "'' @ key @ ''"'',
     ''addTLSLocal("0.0.0.0:'' @ itoa dotPort @ ''", certPath, keyPath, {'',
     ''    provider="openssl",'',
     ''    sessionTickets=true,'',
     ''    sessionTimeout=3600'',
     ''})'',
     '''',
     ''-- China DNS pool (served by internal race proxy on 127.0.0.1:5301)'',
     ''newServer({address="127.0.0.1:5301", pool="china", name="china_dns_race", order=1, useClientSubnet=true})'',
     '''',
     ''-- Remote DNS pool'',
     upstreams,
     ''-- ACL: NPN client network gets full service, others only DoT.'',
     ''setACL({"0.0.0.0/0", "::/0"})'',
     ''privateClientRule = makeRule({"172.22.0.0/16"})'',
     ''nonPrivateClientRule = NotRule(privateClientRule)'',
     ''addAction(AndRule({nonPrivateClientRule, DSTPortRule(53)}), DropAction())'',
     '''',
     ''-- Rate limit per client IP (drop above 10k qps)'',
     ''addAction(MaxQPSIPRule(10000), DropAction())'',
     '''',
     ''-- IPv4-only: return NODATA for AAAA queries.'',
     ''addAction(QTypeRule(DNSQType.AAAA), RCodeAction(DNSRCode.NOERROR))'',
     '''',
     ''-- ChinaList domains -> china pool (source: '' @ chinaListPath @ '')'',
     ''local chinaList = newSuffixMatchNode()'',
     ''pcall(function()'',
     ''    for line in io.lines('' @ go_quote chinaListPath @ '') do'',
     ''        local trimmed = line:match("^%s*(.-)%s*$")'',
     ''        if trimmed ~= "" and trimmed:sub(1,1) ~= "#" then'',
     ''            chinaList:add(newDNSName(trimmed))'',
     ''        end'',
     ''    end'',
     ''end)'',
     ''if not pcall(io.lines, '' @ go_quote chinaListPath @ '') then'',
     ''    warnlog("5gpn: chinalist file not found or unreadable: '' @ chinaListPath @ ''")'',
     ''end'',
     '''',
     ''-- Everything else -> remote pool'',
     ''addAction(SuffixMatchNodeRule(chinaList), PoolAction("china"))'',
     ''addAction(AllRule(), PoolAction("remote"))'']\<close>

definition sniproxyTemplate :: "string \<Rightarrow> int \<Rightarrow> int \<Rightarrow> string" where
  \<open>sniproxyTemplate nameservers listenHTTP loopbackHTTPS = unlines [
     ''# Auto-generated by 5gpn '' @ [CHR 0xE2, CHR 0x80, CHR 0x94] @ '' do not hand-edit.'',
     ''user pxout'',
     ''pidfile /var/run/sniproxy.pid'',
     '''',
     ''resolver {'',
     nameservers @ ''    mode ipv4_only'',
     ''}'',
     '''',
     ''error_log {'',
     ''    syslog daemon'',
     ''    priority notice'',
     ''}'',
     '''',
     ''listener 0.0.0.0:'' @ itoa listenHTTP @ '' {'',
     ''    protocol http'',
     ''    table http_hosts'',
     ''}'',
     '''',
     ''# wa-shim owns public TCP/443 and fails open to this loopback backend.'',
     ''listener 127.0.0.1:'' @ itoa loopbackHTTPS @ '' {'',
     ''    protocol tls'',
     ''    table tls_hosts'',
     ''}'',
     '''',
     ''table http_hosts {'',
     ''    .* *:80'',
     ''}'',
     '''',
     ''table tls_hosts {'',
     ''    .* *:443'',
     ''}'']\<close>

definition Dnsdist_Render :: "RenderConfig option \<Rightarrow> (render_error, string) result" where
  "Dnsdist_Render cfg = (case cfg of
      None \<Rightarrow> Inl ErrNilConfig
    | Some c \<Rightarrow>
        let r = cfg_rest c;
            upstreams = or_default (go_slice (cfg_DNS_Upstreams c)) [''1.1.1.1:53'', ''8.8.8.8:53''] in
        Inr (dnsdistTemplate (first_non_empty (rr_TLS_Cert r) ''/etc/dnsdist/certs/fullchain.pem'')
          (first_non_empty (rr_TLS_Key r) ''/etc/dnsdist/certs/privkey.pem'') (firstNonZero (rr_DoTPort r) 853)
          (remote_block upstreams) (first_non_empty (rr_ChinaListPath r) ''/var/lib/5gpn/chinalist.txt'')))"

definition Sniproxy_Render :: "RenderConfig option \<Rightarrow> (render_error, string) result" where
  "Sniproxy_Render cfg = (case cfg of
      None \<Rightarrow> Inl ErrNilConfig
    | Some c \<Rightarrow>
        let r = cfg_rest c;
            upstreams = or_default (go_slice (cfg_DNS_Upstreams c)) [''1.1.1.1'', ''8.8.8.8''];
            nameservers = concat (map (\<lambda>u. ''    nameserver '' @ fst (split_host_port u ''53'') @ [CHR 0x0A]) upstreams) in
        Inr (sniproxyTemplate nameservers (firstNonZero (rr_ListenHTTP r) 80) (firstNonZero (rr_LoopbackHTTPS r) 8443)))"

text \<open>The three renderers that \<open>Systemd.render\<close> calls; the configuration there is never nil.\<close>

definition config_renderers :: "(proxy_map \<Rightarrow> (string, string) result) \<Rightarrow> (render_error \<Rightarrow> string) \<Rightarrow> RenderConfig renderers" where
  "config_renderers encode txt = (let t = (\<lambda>x. case x of Inl e \<Rightarrow> Inl (txt e) | Inr b \<Rightarrow> Inr b) in
     \<lparr>rn_dnsdist = \<lambda>c. t (Dnsdist_Render (Some c)), rn_mihomo = \<lambda>c. t (Mihomo_Render encode (Some c)),
      rn_sniproxy = \<lambda>c. t (Sniproxy_Render (Some c))\<rparr>)"

section \<open>The rule lines as the proxy core reads them\<close>

text \<open>The proxy core reads a line as \<open>KIND,PATTERN,POLICY\<close> or \<open>MATCH,POLICY\<close> and takes the policy of the first line that
  applies.  \<open>hits\<close> decides whether a kind and a pattern apply.\<close>

definition line_hits :: "(Kind \<Rightarrow> string \<Rightarrow> bool) \<Rightarrow> string \<Rightarrow> bool" where
  "line_hits hits line = (case Split (CHR '','') line of
      [k, policy] \<Rightarrow> k = KindMatch
    | [k, pattern, policy] \<Rightarrow> hits k pattern
    | _ \<Rightarrow> False)"

definition line_policy :: "string \<Rightarrow> string" where
  "line_policy line = last (Split (CHR '','') line)"

definition mihomo_decides :: "(Kind \<Rightarrow> string \<Rightarrow> bool) \<Rightarrow> string list \<Rightarrow> string option" where
  "mihomo_decides hits lines = map_option line_policy (find (line_hits hits) lines)"

definition fixture_hits :: "TestFixture \<Rightarrow> Kind \<Rightarrow> string \<Rightarrow> bool" where
  "fixture_hits f k p = ruleMatchesFixture \<lparr>rule_ID = [], rule_Kind = k, rule_Pattern = p, rule_Action = [],
     rule_Priority = 0, rule_Enabled = True, rule_Notes = [], rule_GroupID = []\<rparr> f"

definition rule_hits :: "(Kind \<Rightarrow> string \<Rightarrow> bool) \<Rightarrow> Rule \<Rightarrow> bool" where
  "rule_hits hits r = (is_match r \<or> hits (rule_Kind r) (rule_Pattern r))"

section \<open>Lemmas\<close>

lemma rule_hits_fixture: "rule_hits (fixture_hits f) = (\<lambda>r. ruleMatchesFixture r f)"
  by (rule ext) (auto simp: rule_hits_def fixture_hits_def ruleMatchesFixture_def is_match_def)

lemma TrimSpace_trimmed: "TrimSpace s \<noteq> [] \<Longrightarrow> TrimSpace (TrimSpace s) \<noteq> []"
proof -
  have nil: "TrimSpace t = [] \<longleftrightarrow> (\<forall>c\<in>set t. is_space c)" for t
    unfolding TrimSpace_def TrimFunc_def by (auto simp: dropWhile_eq_Nil_conv dest: set_dropWhileD)
      (metis dropWhile_eq_Nil_conv set_dropWhileD dropWhile_append takeWhile_dropWhile_id set_takeWhileD UnE set_append)
  assume "TrimSpace s \<noteq> []"
  then have "\<not> is_space (last (TrimSpace s))"
    unfolding TrimSpace_def TrimFunc_def by (metis hd_dropWhile last_rev rev_is_Nil_conv)
  moreover have "last (TrimSpace s) \<in> set (TrimSpace s)" using \<open>TrimSpace s \<noteq> []\<close> by simp
  ultimately show ?thesis using nil [of "TrimSpace s"] by blast
qed

lemma mihomoAction_Inr:
  assumes "mihomoAction a names = Inr t"
  shows "t = ''REJECT'' \<or> t = ''DIRECT'' \<or> t = ''PROXY'' \<or> t = TrimSpace a \<and> t \<in> set names"
  using assms by (auto simp: mihomoAction_def Let_def split: if_splits)

lemma mihomoAction_clean:
  assumes "mihomoAction a names = Inr t" "TrimSpace a \<noteq> []" "\<not> ContainsAny a csv_delims"
  shows "TrimSpace t \<noteq> []" "\<not> ContainsAny t csv_delims"
proof -
  have "ContainsAny s cs \<longleftrightarrow> (\<exists>c\<in>set s. c \<in> set cs)" for s cs by (simp add: ContainsAny_def list_ex_iff)
  then show "TrimSpace t \<noteq> []" "\<not> ContainsAny t csv_delims"
    using mihomoAction_Inr [OF assms(1)] assms(2,3) TrimSpace_trimmed [OF assms(2)] TrimSpace_subset [of a]
    by (auto simp: TrimSpace_def TrimFunc_def is_space_def csv_delims_def)
qed

lemma render_rule_valid:
  assumes "Rule_Validate isDN r = None"
  shows "case mihomoAction (rule_Action r) names of
      Inl a \<Rightarrow> render_rule names r = Inl (ErrRuleAction (rule_ID r) a)
    | Inr t \<Rightarrow> (\<exists>line. render_rule names r = Inr line \<and>
        line_hits hits line = rule_hits hits r \<and> line_policy line = t)"
proof (cases "mihomoAction (rule_Action r) names")
  case (Inr t)
  let ?r = "r\<lparr>rule_Action := t\<rparr>"
  have "Rule_Validate isDN ?r = Rule_Validate isDN r"
    using mihomoAction_clean [OF Inr] Rule_Validate_NoneD(2,6) [OF assms] by (simp add: Rule_Validate_def)
  then have "Rule_Validate isDN ?r = None" using assms by simp
  from valid_mihomo_fields [OF this] show ?thesis
    by (cases, simp add: Inr render_rule_def line_hits_def line_policy_def rule_hits_def is_match_def KindMatch_def)
qed (simp add: render_rule_def)

lemma render_rules_valid:
  assumes "\<forall>r\<in>set rs. Rule_Validate isDN r = None"
  shows "case render_rules names rs of
      Inl e \<Rightarrow> (\<exists>r\<in>set rs. \<exists>a. mihomoAction (rule_Action r) names = Inl a \<and> e = ErrRuleAction (rule_ID r) a)
    | Inr lines \<Rightarrow> list_all2 (\<lambda>r line. render_rule names r = Inr line) rs lines"
  using assms
proof (induction rs)
  case (Cons r rs)
  then show ?case using render_rule_valid [of isDN r names "\<lambda>_ _. True"]
    by (cases "mihomoAction (rule_Action r) names"; cases "render_rules names rs") (auto split: option.splits)
qed simp

lemma decide_lines:
  assumes "\<forall>r\<in>set rs. Rule_Validate isDN r = None" "list_all2 (\<lambda>r line. render_rule names r = Inr line) rs lines"
  shows "case find (rule_hits hits) rs of
      None \<Rightarrow> find (line_hits hits) lines = None
    | Some r \<Rightarrow> (\<exists>line. find (line_hits hits) lines = Some line \<and> mihomoAction (rule_Action r) names = Inr (line_policy line))"
  using assms(2,1)
proof (induction rule: list_all2_induct)
  case (Cons r rs line lines)
  then show ?case using render_rule_valid [of isDN r names hits]
    by (cases "mihomoAction (rule_Action r) names") (auto split: option.splits)
qed simp

text \<open>In a validated set, the rules in the order of the lines are the enabled rules in priority order.\<close>

lemma sorted_enabled_split:
  assumes "RuleSet_Validate isDN rs = None"
  shows "sorted_enabled rs = sort_key rule_Priority (filter (\<lambda>r. rule_Kind r \<noteq> KindMatch) (enabled_rules rs)) @
    (case match_rule rs of None \<Rightarrow> [] | Some m \<Rightarrow> [m])"
proof (cases "match_rule rs")
  case None
  then have "filter (\<lambda>r. rule_Kind r \<noteq> KindMatch) (enabled_rules rs) = enabled_rules rs"
    by (auto simp: match_rule_def find_None_conv filter_id_conv)
  then show ?thesis by (simp add: None sorted_enabled_def)
next
  case (Some m)
  then have m: "m \<in> set rs" "is_match m" "rule_Enabled m"
    by (auto simp: match_rule_def enabled_rules_def is_match_def dest!: find_Some_in)
  from sorted_enabled_match_last [OF assms m] obtain front where f: "sorted_enabled rs = front @ [m]"
    "\<And>x. x \<in> set front \<Longrightarrow> \<not> is_match x" by metis
  have "filter (\<lambda>r. rule_Kind r \<noteq> KindMatch) (front @ [m]) = front"
    using f(2) m(2) by (auto simp: is_match_def filter_id_conv)
  then show ?thesis unfolding f(1) [symmetric] by (simp add: Some f(1) [symmetric] sorted_enabled_def filter_sort)
qed

lemma fallback_line:
  assumes "CHR '','' \<notin> set activeExit"
  shows "line_hits hits (''MATCH,'' @ activeExit)" "line_policy (''MATCH,'' @ activeExit) = activeExit"
proof -
  have "Split (CHR '','') (''MATCH,'' @ activeExit) = [''MATCH'', activeExit]"
    using Split_append [of "CHR '',''" "''MATCH''" activeExit] assms by (simp add: Split_single)
  then show "line_hits hits (''MATCH,'' @ activeExit)" "line_policy (''MATCH,'' @ activeExit) = activeExit"
    by (simp_all add: line_hits_def line_policy_def KindMatch_def)
qed

lemma buildRuleLines_valid:
  assumes v: "RuleSet_Validate isDN rs = None" and c: "CHR '','' \<notin> set activeExit"
  shows "case buildRuleLines rs activeExit names of
      Inl e \<Rightarrow> (\<exists>r\<in>set rs. rule_Enabled r \<and> (\<exists>a. mihomoAction (rule_Action r) names = Inl a \<and> e = ErrRuleAction (rule_ID r) a))
    | Inr lines \<Rightarrow> (\<exists>t. mihomo_decides hits lines = Some t \<and>
        (case find (rule_hits hits) (sorted_enabled rs) of
           None \<Rightarrow> t = activeExit
         | Some r \<Rightarrow> mihomoAction (rule_Action r) names = Inr t))"
proof -
  let ?s = "sort_key rule_Priority (filter (\<lambda>r. rule_Kind r \<noteq> KindMatch) (enabled_rules rs))"
  have ok: "\<forall>r\<in>set rs. Rule_Validate isDN r = None" using v by (simp add: RuleSet_Validate_None)
  then have oks: "\<forall>r\<in>set ?s. Rule_Validate isDN r = None" by (auto simp: enabled_rules_def)
  show ?thesis
  proof (cases "rs = []")
    case True
    then show ?thesis using fallback_line [OF c] by (simp add: buildRuleLines_def mihomo_decides_def sorted_enabled_def enabled_rules_def)
  next
    case ne: False
    show ?thesis
    proof (cases "render_rules names ?s")
      case (Inl e)
      then show ?thesis using render_rules_valid [OF oks, of names] ne by (auto simp: buildRuleLines_def enabled_rules_def)
    next
      case (Inr out)
      then have all: "list_all2 (\<lambda>r line. render_rule names r = Inr line) ?s out" using render_rules_valid [OF oks, of names] by simp
      note d = decide_lines [OF oks all, of hits]
      show ?thesis
      proof (cases "match_rule rs")
        case None
        then show ?thesis using d fallback_line [OF c] Inr ne
          by (auto simp: buildRuleLines_def mihomo_decides_def sorted_enabled_split [OF v] find_append split: option.splits)
      next
        case (Some m)
        then have m: "m \<in> set rs" "is_match m" "rule_Enabled m"
          by (auto simp: match_rule_def enabled_rules_def is_match_def dest!: find_Some_in)
        have r: "case mihomoAction (rule_Action m) names of
            Inl a \<Rightarrow> render_rule names m = Inl (ErrRuleAction (rule_ID m) a)
          | Inr t \<Rightarrow> (\<exists>line. render_rule names m = Inr line \<and> line_hits hits line \<and> line_policy line = t)"
          using render_rule_valid [of isDN m names hits] ok m by (auto simp: rule_hits_def split: sum.splits)
        show ?thesis using d r m Some Inr ne
          by (auto simp: buildRuleLines_def mihomo_decides_def sorted_enabled_split [OF v] find_append rule_hits_def split: option.splits sum.splits)
      qed
    qed
  qed
qed

lemma exit_id_no_comma: "exitIDRE s \<Longrightarrow> CHR '','' \<notin> set s"
  by (auto simp: exitIDRE_def list_all_iff exit_id_char_def Let_def)

lemma active_no_comma:
  assumes "list_all exitIDRE (map ec_ID es)"
  shows "CHR '','' \<notin> set (hd (exit_names es))"
  using assms exit_id_no_comma by (cases es) (auto simp: exit_names_def)

lemma applied_files:
  assumes "Systemd_Apply rn commit req (s, w, st) = ((res, None), s', w', st')" "rq_Config req = Some cfg"
    "\<not> sd_applyMu s" "distinct_paths s"
  shows "rendered_files rn s cfg (w_fs w')"
  using assms(1-3) by (cases rule: Apply_outcome) (use assms(4) in auto)

lemma mihomo_file:
  assumes "rendered_files (config_renderers encode txt) s cfg fs"
  obtains doc body where "mihomo_doc cfg = Inr doc" "encode doc = Inr body"
    "fs (sd_MihomoPath s) = Some \<lparr>f_body = body, f_mode = 420\<rparr>"
  using assms by (auto simp: rendered_files_def config_renderers_def Mihomo_Render_def Let_def split: sum.splits)

lemma mihomo_doc_Inr:
  assumes "mihomo_doc cfg = Inr doc"
  obtains lines where "buildRuleLines (go_slice (cfg_EffectiveRules cfg)) (hd (exit_names (go_slice (cfg_Exits cfg))))
      (exit_names (go_slice (cfg_Exits cfg))) = Inr lines"
    "map_of doc ''rules'' = Some (AnyStrs lines)"
    "map_of doc ''proxies'' = Some (AnySlice (map AnyMap (mihomo_proxies (go_slice (cfg_Exits cfg)))))"
    "map_of doc ''proxy-groups'' = Some (AnySlice [AnyMap [(''name'', AnyStr ''PROXY''), (''type'', AnyStr ''select''),
       (''proxies'', AnyStrs (buildProxyGroupNames (exit_names (go_slice (cfg_Exits cfg))) (hd (exit_names (go_slice (cfg_Exits cfg))))))]])"
  using assms by (auto simp: mihomo_doc_def Let_def split: sum.splits)

lemma group_members:
  "hd (buildProxyGroupNames (exit_names es) (hd (exit_names es))) = hd (exit_names es)"
  "set (buildProxyGroupNames (exit_names es) (hd (exit_names es))) = set (exit_names es)"
  by (cases es; auto simp: buildProxyGroupNames_def exit_names_def)+

lemma proxies_named: "map (\<lambda>m. map_of m ''name'') (mihomo_proxies es) = map (\<lambda>n. Some (AnyStr n)) (exit_names es)"
  by (simp add: mihomo_proxies_def exit_names_def direct_entry_def proxy_entry_def)

text \<open>The policies that a document offers: the built-in ones, the group and its proxies.\<close>

definition known_policy :: "string list \<Rightarrow> string \<Rightarrow> bool" where
  "known_policy names t = (t \<in> set [''REJECT'', ''DIRECT'', ''PROXY''] \<or> t \<in> set names)"

section \<open>Properties\<close>

text \<open>(C22) The rule lines rendered for the proxy core route as the dry run foretells.  For a validated rule set, rendering either
  stops at an enabled rule whose action is neither a built-in policy nor an exit, or gives lines of which, read from the top, the
  first that applies to a fixture carries the policy of the exit the dry run reports; where no rule applies both take the active exit.\<close>

theorem mihomo_lines_obey_dry_run:
  assumes "RuleSet_Validate isDN rs = None" "activeExit \<noteq> []" "CHR '','' \<notin> set activeExit"
  shows "case buildRuleLines rs activeExit names of
      Inl e \<Rightarrow> (\<exists>r\<in>set rs. rule_Enabled r \<and> (\<exists>a. mihomoAction (rule_Action r) names = Inl a \<and> e = ErrRuleAction (rule_ID r) a))
    | Inr lines \<Rightarrow> (\<exists>t d. mihomo_decides (fixture_hits f) lines = Some t \<and>
        DryRun rs [f] (fst (ResolveFallthrough rs activeExit dflt)) = [d] \<and>
        (case findMatch (sorted_enabled rs) f of
           None \<Rightarrow> t = activeExit \<and> dr_ActualExit d = activeExit
         | Some r \<Rightarrow> dr_ActualExit d = rule_Action r \<and> mihomoAction (dr_ActualExit d) names = Inr t))"
proof -
  have "fst (ResolveFallthrough rs activeExit dflt) = activeExit" if "findMatch (sorted_enabled rs) f = None"
  proof -
    have "\<not> (rule_Kind r = KindMatch \<and> rule_Enabled r)" if "r \<in> set rs" for r
      using \<open>findMatch (sorted_enabled rs) f = None\<close> that
      by (auto simp: findMatch_def find_None_conv ruleMatchesFixture_def)
    then have "find (\<lambda>r. rule_Kind r = KindMatch \<and> rule_Enabled r) rs = None" by (auto simp: find_None_conv)
    then show ?thesis using assms(2) by (simp add: ResolveFallthrough_def)
  qed
  then show ?thesis using buildRuleLines_valid [OF assms(1,3), of names "fixture_hits f"] assms(2)
    unfolding rule_hits_fixture findMatch_def [symmetric]
    by (auto simp: DryRun_def dry_run_one_def Let_def split: sum.splits option.splits)
qed

definition sample_fx :: TestFixture where
  "sample_fx = \<lparr>fx_Domain = ''www.example.com'', fx_IP = [], fx_ExpectedExit = [], fx_Notes = []\<rparr>"

theorem mihomo_lines_obey_dry_run_witness:
  "\<exists>lines. buildRuleLines sample_rules ''wg1'' [''wg1''] = Inr lines \<and>
     mihomo_decides (fixture_hits sample_fx) lines = Some ''DIRECT''"
proof -
  have b: "\<exists>lines. buildRuleLines sample_rules ''wg1'' [''wg1''] = Inr lines"
    by (simp add: buildRuleLines_def sample_rules_def sample_rule_def enabled_rules_def match_rule_def render_rule_def
        mihomoAction_def ToMihomoLine_def string_eval Let_def)
  have "findMatch (sorted_enabled sample_rules) sample_fx = Some (sample_rule ''b'' KindDomainSuffix ''example.com'' ''direct'' 2)"
    by (simp add: findMatch_def sorted_enabled_def enabled_rules_def sample_rules_def sample_rule_def sample_fx_def
        ruleMatchesFixture_def equalFold_def EqualFold_def domainHasSuffix_def string_eval Let_def)
  moreover have "mihomoAction ''direct'' [''wg1''] = Inr ''DIRECT''" by (simp add: mihomoAction_def string_eval)
  ultimately show ?thesis
    using mihomo_lines_obey_dry_run [OF sample_rules_valid, of "''wg1''" "[''wg1'']" sample_fx "[]"] b by (auto simp: sample_rule_def)
qed

text \<open>(C21) What the proxy core runs after a successful apply.  When \<open>Systemd.Apply\<close> returns no error for a configuration with a
  validated rule set and registered exits, the file of the proxy core is the encoding of a document whose rule lines give each connection the
  policy of its first enabled rule in priority order, else the active exit; every policy so chosen is one that the document offers, and
  the group \<open>PROXY\<close> holds exactly the exits with the active one first.\<close>

theorem applied_config_routes_by_rules:
  assumes "Systemd_Apply (config_renderers encode txt) commit req (s, w, st) = ((res, None), s', w', st')"
    "rq_Config req = Some cfg" "\<not> sd_applyMu s" "distinct_paths s"
    "RuleSet_Validate isDN (go_slice (cfg_EffectiveRules cfg)) = None"
    "list_all exitIDRE (map ec_ID (go_slice (cfg_Exits cfg)))"
  shows "\<exists>doc body lines proxies names members. encode doc = Inr body \<and>
    w_fs w' (sd_MihomoPath s) = Some \<lparr>f_body = body, f_mode = 420\<rparr> \<and>
    map_of doc ''rules'' = Some (AnyStrs lines) \<and> map_of doc ''proxies'' = Some (AnySlice (map AnyMap proxies)) \<and>
    map (\<lambda>p. map_of p ''name'') proxies = map (\<lambda>n. Some (AnyStr n)) names \<and> names = exit_names (go_slice (cfg_Exits cfg)) \<and>
    map_of doc ''proxy-groups'' = Some (AnySlice [AnyMap [(''name'', AnyStr ''PROXY''), (''type'', AnyStr ''select''), (''proxies'', AnyStrs members)]]) \<and>
    hd members = hd names \<and> set members = set names \<and>
    (\<forall>hits. \<exists>t. mihomo_decides hits lines = Some t \<and> known_policy names t \<and>
       (case find (rule_hits hits) (sorted_enabled (go_slice (cfg_EffectiveRules cfg))) of
          None \<Rightarrow> t = hd names
        | Some r \<Rightarrow> mihomoAction (rule_Action r) names = Inr t))"
proof -
  let ?rs = "go_slice (cfg_EffectiveRules cfg)" and ?names = "exit_names (go_slice (cfg_Exits cfg))"
  obtain doc body where f: "mihomo_doc cfg = Inr doc" "encode doc = Inr body"
    "w_fs w' (sd_MihomoPath s) = Some \<lparr>f_body = body, f_mode = 420\<rparr>"
    by (rule mihomo_file [OF applied_files [OF assms(1-4)]])
  obtain lines where l: "buildRuleLines ?rs (hd ?names) ?names = Inr lines" "map_of doc ''rules'' = Some (AnyStrs lines)"
    "map_of doc ''proxies'' = Some (AnySlice (map AnyMap (mihomo_proxies (go_slice (cfg_Exits cfg)))))"
    "map_of doc ''proxy-groups'' = Some (AnySlice [AnyMap [(''name'', AnyStr ''PROXY''), (''type'', AnyStr ''select''),
       (''proxies'', AnyStrs (buildProxyGroupNames ?names (hd ?names)))]])"
    by (rule mihomo_doc_Inr [OF f(1)])
  have "known_policy ?names (hd ?names)" by (cases "go_slice (cfg_Exits cfg)") (auto simp: known_policy_def exit_names_def)
  moreover have "known_policy ?names t" if "mihomoAction a ?names = Inr t" for a t
    using mihomoAction_Inr [OF that] by (auto simp: known_policy_def)
  ultimately have d: "\<exists>t. mihomo_decides hits lines = Some t \<and> known_policy ?names t \<and>
       (case find (rule_hits hits) (sorted_enabled ?rs) of None \<Rightarrow> t = hd ?names | Some r \<Rightarrow> mihomoAction (rule_Action r) ?names = Inr t)" for hits
    using buildRuleLines_valid [OF assms(5) active_no_comma [OF assms(6)], of ?names hits] l(1)
    by (auto split: option.splits)
  show ?thesis using f(2,3) l(2-4) proxies_named group_members d by blast
qed

definition sample_config :: RenderConfig where
  "sample_config = \<lparr>cfg_Exits = Some [\<lparr>ec_ID = ''wg1'', ec_Protocol = ''wireguard'', ec_Config = None\<rparr>],
     cfg_EffectiveRules = Some sample_rules, cfg_DNS_Upstreams = None, cfg_WAShim_AllowCIDR = None, cfg_TGBot_AdminChatIDs = None,
     cfg_Rules_Sources = None, cfg_rest = \<lparr>rr_TLS_Cert = [], rr_TLS_Key = [], rr_DoTPort = 0, rr_ChinaListPath = [],
       rr_ListenHTTP = 0, rr_LoopbackHTTPS = 0, rr_MihomoMixedPort = 0\<rparr>\<rparr>"

lemma sample_lines: "buildRuleLines sample_rules ''wg1'' [''wg1''] =
    Inr [''DOMAIN,ads.example.com,REJECT'', ''DOMAIN-SUFFIX,example.com,DIRECT'', ''MATCH,PROXY'']"
  by (simp add: buildRuleLines_def sample_rules_def sample_rule_def enabled_rules_def match_rule_def render_rule_def
      mihomoAction_def ToMihomoLine_def string_eval kind_defs Let_def)

lemma sample_renders:
  "\<exists>b. rn_dnsdist (config_renderers (\<lambda>_. Inr ''doc'') (\<lambda>_. [])) sample_config = Inr b"
  "rn_mihomo (config_renderers (\<lambda>_. Inr ''doc'') (\<lambda>_. [])) sample_config = Inr ''doc''"
  "\<exists>b. rn_sniproxy (config_renderers (\<lambda>_. Inr ''doc'') (\<lambda>_. [])) sample_config = Inr b"
  using sample_lines
  by (simp_all add: config_renderers_def Dnsdist_Render_def Sniproxy_Render_def Mihomo_Render_def mihomo_doc_def sample_config_def
      exit_names_def go_slice_def Let_def)

definition render_sd :: "RenderConfig Systemd" where
  "render_sd = \<lparr>sd_DnsdistPath = ''/d'', sd_MihomoPath = ''/m'', sd_SniproxyPath = ''/s'', sd_HealthCheck = False, sd_Config = None,
     sd_applyMu = False, sd_observing = None\<rparr>"

theorem applied_config_routes_by_rules_witness:
  "\<exists>res s' w' st' doc lines. Systemd_Apply (config_renderers (\<lambda>_. Inr ''doc'') (\<lambda>_. [])) (\<lambda>_ n. (None, Suc n))
     \<lparr>rq_SnapshotID = 1, rq_RuleVersionID = 1, rq_Config = Some sample_config, rq_PrevSnapshot = 0, rq_Commit = True\<rparr>
     (render_sd, sample_world [], 0::nat) = ((res, None), s', w', st') \<and>
     w_fs w' ''/m'' = Some \<lparr>f_body = ''doc'', f_mode = 420\<rparr> \<and> map_of doc ''rules'' = Some (AnyStrs lines) \<and>
     mihomo_decides (\<lambda>_ _. False) lines = Some ''PROXY''"
proof -
  let ?rn = "config_renderers (\<lambda>_. Inr ''doc'') (\<lambda>_. [])"
  let ?q = "\<lparr>rq_SnapshotID = 1, rq_RuleVersionID = 1, rq_Config = Some sample_config, rq_PrevSnapshot = 0, rq_Commit = True\<rparr>"
  let ?x = "Systemd_Apply ?rn (\<lambda>_ n. (None, Suc n)) ?q (render_sd, sample_world [], 0::nat)"
  obtain res err s' w' st' where eq: "?x = ((res, err), s', w', st')" by (metis prod.exhaust)
  have "snd (fst ?x) = None" using sample_renders
    by (auto simp add: Systemd_Apply_def render_sd_def sample_world_def snapshotCurrent_def snapshotPath_def sys_def render_def
        writeRendered_def writeBytesAtomic_def write_eval reloadUnits_def runSystemctl_def commitOrRestore_def numeral_eq_Suc Let_def)
  then have x: "?x = ((res, None), s', w', st')" using eq by simp
  have r: "go_slice (cfg_EffectiveRules sample_config) = sample_rules" "exit_names (go_slice (cfg_Exits sample_config)) = [''wg1'']"
    by (simp_all add: sample_config_def go_slice_def exit_names_def)
  have ids: "list_all exitIDRE (map ec_ID (go_slice (cfg_Exits sample_config)))"
    by (simp add: sample_config_def go_slice_def exitIDRE_def exit_id_char_def)
  have m: "find (rule_hits (\<lambda>_ _. False)) (sorted_enabled sample_rules) = Some (sample_rule ''m'' KindMatch [] ''Proxy'' 9)"
    by (simp add: sorted_enabled_def enabled_rules_def sample_rules_def sample_rule_def rule_hits_def is_match_def kind_defs)
  have a: "mihomoAction ''Proxy'' [''wg1''] = Inr ''PROXY''" by (simp add: mihomoAction_def string_eval)
  have q: "rq_Config ?q = Some sample_config" by simp
  have mu: "\<not> sd_applyMu render_sd" "distinct_paths render_sd" "sd_MihomoPath render_sd = ''/m''" by (simp_all add: render_sd_def distinct_paths_def)
  obtain doc body lines names where n: "names = [''wg1'']" and w: "(Inr ''doc'' :: (string, string) result) = Inr body"
    "w_fs w' ''/m'' = Some \<lparr>f_body = body, f_mode = 420\<rparr>" "map_of doc ''rules'' = Some (AnyStrs lines)"
    and d: "\<forall>hits. \<exists>t. mihomo_decides hits lines = Some t \<and> known_policy names t \<and> (case find (rule_hits hits) (sorted_enabled sample_rules) of
        None \<Rightarrow> t = hd names | Some r \<Rightarrow> mihomoAction (rule_Action r) names = Inr t)"
    using applied_config_routes_by_rules [OF x q mu(1,2), of "\<lambda>_. True", unfolded r mu(3), OF sample_rules_valid ids]
    by (elim exE conjE) (rule that)
  from d [rule_format, of "\<lambda>_ _. False"] have "mihomo_decides (\<lambda>_ _. False) lines = Some ''PROXY''"
    using a by (auto simp: n m sample_rule_def)
  then show ?thesis using x w by auto
qed

text \<open>An exit may be registered under the name of a built-in policy; a rule that names it gets the policy instead.\<close>

lemma exit_named_like_policy: "exitIDRE ''block'' \<and> mihomoAction ''block'' [''block''] = Inr ''REJECT''"
  by (simp add: exitIDRE_def exit_id_char_def mihomoAction_def string_eval)

text \<open>An IPv6 upstream without brackets and port loses its last group.\<close>

lemma ipv6_nameserver_truncated: "split_host_port ''2001:db8::1'' ''53'' = (''2001:db8:'', ''1'')"
  by (simp add: split_host_port_def string_eval)

end
