(* ===== verification/Resolver.thy ===== *)
theory Resolver
  imports RuleTable
begin

text \<open>
  The DNS resolver of \<open>internal/resolver\<close>: query counters (\<open>metrics.go\<close>), the spoof policy
  (\<open>spoof.go\<close>), the race between DoT upstreams (\<open>Upstream.Query\<close> of \<open>upstream.go\<close>) and the
  query pipeline itself (\<open>resolver.go\<close>).

  DNS messages are values of the record \<open>Msg\<close> with the sections the code reads and writes.
  The operations of the DNS library on them are the record \<open>dns_lib\<close>, a parameter; what the
  resolver relies on is the predicate \<open>dns_lib_ok\<close>, which states their documented behaviour.
  The goroutines that query the upstreams, the fall-back timer and the query deadline are the
  environment: a run of \<open>Query\<close> consumes the list of events its \<open>select\<close> receives.
\<close>

section \<open>Counters (\<open>metrics.go\<close>)\<close>

record Metrics =
  queriesTotal :: int
  hitsBlock :: int
  hitsDirect :: int
  hitsProxy :: int
  hitsSpoof :: int
  upstreamErrors :: int
  upstreamFallback :: int
  refusedAXFR :: int

definition NewMetrics :: Metrics where
  "NewMetrics = \<lparr>queriesTotal = 0, hitsBlock = 0, hitsDirect = 0, hitsProxy = 0, hitsSpoof = 0,
     upstreamErrors = 0, upstreamFallback = 0, refusedAXFR = 0\<rparr>"

definition Add1 :: "int \<Rightarrow> int" where
  "Add1 n = wrap64 (n + 1)"

definition IncQueries :: "Metrics \<Rightarrow> Metrics" where "IncQueries m = m\<lparr>queriesTotal := Add1 (queriesTotal m)\<rparr>"
definition IncBlock :: "Metrics \<Rightarrow> Metrics" where "IncBlock m = m\<lparr>hitsBlock := Add1 (hitsBlock m)\<rparr>"
definition IncDirect :: "Metrics \<Rightarrow> Metrics" where "IncDirect m = m\<lparr>hitsDirect := Add1 (hitsDirect m)\<rparr>"
definition IncProxy :: "Metrics \<Rightarrow> Metrics" where "IncProxy m = m\<lparr>hitsProxy := Add1 (hitsProxy m)\<rparr>"
definition IncSpoof :: "Metrics \<Rightarrow> Metrics" where "IncSpoof m = m\<lparr>hitsSpoof := Add1 (hitsSpoof m)\<rparr>"
definition IncUpstreamError :: "Metrics \<Rightarrow> Metrics" where
  "IncUpstreamError m = m\<lparr>upstreamErrors := Add1 (upstreamErrors m)\<rparr>"
definition IncUpstreamFallback :: "Metrics \<Rightarrow> Metrics" where
  "IncUpstreamFallback m = m\<lparr>upstreamFallback := Add1 (upstreamFallback m)\<rparr>"
definition IncRefusedAXFR :: "Metrics \<Rightarrow> Metrics" where
  "IncRefusedAXFR m = m\<lparr>refusedAXFR := Add1 (refusedAXFR m)\<rparr>"

lemmas inc_defs = IncQueries_def IncBlock_def IncDirect_def IncProxy_def IncSpoof_def
  IncUpstreamError_def IncUpstreamFallback_def IncRefusedAXFR_def

section \<open>DNS messages\<close>

record Question =
  q_Name :: string
  q_Qtype :: nat
  q_Qclass :: nat

datatype EDNS0 = EDNS0_SUBNET string | EDNS0_other nat string

datatype RR =
    RR_A string "32 word" IP
  | RR_AAAA string "32 word" IP
  | RR_OPT nat "EDNS0 list"
  | RR_other string

record Msg =
  msg_Id :: nat
  msg_Response :: bool
  msg_Authoritative :: bool
  msg_RecursionAvailable :: bool
  msg_Rcode :: nat
  msg_Question :: "Question list"
  msg_Answer :: "RR list"
  msg_Extra :: "RR list"

definition TypeA :: nat where "TypeA = 1"
definition TypeAAAA :: nat where "TypeAAAA = 28"
definition TypeIXFR :: nat where "TypeIXFR = 251"
definition TypeAXFR :: nat where "TypeAXFR = 252"

definition RcodeSuccess :: nat where "RcodeSuccess = 0"
definition RcodeFormatError :: nat where "RcodeFormatError = 1"
definition RcodeServerFailure :: nat where "RcodeServerFailure = 2"
definition RcodeNameError :: nat where "RcodeNameError = 3"
definition RcodeRefused :: nat where "RcodeRefused = 5"
definition RcodeYXDomain :: nat where "RcodeYXDomain = 6"
definition RcodeNXRrset :: nat where "RcodeNXRrset = 8"

lemmas dns_consts = TypeA_def TypeAAAA_def TypeIXFR_def TypeAXFR_def RcodeSuccess_def
  RcodeFormatError_def RcodeServerFailure_def RcodeNameError_def RcodeRefused_def
  RcodeYXDomain_def RcodeNXRrset_def

text \<open>The library operations: the reply to a request, the reply with a response code, a copy,
  and the position in the additional section of the OPT record that \<open>IsEdns0\<close> returns.\<close>

record dns_lib =
  SetReply :: "Msg \<Rightarrow> Msg"
  SetRcode :: "Msg \<Rightarrow> nat \<Rightarrow> Msg"
  CopyMsg :: "Msg \<Rightarrow> Msg"
  IsEdns0 :: "Msg \<Rightarrow> nat option"

definition is_OPT :: "RR \<Rightarrow> bool" where
  "is_OPT rr = (case rr of RR_OPT _ _ \<Rightarrow> True | _ \<Rightarrow> False)"

definition dns_lib_ok :: "dns_lib \<Rightarrow> bool" where
  "dns_lib_ok lib =
     ((\<forall>req. msg_Id (SetReply lib req) = msg_Id req \<and> msg_Rcode (SetReply lib req) = RcodeSuccess
          \<and> msg_Answer (SetReply lib req) = []) \<and>
      (\<forall>req rc. msg_Id (SetRcode lib req rc) = msg_Id req \<and> msg_Rcode (SetRcode lib req rc) = rc
          \<and> msg_Answer (SetRcode lib req rc) = []) \<and>
      (\<forall>m. CopyMsg lib m = m) \<and>
      (\<forall>m i. IsEdns0 lib m = Some i \<longrightarrow> i < length (msg_Extra m) \<and> is_OPT (msg_Extra m ! i)) \<and>
      (\<forall>m. IsEdns0 lib m = None \<longrightarrow> list_all (\<lambda>rr. \<not> is_OPT rr) (msg_Extra m)))"

section \<open>Spoof policy (\<open>spoof.go\<close>)\<close>

definition SpoofScopeAll :: string where "SpoofScopeAll = ''all''"
definition SpoofScopePrivateOnly :: string where "SpoofScopePrivateOnly = ''private_only''"

record SpoofPolicy =
  ServerIP4 :: "IP option"
  ServerIP6 :: "IP option"
  spoof_Scope :: string
  AllowCIDR :: "IPNet option list"
  spoof_TTL :: "32 word"

definition defaultSpoofTTL :: "32 word" where "defaultSpoofTTL = 60"

definition shouldSpoof :: "SpoofPolicy option \<Rightarrow> IP option \<Rightarrow> nat \<Rightarrow> IP option" where
  "shouldSpoof p client qtype = (case p of
      None \<Rightarrow> None
    | Some p \<Rightarrow>
        (case (if qtype = TypeA then ServerIP4 p else if qtype = TypeAAAA then ServerIP6 p else None) of
           None \<Rightarrow> None
         | Some ip \<Rightarrow>
             let scope = (if spoof_Scope p = [] then SpoofScopeAll else spoof_Scope p) in
             if scope = SpoofScopeAll then Some ip
             else if scope = SpoofScopePrivateOnly then
               (case client of
                  None \<Rightarrow> None
                | Some c \<Rightarrow>
                    if list_ex (\<lambda>cidr. case cidr of None \<Rightarrow> False | Some n \<Rightarrow> IPNet_Contains n c) (AllowCIDR p)
                    then Some ip else None)
             else None))"

definition spoofReply :: "dns_lib \<Rightarrow> Msg \<Rightarrow> IP \<Rightarrow> 32 word \<Rightarrow> Msg" where
  "spoofReply lib req ip ttl =
     (let resp = (SetReply lib req)\<lparr>msg_Authoritative := False, msg_RecursionAvailable := True\<rparr>;
          ttl' = (if ttl = 0 then defaultSpoofTTL else ttl) in
      case msg_Question req of
        [] \<Rightarrow> resp
      | q # _ \<Rightarrow>
          if q_Qtype q = TypeA then
            (case To4 ip of None \<Rightarrow> resp | Some v4 \<Rightarrow> resp\<lparr>msg_Answer := [RR_A (q_Name q) ttl' v4]\<rparr>)
          else if q_Qtype q = TypeAAAA then
            (case To16 ip of None \<Rightarrow> resp | Some v6 \<Rightarrow> resp\<lparr>msg_Answer := [RR_AAAA (q_Name q) ttl' v6]\<rparr>)
          else resp)"

definition ParseCIDRs :: "string list \<Rightarrow> IPNet list" where
  "ParseCIDRs ins = List.map_filter (\<lambda>s.
     let s = TrimSpace s in if s = [] then None else map_option snd (ParseCIDR s)) ins"

section \<open>Upstream race (\<open>upstream.go\<close>)\<close>

datatype Tier = TierPrimary | TierFallback

record Upstream =
  up_CN :: "string list"
  up_Proxy :: "string list"
  up_Fallback :: "string list"
  up_Timeout :: int
  up_FallbackDelay :: int

definition primaryFor :: "Upstream \<Rightarrow> string \<Rightarrow> string list" where
  "primaryFor u category = (if EqualFold category ''direct'' then up_CN u else up_Proxy u)"

definition fallbackFor :: "Upstream \<Rightarrow> string \<Rightarrow> string list" where
  "fallbackFor u category = up_Fallback u"

definition isAuthoritative :: "Msg \<Rightarrow> bool" where
  "isAuthoritative m = (msg_Rcode m \<in> {RcodeSuccess, RcodeNameError, RcodeYXDomain, RcodeNXRrset})"

text \<open>What the \<open>select\<close> of the query loop receives: a result from one upstream of a tier, the
  fall-back timer, or the end of the query context with its error.\<close>

datatype upstream_error = ErrNoUpstream string | ErrUpstream string | ErrRcode nat | ErrAllFailed | ErrContext string

datatype race_event =
    EvResult Tier "(upstream_error, Msg) result"
  | EvTimer
  | EvDone string

record race_state =
  rs_fbStarted :: bool
  rs_expected :: nat
  rs_seen :: nat
  rs_lastErr :: "upstream_error option"

type_synonym query_result = "(upstream_error, Msg \<times> Tier) result"

text \<open>\<open>None\<close> is a loop still waiting for an event.\<close>

fun race :: "nat \<Rightarrow> nat \<Rightarrow> race_state \<Rightarrow> race_event list \<Rightarrow> query_result option" where
  "race np nf s [] = None"
| "race np nf s (EvResult tier r # es) =
     (let s1 = s\<lparr>rs_seen := Suc (rs_seen s)\<rparr>;
          s2 = (case r of Inl e \<Rightarrow> s1\<lparr>rs_lastErr := Some e\<rparr>
                        | Inr m \<Rightarrow> s1\<lparr>rs_lastErr := Some (ErrRcode (msg_Rcode m))\<rparr>) in
      case r of
        Inr m \<Rightarrow>
          if isAuthoritative m then Some (Inr (m, tier))
          else if rs_fbStarted s2 \<and> rs_seen s2 \<ge> rs_expected s2
            then Some (Inl (case rs_lastErr s2 of None \<Rightarrow> ErrAllFailed | Some e \<Rightarrow> e))
          else race np nf s2 es
      | Inl e \<Rightarrow>
          if rs_fbStarted s2 \<and> rs_seen s2 \<ge> rs_expected s2
            then Some (Inl (case rs_lastErr s2 of None \<Rightarrow> ErrAllFailed | Some e \<Rightarrow> e))
          else race np nf s2 es)"
| "race np nf s (EvTimer # es) =
     (if rs_fbStarted s then race np nf s es
      else race np nf (s\<lparr>rs_fbStarted := True, rs_expected := np + nf\<rparr>) es)"
| "race np nf s (EvDone e # es) =
     Some (Inl (case rs_lastErr s of None \<Rightarrow> ErrContext e | Some le \<Rightarrow> le))"

definition defaultUpstreamTimeout :: int where "defaultUpstreamTimeout = 8000000000"

text \<open>Durations are nanoseconds; Go's division truncates toward zero and the operand here is
  positive.\<close>

definition race_init :: "Upstream \<Rightarrow> string \<Rightarrow> race_state" where
  "race_init u category =
     (let timeout = (if up_Timeout u \<le> 0 then defaultUpstreamTimeout else up_Timeout u);
          d0 = (if up_FallbackDelay u < 0 then 0 else up_FallbackDelay u);
          fbDelay = (if d0 > timeout then timeout div 2 else d0);
          np = length (primaryFor u category); nf = length (fallbackFor u category);
          started = (nf = 0 \<or> fbDelay = 0) in
      \<lparr>rs_fbStarted = started, rs_expected = (if started then np + nf else np), rs_seen = 0,
       rs_lastErr = None\<rparr>)"

definition Upstream_Query :: "Upstream \<Rightarrow> string \<Rightarrow> race_event list \<Rightarrow> query_result option" where
  "Upstream_Query u category es =
     (let np = length (primaryFor u category); nf = length (fallbackFor u category) in
      if np = 0 \<and> nf = 0 then Some (Inl (ErrNoUpstream category))
      else race np nf (race_init u category) es)"

section \<open>Query pipeline (\<open>resolver.go\<close>)\<close>

definition isZoneTransfer :: "Msg \<Rightarrow> bool" where
  "isZoneTransfer req = list_ex (\<lambda>q. q_Qtype q = TypeAXFR \<or> q_Qtype q = TypeIXFR) (msg_Question req)"

definition is_ECS :: "EDNS0 \<Rightarrow> bool" where
  "is_ECS o' = (case o' of EDNS0_SUBNET _ \<Rightarrow> True | _ \<Rightarrow> False)"

definition sanitizeForUpstream :: "dns_lib \<Rightarrow> Msg \<Rightarrow> Msg" where
  "sanitizeForUpstream lib req =
     (let q = CopyMsg lib req in
      case IsEdns0 lib q of
        None \<Rightarrow> q
      | Some i \<Rightarrow>
          (case msg_Extra q ! i of
             RR_OPT sz options \<Rightarrow>
               q\<lparr>msg_Extra := (msg_Extra q)[i :=
                   RR_OPT (if sz > 1232 then 1232 else sz) (filter (\<lambda>x. \<not> is_ECS x) options)]\<rparr>
           | _ \<Rightarrow> q))"

definition refusedReply :: "dns_lib \<Rightarrow> Msg \<Rightarrow> Msg" where "refusedReply lib req = SetRcode lib req RcodeRefused"
definition nxDomainReply :: "dns_lib \<Rightarrow> Msg \<Rightarrow> Msg" where "nxDomainReply lib req = SetRcode lib req RcodeNameError"
definition servFailReply :: "dns_lib \<Rightarrow> Msg \<Rightarrow> Msg" where "servFailReply lib req = SetRcode lib req RcodeServerFailure"
definition formatErrorReply :: "dns_lib \<Rightarrow> Msg \<Rightarrow> Msg" where "formatErrorReply lib req = SetRcode lib req RcodeFormatError"

lemmas reply_defs = refusedReply_def nxDomainReply_def servFailReply_def formatErrorReply_def

datatype resolve_error = ErrNilRequest | ErrForward string upstream_error

text \<open>A call returns a message and an error, each possibly nil; \<open>None\<close> is a call still waiting
  for its upstreams.  The environment \<open>up\<close> maps the sanitized query and the category to the
  events the race receives.\<close>

type_synonym resolve_result = "Metrics \<times> Msg option \<times> resolve_error option"

definition forward :: "dns_lib \<Rightarrow> Upstream \<Rightarrow> (Msg \<Rightarrow> string \<Rightarrow> race_event list) \<Rightarrow> Metrics \<Rightarrow> Msg \<Rightarrow> string \<Rightarrow>
    resolve_result option" where
  "forward lib u env m req category =
     (case Upstream_Query u category (env (sanitizeForUpstream lib req) category) of
        None \<Rightarrow> None
      | Some (Inl e) \<Rightarrow> Some (IncUpstreamError m, Some (servFailReply lib req), Some (ErrForward category e))
      | Some (Inr (resp, tier)) \<Rightarrow>
          Some (if tier = TierFallback then IncUpstreamFallback m else m,
                Some (resp\<lparr>msg_Id := msg_Id req\<rparr>), None))"

definition Resolve :: "dns_lib \<Rightarrow> Store \<Rightarrow> SpoofPolicy option \<Rightarrow> Upstream \<Rightarrow> (Msg \<Rightarrow> string \<Rightarrow> race_event list) \<Rightarrow>
    Metrics \<Rightarrow> Msg option \<Rightarrow> IP option \<Rightarrow> resolve_result option" where
  "Resolve lib store spoof u env m0 req client =
     (let m = IncQueries m0 in
      case req of
        None \<Rightarrow> Some (m, None, Some ErrNilRequest)
      | Some req \<Rightarrow>
          if isZoneTransfer req then Some (IncRefusedAXFR m, Some (refusedReply lib req), None)
          else (case msg_Question req of
              [q] \<Rightarrow>
                (case classify (Store_Load store) (q_Name q) of
                   ActionBlock \<Rightarrow> Some (IncBlock m, Some (nxDomainReply lib req), None)
                 | ActionDirect \<Rightarrow> forward lib u env (IncDirect m) req ''direct''
                 | ActionProxy \<Rightarrow>
                     (case spoof of
                        Some policy \<Rightarrow>
                          (case shouldSpoof (Some policy) client (q_Qtype q) of
                             Some ip \<Rightarrow> Some (IncSpoof m, Some (spoofReply lib req ip (spoof_TTL policy)), None)
                           | None \<Rightarrow> forward lib u env (IncProxy m) req ''proxy'')
                      | None \<Rightarrow> forward lib u env (IncProxy m) req ''proxy''))
            | _ \<Rightarrow> Some (m, Some (formatErrorReply lib req), None)))"

section \<open>Upstream race: lemmas\<close>

text \<open>An event list the goroutines can produce: each configured upstream reports at most once,
  and a fall-back upstream only after its pool was fired.\<close>

fun wf_events :: "bool \<Rightarrow> nat \<Rightarrow> nat \<Rightarrow> race_event list \<Rightarrow> bool" where
  "wf_events st p f [] = True"
| "wf_events st p f (EvResult TierPrimary r # es) = (0 < p \<and> wf_events st (p - 1) f es)"
| "wf_events st p f (EvResult TierFallback r # es) = (st \<and> 0 < f \<and> wf_events st p (f - 1) es)"
| "wf_events st p f (EvTimer # es) = wf_events True p f es"
| "wf_events st p f (EvDone e # es) = wf_events st p f es"

definition wins :: "race_event \<Rightarrow> bool" where
  "wins ev = (case ev of EvResult _ (Inr m) \<Rightarrow> isAuthoritative m | _ \<Rightarrow> False)"

definition ends :: "race_event \<Rightarrow> bool" where
  "ends ev = (case ev of EvDone _ \<Rightarrow> True | _ \<Rightarrow> False)"

text \<open>The first event that is an authoritative reply or the end of the query context.\<close>

definition decisive :: "race_event list \<Rightarrow> race_event option" where
  "decisive es = find (\<lambda>ev. wins ev \<or> ends ev) es"

lemma race_sound:
  "race np nf s es = Some (Inr (m, t)) \<Longrightarrow> decisive es = Some (EvResult t (Inr m)) \<and> isAuthoritative m"
  by (induction np nf s es rule: race.induct)
     (auto simp: decisive_def wins_def ends_def Let_def split: sum.splits if_splits)

lemma wf_events_result:
  "wf_events st p f (EvResult t r # es) \<Longrightarrow>
     \<exists>p' f'. p + f = Suc (p' + f') \<and> (st \<or> f' = f) \<and> wf_events st p' f' es"
proof (cases t)
  case TierPrimary
  moreover assume "wf_events st p f (EvResult t r # es)"
  ultimately have "p + f = Suc (p - 1 + f) \<and> wf_events st (p - 1) f es" by simp
  then show ?thesis by blast
next
  case TierFallback
  moreover assume "wf_events st p f (EvResult t r # es)"
  ultimately have "p + f = Suc (p + (f - 1)) \<and> st \<and> wf_events st p (f - 1) es" by auto
  then show ?thesis by blast
qed

lemma wf_events_win_left:
  "wf_events st p f es \<Longrightarrow> decisive es = Some (EvResult t (Inr m)) \<Longrightarrow> 0 < p + f"
proof (induction es arbitrary: st p f)
  case (Cons ev es)
  then show ?case
  proof (cases ev)
    case (EvResult t' r)
    then show ?thesis using Cons.prems wf_events_result by fastforce
  qed (auto simp: decisive_def wins_def ends_def)
qed (simp add: decisive_def)

lemma race_complete:
  assumes "wf_events (rs_fbStarted s) p f es" "rs_seen s + p + f = np + nf"
    "rs_fbStarted s \<Longrightarrow> rs_expected s = np + nf" "decisive es = Some (EvResult t (Inr m))"
  shows "race np nf s es = Some (Inr (m, t))"
  using assms
proof (induction es arbitrary: s p f)
  case (Cons ev es)
  show ?case
  proof (cases ev)
    case (EvResult t' r)
    from wf_events_result Cons.prems(1) EvResult obtain p' f' where
      left: "p + f = Suc (p' + f')" and wf: "wf_events (rs_fbStarted s) p' f' es" by blast
    show ?thesis
    proof (cases "wins ev")
      case True
      then show ?thesis using Cons.prems(4) EvResult
        by (cases r) (auto simp: decisive_def wins_def)
    next
      case False
      then have d: "decisive es = Some (EvResult t (Inr m))"
        using Cons.prems(4) EvResult by (simp add: decisive_def ends_def)
      then have "0 < p' + f'" using wf_events_win_left wf by blast
      then have more: "\<not> (rs_fbStarted s \<and> Suc (rs_seen s) \<ge> rs_expected s)"
        using Cons.prems(2,3) left by auto
      have "race np nf (s\<lparr>rs_seen := Suc (rs_seen s), rs_lastErr := e\<rparr>) es = Some (Inr (m, t))" for e
        using Cons.prems(2,3) left wf d by (intro Cons.IH [of _ p' f']) auto
      then show ?thesis using False more EvResult
        by (cases r) (auto simp: wins_def Let_def)
    qed
  next
    case EvTimer
    then have "decisive es = Some (EvResult t (Inr m))"
      using Cons.prems(4) by (simp add: decisive_def wins_def ends_def)
    then show ?thesis using Cons.prems EvTimer by (auto intro!: Cons.IH [of _ p f])
  next
    case (EvDone e)
    then show ?thesis using Cons.prems(4) by (simp add: decisive_def ends_def)
  qed
qed (simp add: decisive_def)

lemma race_init_simps:
  "rs_seen (race_init u c) = 0"
  "rs_fbStarted (race_init u c) \<Longrightarrow>
     rs_expected (race_init u c) = length (primaryFor u c) + length (fallbackFor u c)"
  by (auto simp: race_init_def Let_def)

definition possible_events :: "Upstream \<Rightarrow> string \<Rightarrow> race_event list \<Rightarrow> bool" where
  "possible_events u c es =
     wf_events (rs_fbStarted (race_init u c)) (length (primaryFor u c)) (length (fallbackFor u c)) es"

lemma Query_wins_iff:
  assumes "possible_events u c es"
  shows "Upstream_Query u c es = Some (Inr (m, t)) \<longleftrightarrow> decisive es = Some (EvResult t (Inr m))"
proof
  assume "Upstream_Query u c es = Some (Inr (m, t))"
  then show "decisive es = Some (EvResult t (Inr m))"
    by (auto simp: Upstream_Query_def Let_def dest: race_sound split: if_splits)
next
  assume d: "decisive es = Some (EvResult t (Inr m))"
  then have "0 < length (primaryFor u c) + length (fallbackFor u c)"
    using assms wf_events_win_left unfolding possible_events_def by blast
  then show "Upstream_Query u c es = Some (Inr (m, t))"
    using assms d race_init_simps unfolding possible_events_def
    by (auto simp: Upstream_Query_def Let_def intro!: race_complete)
qed

lemma wf_no_fallback: "wf_events st p 0 es \<Longrightarrow> EvResult TierFallback r \<notin> set es"
proof (induction st p "0::nat" es rule: wf_events.induct)
  case (2 st p r es)
  then show ?case by auto
qed auto

section \<open>Query pipeline: lemmas\<close>

lemma dns_lib_okD:
  assumes "dns_lib_ok lib"
  shows "msg_Id (SetReply lib req) = msg_Id req" "msg_Rcode (SetReply lib req) = RcodeSuccess"
    "msg_Answer (SetReply lib req) = []"
    "msg_Id (SetRcode lib req rc) = msg_Id req" "msg_Rcode (SetRcode lib req rc) = rc"
    "CopyMsg lib req = req"
    "IsEdns0 lib req = Some i \<Longrightarrow> i < length (msg_Extra req) \<and> is_OPT (msg_Extra req ! i)"
    "IsEdns0 lib req = None \<Longrightarrow> list_all (\<lambda>rr. \<not> is_OPT rr) (msg_Extra req)"
  using assms by (auto simp: dns_lib_ok_def)

lemma spoofReply_Id: "dns_lib_ok lib \<Longrightarrow> msg_Id (spoofReply lib req ip ttl) = msg_Id req"
  by (auto simp: spoofReply_def Let_def dns_lib_okD split: list.split option.split)

lemma forward_reply:
  "forward lib u env m req c = Some (m', r, e) \<Longrightarrow> dns_lib_ok lib \<Longrightarrow>
     \<exists>resp. r = Some resp \<and> msg_Id resp = msg_Id req"
  by (auto simp: forward_def reply_defs dns_lib_okD split: option.splits sum.splits prod.splits)

lemma Resolve_reply:
  assumes "dns_lib_ok lib" "Resolve lib store spoof u env m (Some req) client = Some (m', r, e)"
  shows "\<exists>resp. r = Some resp \<and> msg_Id resp = msg_Id req"
  using assms
  by (auto simp: Resolve_def Let_def reply_defs dns_lib_okD spoofReply_Id forward_reply
      split: if_splits list.splits Action.splits option.splits dest: forward_reply)

text \<open>What the resolver does with one ordinary question, per action.\<close>

definition ordinary :: "Msg \<Rightarrow> Question \<Rightarrow> bool" where
  "ordinary req q = (msg_Question req = [q] \<and> q_Qtype q \<noteq> TypeAXFR \<and> q_Qtype q \<noteq> TypeIXFR)"

lemma ordinary_not_transfer: "ordinary req q \<Longrightarrow> \<not> isZoneTransfer req"
  by (simp add: ordinary_def isZoneTransfer_def)

lemma forward_independent:
  "Upstream_Query u c (env (sanitizeForUpstream lib req) c) = Some (Inr (resp, t)) \<Longrightarrow>
     \<exists>m'. forward lib u env m req c = Some (m', Some (resp\<lparr>msg_Id := msg_Id req\<rparr>), None)"
  by (simp add: forward_def)

section \<open>Properties\<close>

text \<open>(C5) The upstream race returns exactly the first authoritative reply: over every event
  sequence the goroutines can produce, \<open>Query\<close> succeeds with message \<open>m\<close> from tier \<open>t\<close> if and only
  if the first event that is an authoritative reply (NOERROR, NXDOMAIN, YXDOMAIN or NXRRSET) or the end of the
  query context is the reply \<open>m\<close> from tier \<open>t\<close>. A failed, refused or SERVFAIL upstream never masks a healthy one.\<close>

theorem query_first_authoritative:
  assumes "possible_events u c es"
  shows "Upstream_Query u c es = Some (Inr (m, t)) \<longleftrightarrow>
    find (\<lambda>ev. (case ev of EvResult _ (Inr m) \<Rightarrow> msg_Rcode m \<in> {RcodeSuccess, RcodeNameError, RcodeYXDomain, RcodeNXRrset} | EvDone _ \<Rightarrow> True | _ \<Rightarrow> False)) es
      = Some (EvResult t (Inr m))"
proof -
  have "(\<lambda>ev. (case ev of EvResult _ (Inr m) \<Rightarrow> msg_Rcode m \<in> {RcodeSuccess, RcodeNameError, RcodeYXDomain, RcodeNXRrset} | EvDone _ \<Rightarrow> True | _ \<Rightarrow> False))
      = (\<lambda>ev. wins ev \<or> ends ev)"
    by (auto simp: fun_eq_iff wins_def ends_def isAuthoritative_def split: race_event.split sum.split)
  then show ?thesis using Query_wins_iff [OF assms] by (simp add: decisive_def)
qed

definition sample_upstream :: Upstream where
  "sample_upstream = \<lparr>up_CN = [''223.5.5.5:853'', ''223.6.6.6:853''], up_Proxy = [''1.1.1.1:853'', ''1.0.0.1:853''],
     up_Fallback = [], up_Timeout = 8000000000, up_FallbackDelay = 500000000\<rparr>"

definition sample_msg :: "string \<Rightarrow> nat \<Rightarrow> nat \<Rightarrow> Msg" where
  "sample_msg name qtype rc = \<lparr>msg_Id = 7, msg_Response = False, msg_Authoritative = False,
     msg_RecursionAvailable = False, msg_Rcode = rc,
     msg_Question = [\<lparr>q_Name = name, q_Qtype = qtype, q_Qclass = 1\<rparr>], msg_Answer = [], msg_Extra = []\<rparr>"

theorem query_first_authoritative_witness:
  "Upstream_Query sample_upstream ''proxy''
     [EvResult TierPrimary (Inr (sample_msg ''a.example.'' 1 2)), EvResult TierPrimary (Inr (sample_msg ''a.example.'' 1 0))]
   = Some (Inr (sample_msg ''a.example.'' 1 0, TierPrimary))"
proof -
  have "possible_events sample_upstream ''proxy''
     [EvResult TierPrimary (Inr (sample_msg ''a.example.'' 1 2)), EvResult TierPrimary (Inr (sample_msg ''a.example.'' 1 0))]"
    by (simp add: possible_events_def sample_upstream_def race_init_def primaryFor_def fallbackFor_def
        EqualFold_def ToLower_def lower_char_def)
  from query_first_authoritative [OF this] show ?thesis
    by (simp add: isAuthoritative_def dns_consts sample_msg_def)
qed

text \<open>Without a configured fall-back pool no query is ever answered across categories: a
  direct query is answered by the CN pool and any other by the proxy pool, so the tier is always
  primary.\<close>

theorem no_implicit_fallback:
  assumes "up_Fallback u = []" "possible_events u c es" "Upstream_Query u c es = Some (Inr (m, t))"
  shows "t = TierPrimary"
proof (rule ccontr)
  assume "t \<noteq> TierPrimary"
  then have "t = TierFallback" by (cases t) auto
  then have "EvResult TierFallback (Inr m) \<in> set es"
    using Query_wins_iff [OF assms(2)] assms(3) by (auto simp: decisive_def dest: find_Some_in)
  moreover have "wf_events (rs_fbStarted (race_init u c)) (length (primaryFor u c)) 0 es"
    using assms(1,2) by (simp add: possible_events_def fallbackFor_def)
  ultimately show False using wf_no_fallback by blast
qed

theorem no_implicit_fallback_witness:
  "\<exists>t. Upstream_Query sample_upstream ''direct'' [EvResult TierPrimary (Inr (sample_msg ''b.cn.'' 1 3))]
     = Some (Inr (sample_msg ''b.cn.'' 1 3, t)) \<and> t = TierPrimary"
proof -
  let ?es = "[EvResult TierPrimary (Inr (sample_msg ''b.cn.'' 1 3))]"
  have p: "possible_events sample_upstream ''direct'' ?es"
    by (simp add: possible_events_def sample_upstream_def race_init_def primaryFor_def fallbackFor_def)
  have q: "Upstream_Query sample_upstream ''direct'' ?es = Some (Inr (sample_msg ''b.cn.'' 1 3, TierPrimary))"
    by (simp add: Upstream_Query_def sample_upstream_def race_init_def primaryFor_def fallbackFor_def
        isAuthoritative_def dns_consts sample_msg_def EqualFold_def ToLower_def lower_char_def)
  show ?thesis using no_implicit_fallback [OF _ p q] q by (simp add: sample_upstream_def)
qed

text \<open>A library with the documented behaviour, to instantiate the parameter with.\<close>

definition sample_lib :: dns_lib where
  "sample_lib = \<lparr>
     SetReply = (\<lambda>req. req\<lparr>msg_Response := True, msg_Rcode := 0, msg_Answer := [], msg_Extra := []\<rparr>),
     SetRcode = (\<lambda>req rc. req\<lparr>msg_Response := True, msg_Rcode := rc, msg_Answer := [], msg_Extra := []\<rparr>),
     CopyMsg = (\<lambda>m. m),
     IsEdns0 = (\<lambda>m. find (\<lambda>i. is_OPT (msg_Extra m ! i)) (rev [0..<length (msg_Extra m)]))\<rparr>"

lemma sample_lib_ok: "dns_lib_ok sample_lib"
  by (auto simp: dns_lib_ok_def sample_lib_def dns_consts find_None_conv list_all_length dest!: find_Some_in)

text \<open>Every request gets a reply that carries its own ID: whatever the rule table, the spoof
  policy and the upstreams do, a resolution of a non-nil request that returns has a message, and
  the ID of that message is the ID of the request.\<close>

theorem resolve_reply_id:
  assumes "dns_lib_ok lib" "Resolve lib store spoof u env m (Some req) client = Some (m', r, e)"
  shows "\<exists>resp. r = Some resp \<and> msg_Id resp = msg_Id req"
  using assms by (rule Resolve_reply)

definition sample_store :: Store where
  "sample_store = Store_Publish (Some (BuildTable id_digest sample_rules)) \<lparr>store_p = None, store_gen = 0\<rparr>"

theorem resolve_reply_id_witness:
  "\<exists>m' r e resp. Resolve sample_lib sample_store None sample_upstream (\<lambda>_ _. [EvDone ''deadline''])
     NewMetrics (Some (sample_msg ''www.example.com.'' 252 0)) None = Some (m', r, e)
     \<and> r = Some resp \<and> msg_Id resp = 7"
proof -
  let ?R = "Resolve sample_lib sample_store None sample_upstream (\<lambda>_ _. [EvDone ''deadline''])
     NewMetrics (Some (sample_msg ''www.example.com.'' 252 0)) None"
  obtain m' r e where eq: "?R = Some (m', r, e)"
    by (simp add: Resolve_def isZoneTransfer_def sample_msg_def dns_consts)
  from resolve_reply_id [OF sample_lib_ok this] eq show ?thesis by (auto simp: sample_msg_def)
qed

text \<open>(C9) With the compiled table of a rule set published, one ordinary question is decided by the
  sequential scan of that rule set: a blocked name gets NXDOMAIN without any upstream being asked,
  a direct name goes to the direct pool and never to the spoof policy, and a proxied name is either
  answered with the gateway address of the policy or forwarded to the proxy pool.\<close>

theorem resolve_follows_rules:
  assumes "ordinary req q" "store = Store_Publish (Some (BuildTable sha rs)) s0"
  shows "Resolve lib store spoof u env m (Some req) client =
    (case classify_spec rs (q_Name q) of
       ActionBlock \<Rightarrow> Some (IncBlock (IncQueries m), Some (nxDomainReply lib req), None)
     | ActionDirect \<Rightarrow> forward lib u env (IncDirect (IncQueries m)) req ''direct''
     | ActionProxy \<Rightarrow>
         (case shouldSpoof spoof client (q_Qtype q) of
            Some ip \<Rightarrow> Some (IncSpoof (IncQueries m), Some (spoofReply lib req ip (spoof_TTL (the spoof))), None)
          | None \<Rightarrow> forward lib u env (IncProxy (IncQueries m)) req ''proxy''))"
proof -
  have "classify (Store_Load store) n = classify_spec rs n" for n
    using classify_BuildTable [of sha rs n]
    by (simp add: assms(2) Store_Load_def Store_Publish_def Let_def)
  moreover have "msg_Question req = [q]" using assms(1) by (simp add: ordinary_def)
  ultimately show ?thesis using ordinary_not_transfer [OF assms(1)]
    by (auto simp: Resolve_def Let_def shouldSpoof_def split: Action.split option.split)
qed

theorem resolve_follows_rules_witness:
  "Resolve sample_lib sample_store None sample_upstream (\<lambda>_ _. []) NewMetrics
     (Some (sample_msg ''Ads.example.com.'' 1 0)) None
   = Some (IncBlock (IncQueries NewMetrics), Some (nxDomainReply sample_lib (sample_msg ''Ads.example.com.'' 1 0)), None)"
proof -
  have o: "ordinary (sample_msg ''Ads.example.com.'' 1 0) \<lparr>q_Name = ''Ads.example.com.'', q_Qtype = 1, q_Qclass = 1\<rparr>"
    by (simp add: ordinary_def sample_msg_def dns_consts)
  have "classify_spec sample_rules ''Ads.example.com.'' = ActionBlock"
    by (simp add: classify_spec_def sample_rules_def sample_rule_def sorted_enabled_def enabled_rules_def
        qname_matches_def normalizeName_def TrimSuffix_def string_eval kind_defs toAction_def Let_def
        is_match_def)
  then show ?thesis
    using resolve_follows_rules [OF o sample_store_def, of sample_lib None sample_upstream "\<lambda>_ _. []" NewMetrics None]
    by simp
qed

text \<open>What leaves for an upstream carries no EDNS client subnet and asks for at most 1232
  bytes in the OPT record the library designates, and is the client's request in every other
  respect.\<close>

theorem sanitize_strips_client_subnet:
  assumes "dns_lib_ok lib"
  shows "(case IsEdns0 lib req of
       None \<Rightarrow> sanitizeForUpstream lib req = req
     | Some i \<Rightarrow> \<exists>sz os. msg_Extra (sanitizeForUpstream lib req) ! i = RR_OPT sz os \<and> sz \<le> 1232
         \<and> list_all (\<lambda>x. \<not> is_ECS x) os \<and> i < length (msg_Extra req)
         \<and> sanitizeForUpstream lib req = req\<lparr>msg_Extra := (msg_Extra req)[i := RR_OPT sz os]\<rparr>)"
proof (cases "IsEdns0 lib req")
  case None
  then show ?thesis by (simp add: sanitizeForUpstream_def dns_lib_okD [OF assms])
next
  case (Some i)
  then have i: "i < length (msg_Extra req)" "is_OPT (msg_Extra req ! i)"
    using dns_lib_okD(7) [OF assms] by auto
  then obtain sz os where opt: "msg_Extra req ! i = RR_OPT sz os"
    by (auto simp: is_OPT_def split: RR.splits)
  then show ?thesis using Some i
    by (auto simp: sanitizeForUpstream_def dns_lib_okD [OF assms] list_all_iff)
qed

theorem sanitize_strips_client_subnet_witness:
  "sanitizeForUpstream sample_lib ((sample_msg ''a.'' 1 0)\<lparr>msg_Extra := [RR_OPT 4096 [EDNS0_SUBNET ''10.0.0.0/24'']]\<rparr>)
   = (sample_msg ''a.'' 1 0)\<lparr>msg_Extra := [RR_OPT 1232 []]\<rparr>"
proof -
  let ?req = "(sample_msg ''a.'' 1 0)\<lparr>msg_Extra := [RR_OPT 4096 [EDNS0_SUBNET ''10.0.0.0/24'']]\<rparr>"
  have "IsEdns0 sample_lib ?req = Some 0" by (simp add: sample_lib_def is_OPT_def)
  then show ?thesis using sanitize_strips_client_subnet [OF sample_lib_ok, of ?req]
    by (simp add: sanitizeForUpstream_def sample_lib_def is_ECS_def sample_msg_def)
qed

text \<open>Spoofing fails closed: a policy limited to private clients answers only address
  queries, only from its own server addresses, and only for a known client inside one of its
  networks.\<close>

theorem private_spoof_needs_client:
  assumes "spoof_Scope p = SpoofScopePrivateOnly" "shouldSpoof (Some p) client qtype = Some ip"
  shows "(qtype = TypeA \<and> ServerIP4 p = Some ip \<or> qtype = TypeAAAA \<and> ServerIP6 p = Some ip) \<and>
    (\<exists>c n. client = Some c \<and> Some n \<in> set (AllowCIDR p) \<and> IPNet_Contains n c)"
  using assms
  by (auto simp: shouldSpoof_def Let_def SpoofScopePrivateOnly_def SpoofScopeAll_def list_ex_iff
      split: option.splits if_splits)

definition sample_policy :: SpoofPolicy where
  "sample_policy = \<lparr>ServerIP4 = Some [203, 0, 113, 7], ServerIP6 = None, spoof_Scope = ''private_only'',
     AllowCIDR = [Some \<lparr>net_IP = [172, 22, 0, 0], net_Mask = [255, 255, 0, 0]\<rparr>], spoof_TTL = 0\<rparr>"

theorem private_spoof_needs_client_witness:
  "shouldSpoof (Some sample_policy) (Some [172, 22, 5, 9]) 1 = Some [203, 0, 113, 7] \<and>
   (\<exists>n. Some n \<in> set (AllowCIDR sample_policy) \<and> IPNet_Contains n [172, 22, 5, 9])"
proof -
  have s: "shouldSpoof (Some sample_policy) (Some [172, 22, 5, 9]) 1 = Some [203, 0, 113, 7]"
    by (simp add: shouldSpoof_def sample_policy_def SpoofScopePrivateOnly_def SpoofScopeAll_def dns_consts
        IPNet_Contains_def networkNumberAndMask_def To4_def)
  from private_spoof_needs_client [OF _ s] s show ?thesis
    by (auto simp: sample_policy_def SpoofScopePrivateOnly_def)
qed

end
