(* ===== verification/Bytes.thy ===== *)
theory Bytes
  imports NetAddr
begin

text \<open>
  Byte-level support for the two protocol parsers: Go's \<open>binary.BigEndian\<close> readers with their
  bounds checks, the inverse writers, and the wire format of a TLS ClientHello (RFC 5246, section
  7.4.1.2, and RFC 6066, section 3) as the reference against which the parsers are proved.
\<close>

section \<open>Big-endian numbers\<close>

definition Uint16 :: "byte list \<Rightarrow> nat outcome" where
  "Uint16 b = (if 2 \<le> length b then Ret (unat (b ! 0) * 256 + unat (b ! 1)) else Panic)"

definition put16 :: "nat \<Rightarrow> byte list" where
  "put16 n = [of_nat (n div 256), of_nat n]"

definition put24 :: "nat \<Rightarrow> byte list" where
  "put24 n = [of_nat (n div 65536), of_nat (n div 256), of_nat n]"

definition string_of_bytes :: "byte list \<Rightarrow> string" where
  "string_of_bytes bs = map (\<lambda>b. char_of (unat b)) bs"

lemma unat_of_nat_byte: "unat (of_nat n :: byte) = n mod 256"
  by (simp add: unsigned_of_nat take_bit_eq_mod)

lemma length_put16 [simp]: "length (put16 n) = 2"
  by (simp add: put16_def)

lemma length_put24 [simp]: "length (put24 n) = 3"
  by (simp add: put24_def)

lemma Uint16_Ret: "2 \<le> length b \<Longrightarrow> \<exists>n. Uint16 b = Ret n \<and> n < 65536"
proof -
  assume "2 \<le> length b"
  moreover have "unat (b ! 0) < 256" "unat (b ! 1) < 256"
    using unsigned_less [of "b ! 0", where 'a = nat] unsigned_less [of "b ! 1", where 'a = nat] by simp_all
  then have "unat (b ! 0) * 256 + unat (b ! 1) < 65536" by linarith
  ultimately show ?thesis by (simp add: Uint16_def)
qed

lemma Uint16_no_Panic [simp]: "Uint16 b = Panic \<longleftrightarrow> length b < 2"
  by (simp add: Uint16_def)

lemma Uint16_put16 [simp]: "n < 65536 \<Longrightarrow> Uint16 (put16 n) = Ret n"
  by (simp add: Uint16_def put16_def unat_of_nat_byte mod_less)

lemma Uint16_take [simp]: "Uint16 (take 2 (put16 n @ r)) = Uint16 (put16 n)"
  by (simp add: put16_def)

lemma string_of_bytes_Nil [simp]: "string_of_bytes bs = [] \<longleftrightarrow> bs = []"
  by (simp add: string_of_bytes_def)

section \<open>Bounds of the checked operations\<close>

lemma bindO_cong [fundef_cong]:
  "m = m' \<Longrightarrow> (\<And>a. m' = Ret a \<Longrightarrow> f a = g a) \<Longrightarrow> bindO m f = bindO m' g"
  by (cases m') auto

lemma slice_RetD: "slice b lo hi = Ret r \<Longrightarrow> lo \<le> hi \<and> hi \<le> length b \<and> r = take (hi - lo) (drop lo b)"
  by (simp add: slice_def split: if_splits)

lemma slice_Ret_length: "slice b lo hi = Ret r \<Longrightarrow> length r = hi - lo"
  by (auto dest!: slice_RetD)

lemma bindO_slice_total:
  "lo \<le> hi \<Longrightarrow> hi \<le> length b \<Longrightarrow>
     (\<And>r. length r = hi - lo \<Longrightarrow> f r \<noteq> Panic) \<Longrightarrow> bindO (slice b lo hi) f \<noteq> Panic"
  by simp

lemma bindO_index_total: "i < length b \<Longrightarrow> (\<And>x. f x \<noteq> Panic) \<Longrightarrow> bindO (index b i) f \<noteq> Panic"
  by simp

lemma bindO_Uint16_total: "2 \<le> length b \<Longrightarrow> (\<And>n. n < 65536 \<Longrightarrow> f n \<noteq> Panic) \<Longrightarrow> bindO (Uint16 b) f \<noteq> Panic"
  using Uint16_Ret [of b] by auto

lemma bindO_slice16_total:
  "hi = lo + 2 \<Longrightarrow> hi \<le> length b \<Longrightarrow> (\<And>n. n < 65536 \<Longrightarrow> f n \<noteq> Panic) \<Longrightarrow>
     bindO (slice b lo hi) (\<lambda>s. bindO (Uint16 s) f) \<noteq> Panic"
  using bindO_Uint16_total [of "take 2 (drop lo b)" f] by simp

lemma if_total: "(c \<Longrightarrow> a \<noteq> Panic) \<Longrightarrow> (\<not> c \<Longrightarrow> b \<noteq> Panic) \<Longrightarrow> (if c then a else b) \<noteq> Panic"
  by simp

lemma Ret_total: "Ret a \<noteq> Panic"
  by simp

lemmas no_panic = if_total Ret_total bindO_index_total bindO_slice16_total bindO_slice_total

section \<open>ClientHello wire format\<close>

record ClientHello =
  ch_version_random :: "byte list"
  ch_session_id :: "byte list"
  ch_cipher_suites :: "byte list"
  ch_compression :: "byte list"
  ch_extensions :: "(nat \<times> byte list) list"

fun encode_exts :: "(nat \<times> byte list) list \<Rightarrow> byte list" where
  "encode_exts [] = []"
| "encode_exts ((t, d) # es) = put16 t @ put16 (length d) @ d @ encode_exts es"

definition hello_body :: "ClientHello \<Rightarrow> byte list" where
  "hello_body h = ch_version_random h @ of_nat (length (ch_session_id h)) # ch_session_id h
     @ put16 (length (ch_cipher_suites h)) @ ch_cipher_suites h
     @ of_nat (length (ch_compression h)) # ch_compression h
     @ put16 (length (encode_exts (ch_extensions h))) @ encode_exts (ch_extensions h)"

definition encode_hello :: "ClientHello \<Rightarrow> byte list" where
  "encode_hello h = 1 # put24 (length (hello_body h)) @ hello_body h"

definition server_name :: "byte list \<Rightarrow> byte list" where
  "server_name host = put16 (3 + length host) @ 0 # put16 (length host) @ host"

definition wf_hello :: "ClientHello \<Rightarrow> bool" where
  "wf_hello h = (length (ch_version_random h) = 34 \<and> length (ch_session_id h) < 256 \<and>
     length (ch_cipher_suites h) < 65536 \<and> length (ch_compression h) < 256 \<and>
     length (encode_exts (ch_extensions h)) < 65536 \<and> list_all (\<lambda>(t, _). t < 65536) (ch_extensions h))"

definition hello_names :: "ClientHello \<Rightarrow> byte list option \<Rightarrow> bool" where
  "hello_names h name = (find (\<lambda>(t, _). t = 0) (ch_extensions h) = map_option (\<lambda>host. (0, server_name host)) name)"

lemma encode_exts_append: "encode_exts (es @ fs) = encode_exts es @ encode_exts fs"
  by (induction es rule: encode_exts.induct) auto

lemma length_hello_body:
  "wf_hello h \<Longrightarrow> length (hello_body h) < 16777216"
  by (simp add: wf_hello_def hello_body_def)

lemma unat_take_24: "n < 16777216 \<Longrightarrow> unat (put24 n ! 0) * 65536 + unat (put24 n ! 1) * 256 + unat (put24 n ! 2) = n"
proof -
  assume n: "n < 16777216"
  have "n = n div 256 * 256 + n mod 256" "n div 256 = n div 256 div 256 * 256 + n div 256 mod 256"
    by (rule div_mult_mod_eq [symmetric])+
  moreover have "n div 256 div 256 = n div 65536" using div_mult2_eq [of n 256 256] by simp
  moreover have m: "n div 65536 mod 256 = n div 65536" using n by (intro mod_less) simp
  ultimately have "n div 65536 * 65536 + n div 256 mod 256 * 256 + n mod 256 = n" by linarith
  then show ?thesis by (simp add: put24_def unat_of_nat_byte m)
qed

lemma ext_length:
  "find (\<lambda>(t, _). t = 0) es = Some (t, d) \<Longrightarrow> length (encode_exts es) < 65536 \<Longrightarrow> length d < 65536"
  by (induction es rule: encode_exts.induct) (auto split: if_splits)

end
