(* ===== verification/Sni.thy ===== *)
theory Sni
  imports Bytes
begin

text \<open>
  The TCP SNI peeker, \<open>internal/proxy/sniforward/peek.go\<close>: it reads the first TLS record of a
  client connection, walks the ClientHello and returns the server name together with the bytes
  read, which the forwarder replays to the upstream.  Every slice expression and index of the
  code is a bounds-checked \<open>slice\<close> or \<open>index\<close> here, so that a run-time panic is the value \<open>Panic\<close>.
\<close>

definition tlsRecordTypeHandshake :: byte where "tlsRecordTypeHandshake = 0x16"
definition tlsHandshakeClientHello :: byte where "tlsHandshakeClientHello = 0x01"
definition tlsHeaderLen :: nat where "tlsHeaderLen = 5"
definition maxTLSRecordSize :: nat where "maxTLSRecordSize = 16640"
definition tlsExtServerName :: nat where "tlsExtServerName = 0"

lemmas tls_consts = tlsRecordTypeHandshake_def tlsHandshakeClientHello_def tlsHeaderLen_def
  maxTLSRecordSize_def tlsExtServerName_def

datatype sni_error = ErrNoSNI | ErrNotTLS | ErrHello string | ErrIO string

type_synonym sni_result = "(sni_error, string) result outcome"

function server_name_loop :: "byte list \<Rightarrow> sni_result" where
  "server_name_loop p =
     (if length p < 3 then Ret (Inl ErrNoSNI)
      else bindO (index p 0) (\<lambda>nameType.
        bindO (slice p 1 3) (\<lambda>s. bindO (Uint16 s) (\<lambda>nameLen.
          if 3 + nameLen > length p then Ret (Inl (ErrHello ''server_name entry overflow''))
          else if nameType = 0 then bindO (slice p 3 (3 + nameLen)) (\<lambda>n. Ret (Inr (string_of_bytes n)))
          else bindO (slice p (3 + nameLen) (length p)) (\<lambda>rest. server_name_loop rest)))))"
  by pat_completeness auto
termination
  by (relation "measure length") (auto dest!: slice_Ret_length)

definition parseServerNameList :: "byte list \<Rightarrow> sni_result" where
  "parseServerNameList b =
     (if length b < 2 then Ret (Inl (ErrHello ''server_name_list too short''))
      else bindO (slice b 0 2) (\<lambda>s. bindO (Uint16 s) (\<lambda>listLen.
        if 2 + listLen > length b then Ret (Inl (ErrHello ''server_name_list overflow''))
        else bindO (slice b 2 (2 + listLen)) (\<lambda>p. server_name_loop p))))"

function ext_loop :: "byte list \<Rightarrow> sni_result" where
  "ext_loop exts =
     (if length exts < 4 then Ret (Inl ErrNoSNI)
      else bindO (slice exts 0 2) (\<lambda>s. bindO (Uint16 s) (\<lambda>extType.
        bindO (slice exts 2 4) (\<lambda>s. bindO (Uint16 s) (\<lambda>thisLen.
          if 4 + thisLen > length exts then Ret (Inl (ErrHello ''extension overflow''))
          else if extType = tlsExtServerName
            then bindO (slice exts 4 (4 + thisLen)) (\<lambda>d. parseServerNameList d)
          else bindO (slice exts (4 + thisLen) (length exts)) (\<lambda>rest. ext_loop rest))))))"
  by pat_completeness auto
termination
  by (relation "measure length") (auto dest!: slice_Ret_length)

declare server_name_loop.simps [simp del] ext_loop.simps [simp del]

text \<open>The fixed part of the ClientHello, one length-prefixed field after the other.\<close>

definition hello_extensions :: "byte list \<Rightarrow> sni_result" where
  "hello_extensions p =
     (if length p < 2 then Ret (Inl ErrNoSNI)
      else bindO (slice p 0 2) (\<lambda>s. bindO (Uint16 s) (\<lambda>extLen.
        if 2 + extLen > length p then Ret (Inl (ErrHello ''extensions overflow''))
        else bindO (slice p 2 (2 + extLen)) (\<lambda>exts. ext_loop exts))))"

definition hello_compression :: "byte list \<Rightarrow> sni_result" where
  "hello_compression p =
     (if length p < 1 then Ret (Inl (ErrHello ''missing compression length''))
      else bindO (index p 0) (\<lambda>c. let compLen = unat c in
        if 1 + compLen > length p then Ret (Inl (ErrHello ''compression overflow''))
        else bindO (slice p (1 + compLen) (length p)) (\<lambda>p. hello_extensions p)))"

definition hello_cipher_suites :: "byte list \<Rightarrow> sni_result" where
  "hello_cipher_suites p =
     (if length p < 2 then Ret (Inl (ErrHello ''missing cipher_suites length''))
      else bindO (slice p 0 2) (\<lambda>s. bindO (Uint16 s) (\<lambda>csLen.
        if 2 + csLen > length p then Ret (Inl (ErrHello ''cipher_suites overflow''))
        else bindO (slice p (2 + csLen) (length p)) (\<lambda>p. hello_compression p))))"

definition hello_session :: "byte list \<Rightarrow> sni_result" where
  "hello_session p =
     (if length p < 1 then Ret (Inl (ErrHello ''missing session_id length''))
      else bindO (index p 0) (\<lambda>c. let sidLen = unat c in
        if 1 + sidLen > length p then Ret (Inl (ErrHello ''session_id overflow''))
        else bindO (slice p (1 + sidLen) (length p)) (\<lambda>p. hello_cipher_suites p)))"

definition extractSNIFromHandshake :: "byte list \<Rightarrow> sni_result" where
  "extractSNIFromHandshake b =
     (if length b < 4 then Ret (Inl (ErrHello ''not a ClientHello''))
      else bindO (index b 0) (\<lambda>b0.
        if b0 \<noteq> tlsHandshakeClientHello then Ret (Inl (ErrHello ''not a ClientHello''))
        else bindO (index b 1) (\<lambda>b1. bindO (index b 2) (\<lambda>b2. bindO (index b 3) (\<lambda>b3.
          let hsLen = unat b1 * 65536 + unat b2 * 256 + unat b3 in
          if hsLen + 4 > length b then Ret (Inl (ErrHello ''truncated ClientHello''))
          else bindO (slice b 4 (4 + hsLen)) (\<lambda>p.
            if length p < 34 then Ret (Inl (ErrHello ''ClientHello prefix too short''))
            else bindO (slice p 34 (length p)) (\<lambda>p. hello_session p)))))))"

text \<open>A reader delivers the bytes of \<open>rd_data\<close> and then fails with \<open>rd_err\<close>.\<close>

record reader =
  rd_data :: "byte list"
  rd_err :: string

definition io_EOF :: string where "io_EOF = ''EOF''"
definition io_ErrUnexpectedEOF :: string where "io_ErrUnexpectedEOF = ''unexpected EOF''"

definition ReadFull :: "reader \<Rightarrow> nat \<Rightarrow> (string, byte list) result \<times> reader" where
  "ReadFull r n =
     (if n \<le> length (rd_data r) then (Inr (take n (rd_data r)), r\<lparr>rd_data := drop n (rd_data r)\<rparr>)
      else (Inl (if rd_data r \<noteq> [] \<and> rd_err r = io_EOF then io_ErrUnexpectedEOF else rd_err r),
            r\<lparr>rd_data := []\<rparr>))"

text \<open>\<open>peekSNI\<close> returns the name, the raw bytes and the error; the nil slice is the empty list.\<close>

type_synonym peek_result = "string \<times> byte list \<times> sni_error option"

definition peekSNI :: "reader \<Rightarrow> (peek_result \<times> reader) outcome" where
  "peekSNI r =
     (case ReadFull r tlsHeaderLen of
        (Inl e, r) \<Rightarrow> Ret (([], [], Some (ErrIO e)), r)
      | (Inr head, r) \<Rightarrow>
          bindO (index head 0) (\<lambda>h0.
            if h0 \<noteq> tlsRecordTypeHandshake then Ret (([], head, Some ErrNotTLS), r)
            else bindO (slice head 3 5) (\<lambda>s. bindO (Uint16 s) (\<lambda>recLen.
              if recLen \<le> 0 \<or> recLen > maxTLSRecordSize
                then Ret (([], head, Some (ErrHello ''implausible TLS record length'')), r)
              else (case ReadFull r recLen of
                  (Inl e, r) \<Rightarrow> Ret (([], head, Some (ErrIO e)), r)
                | (Inr body, r) \<Rightarrow>
                    let raw = head @ body in
                    bindO (extractSNIFromHandshake body) (\<lambda>x.
                      case x of Inl e \<Rightarrow> Ret (([], raw, Some e), r)
                              | Inr sni \<Rightarrow> Ret ((sni, raw, None), r)))))))"

section \<open>Lemmas\<close>

text \<open>No slice and no index of the parser is ever out of bounds.\<close>

lemma server_name_loop_total: "server_name_loop p \<noteq> Panic"
proof (induction p rule: length_induct)
  case (1 p)
  then show ?case
    unfolding server_name_loop.simps [of p]
    by (intro no_panic) auto
qed

lemma parseServerNameList_total: "parseServerNameList b \<noteq> Panic"
  unfolding parseServerNameList_def
  by (intro no_panic)
    (auto simp: server_name_loop_total)

lemma ext_loop_total: "ext_loop exts \<noteq> Panic"
proof (induction exts rule: length_induct)
  case (1 exts)
  then show ?case
    unfolding ext_loop.simps [of exts]
    by (intro no_panic)
      (auto simp: parseServerNameList_total)
qed

lemma extractSNIFromHandshake_total: "extractSNIFromHandshake b \<noteq> Panic"
  unfolding extractSNIFromHandshake_def hello_session_def hello_cipher_suites_def
    hello_compression_def hello_extensions_def Let_def
  by (intro no_panic)
    (auto simp: ext_loop_total)

text \<open>On the wire format the parser reads back what the encoder wrote.\<close>

lemma server_name_loop_host:
  "length host < 65536 \<Longrightarrow> server_name_loop (0 # put16 (length host) @ host) = Ret (Inr (string_of_bytes host))"
  by (simp add: server_name_loop.simps)

lemma parseServerNameList_server_name:
  "3 + length host < 65536 \<Longrightarrow> parseServerNameList (server_name host) = Ret (Inr (string_of_bytes host))"
  by (simp add: parseServerNameList_def server_name_def server_name_loop_host)

lemma ext_loop_step:
  assumes "t < 65536" "length d < 65536"
  shows "ext_loop (put16 t @ put16 (length d) @ d @ r) = (if t = 0 then parseServerNameList d else ext_loop r)"
  using assms by (subst ext_loop.simps) (simp add: tls_consts)

lemma ext_loop_encode:
  "length (encode_exts es) < 65536 \<Longrightarrow> list_all (\<lambda>(t, _). t < 65536) es \<Longrightarrow>
     ext_loop (encode_exts es) = (case find (\<lambda>(t, _). t = 0) es of
        None \<Rightarrow> Ret (Inl ErrNoSNI) | Some (_, d) \<Rightarrow> parseServerNameList d)"
proof (induction es rule: encode_exts.induct)
  case 1
  then show ?case by (simp add: ext_loop.simps)
next
  case (2 t d es)
  then show ?case using ext_loop_step [of t d "encode_exts es"] by simp
qed

lemma hello_session_encode:
  assumes "wf_hello h"
  shows "hello_session (drop 34 (hello_body h)) = ext_loop (encode_exts (ch_extensions h))"
  using assms
  by (simp add: wf_hello_def hello_body_def hello_session_def hello_cipher_suites_def
      hello_compression_def hello_extensions_def unat_of_nat_byte)

lemma extract_encode:
  assumes "wf_hello h"
  shows "extractSNIFromHandshake (encode_hello h @ trailing) = ext_loop (encode_exts (ch_extensions h))"
proof -
  have "34 \<le> length (hello_body h)" using assms by (simp add: wf_hello_def hello_body_def)
  moreover note n = unat_take_24 [OF length_hello_body [OF assms]]
  ultimately show ?thesis using n
    by (simp add: extractSNIFromHandshake_def encode_hello_def tls_consts nth_append
        hello_session_encode [OF assms] Let_def)
qed

lemma extract_encode_name:
  assumes "wf_hello h" "hello_names h name"
  shows "extractSNIFromHandshake (encode_hello h @ trailing) =
    Ret (case name of None \<Rightarrow> Inl ErrNoSNI | Some host \<Rightarrow> Inr (string_of_bytes host))"
proof -
  have e: "length (encode_exts (ch_extensions h)) < 65536" "list_all (\<lambda>(t, _). t < 65536) (ch_extensions h)"
    using assms(1) by (auto simp: wf_hello_def)
  show ?thesis
  proof (cases name)
    case None
    then show ?thesis using assms(2) ext_loop_encode [OF e] by (simp add: hello_names_def extract_encode [OF assms(1)])
  next
    case (Some host)
    then have f: "find (\<lambda>(t, _). t = 0) (ch_extensions h) = Some (0, server_name host)"
      using assms(2) by (simp add: hello_names_def)
    then have "3 + length host < 65536" using ext_length [OF f e(1)] by (simp add: server_name_def)
    then show ?thesis using ext_loop_encode [OF e] f Some
      by (simp add: extract_encode [OF assms(1)] parseServerNameList_server_name)
  qed
qed

text \<open>The TLS record that carries a handshake message.\<close>

definition tls_record :: "byte list \<Rightarrow> byte list" where
  "tls_record body = 0x16 # 3 # 1 # put16 (length body) @ body"

definition sample_hello :: ClientHello where
  "sample_hello = \<lparr>ch_version_random = replicate 34 3, ch_session_id = [], ch_cipher_suites = [0x13, 1],
     ch_compression = [0], ch_extensions = [(43, [2, 3, 4]), (0, server_name [97, 46, 98])]\<rparr>"

lemma sample_hello_ok: "wf_hello sample_hello" "hello_names sample_hello (Some [97, 46, 98])"
  by (simp_all add: sample_hello_def wf_hello_def hello_names_def server_name_def)

lemma length_sample_hello: "length (encode_hello sample_hello) = 66"
  by (simp add: sample_hello_def encode_hello_def hello_body_def server_name_def)

section \<open>Properties\<close>

text \<open>The peeker never panics, whatever bytes a client sends, and the bytes it hands back for
  replay followed by the bytes still unread are exactly the bytes the client sent, unless the
  connection itself failed.\<close>

lemma peek_replays:
  "\<exists>sni raw err r'. peekSNI r = Ret ((sni, raw, err), r') \<and>
     ((\<forall>e. err \<noteq> Some (ErrIO e)) \<longrightarrow> raw @ rd_data r' = rd_data r)"
proof (cases "5 \<le> length (rd_data r)")
  case True
  define h where "h = take 5 (rd_data r)"
  let ?r1 = "r\<lparr>rd_data := drop 5 (rd_data r)\<rparr>"
  obtain n where n: "Uint16 (take 2 (drop 3 h)) = Ret n"
    using True Uint16_Ret [of "take 2 (drop 3 h)"] by (auto simp: h_def)
  obtain x where x: "extractSNIFromHandshake (take n (drop 5 (rd_data r))) = Ret x"
    using extractSNIFromHandshake_total by (metis outcome.exhaust)
  have h: "length h = 5" "h @ drop 5 (rd_data r) = rd_data r" using True by (simp_all add: h_def)
  have "peekSNI r = (if h ! 0 \<noteq> 0x16 then Ret (([], h, Some ErrNotTLS), ?r1)
      else if n \<le> 0 \<or> n > 16640 then Ret (([], h, Some (ErrHello ''implausible TLS record length'')), ?r1)
      else if n \<le> length (drop 5 (rd_data r)) then
        Ret ((case x of Inl e \<Rightarrow> ([], h @ take n (drop 5 (rd_data r)), Some e)
                      | Inr sni \<Rightarrow> (sni, h @ take n (drop 5 (rd_data r)), None)),
             ?r1\<lparr>rd_data := drop n (drop 5 (rd_data r))\<rparr>)
      else Ret (([], h, Some (ErrIO (if drop 5 (rd_data r) \<noteq> [] \<and> rd_err r = io_EOF then io_ErrUnexpectedEOF else rd_err r))),
             ?r1\<lparr>rd_data := []\<rparr>))"
    using True n x h(1)
    by (simp add: peekSNI_def ReadFull_def tls_consts h_def [symmetric] Let_def split: sum.split)
  then show ?thesis using h(2)
    by (cases x) (auto simp del: drop_drop)
qed (simp add: peekSNI_def ReadFull_def tls_consts)

text \<open>Peeking the TLS record of a well-formed ClientHello returns the host of its first
  server_name extension, or the no-SNI error when it has none, together with the whole record;
  what follows the record stays unread.\<close>

theorem peek_reads_server_name:
  assumes "wf_hello h" "hello_names h name" "length (encode_hello h) \<le> maxTLSRecordSize"
  shows "peekSNI \<lparr>rd_data = tls_record (encode_hello h) @ rest, rd_err = e\<rparr> =
    Ret ((case name of None \<Rightarrow> ([], tls_record (encode_hello h), Some ErrNoSNI)
                     | Some host \<Rightarrow> (string_of_bytes host, tls_record (encode_hello h), None)),
         \<lparr>rd_data = rest, rd_err = e\<rparr>)"
proof -
  let ?b = "encode_hello h"
  have b: "0 < length ?b" "length ?b < 65536" "length ?b \<le> 16640"
    using assms(3) by (auto simp: tls_consts encode_hello_def)
  have "extractSNIFromHandshake ?b = Ret (case name of None \<Rightarrow> Inl ErrNoSNI | Some host \<Rightarrow> Inr (string_of_bytes host))"
    using extract_encode_name [OF assms(1,2), of "[]"] by simp
  moreover have "take 5 (tls_record ?b @ rest) = 0x16 # 3 # 1 # put16 (length ?b)"
    "drop 5 (tls_record ?b @ rest) = ?b @ rest" "5 \<le> length (tls_record ?b @ rest)"
    by (simp_all add: tls_record_def)
  ultimately show ?thesis using b
    by (cases name) (simp_all add: peekSNI_def ReadFull_def tls_consts Let_def tls_record_def)
qed

theorem peek_reads_server_name_witness:
  "peekSNI \<lparr>rd_data = tls_record (encode_hello sample_hello) @ [23, 3, 3], rd_err = ''EOF''\<rparr> =
    Ret ((''a.b'', tls_record (encode_hello sample_hello), None), \<lparr>rd_data = [23, 3, 3], rd_err = ''EOF''\<rparr>)"
proof -
  have "string_of_bytes [97, 46, 98] = ''a.b''" by (simp add: string_of_bytes_def char_of_def bit_Suc_0_iff)
  then show ?thesis
    using peek_reads_server_name [OF sample_hello_ok, of "[23, 3, 3]" "''EOF''"] length_sample_hello
    by (simp add: tls_consts)
qed

end
