(* ===== verification/Quic.thy ===== *)
theory Quic
  imports Sni
begin

text \<open>
  The QUIC Initial parser, \<open>internal/proxy/quicforward/parse.go\<close>: it removes the header protection
  and the AEAD of a QUIC v1 Initial packet (RFC 9001, section 5), walks the frames and reads the
  server name of the ClientHello.  HMAC-SHA256, the AES block cipher and AES-GCM are the parameter
  \<open>crypto\<close>; what the parser relies on is \<open>crypto_ok\<close>.  Every slice that is not cut at a length the
  code has just compared is a checked \<open>slice\<close>, so that a run-time panic is the value \<open>Panic\<close>.

  A Go \<open>int\<close> converted from a \<open>uint64\<close> that \<open>readVarint\<close> produced is below \<open>2 ^ 62\<close>
  (lemma \<open>readVarint_bound\<close>), so the conversion is \<open>unat\<close> and sums of it with buffer offsets do
  not overflow.
\<close>

unbundle bit_operations_syntax

section \<open>Variable-length integers\<close>

definition BE :: "byte list \<Rightarrow> nat" where
  "BE bs = foldl (\<lambda>acc b. acc * 256 + unat b) 0 bs"

definition Uint64 :: "byte list \<Rightarrow> 64 word" where
  "Uint64 buf = of_nat (BE (take 8 buf))"

definition readVarint :: "byte list \<Rightarrow> 64 word \<times> nat" where
  "readVarint buf =
     (if length buf = 0 then (0, 0)
      else
        let first = buf ! 0; prefix = drop_bit 6 first; len = 2 ^ unat prefix in
        if length buf < len then (0, 0)
        else
          (if len = 1 then ucast (first AND 0x3f)
           else if len = 2 then push_bit 8 (ucast (first AND 0x3f)) OR ucast (buf ! 1)
           else if len = 4 then push_bit 24 (ucast (first AND 0x3f)) OR push_bit 16 (ucast (buf ! 1))
                               OR push_bit 8 (ucast (buf ! 2)) OR ucast (buf ! 3)
           else Uint64 buf AND 0x3fffffffffffffff,
           len))"

text \<open>The reading at an offset that most callers use: the new offset and the value, nothing when
  the integer is cut short.\<close>

definition varintAt :: "byte list \<Rightarrow> nat \<Rightarrow> (nat \<times> nat) option outcome" where
  "varintAt buf off = bindO (slice buf off (length buf)) (\<lambda>b.
     case readVarint b of (v, n) \<Rightarrow> if n = 0 then Ret None else Ret (Some (off + n, unat v)))"

section \<open>Initial keys\<close>

record crypto =
  hmac_sha256 :: "byte list \<Rightarrow> byte list \<Rightarrow> byte list"
  aes_block :: "byte list \<Rightarrow> byte list \<Rightarrow> byte list"
  gcm_open :: "byte list \<Rightarrow> byte list \<Rightarrow> byte list \<Rightarrow> byte list \<Rightarrow> byte list option"

definition bytes_of_string :: "string \<Rightarrow> byte list" where
  "bytes_of_string s = map (\<lambda>c. of_nat (of_char c)) s"

definition quicInitialSaltV1 :: "byte list" where
  "quicInitialSaltV1 = [0x38, 0x76, 0x2c, 0xf7, 0xf5, 0x59, 0x34, 0xb3, 0x4d, 0x17, 0x9a, 0xe6, 0xa4, 0xc8,
     0x0c, 0xad, 0xcc, 0xbb, 0x7f, 0x0a]"

definition hkdfExtract :: "crypto \<Rightarrow> byte list \<Rightarrow> byte list \<Rightarrow> byte list" where
  "hkdfExtract c salt ikm = hmac_sha256 c salt ikm"

text \<open>\<open>okm[:length]\<close> is within bounds because the loop appends \<open>\<lceil>length / 32\<rceil>\<close> digests of 32 bytes.\<close>

fun hkdf_blocks :: "crypto \<Rightarrow> byte list \<Rightarrow> byte list \<Rightarrow> byte list \<Rightarrow> nat \<Rightarrow> nat \<Rightarrow> byte list" where
  "hkdf_blocks c prk info prev i 0 = []"
| "hkdf_blocks c prk info prev i (Suc k) =
     (let d = hmac_sha256 c prk (prev @ info @ [of_nat i]) in d @ hkdf_blocks c prk info d (Suc i) k)"

definition hkdfExpand :: "crypto \<Rightarrow> byte list \<Rightarrow> byte list \<Rightarrow> nat \<Rightarrow> byte list" where
  "hkdfExpand c prk info len = take len (hkdf_blocks c prk info [] 1 ((len + 31) div 32))"

definition hkdfExpandLabel :: "crypto \<Rightarrow> byte list \<Rightarrow> string \<Rightarrow> byte list \<Rightarrow> nat \<Rightarrow> byte list" where
  "hkdfExpandLabel c secret label context len =
     (let qlabel = bytes_of_string (''tls13 '' @ label) in
      hkdfExpand c secret
        (put16 len @ [of_nat (length qlabel)] @ qlabel @ [of_nat (length context)] @ context) len)"

section \<open>Server name of a ClientHello\<close>

function quic_ext_loop :: "byte list \<Rightarrow> nat \<Rightarrow> string option outcome" where
  "quic_ext_loop exts eo =
     (if eo + 4 \<le> length exts then
        bindO (slice exts eo (eo + 2)) (\<lambda>s. bindO (Uint16 s) (\<lambda>extType.
        bindO (slice exts (eo + 2) (eo + 4)) (\<lambda>s. bindO (Uint16 s) (\<lambda>extDLen.
          if eo + 4 + extDLen > length exts then Ret None
          else if extType = tlsExtServerName then
            bindO (slice exts (eo + 4) (eo + 4 + extDLen)) (\<lambda>d.
              if length d < 2 then Ret None
              else bindO (slice d 0 2) (\<lambda>s. bindO (Uint16 s) (\<lambda>listLen.
                if listLen > length d - 2 then Ret None
                else bindO (slice d 2 (2 + listLen)) (\<lambda>sni.
                  if length sni < 3 then Ret None
                  else bindO (index sni 0) (\<lambda>s0.
                    if s0 \<noteq> 0 then Ret None
                    else bindO (slice sni 1 3) (\<lambda>s. bindO (Uint16 s) (\<lambda>nameLen.
                      if nameLen > length sni - 3 then Ret None
                      else bindO (slice sni 3 (3 + nameLen)) (\<lambda>name. Ret (Some (string_of_bytes name))))))))))
          else quic_ext_loop exts (eo + 4 + extDLen)))))
      else Ret None)"
  by pat_completeness auto
termination
  by (relation "measure (\<lambda>(exts, eo). Suc (length exts) - eo)") auto

declare quic_ext_loop.simps [simp del]

definition client_hello_fields :: "byte list \<Rightarrow> string option outcome" where
  "client_hello_fields hello =
     (if length hello < 34 then Ret None
      else if length hello < 34 + 1 then Ret None
      else bindO (index hello 34) (\<lambda>sid. let sidLen = unat sid; off = 35 in
        if length hello < off + sidLen + 2 then Ret None
        else let off = off + sidLen in
          bindO (slice hello off (off + 2)) (\<lambda>s. bindO (Uint16 s) (\<lambda>csLen. let off = off + 2 in
            if length hello < off + csLen + 1 then Ret None
            else let off = off + csLen in
              bindO (index hello off) (\<lambda>cm. let cmLen = unat cm; off = off + 1 in
                if length hello < off + cmLen + 2 then Ret None
                else let off = off + cmLen in
                  bindO (slice hello off (off + 2)) (\<lambda>s. bindO (Uint16 s) (\<lambda>extLen. let off = off + 2 in
                    if length hello < off + extLen then Ret None
                    else bindO (slice hello off (off + extLen)) (\<lambda>exts. quic_ext_loop exts 0))))))))"

definition client_hello_message :: "byte list \<Rightarrow> string option outcome" where
  "client_hello_message hs =
     (if length hs < 4 then Ret None
      else bindO (index hs 0) (\<lambda>h0.
        if h0 \<noteq> 1 then Ret None
        else bindO (slice hs 4 (length hs)) (\<lambda>hello. client_hello_fields hello)))"

definition sniFromClientHello :: "byte list \<Rightarrow> string option outcome" where
  "sniFromClientHello data =
     (if length data < 5 then Ret None
      else bindO (index data 0) (\<lambda>d0.
        if d0 = 0x16 then
          bindO (slice data 3 5) (\<lambda>s. bindO (Uint16 s) (\<lambda>recLen.
            if length data < 5 + recLen then Ret None
            else bindO (slice data 5 (5 + recLen)) (\<lambda>hs. client_hello_message hs)))
        else if d0 = 1 then client_hello_message data
        else Ret None))"

section \<open>Frames\<close>

datatype frame_result = FrameAbort | FrameSNI string | FrameNext nat

function skip_padding :: "byte list \<Rightarrow> nat \<Rightarrow> nat" where
  "skip_padding pt off = (if off < length pt \<and> pt ! off = 0 then skip_padding pt (off + 1) else off)"
  by pat_completeness auto
termination
  by (relation "measure (\<lambda>(pt, off). length pt - off)") auto

declare skip_padding.simps [simp del]

text \<open>Read \<open>k\<close> integers one after the other and drop their values.\<close>

fun skip_varints :: "nat \<Rightarrow> byte list \<Rightarrow> nat \<Rightarrow> nat option outcome" where
  "skip_varints 0 pt off = Ret (Some off)"
| "skip_varints (Suc k) pt off = bindO (varintAt pt off) (\<lambda>r.
     case r of None \<Rightarrow> Ret None | Some (off, _) \<Rightarrow> skip_varints k pt off)"

definition crypto_frame :: "byte list \<Rightarrow> nat \<Rightarrow> frame_result outcome" where
  "crypto_frame pt off = bindO (varintAt pt off) (\<lambda>r. case r of
      None \<Rightarrow> Ret FrameAbort
    | Some (off1, _) \<Rightarrow> bindO (varintAt pt off1) (\<lambda>r. case r of
          None \<Rightarrow> Ret FrameAbort
        | Some (off2, dataLen) \<Rightarrow>
            if length pt - off1 < dataLen then Ret FrameAbort
            else bindO (slice pt off2 (off2 + dataLen)) (\<lambda>data.
              bindO (sniFromClientHello data) (\<lambda>s. case s of
                Some sni \<Rightarrow> if sni \<noteq> [] then Ret (FrameSNI sni) else Ret (FrameNext (off2 + dataLen))
              | None \<Rightarrow> Ret (FrameNext (off2 + dataLen))))))"

definition ack_frame :: "byte \<Rightarrow> byte list \<Rightarrow> nat \<Rightarrow> frame_result outcome" where
  "ack_frame frameType pt off = bindO (skip_varints 2 pt off) (\<lambda>r. case r of
      None \<Rightarrow> Ret FrameAbort
    | Some off \<Rightarrow> bindO (varintAt pt off) (\<lambda>r. case r of
          None \<Rightarrow> Ret FrameAbort
        | Some (off, ackRangeCount) \<Rightarrow> bindO (skip_varints 1 pt off) (\<lambda>r. case r of
              None \<Rightarrow> Ret FrameAbort
            | Some off \<Rightarrow> bindO (skip_varints (2 * ackRangeCount) pt off) (\<lambda>r. case r of
                  None \<Rightarrow> Ret FrameAbort
                | Some off \<Rightarrow>
                    if frameType = 3 then bindO (skip_varints 3 pt off) (\<lambda>r. case r of
                        None \<Rightarrow> Ret FrameAbort | Some off \<Rightarrow> Ret (FrameNext off))
                    else Ret (FrameNext off)))))"

definition frame :: "byte list \<Rightarrow> nat \<Rightarrow> frame_result outcome" where
  "frame pt off = bindO (index pt off) (\<lambda>frameType. let off = off + 1 in
     if frameType = 0 then Ret (FrameNext (skip_padding pt off))
     else if frameType = 6 then crypto_frame pt off
     else if frameType = 1 \<or> frameType = 2 \<or> frameType = 3 then ack_frame frameType pt off
     else Ret FrameAbort)"

lemma varintAt_advances: "varintAt pt off = Ret (Some (off', v)) \<Longrightarrow> off < off'"
  by (auto simp: varintAt_def slice_def split: if_splits prod.splits)

lemma skip_varints_mono: "skip_varints k pt off = Ret (Some off') \<Longrightarrow> off \<le> off'"
proof (induction k pt off rule: skip_varints.induct)
  case (2 k pt off)
  then show ?case
    by (cases "varintAt pt off") (fastforce dest: varintAt_advances split: option.splits)+
qed simp

lemma skip_padding_mono: "off \<le> skip_padding pt off"
proof (induction pt off rule: skip_padding.induct)
  case (1 pt off)
  then show ?case by (subst skip_padding.simps) auto
qed

lemma bindO_RetD: "bindO m f = Ret b \<Longrightarrow> \<exists>a. m = Ret a \<and> f a = Ret b"
  by (cases m) auto

lemma crypto_frame_advances: "crypto_frame pt off = Ret (FrameNext off') \<Longrightarrow> off < off'"
  unfolding crypto_frame_def
  by (auto dest!: bindO_RetD varintAt_advances split: option.splits prod.splits if_splits)

lemma ack_frame_advances: "ack_frame t pt off = Ret (FrameNext off') \<Longrightarrow> off < off'"
  unfolding ack_frame_def
  by (auto dest!: bindO_RetD varintAt_advances skip_varints_mono split: option.splits prod.splits if_splits)

lemma frame_advances: "frame pt off = Ret (FrameNext off') \<Longrightarrow> off < off'"
  using skip_padding_mono [of "off + 1" pt]
  by (auto simp: frame_def Let_def dest!: bindO_RetD crypto_frame_advances ack_frame_advances split: if_splits)

function frame_loop :: "byte list \<Rightarrow> nat \<Rightarrow> string option outcome" where
  "frame_loop pt off =
     (if off < length pt then
        bindO (frame pt off) (\<lambda>r. case r of
          FrameAbort \<Rightarrow> Ret None | FrameSNI sni \<Rightarrow> Ret (Some sni) | FrameNext off' \<Rightarrow> frame_loop pt off')
      else Ret None)"
  by pat_completeness auto
termination
  by (relation "measure (\<lambda>(pt, off). length pt - off)") (auto dest!: frame_advances)

declare frame_loop.simps [simp del]

definition parseCryptoFrames :: "byte list \<Rightarrow> string option outcome" where
  "parseCryptoFrames pt = frame_loop pt 0"

section \<open>Packet\<close>

text \<open>The long header up to the protected payload: its offset, the destination connection ID and
  the protected bytes.\<close>

definition parse_initial :: "byte list \<Rightarrow> (nat \<times> byte list \<times> byte list) option outcome" where
  "parse_initial data =
     (if length data < 5 then Ret None
      else bindO (index data 0) (\<lambda>d0.
        if d0 AND 0x80 = 0 then Ret None
        else bindO (slice data 1 5) (\<lambda>v.
          if BE v \<noteq> 1 then Ret None
          else if drop_bit 4 (d0 AND 0x30) \<noteq> 0 then Ret None
          else if length data < 5 + 1 then Ret None
          else bindO (index data 5) (\<lambda>dl. let dcidLen = unat dl; off = 6 in
            if length data < off + dcidLen then Ret None
            else bindO (slice data off (off + dcidLen)) (\<lambda>dcid. let off = off + dcidLen in
              if length data < off + 1 then Ret None
              else bindO (index data off) (\<lambda>sl. let scidLen = unat sl; off = off + 1 in
                if length data < off + scidLen then Ret None
                else let off = off + scidLen in
                  bindO (varintAt data off) (\<lambda>r. case r of None \<Rightarrow> Ret None
                  | Some (off1, tokenLen) \<Rightarrow>
                      if length data < off1 + tokenLen then Ret None
                      else let off = off1 + tokenLen in
                        bindO (varintAt data off) (\<lambda>r. case r of None \<Rightarrow> Ret None
                        | Some (off2, len) \<Rightarrow>
                            if length data - off < len then Ret None
                            else if off2 + len > length data then Ret None
                            else bindO (slice data off2 (off2 + len)) (\<lambda>protected.
                              Ret (Some (off2, dcid, protected)))))))))))"

definition NewCipher_ok :: "byte list \<Rightarrow> bool" where
  "NewCipher_ok key = (length key \<in> {16, 24, 32})"

text \<open>\<open>nonce[11-i] ^= packetNumber[pnLen-1-i]\<close> for each \<open>i < pnLen\<close>.\<close>

definition packet_nonce :: "byte list \<Rightarrow> byte list \<Rightarrow> byte list" where
  "packet_nonce iv pn = fold (\<lambda>i nonce. nonce[11 - i := nonce ! (11 - i) XOR pn ! (length pn - 1 - i)])
     [0..<length pn] iv"

definition client_secret :: "crypto \<Rightarrow> byte list \<Rightarrow> byte list" where
  "client_secret c dcid = hkdfExpandLabel c (hkdfExtract c quicInitialSaltV1 dcid) ''client in'' [] 32"

definition open_initial :: "crypto \<Rightarrow> byte list \<Rightarrow> nat \<Rightarrow> byte list \<Rightarrow> byte list \<Rightarrow> byte list option" where
  "open_initial c data off dcid protected =
     (let secret = client_secret c dcid;
          key = hkdfExpandLabel c secret ''quic key'' [] 16;
          iv = hkdfExpandLabel c secret ''quic iv'' [] 12;
          hp = hkdfExpandLabel c secret ''quic hp'' [] 16 in
      if \<not> NewCipher_ok hp then None
      else
        let sampleOff = (if length protected < 4 + 16 then 0 else 4) in
        if sampleOff + 16 > length protected then None
        else
          let mask = aes_block c hp (take 16 (drop sampleOff protected));
              firstByte = data ! 0 XOR (mask ! 0 AND 0x0f);
              pnLen = unat (firstByte AND 0x03) + 1 in
          if length protected < pnLen then None
          else
            let packetNumber = map (\<lambda>i. protected ! i XOR mask ! (1 + i)) [0..<pnLen];
                nonce = packet_nonce iv packetNumber in
            if \<not> NewCipher_ok key then None
            else
              let aad = take off ((take (off + pnLen) data)[0 := firstByte]) @ packetNumber;
                  ciphertext = drop pnLen protected in
              if length ciphertext < 16 then None
              else gcm_open c key nonce ciphertext aad)"

definition extractSNI :: "crypto \<Rightarrow> byte list \<Rightarrow> string option outcome" where
  "extractSNI c data = bindO (parse_initial data) (\<lambda>r. case r of
      None \<Rightarrow> Ret None
    | Some (off, dcid, protected) \<Rightarrow>
        (case open_initial c data off dcid protected of
           None \<Rightarrow> Ret None
         | Some plaintext \<Rightarrow> parseCryptoFrames plaintext))"

section \<open>Variable-length integers: lemmas\<close>

lemma unat_low6: "unat ((b::byte) AND 0x3f) = unat b mod 64"
proof -
  have "b AND 0x3f = take_bit 6 b" by (simp add: take_bit_eq_mask mask_eq_exp_minus_1)
  then have "unat (b AND 0x3f) = take_bit 6 (unat b)" by (simp only: unsigned_take_bit_eq)
  then show ?thesis by (simp add: take_bit_eq_mod)
qed

lemma unat_top2: "unat (drop_bit 6 (b::byte)) = unat b div 64"
proof -
  have "unat (drop_bit 6 b) = drop_bit 6 (take_bit 8 (unat b))" by (simp only: unsigned_drop_bit_eq) simp
  moreover have "take_bit 8 (unat b) = unat b" using unsigned_less [of b, where 'a = nat] by (simp add: take_bit_eq_mod)
  ultimately have "unat (drop_bit 6 b) = drop_bit 6 (unat b)" by simp
  then show ?thesis by (simp add: drop_bit_eq_div)
qed

lemma or_push_nat: "b < 2 ^ k \<Longrightarrow> push_bit k a OR b = a * 2 ^ k + (b :: nat)"
proof -
  assume "b < 2 ^ k"
  then have "b = take_bit k b" by (simp add: take_bit_eq_mod)
  then have "\<not> bit b n" if "k \<le> n" for n using that by (metis bit_take_bit_iff not_le)
  then have "push_bit k a + b = push_bit k a OR b"
    by (intro disjunctive_add) (auto simp: bit_push_bit_iff)
  then show ?thesis by (simp add: push_bit_eq_mult)
qed

lemma unat_push64: "unat w * 2 ^ k < 2 ^ 64 \<Longrightarrow> unat (push_bit k (w :: 64 word)) = unat w * 2 ^ k"
proof -
  assume "unat w * 2 ^ k < 2 ^ 64"
  moreover have "unat (push_bit k w) = take_bit 64 (push_bit k (unat w))" by (simp only: unsigned_push_bit_eq) simp
  ultimately show ?thesis by (simp add: take_bit_eq_mod push_bit_eq_mult)
qed

lemma unat_ucast_byte: "unat (ucast (b :: byte) :: 64 word) = unat b"
  using unsigned_less [of b, where 'a = nat] by (simp add: unsigned_ucast_eq take_bit_eq_mod)

lemma unat_byte_less: "unat (b :: byte) < 256"
  using unsigned_less [of b, where 'a = nat] by simp

lemma unat_varint2:
  "unat (push_bit 8 (ucast ((f :: byte) AND 0x3f)) OR ucast (b :: byte) :: 64 word) = unat f mod 64 * 256 + unat b"
proof -
  let ?x = "ucast (f AND 0x3f) :: 64 word"
  have x: "unat ?x = unat f mod 64" by (simp only: unat_ucast_byte unat_low6)
  then have "unat (push_bit 8 ?x) = push_bit 8 (unat f mod 64)" by (subst unat_push64) (simp_all add: push_bit_eq_mult)
  then have "unat (push_bit 8 ?x OR ucast b) = push_bit 8 (unat f mod 64) OR unat b"
    by (simp only: unsigned_or_eq unat_ucast_byte)
  then show ?thesis using unat_byte_less [of b] or_push_nat [of "unat b" 8 "unat f mod 64"] by simp
qed

lemma unat_varint4:
  "unat (push_bit 24 (ucast ((f :: byte) AND 0x3f)) OR push_bit 16 (ucast (a :: byte))
      OR push_bit 8 (ucast (b :: byte)) OR ucast (c :: byte) :: 64 word)
   = ((unat f mod 64 * 256 + unat a) * 256 + unat b) * 256 + unat c"
proof -
  note less = unat_byte_less [of a] unat_byte_less [of b] unat_byte_less [of c]
  have m: "unat f mod 64 < 64" by simp
  have "push_bit 8 (unat b) OR unat c = unat b * 256 + unat c" using less or_push_nat [of "unat c" 8 "unat b"] by simp
  moreover have "push_bit 16 (unat a) OR (unat b * 256 + unat c) = unat a * 65536 + (unat b * 256 + unat c)"
    using less or_push_nat [of "unat b * 256 + unat c" 16 "unat a"] by simp
  moreover have "push_bit 24 (unat f mod 64) OR (unat a * 65536 + (unat b * 256 + unat c))
      = unat f mod 64 * 16777216 + (unat a * 65536 + (unat b * 256 + unat c))"
    using less or_push_nat [of "unat a * 65536 + (unat b * 256 + unat c)" 24 "unat f mod 64"] by simp
  moreover let ?x = "ucast (f AND 0x3f) :: 64 word"
  have x: "unat ?x = unat f mod 64" by (simp only: unat_ucast_byte unat_low6)
  then have "unat (push_bit 24 ?x) = push_bit 24 (unat f mod 64)" using m by (subst unat_push64) (simp_all add: push_bit_eq_mult)
  moreover have "unat (push_bit 16 (ucast a :: 64 word)) = push_bit 16 (unat a)"
    "unat (push_bit 8 (ucast b :: 64 word)) = push_bit 8 (unat b)"
    using less unat_push64 [of "ucast a" 16] unat_push64 [of "ucast b" 8]
    by (simp_all only: unat_ucast_byte) (simp_all only: push_bit_eq_mult [where 'a = nat], simp_all del: push_bit_numeral)
  ultimately have "unat (push_bit 24 ?x OR push_bit 16 (ucast a) OR push_bit 8 (ucast b) OR ucast c)
      = unat f mod 64 * 16777216 + (unat a * 65536 + (unat b * 256 + unat c))"
    by (simp only: unsigned_or_eq unat_ucast_byte)
  then show ?thesis by simp
qed

lemma BE_snoc: "BE (xs @ [b]) = BE xs * 256 + unat b"
  by (simp add: BE_def)

lemma BE_less: "BE xs < 256 ^ length xs"
proof (induction xs rule: rev_induct)
  case (snoc b xs)
  have "BE xs * 256 + unat b < (BE xs + 1) * 256" using unat_byte_less [of b] by simp
  also have "\<dots> \<le> 256 ^ length xs * 256" using snoc by (intro mult_right_mono) auto
  finally show ?case by (simp add: BE_snoc mult.commute)
qed (simp add: BE_def)

lemma unat_Uint64_low: "unat (Uint64 buf AND 0x3fffffffffffffff) = BE (take 8 buf) mod 2 ^ 62"
proof -
  have "Uint64 buf AND 0x3fffffffffffffff = take_bit 62 (Uint64 buf)" by (simp add: take_bit_eq_mask mask_eq_exp_minus_1)
  then have "unat (Uint64 buf AND 0x3fffffffffffffff) = take_bit 62 (unat (Uint64 buf))" by (simp only: unsigned_take_bit_eq)
  then show ?thesis by (simp add: Uint64_def unsigned_of_nat take_bit_eq_mod mod_mod_cancel)
qed
lemma mod_low6: "y < K \<Longrightarrow> (x * K + y) mod (64 * K) = x mod 64 * K + (y :: nat)"
  using mod_mult2_eq [of "x * K + y" K 64] by (simp add: mult.commute)

lemma readVarint_value:
  assumes "readVarint buf = (v, n)" "n \<noteq> 0"
  shows "n = 2 ^ (unat (buf ! 0) div 64)" "n \<le> length buf" "unat v = BE (take n buf) mod 2 ^ (8 * n - 2)" "n \<in> {1, 2, 4, 8}"
proof -
  define f where "f = buf ! 0"
  have ne: "buf \<noteq> []" using assms by (auto simp: readVarint_def)
  then obtain r where buf: "buf = f # r" by (cases buf) (auto simp: f_def)
  have n: "n = 2 ^ (unat f div 64)" and le: "n \<le> length buf"
    using assms ne by (auto simp: readVarint_def Let_def f_def [symmetric] unat_top2 split: if_splits)
  have "unat f div 64 < 4" using unat_byte_less [of f] by simp
  then have "unat f div 64 \<in> {0, 1, 2, 3}" by auto
  then have n4: "n \<in> {1, 2, 4, 8}" using n by auto
  have v: "v = (if n = 1 then ucast (f AND 0x3f)
           else if n = 2 then push_bit 8 (ucast (f AND 0x3f)) OR ucast (buf ! 1)
           else if n = 4 then push_bit 24 (ucast (f AND 0x3f)) OR push_bit 16 (ucast (buf ! 1))
                               OR push_bit 8 (ucast (buf ! 2)) OR ucast (buf ! 3)
           else Uint64 buf AND 0x3fffffffffffffff)"
    using assms ne n by (simp add: readVarint_def Let_def f_def [symmetric] unat_top2 split: if_splits)
  consider "n = 1" | "n = 2" | "n = 4" | "n = 8" using n4 by auto
  then have "unat v = BE (take n buf) mod 2 ^ (8 * n - 2)"
  proof cases
    case 1
    then have "v = ucast (f AND 0x3f)" using v by simp
    then have "unat v = unat f mod 64" by (simp only: unat_ucast_byte unat_low6)
    then show ?thesis using 1 by (simp add: buf BE_def)
  next
    case 2
    then obtain a s where r: "r = a # s" using le buf by (cases r) auto
    have "unat v = unat f mod 64 * 256 + unat a" using v 2 r unat_varint2 [of f a] by (simp add: buf)
    moreover have "(unat f * 256 + unat a) mod 16384 = unat f mod 64 * 256 + unat a"
      using mod_low6 [of "unat a" 256 "unat f"] unat_byte_less [of a] by simp
    ultimately show ?thesis using 2 r by (simp add: buf BE_def)
  next
    case 3
    then obtain a b c s where r: "r = a # b # c # s" using le buf
      by (auto simp: numeral_eq_Suc Suc_le_length_iff)
    have "unat v = ((unat f mod 64 * 256 + unat a) * 256 + unat b) * 256 + unat c"
      using v 3 r unat_varint4 [of f a b c] by (simp add: buf)
    moreover have "(((unat f * 256 + unat a) * 256 + unat b) * 256 + unat c) mod 1073741824
        = ((unat f mod 64 * 256 + unat a) * 256 + unat b) * 256 + unat c"
      using mod_low6 [of "(unat a * 256 + unat b) * 256 + unat c" 16777216 "unat f"]
        unat_byte_less [of a] unat_byte_less [of b] unat_byte_less [of c] by (simp add: algebra_simps)
    ultimately show ?thesis using 3 r by (simp add: buf BE_def)
  next
    case 4
    then show ?thesis using v unat_Uint64_low [of buf] by simp
  qed
  then show "n = 2 ^ (unat (buf ! 0) div 64)" "n \<le> length buf" "unat v = BE (take n buf) mod 2 ^ (8 * n - 2)" "n \<in> {1, 2, 4, 8}"
    using n le n4 by (simp_all add: f_def)
qed

lemma readVarint_bound: "unat (fst (readVarint buf)) < 2 ^ 62 \<and> snd (readVarint buf) \<le> length buf"
proof (cases "snd (readVarint buf) = 0")
  case True
  then have "readVarint buf = (0, 0)" by (auto simp: readVarint_def Let_def split: if_splits)
  then show ?thesis by simp
next
  case False
  obtain v n where r: "readVarint buf = (v, n)" by (cases "readVarint buf")
  from readVarint_value [OF r] False r have "unat v < 2 ^ (8 * n - 2)" "n \<in> {1, 2, 4, 8}" by auto
  then show ?thesis using readVarint_value(2) [OF r] False r by auto
qed

text \<open>The encoder of RFC 9000, section 16, with a length exponent \<open>p\<close>.\<close>

fun be_bytes :: "nat \<Rightarrow> nat \<Rightarrow> byte list" where
  "be_bytes 0 v = []"
| "be_bytes (Suc k) v = be_bytes k (v div 256) @ [of_nat v]"

definition varint :: "nat \<Rightarrow> nat \<Rightarrow> byte list" where
  "varint p v = be_bytes (2 ^ p) (p * 2 ^ (8 * 2 ^ p - 2) + v)"

lemma length_be_bytes [simp]: "length (be_bytes k v) = k"
  by (induction k v rule: be_bytes.induct) auto

lemma length_varint [simp]: "length (varint p v) = 2 ^ p"
  by (simp add: varint_def)

lemma BE_be_bytes: "BE (be_bytes k v) = v mod 256 ^ k"
proof (induction k v rule: be_bytes.induct)
  case (2 k v)
  have "v div 256 mod 256 ^ k * 256 + v mod 256 = v mod 256 ^ Suc k"
    using mod_mult2_eq [of v 256 "256 ^ k"] by simp
  then show ?case using 2 by (simp add: BE_snoc unat_of_nat_byte)
qed (simp add: BE_def)

lemma be_bytes_head: "be_bytes (Suc k) v ! 0 = of_nat (v div 256 ^ k)"
proof (induction k arbitrary: v)
  case (Suc k)
  have "be_bytes (Suc (Suc k)) v ! 0 = be_bytes (Suc k) (v div 256) ! 0" by (simp add: nth_append)
  then show ?case using Suc [of "v div 256"] by (simp add: div_mult2_eq)
qed simp

lemma readVarint_varint:
  assumes "p < 4" "v < 2 ^ (8 * 2 ^ p - 2)"
  shows "readVarint (varint p v @ r) = (of_nat v, 2 ^ p)"
proof -
  let ?b = "varint p v @ r"
  obtain k where k: "(2::nat) ^ p = Suc k" by (metis not0_implies_Suc power_not_zero zero_neq_numeral)
  have p4: "p \<in> {0, 1, 2, 3}" using assms(1) by auto
  have div: "(p * 2 ^ (8 * 2 ^ p - 2) + v) div 256 ^ k div 64 = p"
    and small: "(p * 2 ^ (8 * 2 ^ p - 2) + v) div 256 ^ k < 256"
    using p4 k assms(2) by auto
  have "p * 2 ^ (8 * 2 ^ p - 2) + v < 256 ^ 2 ^ p" using p4 assms(2) by auto
  then have md: "(p * 2 ^ (8 * 2 ^ p - 2) + v) mod 256 ^ 2 ^ p mod 2 ^ (8 * 2 ^ p - 2) = v"
    using assms(2) by (simp only: mod_less mod_mult_self3)
  have "?b ! 0 = of_nat ((p * 2 ^ (8 * 2 ^ p - 2) + v) div 256 ^ k)"
    by (simp add: varint_def k nth_append be_bytes_head del: be_bytes.simps)
  then have top: "unat (drop_bit 6 (?b ! 0)) = p" using div small by (simp only: unat_top2 unat_of_nat_byte mod_less)
  have "?b \<noteq> []" by (simp add: varint_def k)
  then have "snd (readVarint ?b) = 2 ^ p" using top by (simp add: readVarint_def Let_def)
  then obtain w where r: "readVarint ?b = (w, 2 ^ p)" by (metis prod.collapse)
  have "unat w = v" using readVarint_value(3) [OF r] md by (simp add: BE_be_bytes varint_def)
  moreover have "of_nat (unat w) = w" by simp
  ultimately have "w = of_nat v" by simp
  then show ?thesis using r by simp
qed

lemma varintAt_total: "off \<le> length buf \<Longrightarrow> varintAt buf off \<noteq> Panic"
  by (simp add: varintAt_def split: prod.split)

lemma varintAt_le: "varintAt buf off = Ret (Some (off', v)) \<Longrightarrow> off < off' \<and> off' \<le> length buf \<and> off' \<le> off + 8 \<and> v < 2 ^ 62"
  using readVarint_bound [of "drop off buf"] readVarint_value(4) [of "drop off buf"]
  by (auto simp: varintAt_def slice_def split: if_splits prod.splits)

lemma varintAt_varint:
  assumes "drop off buf = varint p v @ r" "p < 4" "v < 2 ^ (8 * 2 ^ p - 2)" "off \<le> length buf"
  shows "varintAt buf off = Ret (Some (off + 2 ^ p, v))"
proof -
  have "8 * 2 ^ p - 2 \<le> (62::nat)" using assms(2) by (cases p; auto simp: numeral_eq_Suc less_Suc_eq)
  then have "(2::nat) ^ (8 * 2 ^ p - 2) \<le> 2 ^ 62" by (rule power_increasing) simp
  then have "v < 2 ^ 64" using assms(3) by simp
  then have "unat (of_nat v :: 64 word) = v" by (simp add: unsigned_of_nat take_bit_eq_mod)
  moreover have "slice buf off (length buf) = Ret (drop off buf)" using assms(4) by simp
  ultimately show ?thesis using assms(1) readVarint_varint [OF assms(2,3), of r]
    by (simp only: varintAt_def bindO_simps) simp
qed

section \<open>ClientHello: lemmas\<close>

lemma quic_ext_loop_total: "quic_ext_loop exts eo \<noteq> Panic"
proof (induction "length exts - eo" arbitrary: eo rule: less_induct)
  case less
  show ?case
    unfolding quic_ext_loop.simps [of exts eo] by (intro no_panic) (auto intro!: less)
qed

lemma client_hello_message_total: "client_hello_message hs \<noteq> Panic"
  unfolding client_hello_message_def client_hello_fields_def Let_def
  by (intro no_panic) (auto simp: quic_ext_loop_total)

lemma sniFromClientHello_total: "sniFromClientHello data \<noteq> Panic"
  unfolding sniFromClientHello_def by (intro no_panic) (auto simp: client_hello_message_total)

lemma quic_ext_loop_step:
  assumes "drop eo exts = put16 t @ put16 (length d) @ d @ r" "t < 65536" "length d < 65536" "t \<noteq> 0"
  shows "quic_ext_loop exts eo = quic_ext_loop exts (eo + 4 + length d)"
proof -
  have "length exts - eo = 4 + length d + length r" using arg_cong [OF assms(1), of length] by simp
  then have len: "eo + 4 + length d \<le> length exts" by arith
  have "drop (eo + 2) exts = put16 (length d) @ d @ r"
    using arg_cong [OF assms(1), of "drop 2"] by (simp add: add.commute)
  then show ?thesis using assms len by (subst quic_ext_loop.simps) (simp add: tls_consts)
qed

lemma quic_ext_loop_host:
  assumes "drop eo exts = put16 0 @ put16 (length (server_name host)) @ server_name host @ r" "5 + length host < 65536"
  shows "quic_ext_loop exts eo = Ret (Some (string_of_bytes host))"
proof -
  have "length exts - eo = 9 + length host + length r"
    using arg_cong [OF assms(1), of length] by (simp add: server_name_def)
  then have len: "eo + 9 + length host \<le> length exts" by arith
  have d2: "drop (eo + 2) exts = put16 (length (server_name host)) @ server_name host @ r"
    using arg_cong [OF assms(1), of "drop 2"] by (simp add: add.commute)
  have d4: "drop (eo + 4) exts = server_name host @ r"
    using arg_cong [OF d2, of "drop 2"] by (simp add: add.commute numeral_eq_Suc)
  have n: "length (server_name host) = 5 + length host" by (simp add: server_name_def)
  have u: "Uint16 (take 2 (drop eo exts)) = Ret 0" "Uint16 (take 2 (drop (eo + 2) exts)) = Ret (5 + length host)"
    using assms by (simp_all only: assms(1) d2 Uint16_take n Uint16_put16 zero_less_numeral)
  have "take (5 + length host) (drop (eo + 4) exts) = server_name host" using d4 n by simp
  then show ?thesis using len u assms(2)
    by (subst quic_ext_loop.simps) (simp add: tls_consts, simp add: server_name_def)
qed

lemma quic_ext_loop_encode:
  assumes "drop eo exts = encode_exts es" "eo \<le> length exts" "length (encode_exts es) < 65536" "list_all (\<lambda>(t, _). t < 65536) es"
    "find (\<lambda>(t, _). t = 0) es = map_option (\<lambda>host. (0, server_name host)) name"
  shows "quic_ext_loop exts eo = Ret (map_option string_of_bytes name)"
  using assms
proof (induction es arbitrary: eo rule: encode_exts.induct)
  case 1
  then show ?case by (subst quic_ext_loop.simps) simp
next
  case (2 t d es)
  show ?case
  proof (cases "t = 0")
    case True
    then obtain host where "name = Some host" "d = server_name host" using 2(6) by (cases name) auto
    then show ?thesis using quic_ext_loop_host [of eo exts host "encode_exts es"] 2(2,4) True
      by (simp add: server_name_def)
  next
    case False
    have "drop (eo + 4 + length d) exts = encode_exts es"
      using arg_cong [OF 2(2), of "drop (4 + length d)"] by (simp add: add.commute add.left_commute)
    moreover have "length exts - eo = 4 + length d + length (encode_exts es)" using arg_cong [OF 2(2), of length] by simp
    ultimately have "quic_ext_loop exts (eo + 4 + length d) = Ret (map_option string_of_bytes name)"
      using 2 False by auto
    then show ?thesis using quic_ext_loop_step [of eo exts t d "encode_exts es"] 2 False by simp
  qed
qed

lemma slice_append: "xs = a @ b @ r \<Longrightarrow> lo = length a \<Longrightarrow> hi = lo + length b \<Longrightarrow> slice xs lo hi = Ret b"
  by simp

lemma index_append: "xs = a @ x # r \<Longrightarrow> i = length a \<Longrightarrow> index xs i = Ret x"
  by simp

lemma hello_body_layout:
  fixes r :: "byte list"
  assumes "wf_hello h"
  defines "s \<equiv> length (ch_session_id h)" and "c \<equiv> length (ch_cipher_suites h)"
    and "m \<equiv> length (ch_compression h)" and "e \<equiv> length (encode_exts (ch_extensions h))"
  defines "xs \<equiv> hello_body h @ r"
  shows "index xs 34 = Ret (of_nat s)" "slice xs (35 + s) (35 + s + 2) = Ret (put16 c)"
    "index xs (35 + s + 2 + c) = Ret (of_nat m)"
    "slice xs (35 + s + 2 + c + 1 + m) (35 + s + 2 + c + 1 + m + 2) = Ret (put16 e)"
    "slice xs (35 + s + 2 + c + 1 + m + 2) (35 + s + 2 + c + 1 + m + 2 + e) = Ret (encode_exts (ch_extensions h))"
    "length xs = 35 + s + 2 + c + 1 + m + 2 + e + length r"
proof -
  have v: "length (ch_version_random h) = 34" using assms(1) by (simp add: wf_hello_def)
  note x = xs_def hello_body_def append_assoc append_Cons append_Nil
  let ?p1 = "ch_version_random h @ of_nat s # ch_session_id h"
  let ?p2 = "?p1 @ put16 c @ ch_cipher_suites h"
  let ?p3 = "?p2 @ of_nat m # ch_compression h"
  show "index xs 34 = Ret (of_nat s)"
    by (rule index_append [where a = "ch_version_random h"]) (simp_all only: x s_def v)
  show "slice xs (35 + s) (35 + s + 2) = Ret (put16 c)"
    by (rule slice_append [where a = ?p1], simp only: x s_def c_def) (simp_all add: v s_def)
  show "index xs (35 + s + 2 + c) = Ret (of_nat m)"
    by (rule index_append [where a = ?p2], simp only: x s_def c_def m_def) (simp_all add: v s_def c_def)
  show "slice xs (35 + s + 2 + c + 1 + m) (35 + s + 2 + c + 1 + m + 2) = Ret (put16 e)"
    by (rule slice_append [where a = ?p3], simp only: x s_def c_def m_def e_def) (simp_all add: v s_def c_def m_def)
  show "slice xs (35 + s + 2 + c + 1 + m + 2) (35 + s + 2 + c + 1 + m + 2 + e) = Ret (encode_exts (ch_extensions h))"
    by (rule slice_append [where a = "?p3 @ put16 e"], simp only: x s_def c_def m_def e_def)
      (simp_all add: v s_def c_def m_def e_def)
  show "length xs = 35 + s + 2 + c + 1 + m + 2 + e + length r"
    by (simp add: xs_def hello_body_def v s_def c_def m_def e_def)
qed

lemma sniFromClientHello_encode:
  assumes "wf_hello h" "hello_names h name"
  shows "sniFromClientHello (encode_hello h @ trailing) = Ret (map_option string_of_bytes name)"
proof -
  have "quic_ext_loop (encode_exts (ch_extensions h)) 0 = Ret (map_option string_of_bytes name)"
    using assms quic_ext_loop_encode [of 0 "encode_exts (ch_extensions h)" "ch_extensions h" name]
    by (simp add: wf_hello_def hello_names_def)
  moreover have "length (ch_session_id h) < 256" "length (ch_cipher_suites h) < 65536"
    "length (ch_compression h) < 256" "length (encode_exts (ch_extensions h)) < 65536"
    using assms(1) by (simp_all add: wf_hello_def)
  ultimately have "client_hello_fields (hello_body h @ trailing) = Ret (map_option string_of_bytes name)"
    unfolding client_hello_fields_def Let_def
    by (simp only: hello_body_layout [OF assms(1)] bindO_simps unat_of_nat_byte mod_less Uint16_put16) simp
  then show ?thesis
    by (simp add: sniFromClientHello_def client_hello_message_def encode_hello_def put24_def hello_body_def)
qed

section \<open>Frames: lemmas\<close>

lemma skip_varints_total: "off \<le> length pt \<Longrightarrow> skip_varints k pt off \<noteq> Panic"
proof (induction k pt off rule: skip_varints.induct)
  case (2 k pt off)
  then show ?case
    by (cases "varintAt pt off") (auto simp: varintAt_total dest: varintAt_le split: option.split)
qed simp

lemma skip_varints_le: "off \<le> length pt \<Longrightarrow> skip_varints k pt off = Ret (Some off') \<Longrightarrow> off' \<le> length pt"
proof (induction k pt off rule: skip_varints.induct)
  case (2 k pt off)
  then show ?case
    by (cases "varintAt pt off") (auto dest: varintAt_le split: option.splits)
qed simp

lemma skip_padding_le: "off \<le> length pt \<Longrightarrow> skip_padding pt off \<le> length pt"
proof (induction pt off rule: skip_padding.induct)
  case (1 pt off)
  then show ?case by (subst skip_padding.simps) auto
qed

lemma bindO_skip_total:
  "off \<le> length pt \<Longrightarrow> (\<And>o'. o' \<le> length pt \<Longrightarrow> f o' \<noteq> Panic) \<Longrightarrow>
     bindO (skip_varints k pt off) (\<lambda>r. case r of None \<Rightarrow> Ret x | Some o' \<Rightarrow> f o') \<noteq> Panic"
  using skip_varints_le [of off pt k]
  by (cases "skip_varints k pt off") (auto simp: skip_varints_total split: option.split)

lemma bindO_varint_total:
  "off \<le> length pt \<Longrightarrow> (\<And>o' v. o' \<le> length pt \<Longrightarrow> f o' v \<noteq> Panic) \<Longrightarrow>
     bindO (varintAt pt off) (\<lambda>r. case r of None \<Rightarrow> Ret x | Some (o', v) \<Rightarrow> f o' v) \<noteq> Panic"
  using varintAt_le [of pt off]
  by (cases "varintAt pt off") (auto simp: varintAt_total split: option.split)

lemma ack_frame_total: "off \<le> length pt \<Longrightarrow> ack_frame t pt off \<noteq> Panic"
  unfolding ack_frame_def by (intro no_panic bindO_skip_total bindO_varint_total)

text \<open>The code compares the length of a CRYPTO frame with the bytes from its length field on, not
  with the bytes behind the field: the slice is out of bounds exactly in the gap between the two.\<close>

definition crypto_overrun :: "byte list \<Rightarrow> nat \<Rightarrow> bool" where
  "crypto_overrun pt off = (case varintAt pt off of
      Ret (Some (off1, _)) \<Rightarrow>
        (case varintAt pt off1 of
           Ret (Some (off2, dataLen)) \<Rightarrow> dataLen \<le> length pt - off1 \<and> length pt < off2 + dataLen
         | _ \<Rightarrow> False)
    | _ \<Rightarrow> False)"

lemma crypto_frame_Panic_iff: "off \<le> length pt \<Longrightarrow> crypto_frame pt off = Panic \<longleftrightarrow> crypto_overrun pt off"
proof -
  assume off: "off \<le> length pt"
  then obtain r where r: "varintAt pt off = Ret r" using varintAt_total by (metis outcome.exhaust)
  show ?thesis
  proof (cases r)
    case (Some p)
    obtain off1 v where p: "p = (off1, v)" by (cases p)
    then have "off1 \<le> length pt" using varintAt_le r Some by simp
    then obtain r' where r': "varintAt pt off1 = Ret r'" using varintAt_total by (metis outcome.exhaust)
    show ?thesis
      using r Some p r' by (cases r')
        (auto simp: crypto_frame_def crypto_overrun_def bindO_Panic_iff sniFromClientHello_total slice_def
          split: option.splits if_splits)
  qed (use r in \<open>simp add: crypto_frame_def crypto_overrun_def\<close>)
qed

lemma frame_Panic_iff:
  "off < length pt \<Longrightarrow> frame pt off = Panic \<longleftrightarrow> pt ! off = 6 \<and> crypto_overrun pt (off + 1)"
  by (auto simp: frame_def Let_def crypto_frame_Panic_iff ack_frame_total)

fun frame_starts :: "nat \<Rightarrow> byte list \<Rightarrow> nat \<Rightarrow> nat list" where
  "frame_starts 0 pt off = []"
| "frame_starts (Suc k) pt off = (if off < length pt then off # (case frame pt off of
      Ret (FrameNext off') \<Rightarrow> frame_starts k pt off' | _ \<Rightarrow> []) else [])"

lemma frame_loop_Panic_iff:
  "length pt - off \<le> k \<Longrightarrow>
     frame_loop pt off = Panic \<longleftrightarrow> list_ex (\<lambda>o'. pt ! o' = 6 \<and> crypto_overrun pt (o' + 1)) (frame_starts k pt off)"
proof (induction k pt off rule: frame_starts.induct)
  case (1 pt off)
  then show ?case by (subst frame_loop.simps) simp
next
  case (2 k pt off)
  show ?case
  proof (cases "off < length pt")
    case True
    show ?thesis
    proof (cases "frame pt off")
      case (Ret r)
      then have n: "\<not> (pt ! off = 6 \<and> crypto_overrun pt (off + 1))" using frame_Panic_iff [OF True] by auto
      show ?thesis
      proof (cases r)
        case (FrameNext off')
        then have "length pt - off' \<le> k" using Ret frame_advances [of pt off off'] 2(2) True by auto
        then show ?thesis using 2(1) [OF True Ret FrameNext] n Ret FrameNext True
          by (subst frame_loop.simps) auto
      qed (use n Ret True in \<open>subst frame_loop.simps; auto\<close>)+
    next
      case Panic
      then show ?thesis using frame_Panic_iff [OF True] True by (subst frame_loop.simps) auto
    qed
  qed (subst frame_loop.simps; simp)
qed

lemma skip_padding_run:
  "drop off pt = replicate k 0 @ x # r \<Longrightarrow> x \<noteq> 0 \<Longrightarrow> skip_padding pt off = off + k"
proof (induction k arbitrary: off)
  case 0
  then have "pt ! off = x" by (metis hd_drop_conv_nth drop_eq_Nil append_Nil list.distinct(1) list.sel(1) not_le replicate_0)
  then show ?case using 0 by (subst skip_padding.simps) auto
next
  case (Suc k)
  have "off < length pt" using Suc.prems(1) by (cases "off < length pt") auto
  moreover have "pt ! off = 0" "drop (off + 1) pt = replicate k 0 @ x # r"
    using Suc.prems(1) Cons_nth_drop_Suc [OF calculation] by auto
  ultimately show ?case using Suc.IH [of "off + 1"] Suc.prems(2) by (subst skip_padding.simps) auto
qed

section \<open>Packet protection of a client\<close>

text \<open>What a client sends (RFC 9000, section 17.2.2, and RFC 9001, section 5): a long header, the
  packet number and the sealed payload, with the first byte and the packet number masked by the
  cipher of a sample of the ciphertext.\<close>

record Initial =
  in_dcid :: "byte list"
  in_scid :: "byte list"
  in_token :: "byte list"
  in_pn :: "byte list"
  in_payload :: "byte list"
  in_token_exp :: nat
  in_length_exp :: nat

type_synonym seal_fun = "byte list \<Rightarrow> byte list \<Rightarrow> byte list \<Rightarrow> byte list \<Rightarrow> byte list"

definition crypto_ok :: "crypto \<Rightarrow> seal_fun \<Rightarrow> bool" where
  "crypto_ok c seal =
     ((\<forall>k m. length (hmac_sha256 c k m) = 32) \<and> (\<forall>k b. length (aes_block c k b) = 16) \<and>
      (\<forall>k n pt ad. length (seal k n pt ad) = length pt + 16 \<and> gcm_open c k n (seal k n pt ad) ad = Some pt))"

definition wf_initial :: "Initial \<Rightarrow> bool" where
  "wf_initial i =
     (length (in_dcid i) < 256 \<and> length (in_scid i) < 256 \<and>
      in_token_exp i < 4 \<and> length (in_token i) < 2 ^ (8 * 2 ^ in_token_exp i - 2) \<and>
      in_length_exp i < 4 \<and> length (in_pn i) + length (in_payload i) + 16 < 2 ^ (8 * 2 ^ in_length_exp i - 2) \<and>
      1 \<le> length (in_pn i) \<and> length (in_pn i) \<le> 4 \<and> 4 \<le> length (in_pn i) + length (in_payload i))"

definition initial_header :: "byte \<Rightarrow> Initial \<Rightarrow> byte list" where
  "initial_header first i = [first, 0, 0, 0, 1] @ of_nat (length (in_dcid i)) # in_dcid i
     @ of_nat (length (in_scid i)) # in_scid i @ varint (in_token_exp i) (length (in_token i)) @ in_token i
     @ varint (in_length_exp i) (length (in_pn i) + length (in_payload i) + 16)"

definition first_byte :: "Initial \<Rightarrow> byte" where
  "first_byte i = 0xC0 OR of_nat (length (in_pn i) - 1)"

definition xor_bytes :: "byte list \<Rightarrow> byte list \<Rightarrow> byte list" where
  "xor_bytes a b = map2 (\<lambda>x y. x XOR y) a b"

definition sealed_payload :: "crypto \<Rightarrow> seal_fun \<Rightarrow> Initial \<Rightarrow> byte list" where
  "sealed_payload c seal i =
     (let secret = client_secret c (in_dcid i) in
      seal (hkdfExpandLabel c secret ''quic key'' [] 16)
        (xor_bytes (hkdfExpandLabel c secret ''quic iv'' [] 12) (replicate (12 - length (in_pn i)) 0 @ in_pn i))
        (in_payload i) (initial_header (first_byte i) i @ in_pn i))"

definition header_mask :: "crypto \<Rightarrow> seal_fun \<Rightarrow> Initial \<Rightarrow> byte list" where
  "header_mask c seal i =
     aes_block c (hkdfExpandLabel c (client_secret c (in_dcid i)) ''quic hp'' [] 16)
       (take 16 (drop (4 - length (in_pn i)) (sealed_payload c seal i)))"

definition protected_part :: "crypto \<Rightarrow> seal_fun \<Rightarrow> Initial \<Rightarrow> byte list" where
  "protected_part c seal i = xor_bytes (in_pn i) (tl (header_mask c seal i)) @ sealed_payload c seal i"

definition protect :: "crypto \<Rightarrow> seal_fun \<Rightarrow> Initial \<Rightarrow> byte list" where
  "protect c seal i =
     initial_header (first_byte i XOR (header_mask c seal i ! 0 AND 0x0f)) i @ protected_part c seal i"

lemma length_hkdf_blocks: "crypto_ok c seal \<Longrightarrow> length (hkdf_blocks c prk info prev i k) = 32 * k"
  by (induction k arbitrary: prev i) (auto simp: crypto_ok_def Let_def)

lemma length_hkdfExpandLabel:
  assumes "crypto_ok c seal"
  shows "length (hkdfExpandLabel c secret label ctx len) = len"
proof -
  have "len \<le> 32 * ((len + 31) div 32)" by presburger
  then show ?thesis
    by (simp add: hkdfExpandLabel_def hkdfExpand_def Let_def length_hkdf_blocks [OF assms])
qed

lemma packet_nonce_xor:
  assumes "length iv = 12" "1 \<le> length pn" "length pn \<le> 4"
  shows "packet_nonce iv pn = xor_bytes iv (replicate (12 - length pn) 0 @ pn)"
proof -
  obtain a b c d e f g h i j k l where iv: "iv = [a, b, c, d, e, f, g, h, i, j, k, l]"
    using assms(1) by (auto simp: numeral_eq_Suc length_Suc_conv)
  have "length pn \<in> {1, 2, 3, 4}" using assms by auto
  then consider w where "pn = [w]" | w x where "pn = [w, x]" | w x y where "pn = [w, x, y]" | w x y z where "pn = [w, x, y, z]"
    by (auto simp: numeral_eq_Suc length_Suc_conv)
  then show ?thesis
    by cases (simp_all add: packet_nonce_def xor_bytes_def iv upt_rec numeral_eq_Suc)
qed

lemma first_byte_flags:
  fixes m :: byte
  assumes "length (in_pn i) \<in> {1, 2, 3, 4}"
  shows "(first_byte i XOR (m AND 0x0f)) AND 0x80 \<noteq> 0" "(first_byte i XOR (m AND 0x0f)) AND 0x30 = 0"
    "unat (first_byte i AND 0x03) + 1 = length (in_pn i)"
proof -
  have d: "(first_byte i XOR (m AND 0x0f)) AND k = (first_byte i AND k) XOR (m AND (0x0f AND k))" for k :: byte
    by (simp add: bit.conj_xor_distrib2 and.assoc)
  show "(first_byte i XOR (m AND 0x0f)) AND 0x80 \<noteq> 0" "(first_byte i XOR (m AND 0x0f)) AND 0x30 = 0"
    "unat (first_byte i AND 0x03) + 1 = length (in_pn i)"
    using assms unfolding d by (auto simp: first_byte_def)
qed

lemma wf_pn: "wf_initial i \<Longrightarrow> length (in_pn i) \<in> {1, 2, 3, 4}"
  by (auto simp: wf_initial_def)

lemma crypto_lengths:
  assumes "crypto_ok c seal" "wf_initial i"
  shows "length (sealed_payload c seal i) = length (in_payload i) + 16" "length (header_mask c seal i) = 16"
    "length (protected_part c seal i) = length (in_pn i) + length (in_payload i) + 16"
  using assms by (auto simp: sealed_payload_def header_mask_def crypto_ok_def protected_part_def
      xor_bytes_def Let_def wf_initial_def)

lemma drop_prefix: "xs = a @ b \<Longrightarrow> n = length a \<Longrightarrow> drop n xs = b"
  by simp

lemma parse_protected:
  assumes "crypto_ok c seal" "wf_initial i"
  shows "parse_initial (protect c seal i @ rest) =
    Ret (Some (length (initial_header 0 i), in_dcid i, protected_part c seal i))"
proof -
  let ?f = "first_byte i XOR (header_mask c seal i ! 0 AND 0x0f)"
  let ?D = "protect c seal i @ rest"
  let ?dn = "length (in_dcid i)" and ?sn = "length (in_scid i)" and ?tn = "length (in_token i)"
    and ?L = "length (in_pn i) + length (in_payload i) + 16"
  let ?vt = "varint (in_token_exp i) ?tn" and ?vl = "varint (in_length_exp i) ?L"
  let ?P = "protected_part c seal i"
  let ?o = "6 + ?dn + 1 + ?sn" and ?t = "2 ^ in_token_exp i :: nat" and ?l = "2 ^ in_length_exp i :: nat"
  have D: "?D = [?f, 0, 0, 0, 1] @ of_nat ?dn # in_dcid i @ of_nat ?sn # in_scid i @ ?vt @ in_token i @ ?vl @ ?P @ rest"
    by (simp add: protect_def initial_header_def)
  have w: "?dn < 256" "?sn < 256" "in_token_exp i < 4" "?tn < 2 ^ (8 * 2 ^ in_token_exp i - 2)"
    "in_length_exp i < 4" "?L < 2 ^ (8 * 2 ^ in_length_exp i - 2)"
    using assms(2) by (auto simp: wf_initial_def)
  have p: "length ?P = ?L" using crypto_lengths [OF assms] by simp
  have len: "length ?D = ?o + ?t + ?tn + ?l + ?L + length rest" unfolding D by (simp add: p)
  have i0: "index ?D 0 = Ret ?f" and i5: "index ?D 5 = Ret (of_nat ?dn)" unfolding D by simp_all
  have v: "slice ?D 1 5 = Ret [0, 0, 0, 1]" unfolding D by simp
  have dc: "slice ?D 6 (6 + ?dn) = Ret (in_dcid i)" unfolding D by simp
  have sl: "index ?D (6 + ?dn) = Ret (of_nat ?sn)"
    unfolding D by (rule index_append [where a = "[?f, 0, 0, 0, 1] @ of_nat ?dn # in_dcid i"]) simp_all
  have v1: "varintAt ?D ?o = Ret (Some (?o + ?t, ?tn))"
  proof (rule varintAt_varint [OF _ w(3,4)])
    show "drop ?o ?D = ?vt @ in_token i @ ?vl @ ?P @ rest"
      unfolding D by (rule drop_prefix [where a = "[?f, 0, 0, 0, 1] @ of_nat ?dn # in_dcid i @ of_nat ?sn # in_scid i"]) simp_all
  qed (use len in simp)
  have v2: "varintAt ?D (?o + ?t + ?tn) = Ret (Some (?o + ?t + ?tn + ?l, ?L))"
  proof (rule varintAt_varint [OF _ w(5,6)])
    show "drop (?o + ?t + ?tn) ?D = ?vl @ ?P @ rest"
      unfolding D by (rule drop_prefix [where a = "[?f, 0, 0, 0, 1] @ of_nat ?dn # in_dcid i @ of_nat ?sn # in_scid i @ ?vt @ in_token i"]) simp_all
  qed (use len in simp)
  have pr: "slice ?D (?o + ?t + ?tn + ?l) (?o + ?t + ?tn + ?l + ?L) = Ret ?P"
    unfolding D
    by (rule slice_append [where a = "[?f, 0, 0, 0, 1] @ of_nat ?dn # in_dcid i @ of_nat ?sn # in_scid i @ ?vt @ in_token i @ ?vl"])
      (simp_all add: p)
  note fl = first_byte_flags(1,2) [OF wf_pn [OF assms(2)], of "header_mask c seal i ! 0"]
  have h: "length (initial_header 0 i) = ?o + ?t + ?tn + ?l" by (simp add: initial_header_def)
  have be: "BE [0, 0, 0, 1] = 1" by (simp add: BE_def)
  have g: "\<not> length ?D < 5" "\<not> length ?D < 5 + 1" "\<not> length ?D < 6 + ?dn" "\<not> length ?D < 6 + ?dn + 1"
    "\<not> length ?D < ?o" "\<not> length ?D < ?o + ?t + ?tn" "\<not> length ?D - (?o + ?t + ?tn) < ?L"
    "\<not> length ?D < ?o + ?t + ?tn + ?l + ?L" using len by simp_all
  show ?thesis
    unfolding parse_initial_def Let_def
    by (simp only: i0 i5 v dc sl v1 v2 pr h be g fl bindO_simps if_False if_True unat_of_nat_byte mod_less w
        option.case prod.case drop_bit_of_0 simp_thms)
qed

lemma open_protected:
  assumes "crypto_ok c seal" "wf_initial i"
  shows "open_initial c (protect c seal i @ rest) (length (initial_header 0 i)) (in_dcid i) (protected_part c seal i)
    = Some (in_payload i)"
proof -
  let ?m = "header_mask c seal i" and ?P = "protected_part c seal i" and ?n = "length (in_pn i)"
  let ?f = "first_byte i XOR (?m ! 0 AND 0x0f)"
  note len = crypto_lengths [OF assms]
  have n: "1 \<le> ?n" "?n \<le> 4" "4 \<le> ?n + length (in_payload i)" using assms(2) by (auto simp: wf_initial_def)
  have xl: "length (xor_bytes (in_pn i) (tl ?m)) = ?n" using len n by (simp add: xor_bytes_def)
  then have sample: "drop 4 ?P = drop (4 - ?n) (sealed_payload c seal i)" using n by (simp add: protected_part_def)
  have d0: "(protect c seal i @ rest) ! 0 = ?f" by (simp add: protect_def initial_header_def)
  have f0: "?f XOR (?m ! 0 AND 0x0f) = first_byte i" by (simp add: xor.assoc)
  note pn1 = first_byte_flags(3) [OF wf_pn [OF assms(2)]]
  have pn: "map (\<lambda>k. ?P ! k XOR ?m ! (1 + k)) [0..<?n] = in_pn i"
    using len n xl by (intro nth_equalityI)
      (auto simp: protected_part_def nth_append, simp add: xor_bytes_def nth_tl xor.assoc)
  have hd: "length (initial_header a i) = length (initial_header b i)" for a b by (simp add: initial_header_def)
  have aad: "take (length (initial_header 0 i)) ((take (length (initial_header 0 i) + ?n) (protect c seal i @ rest))[0 := first_byte i])
      = initial_header (first_byte i) i"
    using hd [of 0 ?f]
    by (simp add: protect_def take_update_swap) (simp add: initial_header_def)
  have ct: "drop ?n ?P = sealed_payload c seal i" using xl by (simp add: protected_part_def)
  note kl = length_hkdfExpandLabel [OF assms(1)]
  have ok: "\<not> length ?P < 4 + 16" "\<not> 4 + 16 > length ?P" "\<not> length ?P < ?n" "\<not> length (sealed_payload c seal i) < 16"
    using len n by auto
  have nonce: "packet_nonce (hkdfExpandLabel c s l ctx 12) (in_pn i)
      = xor_bytes (hkdfExpandLabel c s l ctx 12) (replicate (12 - ?n) 0 @ in_pn i)" for s l ctx
    using n by (intro packet_nonce_xor) (simp_all add: kl)
  have mask: "aes_block c (hkdfExpandLabel c (client_secret c (in_dcid i)) ''quic hp'' [] 16) (take 16 (drop 4 ?P)) = ?m"
    by (simp only: sample header_mask_def)
  have opn: "gcm_open c (hkdfExpandLabel c (client_secret c (in_dcid i)) ''quic key'' [] 16)
      (xor_bytes (hkdfExpandLabel c (client_secret c (in_dcid i)) ''quic iv'' [] 12) (replicate (12 - ?n) 0 @ in_pn i))
      (sealed_payload c seal i) (initial_header (first_byte i) i @ in_pn i) = Some (in_payload i)"
    using assms(1) by (simp add: sealed_payload_def crypto_ok_def Let_def)
  show ?thesis
    unfolding open_initial_def Let_def NewCipher_ok_def
    by (simp only: kl ok if_False if_True mask d0 f0 pn1 pn nonce aad ct opn simp_thms insert_iff)
qed

lemma extractSNI_protect:
  assumes "crypto_ok c seal" "wf_initial i"
  shows "extractSNI c (protect c seal i @ rest) = parseCryptoFrames (in_payload i)"
  by (simp add: extractSNI_def parse_protected [OF assms] open_protected [OF assms])

definition crypto_bytes :: "nat \<Rightarrow> nat \<Rightarrow> nat \<Rightarrow> nat \<Rightarrow> byte list \<Rightarrow> byte list" where
  "crypto_bytes po o' pl n d = 6 # varint po o' @ varint pl n @ d"

lemma crypto_header:
  assumes "drop off pt = crypto_bytes po o' pl n d" "po < 4" "o' < 2 ^ (8 * 2 ^ po - 2)" "pl < 4" "n < 2 ^ (8 * 2 ^ pl - 2)"
  shows "off < length pt" "pt ! off = 6" "varintAt pt (off + 1) = Ret (Some (off + 1 + 2 ^ po, o'))"
    "varintAt pt (off + 1 + 2 ^ po) = Ret (Some (off + 1 + 2 ^ po + 2 ^ pl, n))"
    "drop (off + 1 + 2 ^ po + 2 ^ pl) pt = d" "length pt = off + 1 + 2 ^ po + 2 ^ pl + length d"
proof -
  have l: "length pt - off = 1 + 2 ^ po + 2 ^ pl + length d"
    using arg_cong [OF assms(1), of length] by (simp add: crypto_bytes_def)
  then show len: "off < length pt" "length pt = off + 1 + 2 ^ po + 2 ^ pl + length d" by arith+
  have d: "pt ! off = 6" "drop (off + 1) pt = varint po o' @ varint pl n @ d"
    using assms(1) Cons_nth_drop_Suc [OF len(1)] by (simp_all add: crypto_bytes_def)
  then show "pt ! off = 6" by simp
  show "varintAt pt (off + 1) = Ret (Some (off + 1 + 2 ^ po, o'))"
    using d(2) by (rule varintAt_varint) (use assms len in auto)
  have d2: "drop (off + 1 + 2 ^ po) pt = varint pl n @ d"
    using arg_cong [OF d(2), of "drop (2 ^ po)"] by (simp add: add.commute add.left_commute)
  then show "varintAt pt (off + 1 + 2 ^ po) = Ret (Some (off + 1 + 2 ^ po + 2 ^ pl, n))"
    by (rule varintAt_varint) (use assms len in auto)
  show "drop (off + 1 + 2 ^ po + 2 ^ pl) pt = d"
    using arg_cong [OF d2, of "drop (2 ^ pl)"] by (simp add: add.commute add.left_commute)
qed

lemma frame_hello:
  assumes "drop off pt = crypto_bytes po o' pl (length d) (d @ r)" "po < 4" "o' < 2 ^ (8 * 2 ^ po - 2)"
    "pl < 4" "length d < 2 ^ (8 * 2 ^ pl - 2)" "sniFromClientHello d = Ret (Some sni)" "sni \<noteq> []"
  shows "frame_loop pt off = Ret (Some sni)"
proof -
  note h = crypto_header [OF assms(1-5)]
  have "crypto_frame pt (off + 1) = Ret (FrameSNI sni)"
    unfolding crypto_frame_def using h assms(6,7) by simp
  then have "frame pt off = Ret (FrameSNI sni)" using h(1,2) by (simp add: frame_def Let_def)
  then show ?thesis using h(1) by (subst frame_loop.simps) simp
qed

lemma frame_loop_padding:
  assumes "pt = replicate k 0 @ x # r" "x \<noteq> 0"
  shows "frame_loop pt 0 = frame_loop pt k"
proof (cases k)
  case (Suc j)
  then have "drop 1 pt = replicate j 0 @ x # r" "pt ! 0 = 0" "0 < length pt" using assms by simp_all
  then have "frame pt 0 = Ret (FrameNext k)"
    using skip_padding_run [of 1 pt j x r] assms(2) Suc by (simp add: frame_def)
  then show ?thesis using \<open>0 < length pt\<close> by (subst frame_loop.simps) simp
qed simp

lemma parseCryptoFrames_hello:
  assumes "pt = replicate k 0 @ crypto_bytes po o' pl (length d) (d @ r)" "po < 4" "o' < 2 ^ (8 * 2 ^ po - 2)"
    "pl < 4" "length d < 2 ^ (8 * 2 ^ pl - 2)" "sniFromClientHello d = Ret (Some sni)" "sni \<noteq> []"
  shows "parseCryptoFrames pt = Ret (Some sni)"
proof -
  have "frame_loop pt 0 = frame_loop pt k" using assms(1) by (intro frame_loop_padding) (auto simp: crypto_bytes_def)
  moreover have "drop k pt = crypto_bytes po o' pl (length d) (d @ r)" using assms(1) by simp
  ultimately show ?thesis using frame_hello [OF _ assms(2-7)] by (simp add: parseCryptoFrames_def)
qed

lemma parseCryptoFrames_overrun:
  assumes "pt = crypto_bytes po o' pl (length d + k) d" "po < 4" "o' < 2 ^ (8 * 2 ^ po - 2)"
    "pl < 4" "length d + k < 2 ^ (8 * 2 ^ pl - 2)" "0 < k" "k \<le> 2 ^ pl"
  shows "parseCryptoFrames pt = Panic"
proof -
  have "drop 0 pt = crypto_bytes po o' pl (length d + k) d" using assms(1) by simp
  note h = crypto_header [OF this assms(2-5)]
  have "crypto_overrun pt 1" using h(3-6) assms(6,7) by (simp add: crypto_overrun_def)
  then have "frame pt 0 = Panic" using frame_Panic_iff [OF h(1)] h(2) by simp
  then show ?thesis using h(1) unfolding parseCryptoFrames_def by (subst frame_loop.simps) simp
qed

section \<open>Properties\<close>

definition sample_crypto :: crypto where
  "sample_crypto = \<lparr>hmac_sha256 = \<lambda>_ _. replicate 32 7, aes_block = \<lambda>_ _. replicate 16 9,
     gcm_open = \<lambda>_ _ ct _. Some (take (length ct - 16) ct)\<rparr>"

definition sample_seal :: seal_fun where
  "sample_seal k n pt ad = pt @ replicate 16 0"

definition sample_initial :: "byte list \<Rightarrow> Initial" where
  "sample_initial payload = \<lparr>in_dcid = [1, 2, 3, 4, 5, 6, 7, 8], in_scid = [], in_token = [], in_pn = [0, 1],
     in_payload = payload, in_token_exp = 0, in_length_exp = 1\<rparr>"

lemma sample_crypto_ok: "crypto_ok sample_crypto sample_seal"
  by (simp add: crypto_ok_def sample_crypto_def sample_seal_def)

text \<open>(C27) A QUIC v1 Initial packet, protected as RFC 9001 prescribes with any connection IDs, token
  and packet number, whose payload is padding followed by a CRYPTO frame with a well-formed
  ClientHello, yields the host of the server_name extension: key derivation, header protection
  and frame walk of \<open>extractSNI\<close> invert what the client does.\<close>

theorem quic_reads_server_name:
  assumes "crypto_ok c seal" "wf_initial i"
    "in_payload i = replicate k 0 @ crypto_bytes po o' pl (length (encode_hello h)) (encode_hello h @ r)"
    "po < 4" "o' < 2 ^ (8 * 2 ^ po - 2)" "pl < 4" "length (encode_hello h) < 2 ^ (8 * 2 ^ pl - 2)"
    "wf_hello h" "hello_names h (Some host)" "host \<noteq> []"
  shows "extractSNI c (protect c seal i @ rest) = Ret (Some (string_of_bytes host))"
proof -
  have "sniFromClientHello (encode_hello h) = Ret (Some (string_of_bytes host))"
    using sniFromClientHello_encode [OF assms(8,9), of "[]"] by simp
  then show ?thesis
    using extractSNI_protect [OF assms(1,2)] parseCryptoFrames_hello [OF assms(3-7)] assms(10) by simp
qed

theorem quic_reads_server_name_witness:
  "extractSNI sample_crypto (protect sample_crypto sample_seal
     (sample_initial (replicate 3 0 @ crypto_bytes 0 0 1 66 (encode_hello sample_hello @ []))) @ []) = Ret (Some ''a.b'')"
proof -
  let ?i = "sample_initial (replicate 3 0 @ crypto_bytes 0 0 1 (length (encode_hello sample_hello)) (encode_hello sample_hello @ []))"
  have "wf_initial ?i"
    by (simp add: wf_initial_def sample_initial_def crypto_bytes_def length_sample_hello)
  moreover have "in_payload ?i = replicate 3 0 @ crypto_bytes 0 0 1 (length (encode_hello sample_hello)) (encode_hello sample_hello @ [])"
    by (simp add: sample_initial_def)
  moreover have "string_of_bytes [97, 46, 98] = ''a.b''" by (simp add: string_of_bytes_def char_of_def bit_Suc_0_iff)
  ultimately show ?thesis
    using quic_reads_server_name [OF sample_crypto_ok, of ?i 3 0 0 1 sample_hello "[]" "[97, 46, 98]" "[]"] sample_hello_ok
    by (simp add: length_sample_hello)
qed

text \<open>The frame walk of \<open>parseCryptoFrames\<close> has exactly one way to panic: a frame it reaches is
  a CRYPTO frame whose length fits the bytes counted from its length field on, but not the bytes
  behind that field. No other input makes it panic.\<close>

theorem quic_panics_only_on_overrun:
  "parseCryptoFrames pt = Panic \<longleftrightarrow>
     list_ex (\<lambda>off. pt ! off = 6 \<and> crypto_overrun pt (off + 1)) (frame_starts (length pt) pt 0)"
  unfolding parseCryptoFrames_def by (rule frame_loop_Panic_iff) simp

text \<open>Such a packet exists for every client: a correctly protected Initial whose CRYPTO frame
  claims between one and as many extra bytes as its length field is wide makes \<open>extractSNI\<close> panic.
  The keys of an Initial are derived from the packet itself, so any sender can build it.\<close>

theorem quic_initial_panics:
  assumes "crypto_ok c seal" "wf_initial i" "in_payload i = crypto_bytes po o' pl (length d + k) d"
    "po < 4" "o' < 2 ^ (8 * 2 ^ po - 2)" "pl < 4" "length d + k < 2 ^ (8 * 2 ^ pl - 2)" "0 < k" "k \<le> 2 ^ pl"
  shows "extractSNI c (protect c seal i @ rest) = Panic"
  using extractSNI_protect [OF assms(1,2)] parseCryptoFrames_overrun [OF assms(3-9)] by simp

theorem quic_initial_panics_witness:
  "extractSNI sample_crypto (protect sample_crypto sample_seal (sample_initial (crypto_bytes 0 0 0 4 [1, 2, 3])) @ []) = Panic"
proof -
  have "wf_initial (sample_initial (crypto_bytes 0 0 0 4 [1, 2, 3]))"
    by (simp add: wf_initial_def sample_initial_def crypto_bytes_def)
  then show ?thesis
    using quic_initial_panics [OF sample_crypto_ok, of "sample_initial (crypto_bytes 0 0 0 4 [1, 2, 3])" 0 0 0 "[1, 2, 3]" 1 "[]"]
    by (simp add: sample_initial_def numeral_eq_Suc)
qed

text \<open>(C35) The TCP and the QUIC forwarder read the same name: on every well-formed ClientHello with
  a server_name extension, whatever bytes follow it, the two independent parsers return the same
  host.\<close>

theorem sni_parsers_agree:
  assumes "wf_hello h" "hello_names h (Some host)"
  shows "\<exists>sni. extractSNIFromHandshake (encode_hello h @ t) = Ret (Inr sni) \<and>
    sniFromClientHello (encode_hello h @ t') = Ret (Some sni) \<and> sni = string_of_bytes host"
  using extract_encode_name [OF assms, of t] sniFromClientHello_encode [OF assms, of t'] by simp

theorem sni_parsers_agree_witness:
  "\<exists>sni. extractSNIFromHandshake (encode_hello sample_hello @ []) = Ret (Inr sni) \<and>
    sniFromClientHello (encode_hello sample_hello @ [0, 0]) = Ret (Some sni) \<and> sni = string_of_bytes [97, 46, 98]"
  by (rule sni_parsers_agree [OF sample_hello_ok])

text \<open>QUIC variable-length integers: \<open>readVarint\<close> inverts every encoding of RFC 9000 in all four
  lengths, consumes exactly the encoded bytes, and a value is below \<open>2 ^ 62\<close> and never runs past
  the buffer whatever the input.\<close>

theorem varint_roundtrip:
  assumes "p < 4" "v < 2 ^ (8 * 2 ^ p - 2)"
  shows "readVarint (varint p v @ r) = (of_nat v, 2 ^ p) \<and>
    unat (fst (readVarint buf)) < 2 ^ 62 \<and> snd (readVarint buf) \<le> length buf"
  using readVarint_varint [OF assms] readVarint_bound by simp

theorem varint_roundtrip_witness: "readVarint (varint 1 494 @ []) = (494, 2)"
  using varint_roundtrip [of 1 494 "[]" "[]"] by simp

end
