(* ===== verification/SniServer.thy ===== *)
theory SniServer
  imports Sni Access Netguard
begin

text \<open>
  The TCP forwarder, \<open>internal/proxy/sniforward/server.go\<close>: which upstream a server name selects, what a connection's handler
  dials and sends, and the accept loop with its cap on connections.

  The resolver, the dialer and the peers are parameters.  A handler is one function from the bytes of the client to what it did;
  the accept loop, the handlers and \<open>Shutdown\<close> run concurrently and are a step relation.  Logging and deadlines are left out.
\<close>

section \<open>Choice of the upstream\<close>

record sni_Config =
  sc_Listen :: string
  sc_PanelDomain :: string
  sc_PanelBackend :: string
  sc_DialTimeout :: int
  sc_HandshakePeekTimeout :: int
  sc_MaxConcurrent :: int
  sc_Gate :: "Gate option"

definition sni_defaults :: "sni_Config \<Rightarrow> sni_Config" where
  "sni_defaults cfg = cfg\<lparr>
     sc_DialTimeout := (if sc_DialTimeout cfg \<le> 0 then 5 else sc_DialTimeout cfg),
     sc_HandshakePeekTimeout := (if sc_HandshakePeekTimeout cfg \<le> 0 then 3 else sc_HandshakePeekTimeout cfg),
     sc_Listen := (if sc_Listen cfg = [] then '':443'' else sc_Listen cfg),
     sc_MaxConcurrent := (if sc_MaxConcurrent cfg \<le> 0 then 2048 else sc_MaxConcurrent cfg)\<rparr>"

definition TrimRight :: "char \<Rightarrow> string \<Rightarrow> string" where
  "TrimRight c s = rev (dropWhile (\<lambda>x. x = c) (rev s))"

definition JoinHostPort :: "string \<Rightarrow> string \<Rightarrow> string" where
  "JoinHostPort host port = (if CHR '':'' \<in> set host then ''['' @ host @ '']:'' @ port else host @ '':'' @ port)"

text \<open>Names of the panel: the domain itself and its subdomains.\<close>

definition panel_name :: "string \<Rightarrow> string \<Rightarrow> bool" where
  "panel_name domain sni = (let panelDomain = ToLower (TrimSpace domain) in
     panelDomain \<noteq> [] \<and> (sni = panelDomain \<or> HasSuffix sni (''.'' @ panelDomain)))"

definition selectUpstream :: "sni_Config \<Rightarrow> string \<Rightarrow> string \<times> bool" where
  "selectUpstream cfg sni =
     (if sni = [] then ([], False)
      else let sni = ToLower (TrimRight (CHR ''.'') sni) in
        if CHR '':'' \<in> set sni then ([], False)
        else if ParseIP sni \<noteq> None then ([], False)
        else if panel_name (sc_PanelDomain cfg) sni then (sc_PanelBackend cfg, True)
        else (JoinHostPort sni ''443'', False))"

section \<open>One connection\<close>

text \<open>The network a handler sees: name lookup, the dialer for addresses and for the panel, whether the first write succeeds, and how many
  bytes each direction of the splice carries before it ends.\<close>

record 'c sni_net =
  nt_lookup :: "string \<Rightarrow> IP list option"
  nt_dial :: "IP \<Rightarrow> string \<Rightarrow> 'c option"
  nt_local :: "string \<Rightarrow> 'c option"
  nt_write_ok :: bool
  nt_up :: nat

text \<open>What a handler did: the names it looked up, the addresses it handed to the dialer, the panel addresses it dialled, and the bytes
  it sent upstream.  The client connection and the upstream connection are closed in every case.\<close>

record conn_trace =
  ct_asked :: "string list"
  ct_dialled :: "IP list"
  ct_local :: "string list"
  ct_sent :: "byte list"
  ct_open :: bool

definition idle_trace :: conn_trace where
  "idle_trace = \<lparr>ct_asked = [], ct_dialled = [], ct_local = [], ct_sent = [], ct_open = False\<rparr>"

definition dialUpstream :: "'c sni_net \<Rightarrow> string \<Rightarrow> bool \<Rightarrow> 'c option \<times> conn_trace" where
  "dialUpstream net upstream isLocal =
     (if isLocal then (nt_local net upstream, idle_trace\<lparr>ct_local := [upstream]\<rparr>)
      else case DialPublicContext (nt_lookup net) (nt_dial net) upstream of
          (Inl e, asked, tried) \<Rightarrow> (None, idle_trace\<lparr>ct_asked := asked, ct_dialled := tried\<rparr>)
        | (Inr conn, asked, tried) \<Rightarrow> (Some conn, idle_trace\<lparr>ct_asked := asked, ct_dialled := tried\<rparr>))"

text \<open>\<open>pipe\<close>, client to upstream: a prefix of the unread bytes.\<close>

definition pipe_up :: "'c sni_net \<Rightarrow> byte list \<Rightarrow> byte list" where
  "pipe_up net unread = take (nt_up net) unread"

text \<open>A panic of the peeker would be recovered; the connection is closed all the same.\<close>

definition handleConn :: "sni_Config \<Rightarrow> 'c sni_net \<Rightarrow> net_addr \<Rightarrow> reader \<Rightarrow> conn_trace" where
  "handleConn cfg net remote client =
     (if sc_Gate cfg \<noteq> None \<and> \<not> Allow remote (sc_Gate cfg) then idle_trace
      else case peekSNI client of
          Panic \<Rightarrow> idle_trace
        | Ret ((sni, raw, err), client) \<Rightarrow>
            if err \<noteq> None then idle_trace
            else case selectUpstream cfg sni of (upstream, isLocal) \<Rightarrow>
              if upstream = [] then idle_trace
              else (case dialUpstream net upstream isLocal of
                  (None, t) \<Rightarrow> t
                | (Some conn, t) \<Rightarrow> if \<not> nt_write_ok net then t
                    else t\<lparr>ct_sent := raw @ pipe_up net (rd_data client)\<rparr>))"

section \<open>Lemmas\<close>

lemma selectUpstream_local: "selectUpstream cfg sni = (u, True) \<Longrightarrow> u = sc_PanelBackend cfg \<and> panel_name (sc_PanelDomain cfg) (ToLower (TrimRight (CHR ''.'') sni))"
  by (auto simp: selectUpstream_def Let_def split: if_splits)

lemma selectUpstream_out:
  assumes "selectUpstream cfg sni = (u, False)" and "u \<noteq> []"
  shows "u = ToLower (TrimRight (CHR ''.'') sni) @ '':443'' \<and> CHR '':'' \<notin> set (ToLower (TrimRight (CHR ''.'') sni)) \<and>
    ParseIP (ToLower (TrimRight (CHR ''.'') sni)) = None \<and> \<not> panel_name (sc_PanelDomain cfg) (ToLower (TrimRight (CHR ''.'') sni))"
  using assms by (auto simp: selectUpstream_def Let_def JoinHostPort_def split: if_splits)

lemma SplitHostPort_443:
  assumes "SplitHostPort (h @ '':443'') = Some (x, p)"
  shows "p = ''443''"
proof -
  have "takeWhile (\<lambda>c. c \<noteq> CHR '':'') (rev (h @ '':443'')) = ''344''" by simp
  then have "last_colon (h @ '':443'') = Some (length h)" by (simp add: last_colon_def)
  then show ?thesis using assms by (auto simp: SplitHostPort_def split_at_def Let_def split: if_splits)
qed

lemma DialPublicContext_frame:
  assumes "DialPublicContext lookup dial address = (r, asked, tried)"
  shows "list_all IsPublicIP tried" "length asked \<le> 1"
    and "(\<And>host port. SplitHostPort address = Some (host, port) \<Longrightarrow> port = q) \<Longrightarrow>
      DialPublicContext lookup (\<lambda>ip port. if port = q then dial ip port else None) address = (r, asked, tried)"
proof -
  have "list_all IsPublicIP tried \<and> length asked \<le> 1 \<and> ((\<forall>host port. SplitHostPort address = Some (host, port) \<longrightarrow> port = q) \<longrightarrow>
      DialPublicContext lookup (\<lambda>ip port. if port = q then dial ip port else None) address = (r, asked, tried))"
  proof (cases "SplitHostPort address")
    case None
    then show ?thesis using assms by (auto simp: DialPublicContext_def)
  next
    case (Some hp)
    obtain host port where hp: "hp = (host, port)" by fastforce
    obtain res ask where res: "ResolvePublic lookup host = (res, ask)" by fastforce
    have same: "dial_loop (\<lambda>ip port. if port = q then dial ip port else None) q ips = dial_loop dial q ips" for ips
      by (induction ips) (simp_all split: option.split)
    have loop: "list_all IsPublicIP t" if "res = Inr ips" "dial_loop dial port ips = (c, t)" for ips c t
      using ResolvePublic_ok(2) [OF res [unfolded that(1)]] dial_loop_tried [OF that(2)] by (auto simp: prefix_def)
    show ?thesis using assms Some hp res ResolvePublic_asked [of lookup host] same loop
      by (auto simp: DialPublicContext_def split: sum.splits prod.splits option.splits)
  qed
  then show "list_all IsPublicIP tried" "length asked \<le> 1"
    "(\<And>host port. SplitHostPort address = Some (host, port) \<Longrightarrow> port = q) \<Longrightarrow>
      DialPublicContext lookup (\<lambda>ip port. if port = q then dial ip port else None) address = (r, asked, tried)" by blast+
qed

text \<open>(C16) What the TCP forwarder does for one connection, whatever the client sends, the resolver answers and the dialer does.  Both
  connections are closed in the end.  A client the gate does not admit causes no lookup, no dial and no byte.  Every dialled address
  is public and at most one name is looked up; a panel name goes to the panel backend and nowhere else, any other name never to
  the panel; no port but 443 is dialled outside (refusing all others changes nothing).  The bytes sent upstream are a prefix of what the client
  sent.\<close>

theorem forwarded_connection_guarded:
  assumes "handleConn cfg net remote client = t"
  shows "\<not> ct_open t \<and> list_all IsPublicIP (ct_dialled t) \<and> length (ct_asked t) \<le> 1 \<and> prefix (ct_sent t) (rd_data client) \<and>
    (sc_Gate cfg \<noteq> None \<and> \<not> Allow remote (sc_Gate cfg) \<longrightarrow> t = idle_trace) \<and>
    (ct_local t \<noteq> [] \<longrightarrow> ct_local t = [sc_PanelBackend cfg] \<and> ct_dialled t = [] \<and> ct_asked t = [] \<and>
       (\<exists>sni raw r. peekSNI client = Ret ((sni, raw, None), r) \<and> panel_name (sc_PanelDomain cfg) (ToLower (TrimRight (CHR ''.'') sni)))) \<and>
    handleConn cfg (net\<lparr>nt_dial := (\<lambda>ip port. if port = ''443'' then nt_dial net ip port else None)\<rparr>) remote client = t"
proof -
  let ?n = "net\<lparr>nt_dial := (\<lambda>ip port. if port = ''443'' then nt_dial net ip port else None)\<rparr>"
  obtain sni raw err r where p: "peekSNI client = Ret ((sni, raw, err), r)" "err = None \<Longrightarrow> raw @ rd_data r = rd_data client"
    using peek_replays [of client] by blast
  have idle: ?thesis if "t = idle_trace" "handleConn cfg ?n remote client = idle_trace" using that by (simp add: idle_trace_def)
  show ?thesis
  proof (cases "(sc_Gate cfg \<noteq> None \<and> \<not> Allow remote (sc_Gate cfg)) \<or> err \<noteq> None \<or> fst (selectUpstream cfg sni) = []")
    case True
    then show ?thesis using assms p(1) by (intro idle) (auto simp: handleConn_def split: prod.splits)
  next
    case False
    then obtain u l where u: "selectUpstream cfg sni = (u, l)" "u \<noteq> []" by (cases "selectUpstream cfg sni") auto
    have run: "handleConn cfg m remote client = (case dialUpstream m u l of (None, t) \<Rightarrow> t
        | (Some conn, t) \<Rightarrow> if \<not> nt_write_ok m then t else t\<lparr>ct_sent := raw @ pipe_up m (rd_data r)\<rparr>)" for m :: "'a sni_net"
      using False p(1) u by (auto simp: handleConn_def)
    have sent: "prefix (raw @ pipe_up net (rd_data r)) (rd_data client)"
    proof -
      have "raw @ rd_data r = rd_data client" using p(2) False by blast
      then show ?thesis by (simp add: pipe_up_def take_is_prefix flip: \<open>raw @ rd_data r = rd_data client\<close>)
    qed
    show ?thesis
    proof (cases l)
      case True
      then show ?thesis using assms run u selectUpstream_local [of cfg sni u] p False sent
        by (auto simp: dialUpstream_def idle_trace_def pipe_up_def split: option.splits)
    next
      case out: False
      obtain x asked tried where d: "DialPublicContext (nt_lookup net) (nt_dial net) u = (x, asked, tried)" by (metis prod_cases3)
      have "u = ToLower (TrimRight (CHR ''.'') sni) @ '':443''" using selectUpstream_out [of cfg sni u] u out by simp
      then have port: "SplitHostPort u = Some (host, port) \<Longrightarrow> port = ''443''" for host port using SplitHostPort_443 by blast
      note f = DialPublicContext_frame(1,2) [OF d] DialPublicContext_frame(3) [OF d port]
      show ?thesis using assms run out d f sent False by (auto simp: dialUpstream_def idle_trace_def pipe_up_def split: sum.splits)
    qed
  qed
qed

definition sample_sni_config :: sni_Config where
  "sample_sni_config = sni_defaults \<lparr>sc_Listen = [], sc_PanelDomain = ''panel.test'', sc_PanelBackend = ''127.0.0.1:8444'', sc_DialTimeout = 0,
     sc_HandshakePeekTimeout = 0, sc_MaxConcurrent = 0, sc_Gate = None\<rparr>"

definition sample_sni_net :: "unit sni_net" where
  "sample_sni_net = \<lparr>nt_lookup = (\<lambda>n. if n = ''a.b'' then Some [[8, 8, 8, 8]] else None), nt_dial = (\<lambda>_ _. Some ()), nt_local = (\<lambda>_. Some ()),
     nt_write_ok = True, nt_up = 2\<rparr>"

definition sample_client :: reader where
  "sample_client = \<lparr>rd_data = tls_record (encode_hello sample_hello) @ [23, 3, 3], rd_err = ''EOF''\<rparr>"

lemma sample_peek: "peekSNI sample_client = Ret ((''a.b'', tls_record (encode_hello sample_hello), None), \<lparr>rd_data = [23, 3, 3], rd_err = ''EOF''\<rparr>)"
proof -
  have "string_of_bytes [97, 46, 98] = ''a.b''" by (simp add: string_of_bytes_def char_of_def bit_Suc_0_iff)
  then have "extractSNIFromHandshake (encode_hello sample_hello) = Ret (Inr ''a.b'')"
    using extract_encode_name [OF sample_hello_ok, of "[]"] by simp
  then show ?thesis
    using length_sample_hello by (simp add: sample_client_def peekSNI_def ReadFull_def tls_consts Let_def tls_record_def)
qed

theorem forwarded_connection_guarded_witness:
  "\<exists>t. handleConn sample_sni_config sample_sni_net NilAddr sample_client = t \<and> ct_asked t = [''a.b''] \<and> ct_dialled t = [[8, 8, 8, 8]] \<and>
     ct_sent t = tls_record (encode_hello sample_hello) @ [23, 3] \<and> list_all IsPublicIP (ct_dialled t) \<and> \<not> ct_open t"
proof -
  have "handleConn sample_sni_config sample_sni_net NilAddr sample_client =
    \<lparr>ct_asked = [''a.b''], ct_dialled = [[8, 8, 8, 8]], ct_local = [], ct_sent = tls_record (encode_hello sample_hello) @ [23, 3], ct_open = False\<rparr>"
  proof -
    have "selectUpstream sample_sni_config ''a.b'' = (''a.b:443'', False)"
      "DialPublicContext (nt_lookup sample_sni_net) (nt_dial sample_sni_net) ''a.b:443'' = (Inr (), [''a.b''], [[8, 8, 8, 8]])"
      by code_simp+
    moreover have "sc_Gate sample_sni_config = None" by code_simp
    ultimately show ?thesis
      by (simp add: handleConn_def sample_peek dialUpstream_def idle_trace_def pipe_up_def) (simp add: sample_sni_net_def)
  qed
  then show ?thesis using forwarded_connection_guarded [OF refl, of sample_sni_config sample_sni_net NilAddr sample_client] by simp
qed

text \<open>An address literal as a server name is refused, but one in brackets or with a space is not recognised as one; the guard still admits public
  addresses only.\<close>

lemma bracketed_ip_forwarded:
  "selectUpstream sample_sni_config ''8.8.8.8'' = ([], False)"
  "selectUpstream sample_sni_config ''[8.8.8.8]'' = (''[8.8.8.8]:443'', False)"
  "DialPublicContext (\<lambda>_. None) (\<lambda>ip port. Some ()) ''[8.8.8.8]:443'' = (Inr (), [], [[0,0,0,0,0,0,0,0,0,0,255,255,8,8,8,8]])"
  by code_simp+

section \<open>The accept loop\<close>

text \<open>The connections of the running handlers hold the slots of the semaphore; \<open>sv_closed_conns\<close> are the connections that were closed.\<close>

record sni_Server =
  sv_loop :: bool
  sv_listening :: bool
  sv_closed :: bool
  sv_busy :: "nat list"
  sv_closed_conns :: "nat set"
  sv_next :: nat

definition sni_New :: sni_Server where
  "sni_New = \<lparr>sv_loop = False, sv_listening = False, sv_closed = False, sv_busy = [], sv_closed_conns = {}, sv_next = 0\<rparr>"

definition sni_Start :: "sni_Server \<Rightarrow> sni_Server" where
  "sni_Start s = s\<lparr>sv_listening := True, sv_loop := True\<rparr>"

text \<open>One round of \<open>acceptLoop\<close> with a connection: a slot and a handler, or an immediate close.\<close>

definition accept_conn :: "sni_Config \<Rightarrow> sni_Server \<Rightarrow> sni_Server" where
  "accept_conn cfg s = (let conn = sv_next s; s = s\<lparr>sv_next := Suc conn\<rparr> in
     if int (length (sv_busy s)) < sc_MaxConcurrent cfg then s\<lparr>sv_busy := conn # sv_busy s\<rparr>
     else s\<lparr>sv_closed_conns := insert conn (sv_closed_conns s)\<rparr>)"

definition conn_done :: "nat \<Rightarrow> sni_Server \<Rightarrow> sni_Server" where
  "conn_done conn s = s\<lparr>sv_busy := remove1 conn (sv_busy s), sv_closed_conns := insert conn (sv_closed_conns s)\<rparr>"

inductive sni_step :: "sni_Config \<Rightarrow> sni_Server \<Rightarrow> sni_Server \<Rightarrow> bool" for cfg :: sni_Config where
  accepts: "sv_loop s \<Longrightarrow> sv_listening s \<Longrightarrow> sni_step cfg s (accept_conn cfg s)"
| handler_returns: "conn \<in> set (sv_busy s) \<Longrightarrow> sni_step cfg s (conn_done conn s)"
| shutdown_marks: "\<not> sv_closed s \<Longrightarrow> sni_step cfg s (s\<lparr>sv_closed := True\<rparr>)"
| shutdown_closes: "sv_closed s \<Longrightarrow> sv_listening s \<Longrightarrow> sni_step cfg s (s\<lparr>sv_listening := False\<rparr>)"
| loop_returns: "sv_loop s \<Longrightarrow> \<not> sv_listening s \<Longrightarrow> sni_step cfg s (s\<lparr>sv_loop := False\<rparr>)"

inductive_cases sni_stepE: "sni_step cfg s s'"

inductive sni_reachable :: "sni_Config \<Rightarrow> sni_Server \<Rightarrow> bool" for cfg :: sni_Config where
  started: "sni_reachable cfg (sni_Start sni_New)"
| stepped: "sni_reachable cfg s \<Longrightarrow> sni_step cfg s s' \<Longrightarrow> sni_reachable cfg s'"

definition sni_inv :: "sni_Config \<Rightarrow> sni_Server \<Rightarrow> bool" where
  "sni_inv cfg s = (int (length (sv_busy s)) \<le> sc_MaxConcurrent cfg \<and> distinct (sv_busy s) \<and> set (sv_busy s) \<inter> sv_closed_conns s = {} \<and>
     set (sv_busy s) \<union> sv_closed_conns s = {..<sv_next s} \<and> (sv_listening s \<longrightarrow> sv_loop s) \<and> (\<not> sv_listening s \<longrightarrow> sv_closed s))"

lemma accept_inv: "sni_inv cfg s \<Longrightarrow> sni_inv cfg (accept_conn cfg s)"
proof -
  assume i: "sni_inv cfg s"
  then have "sv_next s \<notin> set (sv_busy s)" "sv_next s \<notin> sv_closed_conns s" unfolding sni_inv_def by blast+
  moreover have "insert (sv_next s) {..<sv_next s} = {..<Suc (sv_next s)}" by auto
  ultimately show ?thesis using i by (auto simp: sni_inv_def accept_conn_def Let_def)
qed

lemma conn_done_inv: "sni_inv cfg s \<Longrightarrow> conn \<in> set (sv_busy s) \<Longrightarrow> sni_inv cfg (conn_done conn s)"
proof -
  assume i: "sni_inv cfg s" and c: "conn \<in> set (sv_busy s)"
  then have "set (remove1 conn (sv_busy s)) = set (sv_busy s) - {conn}" by (simp add: sni_inv_def)
  moreover have "length (remove1 conn (sv_busy s)) \<le> length (sv_busy s)" by (simp add: length_remove1)
  ultimately show ?thesis using i c unfolding sni_inv_def conn_done_def by (simp, blast)
qed

lemma sni_step_inv: "sni_step cfg s s' \<Longrightarrow> sni_inv cfg s \<Longrightarrow> sni_inv cfg s'"
  by (induction rule: sni_step.induct) (auto simp: accept_inv conn_done_inv, auto simp: sni_inv_def)



end
