(* ===== verification/QuicServer.thy ===== *)
theory QuicServer
  imports Quic SniServer "HOL-Library.Multiset"
begin

text \<open>
  The QUIC forwarder, \<open>internal/proxy/quicforward/server.go\<close>: the table of sessions, the accounting of pending and established ones,
  and the goroutines that share them.

  The read loop, the workers that set up and relay sessions, the collector of idle sessions and \<open>Shutdown\<close> run concurrently.  A
  section under \<open>resourceMu\<close>, an operation on the session map, and a stretch that touches no shared state is one step of the relation
  \<open>qstep\<close>; the goroutines are a multiset of program points.  Sockets have numbers, a session is identified by its socket (the code
  compares pointers), and the bytes relayed are left out.  The resolver and the address of the panel are parameters, and every
  outcome of the network is possible.  Time only enters the choice of idle sessions.
\<close>

section \<open>Addresses\<close>

fun hex_text :: "nat \<Rightarrow> string" where
  "hex_text n = (if n < 16 then [''0123456789abcdef'' ! n] else hex_text (n div 16) @ [''0123456789abcdef'' ! (n mod 16)])"

fun join_with :: "string \<Rightarrow> string list \<Rightarrow> string" where
  "join_with sep [] = []"
| "join_with sep [w] = w"
| "join_with sep (w # ws) = w @ sep @ join_with sep ws"

fun groups16 :: "byte list \<Rightarrow> nat list" where
  "groups16 (a # b # r) = (256 * unat a + unat b) # groups16 r"
| "groups16 _ = []"

text \<open>The longest run of at least two zero groups, the first of equal ones: start and end.\<close>

definition zero_run :: "nat list \<Rightarrow> (nat \<times> nat) option" where
  "zero_run gs = fold (\<lambda>i best. let l = length (takeWhile (\<lambda>g. g = 0) (drop i gs)) in
     if l \<ge> 2 \<and> l > (case best of None \<Rightarrow> 0 | Some (a, b) \<Rightarrow> b - a) then Some (i, i + l) else best) [0..<length gs] None"

definition v6_text :: "byte list \<Rightarrow> string" where
  "v6_text ip = (let gs = groups16 ip; tx = (\<lambda>xs. join_with '':'' (map hex_text xs)) in
     case zero_run gs of None \<Rightarrow> tx gs | Some (a, b) \<Rightarrow> tx (take a gs) @ ''::'' @ tx (drop b gs))"

definition IP_String :: "IP \<Rightarrow> string" where
  "IP_String ip = (if ip = [] then ''<nil>''
     else if length ip \<noteq> 4 \<and> length ip \<noteq> 16 then ''?'' @ concat (map (\<lambda>b. [''0123456789abcdef'' ! (unat b div 16), ''0123456789abcdef'' ! (unat b mod 16)]) ip)
     else case To4 ip of Some v4 \<Rightarrow> join_with ''.'' (map (\<lambda>b. itoa (int (unat b))) v4) | None \<Rightarrow> v6_text ip)"

record udp_addr =
  ua_IP :: IP
  ua_Port :: int
  ua_Zone :: string

definition UDPAddr_String :: "udp_addr \<Rightarrow> string" where
  "UDPAddr_String a = (let ip = (if ua_IP a = [] then [] else IP_String (ua_IP a)) in
     JoinHostPort (if ua_Zone a \<noteq> [] then ip @ ''%'' @ ua_Zone a else ip) (itoa (ua_Port a)))"

definition normalizedIP :: "IP \<Rightarrow> string" where
  "normalizedIP ip = (case To4 ip of Some v4 \<Rightarrow> IP_String v4 | None \<Rightarrow> IP_String ip)"

section \<open>Configuration and state\<close>

definition defaultMaxSessions :: int where "defaultMaxSessions = 2048"
definition defaultMaxSessionsPerIP :: int where "defaultMaxSessionsPerIP = 64"
definition defaultMaxConcurrentSetups :: int where "defaultMaxConcurrentSetups = 128"

record quic_Config =
  qc_Listen :: string
  qc_PanelDomain :: string
  qc_PanelBackend :: string
  qc_IdleTimeout :: int
  qc_MaxSessions :: int
  qc_MaxSessionsPerIP :: int
  qc_MaxConcurrentSetups :: int
  qc_Gate :: bool

record quic_session =
  qn_clientAddr :: udp_addr
  qn_backend :: nat
  qn_sni :: string
  qn_resourceIP :: string
  qn_lastActivity :: int

record quic_Server =
  qs_sessions :: "string \<Rightarrow> quic_session option"
  qs_closed :: bool
  qs_pending :: "string \<Rightarrow> string option"
  qs_reserved :: int
  qs_perIP :: "string \<Rightarrow> int option"

definition quic_defaults :: "quic_Config \<Rightarrow> quic_Config" where
  "quic_defaults cfg = cfg\<lparr>
     qc_Listen := (if qc_Listen cfg = [] then '':443'' else qc_Listen cfg),
     qc_IdleTimeout := (if qc_IdleTimeout cfg \<le> 0 then 5 * 60 else qc_IdleTimeout cfg),
     qc_MaxSessions := (if qc_MaxSessions cfg \<le> 0 then defaultMaxSessions else qc_MaxSessions cfg),
     qc_MaxSessionsPerIP := (if qc_MaxSessionsPerIP cfg \<le> 0 then defaultMaxSessionsPerIP else qc_MaxSessionsPerIP cfg),
     qc_MaxConcurrentSetups := (if qc_MaxConcurrentSetups cfg \<le> 0 then defaultMaxConcurrentSetups else qc_MaxConcurrentSetups cfg)\<rparr>"

definition quic_New :: quic_Server where
  "quic_New = \<lparr>qs_sessions = (\<lambda>_. None), qs_closed = False, qs_pending = (\<lambda>_. None), qs_reserved = 0, qs_perIP = (\<lambda>_. None)\<rparr>"

section \<open>Accounting\<close>

text \<open>Reading a missing key of a Go map gives the zero value.\<close>

definition ip_count :: "string \<Rightarrow> quic_Server \<Rightarrow> int" where
  "ip_count ip s = (case qs_perIP s ip of None \<Rightarrow> 0 | Some n \<Rightarrow> n)"

definition pending_ip :: "string \<Rightarrow> quic_Server \<Rightarrow> string" where
  "pending_ip key s = (case qs_pending s key of None \<Rightarrow> [] | Some ip \<Rightarrow> ip)"

definition tryReserveSession :: "quic_Config \<Rightarrow> string \<Rightarrow> string \<Rightarrow> quic_Server \<Rightarrow> bool \<times> quic_Server" where
  "tryReserveSession cfg key resourceIP s =
     (if qs_closed s \<or> key = [] \<or> resourceIP = [] then (False, s)
      else if qs_pending s key \<noteq> None then (False, s)
      else if qs_sessions s key \<noteq> None then (False, s)
      else if int (card (dom (qs_pending s))) \<ge> qc_MaxConcurrentSetups cfg \<or> qs_reserved s \<ge> qc_MaxSessions cfg then (False, s)
      else if ip_count resourceIP s \<ge> qc_MaxSessionsPerIP cfg then (False, s)
      else (True, s\<lparr>qs_pending := (qs_pending s)(key \<mapsto> resourceIP), qs_reserved := qs_reserved s + 1,
                    qs_perIP := (qs_perIP s)(resourceIP \<mapsto> ip_count resourceIP s + 1)\<rparr>))"

definition releaseCountLocked :: "string \<Rightarrow> quic_Server \<Rightarrow> quic_Server" where
  "releaseCountLocked resourceIP s = (let n = ip_count resourceIP s in
     s\<lparr>qs_reserved := (if qs_reserved s > 0 then qs_reserved s - 1 else qs_reserved s),
       qs_perIP := (if n > 1 then (qs_perIP s)(resourceIP \<mapsto> n - 1) else (qs_perIP s)(resourceIP := None))\<rparr>)"

definition promoteSession :: "string \<Rightarrow> string \<Rightarrow> quic_session \<Rightarrow> quic_Server \<Rightarrow> bool \<times> quic_Server" where
  "promoteSession key resourceIP sess s =
     (if pending_ip key s \<noteq> resourceIP then (False, s)
      else let s = s\<lparr>qs_pending := (qs_pending s)(key := None)\<rparr> in
        if qs_closed s then (False, releaseCountLocked resourceIP s)
        else (True, s\<lparr>qs_sessions := (qs_sessions s)(key \<mapsto> sess)\<rparr>))"

definition releasePending :: "string \<Rightarrow> string \<Rightarrow> quic_Server \<Rightarrow> quic_Server" where
  "releasePending key resourceIP s =
     (if pending_ip key s \<noteq> resourceIP then s
      else releaseCountLocked resourceIP (s\<lparr>qs_pending := (qs_pending s)(key := None)\<rparr>))"

definition releaseEstablished :: "string \<Rightarrow> quic_Server \<Rightarrow> quic_Server" where
  "releaseEstablished resourceIP s = releaseCountLocked resourceIP s"

text \<open>The first half of \<open>dropSession\<close>: \<open>CompareAndDelete\<close> of the session with that socket.  Its address is what is released after.\<close>

definition take_session :: "string \<Rightarrow> nat \<Rightarrow> quic_Server \<Rightarrow> string option \<times> quic_Server" where
  "take_session key sock s = (case qs_sessions s key of
      Some sess \<Rightarrow> if qn_backend sess = sock then (Some (qn_resourceIP sess), s\<lparr>qs_sessions := (qs_sessions s)(key := None)\<rparr>) else (None, s)
    | None \<Rightarrow> (None, s))"

definition touch :: "string \<Rightarrow> nat \<Rightarrow> int \<Rightarrow> quic_Server \<Rightarrow> quic_Server" where
  "touch key sock now s = (case qs_sessions s key of
      Some sess \<Rightarrow> if qn_backend sess = sock then s\<lparr>qs_sessions := (qs_sessions s)(key \<mapsto> sess\<lparr>qn_lastActivity := now\<rparr>)\<rparr> else s
    | None \<Rightarrow> s)"

text \<open>The sessions \<open>reapIdle\<close> drops.\<close>

definition idle :: "quic_Config \<Rightarrow> int \<Rightarrow> quic_Server \<Rightarrow> string \<times> nat \<Rightarrow> bool" where
  "idle cfg now s ref = (case qs_sessions s (fst ref) of
      Some sess \<Rightarrow> qn_backend sess = snd ref \<and> now - qn_lastActivity sess > qc_IdleTimeout cfg
    | None \<Rightarrow> False)"

section \<open>Setting up a session\<close>

record quic_net =
  qv_lookup :: "string \<Rightarrow> IP list option"
  qv_panel :: "string \<Rightarrow> udp_addr option"

definition resolveUpstream :: "quic_Config \<Rightarrow> quic_net \<Rightarrow> string \<Rightarrow> (udp_addr \<times> bool) option" where
  "resolveUpstream cfg net sni = (let sni = ToLower (TrimRight (CHR ''.'') sni) in
     if sni = [] then None
     else if CHR '':'' \<in> set sni then None
     else if ParseIP sni \<noteq> None then None
     else if panel_name (qc_PanelDomain cfg) sni then
       (if qc_PanelBackend cfg = [] then None else map_option (\<lambda>a. (a, True)) (qv_panel net (qc_PanelBackend cfg)))
     else case fst (ResolvePublic (qv_lookup net) sni) of
         Inl e \<Rightarrow> None
       | Inr ips \<Rightarrow> (case List.map_filter To4 ips of
             [] \<Rightarrow> None
           | v4 # _ \<Rightarrow> Some (\<lparr>ua_IP = v4, ua_Port = 443, ua_Zone = []\<rparr>, False)))"

text \<open>\<open>setupSession\<close> up to the dial: the name and the upstream, nothing, or a panic of the parser.\<close>

definition setup_target :: "quic_Config \<Rightarrow> crypto \<Rightarrow> quic_net \<Rightarrow> Gate option \<Rightarrow> bool \<Rightarrow> byte list \<Rightarrow> udp_addr \<Rightarrow> (string \<times> udp_addr) option outcome" where
  "setup_target cfg c net gate closed first clientAddr =
     (if closed then Ret None
      else if qc_Gate cfg \<and> \<not> Allow (UDPAddr (Some (ua_IP clientAddr))) gate then Ret None
      else case extractSNI c first of
          Panic \<Rightarrow> Panic
        | Ret None \<Rightarrow> Ret None
        | Ret (Some sni) \<Rightarrow>
            if sni = [] then Ret None
            else (case resolveUpstream cfg net sni of None \<Rightarrow> Ret None | Some (upstream, isLocal) \<Rightarrow> Ret (Some (sni, upstream))))"

section \<open>Goroutines\<close>

text \<open>\<open>Refused\<close> and \<open>Detached\<close> hold a socket that they have still to close; \<open>Detached\<close> and \<open>Releasing\<close> have taken a session out of the table
  and still owe its unit of the counters.\<close>

datatype worker =
    Setting "byte list" udp_addr string string
  | Dialing "byte list" udp_addr string string "Gate option" quic_net string udp_addr
  | Dialled string string quic_session
  | Refused string string nat
  | Abandoning string string
  | Relaying string nat
  | Dropping "(string \<times> nat) list"
  | Detached nat string "(string \<times> nat) list"
  | Releasing string "(string \<times> nat) list"

text \<open>What a socket was opened for: the client, its first datagram, the gate and the answers of the resolver at that time, the name and the peer.\<close>

record quic_socket =
  so_client :: udp_addr
  so_first :: "byte list"
  so_gate :: "Gate option"
  so_net :: quic_net
  so_sni :: string
  so_peer :: udp_addr

datatype shutdown_phase = Up | Closing | Unbound | Snapshotted

datatype collector = Waiting | Scanning | Ended

record quic_world =
  qw_srv :: quic_Server
  qw_workers :: "worker multiset"
  qw_sockets :: "nat \<Rightarrow> quic_socket option"
  qw_next :: nat
  qw_gate :: "Gate option"
  qw_reading :: bool
  qw_collecting :: collector
  qw_phase :: shutdown_phase
  qw_crashed :: bool

text \<open>A worker moves from one program point to the next, or ends.\<close>

definition moves :: "worker \<Rightarrow> worker multiset \<Rightarrow> quic_world \<Rightarrow> quic_world" where
  "moves x new w = w\<lparr>qw_workers := qw_workers w - {#x#} + new\<rparr>"

definition close_socket :: "nat \<Rightarrow> quic_world \<Rightarrow> quic_world" where
  "close_socket n w = w\<lparr>qw_sockets := (qw_sockets w)(n := None)\<rparr>"

text \<open>Steps that need a failure of the network (a dial that fails, a write that fails, a read of a backend that fails although its socket is open) are
  possible only with \<open>faults\<close>.  A relay whose socket is open and that nothing fails waits in its read.\<close>

inductive qstep :: "bool \<Rightarrow> quic_Config \<Rightarrow> crypto \<Rightarrow> quic_world \<Rightarrow> quic_world \<Rightarrow> bool" for faults :: bool and cfg :: quic_Config and c :: crypto where
  read_hot: "\<not> qw_crashed w \<Longrightarrow> qw_reading w \<Longrightarrow> qs_sessions (qw_srv w) (UDPAddr_String a) = Some sess \<Longrightarrow>
    qstep faults cfg c w (w\<lparr>qw_srv := touch (UDPAddr_String a) (qn_backend sess) now (qw_srv w)\<rparr>)"
| read_refused: "\<not> qw_crashed w \<Longrightarrow> qw_reading w \<Longrightarrow> tryReserveSession cfg (UDPAddr_String a) (normalizedIP (ua_IP a)) (qw_srv w) = (False, s) \<Longrightarrow>
    qstep faults cfg c w (w\<lparr>qw_srv := s\<rparr>)"
| read_reserved: "\<not> qw_crashed w \<Longrightarrow> qw_reading w \<Longrightarrow> tryReserveSession cfg (UDPAddr_String a) (normalizedIP (ua_IP a)) (qw_srv w) = (True, s) \<Longrightarrow>
    qstep faults cfg c w (w\<lparr>qw_srv := s, qw_workers := add_mset (Setting first a (UDPAddr_String a) (normalizedIP (ua_IP a))) (qw_workers w)\<rparr>)"
| read_ends: "\<not> qw_crashed w \<Longrightarrow> qw_reading w \<Longrightarrow> qw_phase w = Unbound \<or> qw_phase w = Snapshotted \<Longrightarrow> qstep faults cfg c w (w\<lparr>qw_reading := False\<rparr>)"
| setup_panics: "\<not> qw_crashed w \<Longrightarrow> Setting first a key ip \<in># qw_workers w \<Longrightarrow>
    setup_target cfg c net (qw_gate w) (qs_closed (qw_srv w)) first a = Panic \<Longrightarrow> qstep faults cfg c w (w\<lparr>qw_crashed := True\<rparr>)"
| setup_fails: "\<not> qw_crashed w \<Longrightarrow> Setting first a key ip \<in># qw_workers w \<Longrightarrow>
    setup_target cfg c net (qw_gate w) (qs_closed (qw_srv w)) first a = Ret None \<Longrightarrow>
    qstep faults cfg c w (moves (Setting first a key ip) {#Abandoning key ip#} w)"
| setup_decides: "\<not> qw_crashed w \<Longrightarrow> Setting first a key ip \<in># qw_workers w \<Longrightarrow>
    setup_target cfg c net (qw_gate w) (qs_closed (qw_srv w)) first a = Ret (Some (sni, up)) \<Longrightarrow>
    qstep faults cfg c w (moves (Setting first a key ip) {#Dialing first a key ip (qw_gate w) net sni up#} w)"
| dial_fails: "\<not> qw_crashed w \<Longrightarrow> Dialing first a key ip g net sni up \<in># qw_workers w \<Longrightarrow> faults \<Longrightarrow>
    qstep faults cfg c w (moves (Dialing first a key ip g net sni up) {#Abandoning key ip#} w)"
| setup_dials: "\<not> qw_crashed w \<Longrightarrow> Dialing first a key ip g net sni up \<in># qw_workers w \<Longrightarrow>
    qstep faults cfg c w ((moves (Dialing first a key ip g net sni up)
      {#Dialled key ip \<lparr>qn_clientAddr = a, qn_backend = qw_next w, qn_sni = sni, qn_resourceIP = ip, qn_lastActivity = now\<rparr>#} w)
      \<lparr>qw_sockets := (qw_sockets w)(qw_next w \<mapsto> \<lparr>so_client = a, so_first = first, so_gate = g, so_net = net, so_sni = sni, so_peer = up\<rparr>),
       qw_next := Suc (qw_next w)\<rparr>)"
| dialled_refused: "\<not> qw_crashed w \<Longrightarrow> Dialled key ip sess \<in># qw_workers w \<Longrightarrow> qs_closed (qw_srv w) \<or> faults \<Longrightarrow>
    qstep faults cfg c w (moves (Dialled key ip sess) {#Refused key ip (qn_backend sess)#} w)"
| promoted: "\<not> qw_crashed w \<Longrightarrow> Dialled key ip sess \<in># qw_workers w \<Longrightarrow> promoteSession key ip sess (qw_srv w) = (True, s) \<Longrightarrow>
    qstep faults cfg c w ((moves (Dialled key ip sess) {#Relaying key (qn_backend sess)#} w)\<lparr>qw_srv := s\<rparr>)"
| promotion_refused: "\<not> qw_crashed w \<Longrightarrow> Dialled key ip sess \<in># qw_workers w \<Longrightarrow> promoteSession key ip sess (qw_srv w) = (False, s) \<Longrightarrow>
    qstep faults cfg c w ((moves (Dialled key ip sess) {#Refused key ip (qn_backend sess)#} w)\<lparr>qw_srv := s\<rparr>)"
| refused_closes: "\<not> qw_crashed w \<Longrightarrow> Refused key ip sock \<in># qw_workers w \<Longrightarrow>
    qstep faults cfg c w (close_socket sock (moves (Refused key ip sock) {#Abandoning key ip#} w))"
| abandoned: "\<not> qw_crashed w \<Longrightarrow> Abandoning key ip \<in># qw_workers w \<Longrightarrow>
    qstep faults cfg c w ((moves (Abandoning key ip) {#} w)\<lparr>qw_srv := releasePending key ip (qw_srv w)\<rparr>)"
| relays: "\<not> qw_crashed w \<Longrightarrow> Relaying key sock \<in># qw_workers w \<Longrightarrow> qw_sockets w sock \<noteq> None \<Longrightarrow>
    qstep faults cfg c w (w\<lparr>qw_srv := touch key sock now (qw_srv w)\<rparr>)"
| relay_ends: "\<not> qw_crashed w \<Longrightarrow> Relaying key sock \<in># qw_workers w \<Longrightarrow> qw_sockets w sock = None \<or> faults \<Longrightarrow>
    qstep faults cfg c w (moves (Relaying key sock) {#Dropping [(key, sock)]#} w)"
| drop_stale: "\<not> qw_crashed w \<Longrightarrow> Dropping ((key, sock) # refs) \<in># qw_workers w \<Longrightarrow> take_session key sock (qw_srv w) = (None, s) \<Longrightarrow>
    qstep faults cfg c w ((moves (Dropping ((key, sock) # refs)) {#Dropping refs#} w)\<lparr>qw_srv := s\<rparr>)"
| drop_taken: "\<not> qw_crashed w \<Longrightarrow> Dropping ((key, sock) # refs) \<in># qw_workers w \<Longrightarrow> take_session key sock (qw_srv w) = (Some ip, s) \<Longrightarrow>
    qstep faults cfg c w ((moves (Dropping ((key, sock) # refs)) {#Detached sock ip refs#} w)\<lparr>qw_srv := s\<rparr>)"
| drop_closes: "\<not> qw_crashed w \<Longrightarrow> Detached sock ip refs \<in># qw_workers w \<Longrightarrow>
    qstep faults cfg c w (close_socket sock (moves (Detached sock ip refs) {#Releasing ip refs#} w))"
| drop_released: "\<not> qw_crashed w \<Longrightarrow> Releasing ip refs \<in># qw_workers w \<Longrightarrow>
    qstep faults cfg c w ((moves (Releasing ip refs) {#Dropping refs#} w)\<lparr>qw_srv := releaseEstablished ip (qw_srv w)\<rparr>)"
| drop_done: "\<not> qw_crashed w \<Longrightarrow> Dropping [] \<in># qw_workers w \<Longrightarrow> qstep faults cfg c w (moves (Dropping []) {#} w)"
| collect_begins: "\<not> qw_crashed w \<Longrightarrow> qw_collecting w = Waiting \<Longrightarrow> \<not> qs_closed (qw_srv w) \<Longrightarrow> qstep faults cfg c w (w\<lparr>qw_collecting := Scanning\<rparr>)"
| collects: "\<not> qw_crashed w \<Longrightarrow> qw_collecting w = Scanning \<Longrightarrow> list_all (idle cfg now (qw_srv w)) refs \<Longrightarrow>
    qstep faults cfg c w (w\<lparr>qw_workers := add_mset (Dropping refs) (qw_workers w), qw_collecting := Waiting\<rparr>)"
| collect_ends: "\<not> qw_crashed w \<Longrightarrow> qw_collecting w = Waiting \<Longrightarrow> qs_closed (qw_srv w) \<Longrightarrow> qstep faults cfg c w (w\<lparr>qw_collecting := Ended\<rparr>)"
| gate_changes: "\<not> qw_crashed w \<Longrightarrow> qstep faults cfg c w (w\<lparr>qw_gate := g\<rparr>)"
| shutdown_closes: "\<not> qw_crashed w \<Longrightarrow> qw_phase w = Up \<Longrightarrow> qstep faults cfg c w (w\<lparr>qw_srv := (qw_srv w)\<lparr>qs_closed := True\<rparr>, qw_phase := Closing\<rparr>)"
| shutdown_unbinds: "\<not> qw_crashed w \<Longrightarrow> qw_phase w = Closing \<Longrightarrow> qstep faults cfg c w (w\<lparr>qw_phase := Unbound\<rparr>)"
| shutdown_snapshots: "\<not> qw_crashed w \<Longrightarrow> qw_phase w = Unbound \<Longrightarrow>
    set refs = {(k, qn_backend sess) | k sess. qs_sessions (qw_srv w) k = Some sess} \<Longrightarrow>
    qstep faults cfg c w (w\<lparr>qw_workers := add_mset (Dropping refs) (qw_workers w), qw_phase := Snapshotted\<rparr>)"

definition quic_start :: "Gate option \<Rightarrow> quic_world" where
  "quic_start g = \<lparr>qw_srv = quic_New, qw_workers = {#}, qw_sockets = (\<lambda>_. None), qw_next = 0, qw_gate = g, qw_reading = True,
     qw_collecting = Waiting, qw_phase = Up, qw_crashed = False\<rparr>"

inductive quic_reachable :: "quic_Config \<Rightarrow> crypto \<Rightarrow> quic_world \<Rightarrow> bool" for cfg :: quic_Config and c :: crypto where
  started: "quic_reachable cfg c (quic_start g)"
| stepped: "quic_reachable cfg c w \<Longrightarrow> qstep True cfg c w w' \<Longrightarrow> quic_reachable cfg c w'"

section \<open>The accounting invariant\<close>

text \<open>\<open>r\<close> counts, for each address, the sessions that were removed but are not yet released, and \<open>R\<close> counts them all.\<close>

definition pend_of :: "string \<Rightarrow> quic_Server \<Rightarrow> string set" where
  "pend_of ip s = {k. qs_pending s k = Some ip}"

definition sess_of :: "string \<Rightarrow> quic_Server \<Rightarrow> string set" where
  "sess_of ip s = {k. \<exists>v. qs_sessions s k = Some v \<and> qn_resourceIP v = ip}"

definition acct :: "(string \<Rightarrow> nat) \<Rightarrow> nat \<Rightarrow> quic_Server \<Rightarrow> bool" where
  "acct r R s = (finite (dom (qs_pending s)) \<and> finite (dom (qs_sessions s)) \<and> dom (qs_pending s) \<inter> dom (qs_sessions s) = {} \<and>
     qs_reserved s = int (card (dom (qs_pending s)) + card (dom (qs_sessions s)) + R) \<and>
     (\<forall>ip. ip_count ip s = int (card (pend_of ip s) + card (sess_of ip s) + r ip)) \<and> (\<forall>ip n. qs_perIP s ip = Some n \<longrightarrow> 1 \<le> n))"

definition capped :: "quic_Config \<Rightarrow> quic_Server \<Rightarrow> bool" where
  "capped cfg s = (int (card (dom (qs_pending s))) \<le> qc_MaxConcurrentSetups cfg \<and> qs_reserved s \<le> qc_MaxSessions cfg \<and>
     (\<forall>ip. ip_count ip s \<le> qc_MaxSessionsPerIP cfg))"

lemma finite_pend_of: "finite (dom (qs_pending s)) \<Longrightarrow> finite (pend_of ip s)"
  by (rule finite_subset [of _ "dom (qs_pending s)"]) (auto simp: pend_of_def)

lemma finite_sess_of: "finite (dom (qs_sessions s)) \<Longrightarrow> finite (sess_of ip s)"
  by (rule finite_subset [of _ "dom (qs_sessions s)"]) (auto simp: sess_of_def)

lemma acct_New: "acct (\<lambda>_. 0) 0 quic_New"
  by (simp add: acct_def quic_New_def pend_of_def sess_of_def ip_count_def)

lemma ip_count_upd: "ip_count ip (s\<lparr>qs_perIP := (qs_perIP s)(j := x), qs_reserved := y\<rparr>) = (if ip = j then (case x of None \<Rightarrow> 0 | Some n \<Rightarrow> n) else ip_count ip s)"
  by (simp add: ip_count_def)

text \<open>Giving back one unit of an address.\<close>

lemma releaseCount_acct:
  assumes "acct (r(ip := Suc (r ip))) (Suc R) s"
  shows "acct r R (releaseCountLocked ip s)"
proof -
  let ?t = "releaseCountLocked ip s"
  have c: "ip_count ip s = int (card (pend_of ip s) + card (sess_of ip s) + Suc (r ip))" using assms by (simp add: acct_def)
  have "ip_count j ?t = (if j = ip then ip_count ip s - 1 else ip_count j s)" for j
    using c by (simp add: releaseCountLocked_def Let_def ip_count_def)
  moreover have "qs_reserved ?t = qs_reserved s - 1" using assms by (simp add: releaseCountLocked_def Let_def acct_def)
  moreover have "qs_pending ?t = qs_pending s" "qs_sessions ?t = qs_sessions s" by (simp_all add: releaseCountLocked_def Let_def)
  moreover have "qs_perIP ?t j = Some n \<Longrightarrow> 1 \<le> n" for j n
    using assms by (auto simp: releaseCountLocked_def Let_def acct_def split: if_splits)
  ultimately show ?thesis using assms unfolding acct_def pend_of_def sess_of_def by auto
qed

lemma capped_mono:
  "capped cfg s \<Longrightarrow> card (dom (qs_pending t)) \<le> card (dom (qs_pending s)) \<Longrightarrow> qs_reserved t \<le> qs_reserved s \<Longrightarrow>
    (\<And>ip. ip_count ip t \<le> ip_count ip s) \<Longrightarrow> capped cfg t"
  unfolding capped_def by (meson of_nat_mono order_trans)

lemma releaseCount_capped: "capped cfg s \<Longrightarrow> acct r R s \<Longrightarrow> capped cfg (releaseCountLocked ip s)"
proof -
  assume c: "capped cfg s" and a: "acct r R s"
  have "0 \<le> ip_count j s" for j using a by (simp add: acct_def)
  then have "ip_count j (releaseCountLocked ip s) \<le> ip_count j s" for j by (auto simp: releaseCountLocked_def Let_def ip_count_def)
  then show ?thesis by (intro capped_mono [OF c]) (simp_all add: releaseCountLocked_def Let_def)
qed

text \<open>Taking a pending key or a session out of its map owes one unit.\<close>

lemma unpend_acct:
  assumes "acct r R s" and "qs_pending s key = Some ip"
  shows "acct (r(ip := Suc (r ip))) (Suc R) (s\<lparr>qs_pending := (qs_pending s)(key := None)\<rparr>)"
proof -
  let ?t = "s\<lparr>qs_pending := (qs_pending s)(key := None)\<rparr>"
  have fin: "finite (dom (qs_pending s))" using assms(1) by (simp add: acct_def)
  have "dom (qs_pending ?t) = dom (qs_pending s) - {key}" by auto
  then have d: "Suc (card (dom (qs_pending ?t))) = card (dom (qs_pending s))"
    using card_Suc_Diff1 [OF fin, of key] assms(2) by (simp add: domI)
  have "pend_of j ?t = pend_of j s - (if j = ip then {key} else {})" for j using assms(2) by (auto simp: pend_of_def)
  moreover have "key \<in> pend_of ip s" using assms(2) by (simp add: pend_of_def)
  ultimately have p: "card (pend_of j ?t) + (if j = ip then 1 else 0) = card (pend_of j s)" for j
    using card.remove [OF finite_pend_of [OF fin], of key ip] by simp
  have "ip_count j s = int (card (pend_of j ?t) + card (sess_of j ?t) + (r(ip := Suc (r ip))) j)" for j
  proof -
    have "sess_of j ?t = sess_of j s" by (simp add: sess_of_def)
    then show ?thesis using p [of j] assms(1) by (auto simp: acct_def)
  qed
  then show ?thesis using assms(1) d unfolding acct_def by (auto simp: ip_count_def)
qed

lemma take_acct:
  assumes "acct r R s" and "take_session key sock s = (Some ip, s')"
  shows "acct (r(ip := Suc (r ip))) (Suc R) s'"
proof -
  obtain v where v: "qs_sessions s key = Some v" "qn_resourceIP v = ip" "s' = s\<lparr>qs_sessions := (qs_sessions s)(key := None)\<rparr>"
    using assms(2) by (auto simp: take_session_def split: option.splits if_splits)
  have fin: "finite (dom (qs_sessions s))" using assms(1) by (simp add: acct_def)
  have "dom (qs_sessions s') = dom (qs_sessions s) - {key}" by (auto simp: v(3))
  then have d: "Suc (card (dom (qs_sessions s'))) = card (dom (qs_sessions s))"
    using card_Suc_Diff1 [OF fin, of key] v(1) by (simp add: domI)
  have "sess_of j s' = sess_of j s - (if j = ip then {key} else {})" for j using v by (auto simp: sess_of_def)
  moreover have "key \<in> sess_of ip s" using v by (simp add: sess_of_def)
  ultimately have p: "card (sess_of j s') + (if j = ip then 1 else 0) = card (sess_of j s)" for j
    using card.remove [OF finite_sess_of [OF fin], of key ip] by simp
  have "ip_count j s' = int (card (pend_of j s') + card (sess_of j s') + (r(ip := Suc (r ip))) j)" for j
  proof -
    have "pend_of j s' = pend_of j s" "ip_count j s' = ip_count j s" by (simp_all add: pend_of_def ip_count_def v(3))
    then show ?thesis using p [of j] assms(1) by (auto simp: acct_def)
  qed
  then show ?thesis using assms(1) d unfolding acct_def by (auto simp: v(3))
qed

lemma reserve_acct:
  assumes "acct r R s" and "tryReserveSession cfg key ip s = (True, s')"
  shows "acct r R s'"
proof -
  have n: "qs_pending s key = None" "qs_sessions s key = None"
    and s': "s' = s\<lparr>qs_pending := (qs_pending s)(key \<mapsto> ip), qs_reserved := qs_reserved s + 1, qs_perIP := (qs_perIP s)(ip \<mapsto> ip_count ip s + 1)\<rparr>"
    using assms(2) by (auto simp: tryReserveSession_def split: if_splits)
  have fin: "finite (dom (qs_pending s))" using assms(1) by (simp add: acct_def)
  have "pend_of j s' = (if j = ip then insert key (pend_of j s) else pend_of j s)" for j using n by (auto simp: pend_of_def s')
  moreover have "key \<notin> pend_of ip s" using n by (simp add: pend_of_def)
  ultimately have p: "card (pend_of j s') = card (pend_of j s) + (if j = ip then 1 else 0)" for j
    using finite_pend_of [OF fin] by simp
  have d: "card (dom (qs_pending s')) = Suc (card (dom (qs_pending s)))" using fin n by (simp add: s' domIff)
  have "ip_count j s' = int (card (pend_of j s') + card (sess_of j s') + r j)" for j
  proof -
    have "sess_of j s' = sess_of j s" "ip_count j s' = ip_count j s + (if j = ip then 1 else 0)" by (simp_all add: sess_of_def ip_count_def s')
    then show ?thesis using p [of j] assms(1) by (auto simp: acct_def)
  qed
  moreover have "0 \<le> ip_count ip s" using assms(1) by (simp add: acct_def)
  ultimately show ?thesis using assms(1) d n unfolding acct_def by (auto simp: s')
qed


lemma reserve_capped:
  assumes "capped cfg s" and "tryReserveSession cfg key ip s = (True, s')" and "acct r R s"
  shows "capped cfg s'"
proof -
  have n: "qs_pending s key = None" "int (card (dom (qs_pending s))) < qc_MaxConcurrentSetups cfg" "qs_reserved s < qc_MaxSessions cfg"
      "ip_count ip s < qc_MaxSessionsPerIP cfg"
    and s': "s' = s\<lparr>qs_pending := (qs_pending s)(key \<mapsto> ip), qs_reserved := qs_reserved s + 1, qs_perIP := (qs_perIP s)(ip \<mapsto> ip_count ip s + 1)\<rparr>"
    using assms(2) by (auto simp: tryReserveSession_def split: if_splits)
  have "card (dom (qs_pending s')) = Suc (card (dom (qs_pending s)))" using assms(3) n(1) by (simp add: s' domIff acct_def)
  moreover have "ip_count j s' = (if j = ip then ip_count ip s + 1 else ip_count j s)" for j by (simp add: ip_count_def s')
  ultimately show ?thesis using assms(1) n(2-4) by (auto simp: capped_def s')
qed

lemma touch_same:
  "qs_pending (touch k n t s) = qs_pending s" "qs_reserved (touch k n t s) = qs_reserved s" "qs_perIP (touch k n t s) = qs_perIP s"
  "qs_closed (touch k n t s) = qs_closed s"
  "map_option qn_backend (qs_sessions (touch k n t s) j) = map_option qn_backend (qs_sessions s j)"
  "map_option qn_resourceIP (qs_sessions (touch k n t s) j) = map_option qn_resourceIP (qs_sessions s j)"
  by (simp_all add: touch_def split: option.split)

lemma touch_acct: "acct r R (touch k n t s) = acct r R s" and touch_capped: "capped cfg (touch k n t s) = capped cfg s"
proof -
  have "dom (qs_sessions (touch k n t s)) = dom (qs_sessions s)"
    by (auto simp: touch_def split: option.splits if_splits)
  moreover have "sess_of ip (touch k n t s) = sess_of ip s" for ip
    by (auto simp: sess_of_def touch_def split: option.splits if_splits)
  ultimately show "acct r R (touch k n t s) = acct r R s" "capped cfg (touch k n t s) = capped cfg s"
    by (simp_all add: acct_def capped_def pend_of_def ip_count_def touch_same)
qed

lemma promote_acct:
  assumes "acct r R s" and "qs_pending s key = Some ip" and "\<not> qs_closed s" and "qn_resourceIP v = ip"
  shows "acct r R (s\<lparr>qs_pending := (qs_pending s)(key := None), qs_sessions := (qs_sessions s)(key \<mapsto> v)\<rparr>)"
proof -
  let ?u = "s\<lparr>qs_pending := (qs_pending s)(key := None)\<rparr>"
  let ?t = "?u\<lparr>qs_sessions := (qs_sessions s)(key \<mapsto> v)\<rparr>"
  have a: "acct (r(ip := Suc (r ip))) (Suc R) ?u" by (rule unpend_acct [OF assms(1,2)])
  have fin: "finite (dom (qs_sessions s))" and new: "qs_sessions s key = None" using assms(1,2) by (auto simp: acct_def)
  have "sess_of j ?t = (if j = ip then insert key (sess_of j s) else sess_of j s)" for j using new assms(4) by (auto simp: sess_of_def)
  moreover have "key \<notin> sess_of ip s" using new by (simp add: sess_of_def)
  ultimately have p: "card (sess_of j ?t) = card (sess_of j s) + (if j = ip then 1 else 0)" for j using finite_sess_of [OF fin] by simp
  have d: "card (dom (qs_sessions ?t)) = Suc (card (dom (qs_sessions s)))" using fin new by (simp add: domIff)
  have "ip_count j ?t = int (card (pend_of j ?t) + card (sess_of j ?t) + r j)" for j
  proof -
    have "sess_of j ?u = sess_of j s" "pend_of j ?t = pend_of j ?u" "ip_count j ?t = ip_count j ?u"
      by (simp_all add: sess_of_def pend_of_def ip_count_def)
    moreover have "ip_count j ?u = int (card (pend_of j ?u) + card (sess_of j ?u) + (r(ip := Suc (r ip))) j)" using a by (simp add: acct_def)
    ultimately show ?thesis using p [of j] by simp
  qed
  then show ?thesis using a d unfolding acct_def by auto
qed

section \<open>The invariant of the whole program\<close>

text \<open>What a program point holds: a pending key with its address, a removed session not yet released, a socket, or references still to be dropped.\<close>

fun owner :: "worker \<Rightarrow> (string \<times> string) option" where
  "owner (Setting first a key ip) = Some (key, ip)"
| "owner (Dialing first a key ip g net sni up) = Some (key, ip)"
| "owner (Refused key ip sock) = Some (key, ip)"
| "owner (Dialled key ip sess) = Some (key, ip)"
| "owner (Abandoning key ip) = Some (key, ip)"
| "owner _ = None"

fun rel_ip :: "worker \<Rightarrow> string option" where
  "rel_ip (Releasing ip refs) = Some ip"
| "rel_ip (Detached sock ip refs) = Some ip"
| "rel_ip _ = None"

fun held_sock :: "worker \<Rightarrow> nat option" where
  "held_sock (Dialled key ip sess) = Some (qn_backend sess)"
| "held_sock (Refused key ip sock) = Some sock"
| "held_sock (Detached sock ip refs) = Some sock"
| "held_sock _ = None"

fun refs_of :: "worker \<Rightarrow> (string \<times> nat) set" where
  "refs_of (Dropping refs) = set refs"
| "refs_of (Detached sock ip refs) = set refs"
| "refs_of (Releasing ip refs) = set refs"
| "refs_of _ = {}"

fun gave_up :: "worker \<Rightarrow> bool" where
  "gave_up (Abandoning key ip) = True"
| "gave_up (Refused key ip sock) = True"
| "gave_up _ = False"

definition count_of :: "(worker \<Rightarrow> 'a option) \<Rightarrow> worker multiset \<Rightarrow> 'a \<Rightarrow> nat" where
  "count_of f ws x = size (filter_mset (\<lambda>w. f w = Some x) ws)"

definition rels :: "worker multiset \<Rightarrow> nat" where
  "rels ws = size (filter_mset (\<lambda>w. rel_ip w \<noteq> None) ws)"

lemma count_of_simps [simp]:
  "count_of f {#} x = 0" "count_of f (add_mset w ws) x = count_of f ws x + (if f w = Some x then 1 else 0)"
  "count_of f (ws + ws') x = count_of f ws x + count_of f ws' x"
  by (simp_all add: count_of_def)

lemma rels_simps [simp]: "rels {#} = 0" "rels (add_mset w ws) = rels ws + (if rel_ip w \<noteq> None then 1 else 0)"
  by (simp_all add: rels_def)

lemma count_of_pos: "w \<in># ws \<Longrightarrow> f w = Some x \<Longrightarrow> 1 \<le> count_of f ws x"
  by (auto dest!: multi_member_split)

lemma count_of_zero: "count_of f ws x = 0 \<longleftrightarrow> (\<forall>w \<in># ws. f w \<noteq> Some x)"
  by (induction ws) auto

subsection \<open>Reservations\<close>

definition acct_inv :: "quic_Config \<Rightarrow> quic_world \<Rightarrow> bool" where
  "acct_inv cfg w = (acct (count_of rel_ip (qw_workers w)) (rels (qw_workers w)) (qw_srv w) \<and> capped cfg (qw_srv w))"

text \<open>Every pending key has its worker and every worker that holds a key holds it alone; after the server was closed a worker may have lost its key on
  the way out.\<close>

definition holds_ok :: "quic_Server \<Rightarrow> worker \<Rightarrow> bool" where
  "holds_ok s x = ((\<forall>k ip. owner x = Some (k, ip) \<longrightarrow> ip \<noteq> [] \<and>
        (qs_pending s k = Some ip \<or> qs_closed s \<and> qs_pending s k = None \<and> gave_up x)) \<and>
     (\<forall>k ip v. x = Dialled k ip v \<longrightarrow> qn_resourceIP v = ip))"

abbreviation owned :: "worker multiset \<Rightarrow> string \<Rightarrow> nat" where
  "owned \<equiv> count_of (\<lambda>x. map_option fst (owner x))"

definition own_inv :: "quic_world \<Rightarrow> bool" where
  "own_inv w = ((\<forall>k. owned (qw_workers w) k \<le> 1 \<and> (qs_pending (qw_srv w) k \<noteq> None \<longrightarrow> owned (qw_workers w) k = 1)) \<and>
     (\<forall>x \<in># qw_workers w. holds_ok (qw_srv w) x))"

lemma holds_cong:
  "holds_ok s x \<Longrightarrow> qs_pending t = qs_pending s \<Longrightarrow> qs_closed t = qs_closed s \<or> qs_closed t \<Longrightarrow> holds_ok t x"
  by (auto simp: holds_ok_def)

lemma holds_frame:
  "holds_ok s x \<Longrightarrow> map_option fst (owner x) \<noteq> Some key \<Longrightarrow> qs_pending t = (qs_pending s)(key := z) \<Longrightarrow> qs_closed t = qs_closed s \<Longrightarrow> holds_ok t x"
  by (auto simp: holds_ok_def)

lemma releaseCount_same [simp]:
  "qs_pending (releaseCountLocked ip s) = qs_pending s" "qs_sessions (releaseCountLocked ip s) = qs_sessions s" "qs_closed (releaseCountLocked ip s) = qs_closed s"
  by (simp_all add: releaseCountLocked_def Let_def)

text \<open>A worker that holds a live key gives it back.\<close>

lemma unpend_release:
  assumes "acct r R s" and "capped cfg s" and "qs_pending s key = Some ip"
  shows "acct r R (releaseCountLocked ip (s\<lparr>qs_pending := (qs_pending s)(key := None)\<rparr>))"
    and "capped cfg (releaseCountLocked ip (s\<lparr>qs_pending := (qs_pending s)(key := None)\<rparr>))"
proof -
  let ?u = "s\<lparr>qs_pending := (qs_pending s)(key := None)\<rparr>"
  have a: "acct (r(ip := Suc (r ip))) (Suc R) ?u" by (rule unpend_acct [OF assms(1,3)])
  show "acct r R (releaseCountLocked ip ?u)" by (rule releaseCount_acct [OF a])
  have "card (dom (qs_pending ?u)) \<le> card (dom (qs_pending s))" using assms(1) by (intro card_mono) (auto simp: acct_def)
  then have "capped cfg ?u" by (intro capped_mono [OF assms(2)]) (simp_all add: ip_count_def)
  then show "capped cfg (releaseCountLocked ip ?u)" by (rule releaseCount_capped [OF _ a])
qed

lemma promote_capped:
  assumes "acct r R s" and "capped cfg s"
  shows "capped cfg (s\<lparr>qs_pending := (qs_pending s)(key := None), qs_sessions := m\<rparr>)"
proof (rule capped_mono [OF assms(2)])
  show "card (dom (qs_pending (s\<lparr>qs_pending := (qs_pending s)(key := None), qs_sessions := m\<rparr>))) \<le> card (dom (qs_pending s))"
    using assms(1) by (intro card_mono) (auto simp: acct_def)
qed (simp_all add: ip_count_def)

lemma take_same: "take_session k n s = (x, t) \<Longrightarrow> qs_pending t = qs_pending s \<and> qs_reserved t = qs_reserved s \<and> qs_perIP t = qs_perIP s \<and> qs_closed t = qs_closed s"
  by (auto simp: take_session_def split: option.splits if_splits)

lemma take_None: "take_session k n s = (None, t) \<Longrightarrow> t = s \<and> (\<forall>v. qs_sessions s k = Some v \<longrightarrow> qn_backend v \<noteq> n)"
  by (auto simp: take_session_def split: option.splits if_splits)

lemma take_capped: "take_session k n s = (x, t) \<Longrightarrow> capped cfg t = capped cfg s"
  by (simp add: capped_def ip_count_def take_same)

lemma owner_pending:
  assumes "own_inv w" and "x \<in># qw_workers w" and "owner x = Some (key, ip)"
  shows "ip \<noteq> []" and "\<not> gave_up x \<Longrightarrow> qs_pending (qw_srv w) key = Some ip"
    and "qs_pending (qw_srv w) key = Some ip \<or> qs_pending (qw_srv w) key = None \<and> qs_closed (qw_srv w)"
  using assms by (auto simp: own_inv_def holds_ok_def)

lemma moves_simps [simp]:
  "qw_srv (moves x new w) = qw_srv w" "qw_sockets (moves x new w) = qw_sockets w" "qw_next (moves x new w) = qw_next w"
  "qw_gate (moves x new w) = qw_gate w" "qw_phase (moves x new w) = qw_phase w" "qw_crashed (moves x new w) = qw_crashed w"
  "qw_workers (moves x new w) = qw_workers w - {#x#} + new"
  by (simp_all add: moves_def)

lemma close_simps [simp]:
  "qw_srv (close_socket n w) = qw_srv w" "qw_workers (close_socket n w) = qw_workers w" "qw_sockets (close_socket n w) = (qw_sockets w)(n := None)"
  "qw_next (close_socket n w) = qw_next w" "qw_phase (close_socket n w) = qw_phase w" "qw_gate (close_socket n w) = qw_gate w"
  by (simp_all add: close_socket_def)

lemma count_fun: "count_of f (add_mset x ws) = (case f x of None \<Rightarrow> count_of f ws | Some j \<Rightarrow> (count_of f ws)(j := Suc (count_of f ws j)))"
  by (auto split: option.split)

lemma closed_acct: "acct r R (s\<lparr>qs_closed := b\<rparr>) = acct r R s" "capped cfg (s\<lparr>qs_closed := b\<rparr>) = capped cfg s"
  by (simp_all add: acct_def capped_def ip_count_def pend_of_def sess_of_def)

lemma acct_inv_step:
  assumes "qstep faults cfg c w w'" and "own_inv w" and "acct_inv cfg w"
  shows "acct_inv cfg w'"
proof -
  have a: "acct (count_of rel_ip (qw_workers w)) (rels (qw_workers w)) (qw_srv w)" and k: "capped cfg (qw_srv w)"
    using assms(3) by (simp_all add: acct_inv_def)
  have mv: "acct_inv cfg w'" if "x \<in># qw_workers w" "rel_ip x = None" "rel_ip y = None" "qw_workers w' = qw_workers w - {#x#} + {#y#} \<or> qw_workers w' = qw_workers w - {#x#}"
      "acct (count_of rel_ip (qw_workers w)) (rels (qw_workers w)) (qw_srv w')" "capped cfg (qw_srv w')" for x y
    using that by (auto dest!: multi_member_split simp: acct_inv_def count_fun)
  show ?thesis using assms(1)
  proof cases
    case (read_hot a sess now)
    then show ?thesis using assms(3) by (simp add: acct_inv_def touch_acct touch_capped)
  next
    case (read_refused a s)
    then show ?thesis using assms(3) by (auto simp: acct_inv_def tryReserveSession_def split: if_splits)
  next
    case (read_reserved b s first)
    then show ?thesis using reserve_acct [OF a read_reserved(4)] reserve_capped [OF k read_reserved(4) a]
      by (simp add: acct_inv_def count_fun)
  next
    case (setup_panics first a key ip net)
    then show ?thesis using assms(3) by (simp add: acct_inv_def)
  next
    case (setup_fails first b key ip)
    then show ?thesis using a k by (intro mv [of "Setting first b key ip" "Abandoning key ip"]) simp_all
  next
    case (setup_decides first b key ip net sni up)
    then show ?thesis using a k by (intro mv [of "Setting first b key ip" "Dialing first b key ip _ net sni up"]) simp_all
  next
    case (dial_fails first b key ip g net sni up)
    then show ?thesis using a k by (intro mv [of "Dialing first b key ip g net sni up" "Abandoning key ip"]) simp_all
  next
    case (setup_dials first b key ip g net sni up now)
    then show ?thesis using a k by (intro mv [of "Dialing first b key ip g net sni up" "Dialled key ip _"]) simp_all
  next
    case (dialled_refused key ip sess)
    then show ?thesis using a k by (intro mv [of "Dialled key ip sess" "Refused key ip _"]) simp_all
  next
    case (refused_closes key ip sock)
    then show ?thesis using a k by (intro mv [of "Refused key ip sock" "Abandoning key ip"]) simp_all
  next
    case (promoted key ip sess s)
    have p: "qs_pending (qw_srv w) key = Some ip" "qn_resourceIP sess = ip" "\<not> qs_closed (qw_srv w)"
      using owner_pending(2) [OF assms(2) promoted(3), of key ip] assms(2) promoted by (auto simp: own_inv_def holds_ok_def promoteSession_def Let_def split: if_splits)
    then have "s = (qw_srv w)\<lparr>qs_pending := (qs_pending (qw_srv w))(key := None), qs_sessions := (qs_sessions (qw_srv w))(key \<mapsto> sess)\<rparr>"
      using promoted(4) by (auto simp: promoteSession_def Let_def split: if_splits)
    then show ?thesis using promoted promote_acct [OF a p(1,3,2)] promote_capped [OF a k]
      by (intro mv [of "Dialled key ip sess" "Relaying key (qn_backend sess)"]) simp_all
  next
    case (promotion_refused key ip sess s)
    have p: "qs_pending (qw_srv w) key = Some ip"
      using owner_pending(2) [OF assms(2) promotion_refused(3), of key ip] by simp
    then have "s = releaseCountLocked ip ((qw_srv w)\<lparr>qs_pending := (qs_pending (qw_srv w))(key := None)\<rparr>)"
      using promotion_refused(4) by (auto simp: promoteSession_def pending_ip_def Let_def split: if_splits)
    then show ?thesis using promotion_refused unpend_release [OF a k p]
      by (intro mv [of "Dialled key ip sess" "Refused key ip _"]) simp_all
  next
    case (abandoned key ip)
    note o' = owner_pending(1,3) [OF assms(2) abandoned(3), of key ip]
    have "acct (count_of rel_ip (qw_workers w)) (rels (qw_workers w)) (releasePending key ip (qw_srv w)) \<and> capped cfg (releasePending key ip (qw_srv w))"
      using o' a k unpend_release [OF a k] by (auto simp: releasePending_def pending_ip_def)
    then show ?thesis using abandoned by (intro mv [of "Abandoning key ip" "Abandoning key ip"]) simp_all
  next
    case (relays key sock now)
    then show ?thesis using assms(3) by (simp add: acct_inv_def touch_acct touch_capped)
  next
    case (relay_ends key sock)
    then show ?thesis using a k by (intro mv [of "Relaying key sock" "Dropping [(key, sock)]"]) simp_all
  next
    case (drop_stale key sock refs s)
    then show ?thesis using a k take_None [OF drop_stale(4)] by (intro mv [of "Dropping ((key, sock) # refs)" "Dropping refs"]) simp_all
  next
    case (drop_taken key sock refs ip s)
    obtain ws where ws: "qw_workers w = add_mset (Dropping ((key, sock) # refs)) ws" using drop_taken(3) by (metis multi_member_split)
    then show ?thesis using take_acct [OF a drop_taken(4)] take_capped [OF drop_taken(4)] k drop_taken(1) by (simp add: acct_inv_def count_fun)
  next
    case (drop_closes sock ip refs)
    obtain ws where ws: "qw_workers w = add_mset (Detached sock ip refs) ws" using drop_closes(3) by (metis multi_member_split)
    then show ?thesis using a k drop_closes(1) by (simp add: acct_inv_def count_fun)
  next
    case (drop_released ip refs)
    obtain ws where ws: "qw_workers w = add_mset (Releasing ip refs) ws" using drop_released(3) by (metis multi_member_split)
    then have "acct ((count_of rel_ip ws)(ip := Suc (count_of rel_ip ws ip))) (Suc (rels ws)) (qw_srv w)" using a by (simp add: count_fun)
    then show ?thesis using ws drop_released(1) releaseCount_acct releaseCount_capped [OF k a] by (simp add: acct_inv_def count_fun releaseEstablished_def)
  next
    case drop_done
    then show ?thesis using a k by (intro mv [of "Dropping []" "Dropping []"]) simp_all
  next
    case (collects now refs)
    then show ?thesis using assms(3) by (simp add: acct_inv_def count_fun)
  next
    case (gate_changes g)
    then show ?thesis using assms(3) by (simp add: acct_inv_def)
  next
    case shutdown_closes
    then show ?thesis using assms(3) by (simp add: acct_inv_def closed_acct)
  next
    case (shutdown_snapshots refs)
    then show ?thesis using assms(3) by (simp add: acct_inv_def count_fun)
  qed (use assms(3) in \<open>simp_all add: acct_inv_def\<close>)
qed


text \<open>Dropping the key of one worker leaves the others alone.\<close>

lemma own_release:
  assumes "own_inv w" and ws: "qw_workers w = add_mset x ws" and "owner x = Some (key, ip)"
    and s: "qs_pending (qw_srv w') = (qs_pending (qw_srv w))(key := None)" "qs_closed (qw_srv w') = qs_closed (qw_srv w)"
    and "qw_workers w' = ws + new" and new: "owned new key \<le> 1" "\<And>k. k \<noteq> key \<Longrightarrow> owned new k = 0" "\<And>y. y \<in># new \<Longrightarrow> holds_ok (qw_srv w') y"
  shows "own_inv w'"
proof -
  have le: "owned ws k + (if k = key then 1 else 0) \<le> 1" for k using assms(1,3) unfolding own_inv_def ws by (auto dest: spec [of _ k])
  then have z: "owned ws key = 0" using le [of key] by simp
  have "holds_ok (qw_srv w') y" if "y \<in># ws" for y
  proof (rule holds_frame [OF _ _ s])
    show "holds_ok (qw_srv w) y" using assms(1) that by (simp add: own_inv_def ws)
    show "map_option fst (owner y) \<noteq> Some key" using z that by (auto simp: count_of_zero)
  qed
  moreover have "owned (qw_workers w') k \<le> 1 \<and> (qs_pending (qw_srv w') k \<noteq> None \<longrightarrow> owned (qw_workers w') k = 1)" for k
  proof (cases "k = key")
    case True
    then show ?thesis using z new(1) by (simp add: assms(6) s(1))
  next
    case False
    have "qs_pending (qw_srv w) k \<noteq> None \<longrightarrow> owned (qw_workers w) k = 1" using assms(1) by (simp add: own_inv_def)
    then show ?thesis using False new(2) [OF False] le [of k] assms(3) by (simp add: assms(6) s(1) ws)
  qed
  ultimately show ?thesis using new(3) unfolding own_inv_def assms(6) by auto
qed

lemma own_moves:
  assumes "own_inv w" and "x \<in># qw_workers w" and w': "qw_workers w' = qw_workers w - {#x#} + {#y#}"
    and k: "owner y = owner x" "gave_up x \<longrightarrow> gave_up y" "\<forall>k ip v. y = Dialled k ip v \<longrightarrow> qn_resourceIP v = ip"
    and s: "qs_pending (qw_srv w') = qs_pending (qw_srv w)" "qs_closed (qw_srv w') = qs_closed (qw_srv w)"
  shows "own_inv w'"
proof -
  obtain ws where ws: "qw_workers w = add_mset x ws" using assms(2) by (metis multi_member_split)
  have "owned (qw_workers w') = owned (qw_workers w)" by (simp add: w' ws k(1) fun_eq_iff)
  moreover have "holds_ok (qw_srv w') y" using assms(1) k by (auto simp: own_inv_def ws holds_ok_def s)
  moreover have "holds_ok (qw_srv w') z" if "z \<in># ws" for z using assms(1) that holds_cong [OF _ s(1)] s(2) by (auto simp: own_inv_def ws)
  ultimately show ?thesis using assms(1) unfolding own_inv_def s by (auto simp: w' ws)
qed

lemma own_same:
  assumes "own_inv w" and "qw_workers w' = qw_workers w \<or> (\<exists>refs. qw_workers w' = add_mset (Dropping refs) (qw_workers w))"
    and s: "qs_pending (qw_srv w') = qs_pending (qw_srv w)" "qs_closed (qw_srv w') = qs_closed (qw_srv w) \<or> qs_closed (qw_srv w')"
  shows "own_inv w'"
proof -
  have "holds_ok (qw_srv w') z" if "z \<in># qw_workers w" for z using assms(1) that holds_cong [OF _ s] by (auto simp: own_inv_def)
  moreover have "owned (qw_workers w') = owned (qw_workers w)" using assms(2) by (auto simp: fun_eq_iff)
  moreover have "holds_ok t (Dropping refs)" for t refs by (simp add: holds_ok_def)
  ultimately show ?thesis using assms(1,2) unfolding own_inv_def s(1) by auto
qed

lemma own_inv_step:
  assumes "qstep faults cfg c w w'" and "own_inv w"
  shows "own_inv w'"
proof -
  note mv = own_moves [OF assms(2)] and same = own_same [OF assms(2)] and rel = own_release [OF assms(2)]
  show ?thesis using assms(1)
  proof cases
    case (read_reserved b s first)
    let ?k = "UDPAddr_String b" and ?ip = "normalizedIP (ua_IP b)"
    have s: "qs_pending (qw_srv w) ?k = None" "\<not> qs_closed (qw_srv w)" "?ip \<noteq> []" "qs_pending s = (qs_pending (qw_srv w))(?k \<mapsto> ?ip)" "qs_closed s = qs_closed (qw_srv w)"
      using read_reserved(4) by (auto simp: tryReserveSession_def split: if_splits)
    have free: "map_option fst (owner x) \<noteq> Some ?k" if "x \<in># qw_workers w" for x
      using that s(1,2) assms(2) by (auto simp: own_inv_def holds_ok_def)
    then have z: "owned (qw_workers w) ?k = 0" by (simp add: count_of_zero)
    have "holds_ok s x" if "x \<in># qw_workers w" for x
      using holds_frame [OF _ free [OF that] s(4,5)] assms(2) that by (simp add: own_inv_def)
    moreover have "holds_ok s (Setting first b ?k ?ip)" using s by (simp add: holds_ok_def)
    ultimately show ?thesis using assms(2) z s(4) unfolding own_inv_def read_reserved(1) by auto
  next
    case (setup_fails first b key ip)
    then show ?thesis by (intro mv [of "Setting first b key ip" _ "Abandoning key ip"]) simp_all
  next
    case (setup_decides first b key ip net sni up)
    then show ?thesis by (intro mv [of "Setting first b key ip" _ "Dialing first b key ip (qw_gate w) net sni up"]) simp_all
  next
    case (dial_fails first b key ip g net sni up)
    then show ?thesis by (intro mv [of "Dialing first b key ip g net sni up" _ "Abandoning key ip"]) simp_all
  next
    case (setup_dials first b key ip g net sni up now)
    then show ?thesis
      by (intro mv [of "Dialing first b key ip g net sni up" _ "Dialled key ip \<lparr>qn_clientAddr = b, qn_backend = qw_next w, qn_sni = sni, qn_resourceIP = ip, qn_lastActivity = now\<rparr>"]) simp_all
  next
    case (dialled_refused key ip sess)
    then show ?thesis by (intro mv [of "Dialled key ip sess" _ "Refused key ip (qn_backend sess)"]) simp_all
  next
    case (refused_closes key ip sock)
    then show ?thesis by (intro mv [of "Refused key ip sock" _ "Abandoning key ip"]) simp_all
  next
    case (promoted key ip sess s)
    obtain ws where ws: "qw_workers w = add_mset (Dialled key ip sess) ws" using promoted(3) by (metis multi_member_split)
    have "qs_pending s = (qs_pending (qw_srv w))(key := None)" "qs_closed s = qs_closed (qw_srv w)"
      using promoted(4) by (auto simp: promoteSession_def Let_def split: if_splits)
    then show ?thesis using promoted(1) by (intro rel [OF ws, where new = "{#Relaying key (qn_backend sess)#}"]) (auto simp: ws holds_ok_def)
  next
    case (promotion_refused key ip sess s)
    obtain ws where ws: "qw_workers w = add_mset (Dialled key ip sess) ws" using promotion_refused(3) by (metis multi_member_split)
    have p: "qs_pending (qw_srv w) key = Some ip" "ip \<noteq> []" using owner_pending(1,2) [OF assms(2) promotion_refused(3), of key ip] by simp_all
    then have "qs_pending s = (qs_pending (qw_srv w))(key := None)" "qs_closed s" "qs_closed (qw_srv w)"
      using promotion_refused(4) by (auto simp: promoteSession_def pending_ip_def Let_def split: if_splits)
    then show ?thesis using promotion_refused(1) p(2) by (intro rel [OF ws, where new = "{#Refused key ip (qn_backend sess)#}"]) (auto simp: ws holds_ok_def)
  next
    case (abandoned key ip)
    obtain ws where ws: "qw_workers w = add_mset (Abandoning key ip) ws" using abandoned(3) by (metis multi_member_split)
    have "qs_pending (releasePending key ip (qw_srv w)) = (qs_pending (qw_srv w))(key := None)" "qs_closed (releasePending key ip (qw_srv w)) = qs_closed (qw_srv w)"
      using owner_pending(1,3) [OF assms(2) abandoned(3), of key ip] by (auto simp: releasePending_def pending_ip_def)
    then show ?thesis using abandoned(1) by (intro rel [OF ws, where new = "{#}"]) (auto simp: ws)
  next
    case (relay_ends key sock)
    then show ?thesis by (intro mv [of "Relaying key sock" _ "Dropping [(key, sock)]"]) simp_all
  next
    case (drop_stale key sock refs s)
    then show ?thesis using take_same [OF drop_stale(4)] by (intro mv [of "Dropping ((key, sock) # refs)" _ "Dropping refs"]) simp_all
  next
    case (drop_taken key sock refs ip s)
    then show ?thesis using take_same [OF drop_taken(4)] by (intro mv [of "Dropping ((key, sock) # refs)" _ "Detached sock ip refs"]) simp_all
  next
    case (drop_closes sock ip refs)
    then show ?thesis by (intro mv [of "Detached sock ip refs" _ "Releasing ip refs"]) simp_all
  next
    case (drop_released ip refs)
    then show ?thesis by (intro mv [of "Releasing ip refs" _ "Dropping refs"]) (simp_all add: releaseEstablished_def)
  next
    case drop_done
    obtain ws where ws: "qw_workers w = add_mset (Dropping []) ws" using drop_done(3) by (metis multi_member_split)
    then show ?thesis using assms(2) drop_done(1) by (simp add: own_inv_def)
  next
    case (read_refused b s)
    then show ?thesis by (intro same) (auto simp: tryReserveSession_def split: if_splits)
  qed (intro same; auto simp: touch_same)+
qed

subsection \<open>Sockets\<close>

text \<open>Every open socket belongs to exactly one worker that has dialled or to exactly one session.\<close>

definition sess_sock :: "nat \<Rightarrow> quic_Server \<Rightarrow> string set" where
  "sess_sock n s = {k. \<exists>v. qs_sessions s k = Some v \<and> qn_backend v = n}"

definition uses :: "quic_world \<Rightarrow> nat \<Rightarrow> nat" where
  "uses w n = count_of held_sock (qw_workers w) n + card (sess_sock n (qw_srv w))"

definition sock_inv :: "quic_world \<Rightarrow> bool" where
  "sock_inv w = ((\<forall>n. uses w n = (if qw_sockets w n = None then 0 else 1)) \<and> (\<forall>n \<ge> qw_next w. qw_sockets w n = None))"

lemma finite_sess_sock: "finite (dom (qs_sessions s)) \<Longrightarrow> finite (sess_sock n s)"
  by (rule finite_subset [of _ "dom (qs_sessions s)"]) (auto simp: sess_sock_def)

lemma sess_sock_touch: "sess_sock n (touch k m t s) = sess_sock n s"
  by (auto simp: sess_sock_def touch_def split: option.splits if_splits)

lemma sock_same:
  assumes "sock_inv w" and "\<And>n. uses w' n = uses w n" and "qw_sockets w' = qw_sockets w" "qw_next w' = qw_next w"
  shows "sock_inv w'"
  using assms by (simp add: sock_inv_def)

lemma sock_moves:
  assumes "sock_inv w" and "x \<in># qw_workers w" and "held_sock y = held_sock x"
    and "qw_workers w' = qw_workers w - {#x#} + {#y#} \<or> held_sock x = None \<and> qw_workers w' = qw_workers w - {#x#}"
    and "qs_sessions (qw_srv w') = qs_sessions (qw_srv w)" "qw_sockets w' = qw_sockets w" "qw_next w' = qw_next w"
  shows "sock_inv w'"
proof (rule sock_same [OF assms(1) _ assms(6,7)])
  obtain ws where ws: "qw_workers w = add_mset x ws" using assms(2) by (metis multi_member_split)
  show "uses w' n = uses w n" for n using assms(3,4) by (auto simp: uses_def sess_sock_def assms(5) ws)
qed

text \<open>Whoever gives up the only use of a socket closes it.\<close>

lemma sock_closes:
  assumes "sock_inv w" and "\<And>m. uses w m = uses w' m + (if m = n then 1 else 0)"
    and "qw_sockets w' = (qw_sockets w)(n := None)" "qw_next w' = qw_next w"
  shows "sock_inv w'"
proof -
  have "uses w m = (if qw_sockets w m = None then 0 else 1)" for m using assms(1) by (simp add: sock_inv_def)
  then have "uses w' m = (if m = n then 0 else if qw_sockets w m = None then 0 else 1)" for m
    using assms(2) [of m] by (auto split: if_splits)
  then show ?thesis using assms(1) by (simp add: sock_inv_def assms(3,4))
qed

lemma uses_closed:
  assumes "x \<in># qw_workers w" and "qw_workers w' = qw_workers w - {#x#} + {#y#}" and "held_sock x = Some n" and "held_sock y = None"
    and "qs_sessions (qw_srv w') = qs_sessions (qw_srv w)"
  shows "uses w m = uses w' m + (if m = n then 1 else 0)"
proof -
  obtain ws where ws: "qw_workers w = add_mset x ws" using assms(1) by (metis multi_member_split)
  show ?thesis using assms(3,4) by (simp add: uses_def assms(2,5) ws sess_sock_def)
qed

lemma sock_inv_step:
  assumes "qstep faults cfg c w w'" and "sock_inv w" and "own_inv w" and "acct_inv cfg w"
  shows "sock_inv w'"
proof -
  have fin: "finite (dom (qs_sessions (qw_srv w)))" and dis: "dom (qs_pending (qw_srv w)) \<inter> dom (qs_sessions (qw_srv w)) = {}"
    using assms(4) by (auto simp: acct_inv_def acct_def)
  note mv = sock_moves [OF assms(2)] and cl = sock_closes [OF assms(2)] and same = sock_same [OF assms(2)]
  show ?thesis using assms(1)
  proof cases
    case (read_reserved b s first)
    then have "qs_sessions s = qs_sessions (qw_srv w)" by (auto simp: tryReserveSession_def split: if_splits)
    then show ?thesis using read_reserved(1) by (intro same) (simp_all add: uses_def sess_sock_def)
  next
    case (setup_fails first b key ip)
    then show ?thesis by (intro mv [of "Setting first b key ip" "Abandoning key ip"]) simp_all
  next
    case (setup_decides first b key ip net sni up)
    then show ?thesis by (intro mv [of "Setting first b key ip" "Dialing first b key ip (qw_gate w) net sni up"]) simp_all
  next
    case (dial_fails first b key ip g net sni up)
    then show ?thesis by (intro mv [of "Dialing first b key ip g net sni up" "Abandoning key ip"]) simp_all
  next
    case (setup_dials first b key ip g net sni up now)
    obtain ws where ws: "qw_workers w = add_mset (Dialing first b key ip g net sni up) ws" using setup_dials(3) by (metis multi_member_split)
    have "uses w' n = uses w n + (if n = qw_next w then 1 else 0)" for n by (auto simp: uses_def setup_dials(1) ws)
    then show ?thesis using assms(2) by (simp add: sock_inv_def setup_dials(1))
  next
    case (dialled_refused key ip sess)
    then show ?thesis by (intro mv [of "Dialled key ip sess" "Refused key ip (qn_backend sess)"]) simp_all
  next
    case (refused_closes key ip sock)
    then show ?thesis by (intro cl [OF uses_closed [OF refused_closes(3), where y = "Abandoning key ip"]]) simp_all
  next
    case (promoted key ip sess s)
    obtain ws where ws: "qw_workers w = add_mset (Dialled key ip sess) ws" using promoted(3) by (metis multi_member_split)
    have s: "qs_sessions s = (qs_sessions (qw_srv w))(key \<mapsto> sess)" using promoted(4) by (auto simp: promoteSession_def Let_def split: if_splits)
    have new: "qs_sessions (qw_srv w) key = None" using owner_pending(2) [OF assms(3) promoted(3), of key ip] dis by auto
    have "sess_sock n s = (if n = qn_backend sess then insert key (sess_sock n (qw_srv w)) else sess_sock n (qw_srv w))" for n
      using new by (auto simp: sess_sock_def s)
    moreover have "key \<notin> sess_sock n (qw_srv w)" for n using new by (simp add: sess_sock_def)
    ultimately have "card (sess_sock n s) = card (sess_sock n (qw_srv w)) + (if n = qn_backend sess then 1 else 0)" for n
      using finite_sess_sock [OF fin] by simp
    then show ?thesis by (intro same) (simp_all add: promoted(1) uses_def ws)
  next
    case (promotion_refused key ip sess s)
    have "qs_sessions s = qs_sessions (qw_srv w)" using promotion_refused(4) by (auto simp: promoteSession_def Let_def split: if_splits)
    then show ?thesis using promotion_refused by (intro mv [of "Dialled key ip sess" "Refused key ip (qn_backend sess)"]) simp_all
  next
    case (abandoned key ip)
    then show ?thesis by (intro mv [of "Abandoning key ip" "Abandoning key ip"]) (simp_all add: releasePending_def)
  next
    case (relay_ends key sock)
    then show ?thesis by (intro mv [of "Relaying key sock" "Dropping [(key, sock)]"]) simp_all
  next
    case (drop_stale key sock refs s)
    then show ?thesis using take_None [OF drop_stale(4)] by (intro mv [of "Dropping ((key, sock) # refs)" "Dropping refs"]) simp_all
  next
    case (drop_taken key sock refs ip s)
    obtain ws where ws: "qw_workers w = add_mset (Dropping ((key, sock) # refs)) ws" using drop_taken(3) by (metis multi_member_split)
    obtain v where v: "qs_sessions (qw_srv w) key = Some v" "qn_backend v = sock" "qs_sessions s = (qs_sessions (qw_srv w))(key := None)"
      using drop_taken(4) by (auto simp: take_session_def split: option.splits if_splits)
    have "sess_sock n s = (if n = sock then sess_sock n (qw_srv w) - {key} else sess_sock n (qw_srv w))" for n using v by (auto simp: sess_sock_def)
    moreover have "key \<in> sess_sock sock (qw_srv w)" using v by (simp add: sess_sock_def)
    ultimately have "card (sess_sock n s) + (if n = sock then 1 else 0) = card (sess_sock n (qw_srv w))" for n
      using card_Suc_Diff1 [OF finite_sess_sock [OF fin], of key sock] by simp
    then have "uses w' m = uses w m" for m using ws by (simp add: uses_def drop_taken(1) add.commute flip: \<open>\<And>n. card (sess_sock n s) + (if n = sock then 1 else 0) = card (sess_sock n (qw_srv w))\<close>)
    then show ?thesis by (intro same) (simp_all add: drop_taken(1))
  next
    case (drop_closes sock ip refs)
    then show ?thesis by (intro cl [OF uses_closed [OF drop_closes(3), where y = "Releasing ip refs"]]) simp_all
  next
    case (drop_released ip refs)
    then show ?thesis by (intro mv [of "Releasing ip refs" "Dropping refs"]) (simp_all add: releaseEstablished_def)
  next
    case drop_done
    then show ?thesis by (intro mv [of "Dropping []" "Dropping []"]) simp_all
  next
    case (read_refused b s)
    then have "s = qw_srv w" by (auto simp: tryReserveSession_def split: if_splits)
    then show ?thesis using read_refused(1) by (intro same) simp_all
  next
    case (collects now refs)
    then show ?thesis by (intro same) (simp_all add: uses_def)
  next
    case (shutdown_snapshots refs)
    then show ?thesis by (intro same) (simp_all add: uses_def)
  next
    case shutdown_closes
    then show ?thesis by (intro same) (simp_all add: uses_def sess_sock_def)
  qed (intro same; simp add: uses_def sess_sock_touch)+
qed

subsection \<open>Admission and shutdown\<close>

text \<open>An address a name stands for: one the resolver gave for it, or the address it spells once its spaces are trimmed.\<close>

definition names_ip :: "quic_net \<Rightarrow> string \<Rightarrow> IP \<Rightarrow> bool" where
  "names_ip net name ip = (let host = TrimSpace (TrimSuffix name ''.'') in
     ParseIP host = Some ip \<or> (case qv_lookup net host of None \<Rightarrow> False | Some ips \<Rightarrow> ip \<in> set ips))"

lemma ResolvePublic_names: "fst (ResolvePublic (qv_lookup net) name) = Inr ips \<Longrightarrow> ip \<in> set ips \<Longrightarrow> names_ip net name ip"
  by (auto simp: ResolvePublic_def names_ip_def Let_def check_addrs_ok split: if_splits option.splits)

text \<open>What every open socket was opened for: an admitted client, a name read from its first datagram, and a peer that is the address of the panel or a
  public address of that name at port 443.\<close>

definition admitted :: "quic_Config \<Rightarrow> crypto \<Rightarrow> quic_socket \<Rightarrow> bool" where
  "admitted cfg c so = (let n = ToLower (TrimRight (CHR ''.'') (so_sni so)) in
     (qc_Gate cfg \<longrightarrow> Allow (UDPAddr (Some (ua_IP (so_client so)))) (so_gate so)) \<and>
     extractSNI c (so_first so) = Ret (Some (so_sni so)) \<and> CHR '':'' \<notin> set n \<and> ParseIP n = None \<and>
     (if panel_name (qc_PanelDomain cfg) n then qc_PanelBackend cfg \<noteq> [] \<and> qv_panel (so_net so) (qc_PanelBackend cfg) = Some (so_peer so)
      else ua_Port (so_peer so) = 443 \<and> ua_Zone (so_peer so) = [] \<and> (\<exists>ip. names_ip (so_net so) n ip \<and> IsPublicIP ip \<and> To4 ip = Some (ua_IP (so_peer so)))))"

definition guard_inv :: "quic_Config \<Rightarrow> crypto \<Rightarrow> quic_world \<Rightarrow> bool" where
  "guard_inv cfg c w = ((\<forall>n so. qw_sockets w n = Some so \<longrightarrow> admitted cfg c so) \<and>
     (\<forall>first a key ip g net sni up. Dialing first a key ip g net sni up \<in># qw_workers w \<longrightarrow>
        admitted cfg c \<lparr>so_client = a, so_first = first, so_gate = g, so_net = net, so_sni = sni, so_peer = up\<rparr>))"

definition shut_inv :: "quic_world \<Rightarrow> bool" where
  "shut_inv w = ((qw_phase w \<noteq> Up \<longrightarrow> qs_closed (qw_srv w)) \<and>
     (qw_phase w = Snapshotted \<longrightarrow> (\<forall>k v. qs_sessions (qw_srv w) k = Some v \<longrightarrow> (\<exists>x \<in># qw_workers w. (k, qn_backend v) \<in> refs_of x))))"

lemma resolveUpstream_ok:
  assumes "resolveUpstream cfg net sni = Some (up, l)"
  shows "let n = ToLower (TrimRight (CHR ''.'') sni) in CHR '':'' \<notin> set n \<and> ParseIP n = None \<and>
     (if panel_name (qc_PanelDomain cfg) n then qc_PanelBackend cfg \<noteq> [] \<and> qv_panel net (qc_PanelBackend cfg) = Some up
      else ua_Port up = 443 \<and> ua_Zone up = [] \<and> (\<exists>ip. names_ip net n ip \<and> IsPublicIP ip \<and> To4 ip = Some (ua_IP up)))"
proof -
  let ?n = "ToLower (TrimRight (CHR ''.'') sni)"
  have n: "CHR '':'' \<notin> set ?n" "ParseIP ?n = None" using assms by (auto simp: resolveUpstream_def Let_def split: if_splits)
  show ?thesis
  proof (cases "panel_name (qc_PanelDomain cfg) ?n")
    case True
    then show ?thesis using assms n by (auto simp: resolveUpstream_def Let_def split: if_splits)
  next
    case False
    then obtain ips v4 rest where r: "fst (ResolvePublic (qv_lookup net) ?n) = Inr ips" "List.map_filter To4 ips = v4 # rest" "ua_IP up = v4" "ua_Port up = 443" "ua_Zone up = []"
      using assms n by (auto simp: resolveUpstream_def Let_def split: if_splits sum.splits list.splits)
    obtain asked where "ResolvePublic (qv_lookup net) ?n = (Inr ips, asked)" using r(1) by (metis prod.collapse)
    then have "list_all IsPublicIP ips" by (rule ResolvePublic_ok(2))
    moreover have "v4 \<in> set (List.map_filter To4 ips)" using r(2) by simp
    then obtain ip where "ip \<in> set ips" "To4 ip = Some v4" by (auto simp: List.map_filter_def)
    ultimately show ?thesis using False n r(3-5) ResolvePublic_names [OF r(1)] by (auto simp: Let_def list_all_iff)
  qed
qed

lemma setup_admitted:
  "setup_target cfg c net g cl first a = Ret (Some (sni, up)) \<Longrightarrow>
    admitted cfg c \<lparr>so_client = a, so_first = first, so_gate = g, so_net = net, so_sni = sni, so_peer = up\<rparr>"
  using resolveUpstream_ok [of cfg net sni up]
  by (auto simp: setup_target_def admitted_def Let_def split: if_splits outcome.splits option.splits)

lemma guard_inv_step: "qstep faults cfg c w w' \<Longrightarrow> guard_inv cfg c w \<Longrightarrow> guard_inv cfg c w'"
  by (induction rule: qstep.induct) (auto simp: guard_inv_def setup_admitted split: if_splits dest: in_diffD)

lemma shut_moves:
  assumes "shut_inv w" and "x \<in># qw_workers w" and "qw_workers w' = qw_workers w - {#x#} + new"
    and "qs_closed (qw_srv w') = qs_closed (qw_srv w)" "qw_phase w' = qw_phase w"
    and "\<And>k v. qw_phase w = Snapshotted \<Longrightarrow> qs_sessions (qw_srv w') k = Some v \<Longrightarrow>
      qs_sessions (qw_srv w) k = Some v \<and> ((k, qn_backend v) \<in> refs_of x \<longrightarrow> (\<exists>y \<in># new. (k, qn_backend v) \<in> refs_of y))"
  shows "shut_inv w'"
proof -
  obtain ws where ws: "qw_workers w = add_mset x ws" using assms(2) by (metis multi_member_split)
  have "\<exists>y \<in># qw_workers w'. (k, qn_backend v) \<in> refs_of y" if "qw_phase w = Snapshotted" "qs_sessions (qw_srv w') k = Some v" for k v
  proof -
    note h = that
    note s = assms(6) [OF h]
    then have "\<exists>z \<in># qw_workers w. (k, qn_backend v) \<in> refs_of z" using assms(1) h(1) by (simp add: shut_inv_def)
    then obtain z where "z \<in># qw_workers w" "(k, qn_backend v) \<in> refs_of z" by blast
    then show ?thesis using s by (auto simp: assms(3) ws)
  qed
  then show ?thesis using assms(1,4,5) by (simp add: shut_inv_def)
qed

lemma shut_same:
  assumes "shut_inv w" and "qw_workers w' = qw_workers w \<or> (\<exists>x. qw_workers w' = add_mset x (qw_workers w))"
    and "qs_closed (qw_srv w') = qs_closed (qw_srv w)" "qw_phase w' = qw_phase w"
    and "\<And>k. map_option qn_backend (qs_sessions (qw_srv w') k) = map_option qn_backend (qs_sessions (qw_srv w) k)"
  shows "shut_inv w'"
proof -
  have "\<exists>y \<in># qw_workers w'. (k, qn_backend v) \<in> refs_of y" if "qw_phase w = Snapshotted" "qs_sessions (qw_srv w') k = Some v" for k v
  proof -
    note h = that
    obtain u where u: "qs_sessions (qw_srv w) k = Some u" "qn_backend u = qn_backend v" using assms(5) [of k] h(2) by (cases "qs_sessions (qw_srv w) k") auto
    then have "\<exists>z \<in># qw_workers w. (k, qn_backend u) \<in> refs_of z" using assms(1) h(1) unfolding shut_inv_def by blast
    then show ?thesis using assms(2) by (auto simp: u(2))
  qed
  then show ?thesis using assms(1,3,4) by (simp add: shut_inv_def)
qed

lemma shut_inv_step:
  assumes "qstep faults cfg c w w'" and "shut_inv w"
  shows "shut_inv w'"
proof -
  note mv = shut_moves [OF assms(2)] and same = shut_same [OF assms(2)]
  show ?thesis using assms(1)
  proof cases
    case (setup_fails first b key ip)
    then show ?thesis by (intro mv [OF setup_fails(3), where new = "{#Abandoning key ip#}"]) simp_all
  next
    case (setup_decides first b key ip net sni up)
    then show ?thesis by (intro mv [OF setup_decides(3), where new = "{#Dialing first b key ip (qw_gate w) net sni up#}"]) simp_all
  next
    case (dial_fails first b key ip g net sni up)
    then show ?thesis by (intro mv [OF dial_fails(3), where new = "{#Abandoning key ip#}"]) simp_all
  next
    case (setup_dials first b key ip g net sni up now)
    then show ?thesis by (intro mv [OF setup_dials(3), where new = "{#Dialled key ip \<lparr>qn_clientAddr = b, qn_backend = qw_next w, qn_sni = sni, qn_resourceIP = ip, qn_lastActivity = now\<rparr>#}"]) simp_all
  next
    case (dialled_refused key ip sess)
    then show ?thesis by (intro mv [OF dialled_refused(3), where new = "{#Refused key ip (qn_backend sess)#}"]) simp_all
  next
    case (refused_closes key ip sock)
    then show ?thesis by (intro mv [OF refused_closes(3), where new = "{#Abandoning key ip#}"]) simp_all
  next
    case (promoted key ip sess s)
    have "\<not> qs_closed (qw_srv w)" "qs_closed s = qs_closed (qw_srv w)" using promoted(4) by (auto simp: promoteSession_def Let_def split: if_splits)
    moreover then have "qw_phase w = Up" using assms(2) by (auto simp: shut_inv_def)
    ultimately show ?thesis using promoted(1) by (simp add: shut_inv_def)
  next
    case (promotion_refused key ip sess s)
    have "qs_sessions s = qs_sessions (qw_srv w)" "qs_closed s = qs_closed (qw_srv w)"
      using promotion_refused(4) by (auto simp: promoteSession_def Let_def split: if_splits)
    then show ?thesis using promotion_refused by (intro mv [OF promotion_refused(3), where new = "{#Refused key ip (qn_backend sess)#}"]) simp_all
  next
    case (abandoned key ip)
    then show ?thesis by (intro mv [OF abandoned(3), where new = "{#}"]) (simp_all add: releasePending_def split: if_splits)
  next
    case (relay_ends key sock)
    then show ?thesis by (intro mv [OF relay_ends(3), where new = "{#Dropping [(key, sock)]#}"]) simp_all
  next
    case (drop_stale key sock refs s)
    then show ?thesis using take_None [OF drop_stale(4)] by (intro mv [OF drop_stale(3), where new = "{#Dropping refs#}"]) auto
  next
    case (drop_taken key sock refs ip s)
    have "qs_sessions s = (qs_sessions (qw_srv w))(key := None)" "qs_closed s = qs_closed (qw_srv w)"
      using drop_taken(4) by (auto simp: take_session_def split: option.splits if_splits)
    then show ?thesis using drop_taken by (intro mv [OF drop_taken(3), where new = "{#Detached sock ip refs#}"]) (auto split: if_splits)
  next
    case (drop_closes sock ip refs)
    then show ?thesis by (intro mv [OF drop_closes(3), where new = "{#Releasing ip refs#}"]) simp_all
  next
    case (drop_released ip refs)
    then show ?thesis by (intro mv [OF drop_released(3), where new = "{#Dropping refs#}"]) (simp_all add: releaseEstablished_def)
  next
    case drop_done
    then show ?thesis by (intro mv [OF drop_done(3), where new = "{#}"]) simp_all
  next
    case (read_refused b s)
    then have "s = qw_srv w" by (auto simp: tryReserveSession_def split: if_splits)
    then show ?thesis using read_refused(1) by (intro same) simp_all
  next
    case (read_reserved b s first)
    then have "qs_sessions s = qs_sessions (qw_srv w)" "qs_closed s = qs_closed (qw_srv w)" by (auto simp: tryReserveSession_def split: if_splits)
    then show ?thesis using read_reserved(1) by (intro same) auto
  next
    case (collects now refs)
    then show ?thesis by (intro same) auto
  next
    case shutdown_closes
    then show ?thesis by (simp add: shut_inv_def)
  next
    case shutdown_unbinds
    then show ?thesis using assms(2) by (simp add: shut_inv_def)
  next
    case (shutdown_snapshots refs)
    then show ?thesis using assms(2) by (auto simp: shut_inv_def)
  qed (intro same; simp add: touch_same)+
qed

section \<open>Properties\<close>

definition quic_inv :: "quic_Config \<Rightarrow> crypto \<Rightarrow> quic_world \<Rightarrow> bool" where
  "quic_inv cfg c w = (acct_inv cfg w \<and> own_inv w \<and> sock_inv w \<and> shut_inv w \<and> guard_inv cfg c w)"

lemma start_inv: "quic_inv (quic_defaults cfg) c (quic_start g)"
proof -
  have "capped (quic_defaults cfg) quic_New"
    by (simp add: capped_def quic_New_def ip_count_def quic_defaults_def defaultMaxSessions_def defaultMaxSessionsPerIP_def defaultMaxConcurrentSetups_def)
  moreover have "count_of rel_ip {#} = (\<lambda>_. 0)" by auto
  moreover have "sess_sock n quic_New = {}" for n by (simp add: sess_sock_def quic_New_def)
  ultimately show ?thesis using acct_New
    by (simp add: quic_inv_def quic_start_def acct_inv_def own_inv_def sock_inv_def uses_def shut_inv_def guard_inv_def) (simp add: quic_New_def)
qed

lemma step_inv: "qstep faults cfg c w w' \<Longrightarrow> quic_inv cfg c w \<Longrightarrow> quic_inv cfg c w'"
  by (simp add: quic_inv_def acct_inv_step own_inv_step sock_inv_step shut_inv_step guard_inv_step)

lemma reachable_inv: "quic_reachable (quic_defaults cfg) c w \<Longrightarrow> quic_inv (quic_defaults cfg) c w"
  by (induction rule: quic_reachable.induct) (auto intro: start_inv step_inv)

text \<open>(C13) The caps of the QUIC forwarder hold under every interleaving of its goroutines: setups in progress, sessions set up or in progress, and those of one
  source address never exceed their limits; the counters are exact up to the sessions that are being torn down; no client has a session and a setup at
  once; every established session has its own open socket.\<close>

theorem quic_resources_bounded:
  assumes "quic_reachable (quic_defaults cfg) c w"
  shows "let s = qw_srv w; p = card (dom (qs_pending s)); e = card (dom (qs_sessions s)) in
    int p \<le> qc_MaxConcurrentSetups (quic_defaults cfg) \<and> int (p + e) \<le> qc_MaxSessions (quic_defaults cfg) \<and>
    int (card (pend_of ip s) + card (sess_of ip s)) \<le> qc_MaxSessionsPerIP (quic_defaults cfg) \<and>
    qs_reserved s = int (p + e + rels (qw_workers w)) \<and>
    ip_count ip s = int (card (pend_of ip s) + card (sess_of ip s) + count_of rel_ip (qw_workers w) ip) \<and>
    dom (qs_pending s) \<inter> dom (qs_sessions s) = {} \<and>
    (\<forall>k v. qs_sessions s k = Some v \<longrightarrow> qw_sockets w (qn_backend v) \<noteq> None \<and> sess_sock (qn_backend v) s = {k})"
proof -
  have i: "acct_inv (quic_defaults cfg) w" "sock_inv w" using reachable_inv [OF assms] by (simp_all add: quic_inv_def)
  have a: "acct (count_of rel_ip (qw_workers w)) (rels (qw_workers w)) (qw_srv w)" and c: "capped (quic_defaults cfg) (qw_srv w)"
    using i(1) by (simp_all add: acct_inv_def)
  have sock: "qw_sockets w (qn_backend v) \<noteq> None \<and> sess_sock (qn_backend v) (qw_srv w) = {k}" if "qs_sessions (qw_srv w) k = Some v" for k v
  proof -
    have k: "k \<in> sess_sock (qn_backend v) (qw_srv w)" using that by (simp add: sess_sock_def)
    have fin: "finite (sess_sock (qn_backend v) (qw_srv w))" using a by (simp add: acct_def finite_sess_sock)
    have "card (sess_sock (qn_backend v) (qw_srv w)) \<noteq> 0" using k fin by auto
    moreover have "uses w (qn_backend v) = (if qw_sockets w (qn_backend v) = None then 0 else 1)" using i(2) by (simp add: sock_inv_def)
    ultimately have "qw_sockets w (qn_backend v) \<noteq> None" "card (sess_sock (qn_backend v) (qw_srv w)) = 1"
      by (auto simp: uses_def split: if_splits)
    moreover then obtain j where "sess_sock (qn_backend v) (qw_srv w) = {j}" by (metis card_1_singletonE)
    ultimately show ?thesis using k by simp
  qed
  have exact: "qs_reserved (qw_srv w) = int (card (dom (qs_pending (qw_srv w))) + card (dom (qs_sessions (qw_srv w))) + rels (qw_workers w))"
      "ip_count ip (qw_srv w) = int (card (pend_of ip (qw_srv w)) + card (sess_of ip (qw_srv w)) + count_of rel_ip (qw_workers w) ip)"
      "dom (qs_pending (qw_srv w)) \<inter> dom (qs_sessions (qw_srv w)) = {}"
    using a by (simp_all add: acct_def)
  have caps: "int (card (dom (qs_pending (qw_srv w)))) \<le> qc_MaxConcurrentSetups (quic_defaults cfg)"
      "qs_reserved (qw_srv w) \<le> qc_MaxSessions (quic_defaults cfg)" "ip_count ip (qw_srv w) \<le> qc_MaxSessionsPerIP (quic_defaults cfg)"
    using c by (simp_all add: capped_def)
  have "int (card (dom (qs_pending (qw_srv w))) + card (dom (qs_sessions (qw_srv w)))) \<le> qc_MaxSessions (quic_defaults cfg)"
    "int (card (pend_of ip (qw_srv w)) + card (sess_of ip (qw_srv w))) \<le> qc_MaxSessionsPerIP (quic_defaults cfg)"
    using exact(1,2) caps(2,3) by linarith+
  then show ?thesis using exact caps(1) sock unfolding Let_def by blast
qed

text \<open>How many moves are left in a worker, and how many in \<open>Shutdown\<close> and the two loops.\<close>

fun weight :: "worker \<Rightarrow> nat" where
  "weight (Setting first a key ip) = 8"
| "weight (Dialing first a key ip g net sni up) = 7"
| "weight (Dialled key ip sess) = 6"
| "weight (Relaying key sock) = 5"
| "weight (Refused key ip sock) = 2"
| "weight (Abandoning key ip) = 1"
| "weight (Dropping refs) = 3 * length refs + 1"
| "weight (Detached sock ip refs) = 3 * length refs + 3"
| "weight (Releasing ip refs) = 3 * length refs + 2"

definition left :: "quic_world \<Rightarrow> nat" where
  "left w = sum_mset (image_mset weight (qw_workers w))"

definition loops :: "quic_world \<Rightarrow> nat" where
  "loops w = (case qw_phase w of Up \<Rightarrow> 3 | Closing \<Rightarrow> 2 | Unbound \<Rightarrow> 1 | Snapshotted \<Rightarrow> 0) + (if qw_reading w then 1 else 0) +
     (case qw_collecting w of Scanning \<Rightarrow> 2 | Waiting \<Rightarrow> 1 | Ended \<Rightarrow> 0)"

definition closer :: "quic_world \<Rightarrow> quic_world \<Rightarrow> bool" where
  "closer w' w = (loops w' < loops w \<or> loops w' = loops w \<and> left w' < left w)"

definition shut_down :: "quic_world \<Rightarrow> bool" where
  "shut_down w = (qw_phase w = Snapshotted \<and> \<not> qw_reading w \<and> qw_collecting w = Ended \<and> qw_workers w = {#})"

lemma closer_moves:
  assumes "x \<in># qw_workers w" and "qw_workers w' = add_mset y (qw_workers w - {#x#})" and "weight y < weight x"
    and "qw_phase w' = qw_phase w" and "qw_reading w' = qw_reading w" and "qw_collecting w' = qw_collecting w"
  shows "closer w' w"
proof -
  have "left w' < left w" using assms(1-3) by (auto dest!: multi_member_split simp: left_def)
  then show ?thesis by (simp add: closer_def loops_def assms(4-6))
qed

lemma closer_ends:
  assumes "x \<in># qw_workers w" and "qw_workers w' = qw_workers w - {#x#}"
    and "qw_phase w' = qw_phase w" and "qw_reading w' = qw_reading w" and "qw_collecting w' = qw_collecting w"
  shows "closer w' w"
proof -
  have "0 < weight x" by (cases x) simp_all
  then have "left w' < left w" using assms(1,2) by (auto dest!: multi_member_split simp: left_def)
  then show ?thesis by (simp add: closer_def loops_def assms(3-5))
qed

lemma moves_rest [simp]:
  "qw_reading (moves x new w) = qw_reading w" "qw_collecting (moves x new w) = qw_collecting w"
  "qw_reading (close_socket n w) = qw_reading w" "qw_collecting (close_socket n w) = qw_collecting w"
  by (simp_all add: moves_def close_socket_def)

text \<open>A worker of a closed server has a move that no failure of the network is needed for, unless it waits for its backend on an open socket.\<close>

lemma worker_can_move:
  assumes "\<not> qw_crashed w" and "x \<in># qw_workers w" and "qs_closed (qw_srv w)" and "\<And>key sock. x = Relaying key sock \<Longrightarrow> qw_sockets w sock = None"
  shows "\<exists>w'. qstep False cfg c w w' \<and> closer w' w"
proof -
  have go: "\<exists>w'. qstep False cfg c w w' \<and> closer w' w" if "qstep False cfg c w w'" "qw_workers w' = add_mset y (qw_workers w - {#x#})" "weight y < weight x"
      "qw_phase w' = qw_phase w" "qw_reading w' = qw_reading w" "qw_collecting w' = qw_collecting w" for w' y
    using that closer_moves [OF assms(2), of w' y] by blast
  have fin: "\<exists>w'. qstep False cfg c w w' \<and> closer w' w" if "qstep False cfg c w w'" "qw_workers w' = qw_workers w - {#x#}"
      "qw_phase w' = qw_phase w" "qw_reading w' = qw_reading w" "qw_collecting w' = qw_collecting w" for w'
    using that closer_ends [OF assms(2), of w'] by blast
  show ?thesis
  proof (cases x)
    case (Setting first a key ip)
    have s: "setup_target cfg c undefined (qw_gate w) (qs_closed (qw_srv w)) first a = Ret None" using assms(3) by (simp add: setup_target_def)
    show ?thesis by (rule go [OF qstep.setup_fails [OF assms(1) assms(2) [unfolded Setting] s]]) (simp add: Setting, simp add: Setting, simp_all)
  next
    case (Dialing first a key ip g net sni up)
    show ?thesis by (rule go [OF qstep.setup_dials [OF assms(1) assms(2) [unfolded Dialing], where now = 0]]) (simp add: Dialing, simp add: Dialing, simp_all)
  next
    case (Dialled key ip sess)
    show ?thesis by (rule go [OF qstep.dialled_refused [OF assms(1) assms(2) [unfolded Dialled] disjI1 [OF assms(3)]]]) (simp add: Dialled, simp add: Dialled, simp_all)
  next
    case (Refused key ip sock)
    show ?thesis by (rule go [OF qstep.refused_closes [OF assms(1) assms(2) [unfolded Refused]]]) (simp add: Refused, simp add: Refused, simp_all)
  next
    case (Abandoning key ip)
    show ?thesis by (rule fin [OF qstep.abandoned [OF assms(1) assms(2) [unfolded Abandoning]]]) (simp_all add: Abandoning)
  next
    case (Relaying key sock)
    show ?thesis by (rule go [OF qstep.relay_ends [OF assms(1) assms(2) [unfolded Relaying] disjI1 [OF assms(4) [OF Relaying]]]])
      (simp add: Relaying, simp add: Relaying, simp_all)
  next
    case (Detached sock ip refs)
    show ?thesis by (rule go [OF qstep.drop_closes [OF assms(1) assms(2) [unfolded Detached]]]) (simp add: Detached, simp add: Detached, simp_all)
  next
    case (Releasing ip refs)
    show ?thesis by (rule go [OF qstep.drop_released [OF assms(1) assms(2) [unfolded Releasing]]]) (simp add: Releasing, simp add: Releasing, simp_all)
  next
    case (Dropping refs)
    show ?thesis
    proof (cases refs)
      case Nil
      show ?thesis by (rule fin [OF qstep.drop_done [OF assms(1) assms(2) [unfolded Dropping Nil]]]) (simp_all add: Dropping Nil)
    next
      case (Cons r rest)
      obtain key sock where r: "r = (key, sock)" by fastforce
      note x = Dropping [unfolded Cons r]
      obtain y s where t: "take_session key sock (qw_srv w) = (y, s)" by fastforce
      show ?thesis
      proof (cases y)
        case None
        show ?thesis by (rule go [OF qstep.drop_stale [OF assms(1) assms(2) [unfolded x] t [unfolded None]]]) (simp add: x, simp add: x, simp_all)
      next
        case (Some ip)
        show ?thesis by (rule go [OF qstep.drop_taken [OF assms(1) assms(2) [unfolded x] t [unfolded Some]]]) (simp add: x, simp add: x, simp_all)
      qed
    qed
  qed
qed

text \<open>Once the sessions are listed, every open socket is that of a listed session or of a worker that is about to close it: a relay never waits in vain.\<close>

lemma some_worker_can_move:
  assumes "quic_inv cfg c w" and "qw_phase w = Snapshotted" and "\<not> qw_crashed w" and "qw_workers w \<noteq> {#}"
  shows "\<exists>w'. qstep False cfg c w w' \<and> closer w' w"
proof (cases "\<exists>x \<in># qw_workers w. \<forall>key sock. x = Relaying key sock \<longrightarrow> qw_sockets w sock = None")
  case True
  have "qs_closed (qw_srv w)" using assms(1,2) by (simp add: quic_inv_def shut_inv_def)
  then show ?thesis using True worker_can_move [OF assms(3)] by blast
next
  case False
  then have all: "\<exists>key sock. x = Relaying key sock \<and> qw_sockets w sock \<noteq> None" if "x \<in># qw_workers w" for x using that by blast
  obtain x where "x \<in># qw_workers w" using assms(4) by (metis multiset_nonemptyE)
  then obtain sock where sock: "qw_sockets w sock \<noteq> None" using all by blast
  have "held_sock y \<noteq> Some sock" if "y \<in># qw_workers w" for y using all [OF that] by auto
  then have "count_of held_sock (qw_workers w) sock = 0" by (simp add: count_of_zero)
  moreover have "uses w sock = (if qw_sockets w sock = None then 0 else 1)" using assms(1) by (simp add: quic_inv_def sock_inv_def)
  ultimately have "card (sess_sock sock (qw_srv w)) \<noteq> 0" using sock by (auto simp: uses_def)
  then have "sess_sock sock (qw_srv w) \<noteq> {}" by auto
  then obtain k v where v: "qs_sessions (qw_srv w) k = Some v" "qn_backend v = sock" by (auto simp: sess_sock_def)
  then obtain y where "y \<in># qw_workers w" "(k, sock) \<in> refs_of y" using assms(1,2) by (auto simp: quic_inv_def shut_inv_def)
  then show ?thesis using all by fastforce
qed

lemma shutdown_can_move:
  assumes "quic_inv cfg c w" and "qw_phase w \<noteq> Up" and "\<not> qw_crashed w" and "\<not> shut_down w"
  shows "\<exists>w'. qstep False cfg c w w' \<and> closer w' w"
proof -
  have cl: "qs_closed (qw_srv w)" using assms(1,2) by (simp add: quic_inv_def shut_inv_def)
  have fin: "finite (dom (qs_sessions (qw_srv w)))" using assms(1) by (simp add: quic_inv_def acct_inv_def acct_def)
  consider "qw_phase w = Closing" | "qw_phase w = Unbound" | "qw_phase w = Snapshotted" "qw_reading w" | "qw_phase w = Snapshotted" "qw_collecting w = Scanning"
    | "qw_phase w = Snapshotted" "qw_collecting w = Waiting" | "qw_phase w = Snapshotted" "qw_workers w \<noteq> {#}"
    using assms(2,4) by (cases "qw_phase w"; cases "qw_collecting w") (auto simp: shut_down_def)
  then show ?thesis
  proof cases
    case 1
    then show ?thesis using qstep.shutdown_unbinds [OF assms(3) 1] by (intro exI conjI) (assumption, simp add: closer_def loops_def)
  next
    case 2
    have "{(k, qn_backend sess) | k sess. qs_sessions (qw_srv w) k = Some sess} \<subseteq> (\<lambda>k. (k, qn_backend (the (qs_sessions (qw_srv w) k)))) ` dom (qs_sessions (qw_srv w))"
      by (clarify, rule_tac x = k in image_eqI) auto
    then have "finite {(k, qn_backend sess) | k sess. qs_sessions (qw_srv w) k = Some sess}" by (rule finite_subset) (rule finite_imageI [OF fin])
    from finite_list [OF this] obtain refs where refs: "set refs = {(k, qn_backend sess) | k sess. qs_sessions (qw_srv w) k = Some sess}" by (rule exE)
    from qstep.shutdown_snapshots [OF assms(3) 2 refs] show ?thesis by (intro exI conjI) (assumption, simp add: closer_def loops_def 2)
  next
    case 3
    from qstep.read_ends [OF assms(3) 3(2)] 3(1) show ?thesis by (intro exI conjI) (blast, simp add: closer_def loops_def 3)
  next
    case 4
    have "list_all (idle cfg 0 (qw_srv w)) []" by simp
    from qstep.collects [OF assms(3) 4(2) this] show ?thesis by (intro exI conjI) (assumption, simp add: closer_def loops_def 4)
  next
    case 5
    from qstep.collect_ends [OF assms(3) 5(2) cl] show ?thesis by (intro exI conjI) (assumption, simp add: closer_def loops_def 5)
  next
    case 6
    then show ?thesis using some_worker_can_move [OF assms(1) _ assms(3)] by blast
  qed
qed

lemma step_after_shutdown:
  assumes "qstep faults cfg c w w'" and "qs_closed (qw_srv w)" and "qw_phase w \<noteq> Up"
  shows "qw_workers w' = qw_workers w \<and> loops w' = loops w \<or> closer w' w"
  using assms(1)
proof cases
  case (read_reserved b s first)
  then show ?thesis using assms(2) by (simp add: tryReserveSession_def)
next
  case (setup_fails first b key ip)
  then show ?thesis by (intro disjI2 closer_moves [OF setup_fails(3)]) (simp, simp, simp_all)
next
  case (setup_decides first b key ip net sni up)
  then show ?thesis by (intro disjI2 closer_moves [OF setup_decides(3)]) (simp, simp, simp_all)
next
  case (dial_fails first b key ip g net sni up)
  then show ?thesis by (intro disjI2 closer_moves [OF dial_fails(3)]) (simp, simp, simp_all)
next
  case (setup_dials first b key ip g net sni up now)
  then show ?thesis by (intro disjI2 closer_moves [OF setup_dials(3)]) (simp, simp, simp_all)
next
  case (dialled_refused key ip sess)
  then show ?thesis by (intro disjI2 closer_moves [OF dialled_refused(3)]) (simp, simp, simp_all)
next
  case (promoted key ip sess s)
  then show ?thesis by (intro disjI2 closer_moves [OF promoted(3)]) (simp, simp, simp_all)
next
  case (promotion_refused key ip sess s)
  then show ?thesis by (intro disjI2 closer_moves [OF promotion_refused(3)]) (simp, simp, simp_all)
next
  case (refused_closes key ip sock)
  then show ?thesis by (intro disjI2 closer_moves [OF refused_closes(3)]) (simp, simp, simp_all)
next
  case (abandoned key ip)
  then show ?thesis by (intro disjI2 closer_ends [OF abandoned(3)]) simp_all
next
  case (relay_ends key sock)
  then show ?thesis by (intro disjI2 closer_moves [OF relay_ends(3)]) (simp, simp, simp_all)
next
  case (drop_stale key sock refs s)
  then show ?thesis by (intro disjI2 closer_moves [OF drop_stale(3)]) (simp, simp, simp_all)
next
  case (drop_taken key sock refs ip s)
  then show ?thesis by (intro disjI2 closer_moves [OF drop_taken(3)]) (simp, simp, simp_all)
next
  case (drop_closes sock ip refs)
  then show ?thesis by (intro disjI2 closer_moves [OF drop_closes(3)]) (simp, simp, simp_all)
next
  case (drop_released ip refs)
  then show ?thesis by (intro disjI2 closer_moves [OF drop_released(3)]) (simp, simp, simp_all)
next
  case drop_done
  then show ?thesis by (intro disjI2 closer_ends [OF drop_done(3)]) simp_all
qed (use assms(2,3) in \<open>auto simp: closer_def loops_def\<close>)

lemma shut_down_clean:
  assumes "quic_inv cfg c w" and "shut_down w"
  shows "qw_srv w = quic_New\<lparr>qs_closed := True\<rparr> \<and> qw_sockets w = (\<lambda>_. None)"
proof -
  have i: "acct_inv cfg w" "own_inv w" "sock_inv w" "shut_inv w" and e: "qw_workers w = {#}" and ph: "qw_phase w = Snapshotted"
    using assms by (simp_all add: quic_inv_def shut_down_def)
  have s: "qs_sessions (qw_srv w) = (\<lambda>_. None)" "qs_closed (qw_srv w)" using i(4) ph e by (auto simp: shut_inv_def fun_eq_iff)
  moreover have p: "qs_pending (qw_srv w) = (\<lambda>_. None)" using i(2) e by (auto simp: own_inv_def fun_eq_iff)
  moreover have "qs_reserved (qw_srv w) = 0" using i(1) e s p by (simp add: acct_inv_def acct_def)
  moreover have "qs_perIP (qw_srv w) j = None" for j
  proof (rule ccontr)
    assume "qs_perIP (qw_srv w) j \<noteq> None"
    then obtain n where n: "qs_perIP (qw_srv w) j = Some n" by blast
    then have "1 \<le> n" "ip_count j (qw_srv w) = 0" using i(1) e s p by (auto simp: acct_inv_def acct_def pend_of_def sess_of_def)
    then show False using n by (simp add: ip_count_def)
  qed
  then have "qs_perIP (qw_srv w) = (\<lambda>_. None)" by blast
  moreover have "qw_sockets w n = None" for n
    using i(3) e s(1) by (auto simp: sock_inv_def uses_def sess_sock_def dest: spec [of _ n] split: if_splits)
  then have "qw_sockets w = (\<lambda>_. None)" by blast
  ultimately show ?thesis by (simp add: quic_New_def)
qed

text \<open>(C14) The shutdown of the QUIC forwarder releases everything.  From the moment \<open>Shutdown\<close> has closed the server, every step of the
  program, whatever the network does, either leaves the workers and the loops where they are or uses up one of the finitely many moves that
  are left (\<open>closer\<close>: the moves of \<open>Shutdown\<close> and the two loops first, then those of the workers).  Until the shutdown is over some such
  move is possible without any failure of the network: a relay that waits for its backend is woken because its session was listed and its socket is
  closed.  When it is over no session, no reservation, no counter and no socket is left.\<close>

theorem quic_shutdown_releases_all:
  assumes "quic_reachable (quic_defaults cfg) c w" and "qw_phase w \<noteq> Up" and "\<not> qw_crashed w"
  shows "(qstep faults (quic_defaults cfg) c w w' \<longrightarrow> qw_workers w' = qw_workers w \<and> loops w' = loops w \<or> closer w' w) \<and>
    (if shut_down w then qw_srv w = quic_New\<lparr>qs_closed := True\<rparr> \<and> qw_sockets w = (\<lambda>_. None)
     else \<exists>w''. qstep False (quic_defaults cfg) c w w'' \<and> closer w'' w)"
proof -
  have i: "quic_inv (quic_defaults cfg) c w" by (rule reachable_inv [OF assms(1)])
  have "qs_closed (qw_srv w)" using i assms(2) by (simp add: quic_inv_def shut_inv_def)
  then show ?thesis using step_after_shutdown [OF _ _ assms(2)] shutdown_can_move [OF i assms(2,3)] shut_down_clean [OF i] by auto
qed

text \<open>(C15) Whom the QUIC forwarder serves and where it connects to.  In every reachable state each open socket was opened for a client the gate admitted at that
  time, after a first datagram that names a server which is no address literal.  Its peer is the address the panel's backend resolved to, for a name of
  the panel, and else an IPv4 address that name stands for, public, at port 443.\<close>

theorem quic_sockets_guarded:
  assumes "quic_reachable (quic_defaults cfg) c w" and "qw_sockets w n = Some so"
  shows "let name = ToLower (TrimRight (CHR ''.'') (so_sni so)) in
     (qc_Gate cfg \<longrightarrow> Allow (UDPAddr (Some (ua_IP (so_client so)))) (so_gate so)) \<and>
     extractSNI c (so_first so) = Ret (Some (so_sni so)) \<and> CHR '':'' \<notin> set name \<and> ParseIP name = None \<and>
     (if panel_name (qc_PanelDomain cfg) name then qc_PanelBackend cfg \<noteq> [] \<and> qv_panel (so_net so) (qc_PanelBackend cfg) = Some (so_peer so)
      else ua_Port (so_peer so) = 443 \<and> ua_Zone (so_peer so) = [] \<and>
        (\<exists>ip. names_ip (so_net so) name ip \<and> IsPublicIP ip \<and> To4 ip = Some (ua_IP (so_peer so))))"
proof -
  have adm: "admitted (quic_defaults cfg) c so" using reachable_inv [OF assms(1)] assms(2) by (simp add: quic_inv_def guard_inv_def)
  have eq: "qc_Gate (quic_defaults cfg) = qc_Gate cfg" "qc_PanelDomain (quic_defaults cfg) = qc_PanelDomain cfg"
    "qc_PanelBackend (quic_defaults cfg) = qc_PanelBackend cfg" by (simp_all add: quic_defaults_def)
  show ?thesis by (rule adm [unfolded admitted_def eq])
qed

section \<open>A run\<close>

definition sample_quic_config :: quic_Config where
  "sample_quic_config = \<lparr>qc_Listen = [], qc_PanelDomain = ''panel.test'', qc_PanelBackend = ''127.0.0.1:8445'', qc_IdleTimeout = 0, qc_MaxSessions = 0,
     qc_MaxSessionsPerIP = 0, qc_MaxConcurrentSetups = 0, qc_Gate = False\<rparr>"

definition sample_udp :: udp_addr where
  "sample_udp = \<lparr>ua_IP = [10, 0, 0, 1], ua_Port = 5000, ua_Zone = []\<rparr>"

definition sample_quic_net :: quic_net where
  "sample_quic_net = \<lparr>qv_lookup = (\<lambda>_. Some [[8, 8, 8, 8]]), qv_panel = (\<lambda>_. None)\<rparr>"

definition sample_first :: "byte list" where
  "sample_first = protect sample_crypto sample_seal
     (sample_initial (replicate 3 0 @ crypto_bytes 0 0 1 (length (encode_hello sample_hello)) (encode_hello sample_hello @ []))) @ []"

lemma sample_first_sni: "extractSNI sample_crypto sample_first = Ret (Some ''a.b'')"
proof -
  let ?i = "sample_initial (replicate 3 0 @ crypto_bytes 0 0 1 (length (encode_hello sample_hello)) (encode_hello sample_hello @ []))"
  have i: "wf_initial ?i" by (simp add: wf_initial_def sample_initial_def crypto_bytes_def length_sample_hello)
  have "string_of_bytes [97, 46, 98] = ''a.b''" by (simp add: string_of_bytes_def char_of_def bit_Suc_0_iff)
  then have "sniFromClientHello (encode_hello sample_hello) = Ret (Some ''a.b'')"
    using sniFromClientHello_encode [OF sample_hello_ok, of "[]"] by simp
  then have "parseCryptoFrames (in_payload ?i) = Ret (Some ''a.b'')"
    by (intro parseCryptoFrames_hello [where k = 3 and po = 0 and o' = 0 and pl = 1 and d = "encode_hello sample_hello" and r = "[]"])
      (simp_all add: sample_initial_def length_sample_hello)
  then show ?thesis unfolding sample_first_def by (rule trans [OF extractSNI_protect [OF sample_crypto_ok i]])
qed

lemma sample_texts: "UDPAddr_String sample_udp = ''10.0.0.1:5000''" "normalizedIP (ua_IP sample_udp) = ''10.0.0.1''"
proof -
  have "itoa 10 = ''10''" "itoa 0 = ''0''" "itoa 1 = ''1''" "itoa 5000 = ''5000''" by (simp_all add: itoa_def itoa_digits.simps digit_char_def char_of_def bit_iff_odd)
  then show "UDPAddr_String sample_udp = ''10.0.0.1:5000''" "normalizedIP (ua_IP sample_udp) = ''10.0.0.1''"
    by (simp_all add: UDPAddr_String_def normalizedIP_def IP_String_def To4_def sample_udp_def JoinHostPort_def Let_def)
qed

lemma sample_upstream:
  "resolveUpstream (quic_defaults sample_quic_config) sample_quic_net ''a.b'' = Some (\<lparr>ua_IP = [8, 8, 8, 8], ua_Port = 443, ua_Zone = []\<rparr>, False)"
  by code_simp

definition sample_reserved :: quic_world where
  "sample_reserved = (quic_start None)\<lparr>qw_srv := quic_New\<lparr>qs_pending := [''10.0.0.1:5000'' \<mapsto> ''10.0.0.1''], qs_reserved := 1, qs_perIP := [''10.0.0.1'' \<mapsto> 1]\<rparr>,
     qw_workers := {#Setting sample_first sample_udp ''10.0.0.1:5000'' ''10.0.0.1''#}\<rparr>"

lemma sample_reserved_reachable: "quic_reachable (quic_defaults sample_quic_config) sample_crypto sample_reserved"
proof -
  let ?s = "quic_New\<lparr>qs_pending := [''10.0.0.1:5000'' \<mapsto> ''10.0.0.1''], qs_reserved := 1, qs_perIP := [''10.0.0.1'' \<mapsto> 1]\<rparr>"
  have c: "qc_MaxConcurrentSetups (quic_defaults sample_quic_config) = 128" "qc_MaxSessions (quic_defaults sample_quic_config) = 2048"
    "qc_MaxSessionsPerIP (quic_defaults sample_quic_config) = 64" by code_simp+
  have r: "tryReserveSession (quic_defaults sample_quic_config) (UDPAddr_String sample_udp) (normalizedIP (ua_IP sample_udp)) (qw_srv (quic_start None)) = (True, ?s)"
    by (simp add: sample_texts tryReserveSession_def quic_start_def quic_New_def c ip_count_def)
  have "qstep True (quic_defaults sample_quic_config) sample_crypto (quic_start None) sample_reserved"
    using qstep.read_reserved [OF _ _ r, of True sample_crypto sample_first] by (simp add: sample_reserved_def quic_start_def sample_texts)
  then show ?thesis by (rule quic_reachable.stepped [OF quic_reachable.started])
qed

theorem quic_resources_bounded_witness:
  "\<exists>w. quic_reachable (quic_defaults sample_quic_config) sample_crypto w \<and> qs_reserved (qw_srv w) = 1 \<and>
     card (pend_of ''10.0.0.1'' (qw_srv w)) + card (sess_of ''10.0.0.1'' (qw_srv w)) \<le> 64"
proof -
  have "qc_MaxSessionsPerIP (quic_defaults sample_quic_config) = 64" by code_simp
  then show ?thesis using quic_resources_bounded [OF sample_reserved_reachable, of "''10.0.0.1''"] sample_reserved_reachable
    by (intro exI [of _ sample_reserved]) (simp add: Let_def sample_reserved_def)
qed

theorem quic_sockets_guarded_witness:
  "\<exists>w so. quic_reachable (quic_defaults sample_quic_config) sample_crypto w \<and> qw_sockets w 0 = Some so \<and> so_sni so = ''a.b'' \<and>
     ua_Port (so_peer so) = 443 \<and> (\<exists>ip. names_ip (so_net so) ''a.b'' ip \<and> IsPublicIP ip \<and> To4 ip = Some (ua_IP (so_peer so)))"
proof -
  let ?up = "\<lparr>ua_IP = [8, 8, 8, 8], ua_Port = 443, ua_Zone = []\<rparr>" and ?cfg = "quic_defaults sample_quic_config"
  let ?so = "\<lparr>so_client = sample_udp, so_first = sample_first, so_gate = None, so_net = sample_quic_net, so_sni = ''a.b'', so_peer = ?up\<rparr>"
  let ?x = "Setting sample_first sample_udp ''10.0.0.1:5000'' ''10.0.0.1''"
    and ?y = "Dialing sample_first sample_udp ''10.0.0.1:5000'' ''10.0.0.1'' None sample_quic_net ''a.b'' ?up"
  let ?w1 = "moves ?x {#?y#} sample_reserved"
  have "setup_target ?cfg sample_crypto sample_quic_net None False sample_first sample_udp = Ret (Some (''a.b'', ?up))"
    by (simp add: setup_target_def sample_first_sni sample_upstream) (simp add: quic_defaults_def sample_quic_config_def)
  then have tgt: "setup_target ?cfg sample_crypto sample_quic_net (qw_gate sample_reserved) (qs_closed (qw_srv sample_reserved)) sample_first sample_udp = Ret (Some (''a.b'', ?up))"
    by (simp add: sample_reserved_def quic_start_def quic_New_def)
  have "qstep True ?cfg sample_crypto sample_reserved ?w1"
    using qstep.setup_decides [OF _ _ tgt, of "''10.0.0.1:5000''" "''10.0.0.1''" True] by (simp add: sample_reserved_def quic_start_def)
  with sample_reserved_reachable have r: "quic_reachable ?cfg sample_crypto ?w1" by (rule quic_reachable.stepped)
  have d: "\<not> qw_crashed ?w1" "?y \<in># qw_workers ?w1" by (simp_all add: sample_reserved_def quic_start_def)
  obtain w where w: "quic_reachable ?cfg sample_crypto w" "qw_sockets w 0 = Some ?so"
    using quic_reachable.stepped [OF r qstep.setup_dials [OF d, of True ?cfg sample_crypto 0]] by (force simp: sample_reserved_def quic_start_def)
  have n: "\<not> panel_name (qc_PanelDomain sample_quic_config) (ToLower (TrimRight (CHR ''.'') ''a.b''))" "ToLower (TrimRight (CHR ''.'') ''a.b'') = ''a.b''" by code_simp+
  show ?thesis using quic_sockets_guarded [OF w] w n by (intro exI [of _ w] exI [of _ ?so]) (simp add: Let_def)
qed

theorem quic_shutdown_releases_all_witness:
  "\<exists>w w''. quic_reachable (quic_defaults sample_quic_config) sample_crypto w \<and>
     qw_workers w = {#Setting sample_first sample_udp ''10.0.0.1:5000'' ''10.0.0.1''#} \<and> qw_phase w = Closing \<and>
     qstep False (quic_defaults sample_quic_config) sample_crypto w w'' \<and> closer w'' w"
proof -
  let ?cfg = "quic_defaults sample_quic_config" and ?c = sample_crypto
  let ?w = "sample_reserved\<lparr>qw_srv := (qw_srv sample_reserved)\<lparr>qs_closed := True\<rparr>, qw_phase := Closing\<rparr>"
  have "qstep True ?cfg ?c sample_reserved ?w" using qstep.shutdown_closes [of sample_reserved True ?cfg ?c] by (simp add: sample_reserved_def quic_start_def)
  then have r: "quic_reachable ?cfg ?c ?w" by (rule quic_reachable.stepped [OF sample_reserved_reachable])
  have "qw_phase ?w \<noteq> Up" "\<not> qw_crashed ?w" "\<not> shut_down ?w" by (simp_all add: sample_reserved_def quic_start_def shut_down_def)
  moreover have "qw_workers ?w = {#Setting sample_first sample_udp ''10.0.0.1:5000'' ''10.0.0.1''#}" by (simp add: sample_reserved_def)
  moreover obtain w'' where "qstep False ?cfg ?c ?w w''" "closer w'' ?w" using quic_shutdown_releases_all [OF r calculation(1,2), of True ?w] calculation(3) by auto
  ultimately show ?thesis using r by (intro exI [of _ ?w] exI [of _ w'']) simp
qed

end
