(* ===== verification/Frontdoor.thy ===== *)
theory Frontdoor
  imports Resolver QuicServer RuleImport
begin

text \<open>
  The DNS front door, \<open>internal/frontdoor\<close>: the plain listeners with their supervisor (\<open>supervisor.go\<close>), the encrypted ones,
  and their start, reconfiguration and shutdown (\<open>frontdoor.go\<close>, with the \<open>listen\<close>, \<open>Start\<close> and \<open>Shutdown\<close> of each transport).

  The host is the record \<open>netw\<close>: the open sockets, the next socket number, and how the coming calls that open a socket end.  A section
  under \<open>fd.mu\<close> is one step.  \<open>released\<close> tells whether \<open>ShutdownContext\<close> of the DNS library closes the socket of a server that was
  never activated; a server that serves is always closed by it.  A TLS configuration is only there or not.  The network interfaces are
  the argument \<open>ifs\<close>.  Times are nanoseconds.
\<close>

section \<open>Sockets\<close>

datatype lkind = KUDP | KTCP | KDoT | KDoQ | KDoH3

record sock =
  so_num :: nat
  so_kind :: lkind
  so_addr :: string

text \<open>A call succeeds, fails, or is given up because its context ended.\<close>

datatype listen_end = LOk | LFail string | LCancel string

record netw =
  nw_open :: "sock list"
  nw_next :: nat
  nw_ends :: "listen_end list"

definition next_end :: "netw \<Rightarrow> listen_end \<times> netw" where
  "next_end w = (case nw_ends w of [] \<Rightarrow> (LOk, w) | e # es \<Rightarrow> (e, w\<lparr>nw_ends := es\<rparr>))"

definition open_sock :: "lkind \<Rightarrow> string \<Rightarrow> netw \<Rightarrow> sock \<times> netw" where
  "open_sock k addr w = (let s = \<lparr>so_num = nw_next w, so_kind = k, so_addr = addr\<rparr> in
     (s, w\<lparr>nw_open := nw_open w @ [s], nw_next := Suc (nw_next w)\<rparr>))"

definition close_sock :: "sock \<Rightarrow> netw \<Rightarrow> netw" where
  "close_sock s w = w\<lparr>nw_open := filter (\<lambda>x. x \<noteq> s) (nw_open w)\<rparr>"

definition listen :: "lkind \<Rightarrow> string \<Rightarrow> netw \<Rightarrow> (string, sock) result \<times> netw" where
  "listen k addr w = (case next_end w of
      (LOk, w) \<Rightarrow> (case open_sock k addr w of (s, w) \<Rightarrow> (Inr s, w))
    | (LFail e, w) \<Rightarrow> (Inl e, w)
    | (LCancel e, w) \<Rightarrow> (Inl e, w))"

text \<open>\<open>DoT.Start\<close> waits for the server's goroutine to be ready or to fail; when its context ends first it returns, and the goroutine
  goes on to listen.\<close>

definition defaultDoTAddr :: string where "defaultDoTAddr = ''[::]:853''"
definition defaultDoQAddr :: string where "defaultDoQAddr = ''[::]:853''"
definition defaultDoH3Addr :: string where "defaultDoH3Addr = ''[::]:443''"

definition DoT_Start :: "netw \<Rightarrow> (string, sock) result \<times> netw" where
  "DoT_Start w = (case next_end w of
      (LOk, w) \<Rightarrow> (case open_sock KDoT defaultDoTAddr w of (s, w) \<Rightarrow> (Inr s, w))
    | (LFail e, w) \<Rightarrow> (Inl e, w)
    | (LCancel e, w) \<Rightarrow> (case open_sock KDoT defaultDoTAddr w of (s, w) \<Rightarrow> (Inl e, w)))"

definition DoQ_Start :: "string \<Rightarrow> netw \<Rightarrow> (string, sock) result \<times> netw" where
  "DoQ_Start addr w = (case listen KDoQ addr w of
      (Inl e, w) \<Rightarrow> (Inl e, w)
    | (Inr s, w) \<Rightarrow> (case next_end w of
          (LOk, w) \<Rightarrow> (Inr s, w)
        | (LFail e, w) \<Rightarrow> (Inl e, close_sock s w)
        | (LCancel e, w) \<Rightarrow> (Inl e, close_sock s w)))"

definition DoH3_Start :: "string \<Rightarrow> netw \<Rightarrow> (string, sock) result \<times> netw" where
  "DoH3_Start addr w = listen KDoH3 addr w"

definition shutdown_all :: "bool \<Rightarrow> sock list \<Rightarrow> netw \<Rightarrow> netw" where
  "shutdown_all released ss w = (if released then fold close_sock ss w else w)"

section \<open>Supervisor (\<open>supervisor.go\<close>)\<close>

definition MaxRestartsPerWindow :: nat where "MaxRestartsPerWindow = 5"
definition RestartWindow :: int where "RestartWindow = 60000000000"

definition restartBackoff :: "int list" where
  "restartBackoff = [250000000, 500000000, 1000000000, 2000000000, 4000000000]"

record Supervisor =
  sv_restarts :: "int list"
  sv_givenUp :: bool

definition NewSupervisor :: Supervisor where
  "NewSupervisor = \<lparr>sv_restarts = [], sv_givenUp = False\<rparr>"

definition recordRestart :: "int \<Rightarrow> Supervisor \<Rightarrow> bool \<times> Supervisor" where
  "recordRestart now sv = (let kept = filter (\<lambda>t. t > now - RestartWindow) (sv_restarts sv) @ [now] in
     (length kept \<le> MaxRestartsPerWindow, sv\<lparr>sv_restarts := kept\<rparr>))"

definition backoff_for :: "nat \<Rightarrow> int" where
  "backoff_for attempt = restartBackoff ! min attempt (length restartBackoff - 1)"

text \<open>One turn of the loop of \<open>Run\<close>: the task ends with an error (a panic is one) or without, at time \<open>now\<close>; \<open>stopped\<close> is whether the
  context had ended by then.\<close>

datatype run_result = RunStopped | RunFinished | RunGaveUp

datatype run_turn = TurnReturn run_result bool | TurnBackoff int

definition sup_turn :: "bool \<Rightarrow> string option \<Rightarrow> int \<Rightarrow> nat \<Rightarrow> Supervisor \<Rightarrow> run_turn \<times> Supervisor" where
  "sup_turn stopped err now attempt sv =
     (if stopped then (TurnReturn RunStopped False, sv)
      else case err of
          None \<Rightarrow> (TurnReturn RunFinished False, sv)
        | Some e \<Rightarrow> (case recordRestart now sv of
              (False, sv) \<Rightarrow> (TurnReturn RunGaveUp (\<not> sv_givenUp sv), sv\<lparr>sv_givenUp := True\<rparr>)
            | (True, sv) \<Rightarrow> (TurnBackoff (backoff_for attempt), sv)))"

text \<open>\<open>Run\<close> on the ends of its task: what it returns (\<open>None\<close> while it runs), how often \<open>onGiveUp\<close> was called, and the delays it waited.
  \<open>woken\<close> is whether the context ended the delay.\<close>

record task_end =
  te_stopped :: bool
  te_err :: "string option"
  te_now :: int
  te_woken :: bool

fun sup_run :: "nat \<Rightarrow> Supervisor \<Rightarrow> task_end list \<Rightarrow> (run_result option \<times> nat \<times> int list) \<times> Supervisor" where
  "sup_run attempt sv [] = ((None, 0, []), sv)"
| "sup_run attempt sv (t # ts) = (case sup_turn (te_stopped t) (te_err t) (te_now t) attempt sv of
      (TurnReturn r calls, sv) \<Rightarrow> ((Some r, if calls then 1 else 0, []), sv)
    | (TurnBackoff d, sv) \<Rightarrow>
        if te_woken t then ((Some RunStopped, 0, [d]), sv)
        else (case sup_run (Suc attempt) sv ts of ((r, n, ds), sv) \<Rightarrow> ((r, n, d # ds), sv)))"

section \<open>Configuration (\<open>frontdoor.go\<close>)\<close>

record FdConfig =
  BindUDP53 :: "string list"
  BindTCP53 :: "string list"
  PublicPlainDNSEnabled :: bool
  fc_TLSConfigs :: bool
  DoQEnabled :: bool
  DoQBind :: "string list"
  DoH3Enabled :: bool
  DoH3Bind :: "string list"

definition firstBindOrDefault :: "string list \<Rightarrow> string \<Rightarrow> string" where
  "firstBindOrDefault binds def = (case binds of [] \<Rightarrow> def | b # _ \<Rightarrow> b)"

definition IP_IsUnspecified :: "IP \<Rightarrow> bool" where
  "IP_IsUnspecified ip = (ip = replicate 4 0 \<or> ip = v4InV6Prefix @ replicate 4 0 \<or> ip = replicate 16 0)"

definition IP_IsLoopback :: "IP \<Rightarrow> bool" where
  "IP_IsLoopback ip = (case To4 ip of Some v4 \<Rightarrow> hd v4 = 127 | None \<Rightarrow> ip = replicate 15 0 @ [1])"

text \<open>An interface has a name and, unless they cannot be read, its addresses; an address that is no \<open>net.IPNet\<close> is \<open>None\<close>.\<close>

type_synonym iface = "string \<times> IP option list option"

definition usable_ip :: "IP option \<Rightarrow> bool" where
  "usable_ip a = (case a of None \<Rightarrow> False | Some ip \<Rightarrow> \<not> IP_IsLoopback ip \<and> \<not> IP_IsUnspecified ip)"

fun wg_ip :: "iface list \<Rightarrow> string option" where
  "wg_ip [] = None"
| "wg_ip ((n, addrs) # ifs) = (let name = ToLower n in
     if \<not> (HasPrefix name ''pgw-'' \<or> HasPrefix name ''wg'') then wg_ip ifs
     else case addrs of
         None \<Rightarrow> wg_ip ifs
       | Some as \<Rightarrow> (case find usable_ip as of
             Some (Some ip) \<Rightarrow> Some (IP_String ip)
           | _ \<Rightarrow> wg_ip ifs))"

definition discoverWireGuardIP :: "iface list option \<Rightarrow> string option" where
  "discoverWireGuardIP ifs = (case ifs of None \<Rightarrow> None | Some is \<Rightarrow> wg_ip is)"

definition DefaultConfig :: "iface list option \<Rightarrow> FdConfig" where
  "DefaultConfig ifs = (let binds = ''[::1]:53'' # (case discoverWireGuardIP ifs of None \<Rightarrow> [] | Some ip \<Rightarrow> [JoinHostPort ip ''53'']) in
     \<lparr>BindUDP53 = binds, BindTCP53 = binds, PublicPlainDNSEnabled = False, fc_TLSConfigs = False, DoQEnabled = False, DoQBind = [],
      DoH3Enabled = False, DoH3Bind = []\<rparr>)"

definition isWildcardBind :: "string \<Rightarrow> bool" where
  "isWildcardBind addr = (let host = (case SplitHostPort addr of None \<Rightarrow> addr | Some (h, _) \<Rightarrow> h) in
     host = [] \<or> (case ParseIP host of None \<Rightarrow> False | Some ip \<Rightarrow> IP_IsUnspecified ip))"

definition sanitizeBinds :: "string list \<Rightarrow> bool \<Rightarrow> string list" where
  "sanitizeBinds binds publicEnabled = (if publicEnabled then binds else filter (\<lambda>a. \<not> isWildcardBind a) binds)"

definition effectiveBinds :: "iface list option \<Rightarrow> FdConfig \<Rightarrow> string list \<times> string list" where
  "effectiveBinds ifs cfg =
     (let (udp, tcp) = (if BindUDP53 cfg = [] \<and> BindTCP53 cfg = []
          then (BindUDP53 (DefaultConfig ifs), BindTCP53 (DefaultConfig ifs)) else (BindUDP53 cfg, BindTCP53 cfg)) in
      (sanitizeBinds udp (PublicPlainDNSEnabled cfg), sanitizeBinds tcp (PublicPlainDNSEnabled cfg)))"

section \<open>State\<close>

text \<open>Where the goroutine of the supervisor stands: not started, about to serve, serving, waiting out a delay, or over.\<close>

datatype run_phase = RunIdle | RunEnter | RunServing | RunBackoff | RunOver

record Frontdoor =
  fd_cfg :: FdConfig
  fd_udp :: "sock list"
  fd_tcp :: "sock list"
  fd_dot :: "sock option"
  fd_doq :: "sock option"
  fd_doh3 :: "sock option"
  fd_started :: bool
  fd_degraded :: bool
  fd_supervisor :: Supervisor
  fd_cancelled :: bool
  fd_attempt :: nat
  fd_phase :: run_phase

definition Frontdoor_New :: "FdConfig \<Rightarrow> Frontdoor" where
  "Frontdoor_New cfg = \<lparr>fd_cfg = cfg, fd_udp = [], fd_tcp = [], fd_dot = None, fd_doq = None, fd_doh3 = None, fd_started = False,
     fd_degraded = False, fd_supervisor = NewSupervisor, fd_cancelled = False, fd_attempt = 0, fd_phase = RunIdle\<rparr>"

type_synonym fdw = "Frontdoor \<times> netw"

record ListenerState =
  ls_Configured :: bool
  ls_Running :: bool

record FdStatus =
  st_UDP53 :: ListenerState
  st_TCP53 :: ListenerState
  st_DoT :: ListenerState
  st_DoQ :: ListenerState
  st_DoH3 :: ListenerState
  st_Degraded :: bool

definition Frontdoor_Status :: "iface list option \<Rightarrow> Frontdoor \<Rightarrow> FdStatus" where
  "Frontdoor_Status ifs fd = (case effectiveBinds ifs (fd_cfg fd) of (udpBinds, tcpBinds) \<Rightarrow>
     let tls = fc_TLSConfigs (fd_cfg fd) in
     \<lparr>st_UDP53 = \<lparr>ls_Configured = (udpBinds \<noteq> []), ls_Running = (fd_udp fd \<noteq> [])\<rparr>,
      st_TCP53 = \<lparr>ls_Configured = (tcpBinds \<noteq> []), ls_Running = (fd_tcp fd \<noteq> [])\<rparr>,
      st_DoT = \<lparr>ls_Configured = tls, ls_Running = (fd_dot fd \<noteq> None)\<rparr>,
      st_DoQ = \<lparr>ls_Configured = (tls \<and> DoQEnabled (fd_cfg fd)), ls_Running = (fd_doq fd \<noteq> None)\<rparr>,
      st_DoH3 = \<lparr>ls_Configured = (tls \<and> DoH3Enabled (fd_cfg fd)), ls_Running = (fd_doh3 fd \<noteq> None)\<rparr>,
      st_Degraded = fd_degraded fd\<rparr>)"

section \<open>Plain listeners\<close>

fun listen_all :: "lkind \<Rightarrow> string list \<Rightarrow> sock list \<Rightarrow> netw \<Rightarrow> (string \<times> sock list, sock list) result \<times> netw" where
  "listen_all k [] acc w = (Inr acc, w)"
| "listen_all k (a # as) acc w = (case listen k a w of
      (Inl e, w) \<Rightarrow> (Inl (e, acc), w)
    | (Inr s, w) \<Rightarrow> listen_all k as (acc @ [s]) w)"

definition bindLocked :: "bool \<Rightarrow> iface list option \<Rightarrow> fdw \<Rightarrow> string option \<times> fdw" where
  "bindLocked released ifs x = (case x of (fd, w) \<Rightarrow>
     case effectiveBinds ifs (fd_cfg fd) of (udpAddrs, tcpAddrs) \<Rightarrow>
     (case listen_all KUDP udpAddrs [] w of
        (Inl (e, udp), w) \<Rightarrow> (Some e, fd, shutdown_all released udp w)
      | (Inr udp, w) \<Rightarrow> (case listen_all KTCP tcpAddrs [] w of
            (Inl (e, tcp), w) \<Rightarrow> (Some e, fd, shutdown_all released tcp (shutdown_all released udp w))
          | (Inr tcp, w) \<Rightarrow> (None, fd\<lparr>fd_udp := udp, fd_tcp := tcp\<rparr>, w))))"

definition closePlainListenersLocked :: "bool \<Rightarrow> fdw \<Rightarrow> fdw" where
  "closePlainListenersLocked released x = (case x of (fd, w) \<Rightarrow>
     (fd\<lparr>fd_udp := [], fd_tcp := []\<rparr>, shutdown_all released (fd_tcp fd) (shutdown_all released (fd_udp fd) w)))"

section \<open>Encrypted listeners\<close>

definition startDoTLocked :: "FdConfig \<Rightarrow> fdw \<Rightarrow> string option \<times> fdw" where
  "startDoTLocked cfg x = (case x of (fd, w) \<Rightarrow>
     if fd_dot fd \<noteq> None \<or> \<not> fc_TLSConfigs cfg then (None, fd, w)
     else case DoT_Start w of
         (Inl e, w) \<Rightarrow> (Some (''frontdoor: dot: '' @ e), fd, w)
       | (Inr s, w) \<Rightarrow> (None, fd\<lparr>fd_dot := Some s\<rparr>, w))"

definition startDoQLocked :: "FdConfig \<Rightarrow> fdw \<Rightarrow> string option \<times> fdw" where
  "startDoQLocked cfg x = (case x of (fd, w) \<Rightarrow>
     if fd_doq fd \<noteq> None \<or> \<not> fc_TLSConfigs cfg then (None, fd, w)
     else case DoQ_Start (firstBindOrDefault (DoQBind cfg) defaultDoQAddr) w of
         (Inl e, w) \<Rightarrow> (Some (''doq: '' @ e), fd, w)
       | (Inr s, w) \<Rightarrow> (None, fd\<lparr>fd_doq := Some s\<rparr>, w))"

definition startDoH3Locked :: "FdConfig \<Rightarrow> fdw \<Rightarrow> string option \<times> fdw" where
  "startDoH3Locked cfg x = (case x of (fd, w) \<Rightarrow>
     if fd_doh3 fd \<noteq> None \<or> \<not> fc_TLSConfigs cfg then (None, fd, w)
     else case DoH3_Start (firstBindOrDefault (DoH3Bind cfg) defaultDoH3Addr) w of
         (Inl e, w) \<Rightarrow> (Some (''doh3: '' @ e), fd, w)
       | (Inr s, w) \<Rightarrow> (None, fd\<lparr>fd_doh3 := Some s\<rparr>, w))"

definition close_opt :: "sock option \<Rightarrow> netw \<Rightarrow> netw" where
  "close_opt s w = (case s of None \<Rightarrow> w | Some s \<Rightarrow> close_sock s w)"

definition stopDoTLocked :: "fdw \<Rightarrow> fdw" where
  "stopDoTLocked x = (case x of (fd, w) \<Rightarrow> (fd\<lparr>fd_dot := None\<rparr>, close_opt (fd_dot fd) w))"

definition stopDoQLocked :: "fdw \<Rightarrow> fdw" where
  "stopDoQLocked x = (case x of (fd, w) \<Rightarrow> (fd\<lparr>fd_doq := None\<rparr>, close_opt (fd_doq fd) w))"

definition stopDoH3Locked :: "fdw \<Rightarrow> fdw" where
  "stopDoH3Locked x = (case x of (fd, w) \<Rightarrow> (fd\<lparr>fd_doh3 := None\<rparr>, close_opt (fd_doh3 fd) w))"

definition closeListenersLocked :: "bool \<Rightarrow> fdw \<Rightarrow> fdw" where
  "closeListenersLocked released x = stopDoH3Locked (stopDoQLocked (stopDoTLocked (closePlainListenersLocked released x)))"

definition startEncryptedLocked :: "FdConfig \<Rightarrow> fdw \<Rightarrow> string option \<times> fdw" where
  "startEncryptedLocked cfg x = (case startDoTLocked cfg x of
      (Some e, x) \<Rightarrow> (Some e, x)
    | (None, x) \<Rightarrow>
        (case (if DoQEnabled cfg then startDoQLocked cfg x else (None, x)) of
           (Some e, x) \<Rightarrow> (Some e, stopDoTLocked x)
         | (None, x) \<Rightarrow>
             (case (if DoH3Enabled cfg then startDoH3Locked cfg x else (None, x)) of
                (Some e, x) \<Rightarrow> (Some e, stopDoTLocked (stopDoQLocked x))
              | (None, x) \<Rightarrow> (None, x))))"

section \<open>Life cycle\<close>

definition Frontdoor_Start :: "bool \<Rightarrow> iface list option \<Rightarrow> fdw \<Rightarrow> string option \<times> fdw" where
  "Frontdoor_Start released ifs x = (case x of (fd, w) \<Rightarrow>
     if fd_started fd then (Some ''frontdoor: already started'', fd, w)
     else case bindLocked released ifs (fd, w) of
         (Some e, x) \<Rightarrow> (Some (''frontdoor: start: '' @ e), x)
       | (None, x) \<Rightarrow> (case startEncryptedLocked (fd_cfg fd) x of
             (Some e, x) \<Rightarrow> (Some (''frontdoor: start: '' @ e), closeListenersLocked released x)
           | (None, fd, w) \<Rightarrow> (None, fd\<lparr>fd_supervisor := NewSupervisor, fd_degraded := False, fd_started := True,
                fd_cancelled := False, fd_attempt := 0, fd_phase := RunEnter\<rparr>, w)))"

text \<open>The locked section of \<open>Shutdown\<close> and the cancellation; what follows only waits.\<close>

definition Frontdoor_Shutdown :: "fdw \<Rightarrow> fdw" where
  "Frontdoor_Shutdown x = (case stopDoH3Locked (stopDoQLocked (stopDoTLocked x)) of (fd, w) \<Rightarrow>
     (fd\<lparr>fd_started := False, fd_cancelled := (fd_cancelled fd \<or> fd_started fd)\<rparr>, w))"

definition Frontdoor_Reconcile :: "FdConfig \<Rightarrow> fdw \<Rightarrow> string option \<times> fdw" where
  "Frontdoor_Reconcile cfg x = (case x of (fd, w) \<Rightarrow>
     let prev = fd_cfg fd; fd = fd\<lparr>fd_cfg := cfg\<rparr> in
     (case (if DoQEnabled cfg \<and> \<not> DoQEnabled prev then startDoQLocked cfg (fd, w)
            else if \<not> DoQEnabled cfg \<and> DoQEnabled prev then (None, stopDoQLocked (fd, w)) else (None, fd, w)) of
        (Some e, fd, w) \<Rightarrow> (Some (''frontdoor: reconcile: '' @ e), fd\<lparr>fd_cfg := cfg\<lparr>DoQEnabled := False\<rparr>\<rparr>, w)
      | (None, x) \<Rightarrow>
          (case (if DoH3Enabled cfg \<and> \<not> DoH3Enabled prev then startDoH3Locked cfg x
                 else if \<not> DoH3Enabled cfg \<and> DoH3Enabled prev then (None, stopDoH3Locked x) else (None, x)) of
             (Some e, fd, w) \<Rightarrow> (Some (''frontdoor: reconcile: '' @ e), fd\<lparr>fd_cfg := cfg\<lparr>DoH3Enabled := False\<rparr>\<rparr>, w)
           | (None, x) \<Rightarrow> (None, x))))"

text \<open>\<open>serveAll\<close> up to its \<open>select\<close>, and what the supervisor does when it returns.\<close>

definition serve_enter :: "bool \<Rightarrow> iface list option \<Rightarrow> fdw \<Rightarrow> string option \<times> fdw" where
  "serve_enter released ifs x = (case x of (fd, w) \<Rightarrow>
     if fd_udp fd = [] \<and> fd_tcp fd = [] then bindLocked released ifs (fd, w) else (None, fd, w))"

definition task_over :: "string option \<Rightarrow> int \<Rightarrow> Frontdoor \<Rightarrow> Frontdoor" where
  "task_over err now fd = (case sup_turn (fd_cancelled fd) err now (fd_attempt fd) (fd_supervisor fd) of
      (TurnReturn r calls, sv) \<Rightarrow> fd\<lparr>fd_supervisor := sv, fd_phase := RunOver, fd_degraded := (fd_degraded fd \<or> calls)\<rparr>
    | (TurnBackoff d, sv) \<Rightarrow> fd\<lparr>fd_supervisor := sv, fd_phase := RunBackoff\<rparr>)"

text \<open>The steps of the supervisor's goroutine.  A crash or a stop ends a run whose servers serve.  When a delay is over at the moment
  the context ends, either may win.\<close>

inductive run_step :: "bool \<Rightarrow> iface list option \<Rightarrow> fdw \<Rightarrow> fdw \<Rightarrow> bool" for released ifs where
  enter: "fd_phase fd = RunEnter \<Longrightarrow> serve_enter released ifs (fd, w) = (None, fd', w') \<Longrightarrow>
    run_step released ifs (fd, w) (fd'\<lparr>fd_phase := RunServing\<rparr>, w')"
| rebind_failed: "fd_phase fd = RunEnter \<Longrightarrow> serve_enter released ifs (fd, w) = (Some e, fd', w') \<Longrightarrow>
    run_step released ifs (fd, w) (task_over (Some e) now fd', w')"
| stop: "fd_phase fd = RunServing \<Longrightarrow> fd_cancelled fd \<Longrightarrow> closePlainListenersLocked True (fd, w) = (fd', w') \<Longrightarrow>
    run_step released ifs (fd, w) (task_over None now fd', w')"
| crash: "fd_phase fd = RunServing \<Longrightarrow> closePlainListenersLocked True (fd, w) = (fd', w') \<Longrightarrow>
    run_step released ifs (fd, w) (task_over err now fd', w')"
| retry: "fd_phase fd = RunBackoff \<Longrightarrow>
    run_step released ifs (fd, w) (fd\<lparr>fd_attempt := Suc (fd_attempt fd), fd_phase := RunEnter\<rparr>, w)"
| woken: "fd_phase fd = RunBackoff \<Longrightarrow> fd_cancelled fd \<Longrightarrow> run_step released ifs (fd, w) (fd\<lparr>fd_phase := RunOver\<rparr>, w)"

text \<open>The steps of the front door.  \<open>ok\<close> limits the configurations it is given.  A start follows the end of the run before it.\<close>

inductive fd_step :: "(FdConfig \<Rightarrow> bool) \<Rightarrow> bool \<Rightarrow> iface list option \<Rightarrow> fdw \<Rightarrow> fdw \<Rightarrow> bool" for ok released ifs where
  start: "fd_phase fd \<in> {RunIdle, RunOver} \<Longrightarrow> Frontdoor_Start released ifs (fd, w) = (r, y) \<Longrightarrow> fd_step ok released ifs (fd, w) y"
| shutdown: "fd_step ok released ifs x (Frontdoor_Shutdown x)"
| reconcile: "ok cfg \<Longrightarrow> Frontdoor_Reconcile cfg x = (r, y) \<Longrightarrow> fd_step ok released ifs x y"
| run: "run_step released ifs x y \<Longrightarrow> fd_step ok released ifs x y"

inductive fd_reach :: "(FdConfig \<Rightarrow> bool) \<Rightarrow> bool \<Rightarrow> iface list option \<Rightarrow> listen_end list \<Rightarrow> fdw \<Rightarrow> bool" for ok released ifs es where
  fresh: "ok cfg \<Longrightarrow> fd_reach ok released ifs es (Frontdoor_New cfg, \<lparr>nw_open = [], nw_next = 0, nw_ends = es\<rparr>)"
| further: "fd_reach ok released ifs es x \<Longrightarrow> fd_step ok released ifs x y \<Longrightarrow> fd_reach ok released ifs es y"

section \<open>Serving a query\<close>

text \<open>The wire format of the DNS library: \<open>Unpack\<close> may panic, \<open>RRTtl\<close> is the header field of a record.\<close>

record wire_lib =
  Unpack :: "string \<Rightarrow> Msg option outcome"
  Pack :: "Msg \<Rightarrow> string option"
  RRTtl :: "RR \<Rightarrow> nat"

text \<open>A call of the resolver that may panic; \<open>None\<close> still waits.\<close>

type_synonym resolve_call = "(Msg option \<times> resolve_error option) outcome option"

definition call_Resolve :: "dns_lib \<Rightarrow> Store \<Rightarrow> SpoofPolicy option \<Rightarrow> Upstream \<Rightarrow> (Msg \<Rightarrow> string \<Rightarrow> race_event list) \<Rightarrow>
    Metrics \<Rightarrow> Msg \<Rightarrow> IP option \<Rightarrow> resolve_call" where
  "call_Resolve lib store spoof u env m req client =
     map_option (\<lambda>(m', resp, err). Ret (resp, err)) (Resolve lib store spoof u env m (Some req) client)"

text \<open>\<open>ServeDNS\<close> (\<open>handler.go\<close>): the message it writes.\<close>

definition ServeDNS :: "dns_lib \<Rightarrow> bool \<Rightarrow> (Msg \<Rightarrow> resolve_call) \<Rightarrow> Msg \<Rightarrow> Msg option" where
  "ServeDNS lib degraded resolve r =
     (if degraded then Some (servFailReply lib r)
      else case resolve r of
          None \<Rightarrow> None
        | Some Panic \<Rightarrow> Some (servFailReply lib r)
        | Some (Ret (resp, err)) \<Rightarrow> Some (case resp of None \<Rightarrow> servFailReply lib r | Some m \<Rightarrow> m))"

text \<open>Client addresses (\<open>remoteip.go\<close>).\<close>

datatype peer_addr = AddrNil | TCPAddr "IP option" | UDPAddr "IP option" | AddrText string

definition host_ip :: "string \<Rightarrow> string \<Rightarrow> IP option" where
  "host_ip a fallback = (case SplitHostPort a of None \<Rightarrow> ParseIP fallback | Some (h, _) \<Rightarrow> ParseIP h)"

definition remoteIP :: "peer_addr \<Rightarrow> IP option" where
  "remoteIP a = (case a of AddrNil \<Rightarrow> None | TCPAddr ip \<Rightarrow> ip | UDPAddr ip \<Rightarrow> ip | AddrText s \<Rightarrow> host_ip s s)"

definition httpRemoteIP :: "string \<Rightarrow> IP option" where
  "httpRemoteIP remoteAddr = (if remoteAddr = [] then None else host_ip remoteAddr (TrimSpace remoteAddr))"

section \<open>DNS over HTTPS (\<open>doh.go\<close>)\<close>

definition dnsMessageContentType :: string where "dnsMessageContentType = ''application/dns-message''"
definition maxDoHMessageBytes :: nat where "maxDoHMessageBytes = 65535"

text \<open>A request: the media type of its header as \<open>mime.ParseMediaType\<close> returns it, its body, and the query parameter \<open>dns\<close>.\<close>

record doh_request =
  dq_Method :: string
  dq_MediaType :: "string option"
  dq_Body :: "(string, string) result"
  dq_Param :: string

datatype wire_error = ErrMediaType | ErrWire string

definition readPostWire :: "doh_request \<Rightarrow> (wire_error, string) result" where
  "readPostWire q = (if dq_MediaType q \<noteq> Some dnsMessageContentType then Inl ErrMediaType
     else case dq_Body q of
         Inl e \<Rightarrow> Inl (ErrWire (''read body: '' @ e))
       | Inr body \<Rightarrow>
           let data = take (maxDoHMessageBytes + 1) body in
           if data = [] then Inl (ErrWire ''empty body'')
           else if length data > maxDoHMessageBytes then Inl (ErrWire ''body too large'') else Inr data)"

text \<open>\<open>DecodeString\<close> of the URL alphabet, without and with padding; line breaks are skipped.\<close>

definition skip_breaks :: "string \<Rightarrow> string" where
  "skip_breaks s = filter (\<lambda>c. c \<noteq> CHR 0x0A \<and> c \<noteq> CHR 0x0D) s"

definition RawURLDecode :: "string \<Rightarrow> string option" where
  "RawURLDecode s = (let t = skip_breaks s in
     if CHR ''='' \<in> set t \<or> length t mod 4 = 1 then None
     else URLDecode (t @ replicate ((4 - length t mod 4) mod 4) (CHR ''='')))"

definition PaddedURLDecode :: "string \<Rightarrow> string option" where
  "PaddedURLDecode s = URLDecode (skip_breaks s)"

definition readGetWire :: "doh_request \<Rightarrow> (wire_error, string) result" where
  "readGetWire q = (let p = dq_Param q in
     if p = [] then Inl (ErrWire ''missing dns query parameter'')
     else if length p > maxDoHMessageBytes * 2 then Inl (ErrWire ''dns parameter too large'')
     else case (case RawURLDecode p of Some d \<Rightarrow> Some d | None \<Rightarrow> PaddedURLDecode p) of
         None \<Rightarrow> Inl (ErrWire ''invalid base64url dns parameter'')
       | Some data \<Rightarrow>
           if data = [] then Inl (ErrWire ''empty dns parameter'')
           else if length data > maxDoHMessageBytes then Inl (ErrWire ''dns parameter too large'') else Inr data)"

definition minAnswerTTL :: "wire_lib \<Rightarrow> RR list \<Rightarrow> nat" where
  "minAnswerTTL wl rrs = fold (\<lambda>rr m. if RRTtl wl rr < m then RRTtl wl rr else m) (tl rrs) (RRTtl wl (hd rrs))"

definition cacheControlFor :: "wire_lib \<Rightarrow> Msg \<Rightarrow> string" where
  "cacheControlFor wl msg =
     (if msg_Rcode msg = RcodeSuccess then
        (if msg_Answer msg = [] then ''max-age=60'' else ''max-age='' @ itoa (int (minAnswerTTL wl (msg_Answer msg))))
      else if msg_Rcode msg = RcodeNameError then ''max-age=60''
      else ''no-store'')"

datatype doh_reply = HttpError nat string | HttpMessage string string

definition writeDNSMessage :: "wire_lib \<Rightarrow> Msg \<Rightarrow> doh_reply" where
  "writeDNSMessage wl msg = (case Pack wl msg of
      None \<Rightarrow> HttpError 500 ''internal error packing response''
    | Some p \<Rightarrow> HttpMessage p (cacheControlFor wl msg))"

definition malformed :: doh_reply where
  "malformed = HttpError 400 ''bad request: malformed dns message''"

definition DoH_serveHTTP :: "dns_lib \<Rightarrow> wire_lib \<Rightarrow> (Msg \<Rightarrow> resolve_call) \<Rightarrow> doh_request \<Rightarrow> doh_reply option" where
  "DoH_serveHTTP lib wl resolve q =
     (if dq_Method q \<notin> {''POST'', ''GET''} then Some (HttpError 405 ''method not allowed'')
      else case (if dq_Method q = ''POST'' then readPostWire q else readGetWire q) of
          Inl ErrMediaType \<Rightarrow> Some (HttpError 415 (''unsupported media type: expected '' @ dnsMessageContentType))
        | Inl (ErrWire e) \<Rightarrow> Some (HttpError 400 (''bad request: '' @ e))
        | Inr wire \<Rightarrow> (case Unpack wl wire of
              Panic \<Rightarrow> Some malformed
            | Ret None \<Rightarrow> Some malformed
            | Ret (Some msg) \<Rightarrow>
                if isZoneTransfer msg then Some (writeDNSMessage wl (refusedReply lib msg))
                else (case resolve msg of
                    None \<Rightarrow> None
                  | Some Panic \<Rightarrow> Some malformed
                  | Some (Ret (out, err)) \<Rightarrow> Some (writeDNSMessage wl (case out of None \<Rightarrow> servFailReply lib msg | Some m \<Rightarrow> m)))))"

section \<open>DNS over QUIC (\<open>doq.go\<close>)\<close>

definition maxDoQMessageBytes :: nat where "maxDoQMessageBytes = 65535"

text \<open>One stream: its bytes up to where it ends or fails.\<close>

definition readDoQMessage :: "wire_lib \<Rightarrow> string \<Rightarrow> (string, Msg) result outcome" where
  "readDoQMessage wl stream = (case stream of
      a # b # r \<Rightarrow>
        let n = of_char a * 256 + of_char b in
        if n = (0 :: nat) then Ret (Inl ''zero-length dns message'')
        else if length r < n then Ret (Inl ''read message body'')
        else (case Unpack wl (take n r) of
            Panic \<Rightarrow> Panic
          | Ret None \<Rightarrow> Ret (Inl ''unpack dns message'')
          | Ret (Some m) \<Rightarrow> Ret (Inr m))
    | _ \<Rightarrow> Ret (Inl ''read length prefix''))"

definition writeDoQMessage :: "wire_lib \<Rightarrow> Msg \<Rightarrow> (string, string) result" where
  "writeDoQMessage wl msg = (case Pack wl msg of
      None \<Rightarrow> Inl ''pack dns message''
    | Some p \<Rightarrow> if length p > maxDoQMessageBytes then Inl ''packed message too large''
        else Inr (char_of (length p div 256) # char_of (length p mod 256) # p))"

text \<open>What a stream's handler writes; nothing on an error or a panic.\<close>

definition DoQ_handleStream :: "dns_lib \<Rightarrow> wire_lib \<Rightarrow> (Msg \<Rightarrow> resolve_call) \<Rightarrow> string \<Rightarrow> string option" where
  "DoQ_handleStream lib wl resolve stream = (case readDoQMessage wl stream of
      Panic \<Rightarrow> Some []
    | Ret (Inl e) \<Rightarrow> Some []
    | Ret (Inr req) \<Rightarrow> (case resolve req of
          None \<Rightarrow> None
        | Some Panic \<Rightarrow> Some []
        | Some (Ret (resp, err)) \<Rightarrow>
            (case writeDoQMessage wl (case resp of None \<Rightarrow> servFailReply lib req | Some m \<Rightarrow> m) of
               Inl e \<Rightarrow> Some []
             | Inr out \<Rightarrow> Some out)))"

section \<open>Sockets: lemmas\<close>

text \<open>\<open>opens w w' new\<close>: the sockets \<open>new\<close> were opened and nothing was closed.\<close>

definition opens :: "netw \<Rightarrow> netw \<Rightarrow> sock list \<Rightarrow> bool" where
  "opens w w' new = (nw_open w' = nw_open w @ new \<and> distinct new \<and> nw_next w \<le> nw_next w' \<and>
     (\<forall>s\<in>set new. nw_next w \<le> so_num s \<and> so_num s < nw_next w') \<and> set (nw_ends w') \<subseteq> set (nw_ends w))"

text \<open>No call to open a socket is cut short by its context.\<close>

definition uncut :: "netw \<Rightarrow> bool" where
  "uncut w = (\<forall>e. LCancel e \<notin> set (nw_ends w))"

lemma opens_refl [simp]: "opens w w []"
  by (simp add: opens_def)

lemma opens_trans: "opens w w1 a \<Longrightarrow> opens w1 w2 b \<Longrightarrow> opens w w2 (a @ b)"
  by (fastforce simp: opens_def)

lemma opens_uncut: "opens w w' new \<Longrightarrow> uncut w \<Longrightarrow> uncut w'"
  by (auto simp: opens_def uncut_def)

lemma next_end_opens: "next_end w = (e, w') \<Longrightarrow> opens w w' [] \<and> (uncut w \<longrightarrow> (\<forall>m. e \<noteq> LCancel m))"
  by (auto simp: next_end_def opens_def uncut_def split: list.splits)

lemma open_sock_opens: "open_sock k addr w = (s, w') \<Longrightarrow> opens w w' [s] \<and> so_kind s = k \<and> so_addr s = addr"
  by (auto simp: open_sock_def opens_def Let_def)

lemma listen_opens:
  assumes "listen k addr w = (r, w')"
  shows "case r of Inl e \<Rightarrow> opens w w' [] | Inr s \<Rightarrow> opens w w' [s] \<and> so_kind s = k \<and> so_addr s = addr"
  using assms unfolding listen_def
  by (auto split: prod.splits listen_end.splits dest!: next_end_opens open_sock_opens dest: opens_trans)

lemma listen_all_opens:
  assumes "listen_all k as acc w = (r, w')"
  shows "\<exists>new. opens w w' new \<and> (\<forall>s\<in>set new. so_kind s = k) \<and>
    (case r of Inl (e, ss) \<Rightarrow> ss = acc @ new \<and> prefix (map so_addr new) as | Inr ss \<Rightarrow> ss = acc @ new \<and> map so_addr new = as)"
  using assms
proof (induction as arbitrary: acc w)
  case Nil
  then show ?case by (auto intro: exI [of _ "[]"])
next
  case (Cons a as)
  obtain r1 w1 where 1: "listen k a w = (r1, w1)" by fastforce
  show ?case
  proof (cases r1)
    case (Inl e)
    then show ?thesis using Cons.prems listen_opens [OF 1] 1 by (auto intro: exI [of _ "[]"])
  next
    case (Inr s)
    then have s: "opens w w1 [s]" "so_kind s = k" "so_addr s = a" using listen_opens [OF 1] by auto
    obtain new where "opens w1 w' new" "\<forall>s\<in>set new. so_kind s = k"
      "case r of Inl (e, ss) \<Rightarrow> ss = (acc @ [s]) @ new \<and> prefix (map so_addr new) as | Inr ss \<Rightarrow> ss = (acc @ [s]) @ new \<and> map so_addr new = as"
      using Cons.IH [of "acc @ [s]" w1] Cons.prems 1 Inr by auto
    then show ?thesis using s opens_trans [OF s(1)]
      by (intro exI [of _ "s # new"]) (auto split: sum.splits)
  qed
qed

lemma close_fold: "fold close_sock ss w = w\<lparr>nw_open := filter (\<lambda>x. x \<notin> set ss) (nw_open w)\<rparr>"
  by (induction ss arbitrary: w) (auto simp: close_sock_def filter_filter intro!: arg_cong [where f = "\<lambda>P. filter P _"])

lemma shutdown_all_open: "nw_open (shutdown_all r ss w) = (if r then filter (\<lambda>x. x \<notin> set ss) (nw_open w) else nw_open w)"
  "nw_next (shutdown_all r ss w) = nw_next w" "nw_ends (shutdown_all r ss w) = nw_ends w"
  by (simp_all add: shutdown_all_def close_fold)

lemma close_opt_open: "nw_open (close_opt s w) = filter (\<lambda>x. s \<noteq> Some x) (nw_open w)"
  "nw_next (close_opt s w) = nw_next w" "nw_ends (close_opt s w) = nw_ends w"
  by (auto simp: close_opt_def close_sock_def split: option.split intro: filter_cong)

section \<open>Accounting: lemmas\<close>

definition opt_list :: "'a option \<Rightarrow> 'a list" where
  "opt_list x = (case x of None \<Rightarrow> [] | Some a \<Rightarrow> [a])"

definition fd_socks :: "Frontdoor \<Rightarrow> sock list" where
  "fd_socks fd = fd_udp fd @ fd_tcp fd @ opt_list (fd_dot fd) @ opt_list (fd_doq fd) @ opt_list (fd_doh3 fd)"

text \<open>The open sockets are exactly the recorded ones, each recorded once.\<close>

definition accounted :: "fdw \<Rightarrow> bool" where
  "accounted x = (case x of (fd, w) \<Rightarrow> distinct (nw_open w) \<and> distinct (fd_socks fd) \<and> set (nw_open w) = set (fd_socks fd) \<and>
     (\<forall>s\<in>set (nw_open w). so_num s < nw_next w) \<and> uncut w)"

lemma accounted_open:
  assumes "accounted (fd, w)" "opens w w' new" "set (fd_socks fd') = set (fd_socks fd) \<union> set new"
    "length (fd_socks fd') = length (fd_socks fd) + length new"
  shows "accounted (fd', w')"
proof -
  have o: "nw_open w' = nw_open w @ new" "distinct new" "\<forall>s\<in>set new. nw_next w \<le> so_num s \<and> so_num s < nw_next w'" "nw_next w \<le> nw_next w'"
    using assms(2) by (auto simp: opens_def)
  have a: "distinct (nw_open w)" "distinct (fd_socks fd)" "set (nw_open w) = set (fd_socks fd)" "\<forall>s\<in>set (nw_open w). so_num s < nw_next w"
    using assms(1) by (auto simp: accounted_def)
  have disj: "set (nw_open w) \<inter> set new = {}" using a(4) o(3) by fastforce
  have "card (set (fd_socks fd')) = length (fd_socks fd) + length new"
    using disj a(2,3) o(2) by (simp add: assms(3) card_Un_disjoint distinct_card)
  then have "distinct (fd_socks fd')" by (simp add: assms(4) card_distinct)
  moreover have "uncut w'" using assms(1) opens_uncut [OF assms(2)] by (simp add: accounted_def)
  ultimately show ?thesis using a o disj by (fastforce simp: accounted_def assms(3))
qed

lemma accounted_close:
  assumes "accounted (fd, w)" "nw_open w' = filter (\<lambda>s. s \<notin> set gone) (nw_open w)" "nw_next w' = nw_next w" "nw_ends w' = nw_ends w"
    "fd_socks fd' = filter (\<lambda>s. s \<notin> set gone) (fd_socks fd)"
  shows "accounted (fd', w')"
  using assms by (auto simp: accounted_def uncut_def)

lemma keep_others: "distinct (a @ g @ b) \<Longrightarrow> filter (\<lambda>s. s \<notin> set g) (a @ g @ b) = a @ b"
proof -
  assume "distinct (a @ g @ b)"
  then have "filter (\<lambda>s. s \<notin> set g) a = a" "filter (\<lambda>s. s \<notin> set g) b = b" by (auto simp: filter_id_conv)
  then show ?thesis by simp
qed

lemma close_opt_list: "filter (\<lambda>x. s \<noteq> Some x) xs = filter (\<lambda>x. x \<notin> set (opt_list s)) xs"
  by (auto simp: opt_list_def split: option.split intro: filter_cong)

lemma accounted_distinct: "accounted (fd, w) \<Longrightarrow> distinct (fd_socks fd)"
  by (simp add: accounted_def)

lemma stop_accounted:
  assumes "accounted x"
  shows "accounted (stopDoTLocked x)" "accounted (stopDoQLocked x)" "accounted (stopDoH3Locked x)"
proof -
  obtain fd w where x: "x = (fd, w)" by fastforce
  note d = accounted_distinct [OF assms [unfolded x]]
  note c = accounted_close [OF assms [unfolded x]]
  show "accounted (stopDoTLocked x)"
    using keep_others [of "fd_udp fd @ fd_tcp fd" "opt_list (fd_dot fd)" "opt_list (fd_doq fd) @ opt_list (fd_doh3 fd)"] d
    by (auto simp: x stopDoTLocked_def close_opt_open close_opt_list fd_socks_def opt_list_def [of None] intro!: c [of _ "opt_list (fd_dot fd)"])
  show "accounted (stopDoQLocked x)"
    using keep_others [of "fd_udp fd @ fd_tcp fd @ opt_list (fd_dot fd)" "opt_list (fd_doq fd)" "opt_list (fd_doh3 fd)"] d
    by (auto simp: x stopDoQLocked_def close_opt_open close_opt_list fd_socks_def opt_list_def [of None] intro!: c [of _ "opt_list (fd_doq fd)"])
  show "accounted (stopDoH3Locked x)"
    using keep_others [of "fd_udp fd @ fd_tcp fd @ opt_list (fd_dot fd) @ opt_list (fd_doq fd)" "opt_list (fd_doh3 fd)" "[]"] d
    by (auto simp: x stopDoH3Locked_def close_opt_open close_opt_list fd_socks_def opt_list_def [of None] intro!: c [of _ "opt_list (fd_doh3 fd)"])
qed

lemma closePlain_accounted:
  assumes "accounted x"
  shows "accounted (closePlainListenersLocked True x)"
proof -
  obtain fd w where x: "x = (fd, w)" by fastforce
  note c = accounted_close [OF assms [unfolded x], of _ "fd_udp fd @ fd_tcp fd"]
  show ?thesis
    using keep_others [of "[]" "fd_udp fd @ fd_tcp fd" "opt_list (fd_dot fd) @ opt_list (fd_doq fd) @ opt_list (fd_doh3 fd)"]
      accounted_distinct [OF assms [unfolded x]]
    by (auto simp: x closePlainListenersLocked_def shutdown_all_open fd_socks_def filter_filter intro!: c filter_cong)
qed

lemma closed_again:
  assumes "opens w w' new" "accounted (fd, w)"
  shows "filter (\<lambda>s. s \<notin> set new) (nw_open w') = nw_open w" "nw_next w \<le> nw_next w'" "set (nw_ends w') \<subseteq> set (nw_ends w)"
  using assms by (fastforce simp: opens_def accounted_def filter_id_conv)+

lemma accounted_same: "accounted (fd, w) \<Longrightarrow> fd_socks fd' = fd_socks fd \<Longrightarrow> nw_open w' = nw_open w \<Longrightarrow> nw_next w \<le> nw_next w' \<Longrightarrow>
    set (nw_ends w') \<subseteq> set (nw_ends w) \<Longrightarrow> accounted (fd', w')"
  by (fastforce simp: accounted_def uncut_def)

lemma bindLocked_accounted:
  assumes "bindLocked True ifs (fd, w) = (r, fd', w')" "accounted (fd, w)" "fd_udp fd = []" "fd_tcp fd = []"
  shows "accounted (fd', w')" and "r \<noteq> None \<Longrightarrow> fd' = fd \<and> nw_open w' = nw_open w"
    and "r = None \<Longrightarrow> \<exists>udp tcp. fd' = fd\<lparr>fd_udp := udp, fd_tcp := tcp\<rparr> \<and> (map so_addr udp, map so_addr tcp) = effectiveBinds ifs (fd_cfg fd) \<and>
      nw_open w' = nw_open w @ udp @ tcp"
proof -
  obtain ua ta where b: "effectiveBinds ifs (fd_cfg fd) = (ua, ta)" by fastforce
  obtain r1 w1 where 1: "listen_all KUDP ua [] w = (r1, w1)" by fastforce
  obtain udp where u: "opens w w1 udp" "case r1 of Inl (e, ss) \<Rightarrow> ss = udp | Inr ss \<Rightarrow> ss = udp \<and> map so_addr udp = ua"
    using listen_all_opens [OF 1] by (cases r1) auto
  note cu = closed_again [OF u(1) assms(2)]
  have goal: "accounted (fd', w') \<and> (r \<noteq> None \<longrightarrow> fd' = fd \<and> nw_open w' = nw_open w) \<and>
    (r = None \<longrightarrow> (\<exists>udp tcp. fd' = fd\<lparr>fd_udp := udp, fd_tcp := tcp\<rparr> \<and> (map so_addr udp, map so_addr tcp) = effectiveBinds ifs (fd_cfg fd) \<and>
      nw_open w' = nw_open w @ udp @ tcp))"
  proof (cases r1)
    case (Inl es)
    then have "r \<noteq> None" "fd' = fd" "w' = shutdown_all True udp w1"
      using assms(1) u(2) by (auto simp: bindLocked_def b 1 split: prod.splits)
    then show ?thesis using cu by (auto simp: shutdown_all_open intro!: accounted_same [OF assms(2)])
  next
    case (Inr u')
    then have u': "u' = udp" "map so_addr udp = ua" using u(2) by auto
    obtain r2 w2 where 2: "listen_all KTCP ta [] w1 = (r2, w2)" by fastforce
    obtain tcp where t: "opens w1 w2 tcp" "case r2 of Inl (e, ss) \<Rightarrow> ss = tcp | Inr ss \<Rightarrow> ss = tcp \<and> map so_addr tcp = ta"
      using listen_all_opens [OF 2] by (cases r2) auto
    note both = opens_trans [OF u(1) t(1)]
    note cb = closed_again [OF both assms(2)]
    show ?thesis
    proof (cases r2)
      case (Inl es)
      then have "r \<noteq> None" "fd' = fd" "w' = shutdown_all True tcp (shutdown_all True udp w2)"
        using assms(1) t(2) u' Inr by (auto simp: bindLocked_def b 1 2 split: prod.splits)
      then show ?thesis using cb by (auto simp: shutdown_all_open filter_filter conj_commute intro!: accounted_same [OF assms(2)])
    next
      case t': (Inr t')
      then have "r = None" "fd' = fd\<lparr>fd_udp := udp, fd_tcp := tcp\<rparr>" "w' = w2" "map so_addr tcp = ta"
        using assms(1) t(2) u' Inr by (auto simp: bindLocked_def b 1 2)
      then show ?thesis using both u' assms(3,4) b
        by (auto simp: fd_socks_def opens_def intro!: accounted_open [OF assms(2) both])
    qed
  qed
  from goal show "accounted (fd', w')" by blast
  from goal show "r \<noteq> None \<Longrightarrow> fd' = fd \<and> nw_open w' = nw_open w" by blast
  from goal show "r = None \<Longrightarrow> \<exists>udp tcp. fd' = fd\<lparr>fd_udp := udp, fd_tcp := tcp\<rparr> \<and> (map so_addr udp, map so_addr tcp) = effectiveBinds ifs (fd_cfg fd) \<and>
      nw_open w' = nw_open w @ udp @ tcp" by blast
qed

lemma DoT_Start_opens:
  assumes "DoT_Start w = (r, w')" "uncut w"
  shows "case r of Inl e \<Rightarrow> opens w w' [] | Inr s \<Rightarrow> opens w w' [s]"
  using assms unfolding DoT_Start_def
  by (auto split: prod.splits listen_end.splits dest!: next_end_opens open_sock_opens dest: opens_trans)

lemma DoQ_Start_opens:
  assumes "DoQ_Start addr w = (r, w')" "accounted (fd, w)"
  shows "case r of Inl e \<Rightarrow> nw_open w' = nw_open w \<and> nw_next w \<le> nw_next w' \<and> set (nw_ends w') \<subseteq> set (nw_ends w) | Inr s \<Rightarrow> opens w w' [s]"
proof -
  obtain r1 w1 where 1: "listen KDoQ addr w = (r1, w1)" by fastforce
  show ?thesis
  proof (cases r1)
    case (Inl e)
    then show ?thesis using assms(1) listen_opens [OF 1] by (auto simp: DoQ_Start_def 1 opens_def)
  next
    case (Inr s)
    then have s: "opens w w1 [s]" using listen_opens [OF 1] by simp
    obtain e w2 where 2: "next_end w1 = (e, w2)" by fastforce
    have o: "opens w w2 [s]" using opens_trans [OF s conjunct1 [OF next_end_opens [OF 2]]] by simp
    show ?thesis using assms(1) o closed_again [OF o assms(2)]
      by (auto simp: DoQ_Start_def 1 Inr 2 close_sock_def split: listen_end.splits)
  qed
qed

text \<open>What the operations on encrypted listeners leave alone.\<close>

definition same_run :: "fdw \<Rightarrow> fdw \<Rightarrow> bool" where
  "same_run x y = (fd_udp (fst y) = fd_udp (fst x) \<and> fd_tcp (fst y) = fd_tcp (fst x) \<and> fd_phase (fst y) = fd_phase (fst x) \<and>
     fd_cancelled (fst y) = fd_cancelled (fst x) \<and> fd_started (fst y) = fd_started (fst x) \<and> fd_cfg (fst y) = fd_cfg (fst x))"

lemma same_run_trans: "same_run x y \<Longrightarrow> same_run y z \<Longrightarrow> same_run x z"
  by (simp add: same_run_def)

lemma same_run_refl [simp]: "same_run x x"
  by (simp add: same_run_def)

lemma choice_ok:
  assumes "(if b then s else if c then (None, t) else (None, x)) = (r, y)" "accounted x" "accounted t" "same_run x t"
    "\<And>r y. s = (r, y) \<Longrightarrow> accounted y \<and> same_run x y"
  shows "accounted y" "same_run x y"
  using assms by (auto split: if_splits)

lemma stop_frame: "same_run x (stopDoTLocked x)" "same_run x (stopDoQLocked x)" "same_run x (stopDoH3Locked x)"
  by (cases x, simp add: same_run_def stopDoTLocked_def stopDoQLocked_def stopDoH3Locked_def)+

lemma start_accounted:
  assumes "accounted x"
  shows "startDoTLocked cfg x = (r, y) \<Longrightarrow> accounted y \<and> same_run x y"
    "startDoQLocked cfg x = (r, y) \<Longrightarrow> accounted y \<and> same_run x y"
    "startDoH3Locked cfg x = (r, y) \<Longrightarrow> accounted y \<and> same_run x y"
proof -
  obtain fd w where x: "x = (fd, w)" by fastforce
  note a = assms [unfolded x]
  have u: "uncut w" using a by (simp add: accounted_def)
  note add = accounted_open [OF a]
  have same: "accounted (fd, w')" if "opens w w' []" for w' using that by (intro add) auto
  have one: "opens w w' [s] \<Longrightarrow> fd_dot fd = None \<Longrightarrow> accounted (fd\<lparr>fd_dot := Some s\<rparr>, w')"
    "opens w w' [s] \<Longrightarrow> fd_doq fd = None \<Longrightarrow> accounted (fd\<lparr>fd_doq := Some s\<rparr>, w')"
    "opens w w' [s] \<Longrightarrow> fd_doh3 fd = None \<Longrightarrow> accounted (fd\<lparr>fd_doh3 := Some s\<rparr>, w')" for s w'
    by (erule add; simp add: fd_socks_def opt_list_def insert_commute)+
  obtain rt wt where t: "DoT_Start w = (rt, wt)" by fastforce
  show "startDoTLocked cfg x = (r, y) \<Longrightarrow> accounted y \<and> same_run x y"
    using a DoT_Start_opens [OF t u] same one(1) by (cases rt) (auto simp: x startDoTLocked_def same_run_def t split: if_splits)
  obtain rq wq where q: "DoQ_Start (firstBindOrDefault (DoQBind cfg) defaultDoQAddr) w = (rq, wq)" by fastforce
  show "startDoQLocked cfg x = (r, y) \<Longrightarrow> accounted y \<and> same_run x y"
    using a DoQ_Start_opens [OF q a] accounted_same [OF a refl] one(2)
    by (cases rq) (auto simp: x startDoQLocked_def same_run_def q split: if_splits)
  obtain rh wh where h: "listen KDoH3 (firstBindOrDefault (DoH3Bind cfg) defaultDoH3Addr) w = (rh, wh)" by fastforce
  show "startDoH3Locked cfg x = (r, y) \<Longrightarrow> accounted y \<and> same_run x y"
    using a listen_opens [OF h] same one(3) by (cases rh) (auto simp: x startDoH3Locked_def DoH3_Start_def same_run_def h split: if_splits)
qed

lemmas stop_ok = stop_accounted stop_frame

lemma startEncrypted_accounted:
  assumes "accounted x" "startEncryptedLocked cfg x = (r, y)"
  shows "accounted y \<and> same_run x y"
proof -
  obtain r1 x1 where 1: "startDoTLocked cfg x = (r1, x1)" by (rule prod.exhaust)
  obtain r2 x2 where 2: "(if DoQEnabled cfg then startDoQLocked cfg x1 else (None, x1)) = (r2, x2)" by (rule prod.exhaust)
  obtain r3 x3 where 3: "(if DoH3Enabled cfg then startDoH3Locked cfg x2 else (None, x2)) = (r3, x3)" by (rule prod.exhaust)
  have a1: "accounted x1" "same_run x x1" using start_accounted(1) [OF assms(1) 1] by auto
  have "(if DoQEnabled cfg then startDoQLocked cfg x1 else if False then (None, x1) else (None, x1)) = (r2, x2)" using 2 by (simp split: if_splits)
  note a2 = choice_ok [OF this a1(1) a1(1) same_run_refl start_accounted(2) [OF a1(1)]]
  have "(if DoH3Enabled cfg then startDoH3Locked cfg x2 else if False then (None, x2) else (None, x2)) = (r3, x3)" using 3 by (simp split: if_splits)
  note a3 = choice_ok [OF this a2(1) a2(1) same_run_refl start_accounted(3) [OF a2(1)]]
  have s2: "same_run x x2" by (rule same_run_trans [OF a1(2) a2(2)])
  have s3: "same_run x x3" by (rule same_run_trans [OF s2 a3(2)])
  have "y = x1 \<or> y = x3 \<or> y = stopDoTLocked x2 \<or> y = stopDoTLocked (stopDoQLocked x3)"
    using assms(2) by (auto simp: startEncryptedLocked_def 1 2 3 split: option.splits)
  then show ?thesis
  proof (elim disjE)
    assume "y = stopDoTLocked x2"
    then show ?thesis using stop_accounted(1) [OF a2(1)] same_run_trans [OF s2 stop_frame(1)] by simp
  next
    assume "y = stopDoTLocked (stopDoQLocked x3)"
    then show ?thesis
      using stop_accounted(1) [OF stop_accounted(2) [OF a3(1)]] same_run_trans [OF same_run_trans [OF s3 stop_frame(2)] stop_frame(1)] by simp
  qed (use a1 a3(1) s3 in simp_all)
qed

lemma closeListeners_accounted:
  assumes "accounted x"
  shows "accounted (closeListenersLocked True x)" "fd_socks (fst (closeListenersLocked True x)) = []"
    "fd_phase (fst (closeListenersLocked r x)) = fd_phase (fst x)" "fd_cfg (fst (closeListenersLocked r x)) = fd_cfg (fst x)"
    "fd_started (fst (closeListenersLocked r x)) = fd_started (fst x)" "fd_cancelled (fst (closeListenersLocked r x)) = fd_cancelled (fst x)"
proof -
  show "accounted (closeListenersLocked True x)"
    unfolding closeListenersLocked_def by (intro stop_accounted closePlain_accounted assms)
qed (cases x, simp add: closeListenersLocked_def closePlainListenersLocked_def stopDoTLocked_def stopDoQLocked_def stopDoH3Locked_def fd_socks_def opt_list_def)+

section \<open>The invariant\<close>

definition quiet :: "run_phase \<Rightarrow> bool" where
  "quiet p = (p \<in> {RunIdle, RunBackoff, RunOver})"

text \<open>Besides the accounting: no plain listener outside a run, and a run whose front door is not started has been cancelled.\<close>

definition fd_inv :: "fdw \<Rightarrow> bool" where
  "fd_inv x = (accounted x \<and> (quiet (fd_phase (fst x)) \<longrightarrow> fd_udp (fst x) = [] \<and> fd_tcp (fst x) = []) \<and>
     (fd_phase (fst x) \<notin> {RunIdle, RunOver} \<longrightarrow> fd_started (fst x) \<or> fd_cancelled (fst x)))"

lemma fd_inv_same: "fd_inv x \<Longrightarrow> accounted y \<Longrightarrow> same_run x y \<Longrightarrow> fd_inv y"
  by (auto simp: fd_inv_def same_run_def)

lemma accounted_fields:
  "accounted (fd, w) \<Longrightarrow> fd_socks fd' = fd_socks fd \<Longrightarrow> accounted (fd', w)"
  by (simp add: accounted_def)

lemma Start_inv:
  assumes "fd_inv (fd, w)" "fd_phase fd \<in> {RunIdle, RunOver}" "Frontdoor_Start True ifs (fd, w) = (r, y)"
  shows "fd_inv y"
proof (cases "fd_started fd")
  case True
  then show ?thesis using assms by (simp add: Frontdoor_Start_def)
next
  case ns: False
  have e: "fd_udp fd = []" "fd_tcp fd = []" "accounted (fd, w)" using assms(1,2) by (auto simp: fd_inv_def quiet_def)
  obtain rb fb wb where b: "bindLocked True ifs (fd, w) = (rb, fb, wb)" by (rule prod_cases3)
  note bb = bindLocked_accounted [OF b e(3,1,2)]
  show ?thesis
  proof (cases rb)
    case (Some m)
    then show ?thesis using assms ns b bb(1,2) by (auto simp: Frontdoor_Start_def fd_inv_def)
  next
    case None
    then obtain udp tcp where f: "fb = fd\<lparr>fd_udp := udp, fd_tcp := tcp\<rparr>" using bb(3) by blast
    obtain re fe we where en: "startEncryptedLocked (fd_cfg fd) (fb, wb) = (re, fe, we)" by (rule prod_cases3)
    have ae: "accounted (fe, we)" "same_run (fb, wb) (fe, we)" using startEncrypted_accounted [OF bb(1) en] by auto
    show ?thesis
    proof (cases re)
      case (Some m)
      then have y: "y = closeListenersLocked True (fe, we)" using assms(3) ns b None en by (simp add: Frontdoor_Start_def)
      show ?thesis using closeListeners_accounted [OF ae(1)] assms(2) ae(2)
        by (auto simp: y fd_inv_def f same_run_def fd_socks_def)
    next
      case n: None
      then show ?thesis using assms(3) ns b None en ae accounted_fields [OF ae(1)]
        by (auto simp: Frontdoor_Start_def fd_inv_def quiet_def fd_socks_def)
    qed
  qed
qed

lemma Shutdown_inv: "fd_inv x \<Longrightarrow> fd_inv (Frontdoor_Shutdown x)"
proof -
  assume i: "fd_inv x"
  let ?y = "stopDoH3Locked (stopDoQLocked (stopDoTLocked x))"
  have "accounted x" using i by (simp add: fd_inv_def)
  then have "accounted ?y" by (intro stop_accounted)
  moreover have "same_run x ?y" by (rule same_run_trans [OF same_run_trans [OF stop_frame(1,2)] stop_frame(3)])
  ultimately have i': "fd_inv ?y" using fd_inv_same [OF i] by blast
  obtain fd w where y: "?y = (fd, w)" by (rule prod.exhaust)
  show ?thesis using i' accounted_fields [of fd w]
    by (auto simp: Frontdoor_Shutdown_def y fd_inv_def fd_socks_def)
qed

lemma Reconcile_inv:
  assumes "fd_inv x" "Frontdoor_Reconcile cfg x = (r, y)"
  shows "fd_inv y"
proof -
  obtain fd w where x: "x = (fd, w)" by fastforce
  let ?x = "(fd\<lparr>fd_cfg := cfg\<rparr>, w)"
  have i: "fd_inv ?x" using assms(1) accounted_fields [of fd w] by (auto simp: x fd_inv_def fd_socks_def)
  then have a: "accounted ?x" by (simp add: fd_inv_def)
  obtain r1 f1 w1 where 1: "(if DoQEnabled cfg \<and> \<not> DoQEnabled (fd_cfg fd) then startDoQLocked cfg ?x
            else if \<not> DoQEnabled cfg \<and> DoQEnabled (fd_cfg fd) then (None, stopDoQLocked ?x) else (None, ?x)) = (r1, f1, w1)"
    by (rule prod_cases3)
  note o1 = choice_ok [OF 1 a stop_accounted(2) [OF a] stop_frame(2) start_accounted(2) [OF a]]
  have i1: "fd_inv (f1, w1)" by (rule fd_inv_same [OF i o1])
  obtain r2 f2 w2 where 2: "(if DoH3Enabled cfg \<and> \<not> DoH3Enabled (fd_cfg fd) then startDoH3Locked cfg (f1, w1)
            else if \<not> DoH3Enabled cfg \<and> DoH3Enabled (fd_cfg fd) then (None, stopDoH3Locked (f1, w1)) else (None, f1, w1)) = (r2, f2, w2)"
    by (rule prod_cases3)
  note o2 = choice_ok [OF 2 o1(1) stop_accounted(3) [OF o1(1)] stop_frame(3) start_accounted(3) [OF o1(1)]]
  have i2: "fd_inv (f2, w2)" by (rule fd_inv_same [OF i1 o2])
  have set_cfg: "fd_inv (f\<lparr>fd_cfg := c\<rparr>, v)" if "fd_inv (f, v)" for f v c
    using that accounted_fields [of f v] by (auto simp: fd_inv_def fd_socks_def)
  show ?thesis using assms(2) set_cfg i1 i2 by (auto simp: x Frontdoor_Reconcile_def Let_def 1 2 split: option.splits)
qed

lemma task_over_fields:
  "fd_socks (task_over e now fd) = fd_socks fd" "fd_udp (task_over e now fd) = fd_udp fd" "fd_tcp (task_over e now fd) = fd_tcp fd"
  "fd_started (task_over e now fd) = fd_started fd" "fd_cancelled (task_over e now fd) = fd_cancelled fd" "fd_cfg (task_over e now fd) = fd_cfg fd"
  "quiet (fd_phase (task_over e now fd))" "fd_phase (task_over e now fd) \<noteq> RunEnter" "fd_phase (task_over e now fd) \<noteq> RunServing"
  "fd_cancelled fd \<Longrightarrow> fd_phase (task_over e now fd) = RunOver"
  by (auto simp: task_over_def sup_turn_def quiet_def fd_socks_def split: prod.splits run_turn.splits option.splits bool.splits if_splits)

lemma closePlain_fields:
  assumes "closePlainListenersLocked r (fd, w) = (fd', w')"
  shows "fd_udp fd' = []" "fd_tcp fd' = []" "fd_started fd' = fd_started fd" "fd_cancelled fd' = fd_cancelled fd" "fd_cfg fd' = fd_cfg fd"
  using assms by (auto simp: closePlainListenersLocked_def)

lemma serve_enter_ok:
  assumes "serve_enter True ifs (fd, w) = (r, fd', w')" "accounted (fd, w)"
  shows "accounted (fd', w')" "fd_started fd' = fd_started fd" "fd_cancelled fd' = fd_cancelled fd" "fd_cfg fd' = fd_cfg fd"
    "r \<noteq> None \<Longrightarrow> fd_udp fd' = [] \<and> fd_tcp fd' = []"
proof -
  have "accounted (fd', w') \<and> fd_started fd' = fd_started fd \<and> fd_cancelled fd' = fd_cancelled fd \<and> fd_cfg fd' = fd_cfg fd \<and>
    (r \<noteq> None \<longrightarrow> fd_udp fd' = [] \<and> fd_tcp fd' = [])"
  proof (cases "fd_udp fd = [] \<and> fd_tcp fd = []")
    case True
    then have b: "bindLocked True ifs (fd, w) = (r, fd', w')" using assms(1) by (simp add: serve_enter_def)
    show ?thesis using bindLocked_accounted [OF b assms(2)] True by (cases r) auto
  next
    case False
    then show ?thesis using assms by (auto simp: serve_enter_def split: if_splits)
  qed
  then show "accounted (fd', w')" "fd_started fd' = fd_started fd" "fd_cancelled fd' = fd_cancelled fd" "fd_cfg fd' = fd_cfg fd"
    "r \<noteq> None \<Longrightarrow> fd_udp fd' = [] \<and> fd_tcp fd' = []" by blast+
qed

lemma fd_invI:
  "accounted (fd, w) \<Longrightarrow> (quiet (fd_phase fd) \<Longrightarrow> fd_udp fd = [] \<and> fd_tcp fd = []) \<Longrightarrow>
   (fd_phase fd \<notin> {RunIdle, RunOver} \<Longrightarrow> fd_started fd \<or> fd_cancelled fd) \<Longrightarrow> fd_inv (fd, w)"
  by (auto simp: fd_inv_def)

lemma run_step_inv:
  assumes "run_step True ifs x y" "fd_inv x"
  shows "fd_inv y"
  using assms
proof (cases rule: run_step.cases)
  case (enter fd w fd' w')
  then have a: "accounted (fd, w)" "fd_started fd \<or> fd_cancelled fd" using assms(2) by (auto simp: fd_inv_def)
  note s = serve_enter_ok [OF enter(4) a(1)]
  show ?thesis unfolding enter(2) using s a accounted_fields [OF s(1)] by (intro fd_invI) (auto simp: quiet_def fd_socks_def)
next
  case (rebind_failed fd w e fd' w' now)
  then have a: "accounted (fd, w)" "fd_started fd \<or> fd_cancelled fd" using assms(2) by (auto simp: fd_inv_def)
  note s = serve_enter_ok [OF rebind_failed(4) a(1)]
  show ?thesis unfolding rebind_failed(2) using s a accounted_fields [OF s(1) task_over_fields(1)]
    by (intro fd_invI) (auto simp: task_over_fields)
next
  case (stop fd w fd' w' now)
  then have a: "accounted (fd, w)" using assms(2) by (auto simp: fd_inv_def)
  have "accounted (fd', w')" using closePlain_accounted [OF a] stop(5) by simp
  then show ?thesis unfolding stop(2) using accounted_fields [OF _ task_over_fields(1)] closePlain_fields [OF stop(5)] stop(4)
    by (intro fd_invI) (auto simp: task_over_fields)
next
  case (crash fd w fd' w' err now)
  then have a: "accounted (fd, w)" "fd_started fd \<or> fd_cancelled fd" using assms(2) by (auto simp: fd_inv_def)
  have "accounted (fd', w')" using closePlain_accounted [OF a(1)] crash(4) by simp
  then show ?thesis unfolding crash(2) using accounted_fields [OF _ task_over_fields(1)] closePlain_fields [OF crash(4)] a(2)
    by (intro fd_invI) (auto simp: task_over_fields)
next
  case (retry fd w)
  then show ?thesis using assms(2) accounted_fields [of fd w] by (auto simp: fd_inv_def quiet_def fd_socks_def)
next
  case (woken fd w)
  then show ?thesis using assms(2) accounted_fields [of fd w] by (auto simp: fd_inv_def quiet_def fd_socks_def)
qed

lemma fd_step_inv: "fd_step ok True ifs x y \<Longrightarrow> fd_inv x \<Longrightarrow> fd_inv y"
  by (induction rule: fd_step.induct) (auto intro: Start_inv Shutdown_inv Reconcile_inv run_step_inv)

lemma reach_inv:
  assumes "fd_reach ok True ifs es x" "\<forall>e. LCancel e \<notin> set es"
  shows "fd_inv x"
  using assms(1)
proof (induction rule: fd_reach.induct)
  case (fresh cfg)
  then show ?case using assms(2)
    by (simp add: fd_inv_def accounted_def Frontdoor_New_def fd_socks_def opt_list_def uncut_def quiet_def)
qed (rule fd_step_inv)

section \<open>Shutdown: lemmas\<close>

fun run_rank :: "run_phase \<Rightarrow> nat" where
  "run_rank RunBackoff = 3"
| "run_rank RunEnter = 2"
| "run_rank RunServing = 1"
| "run_rank RunIdle = 0"
| "run_rank RunOver = 0"

definition encrypted :: "fdw \<Rightarrow> sock list" where
  "encrypted x = opt_list (fd_dot (fst x)) @ opt_list (fd_doq (fst x)) @ opt_list (fd_doh3 (fst x))"

lemma serve_enter_encrypted:
  assumes "serve_enter True ifs (fd, w) = (r, fd', w')" "accounted (fd, w)"
  shows "encrypted (fd', w') = encrypted (fd, w)"
proof (cases "fd_udp fd = [] \<and> fd_tcp fd = []")
  case True
  then have b: "bindLocked True ifs (fd, w) = (r, fd', w')" using assms(1) by (simp add: serve_enter_def)
  show ?thesis using bindLocked_accounted(2,3) [OF b assms(2)] True by (cases r) (auto simp: encrypted_def)
qed (use assms in \<open>auto simp: serve_enter_def split: if_splits\<close>)

lemma task_over_encrypted: "encrypted (task_over e now fd, w) = encrypted (fd, w)"
  by (auto simp: encrypted_def task_over_def split: prod.splits run_turn.splits)

lemma encrypted_upd:
  "encrypted (fd\<lparr>fd_phase := p\<rparr>, w) = encrypted (fd, w)" "encrypted (fd\<lparr>fd_attempt := n\<rparr>, w) = encrypted (fd, w)"
  by (simp_all add: encrypted_def)

lemma closePlain_encrypted: "closePlainListenersLocked r (fd, w) = (fd', w') \<Longrightarrow> encrypted (fd', w') = encrypted (fd, w)"
  by (auto simp: encrypted_def closePlainListenersLocked_def)

lemma run_step_encrypted:
  assumes "run_step True ifs x y" "accounted x"
  shows "encrypted y = encrypted x"
  using assms
  by (cases rule: run_step.cases)
    (auto simp: task_over_encrypted encrypted_upd dest: serve_enter_encrypted closePlain_encrypted)

lemma cancelled_step:
  assumes "run_step True ifs x y" "fd_cancelled (fst x)" "accounted x"
  shows "run_rank (fd_phase (fst y)) < run_rank (fd_phase (fst x)) \<and> fd_cancelled (fst y) "
  using assms
proof (cases rule: run_step.cases)
  case (enter fd w fd' w')
  then show ?thesis using assms(2,3) serve_enter_ok(3) [OF enter(4)] by simp
next
  case (rebind_failed fd w e fd' w' now)
  then show ?thesis using assms(2,3) serve_enter_ok(3) [OF rebind_failed(4)] by (simp add: task_over_fields)
next
  case (stop fd w fd' w' now)
  then show ?thesis using closePlain_fields(4) [OF stop(5)] by (simp add: task_over_fields)
next
  case (crash fd w fd' w' err now)
  then show ?thesis using closePlain_fields(4) [OF crash(4)] assms(2) by (simp add: task_over_fields)
qed auto

lemma run_can_move:
  assumes "fd_phase fd \<notin> {RunIdle, RunOver}"
  shows "\<exists>y. run_step r ifs (fd, w) y"
proof (cases "fd_phase fd")
  case RunEnter
  obtain e fd' w' where s: "serve_enter r ifs (fd, w) = (e, fd', w')" by (rule prod_cases3)
  show ?thesis using run_step.enter [OF RunEnter] run_step.rebind_failed [OF RunEnter] s by (cases e) blast+
next
  case RunServing
  obtain fd' w' where "closePlainListenersLocked True (fd, w) = (fd', w')" by (rule prod.exhaust)
  then show ?thesis using run_step.crash [OF RunServing] by blast
next
  case RunBackoff
  then show ?thesis using run_step.retry by blast
qed (use assms in auto)

lemma after_shutdown:
  assumes "fd_inv x" "(run_step True ifs ^^ n) (Frontdoor_Shutdown x) z"
  shows "fd_inv z \<and> encrypted z = [] \<and> (run_rank (fd_phase (fst z)) = 0 \<or> fd_cancelled (fst z)) \<and>
    n + run_rank (fd_phase (fst z)) \<le> run_rank (fd_phase (fst x))"
  using assms(2)
proof (induction n arbitrary: z)
  case 0
  obtain fd w where x: "x = (fd, w)" by (rule prod.exhaust)
  have "encrypted (Frontdoor_Shutdown x) = []" "fd_phase (fst (Frontdoor_Shutdown x)) = fd_phase fd"
    "fd_cancelled (fst (Frontdoor_Shutdown x)) \<longleftrightarrow> fd_cancelled fd \<or> fd_started fd"
    by (simp_all add: x Frontdoor_Shutdown_def stopDoTLocked_def stopDoQLocked_def stopDoH3Locked_def encrypted_def opt_list_def)
  then show ?case using 0 assms(1) Shutdown_inv [OF assms(1)] by (cases "fd_phase fd") (auto simp: x fd_inv_def)
next
  case (Suc n)
  then obtain y where y: "(run_step True ifs ^^ n) (Frontdoor_Shutdown x) y" "run_step True ifs y z" by auto
  note i = Suc.IH [OF y(1)]
  have a: "accounted y" using i by (simp add: fd_inv_def)
  have "run_rank (fd_phase (fst y)) \<noteq> 0" using y(2) by (cases rule: run_step.cases) auto
  then have "fd_cancelled (fst y)" using i by simp
  from cancelled_step [OF y(2) this a] show ?case
    using i run_step_inv [OF y(2)] run_step_encrypted [OF y(2) a] by auto
qed

lemma idle_no_plain: "fd_inv z \<Longrightarrow> encrypted z = [] \<Longrightarrow> quiet (fd_phase (fst z)) \<Longrightarrow> nw_open (snd z) = []"
  by (cases z) (auto simp: fd_inv_def accounted_def fd_socks_def encrypted_def)

section \<open>Start: lemmas\<close>

lemma fresh_start:
  assumes "accounted (fd, w)" "fd_socks fd = []" "\<not> fd_started fd" "Frontdoor_Start True ifs (fd, w) = (r, fd', w')"
  shows "r \<noteq> None \<Longrightarrow> nw_open w' = [] \<and> fd_socks fd' = [] \<and> \<not> fd_started fd' \<and> fd_phase fd' = fd_phase fd"
    and "r = None \<Longrightarrow> fd_started fd' \<and> (map so_addr (fd_udp fd'), map so_addr (fd_tcp fd')) = effectiveBinds ifs (fd_cfg fd) \<and>
      (fd_dot fd' \<noteq> None \<longleftrightarrow> fc_TLSConfigs (fd_cfg fd)) \<and> (fd_doq fd' \<noteq> None \<longleftrightarrow> fc_TLSConfigs (fd_cfg fd) \<and> DoQEnabled (fd_cfg fd)) \<and>
      (fd_doh3 fd' \<noteq> None \<longleftrightarrow> fc_TLSConfigs (fd_cfg fd) \<and> DoH3Enabled (fd_cfg fd))"
proof -
  have e: "fd_udp fd = []" "fd_tcp fd = []" "fd_dot fd = None" "fd_doq fd = None" "fd_doh3 fd = None"
    using assms(2) by (auto simp: fd_socks_def opt_list_def split: option.splits)
  have o: "nw_open w = []" using assms(1,2) by (simp add: accounted_def)
  obtain rb fb wb where b: "bindLocked True ifs (fd, w) = (rb, fb, wb)" by (rule prod_cases3)
  note bb = bindLocked_accounted [OF b assms(1) e(1,2)]
  have goal: "(r \<noteq> None \<longrightarrow> nw_open w' = [] \<and> fd_socks fd' = [] \<and> \<not> fd_started fd' \<and> fd_phase fd' = fd_phase fd) \<and>
    (r = None \<longrightarrow> fd_started fd' \<and> (map so_addr (fd_udp fd'), map so_addr (fd_tcp fd')) = effectiveBinds ifs (fd_cfg fd) \<and>
      (fd_dot fd' \<noteq> None \<longleftrightarrow> fc_TLSConfigs (fd_cfg fd)) \<and> (fd_doq fd' \<noteq> None \<longleftrightarrow> fc_TLSConfigs (fd_cfg fd) \<and> DoQEnabled (fd_cfg fd)) \<and>
      (fd_doh3 fd' \<noteq> None \<longleftrightarrow> fc_TLSConfigs (fd_cfg fd) \<and> DoH3Enabled (fd_cfg fd)))"
  proof (cases rb)
    case (Some m)
    then show ?thesis using assms(2-4) b bb(2) o by (auto simp: Frontdoor_Start_def)
  next
    case None
    then obtain udp tcp where f: "fb = fd\<lparr>fd_udp := udp, fd_tcp := tcp\<rparr>"
      "(map so_addr udp, map so_addr tcp) = effectiveBinds ifs (fd_cfg fd)" using bb(3) by blast
    obtain re fe we where en: "startEncryptedLocked (fd_cfg fd) (fb, wb) = (re, fe, we)" by (rule prod_cases3)
    have ae: "accounted (fe, we)" "same_run (fb, wb) (fe, we)" using startEncrypted_accounted [OF bb(1) en] by auto
    show ?thesis
    proof (cases re)
      case (Some m)
      then have y: "(fd', w') = closeListenersLocked True (fe, we)" "r \<noteq> None" using assms(3,4) b None en by (auto simp: Frontdoor_Start_def)
      have c: "accounted (fd', w')" "fd_socks fd' = []" "fd_phase fd' = fd_phase fe" "fd_started fd' = fd_started fe"
        using closeListeners_accounted [OF ae(1)] y(1) [symmetric] by (metis fst_conv)+
      then show ?thesis using y(2) ae(2) assms(3) f(1) by (simp add: accounted_def same_run_def)
    next
      case n: None
      have "fd_udp fe = udp" "fd_tcp fe = tcp" using ae(2) f(1) by (auto simp: same_run_def)
      moreover have "(fd_dot fe \<noteq> None \<longleftrightarrow> fc_TLSConfigs (fd_cfg fd)) \<and> (fd_doq fe \<noteq> None \<longleftrightarrow> fc_TLSConfigs (fd_cfg fd) \<and> DoQEnabled (fd_cfg fd)) \<and>
          (fd_doh3 fe \<noteq> None \<longleftrightarrow> fc_TLSConfigs (fd_cfg fd) \<and> DoH3Enabled (fd_cfg fd))"
        using en n e f(1)
        by (auto simp: startEncryptedLocked_def startDoTLocked_def startDoQLocked_def startDoH3Locked_def
            split: prod.splits option.splits if_splits sum.splits)
      ultimately show ?thesis using assms(3,4) b None en n f(2) by (auto simp: Frontdoor_Start_def)
    qed
  qed
  from goal show "r \<noteq> None \<Longrightarrow> nw_open w' = [] \<and> fd_socks fd' = [] \<and> \<not> fd_started fd' \<and> fd_phase fd' = fd_phase fd" by blast
  from goal show "r = None \<Longrightarrow> fd_started fd' \<and> (map so_addr (fd_udp fd'), map so_addr (fd_tcp fd')) = effectiveBinds ifs (fd_cfg fd) \<and>
      (fd_dot fd' \<noteq> None \<longleftrightarrow> fc_TLSConfigs (fd_cfg fd)) \<and> (fd_doq fd' \<noteq> None \<longleftrightarrow> fc_TLSConfigs (fd_cfg fd) \<and> DoQEnabled (fd_cfg fd)) \<and>
      (fd_doh3 fd' \<noteq> None \<longleftrightarrow> fc_TLSConfigs (fd_cfg fd) \<and> DoH3Enabled (fd_cfg fd))" by blast
qed

section \<open>Restart budget: lemmas\<close>

definition crash_at :: "int \<Rightarrow> task_end" where
  "crash_at t = \<lparr>te_stopped = False, te_err = Some ''crash'', te_now = t, te_woken = False\<rparr>"

lemma crash_at_sel: "te_stopped (crash_at t) = False" "te_err (crash_at t) = Some ''crash''" "te_now (crash_at t) = t" "te_woken (crash_at t) = False"
  by (simp_all add: crash_at_def)

definition in_window :: "int \<Rightarrow> int list \<Rightarrow> int list" where
  "in_window now ts = filter (\<lambda>t. t > now - RestartWindow) ts"

text \<open>\<open>over_budget past ts\<close>: some crash of \<open>ts\<close>, itself included, has six crashes within the window before it.\<close>

fun over_budget :: "int list \<Rightarrow> int list \<Rightarrow> bool" where
  "over_budget past [] = False"
| "over_budget past (t # ts) = (MaxRestartsPerWindow < length (in_window t (past @ [t])) \<or> over_budget (past @ [t]) ts)"

lemma in_window_mono: "s \<le> t \<Longrightarrow> in_window t (in_window s ts) = in_window t ts"
  by (auto simp: in_window_def intro: filter_cong)

lemma in_window_now: "in_window t (ts @ [t]) = in_window t ts @ [t]"
  by (simp add: in_window_def RestartWindow_def)

fun survived :: "int list \<Rightarrow> int list \<Rightarrow> nat" where
  "survived past [] = 0"
| "survived past (t # ts) = (if MaxRestartsPerWindow < length (in_window t (past @ [t])) then 0 else Suc (survived (past @ [t]) ts))"

lemma sup_run_crashes:
  assumes "sorted ts" "\<not> sv_givenUp sv" "sv_restarts sv = in_window s past" "\<forall>t\<in>set ts. s \<le> t"
  shows "fst (sup_run attempt sv (map crash_at ts)) =
     (if over_budget past ts then Some RunGaveUp else None, if over_budget past ts then 1 else 0,
      map (\<lambda>k. backoff_for (attempt + k)) [0..<survived past ts])"
  using assms
proof (induction ts arbitrary: attempt sv s past)
  case (Cons t ts)
  have "sv_restarts sv = in_window s past" "s \<le> t" using Cons.prems by auto
  then have k: "filter (\<lambda>x. x > t - RestartWindow) (sv_restarts sv) @ [t] = in_window t (past @ [t])"
    using in_window_mono [of s t past] by (simp add: in_window_now) (simp add: in_window_def)
  let ?sv = "sv\<lparr>sv_restarts := in_window t (past @ [t])\<rparr>"
  have ih: "fst (sup_run (Suc attempt) ?sv (map crash_at ts)) =
     (if over_budget (past @ [t]) ts then Some RunGaveUp else None, if over_budget (past @ [t]) ts then 1 else 0,
      map (\<lambda>k. backoff_for (Suc attempt + k)) [0..<survived (past @ [t]) ts])"
    using Cons.prems by (intro Cons.IH [of _ t]) auto
  have m: "map (\<lambda>k. backoff_for (attempt + k)) [0..<Suc n] = backoff_for attempt # map (\<lambda>k. backoff_for (Suc attempt + k)) [0..<n]" for n
    by (simp add: upt_conv_Cons map_Suc_upt [symmetric] del: upt_Suc)
  obtain r n ds sv' where g: "sup_run (Suc attempt) ?sv (map crash_at ts) = ((r, n, ds), sv')"
    by (metis prod.exhaust)
  show ?case using ih Cons.prems(2)
    by (simp add: crash_at_sel sup_turn_def recordRestart_def k Let_def g not_less m del: upt_Suc)
qed simp

lemma over_budget_index:
  "over_budget past ts \<longleftrightarrow> (\<exists>k<length ts. MaxRestartsPerWindow < length (in_window (ts ! k) (past @ take (Suc k) ts)))"
proof (induction ts arbitrary: past)
  case (Cons t ts)
  show ?case unfolding over_budget.simps(2) Cons.IH by (auto simp: less_Suc_eq_0_disj)
qed simp

lemma six_in_window:
  assumes "sorted ts" "k < length ts"
  shows "MaxRestartsPerWindow < length (in_window (ts ! k) (take (Suc k) ts)) \<longleftrightarrow> 5 \<le> k \<and> ts ! k - ts ! (k - 5) < RestartWindow"
proof -
  let ?I = "{i. i < Suc k \<and> ts ! k - RestartWindow < ts ! i}"
  have I: "length (in_window (ts ! k) (take (Suc k) ts)) = card ?I"
    using assms(2) by (auto simp: in_window_def length_filter_conv_card intro!: arg_cong [where f = card])
  have fin: "finite ?I" by simp
  show ?thesis
  proof
    assume "5 \<le> k \<and> ts ! k - ts ! (k - 5) < RestartWindow"
    then have "{k - 5..k} \<subseteq> ?I" using assms sorted_nth_mono [OF assms(1)] by fastforce
    then have "card {k - 5..k} \<le> card ?I" by (intro card_mono fin)
    then show "MaxRestartsPerWindow < length (in_window (ts ! k) (take (Suc k) ts))"
      using \<open>5 \<le> k \<and> _\<close> by (simp add: I MaxRestartsPerWindow_def)
  next
    assume "MaxRestartsPerWindow < length (in_window (ts ! k) (take (Suc k) ts))"
    then have six: "5 < card ?I" by (simp add: I MaxRestartsPerWindow_def)
    show "5 \<le> k \<and> ts ! k - ts ! (k - 5) < RestartWindow"
    proof (rule ccontr)
      assume no: "\<not> (5 \<le> k \<and> ts ! k - ts ! (k - 5) < RestartWindow)"
      have "?I \<subseteq> {Suc k - 5..k}"
      proof
        fix i assume i: "i \<in> ?I"
        show "i \<in> {Suc k - 5..k}"
        proof (rule ccontr)
          assume "i \<notin> {Suc k - 5..k}"
          then have "5 \<le> k" "i \<le> k - 5" using i by auto
          then have "ts ! i \<le> ts ! (k - 5)" using assms by (intro sorted_nth_mono) auto
          then show False using i no \<open>5 \<le> k\<close> by auto
        qed
      qed
      then have "card ?I \<le> card {Suc k - 5..k}" by (intro card_mono) auto
      then show False using six by simp
    qed
  qed
qed

lemma over_budget_gap:
  assumes "sorted ts"
  shows "over_budget [] ts \<longleftrightarrow> (\<exists>n. n + 5 < length ts \<and> ts ! (n + 5) - ts ! n < RestartWindow)"
proof -
  have "over_budget [] ts \<longleftrightarrow> (\<exists>k<length ts. 5 \<le> k \<and> ts ! k - ts ! (k - 5) < RestartWindow)"
    unfolding over_budget_index append_Nil using six_in_window [OF assms] by auto
  also have "\<dots> \<longleftrightarrow> (\<exists>n. n + 5 < length ts \<and> ts ! (n + 5) - ts ! n < RestartWindow)"
  proof
    assume "\<exists>k<length ts. 5 \<le> k \<and> ts ! k - ts ! (k - 5) < RestartWindow"
    then obtain k where "k < length ts" "5 \<le> k" "ts ! k - ts ! (k - 5) < RestartWindow" by blast
    then show "\<exists>n. n + 5 < length ts \<and> ts ! (n + 5) - ts ! n < RestartWindow" by (intro exI [of _ "k - 5"]) auto
  next
    assume "\<exists>n. n + 5 < length ts \<and> ts ! (n + 5) - ts ! n < RestartWindow"
    then obtain n where "n + 5 < length ts" "ts ! (n + 5) - ts ! n < RestartWindow" by blast
    then show "\<exists>k<length ts. 5 \<le> k \<and> ts ! k - ts ! (k - 5) < RestartWindow" by (intro exI [of _ "n + 5"]) auto
  qed
  finally show ?thesis .
qed

lemma survived_le: "survived past ts \<le> length ts \<and> (survived past ts = length ts \<longleftrightarrow> \<not> over_budget past ts)"
  by (induction ts arbitrary: past) auto

lemma backoff_bounds: "0 < backoff_for k \<and> backoff_for k \<le> 4000000000"
proof -
  have four: "length restartBackoff - 1 = 4" by (simp add: restartBackoff_def)
  have "min k 4 = 0 \<or> min k 4 = 1 \<or> min k 4 = 2 \<or> min k 4 = 3 \<or> min k 4 = (4 :: nat)" by linarith
  then show ?thesis unfolding backoff_for_def four
    by (elim disjE; simp only:; simp add: restartBackoff_def numeral_eq_Suc)
qed

section \<open>Transports: lemmas\<close>

text \<open>The URL alphabet.\<close>

definition url_char :: "char \<Rightarrow> char" where
  "url_char c = (if c = CHR ''+'' then CHR ''-'' else if c = CHR ''/'' then CHR ''_'' else c)"

definition b64url_encode :: "string \<Rightarrow> string" where
  "b64url_encode s = map url_char (b64_encode s)"

lemma of_char_url: "of_char (url_char c) = (if of_char c = (43 :: nat) then 45 else if of_char c = (47 :: nat) then 95 else (of_char c :: nat))"
  by (simp add: url_char_def char_code)

lemma url_code:
  assumes "n < 64"
  shows "of_char (url_char (b64_char n)) =
    (if n < 26 then n + 65 else if n < 52 then n + 71 else if n < 62 then n - 4 else if n = 62 then 45 else (95 :: nat))"
proof -
  have "of_char (b64_char n) = (if n < 26 then n + 65 else if n < 52 then n + 71 else if n < 62 then n - 4 else if n = 62 then 43 else (47 :: nat))"
    using assms by (simp add: b64_char_def)
  then show ?thesis unfolding of_char_url by simp presburger
qed

lemma b64_val_url: "b64_val (CHR ''-'') (CHR ''_'') c = (let n = (of_char c :: nat) in
     if 65 \<le> n \<and> n \<le> 90 then Some (n - 65) else if 97 \<le> n \<and> n \<le> 122 then Some (n - 71)
     else if 48 \<le> n \<and> n \<le> 57 then Some (n + 4) else if n = 45 then Some 62 else if n = 95 then Some 63 else None)"
  by (simp add: b64_val_def char_code [of c] Let_def)

lemma url_val:
  assumes "n < 64"
  shows "b64_val (CHR ''-'') (CHR ''_'') (url_char (b64_char n)) = Some n" "url_char (b64_char n) \<noteq> CHR ''=''"
    "url_char (b64_char n) \<noteq> CHR 0x0A" "url_char (b64_char n) \<noteq> CHR 0x0D"
  using assms by (simp_all add: b64_val_url char_code [of "url_char _"] url_code [OF assms] Let_def) presburger+

lemma url_pad: "url_char (CHR ''='') = CHR ''=''"
  by (simp add: url_char_def)

lemma URLDecode_encode: "URLDecode (b64url_encode s) = Some s"
  unfolding URLDecode_def b64url_encode_def
  by (induction s rule: b64_encode.induct) (simp_all add: Let_def url_pad url_val sextets char_pieces)

lemma length_b64_encode: "3 * length (b64_encode s) \<le> 4 * length s + 8"
proof (induction s rule: b64_encode.induct)
  case (4 a b c s)
  have "3 * length (b64_encode s) \<le> 4 * length s + 8" by (rule 4 [OF refl refl refl])
  then show ?case by (simp add: Let_def)
qed (simp_all add: Let_def)

lemmas url_out = url_val(2-4) [THEN not_sym]

lemma url_shape:
  "\<exists>e k. b64url_encode s = e @ replicate k (CHR ''='') \<and> k < 3 \<and> (length e + k) mod 4 = 0 \<and> CHR ''='' \<notin> set e \<and> CHR 0x0A \<notin> set e \<and> CHR 0x0D \<notin> set e"
  unfolding b64url_encode_def
proof (induction s rule: b64_encode.induct)
  case 1
  show ?case by (intro exI [of _ "[]"] exI [of _ 0]) simp
next
  case (2 a)
  show ?case by (rule exI [of _ "map url_char [b64_char (of_char a div 4), b64_char (of_char a mod 4 * 16)]"], rule exI [of _ 2])
    (simp add: Let_def numeral_2_eq_2 url_pad url_out sextets)
next
  case (3 a b)
  show ?case
    by (rule exI [of _ "map url_char [b64_char (of_char a div 4), b64_char (of_char a mod 4 * 16 + of_char b div 16), b64_char (of_char b mod 16 * 4)]"], rule exI [of _ 1])
      (simp add: Let_def url_pad url_out sextets)
next
  case (4 a b c s)
  let ?q = "map url_char [b64_char (of_char a div 4), b64_char (of_char a mod 4 * 16 + of_char b div 16), b64_char (of_char b mod 16 * 4 + of_char c div 64), b64_char (of_char c mod 64)]"
  obtain e k where e: "map url_char (b64_encode s) = e @ replicate k (CHR ''='')" "k < 3" "(length e + k) mod 4 = 0"
    "CHR ''='' \<notin> set e \<and> CHR 0x0A \<notin> set e \<and> CHR 0x0D \<notin> set e" using 4 [OF refl refl refl] by (elim exE conjE) (rule that, simp_all)
  then show ?case by (intro exI [of _ "?q @ e"] exI [of _ k]) (simp add: Let_def url_out sextets)
qed

lemma pad_back:
  assumes "(m + k) mod 4 = 0" "k < 3"
  shows "(4 - m mod 4) mod 4 = (k :: nat)" "m mod 4 \<noteq> 1"
proof -
  define r where "r = m mod 4"
  have "r < 4" "(r + k) mod 4 = 0" using assms(1) by (simp_all add: r_def mod_add_left_eq)
  then have "r + k = 0 \<or> r + k = 4" using assms(2) by presburger
  then have "(4 - r) mod 4 = k" "r \<noteq> 1" using assms(2) by (auto simp: mod_if)
  then show "(4 - m mod 4) mod 4 = k" "m mod 4 \<noteq> 1" by (simp_all add: r_def)
qed

lemma decode_param:
  assumes "t = b64url_encode s \<or> t = takeWhile (\<lambda>c. c \<noteq> CHR ''='') (b64url_encode s)"
  shows "(case RawURLDecode t of Some d \<Rightarrow> Some d | None \<Rightarrow> PaddedURLDecode t) = Some s"
proof -
  obtain e k where e: "b64url_encode s = e @ replicate k (CHR ''='')" "k < 3" "(length e + k) mod 4 = 0"
    "CHR ''='' \<notin> set e" "CHR 0x0A \<notin> set e" "CHR 0x0D \<notin> set e" using url_shape [of s] by (elim exE conjE) (rule that)
  have tw: "takeWhile (\<lambda>c. c \<noteq> CHR ''='') (b64url_encode s) = e"
    unfolding e(1) using e(4) by (cases k) (auto simp: takeWhile_tail takeWhile_eq_all_conv)
  have clean: "skip_breaks (e @ replicate j (CHR ''='')) = e @ replicate j (CHR ''='')" for j
    using e(5,6) by (auto simp: skip_breaks_def filter_id_conv)
  have raw: "RawURLDecode e = Some s"
    using clean [of 0] pad_back [OF e(3,2)] e(4) URLDecode_encode [of s] by (simp add: RawURLDecode_def Let_def e(1))
  show ?thesis
  proof (cases "t = e")
    case True
    then show ?thesis using raw by simp
  next
    case False
    then have t: "t = e @ replicate k (CHR ''='')" "k \<noteq> 0" using assms tw e(1) by auto
    then have "RawURLDecode t = None" using clean [of k] by (simp add: RawURLDecode_def Let_def)
    moreover have "PaddedURLDecode t = Some s" using clean [of k] t URLDecode_encode [of s] by (simp add: PaddedURLDecode_def e(1))
    ultimately show ?thesis by simp
  qed
qed

lemma fold_min_le:
  "fold (\<lambda>rr m. if f rr < m then f rr else m) xs (a :: nat) \<le> a \<and> (\<forall>x\<in>set xs. fold (\<lambda>rr m. if f rr < m then f rr else m) xs a \<le> f x)"
proof (induction xs arbitrary: a)
  case (Cons x xs)
  show ?case using Cons [of "f x"] Cons [of a] by auto
qed simp

lemma minAnswerTTL_le: "rr \<in> set rrs \<Longrightarrow> minAnswerTTL wl rrs \<le> RRTtl wl rr"
  using fold_min_le [of "RRTtl wl" "tl rrs" "RRTtl wl (hd rrs)"] by (cases rrs) (auto simp: minAnswerTTL_def)

text \<open>The requests that carry a wire message: a POST, or a GET with either form of base64url.\<close>

definition carries :: "string \<Rightarrow> doh_request \<Rightarrow> bool" where
  "carries w q = (dq_Method q = ''POST'' \<and> dq_MediaType q = Some dnsMessageContentType \<and> dq_Body q = Inr w \<or>
     dq_Method q = ''GET'' \<and> (dq_Param q = b64url_encode w \<or> dq_Param q = takeWhile (\<lambda>c. c \<noteq> CHR ''='') (b64url_encode w)))"

lemma carried_wire:
  assumes "carries w q" "w \<noteq> []" "length w \<le> maxDoHMessageBytes"
  shows "dq_Method q \<in> {''POST'', ''GET''}" "(if dq_Method q = ''POST'' then readPostWire q else readGetWire q) = Inr w"
proof -
  show "dq_Method q \<in> {''POST'', ''GET''}" using assms(1) by (auto simp: carries_def)
  show "(if dq_Method q = ''POST'' then readPostWire q else readGetWire q) = Inr w"
  proof (cases "dq_Method q = ''POST''")
    case True
    then have b: "dq_MediaType q = Some dnsMessageContentType" "dq_Body q = Inr w" using assms(1) by (auto simp: carries_def)
    then show ?thesis using True assms(2,3) by (simp add: readPostWire_def Let_def)
  next
    case False
    then have p: "dq_Param q = b64url_encode w \<or> dq_Param q = takeWhile (\<lambda>c. c \<noteq> CHR ''='') (b64url_encode w)"
      using assms(1) by (auto simp: carries_def)
    have "length (dq_Param q) \<le> length (b64_encode w)"
      using p length_takeWhile_le [of "\<lambda>c. c \<noteq> CHR ''=''" "b64url_encode w"] by (auto simp: b64url_encode_def)
    then have l: "\<not> length (dq_Param q) > maxDoHMessageBytes * 2" using length_b64_encode [of w] assms(3) by (simp add: maxDoHMessageBytes_def)
    have d: "(case RawURLDecode (dq_Param q) of Some d \<Rightarrow> Some d | None \<Rightarrow> PaddedURLDecode (dq_Param q)) = Some w" by (rule decode_param [OF p])
    have n: "dq_Param q \<noteq> []" using d assms(2) by (auto simp: RawURLDecode_def PaddedURLDecode_def URLDecode_def skip_breaks_def)
    show ?thesis using False assms(2,3) l n d by (simp add: readGetWire_def Let_def)
  qed
qed

lemma doq_frame_reads_back:
  assumes "Pack wl m = Some p" "Unpack wl p = Ret (Some m)" "p \<noteq> []" "length p \<le> maxDoQMessageBytes"
  shows "\<exists>out. writeDoQMessage wl m = Inr out \<and> readDoQMessage wl (out @ rest) = Ret (Inr m)"
proof -
  have "length p div 256 < 256" using assms(4) by (simp add: maxDoQMessageBytes_def)
  then have "of_char (char_of (length p div 256) :: char) * 256 + of_char (char_of (length p mod 256) :: char) = length p" by simp
  moreover have "0 < length p div 256 \<or> 0 < length p mod 256"
  proof (rule ccontr)
    assume "\<not> (0 < length p div 256 \<or> 0 < length p mod 256)"
    then have "length p = 0" using div_mult_mod_eq [of "length p" 256] by linarith
    then show False using assms(3) by simp
  qed
  ultimately show ?thesis using assms by (simp add: writeDoQMessage_def readDoQMessage_def Let_def)
qed

section \<open>Private binds: lemmas\<close>

text \<open>No plain listener is bound to a wildcard address, and the configuration does not ask for one.\<close>

definition plain_private :: "netw \<Rightarrow> bool" where
  "plain_private w = (\<forall>s\<in>set (nw_open w). so_kind s \<in> {KUDP, KTCP} \<longrightarrow> \<not> isWildcardBind (so_addr s))"

definition fd_private :: "fdw \<Rightarrow> bool" where
  "fd_private x = (\<not> PublicPlainDNSEnabled (fd_cfg (fst x)) \<and> plain_private (snd x))"

lemma private_shrinks: "plain_private w \<Longrightarrow> set (nw_open w') \<subseteq> set (nw_open w) \<Longrightarrow> plain_private w'"
  by (auto simp: plain_private_def)

lemma private_close [intro]: "plain_private w \<Longrightarrow> plain_private (shutdown_all r ss w)" "plain_private w \<Longrightarrow> plain_private (close_opt s w)"
  "plain_private w \<Longrightarrow> plain_private (close_sock a w)"
  by (auto elim!: private_shrinks simp: shutdown_all_open close_opt_open close_sock_def split: if_splits)

lemma private_opens: "plain_private w \<Longrightarrow> opens w w' new \<Longrightarrow> (\<And>s. s \<in> set new \<Longrightarrow> so_kind s \<in> {KUDP, KTCP} \<Longrightarrow> \<not> isWildcardBind (so_addr s)) \<Longrightarrow>
    plain_private w'"
  by (auto simp: plain_private_def opens_def)

lemma sanitized: "a \<in> set (fst (effectiveBinds ifs cfg)) \<union> set (snd (effectiveBinds ifs cfg)) \<Longrightarrow> \<not> PublicPlainDNSEnabled cfg \<Longrightarrow> \<not> isWildcardBind a"
  by (auto simp: effectiveBinds_def sanitizeBinds_def Let_def split: if_splits)

lemma bindLocked_private:
  assumes "bindLocked released ifs (fd, w) = (r, fd', w')" "fd_private (fd, w)"
  shows "fd_private (fd', w')"
proof -
  obtain ua ta where b: "effectiveBinds ifs (fd_cfg fd) = (ua, ta)" by fastforce
  have pub: "\<not> PublicPlainDNSEnabled (fd_cfg fd)" "plain_private w" using assms(2) by (auto simp: fd_private_def)
  have wild: "\<not> isWildcardBind a" if "a \<in> set ua \<union> set ta" for a using sanitized [of a ifs "fd_cfg fd"] pub(1) that by (simp add: b)
  have listened: "plain_private w2" if "listen_all k as [] w1 = (r1, w2)" "plain_private w1" "set as \<subseteq> set ua \<union> set ta" for k as w1 r1 w2
  proof -
    note h = that
    obtain new where n: "opens w1 w2 new" "set (map so_addr new) \<subseteq> set as"
      using listen_all_opens [OF h(1)] by (cases r1) (auto dest!: set_mono_prefix)
    show ?thesis using n(2) h(3) wild by (intro private_opens [OF h(2) n(1)]) auto
  qed
  obtain r1 w1 where 1: "listen_all KUDP ua [] w = (r1, w1)" by fastforce
  obtain r2 w2 where 2: "listen_all KTCP ta [] w1 = (r2, w2)" by fastforce
  have p: "plain_private w1" "plain_private w2" using listened [OF 1 pub(2)] listened [OF 2] by auto
  show ?thesis using assms(1) p pub(1)
    by (cases r1; cases r2) (auto simp: bindLocked_def b 1 2 fd_private_def)
qed

lemma start_private:
  assumes "fd_private x"
  shows "startDoTLocked cfg x = (r, y) \<Longrightarrow> fd_private y" "startDoQLocked cfg x = (r, y) \<Longrightarrow> fd_private y"
    "startDoH3Locked cfg x = (r, y) \<Longrightarrow> fd_private y"
proof -
  obtain fd w where x: "x = (fd, w)" by fastforce
  have p: "plain_private w" "\<not> PublicPlainDNSEnabled (fd_cfg fd)" using assms by (auto simp: x fd_private_def)
  have one: "plain_private w2" if "opens w1 w2 [s]" "so_kind s \<notin> {KUDP, KTCP}" "plain_private w1" for w1 w2 s
    using that by (intro private_opens [OF that(3,1)]) auto
  have none: "plain_private w2" if "opens w1 w2 []" "plain_private w1" for w1 w2
    using that by (intro private_opens [OF that(2,1)]) auto
  have heard: "plain_private w2" if "listen k a w1 = (r1, w2)" "k \<notin> {KUDP, KTCP}" "plain_private w1" for k a w1 r1 w2
    using listen_opens [OF that(1)] that(2,3) one none by (cases r1) auto
  have opened: "plain_private w2" if "open_sock KDoT a w1 = (s, w2)" "plain_private w1" for a w1 s w2
    using one [of w1 w2 s] open_sock_opens [OF that(1)] that(2) by simp
  have dot: "plain_private w2" if "DoT_Start w = (r1, w2)" for r1 w2
  proof -
    obtain e w1 where 1: "next_end w = (e, w1)" by fastforce
    have "plain_private w1" using none [OF conjunct1 [OF next_end_opens [OF 1]] p(1)] .
    then show ?thesis using that by (auto simp: DoT_Start_def 1 split: listen_end.splits prod.splits dest: opened)
  qed
  have doq: "plain_private w2" if "DoQ_Start a w = (r1, w2)" for a r1 w2
  proof -
    obtain r0 w0 where 0: "listen KDoQ a w = (r0, w0)" by fastforce
    have p0: "plain_private w0" using heard [OF 0 _ p(1)] by simp
    obtain e w1 where 1: "next_end w0 = (e, w1)" by fastforce
    have "plain_private w1" using none [OF conjunct1 [OF next_end_opens [OF 1]] p0] .
    then show ?thesis using that p0 by (cases r0) (auto simp: DoQ_Start_def 0 1 split: listen_end.splits)
  qed
  have h3: "plain_private w2" if "DoH3_Start a w = (r1, w2)" for a r1 w2 using that heard [OF _ _ p(1)] by (auto simp: DoH3_Start_def)
  show "startDoTLocked cfg x = (r, y) \<Longrightarrow> fd_private y" using dot p
    by (auto simp: x startDoTLocked_def fd_private_def split: if_splits prod.splits sum.splits)
  show "startDoQLocked cfg x = (r, y) \<Longrightarrow> fd_private y" using doq p
    by (auto simp: x startDoQLocked_def fd_private_def split: if_splits prod.splits sum.splits)
  show "startDoH3Locked cfg x = (r, y) \<Longrightarrow> fd_private y" using h3 p
    by (auto simp: x startDoH3Locked_def fd_private_def split: if_splits prod.splits sum.splits)
qed

lemma stop_private:
  assumes "fd_private x"
  shows "fd_private (stopDoTLocked x)" "fd_private (stopDoQLocked x)" "fd_private (stopDoH3Locked x)" "fd_private (closePlainListenersLocked r x)"
  using assms by (cases x; auto simp: fd_private_def stopDoTLocked_def stopDoQLocked_def stopDoH3Locked_def closePlainListenersLocked_def)+

lemma choice_private:
  assumes "(if b then s else if c then (None, t) else (None, x)) = (r, y)" "fd_private x" "fd_private t" "\<And>r y. s = (r, y) \<Longrightarrow> fd_private y"
  shows "fd_private y"
  using assms by (auto split: if_splits)

lemma startEncrypted_private:
  assumes "fd_private x" "startEncryptedLocked cfg x = (r, y)"
  shows "fd_private y"
proof -
  obtain r1 x1 where 1: "startDoTLocked cfg x = (r1, x1)" by (rule prod.exhaust)
  obtain r2 x2 where 2: "(if DoQEnabled cfg then startDoQLocked cfg x1 else (None, x1)) = (r2, x2)" by (rule prod.exhaust)
  obtain r3 x3 where 3: "(if DoH3Enabled cfg then startDoH3Locked cfg x2 else (None, x2)) = (r3, x3)" by (rule prod.exhaust)
  have p1: "fd_private x1" by (rule start_private(1) [OF assms(1) 1])
  have p2: "fd_private x2" using 2 p1 start_private(2) [OF p1] by (auto split: if_splits)
  have p3: "fd_private x3" using 3 p2 start_private(3) [OF p2] by (auto split: if_splits)
  have "y = x1 \<or> y = x3 \<or> y = stopDoTLocked x2 \<or> y = stopDoTLocked (stopDoQLocked x3)"
    using assms(2) by (auto simp: startEncryptedLocked_def 1 2 3 split: option.splits)
  then show ?thesis using p1 p3 stop_private(1) [OF p2] stop_private(1) [OF stop_private(2) [OF p3]] by (elim disjE) simp_all
qed

lemma fd_private_upd: "fd_private (fd, w) \<Longrightarrow> PublicPlainDNSEnabled (fd_cfg fd') = PublicPlainDNSEnabled (fd_cfg fd) \<Longrightarrow> fd_private (fd', w)"
  by (simp add: fd_private_def)

lemma run_step_private:
  assumes "run_step released ifs x y" "fd_private x"
  shows "fd_private y"
  using assms
proof (cases rule: run_step.cases)
  case (enter fd w fd' w')
  then have "fd_private (fd', w')" using assms(2) by (auto simp: serve_enter_def split: if_splits dest: bindLocked_private)
  then show ?thesis unfolding enter(2) by (rule fd_private_upd) simp
next
  case (rebind_failed fd w e fd' w' now)
  then have "fd_private (fd', w')" using assms(2) by (auto simp: serve_enter_def split: if_splits dest: bindLocked_private)
  then show ?thesis unfolding rebind_failed(2) by (rule fd_private_upd) (simp add: task_over_fields)
next
  case (stop fd w fd' w' now)
  then have "fd_private (fd', w')" using stop_private(4) assms(2) by metis
  then show ?thesis unfolding stop(2) by (rule fd_private_upd) (simp add: task_over_fields)
next
  case (crash fd w fd' w' err now)
  then have "fd_private (fd', w')" using stop_private(4) assms(2) by metis
  then show ?thesis unfolding crash(2) by (rule fd_private_upd) (simp add: task_over_fields)
qed (auto elim: fd_private_upd)

lemma Start_private:
  assumes "fd_private (fd, w)" "Frontdoor_Start released ifs (fd, w) = (r, y)"
  shows "fd_private y"
proof -
  obtain rb fb wb where b: "bindLocked released ifs (fd, w) = (rb, fb, wb)" by (rule prod_cases3)
  obtain re fe we where e: "startEncryptedLocked (fd_cfg fd) (fb, wb) = (re, fe, we)" by (rule prod_cases3)
  have pb: "fd_private (fb, wb)" by (rule bindLocked_private [OF b assms(1)])
  have pe: "fd_private (fe, we)" by (rule startEncrypted_private [OF pb e])
  have "fd_private (closeListenersLocked released (fe, we))" unfolding closeListenersLocked_def by (intro stop_private pe)
  then show ?thesis using assms pb pe fd_private_upd [OF pe] by (auto simp: Frontdoor_Start_def b e split: if_splits option.splits)
qed

lemma Shutdown_private:
  assumes "fd_private x"
  shows "fd_private (Frontdoor_Shutdown x)"
proof -
  obtain fd w where y: "stopDoH3Locked (stopDoQLocked (stopDoTLocked x)) = (fd, w)" by (rule prod.exhaust)
  have "fd_private (fd, w)" unfolding y [symmetric] by (intro stop_private assms)
  then show ?thesis by (simp add: Frontdoor_Shutdown_def y fd_private_def)
qed

lemma Reconcile_private:
  assumes "fd_private x" "\<not> PublicPlainDNSEnabled cfg" "Frontdoor_Reconcile cfg x = (r, y)"
  shows "fd_private y"
proof -
  obtain fd w where x: "x = (fd, w)" by fastforce
  let ?x = "(fd\<lparr>fd_cfg := cfg\<rparr>, w)"
  have p: "fd_private ?x" using assms(1,2) by (simp add: x fd_private_def)
  obtain r1 f1 w1 where 1: "(if DoQEnabled cfg \<and> \<not> DoQEnabled (fd_cfg fd) then startDoQLocked cfg ?x
            else if \<not> DoQEnabled cfg \<and> DoQEnabled (fd_cfg fd) then (None, stopDoQLocked ?x) else (None, ?x)) = (r1, f1, w1)"
    by (rule prod_cases3)
  have p1: "fd_private (f1, w1)" by (rule choice_private [OF 1 p stop_private(2) [OF p] start_private(2) [OF p]])
  obtain r2 f2 w2 where 2: "(if DoH3Enabled cfg \<and> \<not> DoH3Enabled (fd_cfg fd) then startDoH3Locked cfg (f1, w1)
            else if \<not> DoH3Enabled cfg \<and> DoH3Enabled (fd_cfg fd) then (None, stopDoH3Locked (f1, w1)) else (None, f1, w1)) = (r2, f2, w2)"
    by (rule prod_cases3)
  have p2: "fd_private (f2, w2)" by (rule choice_private [OF 2 p1 stop_private(3) [OF p1] start_private(3) [OF p1]])
  have set_cfg: "fd_private (f\<lparr>fd_cfg := cfg\<lparr>DoQEnabled := a, DoH3Enabled := b\<rparr>\<rparr>, v)" if "fd_private (f, v)" for f v a b
    using that assms(2) by (simp add: fd_private_def)
  show ?thesis using assms(2,3) p1 p2 by (auto simp: x Frontdoor_Reconcile_def Let_def 1 2 fd_private_def split: option.splits)
qed

lemma reach_private:
  assumes "fd_reach (\<lambda>c. \<not> PublicPlainDNSEnabled c) released ifs es x"
  shows "fd_private x"
  using assms
proof (induction rule: fd_reach.induct)
  case (fresh cfg)
  then show ?case by (simp add: fd_private_def Frontdoor_New_def plain_private_def)
next
  case (further x y)
  from further(2,3) show ?case by (cases rule: fd_step.cases) (auto intro: Start_private Shutdown_private Reconcile_private run_step_private)
qed

section \<open>Examples\<close>

definition sample_fc :: FdConfig where
  "sample_fc = \<lparr>BindUDP53 = [''localhost:53''], BindTCP53 = [''localhost:53''], PublicPlainDNSEnabled = False, fc_TLSConfigs = True,
     DoQEnabled = True, DoQBind = [], DoH3Enabled = False, DoH3Bind = []\<rparr>"

definition net0 :: "listen_end list \<Rightarrow> netw" where
  "net0 es = \<lparr>nw_open = [], nw_next = 0, nw_ends = es\<rparr>"

lemma sample_bind: "isWildcardBind ''localhost:53'' = False"
proof -
  have "SplitHostPort ''localhost:53'' = Some (''localhost'', ''53'')"
    by (simp add: SplitHostPort_def last_colon_def split_at_def Let_def)
  moreover have "ParseIP ''localhost'' = None" by (simp add: ParseIP_def ParseAddr_def)
  ultimately show ?thesis by (simp add: isWildcardBind_def)
qed

lemmas fd_eval = Frontdoor_Start_def bindLocked_def effectiveBinds_def sanitizeBinds_def startEncryptedLocked_def startDoTLocked_def
  startDoQLocked_def startDoH3Locked_def DoT_Start_def DoQ_Start_def DoH3_Start_def listen_def next_end_def open_sock_def close_sock_def
  closeListenersLocked_def closePlainListenersLocked_def stopDoTLocked_def stopDoQLocked_def stopDoH3Locked_def close_opt_def shutdown_all_def
  firstBindOrDefault_def Frontdoor_New_def Frontdoor_Reconcile_def

definition sample_running :: fdw where
  "sample_running = snd (Frontdoor_Start True None (Frontdoor_New sample_fc, net0 []))"

lemma sample_start:
  "fst (Frontdoor_Start True None (Frontdoor_New sample_fc, net0 [])) = None"
  "map so_kind (nw_open (snd sample_running)) = [KUDP, KTCP, KDoT, KDoQ]" "fd_phase (fst sample_running) = RunEnter"
  "map so_kind (fd_socks (fst sample_running)) = [KUDP, KTCP, KDoT, KDoQ]"
  by (simp_all add: sample_running_def fd_eval sample_fc_def net0_def sample_bind fd_socks_def opt_list_def Let_def)

lemma sample_reach: "ok sample_fc \<Longrightarrow> fd_reach ok True None [] sample_running"
proof -
  assume "ok sample_fc"
  then have f: "fd_reach ok True None [] (Frontdoor_New sample_fc, net0 [])" unfolding net0_def by (rule fd_reach.fresh)
  obtain r y where "Frontdoor_Start True None (Frontdoor_New sample_fc, net0 []) = (r, y)" by (rule prod.exhaust)
  then show ?thesis using fd_step.start [of "Frontdoor_New sample_fc" True None "net0 []" r y ok]
    by (intro fd_reach.further [OF f]) (simp add: sample_running_def Frontdoor_New_def)
qed

section \<open>Properties\<close>









text \<open>(C23) The restart budget.  On a task that always crashes, at the times \<open>ts\<close>, the supervisor gives up exactly when six crashes fall within
  a minute, and then calls \<open>onGiveUp\<close> once; otherwise it has restarted the task after each of them.  Every delay it waits is
  positive and at most four seconds.\<close>

theorem supervisor_gives_up_exactly:
  assumes "sorted ts" "fst (sup_run 0 NewSupervisor (map crash_at ts)) = (r, calls, delays)"
  shows "(r = Some RunGaveUp \<longleftrightarrow> (\<exists>n. n + 5 < length ts \<and> ts ! (n + 5) - ts ! n < RestartWindow)) \<and> calls = (if r = Some RunGaveUp then 1 else 0) \<and>
    (if r = Some RunGaveUp then length delays < length ts else r = None \<and> length delays = length ts) \<and>
    list_all (\<lambda>d. 0 < d \<and> d \<le> 4000000000) delays"
proof -
  have s: "fst (sup_run 0 NewSupervisor (map crash_at ts)) =
     (if over_budget [] ts then Some RunGaveUp else None, if over_budget [] ts then 1 else 0, map (\<lambda>k. backoff_for (0 + k)) [0..<survived [] ts])"
    using assms(1) by (intro sup_run_crashes [of _ _ "Min (set (0 # ts))"]) (auto simp: NewSupervisor_def in_window_def)
  show ?thesis using assms(2) survived_le [of "[]" ts] backoff_bounds unfolding s over_budget_gap [OF assms(1), symmetric]
    by (auto simp: list_all_iff)
qed

theorem supervisor_gives_up_exactly_witness:
  "fst (fst (sup_run 0 NewSupervisor (map crash_at [0, 1, 2, 3, 4, 5]))) = Some RunGaveUp"
proof -
  obtain r calls delays where s: "fst (sup_run 0 NewSupervisor (map crash_at [0, 1, 2, 3, 4, 5])) = (r, calls, delays)" by (rule prod_cases3)
  have "[0, 1, 2, 3, 4, 5 :: int] ! (0 + 5) - [0, 1, 2, 3, 4, 5] ! 0 < RestartWindow" by (simp add: RestartWindow_def numeral_eq_Suc)
  then have "r = Some RunGaveUp" using supervisor_gives_up_exactly [OF _ s] by (auto intro!: exI [of _ 0])
  then show ?thesis unfolding s by simp
qed


definition sample_req :: Msg where
  "sample_req = \<lparr>msg_Id = 7, msg_Response = False, msg_Authoritative = False, msg_RecursionAvailable = False, msg_Rcode = 0, msg_Question = [],
     msg_Answer = [], msg_Extra = []\<rparr>"

definition sample_wire :: wire_lib where
  "sample_wire = \<lparr>Unpack = \<lambda>_. Ret (Some sample_req), Pack = \<lambda>m. Some (itoa (int (msg_Rcode m))), RRTtl = \<lambda>_. 60\<rparr>"

definition sample_dns :: dns_lib where
  "sample_dns = \<lparr>SetReply = \<lambda>r. r, SetRcode = \<lambda>r c. r\<lparr>msg_Rcode := c\<rparr>, CopyMsg = \<lambda>r. r, IsEdns0 = \<lambda>r. None\<rparr>"


section \<open>Divergences\<close>

text \<open>A \<open>Reconcile\<close> that fails to start DNS over QUIC returns before it looks at DoH3, but keeps its flag: the next \<open>Reconcile\<close> with
  the same configuration reports success and still does not start it.\<close>

lemma reconcile_forgets_doh3:
  "\<exists>fd1 w1 fd2 w2. Frontdoor_Reconcile (sample_fc\<lparr>DoH3Enabled := True\<rparr>)
      (Frontdoor_New (sample_fc\<lparr>DoQEnabled := False\<rparr>), net0 [LFail ''address in use'']) = (Some ''frontdoor: reconcile: doq: address in use'', fd1, w1) \<and>
    Frontdoor_Reconcile (sample_fc\<lparr>DoH3Enabled := True\<rparr>) (fd1, w1) = (None, fd2, w2) \<and>
    DoH3Enabled (fd_cfg fd2) \<and> fc_TLSConfigs (fd_cfg fd2) \<and> fd_doh3 fd2 = None"
  by (simp add: fd_eval sample_fc_def net0_def Let_def)

text \<open>If \<open>ShutdownContext\<close> refuses a server that was never activated, a \<open>Start\<close> that fails at its second bind leaves the first socket open.\<close>

lemma failed_bind_leaks:
  "\<exists>fd w e. Frontdoor_Start False None (Frontdoor_New sample_fc, net0 [LOk, LFail ''address in use'']) = (Some e, fd, w) \<and>
    fd_socks fd = [] \<and> length (nw_open w) = 1"
  by (simp add: fd_eval sample_fc_def net0_def sample_bind fd_socks_def opt_list_def Let_def)

text \<open>A \<open>Start\<close> whose context ends while DoT is starting leaves that listener open and unrecorded.\<close>

lemma cancelled_dot_leaks:
  "\<exists>fd w e. Frontdoor_Start True None (Frontdoor_New sample_fc, net0 [LOk, LOk, LCancel ''context canceled'']) = (Some e, fd, w) \<and>
    fd_socks fd = [] \<and> map so_kind (nw_open w) = [KDoT]"
  by (simp add: fd_eval sample_fc_def net0_def sample_bind fd_socks_def opt_list_def Let_def)

text \<open>A wildcard address with a zone is not seen as one.\<close>

lemma zoned_wildcard_passes: "isWildcardBind ''[::%eth0]:53'' = False"
proof -
  have "SplitHostPort ''[::%eth0]:53'' = Some (''::%eth0'', ''53'')"
    by (simp add: SplitHostPort_def last_colon_def split_at_def Let_def)
  moreover have "ParseIP ''::%eth0'' = None" by (simp add: ParseIP_def ParseAddr_def parseIPv6_def Addr_zone_def Let_def)
  ultimately show ?thesis by (simp add: isWildcardBind_def)
qed

end
