(* ===== verification/Spec2Isabelle.thy ===== *)
theory Spec2Isabelle
  imports ApplyApi ExitUri Renderers Frontdoor
begin

text \<open>
  5GPN-Go is a gateway daemon.  A panel stores rules, exits (outbound proxies) and settings in SQLite; an apply turns them
  into a compiled rule table for the DNS resolver and into configuration files for the data-plane programs that systemd runs; the
  resolver answers a client's query or points it at the gateway; two forwarders read the server name of a TCP or QUIC
  connection and relay it.  This library models these parts in HOL, following the Go sources under \<open>src/\<close>.

  \<^bold>\<open>How the parts interact.\<close>  A request to apply rules enters \<open>handleApply\<close>, which merges the registered rulesets, validates,
  stores a rule version and calls the Applier.  The Applier assembles the effective configuration from the database, hands it to
  the orchestrator, and on success activates the version and publishes the rule table; an observation of the units' health later
  confirms the apply or rolls it back.  The panel polls the outcome through the apply feed.  Switching and deleting exits take
  the same way.  The resolver classifies each query with the published table.

  \<^bold>\<open>Theories and sources.\<close>
  \<^item> \<open>Prelude\<close>: Go strings, results, panics as values, bounds-checked slices, list lemmas.  \<open>NetAddr\<close>: addresses and
    prefixes of \<open>net\<close> and \<open>net/netip\<close>.  \<open>Bytes\<close>: byte readers.  \<open>Json\<close>: the part of \<open>encoding/json\<close> the settings use.
  \<^item> \<open>Rules\<close>: \<open>internal/rules\<close> (model, validation, hash, dry run, parse).  \<open>RuleTable\<close>: \<open>internal/resolver\<close>
    \<open>ruletable.go\<close>, \<open>classify.go\<close>.  The trie and the maps are shown equal to a first-match scan in priority order, and a dry run
    predicts what the resolver does.  \<open>RuleImport\<close>: the two list importers.  \<open>Rulesets\<close>: \<open>internal/rulesets\<close>.
  \<^item> \<open>Resolver\<close>: \<open>resolver.go\<close>, \<open>spoof.go\<close>, \<open>upstream.go\<close>, \<open>metrics.go\<close>: which branch answers a query, and that the race of
    upstreams returns the first authoritative answer.
  \<^item> \<open>Sni\<close>, \<open>Quic\<close>: the two ClientHello readers, with every index and slice checked; they are shown to read what an
    encoder wrote and to agree with each other.  \<open>SniServer\<close>, \<open>QuicServer\<close>: the two forwarders, as step relations over
    accept loops, workers, relays, collector and shutdown; their caps, the release of every resource, and the guard on
    destinations are invariants by rule induction.  \<open>Netguard\<close>: the guard itself.
  \<^item> \<open>Db\<close>: \<open>internal/db/queries.go\<close>, tables as lists of rows, statements that may fail, transactions.  \<open>Exits\<close>:
    \<open>internal/exit/store.go\<close>, with the invariant that exactly one exit is active.  \<open>ExitUri\<close>: \<open>internal/exit/exit.go\<close>,
    the ten share-link parsers.  \<open>Settings\<close>: \<open>internal/settings\<close>, which \<open>Access\<close> (the internal-only gate) uses.
  \<^item> \<open>Orchestrator\<close>: \<open>internal/orchestrator\<close>.  \<open>Assemble\<close>: \<open>internal/core/assemble.go\<close>.  \<open>Applier\<close>, \<open>Switching\<close>,
    \<open>Lifecycle\<close>: \<open>internal/core/applier.go\<close>: an apply is all or nothing, a failed switch is compensated, a
    life-cycle row tells the truth and is settled by its observation.
  \<^item> \<open>Renderers\<close>: \<open>internal/config/render\<close> (mihomo, dnsdist, sniproxy): the rule lines of the proxy configuration decide as
    the dry run does.  \<open>Frontdoor\<close>: \<open>internal/frontdoor\<close>: the listeners of the five DNS transports as a step relation with
    failing binds and crashes, the supervisor, and what one query gets over each transport.
  \<^item> \<open>Feed\<close>, \<open>ApplyApi\<close>, \<open>Panel\<close>: the handlers of \<open>internal/api\<close> for applies, rules, snapshots, backups, sessions
    and the login limiter.

  \<^bold>\<open>State and effects.\<close>  A struct is a record, an enumeration or an error is a datatype, a fallible function returns a sum, a
  panic is a value of \<open>outcome\<close>.  A database, a host or an Applier is passed as state.  The outside world enters as a list
  of faults or of answers that the calls consume in order, so a theorem quantifies over every pattern of failures.  Machine
  integers are words where the code reads bytes; other integers of the code stay far below their width and are \<open>int\<close> or \<open>nat\<close>.

  \<^bold>\<open>Interfaces.\<close>  What one part relies on in another is a locale (\<open>single_active\<close> for the exit and version tables,
  \<open>ranked_index\<close> for the maps of the rule table, \<open>orchestrator_contract\<close>, \<open>kv_store\<close> for the settings), interpreted on the model's own definitions in the theory of the provider; the clients' lemmas are proved
  in the locale and the properties rest on the interpretation.

  \<^bold>\<open>Bounds and fuel.\<close>  Loops are recursive functions with a termination proof.  Three carry fuel: the group loop of the IPv6
  reader runs at most 8 times, as an address has 8 groups, and the JSON readers of lists (\<open>Json\<close>) and of nested values
  (\<open>ExitUri\<close>) get one more than the length of the text, as each call consumes a character.

  \<^bold>\<open>Parameters.\<close>  Code outside the repository is an argument: the DNS message library, HMAC and AES, JWT and bcrypt, the YAML
  codec, the archive reader, the HTTP client, the resolver and dialer of the host.  Their documented laws are named hypotheses where a property needs them, and its
  witness gives a concrete instance.

  \<^bold>\<open>Scope of the text model.\<close>  Case folding, trimming and host names are modelled for ASCII text.  Gaps in SQLite's
  AUTOINCREMENT, a crash between two writes, and interleavings inside a section under a mutex are outside the model.

  \<^bold>\<open>Not modelled.\<close>  What is built on third-party servers (the accept loop of DNS over QUIC, the pooled upstream DoT connection, HTTP
  routing), the settings and set-up handlers of the panel, the host tools (installer, updater, logs, metrics, MTProto control), the Telegram bot, the iOS profile, the WhatsApp
  shim, which the daemon does not start, and the process wiring of \<open>cmd\<close>: these move bytes or run programs, and what they decide
  is decided in the parts above.
\<close>

end
